(* ===== verification/Prelude.thy ===== *)
theory Prelude
  imports Main "HOL-Library.Word"
begin

text \<open>
  The vocabulary every component theory shares: the widths of the machine integers, the
  \<^verbatim>\<open>std::string\<close> searches the source uses (each returns \<open>None\<close> where C++ returns
  \<^verbatim>\<open>npos\<close>), decimal printing (\<^verbatim>\<open>std::to_string\<close>) and decimal parsing
  (\<^verbatim>\<open>strtoul\<close>/\<^verbatim>\<open>strtoull\<close> on digits, saturating), the trimming both file readers do,
  and the rules about them the component proofs use. A \<^verbatim>\<open>std::string\<close> is a list of
  \<open>char\<close>, one per byte.
\<close>

named_theorems str_simps \<open>equations of the string searches, for evaluation and proof\<close>

section \<open>Machine integers\<close>

type_synonym u8 = "8 word"
type_synonym u16 = "16 word"
type_synonym u32 = "32 word"
type_synonym u64 = "64 word"

lemma unat_of_nat_u8 [simp]: "n < 256 \<Longrightarrow> unat (of_nat n :: u8) = n"
  by (simp add: unat_of_nat take_bit_eq_mod)

lemma unat_of_nat_u16 [simp]: "n < 65536 \<Longrightarrow> unat (of_nat n :: u16) = n"
  by (simp add: unat_of_nat take_bit_eq_mod)

lemma unat_of_nat_u32 [simp]: "n < 4294967296 \<Longrightarrow> unat (of_nat n :: u32) = n"
  by (simp add: unat_of_nat take_bit_eq_mod)

lemma unat_u8_less [simp]: "unat (w :: u8) < 256"
  using unsigned_less [of w, where ?'a = nat] by simp

lemma unat_u16_less [simp]: "unat (w :: u16) < 65536"
  using unsigned_less [of w, where ?'a = nat] by simp

lemma unat_u32_less [simp]: "unat (w :: u32) < 4294967296"
  using unsigned_less [of w, where ?'a = nat] by simp

lemma unat_u64_of_u32 [simp]: "unat (ucast (w :: u32) :: u64) = unat w"
  by (simp add: unsigned_ucast_eq take_bit_eq_mod)
    (rule mod_less, rule less_trans [OF unat_u32_less], simp)

section \<open>Searching a string\<close>

text \<open>\<^verbatim>\<open>s.find(c)\<close>\<close>

fun find_char :: "char \<Rightarrow> string \<Rightarrow> nat option" where
  "find_char c [] = None"
| "find_char c (x # xs) = (if x = c then Some 0 else map_option Suc (find_char c xs))"

text \<open>\<^verbatim>\<open>s.find_first_of(chars)\<close> and \<^verbatim>\<open>s.find_first_not_of(chars)\<close>\<close>

fun find_first_of :: "string \<Rightarrow> string \<Rightarrow> nat option" where
  "find_first_of cs [] = None"
| "find_first_of cs (x # xs) = (if x \<in> set cs then Some 0 else map_option Suc (find_first_of cs xs))"

fun find_first_not_of :: "string \<Rightarrow> string \<Rightarrow> nat option" where
  "find_first_not_of cs [] = None"
| "find_first_not_of cs (x # xs) =
     (if x \<in> set cs then map_option Suc (find_first_not_of cs xs) else Some 0)"

text \<open>\<^verbatim>\<open>s.rfind(c)\<close>/\<^verbatim>\<open>s.find_last_of(c)\<close> and \<^verbatim>\<open>s.find_last_not_of(chars)\<close>: the last index.\<close>

definition find_last_char :: "char \<Rightarrow> string \<Rightarrow> nat option" where
  "find_last_char c s = map_option (\<lambda>i. length s - 1 - i) (find_char c (rev s))"

definition find_last_not_of :: "string \<Rightarrow> string \<Rightarrow> nat option" where
  "find_last_not_of cs s = map_option (\<lambda>i. length s - 1 - i) (find_first_not_of cs (rev s))"

text \<open>\<^verbatim>\<open>s.compare(0, p.size(), p) == 0\<close> and \<^verbatim>\<open>s.find(p)\<close> for a string \<^verbatim>\<open>p\<close>.\<close>

fun starts_with :: "string \<Rightarrow> string \<Rightarrow> bool" where
  "starts_with [] s = True"
| "starts_with (p # ps) [] = False"
| "starts_with (p # ps) (x # xs) = (p = x \<and> starts_with ps xs)"

fun find_str :: "string \<Rightarrow> string \<Rightarrow> nat option" where
  "find_str p [] = (if p = [] then Some 0 else None)"
| "find_str p (x # xs) =
     (if starts_with p (x # xs) then Some 0 else map_option Suc (find_str p xs))"

text \<open>\<^verbatim>\<open>s.substr(pos, n)\<close> for \<open>pos \<le> length s\<close>; \<^verbatim>\<open>s.substr(pos)\<close> is \<open>drop pos s\<close>.\<close>

definition substr :: "string \<Rightarrow> nat \<Rightarrow> nat \<Rightarrow> string" where
  "substr s pos n = take n (drop pos s)"

text \<open>The C string a buffer holds: everything before its first NUL.\<close>

definition c_str :: "string \<Rightarrow> string" where
  "c_str s = takeWhile (\<lambda>c. c \<noteq> CHR 0x00) s"

abbreviation NL :: char where "NL \<equiv> CHR 0x0A"
abbreviation CR :: char where "CR \<equiv> CHR 0x0D"

text \<open>A text in single quotes, as the messages write it.\<close>

definition quoted :: "string \<Rightarrow> string" where
  "quoted s = CHR 0x27 # s @ [CHR 0x27]"

lemma c_str_id: "CHR 0x00 \<notin> set s \<Longrightarrow> c_str s = s"
  unfolding c_str_def by (induction s) auto

lemma set_c_str: "set (c_str s) \<subseteq> set s"
  unfolding c_str_def by (auto dest: set_takeWhileD)

lemma find_char_None: "find_char c s = None \<longleftrightarrow> c \<notin> set s"
  by (induction s) auto

lemma find_char_notin [simp]: "c \<notin> set s \<Longrightarrow> find_char c s = None"
  by (simp add: find_char_None)

lemma find_char_SomeD:
  "find_char c s = Some i \<Longrightarrow> i < length s \<and> s ! i = c \<and> c \<notin> set (take i s)"
  by (induction s arbitrary: i) (auto split: if_splits)

lemma find_char_split:
  "find_char c s = Some i \<Longrightarrow> s = take i s @ c # drop (Suc i) s"
  using find_char_SomeD [of c s i] id_take_nth_drop [of i s] by simp

lemma find_char_append_notin [simp]:
  "c \<notin> set p \<Longrightarrow> find_char c (p @ s) = map_option (\<lambda>i. length p + i) (find_char c s)"
  by (cases "find_char c s"; induction p) auto

lemma find_char_hit [simp]: "c \<notin> set p \<Longrightarrow> find_char c (p @ c # t) = Some (length p)"
  by simp

lemma find_char_append_in:
  "c \<in> set p \<Longrightarrow> find_char c (p @ s) = find_char c p"
  by (induction p) auto

lemma find_first_not_of_None: "find_first_not_of cs s = None \<longleftrightarrow> set s \<subseteq> set cs"
  by (induction s) auto

lemma find_first_not_of_all [simp]: "set s \<subseteq> set cs \<Longrightarrow> find_first_not_of cs s = None"
  by (simp add: find_first_not_of_None)

lemma find_first_not_of_hit [simp]:
  "set a \<subseteq> set cs \<Longrightarrow> x \<notin> set cs \<Longrightarrow> find_first_not_of cs (a @ x # t) = Some (length a)"
  by (induction a) auto

lemma find_first_not_of_drop:
  "find_first_not_of cs s = Some i \<Longrightarrow> drop i s = dropWhile (\<lambda>c. c \<in> set cs) s \<and> i < length s"
  by (induction s arbitrary: i) (auto split: if_splits)

lemma find_first_of_None: "find_first_of cs s = None \<longleftrightarrow> set s \<inter> set cs = {}"
  by (induction s) auto

lemma find_first_of_SomeD:
  "find_first_of cs s = Some i \<Longrightarrow>
     i < length s \<and> s ! i \<in> set cs \<and> set (take i s) \<inter> set cs = {}"
  by (induction s arbitrary: i) (auto split: if_splits)

lemma find_last_char_None: "find_last_char c s = None \<longleftrightarrow> c \<notin> set s"
  by (simp add: find_last_char_def find_char_None)

lemma find_last_char_SomeD:
  assumes "find_last_char c s = Some i"
  shows "i < length s \<and> s ! i = c \<and> c \<notin> set (drop (Suc i) s)"
proof -
  from assms obtain j where j: "find_char c (rev s) = Some j" and i: "i = length s - 1 - j"
    by (auto simp: find_last_char_def)
  from find_char_SomeD [OF j] have jl: "j < length s" and c: "rev s ! j = c"
    and n: "c \<notin> set (take j (rev s))"
    by auto
  have "Suc i = length s - j" using jl i by simp
  then have "c \<notin> set (drop (Suc i) s)" using n by (simp add: take_rev)
  then show ?thesis using i jl c by (simp add: rev_nth)
qed

lemma starts_with_iff: "starts_with p s \<longleftrightarrow> (\<exists>t. s = p @ t)"
  by (induction p s rule: starts_with.induct) auto

lemma starts_with_append [simp]: "starts_with p (p @ s)"
  by (auto simp: starts_with_iff)

lemma starts_with_take: "starts_with p s \<longleftrightarrow> take (length p) s = p"
  by (induction p s rule: starts_with.induct) auto

lemma find_str_SomeD:
  "find_str p s = Some i \<Longrightarrow> i \<le> length s \<and> starts_with p (drop i s)"
  by (induction s arbitrary: i) (auto split: if_splits)

section \<open>Trimming\<close>

text \<open>
  \<^verbatim>\<open>trimmed()\<close> of \<^verbatim>\<open>key_value_file.cpp\<close> strips spaces and tabs from both ends; the
  two-sided \<^const>\<open>dropWhile\<close> is its reference definition.
\<close>

definition BLANKS :: string where
  "BLANKS = [CHR '' '', CHR 0x09]"

definition trimmed :: "string \<Rightarrow> string" where
  "trimmed text =
     (case find_first_not_of BLANKS text of
        None \<Rightarrow> []
      | Some first \<Rightarrow>
          substr text first (the (find_last_not_of BLANKS text) - first + 1))"

definition strip_blanks :: "string \<Rightarrow> string" where
  "strip_blanks s =
     rev (dropWhile (\<lambda>c. c \<in> set BLANKS) (rev (dropWhile (\<lambda>c. c \<in> set BLANKS) s)))"

lemma BLANKS_set [simp]: "set BLANKS = {CHR '' '', CHR 0x09}"
  by (simp add: BLANKS_def)

definition blank_free_ends :: "string \<Rightarrow> bool" where
  "blank_free_ends m \<longleftrightarrow> m = [] \<or> hd m \<notin> set BLANKS \<and> last m \<notin> set BLANKS"

lemma blank_decompose:
  obtains a m b where "s = a @ m @ b" "set a \<subseteq> set BLANKS" "set b \<subseteq> set BLANKS"
    "blank_free_ends m"
proof -
  let ?P = "\<lambda>c. c \<in> set BLANKS"
  define t where "t = dropWhile ?P s"
  define m where "m = rev (dropWhile ?P (rev t))"
  define b where "b = rev (takeWhile ?P (rev t))"
  have "rev t = rev b @ rev m" by (simp add: m_def b_def)
  then have t: "t = m @ b" by (metis rev_append rev_rev_ident)
  have s: "s = takeWhile ?P s @ m @ b"
    unfolding t [symmetric] t_def by simp
  have a: "set (takeWhile ?P s) \<subseteq> set BLANKS"
    by (blast dest: set_takeWhileD)
  have b: "set b \<subseteq> set BLANKS"
    unfolding b_def set_rev by (blast dest: set_takeWhileD)
  have "blank_free_ends m"
  proof (cases "m = []")
    case False
    then have "dropWhile ?P (rev t) \<noteq> []" by (simp add: m_def)
    then have "hd (dropWhile ?P (rev t)) \<notin> set BLANKS" by (rule hd_dropWhile)
    then have l: "last m \<notin> set BLANKS" by (simp add: m_def last_rev)
    have "t \<noteq> []" using False t by simp
    then have "hd t \<notin> set BLANKS" unfolding t_def by (rule hd_dropWhile)
    then have "hd m \<notin> set BLANKS" using False t by simp
    with l show ?thesis by (simp add: blank_free_ends_def)
  qed (simp add: blank_free_ends_def)
  then show ?thesis by (rule that [OF s a b])
qed

lemma find_last_not_of_mid:
  assumes "set b \<subseteq> set cs" "m \<noteq> []" "last m \<notin> set cs"
  shows "find_last_not_of cs (a @ m @ b) = Some (length a + length m - 1)"
proof -
  have "rev (a @ m @ b) = rev b @ last m # rev (butlast m) @ rev a"
    using assms(2) by (metis append_Cons append_assoc append_butlast_last_id rev.simps(2)
        rev_append rev_swap rev_singleton_conv append_Nil)
  then show ?thesis using assms by (cases m) (simp_all add: find_last_not_of_def)
qed

lemma trimmed_mid:
  assumes "set a \<subseteq> set BLANKS" "set b \<subseteq> set BLANKS" "blank_free_ends m"
  shows "trimmed (a @ m @ b) = m"
proof (cases m)
  case Nil
  then show ?thesis using assms by (simp add: trimmed_def del: BLANKS_set)
next
  case (Cons x t)
  then have "find_last_not_of BLANKS (a @ m @ b) = Some (length a + length m - 1)"
    using assms by (intro find_last_not_of_mid) (auto simp: blank_free_ends_def simp del: BLANKS_set)
  moreover have "find_first_not_of BLANKS (a @ m @ b) = Some (length a)"
    using Cons assms by (simp add: blank_free_ends_def del: BLANKS_set)
  ultimately show ?thesis using Cons by (simp add: trimmed_def substr_def)
qed

lemma strip_blanks_mid:
  assumes "set a \<subseteq> set BLANKS" "set b \<subseteq> set BLANKS" "blank_free_ends m"
  shows "strip_blanks (a @ m @ b) = m"
proof -
  let ?P = "\<lambda>c. c \<in> set BLANKS"
  have a: "dropWhile ?P (a @ m @ b) = dropWhile ?P (m @ b)"
    using assms(1) by (intro dropWhile_append2) auto
  have b: "dropWhile ?P (rev b @ rev m) = dropWhile ?P (rev m)"
    using assms(2) by (intro dropWhile_append2) auto
  show ?thesis
  proof (cases "m = []")
    case True
    moreover have "dropWhile ?P b = []"
      unfolding dropWhile_eq_Nil_conv using assms(2) by blast
    ultimately show ?thesis using a by (simp only: strip_blanks_def append_Nil) simp
  next
    case False
    then have "dropWhile ?P (m @ b) = m @ b" "dropWhile ?P (rev m) = rev m"
      using assms(3)
      by (auto simp: blank_free_ends_def dropWhile_eq_self_iff hd_rev simp del: BLANKS_set)
    then show ?thesis using a b by (simp add: strip_blanks_def del: BLANKS_set)
  qed
qed

lemma trimmed_eq_strip: "trimmed s = strip_blanks s"
  by (rule blank_decompose [of s]) (simp add: trimmed_mid strip_blanks_mid)

lemma trimmed_ends: "blank_free_ends (trimmed s)"
  by (rule blank_decompose [of s]) (simp add: trimmed_mid)

lemma trimmed_id: "blank_free_ends m \<Longrightarrow> trimmed m = m"
  using trimmed_mid [of "[]" "[]" m] by simp

lemma trimmed_idem [simp]: "trimmed (trimmed s) = trimmed s"
  by (simp add: trimmed_id trimmed_ends)

lemma set_trimmed: "set (trimmed s) \<subseteq> set s"
  by (rule blank_decompose [of s]) (auto simp: trimmed_mid)

lemma trimmed_Nil_iff: "trimmed s = [] \<longleftrightarrow> set s \<subseteq> set BLANKS"
proof
  assume "trimmed s = []"
  then show "set s \<subseteq> set BLANKS"
    by (rule_tac blank_decompose [of s]) (auto simp: trimmed_mid)
next
  assume "set s \<subseteq> set BLANKS"
  then show "trimmed s = []" using trimmed_mid [of s "[]" "[]"] by (simp add: blank_free_ends_def)
qed

lemma hd_trimmed: "s \<noteq> [] \<Longrightarrow> hd s \<notin> set BLANKS \<Longrightarrow> hd (trimmed s) = hd s"
proof (rule blank_decompose [of s])
  fix a m b
  assume s: "s \<noteq> []" "hd s \<notin> set BLANKS" "s = a @ m @ b"
    and ab: "set a \<subseteq> set BLANKS" "set b \<subseteq> set BLANKS" and m: "blank_free_ends m"
  from s ab have "a = []" by (cases a) auto
  moreover from s ab this have "m \<noteq> []" by (cases b) auto
  ultimately show ?thesis using trimmed_mid [OF ab m] s(3) by simp
qed

section \<open>Decimal numbers\<close>

definition DIGITS :: string where
  "DIGITS = ''0123456789''"

definition digit_char :: "nat \<Rightarrow> char" where
  "digit_char d = DIGITS ! d"

definition digit_val :: "char \<Rightarrow> nat" where
  "digit_val c = (case find_char c DIGITS of None \<Rightarrow> 0 | Some d \<Rightarrow> d)"

text \<open>\<^verbatim>\<open>!s.empty() && s.find_first_not_of("0123456789") == npos\<close>\<close>

definition all_digits :: "string \<Rightarrow> bool" where
  "all_digits s \<longleftrightarrow> s \<noteq> [] \<and> find_first_not_of DIGITS s = None"

definition dec_val :: "string \<Rightarrow> nat" where
  "dec_val s = foldl (\<lambda>a c. a * 10 + digit_val c) 0 s"

text \<open>
  \<^verbatim>\<open>strtoull(s, nullptr, 10)\<close> (and \<^verbatim>\<open>strtoul\<close> where \<^verbatim>\<open>unsigned long\<close> has 64 bits) on a
  string of digits: the value, or \<^verbatim>\<open>ULLONG_MAX\<close> (with \<^verbatim>\<open>ERANGE\<close>) when it does not fit.
\<close>

definition ULLONG_MAX :: nat where
  "ULLONG_MAX = 18446744073709551615"

definition strtoull :: "string \<Rightarrow> nat" where
  "strtoull s = min ULLONG_MAX (dec_val s)"

text \<open>\<^verbatim>\<open>std::to_string\<close> of an unsigned value.\<close>

fun to_string :: "nat \<Rightarrow> string" where
  "to_string n = (if n < 10 then [digit_char n] else to_string (n div 10) @ [digit_char (n mod 10)])"

declare to_string.simps [simp del]

lemma digit_cases:
  assumes "d < 10"
  shows "d = 0 \<or> d = 1 \<or> d = 2 \<or> d = 3 \<or> d = 4 \<or> d = 5 \<or> d = 6 \<or> d = 7 \<or> d = 8 \<or> d = (9::nat)"
  using assms by arith

lemma digit_val_char [simp]: "d < 10 \<Longrightarrow> digit_val (digit_char d) = d"
  by (drule digit_cases, elim disjE) (simp_all add: digit_val_def digit_char_def DIGITS_def)

lemma digit_char_in [simp]: "d < 10 \<Longrightarrow> digit_char d \<in> set DIGITS"
  by (simp add: digit_char_def DIGITS_def nth_mem del: list.set)

lemma digit_val_less [simp]: "digit_val c < 10"
proof (cases "find_char c DIGITS")
  case (Some d)
  then have "d < length DIGITS" using find_char_SomeD by blast
  then show ?thesis using Some by (simp add: digit_val_def DIGITS_def)
qed (simp add: digit_val_def)

lemma dec_val_Nil [simp]: "dec_val [] = 0"
  by (simp add: dec_val_def)

lemma dec_val_snoc [simp]: "dec_val (s @ [c]) = dec_val s * 10 + digit_val c"
  by (simp add: dec_val_def)

lemma dec_val_less: "dec_val s < 10 ^ length s"
proof (induction s rule: rev_induct)
  case (snoc c s)
  have "dec_val s * 10 + digit_val c < (dec_val s + 1) * 10" using digit_val_less [of c] by simp
  also have "\<dots> \<le> 10 ^ length s * 10" using snoc by (intro mult_le_mono1) simp
  finally show ?case by simp
qed simp

lemma dec_val_to_string [simp]: "dec_val (to_string n) = n"
proof (induction n rule: to_string.induct)
  case (1 n)
  show ?case
  proof (cases "n < 10")
    case True
    then show ?thesis by (simp add: to_string.simps [of n] dec_val_def)
  next
    case False
    then show ?thesis using 1 by (simp add: to_string.simps [of n])
  qed
qed

lemma set_to_string: "set (to_string n) \<subseteq> set DIGITS"
proof (induction n rule: to_string.induct)
  case (1 n)
  then show ?case by (auto simp: to_string.simps [of n])
qed

lemma to_string_nonempty [simp]: "to_string n \<noteq> []"
  by (subst to_string.simps) simp

lemma all_digits_to_string [simp]: "all_digits (to_string n)"
  using set_to_string by (simp add: all_digits_def)

lemma strtoull_to_string: "n \<le> ULLONG_MAX \<Longrightarrow> strtoull (to_string n) = n"
  by (simp add: strtoull_def)

lemma to_string_inj: "to_string m = to_string n \<Longrightarrow> m = n"
  by (metis dec_val_to_string)

lemma length_to_string_pow: "n < 10 ^ k \<Longrightarrow> k > 0 \<Longrightarrow> length (to_string n) \<le> k"
proof (induction n arbitrary: k rule: to_string.induct)
  case (1 n)
  show ?case
  proof (cases "n < 10")
    case True
    then show ?thesis using 1(3) by (simp add: to_string.simps [of n])
  next
    case False
    then obtain j where k: "k = Suc j" using 1(3) by (cases k) auto
    then have "j > 0" "n div 10 < 10 ^ j" using False 1(2) by (auto intro!: gr0I)
    then show ?thesis using 1(1) [OF False] k False by (simp add: to_string.simps [of n])
  qed
qed

lemma length_to_string: "n \<le> ULLONG_MAX \<Longrightarrow> length (to_string n) \<le> 20"
  using length_to_string_pow [of n 20] by (simp add: ULLONG_MAX_def)

lemma unat_u8_le: "unat (w :: u8) \<le> 255" using unat_u8_less [of w] by linarith
lemma unat_u16_le: "unat (w :: u16) \<le> 65535" using unat_u16_less [of w] by linarith
lemma unat_u32_le: "unat (w :: u32) \<le> 4294967295" using unat_u32_less [of w] by linarith

lemma unat_ullong:
  "unat (w8 :: u8) \<le> ULLONG_MAX" "unat (w16 :: u16) \<le> ULLONG_MAX" "unat (w32 :: u32) \<le> ULLONG_MAX"
  using unat_u8_le [of w8] unat_u16_le [of w16] unat_u32_le [of w32] unfolding ULLONG_MAX_def
  by linarith+

end
