(* ===== verification/KeyValueFile.thy ===== *)
theory KeyValueFile
  imports Prelude
begin

text \<open>
  \<^verbatim>\<open>src/src/key_value_file.{h,cpp}\<close>: the flat \<open>key = value\<close> reader the config file and
  the state store share. A file system is a function from paths to what can be read there
  (\<open>None\<close> where \<^verbatim>\<open>fopen\<close> fails). The loop over \<^verbatim>\<open>fgets\<close> with its bounded buffer is
  modelled as it is written, and proved equal to a reference that works on whole lines.
\<close>

section \<open>Definitions\<close>

record key_value_entry =
  kv_key :: string
  kv_value :: string
  kv_at :: nat

datatype key_value_status = KvOk | KvUnreadable | KvMalformed

type_synonym file_system = "string \<Rightarrow> string option"

definition MAX_KEY_VALUE_LINE_BYTES :: nat where
  "MAX_KEY_VALUE_LINE_BYTES = 4096"

text \<open>
  \<^verbatim>\<open>fgets(buffer, size, file)\<close>: at most \<open>bytes - 1\<close> bytes, through the first newline; what is
  left of the file is returned with them.
\<close>

fun fgets_take :: "nat \<Rightarrow> string \<Rightarrow> string" where
  "fgets_take 0 s = []"
| "fgets_take (Suc n) [] = []"
| "fgets_take (Suc n) (c # s) = (if c = NL then [c] else c # fgets_take n s)"

definition fgets :: "nat \<Rightarrow> string \<Rightarrow> (string \<times> string) option" where
  "fgets bytes s =
     (if s = [] then None
      else let chunk = fgets_take (bytes - 1) s in Some (chunk, drop (length chunk) s))"

text \<open>What one turn of the loop decides about the line it read.\<close>

datatype kv_line = LineSkipped | LineBad | LinePair string string

definition kv_content :: "string \<Rightarrow> kv_line" where
  "kv_content line0 =
     (let line1 = (if line0 \<noteq> [] \<and> last line0 = CR then butlast line0 else line0);
          content = trimmed line1
      in if content = [] \<or> hd content = CHR ''#'' then LineSkipped
         else (case find_char CHR ''='' content of
                 None \<Rightarrow> LineBad
               | Some equals \<Rightarrow>
                   (let k = trimmed (substr content 0 equals);
                        v = trimmed (drop (equals + 1) content)
                    in if k = [] then LineBad else LinePair k v)))"

definition kv_line :: "string \<Rightarrow> kv_line" where
  "kv_line buffer =
     (let line = c_str buffer;
          complete = (line \<noteq> [] \<and> last line = NL)
      in if \<not> complete \<and> length line > MAX_KEY_VALUE_LINE_BYTES then LineBad
         else kv_content (if complete then butlast line else line))"

lemma fgets_take_nonempty: "s \<noteq> [] \<Longrightarrow> n > 0 \<Longrightarrow> fgets_take n s \<noteq> []"
  by (cases n; cases s) auto

lemma fgets_less:
  "fgets (MAX_KEY_VALUE_LINE_BYTES + 2) s = Some (chunk, rest) \<Longrightarrow> length rest < length s"
  using fgets_take_nonempty [of s "MAX_KEY_VALUE_LINE_BYTES + 1"]
  by (auto simp: fgets_def Let_def split: if_splits)

text \<open>
  The \<^verbatim>\<open>while\<close> loop: what is left of the file, \<^verbatim>\<open>number\<close>, \<^verbatim>\<open>entries\<close> and
  \<^verbatim>\<open>malformed_line\<close> in; the status, entries and \<^verbatim>\<open>malformed_line\<close> out.
\<close>

function kv_loop ::
  "string \<Rightarrow> nat \<Rightarrow> key_value_entry list \<Rightarrow> nat \<Rightarrow> key_value_status \<times> key_value_entry list \<times> nat"
where
  "kv_loop rest number entries malformed =
     (case fgets (MAX_KEY_VALUE_LINE_BYTES + 2) rest of
        None \<Rightarrow> (KvOk, entries, malformed)
      | Some (buffer, rest') \<Rightarrow>
          (case kv_line buffer of
             LineBad \<Rightarrow> (KvMalformed, entries, number + 1)
           | LineSkipped \<Rightarrow> kv_loop rest' (number + 1) entries malformed
           | LinePair k v \<Rightarrow>
               kv_loop rest' (number + 1)
                 (entries @ [\<lparr>kv_key = k, kv_value = v, kv_at = number + 1\<rparr>]) malformed))"
  by pat_completeness auto
termination by (relation "measure (\<lambda>(rest, _). length rest)") (auto dest: fgets_less [simplified])

declare kv_loop.simps [simp del]

definition read_key_value_file ::
  "file_system \<Rightarrow> string \<Rightarrow> nat \<Rightarrow> key_value_status \<times> key_value_entry list \<times> nat" where
  "read_key_value_file files path malformed_line =
     (if path = [] then (KvUnreadable, [], malformed_line)
      else case files path of
             None \<Rightarrow> (KvUnreadable, [], malformed_line)
           | Some content \<Rightarrow>
               (case kv_loop content 0 [] malformed_line of
                  (status, entries, malformed) \<Rightarrow>
                    (status, if status \<noteq> KvOk then [] else entries, malformed)))"

section \<open>The reference: whole lines\<close>

function text_lines :: "string \<Rightarrow> string list" where
  "text_lines s =
     (if s = [] then []
      else case find_char NL s of
             None \<Rightarrow> [s]
           | Some i \<Rightarrow> take i s # text_lines (drop (Suc i) s))"
  by pat_completeness auto
termination by (relation "measure length") auto

declare text_lines.simps [simp del]

fun kv_lines ::
  "string list \<Rightarrow> nat \<Rightarrow> key_value_entry list \<Rightarrow> nat \<Rightarrow> key_value_status \<times> key_value_entry list \<times> nat"
where
  "kv_lines [] n es m = (KvOk, es, m)"
| "kv_lines (l # ls) n es m =
     (if length l > MAX_KEY_VALUE_LINE_BYTES then (KvMalformed, es, n + 1)
      else case kv_content l of
             LineBad \<Rightarrow> (KvMalformed, es, n + 1)
           | LineSkipped \<Rightarrow> kv_lines ls (n + 1) es m
           | LinePair k v \<Rightarrow>
               kv_lines ls (n + 1) (es @ [\<lparr>kv_key = k, kv_value = v, kv_at = n + 1\<rparr>]) m)"

lemma fgets_take_line:
  "NL \<notin> set l \<Longrightarrow> length l < n \<Longrightarrow> fgets_take n (l @ NL # t) = l @ [NL]"
  by (induction n "l @ NL # t" arbitrary: l rule: fgets_take.induct)
     (auto simp: Cons_eq_append_conv)

lemma fgets_take_prefix:
  "NL \<notin> set (take n s) \<Longrightarrow> fgets_take n s = take n s"
  by (induction n s rule: fgets_take.induct) auto

lemma kv_line_complete:
  assumes "NL \<notin> set l" "CHR 0x00 \<notin> set l"
  shows "kv_line (l @ [NL]) = kv_content l"
proof -
  have "c_str (l @ [NL]) = l @ [NL]" using assms by (intro c_str_id) auto
  then show ?thesis by (simp add: kv_line_def)
qed

lemma kv_line_open:
  assumes "NL \<notin> set l" "CHR 0x00 \<notin> set l"
  shows "kv_line l = (if length l > MAX_KEY_VALUE_LINE_BYTES then LineBad else kv_content l)"
proof -
  have "l \<noteq> [] \<Longrightarrow> last l \<noteq> NL" using assms(1) last_in_set by metis
  then show ?thesis using assms by (auto simp: kv_line_def c_str_id)
qed

lemma fgets_long:
  assumes "length p > MAX_KEY_VALUE_LINE_BYTES" "NL \<notin> set p" "CHR 0x00 \<notin> set p"
  shows "\<exists>rest. fgets (MAX_KEY_VALUE_LINE_BYTES + 2) (p @ t) =
                  Some (take (MAX_KEY_VALUE_LINE_BYTES + 1) p, rest)
         \<and> kv_line (take (MAX_KEY_VALUE_LINE_BYTES + 1) p) = LineBad"
proof -
  let ?n = "MAX_KEY_VALUE_LINE_BYTES + 1"
  have t: "take ?n (p @ t) = take ?n p" using assms(1) by simp
  then have n: "NL \<notin> set (take ?n (p @ t))" "CHR 0x00 \<notin> set (take ?n p)" "NL \<notin> set (take ?n p)"
    using assms(2,3) by (auto dest: in_set_takeD)
  have "p @ t \<noteq> []" using assms(1) by auto
  then show ?thesis
    using fgets_take_prefix [OF n(1)] t kv_line_open [OF n(3,2)] assms(1)
    by (simp add: fgets_def Let_def)
qed

lemma kv_loop_eq_lines:
  "CHR 0x00 \<notin> set s \<Longrightarrow> kv_loop s n es m = kv_lines (text_lines s) n es m"
proof (induction s arbitrary: n es m rule: text_lines.induct)
  case (1 s)
  show ?case
  proof (cases "s = []")
    case True
    show ?thesis unfolding True
      by (simp add: kv_loop.simps [of "[]"] text_lines.simps [of "[]"] fgets_def)
  next
    case ne: False
    show ?thesis
    proof (cases "find_char NL s")
      case None
      then have nl: "NL \<notin> set s" by (simp add: find_char_None)
      have tl: "text_lines s = [s]" using ne None by (simp add: text_lines.simps [of s])
      show ?thesis
      proof (cases "length s > MAX_KEY_VALUE_LINE_BYTES")
        case True
        then show ?thesis using fgets_long [of s "[]"] nl 1(2) tl
          by (auto simp: kv_loop.simps [of s])
      next
        case False
        then have "fgets (MAX_KEY_VALUE_LINE_BYTES + 2) s = Some (s, [])"
          using ne nl fgets_take_prefix [of "MAX_KEY_VALUE_LINE_BYTES + 1" s]
          by (simp add: fgets_def)
        moreover have "kv_line s = kv_content s" using False nl 1(2) by (simp add: kv_line_open)
        ultimately show ?thesis using tl False
          by (simp add: kv_loop.simps [of s] kv_loop.simps [of "[]"] fgets_def split: kv_line.split)
      qed
    next
      case (Some i)
      define l t where "l = take i s" and "t = drop (Suc i) s"
      have s: "s = l @ NL # t" using find_char_split [OF Some] by (simp add: l_def t_def)
      have nl: "NL \<notin> set l" using find_char_SomeD [OF Some] by (simp add: l_def)
      have nul: "CHR 0x00 \<notin> set l" "CHR 0x00 \<notin> set t" using 1(2) s by auto
      have tl: "text_lines s = l # text_lines t"
        using ne Some by (simp add: text_lines.simps [of s] l_def t_def)
      have ih: "\<And>n es m. kv_loop t n es m = kv_lines (text_lines t) n es m"
        using 1(1) [OF ne Some] nul(2) by (simp add: t_def)
      show ?thesis
      proof (cases "length l > MAX_KEY_VALUE_LINE_BYTES")
        case True
        then show ?thesis using fgets_long [of l "NL # t"] nl nul(1) tl s
          by (auto simp: kv_loop.simps [of "l @ NL # t"])
      next
        case False
        then have "fgets (MAX_KEY_VALUE_LINE_BYTES + 2) s = Some (l @ [NL], t)"
          using nl ne fgets_take_line [of l "MAX_KEY_VALUE_LINE_BYTES + 1" t] s
          by (simp add: fgets_def)
        then show ?thesis using kv_line_complete [OF nl nul(1)] tl ih False
          by (simp add: kv_loop.simps [of s] split: kv_line.split)
      qed
    qed
  qed
qed

section \<open>What every result satisfies\<close>

text \<open>An entry as the reader can produce it.\<close>

definition kv_entry_ok :: "key_value_entry \<Rightarrow> bool" where
  "kv_entry_ok e \<longleftrightarrow>
     kv_key e \<noteq> [] \<and> CHR ''='' \<notin> set (kv_key e) \<and> hd (kv_key e) \<noteq> CHR ''#''
     \<and> blank_free_ends (kv_key e) \<and> blank_free_ends (kv_value e)
     \<and> {NL, CHR 0x00} \<inter> (set (kv_key e) \<union> set (kv_value e)) = {}"

lemma set_butlast_or: "set (if b then butlast l else l) \<subseteq> set l"
  by (auto dest: in_set_butlastD)

lemma kv_content_pair:
  assumes "kv_content l = LinePair k v"
  shows "k \<noteq> [] \<and> CHR ''='' \<notin> set k \<and> hd k \<noteq> CHR ''#'' \<and> blank_free_ends k \<and> blank_free_ends v
         \<and> set k \<union> set v \<subseteq> set l"
proof -
  define c where "c = trimmed (if l \<noteq> [] \<and> last l = CR then butlast l else l)"
  have sub: "set c \<subseteq> set l" unfolding c_def using set_trimmed set_butlast_or by (meson order_trans)
  from assms obtain i where c: "c \<noteq> []" "hd c \<noteq> CHR ''#''" and i: "find_char CHR ''='' c = Some i"
    and k: "k = trimmed (take i c)" and v: "v = trimmed (drop (Suc i) c)" and ne: "k \<noteq> []"
    unfolding kv_content_def c_def [symmetric] Let_def
    by (auto split: if_splits option.splits simp: substr_def)
  have i0: "i \<noteq> 0" using ne k by (auto simp: trimmed_Nil_iff)
  have eq: "CHR ''='' \<notin> set k" using find_char_SomeD [OF i] k set_trimmed [of "take i c"] by blast
  have "set k \<subseteq> set c" using k set_trimmed [of "take i c"] set_take_subset [of i c] by blast
  moreover have "set v \<subseteq> set c" using v set_trimmed [of "drop (Suc i) c"] set_drop_subset by fast
  moreover have "hd k \<noteq> CHR ''#''"
  proof -
    have "blank_free_ends c" by (simp add: c_def trimmed_ends)
    then have "hd (take i c) \<notin> set BLANKS" "take i c \<noteq> []"
      using c i0 by (auto simp: blank_free_ends_def)
    then have "hd k = hd (take i c)" using k by (simp add: hd_trimmed del: BLANKS_set)
    then show ?thesis using c i0 by simp
  qed
  ultimately show ?thesis using ne eq sub k v trimmed_ends by (metis Un_least order_trans)
qed

lemma strip_last:
  "x \<notin> set (butlast l) \<Longrightarrow> x \<notin> set (if l \<noteq> [] \<and> last l = x then butlast l else l)"
  by (cases l rule: rev_cases) auto

lemma fgets_take_nl: "NL \<notin> set (butlast (fgets_take n s))"
  by (induction n s rule: fgets_take.induct) auto

lemma kv_line_pair:
  assumes "kv_line (fgets_take n s) = LinePair k v"
  shows "kv_entry_ok \<lparr>kv_key = k, kv_value = v, kv_at = i\<rparr>"
proof -
  let ?b = "fgets_take n s" and ?l = "c_str (fgets_take n s)"
  let ?t = "if ?l \<noteq> [] \<and> last ?l = NL then butlast ?l else ?l"
  from assms have kc: "kv_content ?t = LinePair k v"
    by (auto simp: kv_line_def Let_def split: if_splits)
  have "NL \<notin> set (butlast ?l)"
  proof (cases "?l = ?b")
    case True
    then show ?thesis by (simp add: fgets_take_nl)
  next
    case False
    then obtain u x where u: "?b = ?l @ x # u"
      by (metis append_Nil2 c_str_def list.exhaust takeWhile_dropWhile_id)
    then have "butlast ?b = ?l @ butlast (x # u)" by (metis butlast_append list.distinct(1))
    then show ?thesis using fgets_take_nl [of n s] by (auto dest: in_set_butlastD)
  qed
  then have "NL \<notin> set ?t" by (rule strip_last)
  moreover have "CHR 0x00 \<notin> set ?l" unfolding c_str_def by (auto dest: set_takeWhileD)
  then have "CHR 0x00 \<notin> set ?t" by (auto dest: in_set_butlastD)
  ultimately show ?thesis using kv_content_pair [OF kc] by (auto simp: kv_entry_ok_def)
qed

lemma kv_loop_result:
  "kv_loop rest n es m = (st, es', m') \<Longrightarrow>
     \<exists>new. es' = es @ new \<and> (\<forall>e \<in> set new. n < kv_at e \<and> kv_entry_ok e)
       \<and> sorted_wrt (<) (map kv_at new) \<and> st \<noteq> KvUnreadable
       \<and> (if st = KvMalformed then n < m' else m' = m)"
proof (induction rest n es m rule: kv_loop.induct)
  case (1 rest n es m)
  show ?case
  proof (cases "fgets (MAX_KEY_VALUE_LINE_BYTES + 2) rest")
    case None
    then show ?thesis using 1(3) by (simp add: kv_loop.simps [of rest])
  next
    case (Some br)
    then obtain b r where br: "br = (b, r)" and fg: "fgets (MAX_KEY_VALUE_LINE_BYTES + 2) rest = Some (b, r)"
      by (cases br) auto
    show ?thesis
    proof (cases "kv_line b")
      case LineBad
      then show ?thesis using 1(3) fg by (auto simp: kv_loop.simps [of rest])
    next
      case LineSkipped
      then have "kv_loop r (n + 1) es m = (st, es', m')"
        using 1(3) fg by (simp add: kv_loop.simps [of rest])
      from 1(1) [OF Some br [symmetric] LineSkipped this] show ?thesis
        by (auto split: if_splits dest: Suc_lessD)
    next
      case (LinePair k v)
      let ?e = "\<lparr>kv_key = k, kv_value = v, kv_at = n + 1\<rparr>"
      have "kv_loop r (n + 1) (es @ [?e]) m = (st, es', m')"
        using LinePair 1(3) fg by (simp add: kv_loop.simps [of rest])
      from 1(2) [OF Some br [symmetric] LinePair this] obtain new where
        new: "es' = es @ ?e # new" "\<forall>e \<in> set new. n + 1 < kv_at e \<and> kv_entry_ok e"
          "sorted_wrt (<) (map kv_at new)" "st \<noteq> KvUnreadable"
          "if st = KvMalformed then n + 1 < m' else m' = m"
        by auto
      have "kv_entry_ok ?e" using fg LinePair kv_line_pair [of _ rest k v]
        by (auto simp: fgets_def Let_def split: if_splits)
      with new show ?thesis by (intro exI [of _ "?e # new"]) (auto split: if_splits)
    qed
  qed
qed

section \<open>Reading back what was rendered\<close>

lemma kv_content_render:
  assumes "blank_free_ends k" "blank_free_ends v" "k \<noteq> []" "v \<noteq> []" "hd k \<noteq> CHR ''#''"
    "CHR ''='' \<notin> set k" "last v \<noteq> CR"
  shows "kv_content (k @ '' = '' @ v) = LinePair k v"
proof -
  let ?l = "k @ '' = '' @ v"
  have "last ?l = last v" using assms(4) by simp
  moreover have "blank_free_ends ?l" using assms by (simp add: blank_free_ends_def)
  moreover have "find_char CHR ''='' ?l = Some (length k + 1)" using assms(6) by simp
  moreover have "trimmed (take (length k + 1) ?l) = k" "trimmed (drop (length k + 2) ?l) = v"
    using trimmed_mid [of "[]" "'' ''" k] trimmed_mid [of "'' ''" "[]" v] assms(1,2) by auto
  ultimately show ?thesis using assms
    by (simp add: kv_content_def trimmed_id substr_def Let_def)
qed

lemma text_lines_append:
  "NL \<notin> set l \<Longrightarrow> text_lines (l @ NL # s) = l # text_lines s"
  by (simp add: text_lines.simps [of "l @ NL # s"])

section \<open>Properties\<close>

text \<open>
  For a file without NUL bytes, the reader with its bounded \<^verbatim>\<open>fgets\<close> buffer computes what
  the line-by-line reference does, on every file: the line longer than the bound is refused at
  its own number, a last line without a newline is read, and a failure keeps no entry.
\<close>

lemma read_key_value_file_by_lines:
  assumes "path \<noteq> []" "files path = Some content" "CHR 0x00 \<notin> set content"
  shows "read_key_value_file files path m =
    (case kv_lines (text_lines content) 0 [] m of
       (status, entries, m') \<Rightarrow> (status, if status = KvOk then entries else [], m'))"
  using assms by (auto simp: read_key_value_file_def kv_loop_eq_lines split: prod.split)

lemma text_lines_example: "text_lines (''a=b'' @ [NL] @ ''c'') = [''a=b'', ''c'']"
  using text_lines_append [of "''a=b''" "''c''"] by (simp add: text_lines.simps [of "''c''"])

text \<open>
  Whatever the file holds, and whatever its size: entries come back only with the status Ok,
  \<^verbatim>\<open>malformed_line\<close> is changed only by Malformed (to a line number of the file, from 1), the
  entries are in ascending line order, and every key is non-empty, trimmed, without \<open>=\<close>, newline
  or NUL and not a comment, every value trimmed and without newline or NUL.
\<close>

theorem read_key_value_file_result:
  assumes "read_key_value_file files path m = (status, entries, m')"
  shows "(status \<noteq> KvOk \<longrightarrow> entries = [])
    \<and> (if status = KvMalformed then m' \<ge> 1 else m' = m)
    \<and> (status = KvUnreadable \<longleftrightarrow> path = [] \<or> files path = None)
    \<and> sorted_wrt (<) (map kv_at entries)
    \<and> (\<forall>e \<in> set entries. kv_at e \<ge> 1 \<and> kv_entry_ok e)"
proof (cases "path = [] \<or> files path = None")
  case True
  then have "read_key_value_file files path m = (KvUnreadable, [], m)"
    by (auto simp: read_key_value_file_def)
  then show ?thesis using assms True by simp
next
  case False
  then obtain content st es where f: "path \<noteq> []" "files path = Some content"
    and l: "kv_loop content 0 [] m = (st, es, m')" "status = st"
      "entries = (if st \<noteq> KvOk then [] else es)"
    using assms by (auto simp: read_key_value_file_def split: prod.splits)
  from kv_loop_result [OF l(1)] l(2,3) f show ?thesis
    by (auto split: if_splits)
qed

theorem read_key_value_file_result_witness:
  "sorted_wrt (<) (map kv_at (fst (snd (read_key_value_file [''f'' \<mapsto> ''x = 1''] ''f'' 3))))"
  using read_key_value_file_result [of "[''f'' \<mapsto> ''x = 1'']" "''f''" 3
      "fst (read_key_value_file [''f'' \<mapsto> ''x = 1''] ''f'' 3)"
      "fst (snd (read_key_value_file [''f'' \<mapsto> ''x = 1''] ''f'' 3))"
      "snd (snd (read_key_value_file [''f'' \<mapsto> ''x = 1''] ''f'' 3))"]
  by simp

end
