(* ===== verification/StdMap.thy ===== *)
theory StdMap
  imports Prelude "HOL-Library.Char_ord" "HOL-Library.List_Lexorder"
begin

text \<open>
  \<^verbatim>\<open>std::map\<close> as the source uses it: an association list kept in strictly ascending key
  order, which is the order its iteration visits. \<^verbatim>\<open>std::string\<close> keys compare
  lexicographically by unsigned byte, which is the order \<open>List_Lexorder\<close> and \<open>Char_ord\<close>
  give \<open>string\<close>. The contract the clients rely on is the locale \<open>dictionary\<close>;
  \<open>std_map\<close> interprets it on these operations.
\<close>

type_synonym ('k, 'v) std_map = "('k \<times> 'v) list"

text \<open>\<^verbatim>\<open>m[key] = value\<close>\<close>

fun map_insert :: "'k::linorder \<Rightarrow> 'v \<Rightarrow> ('k, 'v) std_map \<Rightarrow> ('k, 'v) std_map" where
  "map_insert k v [] = [(k, v)]"
| "map_insert k v ((k', v') # m) =
     (if k < k' then (k, v) # (k', v') # m
      else if k = k' then (k, v) # m
      else (k', v') # map_insert k v m)"

text \<open>\<^verbatim>\<open>m.erase(key)\<close>\<close>

fun map_erase :: "'k::linorder \<Rightarrow> ('k, 'v) std_map \<Rightarrow> ('k, 'v) std_map" where
  "map_erase k [] = []"
| "map_erase k ((k', v') # m) = (if k = k' then m else (k', v') # map_erase k m)"

text \<open>\<^verbatim>\<open>m.find(key)\<close>\<close>

definition map_find :: "('k::linorder, 'v) std_map \<Rightarrow> 'k \<Rightarrow> 'v option" where
  "map_find m k = map_of m k"

definition map_wf :: "('k::linorder, 'v) std_map \<Rightarrow> bool" where
  "map_wf m \<longleftrightarrow> sorted_wrt (<) (map fst m)"

lemma map_wf_Nil [simp]: "map_wf []"
  by (simp add: map_wf_def)

lemma map_wf_Cons:
  "map_wf ((k, v) # m) \<longleftrightarrow> (\<forall>k' \<in> fst ` set m. k < k') \<and> map_wf m"
  by (simp add: map_wf_def)

lemma keys_insert [simp]: "fst ` set (map_insert k v m) = insert k (fst ` set m)"
  by (induction k v m rule: map_insert.induct) auto

lemma keys_erase: "fst ` set (map_erase k m) \<subseteq> fst ` set m"
  by (induction k m rule: map_erase.induct) auto

lemma map_wf_insert [simp]: "map_wf m \<Longrightarrow> map_wf (map_insert k v m)"
  by (induction k v m rule: map_insert.induct) (auto simp: map_wf_Cons)

lemma map_wf_erase [simp]: "map_wf m \<Longrightarrow> map_wf (map_erase k m)"
proof (induction k m rule: map_erase.induct)
  case (2 k k' v' m)
  then have "\<forall>x \<in> fst ` set m. k' < x" by (simp add: map_wf_Cons)
  with keys_erase [of k m] have "\<forall>x \<in> fst ` set (map_erase k m). k' < x" by blast
  with 2 show ?case by (simp add: map_wf_Cons)
qed simp

lemma map_find_Nil [simp]: "map_find [] k = None"
  by (simp add: map_find_def)

lemma map_find_insert [simp]: "map_find (map_insert k v m) = (map_find m)(k \<mapsto> v)"
  by (induction k v m rule: map_insert.induct) (auto simp: map_find_def fun_eq_iff)

lemma map_find_erase [simp]:
  assumes "map_wf m"
  shows "map_find (map_erase k m) = (map_find m)(k := None)"
  using assms
proof (induction k m rule: map_erase.induct)
  case (2 k k' v' m)
  then have "k = k' \<Longrightarrow> map_of m k = None"
    by (auto simp: map_wf_Cons map_of_eq_None_iff)
  with 2 show ?case by (auto simp: map_find_def map_wf_Cons fun_eq_iff)
qed (simp add: map_find_def fun_eq_iff)

text \<open>A map is determined by what its lookups return, so equal lookups iterate alike.\<close>

lemma map_find_in: "map_wf m \<Longrightarrow> map_find m k = Some v \<longleftrightarrow> (k, v) \<in> set m"
  unfolding map_find_def map_wf_def
  by (metis distinct_map map_of_eq_Some_iff strict_sorted_iff)

lemma map_ext:
  assumes "map_wf m" "map_wf n" "map_find m = map_find n"
  shows "m = n"
proof -
  have *: "sorted (map fst m)" "distinct (map fst m)" "sorted (map fst n)" "distinct (map fst n)"
    using assms(1,2) unfolding map_wf_def by (auto simp: strict_sorted_iff)
  have set: "set m = set n"
    using map_find_in [OF assms(1)] map_find_in [OF assms(2)] assms(3) by auto
  have "inj_on fst (set m \<union> set n)"
    using *(2) set by (simp add: distinct_map)
  then show ?thesis using * set by (intro map_sorted_distinct_set_unique)
qed

locale dictionary =
  fixes ins :: "'k \<Rightarrow> 'v \<Rightarrow> 'm \<Rightarrow> 'm"
    and del :: "'k \<Rightarrow> 'm \<Rightarrow> 'm"
    and lkp :: "'m \<Rightarrow> 'k \<Rightarrow> 'v option"
    and wf :: "'m \<Rightarrow> bool"
  assumes lkp_ins: "wf m \<Longrightarrow> lkp (ins k v m) = (lkp m)(k \<mapsto> v)"
    and lkp_del: "wf m \<Longrightarrow> lkp (del k m) = (lkp m)(k := None)"
    and wf_ins: "wf m \<Longrightarrow> wf (ins k v m)"
    and wf_del: "wf m \<Longrightarrow> wf (del k m)"
    and extensional: "wf m \<Longrightarrow> wf n \<Longrightarrow> lkp m = lkp n \<Longrightarrow> m = n"
begin

text \<open>Assigning a list of pairs in order, and putting a saved list of entries back.\<close>

lemma wf_fold_ins: "wf m \<Longrightarrow> wf (fold (\<lambda>(k, v). ins k v) kvs m)"
  by (induction kvs arbitrary: m) (auto intro: wf_ins)

lemma lkp_fold_ins:
  "wf m \<Longrightarrow> lkp (fold (\<lambda>(k, v). ins k v) kvs m) = lkp m ++ map_of (rev kvs)"
proof (induction kvs rule: rev_induct)
  case (snoc kv kvs)
  then show ?case
    using wf_fold_ins [of m kvs] by (cases kv) (simp add: lkp_ins fun_eq_iff map_add_def)
qed simp

lemma wf_put_back:
  "wf m \<Longrightarrow> wf (fold (\<lambda>(k, v). case v of None \<Rightarrow> del k | Some w \<Rightarrow> ins k w) old m)"
proof (induction old rule: rev_induct)
  case (snoc kv old)
  then show ?case by (cases kv) (auto intro: wf_ins wf_del split: option.split)
qed simp

lemma lkp_put_back:
  "wf m \<Longrightarrow> lkp (fold (\<lambda>(k, v). case v of None \<Rightarrow> del k | Some w \<Rightarrow> ins k w) old m) k =
     (case map_of (rev old) k of None \<Rightarrow> lkp m k | Some v \<Rightarrow> v)"
proof (induction old rule: rev_induct)
  case (snoc kv old)
  then show ?case
    using wf_put_back [of m old]
    by (cases kv; cases "snd kv") (simp_all add: lkp_ins lkp_del)
qed simp

text \<open>The rollback law: saving what each key held and putting it back undoes any assignments.\<close>

lemma put_back_undoes:
  assumes "wf m"
  shows "fold (\<lambda>(k, v). case v of None \<Rightarrow> del k | Some w \<Rightarrow> ins k w)
           (map (\<lambda>(k, v). (k, lkp m k)) kvs) (fold (\<lambda>(k, v). ins k v) kvs m) = m"
    (is "fold ?f ?old ?m' = m")
proof (rule extensional)
  show wf: "wf m" by fact
  show "wf (fold ?f ?old ?m')" by (intro wf_put_back wf_fold_ins wf)
  show "lkp (fold ?f ?old ?m') = lkp m"
  proof
    fix k
    have wf': "wf ?m'" by (intro wf_fold_ins wf)
    show "lkp (fold ?f ?old ?m') k = lkp m k"
    proof (cases "k \<in> fst ` set kvs")
      case True
      then have "map_of (rev ?old) k = Some (lkp m k)"
      proof (induction kvs rule: rev_induct)
        case (snoc kv kvs)
        then show ?case by (cases kv) auto
      qed simp
      then show ?thesis using lkp_put_back [OF wf'] by simp
    next
      case False
      then have "map_of (rev ?old) k = None" "map_of (rev kvs) k = None"
        by (force simp: map_of_eq_None_iff)+
      then show ?thesis using lkp_put_back [OF wf'] lkp_fold_ins [OF wf] by (simp add: map_add_def)
    qed
  qed
qed

end

interpretation std_map: dictionary map_insert map_erase map_find map_wf
  by unfold_locales (auto intro: map_ext)

text \<open>Assigning a map's own entries in order rebuilds it.\<close>

lemma map_of_rev_wf: "map_wf m \<Longrightarrow> map_of (rev m) = map_of m"
proof
  fix k assume "map_wf m"
  then have d: "distinct (map fst m)" "distinct (map fst (rev m))"
    by (simp_all add: map_wf_def strict_sorted_iff rev_map [symmetric])
  then have "map_of (rev m) k = Some v \<longleftrightarrow> map_of m k = Some v" for v
    by (simp add: map_of_eq_Some_iff)
  then show "map_of (rev m) k = map_of m k"
    by (cases "map_of m k"; cases "map_of (rev m) k") auto
qed

lemma fold_insert_self:
  assumes "map_wf m"
  shows "fold (\<lambda>(k, v). map_insert k v) m [] = m"
proof (rule map_ext)
  show "map_find (fold (\<lambda>(k, v). map_insert k v) m []) = map_find m"
    using std_map.lkp_fold_ins [of "[]" m] map_of_rev_wf [OF assms]
    by (simp add: map_find_def fun_eq_iff map_add_def split: option.split)
qed (use assms std_map.wf_fold_ins [of "[]" m] in auto)

end
