(* ===== verification/StateStore.thy ===== *)
theory StateStore
  imports KeyValueFile StdMap
begin

text \<open>
  \<^verbatim>\<open>src/src/state_store.{h,cpp}\<close>: the daemon's memory. \<open>store_values\<close> is a \<^verbatim>\<open>std::map\<close>
  (\<open>StdMap\<close>); \<^verbatim>\<open>write()\<close> is the sequence of system calls it makes, each of which the
  record \<open>syscalls\<close> lets succeed or fail, and yields the list of file systems after each
  call, so that a kill between any two of them is one of the listed states. What an unflushed
  stream has reached the temporary file is left to \<open>spilled\<close>, which is arbitrary.
\<close>

section \<open>The path and the store\<close>

definition STATE_SUBDIR :: string where "STATE_SUBDIR = ''sendspin-cli''"
definition STATE_FILE :: string where "STATE_FILE = ''state''"

definition KEY_LAST_SERVER :: string where "KEY_LAST_SERVER = ''last-server''"
definition KEY_LAST_SERVER_HASH :: string where "KEY_LAST_SERVER_HASH = ''last-server-hash''"
definition KEY_STATIC_DELAY_MS :: string where "KEY_STATIC_DELAY_MS = ''static-delay-ms''"
definition KEY_VOLUME :: string where "KEY_VOLUME = ''volume''"
definition KEY_MUTED :: string where "KEY_MUTED = ''muted''"
definition KEY_SECURITY_PRIVATE_KEY :: string where
  "KEY_SECURITY_PRIVATE_KEY = ''security-private-key''"
definition KEY_PAIRING_PSK :: string where "KEY_PAIRING_PSK = ''pairing-psk''"
definition KEY_PAIRING_PREFIX :: string where "KEY_PAIRING_PREFIX = ''pairing.''"
definition SECURITY_EXTRA :: string where "SECURITY_EXTRA = ''security-extra.''"

type_synonym environment = "string \<Rightarrow> string option"

definition env_or_empty :: "environment \<Rightarrow> string \<Rightarrow> string" where
  "env_or_empty env name = (case env name of None \<Rightarrow> [] | Some v \<Rightarrow> v)"

definition parent_directory :: "string \<Rightarrow> string" where
  "parent_directory path =
     (case find_last_char CHR ''/'' path of None \<Rightarrow> [] | Some slash \<Rightarrow> substr path 0 slash)"

definition state_store_path :: "environment \<Rightarrow> string \<Rightarrow> string" where
  "state_store_path env state_dir =
     (if state_dir \<noteq> [] then state_dir @ ''/'' @ STATE_FILE
      else
        (let base = env_or_empty env ''XDG_STATE_HOME'' in
         if base = [] then
           (let home = env_or_empty env ''HOME'' in
            if home = [] then []
            else (home @ ''/.local/state'') @ ''/'' @ STATE_SUBDIR @ ''/'' @ STATE_FILE)
         else base @ ''/'' @ STATE_SUBDIR @ ''/'' @ STATE_FILE))"

record state_store =
  store_path :: string
  store_values :: "(string, string) std_map"

definition StateStore :: "string \<Rightarrow> state_store" where
  "StateStore path = \<lparr>store_path = path, store_values = []\<rparr>"

datatype state_load_result = Loaded | Absent | Corrupt

definition state_load ::
  "file_system \<Rightarrow> state_store \<Rightarrow> nat \<Rightarrow> state_load_result \<times> state_store \<times> nat" where
  "state_load files s malformed_line =
     (case read_key_value_file files (store_path s) malformed_line of
        (KvUnreadable, _, m) \<Rightarrow> (Absent, s\<lparr>store_values := []\<rparr>, m)
      | (KvMalformed, _, m) \<Rightarrow> (Corrupt, s\<lparr>store_values := []\<rparr>, m)
      | (KvOk, entries, m) \<Rightarrow>
          (Loaded, s\<lparr>store_values := fold (\<lambda>e. map_insert (kv_key e) (kv_value e)) entries []\<rparr>, m))"

section \<open>Writing the file\<close>

text \<open>The outcome of each call \<^verbatim>\<open>write()\<close> makes, and what an unflushed stream has written.\<close>

record syscalls =
  mkdir_ok :: bool
  remove_ok :: bool
  open_ok :: bool
  fdopen_ok :: bool
  printf_ok :: "nat \<Rightarrow> bool"
  fflush_ok :: bool
  fsync_ok :: bool
  fclose_ok :: bool
  rename_ok :: bool
  pid :: nat
  spilled :: "nat \<Rightarrow> string"

definition HEADER_LINE :: string where
  "HEADER_LINE = ''# Written by sendspin-cli. Edits are overwritten.''"

definition render_pair :: "string \<times> string \<Rightarrow> string" where
  "render_pair kv = c_str (fst kv) @ '' = '' @ c_str (snd kv) @ [NL]"

definition state_text :: "(string, string) std_map \<Rightarrow> string" where
  "state_text vs = (HEADER_LINE @ [NL]) @ concat (map render_pair vs)"

definition temporary_path :: "syscalls \<Rightarrow> string \<Rightarrow> string" where
  "temporary_path sys path = path @ ''.tmp.'' @ to_string (pid sys)"

definition fs_remove :: "syscalls \<Rightarrow> string \<Rightarrow> file_system \<Rightarrow> file_system" where
  "fs_remove sys p files = (if remove_ok sys then files(p := None) else files)"

text \<open>The \<^verbatim>\<open>fprintf\<close> loop: the header is call 0, and the first failure ends it.\<close>

fun print_loop :: "syscalls \<Rightarrow> string \<Rightarrow> nat \<Rightarrow> nat \<Rightarrow> bool \<Rightarrow> file_system list \<Rightarrow> bool \<times> file_system list" where
  "print_loop sys tmp i 0 ok trace = (ok, trace)"
| "print_loop sys tmp i (Suc left) ok trace =
     (if \<not> ok then (ok, trace)
      else print_loop sys tmp (Suc i) left (printf_ok sys i)
             (trace @ [(last trace)(tmp \<mapsto> spilled sys i)]))"

definition state_write :: "syscalls \<Rightarrow> state_store \<Rightarrow> file_system \<Rightarrow> bool \<times> file_system list" where
  "state_write sys s files =
     (if store_path s = [] then (False, [files])
      else if parent_directory (store_path s) \<noteq> [] \<and> \<not> mkdir_ok sys then (False, [files])
      else
        (let tmp = temporary_path sys (store_path s);
             files1 = fs_remove sys tmp files
         in
         if \<not> open_ok sys \<or> files1 tmp \<noteq> None then (False, [files, files1])
         else
           (let files2 = files1(tmp \<mapsto> []) in
            if \<not> fdopen_ok sys then (False, [files, files1, files2, fs_remove sys tmp files2])
            else
              (let (printed, trace) =
                     print_loop sys tmp 0 (Suc (length (store_values s))) True [files, files1, files2];
                   flushed = (printed \<and> fflush_ok sys \<and> fsync_ok sys);
                   ok = (fclose_ok sys \<and> flushed);
                   files3 = (last trace)(tmp \<mapsto>
                     (if ok then state_text (store_values s) else spilled sys (length (store_values s) + 1)))
               in
               if \<not> ok \<or> \<not> rename_ok sys
               then (False, trace @ [files3, fs_remove sys tmp files3])
               else (True, trace @ [files3, files3(store_path s := files3 tmp, tmp := None)])))))"

section \<open>Reading and setting values\<close>

definition state_get :: "state_store \<Rightarrow> string \<Rightarrow> string option" where
  "state_get s k =
     (case map_find (store_values s) k of
        None \<Rightarrow> None
      | Some v \<Rightarrow> if v = [] then None else Some v)"

definition get_number :: "state_store \<Rightarrow> string \<Rightarrow> nat \<Rightarrow> nat option" where
  "get_number s k limit =
     (case state_get s k of
        None \<Rightarrow> None
      | Some v \<Rightarrow>
          if find_first_not_of DIGITS v \<noteq> None then None
          else (let parsed = strtoull v in if parsed > limit then None else Some parsed))"

definition set_all ::
  "syscalls \<Rightarrow> (string \<times> string) list \<Rightarrow> state_store \<Rightarrow> file_system
     \<Rightarrow> bool \<times> state_store \<times> file_system list" where
  "set_all sys pairs s files =
     (let previous = map (\<lambda>(k, v). (k, map_find (store_values s) k)) pairs;
          changed = list_ex (\<lambda>(k, v). map_find (store_values s) k \<noteq> Some v) pairs
      in
      if \<not> changed then (True, s, [files])
      else
        (let s' = s\<lparr>store_values := fold (\<lambda>(k, v). map_insert k v) pairs (store_values s)\<rparr>;
             (ok, trace) = state_write sys s' files
         in
         if ok then (True, s', trace)
         else (False,
               s'\<lparr>store_values := fold (\<lambda>(k, v). case v of None \<Rightarrow> map_erase k | Some w \<Rightarrow> map_insert k w)
                               previous (store_values s')\<rparr>,
               trace)))"

definition last_server :: "state_store \<Rightarrow> string" where
  "last_server s = (case state_get s KEY_LAST_SERVER of None \<Rightarrow> [] | Some v \<Rightarrow> v)"

definition set_last_server ::
  "syscalls \<Rightarrow> string \<Rightarrow> state_store \<Rightarrow> file_system \<Rightarrow> bool \<times> state_store \<times> file_system list" where
  "set_last_server sys server_id s files =
     (if server_id = [] then (False, s, [files])
      else set_all sys [(KEY_LAST_SERVER, server_id)] s files)"

definition last_server_hash :: "state_store \<Rightarrow> u32 option" where
  "last_server_hash s = map_option of_nat (get_number s KEY_LAST_SERVER_HASH (2 ^ 32 - 1))"

definition set_last_server_hash ::
  "syscalls \<Rightarrow> u32 \<Rightarrow> state_store \<Rightarrow> file_system \<Rightarrow> bool \<times> state_store \<times> file_system list" where
  "set_last_server_hash sys h s files =
     set_all sys [(KEY_LAST_SERVER_HASH, to_string (unat h))] s files"

definition static_delay_ms :: "state_store \<Rightarrow> u16 option" where
  "static_delay_ms s = map_option of_nat (get_number s KEY_STATIC_DELAY_MS (2 ^ 16 - 1))"

definition set_static_delay_ms ::
  "syscalls \<Rightarrow> u16 \<Rightarrow> state_store \<Rightarrow> file_system \<Rightarrow> bool \<times> state_store \<times> file_system list" where
  "set_static_delay_ms sys d s files =
     set_all sys [(KEY_STATIC_DELAY_MS, to_string (unat d))] s files"

definition stored_volume :: "state_store \<Rightarrow> u8 option" where
  "stored_volume s = map_option of_nat (get_number s KEY_VOLUME 100)"

definition stored_muted :: "state_store \<Rightarrow> bool option" where
  "stored_muted s =
     (case state_get s KEY_MUTED of
        None \<Rightarrow> None
      | Some v \<Rightarrow> if v = ''true'' then Some True else if v = ''false'' then Some False else None)"

definition set_volume_and_muted ::
  "syscalls \<Rightarrow> u8 \<Rightarrow> bool \<Rightarrow> state_store \<Rightarrow> file_system \<Rightarrow> bool \<times> state_store \<times> file_system list" where
  "set_volume_and_muted sys vol mute s files =
     set_all sys [(KEY_VOLUME, to_string (unat vol)),
                  (KEY_MUTED, if mute then ''true'' else ''false'')] s files"

definition security_private_key :: "state_store \<Rightarrow> string option" where
  "security_private_key s = state_get s KEY_SECURITY_PRIVATE_KEY"

definition set_security_private_key ::
  "syscalls \<Rightarrow> string \<Rightarrow> state_store \<Rightarrow> file_system \<Rightarrow> bool \<times> state_store \<times> file_system list" where
  "set_security_private_key sys v s files =
     (if v = [] then (False, s, [files]) else set_all sys [(KEY_SECURITY_PRIVATE_KEY, v)] s files)"

definition pairing_psk :: "state_store \<Rightarrow> string option" where
  "pairing_psk s = state_get s KEY_PAIRING_PSK"

definition set_pairing_psk ::
  "syscalls \<Rightarrow> string \<Rightarrow> state_store \<Rightarrow> file_system \<Rightarrow> bool \<times> state_store \<times> file_system list" where
  "set_pairing_psk sys v s files =
     (if v = [] then (False, s, [files]) else set_all sys [(KEY_PAIRING_PSK, v)] s files)"

definition pairing_records :: "state_store \<Rightarrow> (string \<times> string) list" where
  "pairing_records s =
     concat (map (\<lambda>(k, v).
       if \<not> starts_with KEY_PAIRING_PREFIX k \<or> v = [] then []
       else (let server_id = drop (length KEY_PAIRING_PREFIX) k in
             if server_id \<noteq> [] then [(server_id, v)] else [])) (store_values s))"

definition set_pairing_record ::
  "syscalls \<Rightarrow> string \<Rightarrow> string \<Rightarrow> state_store \<Rightarrow> file_system \<Rightarrow> bool \<times> state_store \<times> file_system list" where
  "set_pairing_record sys server_id psk s files =
     (if server_id = [] \<or> psk = [] then (False, s, [files])
      else set_all sys [(KEY_PAIRING_PREFIX @ server_id, psk)] s files)"

definition security_value :: "state_store \<Rightarrow> string \<Rightarrow> string option" where
  "security_value s k = (if k = [] then None else state_get s (SECURITY_EXTRA @ k))"

definition set_security_value ::
  "syscalls \<Rightarrow> string \<Rightarrow> string \<Rightarrow> state_store \<Rightarrow> file_system \<Rightarrow> bool \<times> state_store \<times> file_system list" where
  "set_security_value sys k v s files =
     (if k = [] then (False, s, [files]) else set_all sys [(SECURITY_EXTRA @ k, v)] s files)"

section \<open>The file changes all at once\<close>

lemma print_loop_trace:
  assumes "print_loop sys tmp i n ok trace = (ok', trace')" "trace \<noteq> []"
    "\<forall>fs \<in> set trace. \<forall>p. p \<noteq> tmp \<longrightarrow> fs p = files p"
  shows "trace' \<noteq> [] \<and> hd trace' = hd trace \<and> (\<forall>fs \<in> set trace'. \<forall>p. p \<noteq> tmp \<longrightarrow> fs p = files p)"
  using assms
proof (induction sys tmp i n ok trace rule: print_loop.induct)
  case (2 sys tmp i left ok trace)
  then show ?case using last_in_set [of trace] by (cases ok) auto
qed simp

lemma temporary_path_neq [simp]: "temporary_path sys p \<noteq> p" "p \<noteq> temporary_path sys p"
  by (simp_all add: temporary_path_def)

text \<open>What \<^verbatim>\<open>write()\<close> may do to the file system, as one relation on its trace.\<close>

definition replaces_atomically ::
  "string \<Rightarrow> string \<Rightarrow> string \<Rightarrow> file_system \<Rightarrow> bool \<Rightarrow> file_system list \<Rightarrow> bool" where
  "replaces_atomically path tmp new files ok trace \<longleftrightarrow>
     trace \<noteq> [] \<and> hd trace = files
     \<and> (\<forall>fs \<in> set (butlast trace). fs path = files path)
     \<and> (last trace) path = (if ok then Some new else files path)
     \<and> (ok \<longrightarrow> (last trace) tmp = None)
     \<and> (\<forall>fs \<in> set trace. \<forall>p. p \<noteq> path \<and> p \<noteq> tmp \<longrightarrow> fs p = files p)"

lemma replaces_atomically_kept:
  assumes "trace \<noteq> []" "hd trace = files" "path \<noteq> tmp"
    "\<forall>fs \<in> set trace. \<forall>p. p \<noteq> tmp \<longrightarrow> fs p = files p"
  shows "replaces_atomically path tmp new files False trace"
  using assms by (auto simp: replaces_atomically_def dest: in_set_butlastD)

lemma replaces_atomically_done:
  assumes "trace \<noteq> []" "hd trace = files" "path \<noteq> tmp"
    "\<forall>fs \<in> set trace. \<forall>p. p \<noteq> tmp \<longrightarrow> fs p = files p"
    "fs' path = Some new" "fs' tmp = None" "\<forall>p. p \<noteq> tmp \<and> p \<noteq> path \<longrightarrow> fs' p = files p"
  shows "replaces_atomically path tmp new files True (trace @ [fs'])"
  using assms by (auto simp: replaces_atomically_def)

lemma state_write_replaces:
  assumes w: "state_write sys s files = (ok, trace)"
  shows "replaces_atomically (store_path s) (temporary_path sys (store_path s))
           (state_text (store_values s)) files ok trace"
proof -
  let ?p = "store_path s" and ?t = "temporary_path sys (store_path s)"
  let ?f1 = "fs_remove sys ?t files" and ?n = "length (store_values s)"
  let ?f2 = "?f1(?t \<mapsto> [])"
  have f1: "\<forall>p. p \<noteq> ?t \<longrightarrow> fs_remove sys ?t fs p = fs p" for fs by (simp add: fs_remove_def)
  obtain printed tr where pl: "print_loop sys ?t 0 (Suc ?n) True [files, ?f1, ?f2] = (printed, tr)"
    by fastforce
  have tr: "tr \<noteq> []" "hd tr = files" "\<forall>fs \<in> set tr. \<forall>p. p \<noteq> ?t \<longrightarrow> fs p = files p"
    using print_loop_trace [OF pl, of files] f1 by auto
  then have l: "\<forall>p. p \<noteq> ?t \<longrightarrow> last tr p = files p" by simp
  define ok' where "ok' = (fclose_ok sys \<and> printed \<and> fflush_ok sys \<and> fsync_ok sys)"
  define f3 where "f3 = (last tr)(?t \<mapsto> (if ok' then state_text (store_values s) else spilled sys (?n + 1)))"
  have f3: "\<forall>p. p \<noteq> ?t \<longrightarrow> f3 p = files p" using l by (simp add: f3_def)
  show ?thesis
  proof (cases "?p = [] \<or> parent_directory ?p \<noteq> [] \<and> \<not> mkdir_ok sys \<or> \<not> open_ok sys
                \<or> ?f1 ?t \<noteq> None \<or> \<not> fdopen_ok sys")
    case True
    then have "\<not> ok \<and> trace \<noteq> [] \<and> hd trace = files \<and> (\<forall>fs \<in> set trace. \<forall>p. p \<noteq> ?t \<longrightarrow> fs p = files p)"
      using w f1 by (auto simp: state_write_def Let_def split: if_splits)
    then show ?thesis using replaces_atomically_kept [of trace files ?p ?t] by simp
  next
    case False
    then have w': "(if \<not> ok' \<or> \<not> rename_ok sys then (False, tr @ [f3, fs_remove sys ?t f3])
                   else (True, tr @ [f3, f3(?p := f3 ?t, ?t := None)])) = (ok, trace)"
      using w pl by (auto simp: state_write_def Let_def ok'_def f3_def simp del: print_loop.simps)
    show ?thesis
    proof (cases "ok' \<and> rename_ok sys")
      case True
      then have e: "ok" "trace = (tr @ [f3]) @ [f3(?p := f3 ?t, ?t := None)]" using w' by auto
      have "f3 ?t = Some (state_text (store_values s))" using True by (simp add: f3_def)
      with e tr f3 show ?thesis
        by (simp only: e(2) simp_thms) (intro replaces_atomically_done, auto)
    next
      case False
      then have "\<not> ok" "trace = tr @ [f3, fs_remove sys ?t f3]" using w' by auto
      with tr f3 f1 show ?thesis
        using replaces_atomically_kept [of trace files ?p ?t] by auto
    qed
  qed
qed

lemma set_last_butlast: "xs \<noteq> [] \<Longrightarrow> set xs = insert (last xs) (set (butlast xs))"
  by (cases xs rule: rev_cases) auto

text \<open>
  C1. A kill at any point of \<^verbatim>\<open>write()\<close>, and any system call failing, leaves the state file
  as it was or holding the complete new text: the states before the last one all show the old
  content, the last one shows the new text exactly when \<^verbatim>\<open>true\<close> was returned (with no
  temporary left over), and no file other than these two is ever touched.
\<close>

theorem state_write_is_atomic:
  assumes "state_write sys s files = (ok, trace)"
  shows "(\<forall>fs \<in> set trace. fs (store_path s) = files (store_path s)
            \<or> ok \<and> fs (store_path s) = Some (state_text (store_values s)))
    \<and> (ok \<longrightarrow> (last trace) (store_path s) = Some (state_text (store_values s))
            \<and> (last trace) (temporary_path sys (store_path s)) = None)
    \<and> (\<not> ok \<longrightarrow> (\<forall>fs \<in> set trace. fs (store_path s) = files (store_path s)))
    \<and> (\<forall>fs \<in> set trace. \<forall>p. p \<noteq> store_path s \<and> p \<noteq> temporary_path sys (store_path s)
            \<longrightarrow> fs p = files p)"
proof -
  note r = state_write_replaces [OF assms, unfolded replaces_atomically_def]
  then have "set trace = insert (last trace) (set (butlast trace))"
    by (simp add: set_last_butlast)
  with r show ?thesis by auto
qed

definition all_calls_ok :: syscalls where
  "all_calls_ok = \<lparr>mkdir_ok = True, remove_ok = True, open_ok = True, fdopen_ok = True,
     printf_ok = (\<lambda>_. True), fflush_ok = True, fsync_ok = True, fclose_ok = True,
     rename_ok = True, pid = 7, spilled = (\<lambda>_. [])\<rparr>"

theorem state_write_is_atomic_witness:
  "\<exists>trace. state_write all_calls_ok \<lparr>store_path = ''s'', store_values = [(''k'', ''v'')]\<rparr> Map.empty
             = (True, trace)
     \<and> last trace ''s'' = Some (HEADER_LINE @ [NL] @ ''k = v'' @ [NL])"
proof -
  let ?s = "\<lparr>store_path = ''s'', store_values = [(''k'', ''v'')]\<rparr>"
  obtain ok trace where w: "state_write all_calls_ok ?s Map.empty = (ok, trace)" by fastforce
  then have "ok"
    by (auto simp: state_write_def all_calls_ok_def fs_remove_def parent_directory_def
        find_last_char_def Let_def)
  moreover have "state_text [(''k'', ''v'')] = HEADER_LINE @ [NL] @ ''k = v'' @ [NL]"
    by (simp add: state_text_def render_pair_def c_str_def)
  ultimately show ?thesis using w state_write_is_atomic [OF w] by auto
qed

section \<open>Setting is all or nothing\<close>

lemma fold_put_back_eq:
  "fold (\<lambda>(k, v). case v of None \<Rightarrow> map_erase k | Some w \<Rightarrow> map_insert k w) old m =
   fold (\<lambda>(k, v) m. case v of None \<Rightarrow> map_erase k m | Some w \<Rightarrow> map_insert k w m) old m"
  by (rule fold_cong) (auto split: option.splits)

lemma unchanged_pairs:
  assumes "\<not> list_ex (\<lambda>(k, v). lkp k \<noteq> Some v) pairs"
  shows "lkp ++ map_of (rev pairs) = lkp"
proof
  fix k
  show "(lkp ++ map_of (rev pairs)) k = lkp k"
  proof (cases "map_of (rev pairs) k")
    case (Some v)
    then have "(k, v) \<in> set pairs" by (auto dest: map_of_SomeD)
    then have "lkp k = Some v" using assms by (auto simp: list_ex_iff)
    then show ?thesis using Some by simp
  qed (simp add: map_add_def)
qed

lemma set_all_all_or_nothing_lemma:
  assumes "map_wf (store_values s)" "set_all sys pairs s files = (ok, s', trace)"
  shows "store_path s' = store_path s \<and> map_wf (store_values s')
    \<and> (ok \<longrightarrow> map_find (store_values s') = map_find (store_values s) ++ map_of (rev pairs)
            \<and> (s' = s \<and> trace = [files]
               \<or> (last trace) (store_path s) = Some (state_text (store_values s'))))
    \<and> (\<not> ok \<longrightarrow> s' = s \<and> (\<forall>fs \<in> set trace. fs (store_path s) = files (store_path s)))"
proof (cases "list_ex (\<lambda>(k, v). map_find (store_values s) k \<noteq> Some v) pairs")
  case False
  then show ?thesis using assms by (auto simp: set_all_def Let_def unchanged_pairs)
next
  case True
  let ?s1 = "s\<lparr>store_values := fold (\<lambda>(k, v). map_insert k v) pairs (store_values s)\<rparr>"
  obtain b tr where w: "state_write sys ?s1 files = (b, tr)" by fastforce
  have undo: "fold (\<lambda>(k, v). case v of None \<Rightarrow> map_erase k | Some w \<Rightarrow> map_insert k w)
      (map (\<lambda>(k, v). (k, map_find (store_values s) k)) pairs) (store_values ?s1) = store_values s"
    using std_map.put_back_undoes [OF assms(1), of pairs] by (simp add: fold_put_back_eq)
  from assms(2) True w undo have r: "ok = b" "trace = tr" "s' = (if b then ?s1 else s)"
    by (cases b; simp add: set_all_def Let_def)+
  note sw = state_write_replaces [OF w, unfolded replaces_atomically_def]
  have "\<not> b \<Longrightarrow> fs \<in> set tr \<Longrightarrow> fs (store_path s) = files (store_path s)" for fs
    using sw set_last_butlast [of tr] by auto
  moreover note std_map.lkp_fold_ins [OF assms(1), of pairs] std_map.wf_fold_ins [OF assms(1), of pairs]
  moreover have "b \<Longrightarrow> last tr (store_path s) = Some (state_text (store_values ?s1))" using sw by simp
  ultimately show ?thesis using r assms(1) by (cases b) simp_all
qed

lemma set_all_trace_nonempty:
  "set_all sys pairs s files = (ok, s', trace) \<Longrightarrow> trace \<noteq> [] \<and> last trace \<in> set trace"
  using state_write_replaces
  by (fastforce simp: set_all_def Let_def replaces_atomically_def split: if_splits prod.splits)

text \<open>
  A setter is all or nothing in memory as on disk: when it returns \<^verbatim>\<open>true\<close> exactly the given
  pairs have been assigned, and when the write fails at any call the store is the one before the
  call, key by key, and so is the file.
\<close>

lemma set_all_all_or_nothing:
  assumes "map_wf (store_values s)" "set_all sys pairs s files = (ok, s', trace)"
  shows "store_path s' = store_path s \<and> map_wf (store_values s')
    \<and> (ok \<longrightarrow> map_find (store_values s') = map_find (store_values s) ++ map_of (rev pairs)
            \<and> (s' = s \<and> trace = [files]
               \<or> (last trace) (store_path s) = Some (state_text (store_values s'))))
    \<and> (\<not> ok \<longrightarrow> s' = s \<and> (\<forall>fs \<in> set trace. fs (store_path s) = files (store_path s)))"
  by (rule set_all_all_or_nothing_lemma [OF assms])

section \<open>What is held describes what is on disk\<close>

definition kv_clean :: "string \<Rightarrow> string \<Rightarrow> bool" where
  "kv_clean k v \<longleftrightarrow>
     k \<noteq> [] \<and> CHR ''='' \<notin> set k \<and> hd k \<noteq> CHR ''#'' \<and> blank_free_ends k \<and> blank_free_ends v
     \<and> (v \<noteq> [] \<longrightarrow> last v \<noteq> CR) \<and> {NL, CHR 0x00} \<inter> (set k \<union> set v) = {}
     \<and> length k + 3 + length v \<le> MAX_KEY_VALUE_LINE_BYTES"

definition store_clean :: "state_store \<Rightarrow> bool" where
  "store_clean s \<longleftrightarrow> map_wf (store_values s) \<and> (\<forall>(k, v) \<in> set (store_values s). kv_clean k v)"

definition on_disk :: "file_system \<Rightarrow> state_store \<Rightarrow> bool" where
  "on_disk files s \<longleftrightarrow>
     (case state_load files s 0 of (r, s', _) \<Rightarrow> r \<noteq> Corrupt \<and> s' = s)"

lemma kv_content_render_clean:
  assumes "kv_clean k v"
  shows "kv_content (k @ '' = '' @ v) = LinePair k v"
proof (cases "v = []")
  case False
  then show ?thesis using assms kv_content_render by (auto simp: kv_clean_def)
next
  case True
  have "blank_free_ends (k @ '' ='')" using assms by (auto simp: kv_clean_def blank_free_ends_def)
  then have "trimmed (k @ '' = '') = k @ '' =''"
    using trimmed_mid [of "[]" "'' ''" "k @ '' =''"] by simp
  moreover have "trimmed (k @ '' '') = k"
    using trimmed_mid [of "[]" "'' ''" k] assms by (simp add: kv_clean_def)
  ultimately show ?thesis using assms True
    by (simp add: kv_content_def kv_clean_def substr_def Let_def trimmed_def)
qed

lemma render_clean:
  assumes "kv_clean k v"
  shows "render_pair (k, v) = (k @ '' = '' @ v) @ [NL]" "NL \<notin> set (k @ '' = '' @ v)"
    "CHR 0x00 \<notin> set (k @ '' = '' @ v)" "length (k @ '' = '' @ v) \<le> MAX_KEY_VALUE_LINE_BYTES"
  using assms by (auto simp: render_pair_def c_str_id kv_clean_def)

lemma text_lines_rendered:
  "\<forall>(k, v) \<in> set kvs. kv_clean k v \<Longrightarrow>
     text_lines (concat (map render_pair kvs)) = map (\<lambda>(k, v). k @ '' = '' @ v) kvs
     \<and> CHR 0x00 \<notin> set (concat (map render_pair kvs))"
proof (induction kvs)
  case (Cons kv kvs)
  obtain k v where kv: "kv = (k, v)" by fastforce
  then have "kv_clean k v" using Cons.prems by simp
  note r = render_clean [OF this]
  have "text_lines ((k @ '' = '' @ v) @ NL # t) = (k @ '' = '' @ v) # text_lines t" for t
    by (rule text_lines_append [OF r(2)])
  with Cons r kv show ?case by simp
qed (simp add: text_lines.simps)

lemma kv_lines_rendered:
  "\<forall>(k, v) \<in> set kvs. kv_clean k v \<Longrightarrow>
     \<exists>new. kv_lines (map (\<lambda>(k, v). k @ '' = '' @ v) kvs) n es m = (KvOk, es @ new, m)
       \<and> map (\<lambda>e. (kv_key e, kv_value e)) new = kvs"
proof (induction kvs arbitrary: n es)
  case (Cons kv kvs)
  obtain k v where kv: "kv = (k, v)" by fastforce
  then have c: "kv_clean k v" using Cons.prems by simp
  let ?e = "\<lparr>kv_key = k, kv_value = v, kv_at = n + 1\<rparr>"
  obtain new where
    "kv_lines (map (\<lambda>(k, v). k @ '' = '' @ v) kvs) (n + 1) (es @ [?e]) m = (KvOk, (es @ [?e]) @ new, m)"
    "map (\<lambda>e. (kv_key e, kv_value e)) new = kvs"
    using Cons.IH [of "n + 1" "es @ [?e]"] Cons.prems by auto
  then show ?case using kv render_clean(4) [OF c] kv_content_render_clean [OF c]
    by (intro exI [of _ "?e # new"]) auto
qed simp

lemma header_skipped:
  "kv_content HEADER_LINE = LineSkipped" "length HEADER_LINE \<le> MAX_KEY_VALUE_LINE_BYTES"
  "NL \<notin> set HEADER_LINE" "CHR 0x00 \<notin> set HEADER_LINE"
  by code_simp+

lemma load_state_text:
  assumes "store_clean s" "store_path s \<noteq> []"
    "files (store_path s) = Some (state_text (store_values s))"
  shows "state_load files (s\<lparr>store_values := vs\<rparr>) m = (Loaded, s, m)"
proof -
  have c: "\<forall>(k, v) \<in> set (store_values s). kv_clean k v" and wf: "map_wf (store_values s)"
    using assms(1) by (auto simp: store_clean_def)
  note tl = text_lines_rendered [OF c]
  obtain new where new: "kv_lines (map (\<lambda>(k, v). k @ '' = '' @ v) (store_values s)) 1 [] m = (KvOk, new, m)"
    "map (\<lambda>e. (kv_key e, kv_value e)) new = store_values s"
    using kv_lines_rendered [OF c, of 1 "[]" m] by auto
  have "text_lines (state_text (store_values s)) = HEADER_LINE # map (\<lambda>(k, v). k @ '' = '' @ v) (store_values s)"
    using tl text_lines_append [OF header_skipped(3)] by (simp add: state_text_def)
  moreover have "CHR 0x00 \<notin> set (state_text (store_values s))"
    using tl header_skipped(4) by (simp add: state_text_def)
  ultimately have r: "read_key_value_file files (store_path s) m = (KvOk, new, m)"
    using assms(2,3) new(1) header_skipped(1,2)
    by (simp add: read_key_value_file_def kv_loop_eq_lines)
  have "fold (\<lambda>e. map_insert (kv_key e) (kv_value e)) new [] = store_values s"
    using fold_insert_self [OF wf] unfolding new(2) [symmetric] by (simp add: fold_map o_def)
  with r show ?thesis by (simp add: state_load_def)
qed

lemma fold_insert_clean:
  assumes "map_wf m" "\<forall>(k, v) \<in> set m. kv_clean k v" "\<forall>(k, v) \<in> set kvs. kv_clean k v"
  shows "\<forall>(k, v) \<in> set (fold (\<lambda>(k, v). map_insert k v) kvs m). kv_clean k v"
proof -
  have "\<And>k v. map_find (fold (\<lambda>(k, v). map_insert k v) kvs m) k = Some v \<Longrightarrow> kv_clean k v"
    using assms unfolding std_map.lkp_fold_ins [OF assms(1)]
    by (fastforce dest: map_of_SomeD simp: map_add_Some_iff map_find_in)
  then show ?thesis using map_find_in [OF std_map.wf_fold_ins [OF assms(1)]] by fast
qed

lemma state_load_cong:
  "files (store_path s) = files' (store_path s) \<Longrightarrow> state_load files s m = state_load files' s m"
  by (simp add: state_load_def read_key_value_file_def)

lemma memory_stays_on_disk_lemma:
  assumes "store_clean s" "store_path s \<noteq> []" "on_disk files s"
    "\<forall>(k, v) \<in> set pairs. kv_clean k v" "set_all sys pairs s files = (ok, s', trace)"
  shows "on_disk (last trace) s' \<and> store_clean s'"
proof (cases "ok \<and> (last trace) (store_path s) = Some (state_text (store_values s'))")
  case True
  have p: "store_path s' = store_path s" "map_wf (store_values s')"
    using set_all_all_or_nothing_lemma [OF _ assms(5)] assms(1) by (auto simp: store_clean_def)
  have "s' = s \<or> store_values s' = fold (\<lambda>(k, v). map_insert k v) pairs (store_values s)"
    using assms(5) True by (auto simp: set_all_def Let_def split: if_splits prod.splits)
  then have "store_clean s'"
    using fold_insert_clean [of "store_values s" pairs] assms(1,4) p(2) by (auto simp: store_clean_def)
  then show ?thesis using load_state_text [of s' "last trace" "store_values s'" 0] True p assms(2)
    by (simp add: on_disk_def)
next
  case False
  then have "s' = s" "(last trace) (store_path s) = files (store_path s)"
    using set_all_all_or_nothing_lemma [OF _ assms(5)] assms(1) set_all_trace_nonempty [OF assms(5)]
    by (auto simp: store_clean_def)
  then show ?thesis using assms(1,3) state_load_cong [of "last trace" s files]
    by (simp add: on_disk_def)
qed

text \<open>
  C3. The memory and the file agree, as an invariant of every run: after any \<^verbatim>\<open>set_all\<close> of
  clean pairs, whichever system calls fail, reading the file back gives exactly the values held.
  The next process therefore starts from what this one last had.
\<close>

theorem memory_stays_on_disk:
  assumes "store_clean s" "store_path s \<noteq> []" "on_disk files s"
    "\<forall>(k, v) \<in> set pairs. kv_clean k v" "set_all sys pairs s files = (ok, s', trace)"
  shows "on_disk (last trace) s' \<and> store_clean s'"
  by (rule memory_stays_on_disk_lemma [OF assms])

theorem memory_stays_on_disk_witness:
  "\<exists>s' trace. set_all all_calls_ok [(''volume'', ''40'')] (StateStore ''s'') Map.empty = (True, s', trace)
     \<and> on_disk (last trace) s'"
proof -
  obtain ok s' trace where
    w: "set_all all_calls_ok [(''volume'', ''40'')] (StateStore ''s'') Map.empty = (ok, s', trace)"
    by (metis prod_cases3)
  then have "ok"
    by (auto simp: set_all_def state_write_def all_calls_ok_def fs_remove_def Let_def StateStore_def
        parent_directory_def find_last_char_def)
  moreover have "kv_clean ''volume'' ''40''" by code_simp
  then have "on_disk (last trace) s'"
    using memory_stays_on_disk [OF _ _ _ _ w]
    by (simp add: store_clean_def StateStore_def on_disk_def state_load_def read_key_value_file_def)
  ultimately show ?thesis using w by auto
qed

section \<open>The values survive a restart\<close>

lemma get_set_number:
  assumes "map_find (store_values s) k = Some (to_string n)" "n \<le> limit" "limit \<le> ULLONG_MAX"
  shows "get_number s k limit = Some n"
  using assms set_to_string [of n]
  by (simp add: get_number_def state_get_def strtoull_to_string)

lemma clean_number:
  assumes "kv_clean k []" "length k \<le> 100" "n \<le> ULLONG_MAX"
  shows "kv_clean k (to_string n)"
proof -
  have d: "set (to_string n) \<subseteq> set DIGITS" by (rule set_to_string)
  have nd: "\<forall>c \<in> set DIGITS. c \<notin> set BLANKS \<and> c \<noteq> CR \<and> c \<noteq> NL \<and> c \<noteq> CHR 0x00" by code_simp
  have "hd (to_string n) \<in> set DIGITS" "last (to_string n) \<in> set DIGITS"
    using subsetD [OF d hd_in_set] subsetD [OF d last_in_set] by auto
  moreover have "length (to_string n) \<le> 20" using length_to_string [OF assms(3)] .
  ultimately show ?thesis using assms d nd
    by (auto simp: kv_clean_def blank_free_ends_def MAX_KEY_VALUE_LINE_BYTES_def simp del: BLANKS_set)
qed

text \<open>What the next process holds after loading from the same path.\<close>

definition reloaded :: "file_system \<Rightarrow> string \<Rightarrow> state_store" where
  "reloaded files path = fst (snd (state_load files (StateStore path) 0))"

lemma reloaded_on_disk: "on_disk files s \<Longrightarrow> reloaded files (store_path s) = s"
  by (cases s)
     (auto simp: on_disk_def state_load_def StateStore_def reloaded_def
        split: prod.splits key_value_status.splits)

lemma set_all_reloaded:
  assumes "store_clean s" "store_path s \<noteq> []" "on_disk files s"
    "\<forall>(k, v) \<in> set pairs. kv_clean k v" "set_all sys pairs s files = (True, s', trace)"
  shows "map_find (store_values (reloaded (last trace) (store_path s)))
           = map_find (store_values s) ++ map_of (rev pairs)"
proof -
  have "on_disk (last trace) s'" using memory_stays_on_disk_lemma [OF assms] by simp
  moreover have "store_path s' = store_path s"
      "map_find (store_values s') = map_find (store_values s) ++ map_of (rev pairs)"
    using set_all_all_or_nothing_lemma [OF _ assms(5)] assms(1) by (auto simp: store_clean_def)
  ultimately show ?thesis using reloaded_on_disk by metis
qed

lemmas state_keys = KEY_LAST_SERVER_def KEY_LAST_SERVER_HASH_def KEY_STATIC_DELAY_MS_def
  KEY_VOLUME_def KEY_MUTED_def

lemma clean_keys:
  "kv_clean KEY_VOLUME []" "kv_clean KEY_STATIC_DELAY_MS []" "kv_clean KEY_LAST_SERVER_HASH []"
  "kv_clean KEY_MUTED ''true''" "kv_clean KEY_MUTED ''false''"
  "length KEY_VOLUME \<le> 100" "length KEY_STATIC_DELAY_MS \<le> 100" "length KEY_LAST_SERVER_HASH \<le> 100"
  by code_simp+

lemma clean_settings:
  "kv_clean KEY_VOLUME (to_string (unat (vol :: u8)))"
  "kv_clean KEY_STATIC_DELAY_MS (to_string (unat (delay :: u16)))"
  "kv_clean KEY_LAST_SERVER_HASH (to_string (unat (hash :: u32)))"
  by (intro clean_number clean_keys unat_ullong)+

lemma other_settings:
  assumes "map_find (store_values s2) = map_find (store_values s) ++ m"
  shows "m KEY_STATIC_DELAY_MS = None \<Longrightarrow> static_delay_ms s2 = static_delay_ms s"
    and "m KEY_LAST_SERVER_HASH = None \<Longrightarrow> last_server_hash s2 = last_server_hash s"
    and "m KEY_LAST_SERVER = None \<Longrightarrow> last_server s2 = last_server s"
    and "m KEY_VOLUME = None \<Longrightarrow> stored_volume s2 = stored_volume s"
    and "m KEY_MUTED = None \<Longrightarrow> stored_muted s2 = stored_muted s"
  using assms
  by (simp_all add: static_delay_ms_def last_server_hash_def last_server_def stored_volume_def
      stored_muted_def get_number_def state_get_def map_add_def)

text \<open>What the next process reads after a successful write of the volume and mute.\<close>

lemma volume_reloaded:
  assumes "store_clean s" "store_path s \<noteq> []" "on_disk files s"
    and "set_volume_and_muted sys vol mute s files = (True, s1, tr1)" "unat vol \<le> 100"
  shows "let r = reloaded (last tr1) (store_path s) in
          stored_volume r = Some vol \<and> stored_muted r = Some mute
          \<and> static_delay_ms r = static_delay_ms s \<and> last_server_hash r = last_server_hash s
          \<and> last_server r = last_server s"
proof -
  note rel = set_all_reloaded [OF assms(1-3)]
  have set: "set_all sys [(KEY_VOLUME, to_string (unat vol)),
      (KEY_MUTED, if mute then ''true'' else ''false'')] s files = (True, s1, tr1)"
    using assms(4) by (simp add: set_volume_and_muted_def)
  have c: "\<forall>(k, v) \<in> set [(KEY_VOLUME, to_string (unat vol)),
      (KEY_MUTED, if mute then ''true'' else ''false'')]. kv_clean k v"
    by (simp add: clean_settings clean_keys)
  have r: "map_find (store_values (reloaded (last tr1) (store_path s))) = map_find (store_values s) ++
      [KEY_MUTED \<mapsto> if mute then ''true'' else ''false'', KEY_VOLUME \<mapsto> to_string (unat vol)]"
    unfolding rel [OF c set] by (simp add: fun_eq_iff map_add_def state_keys)
  note o = other_settings [OF r]
  have "get_number (reloaded (last tr1) (store_path s)) KEY_VOLUME 100 = Some (unat vol)"
    by (rule get_set_number) (use r assms(5) in \<open>simp_all add: state_keys ULLONG_MAX_def map_add_def\<close>)
  then show "let r = reloaded (last tr1) (store_path s) in
          stored_volume r = Some vol \<and> stored_muted r = Some mute
          \<and> static_delay_ms r = static_delay_ms s \<and> last_server_hash r = last_server_hash s
          \<and> last_server r = last_server s"
    using o(1-3) r unfolding Let_def
    by (auto simp: stored_volume_def stored_muted_def state_get_def map_add_def state_keys)
qed

text \<open>
  What the protocol requires to persist does: after a successful setter, the store the next
  process loads from the same path reports the volume (a percentage) and mute, the static delay
  and the server hash that were set, at their full range, and every other key as before.
\<close>

lemma settings_survive_restart:
  assumes "store_clean s" "store_path s \<noteq> []" "on_disk files s"
  shows "(set_volume_and_muted sys vol mute s files = (True, s1, tr1) \<and> unat vol \<le> 100 \<longrightarrow>
       (let r = reloaded (last tr1) (store_path s) in
          stored_volume r = Some vol \<and> stored_muted r = Some mute
          \<and> static_delay_ms r = static_delay_ms s \<and> last_server_hash r = last_server_hash s
          \<and> last_server r = last_server s))
    \<and> (set_static_delay_ms sys delay s files = (True, s2, tr2) \<longrightarrow>
       (let r = reloaded (last tr2) (store_path s) in
          static_delay_ms r = Some delay \<and> stored_volume r = stored_volume s
          \<and> stored_muted r = stored_muted s \<and> last_server_hash r = last_server_hash s
          \<and> last_server r = last_server s))
    \<and> (set_last_server_hash sys hash s files = (True, s3, tr3) \<longrightarrow>
       (let r = reloaded (last tr3) (store_path s) in
          last_server_hash r = Some hash \<and> stored_volume r = stored_volume s
          \<and> stored_muted r = stored_muted s \<and> static_delay_ms r = static_delay_ms s
          \<and> last_server r = last_server s))"
proof (intro conjI impI)
  assume "set_volume_and_muted sys vol mute s files = (True, s1, tr1) \<and> unat vol \<le> 100"
  then show "let r = reloaded (last tr1) (store_path s) in
          stored_volume r = Some vol \<and> stored_muted r = Some mute
          \<and> static_delay_ms r = static_delay_ms s \<and> last_server_hash r = last_server_hash s
          \<and> last_server r = last_server s"
    using volume_reloaded [OF assms] by blast
next
  note rel = set_all_reloaded [OF assms]
  assume "set_static_delay_ms sys delay s files = (True, s2, tr2)"
  then have set: "set_all sys [(KEY_STATIC_DELAY_MS, to_string (unat delay))] s files = (True, s2, tr2)"
    by (simp add: set_static_delay_ms_def)
  have r: "map_find (store_values (reloaded (last tr2) (store_path s))) = map_find (store_values s) ++
      [KEY_STATIC_DELAY_MS \<mapsto> to_string (unat delay)]"
    by (subst rel [OF _ set]) (auto simp: clean_settings)
  note o = other_settings [OF r]
  have "get_number (reloaded (last tr2) (store_path s)) KEY_STATIC_DELAY_MS (2 ^ 16 - 1) = Some (unat delay)"
    by (rule get_set_number)
       (use r unat_u16_le [of delay] in \<open>simp_all add: ULLONG_MAX_def map_add_def\<close>)
  then show "let r = reloaded (last tr2) (store_path s) in
          static_delay_ms r = Some delay \<and> stored_volume r = stored_volume s
          \<and> stored_muted r = stored_muted s \<and> last_server_hash r = last_server_hash s
          \<and> last_server r = last_server s"
    using o(2-5) unfolding Let_def by (simp add: static_delay_ms_def state_keys)
next
  note rel = set_all_reloaded [OF assms]
  assume "set_last_server_hash sys hash s files = (True, s3, tr3)"
  then have set: "set_all sys [(KEY_LAST_SERVER_HASH, to_string (unat hash))] s files = (True, s3, tr3)"
    by (simp add: set_last_server_hash_def)
  have r: "map_find (store_values (reloaded (last tr3) (store_path s))) = map_find (store_values s) ++
      [KEY_LAST_SERVER_HASH \<mapsto> to_string (unat hash)]"
    by (subst rel [OF _ set]) (auto simp: clean_settings)
  note o = other_settings [OF r]
  have "get_number (reloaded (last tr3) (store_path s)) KEY_LAST_SERVER_HASH (2 ^ 32 - 1) = Some (unat hash)"
    by (rule get_set_number)
       (use r unat_u32_le [of hash] in \<open>simp_all add: ULLONG_MAX_def map_add_def\<close>)
  then show "let r = reloaded (last tr3) (store_path s) in
          last_server_hash r = Some hash \<and> stored_volume r = stored_volume s
          \<and> stored_muted r = stored_muted s \<and> static_delay_ms r = static_delay_ms s
          \<and> last_server r = last_server s"
    using o(1,3-5) unfolding Let_def by (simp add: last_server_hash_def state_keys)
qed

lemma first_write_succeeds:
  "set_all all_calls_ok [(k, v)] (StateStore ''s'') Map.empty =
     (True, s', trace) \<longleftrightarrow>
   (s', trace) = snd (set_all all_calls_ok [(k, v)] (StateStore ''s'') Map.empty)"
proof -
  have "fst (set_all all_calls_ok [(k, v)] (StateStore ''s'') Map.empty)"
    by (simp add: set_all_def state_write_def all_calls_ok_def fs_remove_def Let_def StateStore_def
        parent_directory_def find_last_char_def)
  then show ?thesis
    by (cases "set_all all_calls_ok [(k, v)] (StateStore ''s'') Map.empty") auto
qed

section \<open>Pairing records\<close>

lemma pairing_records_lookup:
  assumes "map_wf (store_values s)"
  shows "(i, p) \<in> set (pairing_records s) \<longleftrightarrow>
           i \<noteq> [] \<and> p \<noteq> [] \<and> map_find (store_values s) (KEY_PAIRING_PREFIX @ i) = Some p"
proof -
  have "(i, p) \<in> set (pairing_records s) \<longleftrightarrow>
      (\<exists>(k, v) \<in> set (store_values s). \<exists>t. k = KEY_PAIRING_PREFIX @ t \<and> v \<noteq> [] \<and> t \<noteq> [] \<and> (i, p) = (t, v))"
    by (simp only: pairing_records_def set_concat set_map UN_iff image_image Let_def
        starts_with_iff split_beta)
      (auto split: if_splits intro!: bexI [of _ "(KEY_PAIRING_PREFIX @ i, p)"])
  also have "\<dots> \<longleftrightarrow> i \<noteq> [] \<and> p \<noteq> [] \<and> (KEY_PAIRING_PREFIX @ i, p) \<in> set (store_values s)"
    by auto
  finally show ?thesis using map_find_in [OF assms] by simp
qed

text \<open>
  A pairing recorded for a server is the one record of that server afterwards, and the records
  of the other servers are untouched; an empty id or key records nothing.
\<close>

theorem set_pairing_record_effect:
  assumes "map_wf (store_values s)" "set_pairing_record sys server_id psk s files = (ok, s', trace)"
  shows "set (pairing_records s') =
     (if ok then {(i, p) \<in> set (pairing_records s). i \<noteq> server_id} \<union> {(server_id, psk)}
      else set (pairing_records s))
    \<and> (server_id = [] \<or> psk = [] \<longrightarrow> \<not> ok)"
proof (cases "server_id = [] \<or> psk = []")
  case True
  then show ?thesis using assms(2) by (auto simp: set_pairing_record_def)
next
  case False
  then have sa: "set_all sys [(KEY_PAIRING_PREFIX @ server_id, psk)] s files = (ok, s', trace)"
    using assms(2) by (simp add: set_pairing_record_def)
  note r = set_all_all_or_nothing_lemma [OF assms(1) sa]
  show ?thesis
  proof (cases ok)
    case True
    then have "map_find (store_values s') =
        (map_find (store_values s))(KEY_PAIRING_PREFIX @ server_id \<mapsto> psk)"
      using r by simp
    then have "(i, p) \<in> set (pairing_records s') \<longleftrightarrow>
        (if i = server_id then p = psk else (i, p) \<in> set (pairing_records s))" for i p
      using False r pairing_records_lookup [OF assms(1)] pairing_records_lookup [of s'] by auto
    then show ?thesis using True False by (auto split: if_splits)
  next
    case f: False
    then show ?thesis using r False by simp
  qed
qed

theorem set_pairing_record_effect_witness:
  "\<exists>ok s' trace. set_pairing_record all_calls_ok ''srv'' ''psk'' (StateStore ''s'') Map.empty = (ok, s', trace)
     \<and> (''srv'', ''psk'') \<in> set (pairing_records s')"
proof -
  let ?s = "StateStore ''s''"
  obtain ok s' trace where w: "set_pairing_record all_calls_ok ''srv'' ''psk'' ?s Map.empty = (ok, s', trace)"
    using prod_cases3 by blast
  then have ok by (simp add: set_pairing_record_def first_write_succeeds)
      (metis first_write_succeeds prod.collapse prod.inject)
  moreover have "map_wf (store_values ?s)" by (simp add: StateStore_def)
  ultimately show ?thesis using w set_pairing_record_effect [OF _ w] by auto
qed

section \<open>A newline in a value\<close>

text \<open>
  The cleanliness the invariant asks for is needed, and nothing in the setters checks it: a server id with
  a newline in it is stored with \<^verbatim>\<open>true\<close>, and the next load finds the file corrupt (at its
  third line) and loses every value in it.
\<close>

lemma newline_in_value_corrupts_store:
  "\<exists>s' trace. set_last_server all_calls_ok (''a'' @ [NL] @ ''b'') (StateStore ''s'') Map.empty
       = (True, s', trace)
     \<and> last_server s' = ''a'' @ [NL] @ ''b''
     \<and> state_load (last trace) (StateStore ''s'') 0 = (Corrupt, StateStore ''s'', 3)"
proof -
  let ?s = "StateStore ''s''" and ?v = "''a'' @ [NL] @ ''b''"
  obtain s' trace where w: "set_all all_calls_ok [(KEY_LAST_SERVER, ?v)] ?s Map.empty = (True, s', trace)"
    using first_write_succeeds [of KEY_LAST_SERVER ?v]
      surj_pair [of "snd (set_all all_calls_ok [(KEY_LAST_SERVER, ?v)] ?s Map.empty)"] by metis
  have s': "store_values s' = [(KEY_LAST_SERVER, ?v)]"
    using w by (auto simp: set_all_def StateStore_def Let_def split: prod.splits if_splits)
  have "map_wf (store_values ?s)" by (simp add: StateStore_def)
  from set_all_all_or_nothing_lemma [OF this w]
  have f: "last trace ''s'' = Some (state_text [(KEY_LAST_SERVER, ?v)])"
    using s' by (auto simp: StateStore_def)
  have t: "state_text [(KEY_LAST_SERVER, ?v)] =
      HEADER_LINE @ NL # ''last-server = a'' @ NL # ''b'' @ NL # []"
    by (simp add: state_text_def render_pair_def c_str_def KEY_LAST_SERVER_def)
  have tl: "text_lines (HEADER_LINE @ NL # ''last-server = a'' @ NL # ''b'' @ NL # []) =
      [HEADER_LINE, ''last-server = a'', ''b'']"
    using text_lines_append [OF header_skipped(3)] text_lines_append [of "''last-server = a''"]
      text_lines_append [of "''b''" "[]"] by (simp add: text_lines.simps [of "[]"])
  have "kv_lines [HEADER_LINE, ''last-server = a'', ''b''] 0 [] 0 =
      (KvMalformed, [\<lparr>kv_key = ''last-server'', kv_value = ''a'', kv_at = 2\<rparr>], 3)"
    by code_simp
  then have "state_load (last trace) ?s 0 = (Corrupt, ?s, 3)"
    using f t tl header_skipped(4)
    by (simp add: state_load_def read_key_value_file_def kv_loop_eq_lines StateStore_def)
  moreover have "last_server s' = ?v"
    using s' by (simp add: last_server_def state_get_def map_find_def)
  ultimately show ?thesis using w by (auto simp: set_last_server_def)
qed

end
