(* ===== verification/ConfigFile.thy ===== *)
theory ConfigFile
  imports StateStore
begin

text \<open>
  \<^verbatim>\<open>src/src/config_file.{h,cpp}\<close>: where the operator's config file is looked for, and how the
  first one found is read. Messages are the source's own strings; \<open>env_or_empty\<close>, which the
  source has once per file, is the one of \<open>StateStore\<close>.
\<close>

definition CONFIG_SUBDIR :: string where "CONFIG_SUBDIR = ''sendspin-cli''"
definition CONFIG_FILE :: string where "CONFIG_FILE = ''config''"
definition SYSTEM_CONFIG_PATH :: string where "SYSTEM_CONFIG_PATH = ''/etc/sendspin-cli.conf''"

record config_file =
  config_path :: string
  config_entries :: "key_value_entry list"

definition malformed_message :: "string \<Rightarrow> nat \<Rightarrow> string" where
  "malformed_message path l =
     path @ '':'' @ to_string l @
     '': not a '' @ quoted ''key = value'' @ '' line -- keys are the long flag names without the '' @
     ''dashes, and '' @ quoted ''#'' @ '' starts a comment only at the start of a line''"

definition config_search_paths :: "environment \<Rightarrow> string list" where
  "config_search_paths env =
     (let xdg = env_or_empty env ''XDG_CONFIG_HOME'';
          home = env_or_empty env ''HOME''
      in (if xdg \<noteq> [] then [xdg @ ''/'' @ CONFIG_SUBDIR @ ''/'' @ CONFIG_FILE] else [])
         @ (if home \<noteq> [] then [home @ ''/.config/'' @ CONFIG_SUBDIR @ ''/'' @ CONFIG_FILE] else [])
         @ [SYSTEM_CONFIG_PATH])"

text \<open>
  The search: the file to use and its entries, nothing found (an empty \<open>config_file\<close>), or the
  message of the error that stops the program.
\<close>

fun search_config :: "file_system \<Rightarrow> string list \<Rightarrow> nat \<Rightarrow> string + config_file" where
  "search_config files [] malformed_line = Inr \<lparr>config_path = [], config_entries = []\<rparr>"
| "search_config files (path # paths) malformed_line =
     (case read_key_value_file files path malformed_line of
        (KvOk, entries, _) \<Rightarrow> Inr \<lparr>config_path = path, config_entries = entries\<rparr>
      | (KvMalformed, _, l) \<Rightarrow> Inl (malformed_message path l)
      | (KvUnreadable, _, l) \<Rightarrow> search_config files paths l)"

definition load_config_file :: "file_system \<Rightarrow> string \<Rightarrow> string list \<Rightarrow> string + config_file" where
  "load_config_file files explicit_path search_paths =
     (if explicit_path \<noteq> [] then
        (case read_key_value_file files explicit_path 0 of
           (KvOk, entries, _) \<Rightarrow> Inr \<lparr>config_path = explicit_path, config_entries = entries\<rparr>
         | (KvMalformed, _, l) \<Rightarrow> Inl (malformed_message explicit_path l)
         | (KvUnreadable, _, _) \<Rightarrow>
             Inl (''--config '' @ quoted explicit_path @
                  '': cannot be read -- check the path exists and is readable''))
      else search_config files search_paths 0)"

section \<open>The first file found is used whole\<close>

definition readable :: "file_system \<Rightarrow> string \<Rightarrow> bool" where
  "readable files p \<longleftrightarrow> p \<noteq> [] \<and> files p \<noteq> None"

lemma read_unreadable [simp]:
  "\<not> readable files p \<Longrightarrow> read_key_value_file files p m = (KvUnreadable, [], m)"
  by (auto simp: readable_def read_key_value_file_def)

lemma read_readable:
  "readable files p \<Longrightarrow> read_key_value_file files p m = (KvUnreadable, es, l) \<Longrightarrow> False"
  using kv_loop_result [of "the (files p)" 0 "[]" m]
  by (auto simp: readable_def read_key_value_file_def split: prod.splits)

lemma search_config_spec:
  "search_config files paths m =
     (case find (readable files) paths of
        None \<Rightarrow> Inr \<lparr>config_path = [], config_entries = []\<rparr>
      | Some p \<Rightarrow>
          (case read_key_value_file files p m of
             (KvOk, entries, _) \<Rightarrow> Inr \<lparr>config_path = p, config_entries = entries\<rparr>
           | (_, _, l) \<Rightarrow> Inl (malformed_message p l)))"
  by (induction paths)
     (auto split: prod.split key_value_status.split dest: read_readable)

text \<open>
  The file chosen is the first path of the search that can be opened, read whole: later files
  are never looked at, so two are never merged, and a chosen file that does not parse stops the
  program instead of falling through to the next. An explicit path is the only one tried and must
  be readable; finding nothing is an empty configuration and no error.
\<close>

lemma load_config_file_first_found:
  "load_config_file files explicit_path search_paths =
     (let candidates = (if explicit_path \<noteq> [] then [explicit_path] else search_paths) in
      case find (readable files) candidates of
        None \<Rightarrow>
          (if explicit_path \<noteq> []
           then Inl (''--config '' @ quoted explicit_path @
                     '': cannot be read -- check the path exists and is readable'')
           else Inr \<lparr>config_path = [], config_entries = []\<rparr>)
      | Some p \<Rightarrow>
          (case read_key_value_file files p 0 of
             (KvOk, entries, _) \<Rightarrow> Inr \<lparr>config_path = p, config_entries = entries\<rparr>
           | (_, _, l) \<Rightarrow> Inl (malformed_message p l)))"
  by (auto simp: load_config_file_def search_config_spec Let_def
      split: prod.split key_value_status.split dest: read_readable)

lemma config_search_paths_end: "last (config_search_paths env) = SYSTEM_CONFIG_PATH"
  by (simp add: config_search_paths_def Let_def)

end
