(* ===== verification/Backoff.thy ===== *)
theory Backoff
  imports Prelude
begin

text \<open>
  The interface of a retry schedule: a wait that starts at \<open>lo\<close>, doubles per attempt and stops
  at \<open>hi\<close>. The outbound dialler and the sink recovery both pace themselves by one; their clients'
  bounds are proved here once. A time is an \<open>int\<close> of monotonic milliseconds.
\<close>

locale delay_schedule =
  fixes delay :: "nat \<Rightarrow> int" and lo hi :: int
  assumes lo_pos: "0 < lo" and lo_le_hi: "lo \<le> hi"
    and delay_0: "delay 0 = lo"
    and delay_Suc: "delay (Suc n) = min hi (2 * delay n)"
begin

lemma delay_closed: "delay n = min hi (lo * 2 ^ n)"
proof (induction n)
  case (Suc n)
  have "hi \<le> 2 * hi" using lo_pos lo_le_hi by simp
  then show ?case using Suc by (simp add: delay_Suc min_def)
qed (use lo_le_hi in \<open>simp add: delay_0 min_def\<close>)

lemma delay_le: "delay n \<le> hi"
  by (simp add: delay_closed)

lemma delay_ge: "lo \<le> delay n"
proof -
  have "lo * 1 \<le> lo * 2 ^ n" using lo_pos by (intro mult_left_mono) simp_all
  then show ?thesis using lo_le_hi by (simp add: delay_closed)
qed

lemma delay_pos: "0 < delay n"
  using delay_ge [of n] lo_pos by simp

lemma delay_mono: "m \<le> n \<Longrightarrow> delay m \<le> delay n"
proof -
  assume "m \<le> n"
  then have "lo * 2 ^ m \<le> lo * 2 ^ n" using lo_pos by (intro mult_left_mono power_increasing) simp_all
  then show ?thesis by (simp add: delay_closed min_def)
qed

lemma delay_saturated: "hi \<le> lo * 2 ^ n \<Longrightarrow> delay n = hi"
  by (simp add: delay_closed)

end

text \<open>Events of a list keep at least \<open>d\<close> between each two neighbours, and so between any two.\<close>

definition spaced :: "int \<Rightarrow> int list \<Rightarrow> bool" where
  "spaced d ts \<longleftrightarrow> sorted_wrt (\<lambda>a b. a + d \<le> b) ts"

lemma spaced_Nil [simp]: "spaced d []" and spaced_one [simp]: "spaced d [t]"
  by (simp_all add: spaced_def)

lemma spaced_snoc:
  "0 \<le> d \<Longrightarrow> spaced d ts \<Longrightarrow> (ts \<noteq> [] \<Longrightarrow> last ts + d \<le> t) \<Longrightarrow> spaced d (ts @ [t])"
proof (cases ts rule: rev_cases)
  case (snoc xs x)
  assume "0 \<le> d" "spaced d ts" "ts \<noteq> [] \<Longrightarrow> last ts + d \<le> t"
  then have x: "x + d \<le> t" "\<forall>y \<in> set xs. y + d \<le> x" "sorted_wrt (\<lambda>a b. a + d \<le> b) xs"
    using snoc by (simp_all add: spaced_def sorted_wrt_append)
  then have "\<forall>y \<in> set xs. y + d \<le> t" using \<open>0 \<le> d\<close> by fastforce
  with x snoc show ?thesis by (simp add: spaced_def sorted_wrt_append)
qed simp

end
