(* ===== verification/SinkRecovery.thy ===== *)
theory SinkRecovery
  imports Backoff
begin

text \<open>
  \<^verbatim>\<open>src/src/sink_recovery.{h,cpp}\<close>: the decisions about getting a dead output device back. One
  record for the object, one definition per method, and the methods as events of a run. Clock
  values are monotonic milliseconds (\<open>int\<close>), \<open>NOT_STAMPED\<close> is \<^verbatim>\<open>INT64_MIN\<close>.
\<close>

section \<open>Definitions\<close>

definition SINK_RESCAN_DELAY_MS :: int where "SINK_RESCAN_DELAY_MS = 2000"
definition SINK_RESCAN_MAX_DELAY_MS :: int where "SINK_RESCAN_MAX_DELAY_MS = 30000"
definition SINK_RESCAN_ATTEMPTS :: nat where "SINK_RESCAN_ATTEMPTS = 5"
definition NOT_STAMPED :: int where "NOT_STAMPED = - (2 ^ 63)"

record sink_recovery =
  reopen_spent :: bool
  rescan_spent :: bool
  rescan_in_flight :: bool
  rescan_attempts :: nat
  rescan_owed :: bool
  rescan_at_ms :: int

definition fresh_recovery :: sink_recovery where
  "fresh_recovery = \<lparr>reopen_spent = False, rescan_spent = False, rescan_in_flight = False,
     rescan_attempts = 0, rescan_owed = False, rescan_at_ms = NOT_STAMPED\<rparr>"

fun delay_loop :: "nat \<Rightarrow> int \<Rightarrow> int" where
  "delay_loop 0 d = d"
| "delay_loop (Suc left) d = (if d < SINK_RESCAN_MAX_DELAY_MS then delay_loop left (d * 2) else d)"

definition delay_for :: "nat \<Rightarrow> int" where
  "delay_for attempts_made =
     (let delay = delay_loop attempts_made SINK_RESCAN_DELAY_MS
      in if delay < SINK_RESCAN_MAX_DELAY_MS then delay else SINK_RESCAN_MAX_DELAY_MS)"

definition escalate :: "sink_recovery \<Rightarrow> sink_recovery" where
  "escalate r =
     (if \<not> rescan_spent r \<and> \<not> rescan_in_flight r then r\<lparr>rescan_owed := True\<rparr> else r)"

definition reopen_due :: "sink_recovery \<Rightarrow> bool \<times> sink_recovery" where
  "reopen_due r =
     (if reopen_spent r then (False, escalate r) else (True, r\<lparr>reopen_spent := True\<rparr>))"

definition reopen_done :: "bool \<Rightarrow> sink_recovery \<Rightarrow> sink_recovery" where
  "reopen_done recovered r = (if recovered then r else escalate r)"

definition rescan_due :: "int \<Rightarrow> sink_recovery \<Rightarrow> bool \<times> sink_recovery" where
  "rescan_due now r =
     (if \<not> rescan_owed r then (False, r)
      else if rescan_at_ms r = NOT_STAMPED
      then (False, r\<lparr>rescan_at_ms := now + delay_for (rescan_attempts r)\<rparr>)
      else if now < rescan_at_ms r then (False, r)
      else (True, r\<lparr>rescan_attempts := rescan_attempts r + 1, rescan_in_flight := True,
                    rescan_owed := False\<rparr>))"

definition rescan_done :: "bool \<Rightarrow> sink_recovery \<Rightarrow> sink_recovery" where
  "rescan_done recovered r =
     (if \<not> rescan_in_flight r then r
      else
        (let r' = r\<lparr>rescan_in_flight := False\<rparr> in
         if recovered \<or> rescan_attempts r' \<ge> SINK_RESCAN_ATTEMPTS
         then r'\<lparr>rescan_spent := True, rescan_owed := False\<rparr>
         else r'\<lparr>rescan_at_ms := NOT_STAMPED, rescan_owed := True\<rparr>))"

definition pending :: "sink_recovery \<Rightarrow> bool" where
  "pending r = rescan_owed r"

definition reset_recovery :: "sink_recovery \<Rightarrow> sink_recovery" where
  "reset_recovery r = r\<lparr>reopen_spent := False, rescan_spent := False, rescan_in_flight := False,
     rescan_attempts := 0, rescan_owed := False, rescan_at_ms := NOT_STAMPED\<rparr>"

section \<open>Runs\<close>

text \<open>
  The calls of a sink in any order the two threads make them. \<open>reopens\<close> and \<open>rescans\<close> are what
  was granted: the count of reopens answered \<^verbatim>\<open>true\<close> and the times of the rescans.
\<close>

datatype recovery_event =
  ReopenDue | ReopenDone bool | RescanDue int | RescanDone bool | ResetRecovery

record recovery_run =
  recovery :: sink_recovery
  reopens :: nat
  rescans :: "int list"

fun recovery_step :: "recovery_event \<Rightarrow> recovery_run \<Rightarrow> recovery_run" where
  "recovery_step ReopenDue w =
     (let (yes, r) = reopen_due (recovery w)
      in w\<lparr>recovery := r, reopens := reopens w + (if yes then 1 else 0)\<rparr>)"
| "recovery_step (ReopenDone ok) w = w\<lparr>recovery := reopen_done ok (recovery w)\<rparr>"
| "recovery_step (RescanDue now) w =
     (let (yes, r) = rescan_due now (recovery w)
      in w\<lparr>recovery := r, rescans := rescans w @ (if yes then [now] else [])\<rparr>)"
| "recovery_step (RescanDone ok) w = w\<lparr>recovery := rescan_done ok (recovery w)\<rparr>"
| "recovery_step ResetRecovery w = w\<lparr>recovery := reset_recovery (recovery w)\<rparr>"

definition recovery_run_of :: "recovery_event list \<Rightarrow> recovery_run" where
  "recovery_run_of evs =
     fold recovery_step evs \<lparr>recovery = fresh_recovery, reopens = 0, rescans = []\<rparr>"

text \<open>The ticks of a run, which a monotonic clock makes ascending.\<close>

fun tick_of :: "recovery_event \<Rightarrow> int list" where
  "tick_of (RescanDue now) = [now]"
| "tick_of e = []"

definition ticks :: "recovery_event list \<Rightarrow> int list" where
  "ticks evs = concat (map tick_of evs)"

section \<open>The delay\<close>

lemma delay_loop_min:
  "0 < d \<Longrightarrow> min SINK_RESCAN_MAX_DELAY_MS (delay_loop n d) = min SINK_RESCAN_MAX_DELAY_MS (d * 2 ^ n)"
proof (induction n arbitrary: d)
  case (Suc n)
  show ?case
  proof (cases "d < SINK_RESCAN_MAX_DELAY_MS")
    case True
    then show ?thesis using Suc by (simp add: algebra_simps)
  next
    case False
    have "d * 1 \<le> d * (2 ^ Suc n)"
      using Suc.prems one_le_power [of "2::int" "Suc n"] by (intro mult_left_mono) linarith+
    then show ?thesis using False by (simp add: min_def)
  qed
qed simp

lemma delay_for_eq: "delay_for n = min SINK_RESCAN_MAX_DELAY_MS (SINK_RESCAN_DELAY_MS * 2 ^ n)"
proof -
  have "delay_for n = min SINK_RESCAN_MAX_DELAY_MS (delay_loop n SINK_RESCAN_DELAY_MS)"
    by (simp add: delay_for_def Let_def min_def)
  then show ?thesis using delay_loop_min [of SINK_RESCAN_DELAY_MS n]
    by (simp add: SINK_RESCAN_DELAY_MS_def)
qed

interpretation rescan_schedule:
  delay_schedule delay_for SINK_RESCAN_DELAY_MS SINK_RESCAN_MAX_DELAY_MS
proof unfold_locales
  show "delay_for (Suc n) = min SINK_RESCAN_MAX_DELAY_MS (2 * delay_for n)" for n
    by (simp add: delay_for_eq SINK_RESCAN_MAX_DELAY_MS_def min_def)
qed (simp_all add: delay_for_eq SINK_RESCAN_DELAY_MS_def SINK_RESCAN_MAX_DELAY_MS_def)

lemma stamp_neq: "0 \<le> now \<Longrightarrow> now + delay_for n \<noteq> NOT_STAMPED"
  using rescan_schedule.delay_pos [of n] by (simp add: NOT_STAMPED_def)

section \<open>The invariant\<close>

definition recovery_ok :: "sink_recovery \<Rightarrow> bool" where
  "recovery_ok r \<longleftrightarrow>
     (rescan_in_flight r \<longrightarrow> \<not> rescan_owed r \<and> \<not> rescan_spent r)
     \<and> (rescan_spent r \<longrightarrow> \<not> rescan_owed r)
     \<and> rescan_attempts r \<le> SINK_RESCAN_ATTEMPTS
     \<and> (rescan_owed r \<longrightarrow> rescan_attempts r < SINK_RESCAN_ATTEMPTS)
     \<and> (\<not> rescan_owed r \<and> \<not> rescan_in_flight r \<and> \<not> rescan_spent r
          \<longrightarrow> rescan_attempts r = 0 \<and> rescan_at_ms r = NOT_STAMPED)"

lemmas recovery_defs = escalate_def reopen_due_def reopen_done_def rescan_due_def rescan_done_def
  reset_recovery_def

lemma recovery_ok_fresh [simp]: "recovery_ok fresh_recovery"
  by (simp add: recovery_ok_def fresh_recovery_def)

lemma recovery_ok_step: "recovery_ok (recovery w) \<Longrightarrow> recovery_ok (recovery (recovery_step e w))"
  by (cases e)
     (auto simp: recovery_ok_def recovery_defs SINK_RESCAN_ATTEMPTS_def Let_def split: if_splits)

text \<open>
  What a run keeps beside it, given a clock: \<open>g\<close> is the time of the last rescan granted, \<open>c\<close> that
  of the last tick. A deadline that is stamped lies a whole delay past the last grant.
\<close>

definition run_ok :: "int \<Rightarrow> recovery_run \<Rightarrow> bool" where
  "run_ok c w \<longleftrightarrow>
     recovery_ok (recovery w) \<and> 0 \<le> c
     \<and> spaced SINK_RESCAN_DELAY_MS (rescans w)
     \<and> (rescans w \<noteq> [] \<longrightarrow> last (rescans w) \<le> c
          \<and> (rescan_owed (recovery w) \<and> rescan_at_ms (recovery w) \<noteq> NOT_STAMPED
               \<longrightarrow> last (rescans w) + SINK_RESCAN_DELAY_MS \<le> rescan_at_ms (recovery w)))"

lemma run_ok_rescan:
  assumes "run_ok c w" "c \<le> now"
  shows "run_ok now (recovery_step (RescanDue now) w)"
proof -
  have d: "SINK_RESCAN_DELAY_MS \<le> delay_for n" for n by (rule rescan_schedule.delay_ge)
  have pos: "0 \<le> SINK_RESCAN_DELAY_MS" by (simp add: SINK_RESCAN_DELAY_MS_def)
  have ok: "recovery_ok (recovery (recovery_step (RescanDue now) w))"
    using assms recovery_ok_step by (simp add: run_ok_def del: recovery_step.simps)
  show ?thesis
  proof (cases "fst (rescan_due now (recovery w))")
    case True
    then have *: "rescan_owed (recovery w)" "rescan_at_ms (recovery w) \<noteq> NOT_STAMPED"
        "rescan_at_ms (recovery w) \<le> now"
      by (auto simp: rescan_due_def split: if_splits)
    then have "spaced SINK_RESCAN_DELAY_MS (rescans w @ [now])"
      using assms pos by (intro spaced_snoc) (auto simp: run_ok_def)
    then show ?thesis using * assms ok by (simp add: run_ok_def rescan_due_def)
  next
    case False
    then show ?thesis using assms ok d [of "rescan_attempts (recovery w)"]
      by (auto simp: run_ok_def rescan_due_def split: if_splits)
  qed
qed

lemma run_ok_other:
  assumes "run_ok c w" "tick_of e = []"
  shows "run_ok c (recovery_step e w)"
proof -
  have "recovery_ok (recovery (recovery_step e w))"
    using assms recovery_ok_step by (simp add: run_ok_def del: recovery_step.simps)
  then show ?thesis using assms
    by (cases e) (auto simp: run_ok_def recovery_ok_def recovery_defs Let_def split: if_splits)
qed

lemma run_ok_fold:
  "run_ok c w \<Longrightarrow> sorted (c # ticks evs) \<Longrightarrow> \<exists>c'. run_ok c' (fold recovery_step evs w)"
proof (induction evs arbitrary: c w)
  case (Cons e evs)
  show ?case
  proof (cases "tick_of e")
    case Nil
    then have "run_ok c (recovery_step e w)" "sorted (c # ticks evs)"
      using Cons.prems run_ok_other by (simp_all add: ticks_def del: recovery_step.simps)
    then show ?thesis using Cons.IH by (simp del: recovery_step.simps)
  next
    case (Cons now rest)
    then have e: "e = RescanDue now" by (cases e) auto
    then have "run_ok now (recovery_step e w)" "sorted (now # ticks evs)"
      using Cons.prems run_ok_rescan by (simp_all add: ticks_def del: recovery_step.simps)
    then show ?thesis using Cons.IH by (simp del: recovery_step.simps)
  qed
qed auto

section \<open>One configured stream\<close>

text \<open>Without a reset the counters count, and each wait is the one the schedule gives.\<close>

definition stream_ok :: "recovery_run \<Rightarrow> bool" where
  "stream_ok w \<longleftrightarrow>
     reopens w = (if reopen_spent (recovery w) then 1 else 0)
     \<and> length (rescans w) = rescan_attempts (recovery w)
     \<and> (\<forall>k. Suc k < length (rescans w) \<longrightarrow>
            rescans w ! k + delay_for (Suc k) \<le> rescans w ! Suc k)
     \<and> (rescans w \<noteq> [] \<and> rescan_owed (recovery w) \<and> rescan_at_ms (recovery w) \<noteq> NOT_STAMPED
          \<longrightarrow> last (rescans w) + delay_for (length (rescans w)) \<le> rescan_at_ms (recovery w))"

lemma nth_snoc_gap:
  assumes "\<forall>k. Suc k < length gs \<longrightarrow> gs ! k + f (Suc k) \<le> gs ! Suc k"
    "gs \<noteq> [] \<Longrightarrow> last gs + f (length gs) \<le> (x :: int)"
  shows "\<forall>k. Suc k < length (gs @ [x]) \<longrightarrow> (gs @ [x]) ! k + f (Suc k) \<le> (gs @ [x]) ! Suc k"
proof (intro allI impI)
  fix k assume k: "Suc k < length (gs @ [x])"
  show "(gs @ [x]) ! k + f (Suc k) \<le> (gs @ [x]) ! Suc k"
  proof (cases "Suc k < length gs")
    case True
    then show ?thesis using assms(1) by (simp add: nth_append)
  next
    case False
    then have "length gs = Suc k" using k by simp
    moreover from this have "gs \<noteq> []" by auto
    ultimately show ?thesis using assms(2) by (simp add: nth_append last_conv_nth)
  qed
qed

lemma stream_ok_step:
  assumes "stream_ok w" "run_ok c w" "e \<noteq> ResetRecovery" "\<forall>t \<in> set (tick_of e). c \<le> t"
  shows "stream_ok (recovery_step e w)"
proof (cases "\<exists>now. e = RescanDue now \<and> fst (rescan_due now (recovery w))")
  case True
  then obtain now where e: "e = RescanDue now" and yes: "fst (rescan_due now (recovery w))" by auto
  from yes have *: "rescan_owed (recovery w)" "rescan_at_ms (recovery w) \<noteq> NOT_STAMPED"
      "rescan_at_ms (recovery w) \<le> now"
    by (auto simp: rescan_due_def split: if_splits)
  have "\<forall>k. Suc k < length (rescans w @ [now]) \<longrightarrow>
      (rescans w @ [now]) ! k + delay_for (Suc k) \<le> (rescans w @ [now]) ! Suc k"
    using assms(1) * by (intro nth_snoc_gap) (auto simp: stream_ok_def)
  then show ?thesis using assms(1) * e
    by (simp add: stream_ok_def rescan_due_def)
next
  case False
  then show ?thesis using assms stamp_neq
    by (cases e)
       (auto simp: stream_ok_def run_ok_def recovery_ok_def recovery_defs Let_def split: if_splits)
qed

lemma run_ok_step:
  assumes "run_ok c w" "\<forall>t \<in> set (tick_of e). c \<le> t"
  shows "\<exists>c'. run_ok c' (recovery_step e w) \<and> (\<forall>t \<in> set (tick_of e). c' = t) \<and> (tick_of e = [] \<longrightarrow> c' = c)"
  using assms run_ok_other run_ok_rescan by (cases "tick_of e"; cases e) (auto simp del: recovery_step.simps)

lemma stream_ok_fold:
  "stream_ok w \<Longrightarrow> run_ok c w \<Longrightarrow> sorted (c # ticks evs) \<Longrightarrow> ResetRecovery \<notin> set evs \<Longrightarrow>
     stream_ok (fold recovery_step evs w) \<and> recovery_ok (recovery (fold recovery_step evs w))"
proof (induction evs arbitrary: c w)
  case (Cons e evs)
  have t: "\<forall>t \<in> set (tick_of e). c \<le> t" using Cons.prems(3) by (simp add: ticks_def)
  then have "stream_ok (recovery_step e w)" using Cons.prems stream_ok_step by auto
  moreover obtain c' where "run_ok c' (recovery_step e w)" "\<forall>t \<in> set (tick_of e). c' = t"
      "tick_of e = [] \<longrightarrow> c' = c"
    using run_ok_step [OF Cons.prems(2) t] by blast
  moreover from this have "sorted (c' # ticks evs)" using Cons.prems(3)
    by (cases e) (auto simp: ticks_def)
  ultimately show ?case using Cons.IH [of "recovery_step e w" c'] Cons.prems(4)
    by (simp del: recovery_step.simps)
qed (simp add: run_ok_def)

lemma start_ok:
  "run_ok 0 \<lparr>recovery = fresh_recovery, reopens = 0, rescans = []\<rparr>"
  "stream_ok \<lparr>recovery = fresh_recovery, reopens = 0, rescans = []\<rparr>"
  by (simp_all add: run_ok_def stream_ok_def) (simp add: fresh_recovery_def)

section \<open>Properties\<close>

text \<open>
  However streams start, die and are reconfigured, and whatever the sink reports, two rescans
  granted on one monotonic clock are at least \<^verbatim>\<open>SINK_RESCAN_DELAY_MS\<close> apart: the floor that
  bounds the cost to the main loop across streams.
\<close>

lemma rescans_are_spaced:
  assumes "sorted (0 # ticks evs)"
  shows "spaced SINK_RESCAN_DELAY_MS (rescans (recovery_run_of evs))"
  using run_ok_fold [OF start_ok(1) assms] by (auto simp: recovery_run_of_def run_ok_def)

text \<open>
  C16. The budget of one configured stream (no reset in between), for every interleaving of the two
  threads' calls: at most one reopen and at most \<^verbatim>\<open>SINK_RESCAN_ATTEMPTS\<close> rescans are granted,
  and the wait before each further rescan is at least the doubled delay of the schedule.
\<close>

theorem one_stream_budget:
  assumes "sorted (0 # ticks evs)" "ResetRecovery \<notin> set evs"
  shows "reopens (recovery_run_of evs) \<le> 1
    \<and> length (rescans (recovery_run_of evs)) \<le> SINK_RESCAN_ATTEMPTS
    \<and> (\<forall>k. Suc k < length (rescans (recovery_run_of evs)) \<longrightarrow>
         rescans (recovery_run_of evs) ! k
           + min SINK_RESCAN_MAX_DELAY_MS (SINK_RESCAN_DELAY_MS * 2 ^ Suc k)
         \<le> rescans (recovery_run_of evs) ! Suc k)"
  using stream_ok_fold [OF start_ok(2,1) assms]
  by (simp add: recovery_run_of_def stream_ok_def recovery_ok_def delay_for_eq)

theorem one_stream_budget_witness:
  "let evs = [ReopenDue, ReopenDue, RescanDue 0, RescanDue 2000, ReopenDue, RescanDone False,
              RescanDue 2001, RescanDue 6000, RescanDue 6001]
   in rescans (recovery_run_of evs) = [2000, 6001] \<and> reopens (recovery_run_of evs) \<le> 1"
proof -
  let ?evs = "[ReopenDue, ReopenDue, RescanDue 0, RescanDue 2000, ReopenDue, RescanDone False,
              RescanDue 2001, RescanDue 6000, RescanDue 6001]"
  have "rescans (recovery_run_of ?evs) = [2000, 6001]" by code_simp
  moreover have "sorted (0 # ticks ?evs)" "ResetRecovery \<notin> set ?evs" by (simp_all add: ticks_def)
  ultimately show ?thesis using one_stream_budget [of ?evs] by (simp only: Let_def simp_thms)
qed

text \<open>
  A rescan that is owed is granted: the first tick starts its delay, no tick before the delay
  is up is answered yes, the first one at or past it is, and a failed attempt owes the next one
  exactly while attempts are left (and is retired for good when it reports success).
\<close>

lemma owed_rescan_is_granted:
  assumes "recovery_ok r" "pending r" "rescan_at_ms r = NOT_STAMPED" "0 \<le> t0" "t0 \<le> t1"
  shows "\<not> fst (rescan_due t0 r)
    \<and> (fst (rescan_due t1 (snd (rescan_due t0 r))) \<longleftrightarrow> t0 + delay_for (rescan_attempts r) \<le> t1)
    \<and> (t0 + delay_for (rescan_attempts r) \<le> t1 \<longrightarrow>
        (let r' = snd (rescan_due t1 (snd (rescan_due t0 r))) in
           \<not> pending r' \<and> \<not> pending (escalate r')
           \<and> (pending (rescan_done False r') \<longleftrightarrow> rescan_attempts r + 1 < SINK_RESCAN_ATTEMPTS)
           \<and> \<not> pending (escalate (rescan_done True r'))))"
  using assms stamp_neq [OF assms(4)]
  by (auto simp: recovery_ok_def pending_def recovery_defs Let_def)

end
