(* ===== verification/Outbound.thy ===== *)
theory Outbound
  imports Backoff
begin

text \<open>
  \<^verbatim>\<open>src/src/outbound.{h,cpp}\<close>: the pacing of outbound dials and what may be claimed of the last
  one. \<^verbatim>\<open>uint32_t\<close> values are \<open>u32\<close> with their wrap-around; clock values are monotonic
  milliseconds (\<open>int\<close>).
\<close>

section \<open>Definitions\<close>

definition MIN_RETRY_DELAY_MS :: u32 where "MIN_RETRY_DELAY_MS = 1000"
definition MAX_RETRY_DELAY_MS :: u32 where "MAX_RETRY_DELAY_MS = 30000"

text \<open>The loop of \<^verbatim>\<open>next_retry_delay_ms\<close>: the steps left to count, and \<^verbatim>\<open>delay\<close>.\<close>

fun retry_loop :: "nat \<Rightarrow> u32 \<Rightarrow> u32" where
  "retry_loop 0 delay = (if delay > MAX_RETRY_DELAY_MS then MAX_RETRY_DELAY_MS else delay)"
| "retry_loop (Suc steps) delay =
     (if delay \<ge> MAX_RETRY_DELAY_MS div 2 then MAX_RETRY_DELAY_MS
      else retry_loop steps (delay * 2))"

definition next_retry_delay_ms :: "u32 \<Rightarrow> u32" where
  "next_retry_delay_ms attempt = retry_loop (unat attempt) MIN_RETRY_DELAY_MS"

record retry_pacer =
  last_dial_ms :: int
  dials :: u32
  dialled :: bool
  connected :: bool

definition fresh_pacer :: retry_pacer where
  "fresh_pacer = \<lparr>last_dial_ms = 0, dials = 0, dialled = False, connected = False\<rparr>"

definition delay_ms :: "retry_pacer \<Rightarrow> u32" where
  "delay_ms p = next_retry_delay_ms (if dials p > 0 then dials p - 1 else 0)"

definition note_connection_state :: "bool \<Rightarrow> int \<Rightarrow> retry_pacer \<Rightarrow> bool \<times> retry_pacer" where
  "note_connection_state is_connected now p =
     (let lost = (connected p \<and> \<not> is_connected);
          p1 = p\<lparr>connected := is_connected\<rparr>
      in if is_connected then (False, p1\<lparr>dials := 0\<rparr>)
         else if lost then (lost, p1\<lparr>dials := 1, last_dial_ms := now, dialled := True\<rparr>)
         else (lost, p1))"

definition should_dial :: "int \<Rightarrow> retry_pacer \<Rightarrow> bool" where
  "should_dial now p =
     (if connected p then False
      else if \<not> dialled p then True
      else now - last_dial_ms p \<ge> int (unat (delay_ms p)))"

definition note_dial :: "int \<Rightarrow> retry_pacer \<Rightarrow> retry_pacer" where
  "note_dial now p =
     (let p1 = p\<lparr>last_dial_ms := now, dialled := True\<rparr>
      in if delay_ms p1 < MAX_RETRY_DELAY_MS then p1\<lparr>dials := dials p1 + 1\<rparr> else p1)"

record last_dial =
  dial_url :: string
  dial_server_id :: string

definition fresh_dial :: last_dial where
  "fresh_dial = \<lparr>dial_url = [], dial_server_id = []\<rparr>"

definition last_dial_note :: "string \<Rightarrow> string \<Rightarrow> last_dial \<Rightarrow> last_dial" where
  "last_dial_note url server_id d = d\<lparr>dial_url := url, dial_server_id := server_id\<rparr>"

definition last_dial_lost :: "last_dial \<Rightarrow> last_dial" where
  "last_dial_lost d = d\<lparr>dial_url := [], dial_server_id := []\<rparr>"

definition url_for :: "string \<Rightarrow> last_dial \<Rightarrow> string" where
  "url_for connected_server_id d =
     (if dial_server_id d \<noteq> [] \<and> dial_server_id d \<noteq> connected_server_id then [] else dial_url d)"

section \<open>The schedule\<close>

lemma unat_max_delay [simp]: "unat MAX_RETRY_DELAY_MS = 30000"
  and unat_half_max [simp]: "unat (MAX_RETRY_DELAY_MS div 2) = 15000"
  and unat_min_delay [simp]: "unat MIN_RETRY_DELAY_MS = 1000"
  by (simp_all add: MAX_RETRY_DELAY_MS_def MIN_RETRY_DELAY_MS_def unat_div)

lemma unat_double: "d < MAX_RETRY_DELAY_MS div 2 \<Longrightarrow> unat (d * 2) = unat d * 2"
proof -
  assume "d < MAX_RETRY_DELAY_MS div 2"
  then have "unat d < 15000" using unat_half_max by (simp only: word_less_nat_alt)
  then show ?thesis by (subst unat_mult_lem [THEN iffD1]) simp_all
qed

lemma retry_loop_closed: "unat d \<ge> 1 \<Longrightarrow> unat (retry_loop n d) = min 30000 (unat d * 2 ^ n)"
proof (induction n d rule: retry_loop.induct)
  case (1 d)
  then show ?case by (auto simp: word_less_nat_alt min_def)
next
  case (2 n d)
  show ?case
  proof (cases "d \<ge> MAX_RETRY_DELAY_MS div 2")
    case True
    then have "15000 \<le> unat d" using unat_half_max by (simp only: word_le_nat_alt)
    then have "15000 * 2 \<le> unat d * (2 * 2 ^ n)"
      by (intro mult_le_mono) simp_all
    then show ?thesis using True by (simp add: min_def)
  next
    case False
    then have "unat (d * 2) = unat d * 2" by (intro unat_double) simp
    then show ?thesis using 2 False by (simp add: algebra_simps)
  qed
qed

definition retry_delay :: "nat \<Rightarrow> int" where
  "retry_delay n = int (unat (retry_loop n MIN_RETRY_DELAY_MS))"

lemma retry_delay_closed: "retry_delay n = min 30000 (1000 * 2 ^ n)"
proof -
  have "unat (retry_loop n MIN_RETRY_DELAY_MS) = min 30000 (1000 * 2 ^ n)"
    using retry_loop_closed [of MIN_RETRY_DELAY_MS n] by simp
  then show ?thesis unfolding retry_delay_def by (simp only: of_nat_min) simp
qed

interpretation retry_schedule: delay_schedule retry_delay 1000 30000
  by unfold_locales (simp_all add: retry_delay_closed min_def)

lemma next_retry_delay: "int (unat (next_retry_delay_ms a)) = retry_delay (unat a)"
  by (simp add: next_retry_delay_ms_def retry_delay_def)

text \<open>
  The wait after \<open>attempt\<close> dials is 1, 2, 4, 8, 16 seconds and 30 from there on, for every
  32-bit attempt count: the schedule never wraps, never decreases and stays within its bounds.
\<close>

theorem next_retry_delay_schedule:
  "unat (next_retry_delay_ms attempt) = min 30000 (1000 * 2 ^ unat attempt)
   \<and> MIN_RETRY_DELAY_MS \<le> next_retry_delay_ms attempt
   \<and> next_retry_delay_ms attempt \<le> MAX_RETRY_DELAY_MS
   \<and> (next_retry_delay_ms attempt = MAX_RETRY_DELAY_MS) = (attempt \<ge> 5)"
proof -
  have c: "unat (next_retry_delay_ms attempt) = min 30000 (1000 * 2 ^ unat attempt)"
    using retry_loop_closed [of MIN_RETRY_DELAY_MS] by (simp add: next_retry_delay_ms_def)
  have "1000 \<le> unat (next_retry_delay_ms attempt)" "unat (next_retry_delay_ms attempt) \<le> 30000"
    using retry_schedule.delay_ge [of "unat attempt"] retry_schedule.delay_le [of "unat attempt"]
    unfolding next_retry_delay [symmetric] by linarith+
  then have "MIN_RETRY_DELAY_MS \<le> next_retry_delay_ms attempt"
      "next_retry_delay_ms attempt \<le> MAX_RETRY_DELAY_MS"
    by (simp_all add: word_le_nat_alt)
  moreover have "unat attempt \<ge> 5 \<longleftrightarrow> min 30000 (1000 * 2 ^ unat attempt) = (30000::nat)"
  proof (cases "unat attempt \<ge> 5")
    case True
    then have "(2::nat) ^ 5 \<le> 2 ^ unat attempt" by (intro power_increasing) simp_all
    then show ?thesis using True by simp
  next
    case False
    then have "(2::nat) ^ unat attempt \<le> 2 ^ 4" by (intro power_increasing) simp_all
    then show ?thesis using False by simp
  qed
  then have "(next_retry_delay_ms attempt = MAX_RETRY_DELAY_MS) = (attempt \<ge> 5)"
    using c by (simp add: word_unat_eq_iff word_le_nat_alt)
  ultimately show ?thesis using c by blast
qed

section \<open>Runs of the outbound tick\<close>

text \<open>
  One tick of the caller: the connection state is fed in, and a dial is made when it is due. The
  dials' times are collected.
\<close>

definition pacer_tick :: "bool \<times> int \<Rightarrow> retry_pacer \<times> int list \<Rightarrow> retry_pacer \<times> int list" where
  "pacer_tick ev w =
     (let (is_connected, now) = ev;
          p = snd (note_connection_state is_connected now (fst w))
      in if should_dial now p then (note_dial now p, snd w @ [now]) else (p, snd w))"

definition pacer_run :: "(bool \<times> int) list \<Rightarrow> retry_pacer \<times> int list" where
  "pacer_run evs = fold pacer_tick evs (fresh_pacer, [])"

definition pacer_ok :: "int \<Rightarrow> retry_pacer \<times> int list \<Rightarrow> bool" where
  "pacer_ok c w \<longleftrightarrow>
     spaced 1000 (snd w) \<and> unat (dials (fst w)) \<le> 6
     \<and> (snd w \<noteq> [] \<longrightarrow> dialled (fst w) \<and> last (snd w) \<le> c \<and> last (snd w) \<le> last_dial_ms (fst w))"

lemma note_dial_dials:
  assumes "unat (dials p) \<le> 6"
  shows "unat (dials (note_dial now p)) \<le> 6"
proof (cases "delay_ms p < MAX_RETRY_DELAY_MS")
  case True
  have "\<not> unat (dials p) = 6"
  proof
    assume "unat (dials p) = 6"
    then have "dials p = 6" by (simp add: word_unat_eq_iff)
    then have "unat (delay_ms p) = min 30000 (1000 * 2 ^ 5)"
      using retry_loop_closed [of MIN_RETRY_DELAY_MS 5] by (simp add: delay_ms_def next_retry_delay_ms_def)
    then show False using True by (simp add: word_less_nat_alt)
  qed
  then have "unat (dials p) < 6" using assms by simp
  then have "unat (dials p + 1) = unat (dials p) + 1" by (subst unat_plus_simple [THEN iffD1]) (auto simp: no_olen_add_nat)
  then show ?thesis using True \<open>unat (dials p) < 6\<close> by (simp add: note_dial_def delay_ms_def Let_def)
next
  case False
  then show ?thesis using assms by (auto simp: note_dial_def delay_ms_def Let_def)
qed

lemma pacer_ok_tick:
  assumes "pacer_ok c w" "c \<le> now"
  shows "pacer_ok now (pacer_tick (b, now) w)"
proof -
  define p where "p = snd (note_connection_state b now (fst w))"
  have d: "unat (dials p) \<le> 6" "snd w \<noteq> [] \<Longrightarrow> dialled p \<and> last (snd w) \<le> last_dial_ms p"
    using assms by (auto simp: pacer_ok_def p_def note_connection_state_def Let_def)
  show ?thesis
  proof (cases "should_dial now p")
    case True
    have "1000 \<le> int (unat (delay_ms p))"
      unfolding delay_ms_def next_retry_delay by (rule retry_schedule.delay_ge)
    then have "snd w \<noteq> [] \<Longrightarrow> last (snd w) + 1000 \<le> now"
      using True d(2) by (auto simp: should_dial_def split: if_splits)
    then have "spaced 1000 (snd w @ [now])" using assms by (intro spaced_snoc) (auto simp: pacer_ok_def)
    moreover have "dialled (note_dial now p)" "last_dial_ms (note_dial now p) = now"
      by (auto simp: note_dial_def Let_def)
    ultimately show ?thesis using True d note_dial_dials [OF d(1)]
      by (simp add: pacer_ok_def pacer_tick_def p_def)
  next
    case False
    then show ?thesis using assms d by (auto simp: pacer_ok_def pacer_tick_def p_def [symmetric])
  qed
qed

lemma pacer_ok_run: "pacer_ok c w \<Longrightarrow> sorted (c # map snd evs) \<Longrightarrow> \<exists>c'. pacer_ok c' (fold pacer_tick evs w)"
proof (induction evs arbitrary: c w)
  case (Cons e evs)
  then have "pacer_ok (snd e) (pacer_tick e w)" using pacer_ok_tick [of c w "snd e" "fst e"] by simp
  then show ?case using Cons by simp
qed auto

text \<open>
  A redial never tears down the attempt before it at once: on a monotonic clock, whatever the
  connection does between ticks, two dials are at least \<^verbatim>\<open>MIN_RETRY_DELAY_MS\<close> apart, and the
  dial counter stays within 6, so years of retrying cannot wrap it.
\<close>

lemma dials_are_paced:
  assumes "sorted (map snd evs)"
  shows "spaced (int (unat MIN_RETRY_DELAY_MS)) (snd (pacer_run evs)) \<and> unat (dials (fst (pacer_run evs))) \<le> 6"
proof (cases evs)
  case (Cons e es)
  have "pacer_ok (snd e) (fresh_pacer, [])" by (simp add: pacer_ok_def fresh_pacer_def)
  then show ?thesis using pacer_ok_run [of "snd e" "(fresh_pacer, [])" evs] assms Cons
    by (auto simp: pacer_run_def pacer_ok_def)
qed (simp add: pacer_run_def fresh_pacer_def)

text \<open>
  The URL exported for a stream is never one that something contradicts: it is the last dial's
  URL only if that dial named no server or named the connected one, and after a lost connection
  it is empty until the next dial.
\<close>

lemma url_for_is_honest:
  "url_for who (last_dial_note url server_id d) = (if server_id = [] \<or> server_id = who then url else [])
   \<and> url_for who (last_dial_lost d) = []
   \<and> url_for who fresh_dial = []"
  by (simp add: url_for_def last_dial_note_def last_dial_lost_def fresh_dial_def)

end
