(* ===== verification/PcmRing.thy ===== *)
theory PcmRing
  imports Prelude
begin

text \<open>
  \<^verbatim>\<open>src/src/pcm_ring.{h,cpp}\<close>: the single-producer/single-consumer byte ring between a sink's
  \<^verbatim>\<open>write()\<close> and a pulling backend's callback. Positions are \<^verbatim>\<open>size_t\<close> values (\<open>nat\<close>, with
  the 64-bit wrap-around of their difference written out). Each method is one atomic step here. The
  contract of a bounded byte queue is the locale \<open>byte_fifo\<close>; \<open>ring\<close> interprets it. Below it
  \<open>byte_queue\<close> is the whole contract of the class, clear requests included, as a queue without positions.
\<close>

section \<open>The contract\<close>

text \<open>
  A run of puts (\<open>Inl\<close>) and gets (\<open>Inr\<close>), collecting the bytes accepted and those delivered.
\<close>

fun fifo_run ::
  "('b list \<Rightarrow> 'r \<Rightarrow> nat \<times> 'r) \<Rightarrow> (nat \<Rightarrow> 'r \<Rightarrow> 'b list \<times> 'r) \<Rightarrow> ('b list + nat) list
     \<Rightarrow> 'r \<times> 'b list \<times> 'b list \<Rightarrow> 'r \<times> 'b list \<times> 'b list"
where
  "fifo_run put get [] w = w"
| "fifo_run put get (Inl d # ops) (r, acc, out) =
     (let (n, r') = put d r in fifo_run put get ops (r', acc @ take n d, out))"
| "fifo_run put get (Inr n # ops) (r, acc, out) =
     (let (d, r') = get n r in fifo_run put get ops (r', acc, out @ d))"

locale byte_fifo =
  fixes put :: "'b list \<Rightarrow> 'r \<Rightarrow> nat \<times> 'r"
    and get :: "nat \<Rightarrow> 'r \<Rightarrow> 'b list \<times> 'r"
    and contents :: "'r \<Rightarrow> 'b list"
    and limit :: "'r \<Rightarrow> nat"
    and ok :: "'r \<Rightarrow> bool"
  assumes put_law: "ok r \<Longrightarrow> put d r = (n, r') \<Longrightarrow>
      ok r' \<and> limit r' = limit r \<and> n = min (length d) (limit r - length (contents r))
      \<and> contents r' = contents r @ take n d"
    and get_law: "ok r \<Longrightarrow> get n r = (d, r') \<Longrightarrow>
      ok r' \<and> limit r' = limit r \<and> d = take n (contents r) \<and> contents r' = drop n (contents r)"
    and bounded: "ok r \<Longrightarrow> length (contents r) \<le> limit r"
begin

text \<open>Nothing is lost, repeated or reordered, and the buffer never exceeds its limit.\<close>

lemma run_stream:
  "ok r \<Longrightarrow> acc = out @ contents r \<Longrightarrow> fifo_run put get ops (r, acc, out) = (r', acc', out') \<Longrightarrow>
     ok r' \<and> limit r' = limit r \<and> acc' = out' @ contents r' \<and> length acc' \<le> length out' + limit r"
proof (induction ops arbitrary: r acc out)
  case Nil
  then show ?case using bounded [of r] by auto
next
  case (Cons op ops)
  show ?case
  proof (cases op)
    case (Inl d)
    obtain n r1 where p: "put d r = (n, r1)" by fastforce
    from put_law [OF Cons.prems(1) p] Cons.prems Cons.IH [of r1 "acc @ take n d" out] Inl p
    show ?thesis by auto
  next
    case (Inr n)
    obtain d r1 where p: "get n r = (d, r1)" by fastforce
    from get_law [OF Cons.prems(1) p] Cons.prems Cons.IH [of r1 acc "out @ d"] Inr p
    show ?thesis by auto
  qed
qed

end

section \<open>Definitions\<close>

record pcm_ring =
  ring_buffer :: "u8 list"
  capacity :: nat
  write_pos :: nat
  read_pos :: nat
  clear_requested :: bool

text \<open>\<^verbatim>\<open>(write_pos - read_pos + capacity_) % capacity_\<close> in 64-bit unsigned arithmetic.\<close>

definition ring_distance :: "nat \<Rightarrow> nat \<Rightarrow> nat \<Rightarrow> nat" where
  "ring_distance w r cap = (((w + 2 ^ 64 - r) mod 2 ^ 64 + cap) mod 2 ^ 64) mod cap"

text \<open>\<^verbatim>\<open>std::memcpy(&buffer[pos], data, size)\<close>\<close>

definition copy_into :: "'a list \<Rightarrow> nat \<Rightarrow> 'a list \<Rightarrow> 'a list" where
  "copy_into buf pos xs = take pos buf @ xs @ drop (pos + length xs) buf"

definition ring_write :: "u8 list \<Rightarrow> pcm_ring \<Rightarrow> nat \<times> pcm_ring" where
  "ring_write bytes r =
     (if capacity r = 0 then (0, r)
      else
        (let used = ring_distance (write_pos r) (read_pos r) (capacity r);
             to_write = min (length bytes) (capacity r - 1 - used)
         in if to_write = 0 then (0, r)
            else
              (let first_chunk = min to_write (capacity r - write_pos r);
                   buf1 = copy_into (ring_buffer r) (write_pos r) (take first_chunk bytes);
                   buf2 = (if to_write > first_chunk
                           then copy_into buf1 0 (take (to_write - first_chunk) (drop first_chunk bytes))
                           else buf1)
               in (to_write, r\<lparr>ring_buffer := buf2,
                               write_pos := (write_pos r + to_write) mod capacity r\<rparr>))))"

text \<open>\<^verbatim>\<open>read(dest, len)\<close>: the count returned, what \<^verbatim>\<open>dest\<close> holds afterwards, and the ring.\<close>

definition ring_read :: "nat \<Rightarrow> pcm_ring \<Rightarrow> nat \<times> u8 list \<times> pcm_ring" where
  "ring_read len r =
     (if capacity r = 0 then (0, replicate len 0, r)
      else if clear_requested r
      then (0, replicate len 0, r\<lparr>clear_requested := False, read_pos := write_pos r\<rparr>)
      else
        (let available = ring_distance (write_pos r) (read_pos r) (capacity r);
             to_read = min len available;
             first_chunk = min to_read (capacity r - read_pos r);
             copied = (if to_read > 0
                       then take first_chunk (drop (read_pos r) (ring_buffer r))
                            @ (if to_read > first_chunk
                               then take (to_read - first_chunk) (ring_buffer r) else [])
                       else []);
             r' = (if to_read > 0
                   then r\<lparr>read_pos := (read_pos r + to_read) mod capacity r\<rparr> else r)
         in (to_read, copied @ (if to_read < len then replicate (len - to_read) 0 else []), r')))"

definition ring_available :: "pcm_ring \<Rightarrow> nat" where
  "ring_available r =
     (if capacity r = 0 then 0 else ring_distance (write_pos r) (read_pos r) (capacity r))"

definition ring_free_space :: "pcm_ring \<Rightarrow> nat" where
  "ring_free_space r = (if capacity r = 0 then 0 else capacity r - 1 - ring_available r)"

definition ring_request_clear :: "pcm_ring \<Rightarrow> pcm_ring" where
  "ring_request_clear r = r\<lparr>clear_requested := True\<rparr>"

definition ring_drop :: "pcm_ring \<Rightarrow> pcm_ring" where
  "ring_drop r = r\<lparr>clear_requested := False, read_pos := 0, write_pos := 0\<rparr>"

definition ring_reset :: "nat \<Rightarrow> pcm_ring \<Rightarrow> pcm_ring" where
  "ring_reset cap r = ring_drop (r\<lparr>ring_buffer := replicate cap 0, capacity := cap\<rparr>)"

definition new_ring :: pcm_ring where
  "new_ring = \<lparr>ring_buffer = [], capacity = 0, write_pos = 0, read_pos = 0, clear_requested = False\<rparr>"

section \<open>The queue a ring holds\<close>

definition ring_ok :: "pcm_ring \<Rightarrow> bool" where
  "ring_ok r \<longleftrightarrow>
     length (ring_buffer r) = capacity r \<and> capacity r \<le> 2 ^ 63
     \<and> (if capacity r = 0 then write_pos r = 0 \<and> read_pos r = 0
        else write_pos r < capacity r \<and> read_pos r < capacity r)"

definition ring_contents :: "pcm_ring \<Rightarrow> u8 list" where
  "ring_contents r =
     map (\<lambda>i. ring_buffer r ! ((read_pos r + i) mod capacity r)) [0..<ring_available r]"

lemma ring_distance_eq:
  assumes "w < c" "r < c" "c \<le> 2 ^ 63"
  shows "ring_distance w r c = (if r \<le> w then w - r else w + c - r)"
proof (cases "r \<le> w")
  case True
  then have "(w + 2 ^ 64 - r) mod 2 ^ 64 = (w - r) mod 2 ^ 64"
    by (metis Nat.add_diff_assoc2 mod_add_self2)
  also have "\<dots> = w - r" using assms by simp
  finally have "ring_distance w r c = ((w - r + c) mod 2 ^ 64) mod c" by (simp add: ring_distance_def)
  also have "(w - r + c) mod 2 ^ 64 = w - r + c" using assms True by simp
  finally have "ring_distance w r c = (w - r + c) mod c" .
  also have "\<dots> = w - r" using assms by (simp only: mod_add_self2) simp
  finally show ?thesis using True by simp
next
  case False
  then have "(w + 2 ^ 64 - r) mod 2 ^ 64 = w + 2 ^ 64 - r" using assms by simp
  then have "ring_distance w r c = ((w + c - r) + 2 ^ 64) mod 2 ^ 64 mod c"
    using False assms by (simp add: ring_distance_def algebra_simps)
  also have "\<dots> = (w + c - r) mod 2 ^ 64 mod c" by simp
  also have "\<dots> = w + c - r" using False assms by simp
  finally show ?thesis using False by simp
qed

lemma ring_available_less: "ring_ok r \<Longrightarrow> capacity r > 0 \<Longrightarrow> ring_available r < capacity r"
  by (auto simp: ring_ok_def ring_available_def ring_distance_eq)

lemma ring_write_pos:
  "ring_ok r \<Longrightarrow> capacity r > 0 \<Longrightarrow> write_pos r = (read_pos r + ring_available r) mod capacity r"
  by (auto simp: ring_ok_def ring_available_def ring_distance_eq mod_if)

lemma length_ring_contents [simp]: "length (ring_contents r) = ring_available r"
  by (simp add: ring_contents_def)

lemma distance_of_index:
  assumes "r < c" "i < c" "u < (c :: nat)"
  shows "((r + i) mod c + c - (r + u) mod c) mod c = (if u \<le> i then i - u else c + i - u)"
  using assms by (auto simp: mod_if)

lemma ring_distance_shift:
  assumes "r < c" "u < c" "m \<le> u" "c \<le> 2 ^ 63"
  shows "ring_distance ((r + u) mod c) ((r + m) mod c) c = u - m"
  using assms by (subst ring_distance_eq) (auto simp: mod_if)

lemma nth_copy_into:
  assumes "pos + length xs \<le> length buf" "k < length buf"
  shows "copy_into buf pos xs ! k = (if pos \<le> k \<and> k < pos + length xs then xs ! (k - pos) else buf ! k)"
  using assms by (auto simp: copy_into_def nth_append min_def)

lemma length_copy_into: "pos + length xs \<le> length buf \<Longrightarrow> length (copy_into buf pos xs) = length buf"
  by (simp add: copy_into_def)

lemma nth_two_chunks:
  fixes buf :: "'a list"
  assumes w: "w < c" "length buf = c" and n: "length xs = n" "n \<le> c" and k: "k < c"
    and f: "f = min n (c - w)"
    and b: "buf1 = copy_into buf w (take f xs)"
           "buf2 = (if n > f then copy_into buf1 0 (take (n - f) (drop f xs)) else buf1)"
  shows "buf2 ! k = (if (k + c - w) mod c < n then xs ! ((k + c - w) mod c) else buf ! k)"
    and "length buf2 = c"
proof -
  have fl: "f \<le> n" "w + f \<le> c" using f w by auto
  have l1: "length buf1 = c" using w n f b(1) by (simp add: length_copy_into)
  then show "length buf2 = c" using w n f b(2) by (simp add: length_copy_into)
  have n1: "buf1 ! k = (if w \<le> k \<and> k < w + f then xs ! (k - w) else buf ! k)"
    using w n fl b(1) k by (auto simp: nth_copy_into less_diff_conv2)
  have n2: "buf2 ! k = (if n > f \<and> k < n - f then xs ! (f + k) else buf1 ! k)"
    using l1 n k b(2) w f by (simp add: nth_copy_into)
  show "buf2 ! k = (if (k + c - w) mod c < n then xs ! ((k + c - w) mod c) else buf ! k)"
  proof (cases "w \<le> k")
    case True
    then have d: "(k + c - w) mod c = k - w" using k w(1) by (simp add: mod_if)
    show ?thesis using n1 n2 True k w f n unfolding d by (auto simp: min_def split: if_splits)
  next
    case False
    then have d: "(k + c - w) mod c = c - w + k" using k w(1) by (auto simp: mod_if)
    show ?thesis
    proof (cases "n > f")
      case True
      then have "f = c - w" using f by simp
      then show ?thesis using n1 n2 True False w n unfolding d by (auto simp: less_diff_conv add.commute)
    next
      case nf: False
      then have "n \<le> c - w" using f by simp
      then show ?thesis using n1 n2 nf False unfolding d by simp
    qed
  qed
qed

lemma ring_write_law:
  assumes "ring_ok r" "ring_write xs r = (n, r')"
  shows "ring_ok r' \<and> capacity r' = capacity r \<and> clear_requested r' = clear_requested r
     \<and> read_pos r' = read_pos r
     \<and> n = min (length xs) (capacity r - 1 - ring_available r)
     \<and> ring_contents r' = ring_contents r @ take n xs"
proof (cases "capacity r = 0")
  case True
  then show ?thesis using assms by (simp add: ring_write_def)
next
  case c: False
  let ?c = "capacity r" and ?u = "ring_available r"
  have ok: "length (ring_buffer r) = ?c" "write_pos r < ?c" "read_pos r < ?c" "?c \<le> 2 ^ 63"
    using assms(1) c by (auto simp: ring_ok_def)
  have u: "?u < ?c" "ring_distance (write_pos r) (read_pos r) ?c = ?u"
    using ring_available_less assms(1) c by (auto simp: ring_available_def)
  define m where "m = min (length xs) (?c - 1 - ?u)"
  show ?thesis
  proof (cases "m = 0")
    case True
    then show ?thesis using assms c u by (simp add: ring_write_def m_def)
  next
    case m0: False
    define f where "f = min m (?c - write_pos r)"
    define b1 where "b1 = copy_into (ring_buffer r) (write_pos r) (take f (take m xs))"
    define b2 where "b2 = (if m > f then copy_into b1 0 (take (m - f) (drop f (take m xs))) else b1)"
    have t: "take f (take m xs) = take f xs"
        "take (m - f) (drop f (take m xs)) = take (m - f) (drop f xs)"
      by (simp_all add: f_def drop_take)
    have res: "n = m" "r' = r\<lparr>ring_buffer := b2, write_pos := (write_pos r + m) mod ?c\<rparr>"
      using assms(2) c m0 t
      unfolding ring_write_def Let_def u(2) m_def [symmetric] f_def [symmetric] b1_def b2_def
      by (auto split: if_splits)
    have mc: "m + ?u < ?c" "length (take m xs) = m" using u c by (auto simp: m_def)
    note nth = nth_two_chunks [OF ok(2,1) mc(2) _ _ f_def b1_def b2_def]
    have ok': "ring_ok r'" using res ok c nth(2) mc by (simp add: ring_ok_def)
    have w: "write_pos r = (read_pos r + ?u) mod ?c" using ring_write_pos assms(1) c by blast
    have av: "ring_available r' = ?u + m"
    proof -
      have "(read_pos r + ?u + m) mod ?c = (write_pos r + m) mod ?c"
        unfolding w by (simp add: mod_add_left_eq)
      then have e: "write_pos r' = (read_pos r + (?u + m)) mod ?c" using res by (simp add: add.assoc)
      have "ring_available r' = ring_distance ((read_pos r + (?u + m)) mod ?c) (read_pos r) ?c"
        using res c e by (simp add: ring_available_def)
      also have "\<dots> = ?u + m" using ok mc by (subst ring_distance_eq) (auto simp: mod_if)
      finally show ?thesis .
    qed
    have "ring_contents r' = ring_contents r @ take m xs"
    proof (rule nth_equalityI)
      show "length (ring_contents r') = length (ring_contents r @ take m xs)"
        using av mc(2) by simp
      fix i assume "i < length (ring_contents r')"
      then have i: "i < ?u + m" "i < ?c" using av mc by simp_all
      let ?k = "(read_pos r + i) mod ?c"
      have "ring_contents r' ! i = b2 ! ?k" using i av res by (simp add: ring_contents_def)
      also have "\<dots> = (if (?k + ?c - write_pos r) mod ?c < m
          then take m xs ! ((?k + ?c - write_pos r) mod ?c) else ring_buffer r ! ?k)"
        by (rule nth(1)) (use c mc in auto)
      also have "(?k + ?c - write_pos r) mod ?c = (if ?u \<le> i then i - ?u else ?c + i - ?u)"
        unfolding w by (rule distance_of_index [OF ok(3) i(2) u(1)])
      also have "(if (if ?u \<le> i then i - ?u else ?c + i - ?u) < m
          then take m xs ! (if ?u \<le> i then i - ?u else ?c + i - ?u) else ring_buffer r ! ?k)
          = (ring_contents r @ take m xs) ! i"
        using i mc by (auto simp: nth_append ring_contents_def)
      finally show "ring_contents r' ! i = (ring_contents r @ take m xs) ! i" .
    qed
    then show ?thesis using res ok' m_def by simp
  qed
qed

lemma ring_read_law:
  assumes "ring_ok r" "\<not> clear_requested r" "ring_read len r = (n, dest, r')"
  shows "ring_ok r' \<and> capacity r' = capacity r \<and> \<not> clear_requested r' \<and> write_pos r' = write_pos r
     \<and> n = min len (ring_available r)
     \<and> dest = take n (ring_contents r) @ replicate (len - n) 0
     \<and> ring_contents r' = drop n (ring_contents r)"
proof (cases "capacity r = 0")
  case True
  then show ?thesis using assms
    by (auto simp: ring_read_def ring_available_def ring_contents_def)
next
  case c: False
  let ?c = "capacity r" and ?u = "ring_available r"
  have ok: "length (ring_buffer r) = ?c" "write_pos r < ?c" "read_pos r < ?c" "?c \<le> 2 ^ 63"
    using assms(1) c by (auto simp: ring_ok_def)
  have u: "?u < ?c" "ring_distance (write_pos r) (read_pos r) ?c = ?u"
    using ring_available_less assms(1) c by (auto simp: ring_available_def)
  define m where "m = min len ?u"
  define f where "f = min m (?c - read_pos r)"
  define copied where "copied = take f (drop (read_pos r) (ring_buffer r))
      @ (if m > f then take (m - f) (ring_buffer r) else [])"
  have mu: "m \<le> ?u" "m < ?c" using u by (auto simp: m_def)
  have copied: "copied = take m (ring_contents r)"
  proof (rule nth_equalityI)
    show l: "length copied = length (take m (ring_contents r))"
      using ok mu by (auto simp: copied_def f_def min_def)
    fix i assume "i < length copied"
    then have "i < m" using l mu by simp
    then show "copied ! i = take m (ring_contents r) ! i"
      using ok mu by (auto simp: copied_def f_def nth_append ring_contents_def mod_if min_def add.commute)
  qed
  have cp: "(if 0 < m then take f (drop (read_pos r) (ring_buffer r))
      @ (if f < m then take (m - f) (ring_buffer r) else []) else []) = copied"
    by (auto simp: copied_def f_def)
  have res: "n = m" "dest = copied @ replicate (len - m) 0"
      "r' = r\<lparr>read_pos := (read_pos r + m) mod ?c\<rparr>"
    using assms(2,3) c ok(3)
    unfolding ring_read_def Let_def u(2) m_def [symmetric] f_def [symmetric] cp
    by (auto simp: m_def split: if_splits)
  have ok': "ring_ok r'" using res ok c by (simp add: ring_ok_def)
  have w: "write_pos r = (read_pos r + ?u) mod ?c" using ring_write_pos assms(1) c by blast
  have av: "ring_available r' = ?u - m"
  proof -
    have "ring_available r' = ring_distance (write_pos r) ((read_pos r + m) mod ?c) ?c"
      using res c by (simp add: ring_available_def)
    also have "\<dots> = ring_distance ((read_pos r + ?u) mod ?c) ((read_pos r + m) mod ?c) ?c"
      by (subst w) (rule refl)
    also have "\<dots> = ?u - m" by (rule ring_distance_shift [OF ok(3) u(1) mu(1) ok(4)])
    finally show ?thesis .
  qed
  have "ring_contents r' = drop m (ring_contents r)"
  proof (rule nth_equalityI)
    show "length (ring_contents r') = length (drop m (ring_contents r))" using av by simp
    fix i assume i: "i < length (ring_contents r')"
    have "((read_pos r + m) mod ?c + i) mod ?c = (read_pos r + (m + i)) mod ?c"
      by (simp add: mod_add_left_eq add.assoc)
    moreover have "m + i < ?u" using i av by simp
    ultimately show "ring_contents r' ! i = drop m (ring_contents r) ! i"
      using i av res mu by (simp add: ring_contents_def)
  qed
  then show ?thesis using res copied ok' assms(2) m_def by simp
qed

lemma ring_read_clear:
  assumes "ring_ok r" "clear_requested r" "ring_read len r = (n, dest, r')"
  shows "ring_ok r' \<and> capacity r' = capacity r \<and> n = 0 \<and> dest = replicate len 0
     \<and> ring_contents r' = [] \<and> (clear_requested r' \<longleftrightarrow> capacity r = 0)"
  using assms
  by (auto simp: ring_read_def ring_ok_def ring_contents_def ring_available_def ring_distance_eq
      split: if_splits)

text \<open>The real audio a read delivers, without the silence it is padded with.\<close>

definition ring_get :: "nat \<Rightarrow> pcm_ring \<Rightarrow> u8 list \<times> pcm_ring" where
  "ring_get len r = (let (n, dest, r') = ring_read len r in (take n dest, r'))"

interpretation ring: byte_fifo ring_write ring_get ring_contents "\<lambda>r. capacity r - 1"
  "\<lambda>r. ring_ok r \<and> \<not> clear_requested r"
proof
  fix r :: pcm_ring and d n r'
  assume ok: "ring_ok r \<and> \<not> clear_requested r"
  then show "ring_write d r = (n, r') \<Longrightarrow> (ring_ok r' \<and> \<not> clear_requested r')
      \<and> capacity r' - 1 = capacity r - 1
      \<and> n = min (length d) (capacity r - 1 - length (ring_contents r))
      \<and> ring_contents r' = ring_contents r @ take n d"
    using ring_write_law by auto
  show "length (ring_contents r) \<le> capacity r - 1"
    using ok ring_available_less [of r] by (cases "capacity r = 0") (auto simp: ring_available_def)
next
  fix r :: pcm_ring and d n r'
  assume ok: "ring_ok r \<and> \<not> clear_requested r" and g: "ring_get n r = (d, r')"
  obtain k dest where rd: "ring_read n r = (k, dest, r')" "d = take k dest"
    using g by (auto simp: ring_get_def split: prod.splits)
  have "length (take k (ring_contents r)) = k"
    using ring_read_law [OF _ _ rd(1)] ok by simp
  then have "take k dest = take k (ring_contents r)"
    using ring_read_law [OF _ _ rd(1)] ok by simp
  moreover have "take k (ring_contents r) = take n (ring_contents r)"
      "drop k (ring_contents r) = drop n (ring_contents r)"
    using ring_read_law [OF _ _ rd(1)] ok by (simp_all add: min_def)
  ultimately show "(ring_ok r' \<and> \<not> clear_requested r') \<and> capacity r' - 1 = capacity r - 1
      \<and> d = take n (ring_contents r) \<and> ring_contents r' = drop n (ring_contents r)"
    using ring_read_law [OF _ _ rd(1)] ok rd(2) by simp
qed

lemma ring_distance_0: "c \<le> 2 ^ 63 \<Longrightarrow> 0 < c \<Longrightarrow> ring_distance 0 0 c = 0"
  by (simp add: ring_distance_eq)

lemma ring_ok_reset: "cap \<le> 2 ^ 63 \<Longrightarrow> ring_ok (ring_reset cap r)"
  "\<not> clear_requested (ring_reset cap r)" "cap \<le> 2 ^ 63 \<Longrightarrow> ring_contents (ring_reset cap r) = []"
  "capacity (ring_reset cap r) = cap"
  by (auto simp: ring_reset_def ring_drop_def ring_ok_def ring_contents_def ring_available_def
      ring_distance_0)

section \<open>Every operation, in any order\<close>

text \<open>
  The calls a ring takes, with what each hands back: \<open>Count\<close> for the sizes, \<open>Delivered\<close> for what a
  read returned and left in its destination, \<open>Silent\<close> for the \<^verbatim>\<open>void\<close> methods.
\<close>

datatype ring_op =
    RingWrite "u8 list"
  | RingRead nat
  | RingAvailable
  | RingFreeSpace
  | RingRequestClear
  | RingDrop
  | RingReset nat

datatype ring_answer = Count nat | Delivered nat "u8 list" | Silent

fun ring_step :: "ring_op \<Rightarrow> pcm_ring \<Rightarrow> ring_answer \<times> pcm_ring" where
  "ring_step (RingWrite xs) r = (let (n, r') = ring_write xs r in (Count n, r'))"
| "ring_step (RingRead len) r = (let (n, dest, r') = ring_read len r in (Delivered n dest, r'))"
| "ring_step RingAvailable r = (Count (ring_available r), r)"
| "ring_step RingFreeSpace r = (Count (ring_free_space r), r)"
| "ring_step RingRequestClear r = (Silent, ring_request_clear r)"
| "ring_step RingDrop r = (Silent, ring_drop r)"
| "ring_step (RingReset cap) r = (Silent, ring_reset cap r)"

fun ring_run :: "ring_op list \<Rightarrow> pcm_ring \<Rightarrow> ring_answer list \<times> pcm_ring" where
  "ring_run [] r = ([], r)"
| "ring_run (p # ops) r =
     (let (a, r1) = ring_step p r; (answers, r2) = ring_run ops r1 in (a # answers, r2))"

text \<open>
  The contract of \<^verbatim>\<open>pcm_ring.h\<close>, with no positions and no storage: the bytes held, the bytes of
  storage asked for (one of which is never used), and whether the producer has asked for a clear.
  A request only sets the flag; the consumer's next read carries it out, delivering silence and
  emptying the queue, whatever was written in between; a queue with no storage has nothing to
  read and leaves the flag; \<^verbatim>\<open>drop()\<close> and \<^verbatim>\<open>reset()\<close> empty the queue and withdraw the request.
\<close>

record byte_queue =
  queued :: "u8 list"
  storage :: nat
  clear_asked :: bool

definition queue_room :: "byte_queue \<Rightarrow> nat" where
  "queue_room q = storage q - 1 - length (queued q)"

fun queue_step :: "ring_op \<Rightarrow> byte_queue \<Rightarrow> ring_answer \<times> byte_queue" where
  "queue_step (RingWrite xs) q =
     (let n = min (length xs) (queue_room q) in (Count n, q\<lparr>queued := queued q @ take n xs\<rparr>))"
| "queue_step (RingRead len) q =
     (if storage q = 0 then (Delivered 0 (replicate len 0), q)
      else if clear_asked q
      then (Delivered 0 (replicate len 0), q\<lparr>queued := [], clear_asked := False\<rparr>)
      else
        (let n = min len (length (queued q))
         in (Delivered n (take n (queued q) @ replicate (len - n) 0),
             q\<lparr>queued := drop n (queued q)\<rparr>)))"
| "queue_step RingAvailable q = (Count (length (queued q)), q)"
| "queue_step RingFreeSpace q = (Count (queue_room q), q)"
| "queue_step RingRequestClear q = (Silent, q\<lparr>clear_asked := True\<rparr>)"
| "queue_step RingDrop q = (Silent, q\<lparr>queued := [], clear_asked := False\<rparr>)"
| "queue_step (RingReset cap) q = (Silent, \<lparr>queued = [], storage = cap, clear_asked = False\<rparr>)"

fun queue_run :: "ring_op list \<Rightarrow> byte_queue \<Rightarrow> ring_answer list \<times> byte_queue" where
  "queue_run [] q = ([], q)"
| "queue_run (p # ops) q =
     (let (a, q1) = queue_step p q; (answers, q2) = queue_run ops q1 in (a # answers, q2))"

definition ring_queue :: "pcm_ring \<Rightarrow> byte_queue" where
  "ring_queue r =
     \<lparr>queued = ring_contents r, storage = capacity r, clear_asked = clear_requested r\<rparr>"

definition op_within :: "ring_op \<Rightarrow> bool" where
  "op_within p \<longleftrightarrow> (case p of RingReset cap \<Rightarrow> cap \<le> 2 ^ 63 | _ \<Rightarrow> True)"

lemma ring_drop_law:
  "ring_ok r \<Longrightarrow> ring_ok (ring_drop r) \<and> ring_queue (ring_drop r)
     = \<lparr>queued = [], storage = capacity r, clear_asked = False\<rparr>"
  by (auto simp: ring_drop_def ring_queue_def ring_contents_def ring_available_def ring_distance_0
      ring_ok_def)

lemma ring_request_clear_law:
  "ring_ok r \<Longrightarrow> ring_ok (ring_request_clear r) \<and> ring_queue (ring_request_clear r)
     = \<lparr>queued = ring_contents r, storage = capacity r, clear_asked = True\<rparr>"
  by (auto simp: ring_request_clear_def ring_queue_def ring_contents_def ring_available_def ring_ok_def)

text \<open>One call of the ring is one call of the queue.\<close>

lemma ring_step_refines:
  assumes ok: "ring_ok r" and p: "op_within p" and st: "ring_step p r = (a, r')"
  shows "ring_ok r' \<and> queue_step p (ring_queue r) = (a, ring_queue r')"
proof (cases p)
  case (RingWrite xs)
  obtain n r1 where w: "ring_write xs r = (n, r1)" by fastforce
  show ?thesis using ring_write_law [OF ok w] w st RingWrite
    by (simp add: ring_queue_def queue_room_def)
next
  case (RingRead len)
  obtain n dest r1 where rd: "ring_read len r = (n, dest, r1)" using prod_cases3 by blast
  show ?thesis
  proof (cases "capacity r = 0")
    case True
    then have "r1 = r" "n = 0" "dest = replicate len 0" using rd by (simp_all add: ring_read_def)
    then show ?thesis using True rd st RingRead ok by (simp add: ring_queue_def)
  next
    case False
    then show ?thesis
      using ring_read_law [OF ok _ rd] ring_read_clear [OF ok _ rd] rd st RingRead
      by (cases "clear_requested r") (simp_all add: ring_queue_def)
  qed
next
  case RingAvailable
  then show ?thesis using ok st by (auto simp: ring_queue_def)
next
  case RingFreeSpace
  then show ?thesis using ok st by (auto simp: ring_queue_def queue_room_def ring_free_space_def)
next
  case RingRequestClear
  then show ?thesis using ring_request_clear_law [OF ok] st by (auto simp: ring_queue_def)
next
  case RingDrop
  then show ?thesis using ring_drop_law [OF ok] st by (auto simp: ring_queue_def)
next
  case (RingReset cap)
  then show ?thesis using ring_ok_reset [of cap r] p st by (auto simp: ring_queue_def op_within_def)
qed

section \<open>Properties\<close>

text \<open>
  C6. A ring is a queue of bytes: for every sequence of calls, in every position of the
  wrap-around, every answer is the answer of the queue of \<^verbatim>\<open>pcm_ring.h\<close>, and the ring holds
  the queue's bytes, its storage and its clear request afterwards. So a write appends the longest
  prefix that leaves one byte spare and says how much; a read takes from the front and pads the rest
  of the destination with silence; a clear request stays pending until the consumer's next read,
  which delivers only silence, empties the queue (later writes included) and withdraws the request;
  \<^verbatim>\<open>drop()\<close> and \<^verbatim>\<open>reset()\<close> withdraw it too; \<^verbatim>\<open>available\<close> and \<^verbatim>\<open>free_space\<close> count what is held and
  what a write would take.
\<close>

theorem ring_implements_queue:
  assumes "ring_ok r" and "list_all op_within ops" and "ring_run ops r = (answers, r')"
  shows "queue_run ops (ring_queue r) = (answers, ring_queue r') \<and> ring_ok r'"
  using assms
proof (induction ops arbitrary: r answers)
  case Nil
  then show ?case by simp
next
  case (Cons p ops)
  obtain a r1 where st: "ring_step p r = (a, r1)" by fastforce
  obtain as where rest: "ring_run ops r1 = (as, r')" "answers = a # as"
    using Cons.prems(3) st by (auto split: prod.splits)
  from ring_step_refines [OF Cons.prems(1) _ st] Cons.prems(2)
  have "ring_ok r1" "queue_step p (ring_queue r) = (a, ring_queue r1)" by simp_all
  then show ?case using Cons.IH [OF _ _ rest(1)] Cons.prems(2) st rest(2) by simp
qed

theorem ring_implements_queue_witness:
  "fst (ring_run [RingReset 4, RingWrite [1, 2], RingRead 1, RingWrite [3, 4, 5], RingRequestClear,
       RingAvailable, RingRead 2, RingWrite [6], RingRead 2] new_ring)
   = [Silent, Count 2, Delivered 1 [1], Count 2, Silent, Count 3, Delivered 0 [0, 0], Count 1,
      Delivered 1 [6, 0]]"
proof -
  let ?ops = "[RingReset 4, RingWrite [1, 2], RingRead 1, RingWrite [3, 4, 5], RingRequestClear,
       RingAvailable, RingRead 2, RingWrite [6], RingRead 2]"
  obtain answers r' where run: "ring_run ?ops new_ring = (answers, r')" by fastforce
  have "ring_ok new_ring" "list_all op_within ?ops"
    by (simp_all add: ring_ok_def new_ring_def op_within_def)
  from ring_implements_queue [OF this run]
  have "fst (queue_run ?ops (ring_queue new_ring)) = answers" by simp
  then show ?thesis unfolding run
    by (simp add: queue_room_def ring_queue_def Let_def eval_nat_numeral)
qed

text \<open>
  The stream through a ring is faithful: for every interleaving of writes and reads of any
  sizes after a reset, the bytes delivered followed by the bytes still held are exactly the bytes
  accepted, in order, and never more than the capacity less one are held.
\<close>

lemma ring_stream_is_faithful:
  assumes "cap \<le> 2 ^ 63"
    "fifo_run ring_write ring_get ops (ring_reset cap r0, [], []) = (r, accepted, delivered)"
  shows "accepted = delivered @ ring_contents r
     \<and> length accepted \<le> length delivered + (cap - 1)"
  using ring.run_stream [OF _ _ assms(2)] ring_ok_reset(1,3) [OF assms(1)] ring_ok_reset(2,4)
  by auto

end
