(* ===== verification/PcmVolume.thy ===== *)
theory PcmVolume
  imports Prelude
begin

text \<open>
  \<^verbatim>\<open>src/src/pcm_volume.{h,cpp}\<close>: scaling interleaved signed little-endian PCM by a Q32 gain, and
  the ramp between two gains. Gains are \<^verbatim>\<open>uint64_t\<close> (\<open>u64\<close>), the buffer is its list of bytes
  (on a little-endian host, as the source's casts assume), and the \<^verbatim>\<open>int64_t\<close> products are
  exact integers, proved to stay inside 64 bits for the gains callers produce.
\<close>

section \<open>Definitions\<close>

definition FRAC_BITS :: nat where "FRAC_BITS = 32"
definition ROUND_TERM :: int where "ROUND_TERM = 2 ^ 31"
definition MS_PER_SECOND :: u64 where "MS_PER_SECOND = 1000"
definition Q32_ONE :: u64 where "Q32_ONE = 4294967296"
definition VOLUME_RAMP_MS :: u32 where "VOLUME_RAMP_MS = 20"

text \<open>
  \<^verbatim>\<open>llround(pow(volume / 100.0, 1.5) * Q32_ONE)\<close> is the C library's floating-point arithmetic: the
  parameter \<open>curve\<close>, from the volume.
\<close>

definition q32_gain_for :: "(u8 \<Rightarrow> u64) \<Rightarrow> u8 \<Rightarrow> bool \<Rightarrow> u64" where
  "q32_gain_for curve volume muted =
     (if muted \<or> volume = 0 then 0 else if volume \<ge> 100 then Q32_ONE else curve volume)"

text \<open>A little-endian sample of \<open>length bs\<close> bytes, sign-extended, and back.\<close>

fun unsigned_le :: "u8 list \<Rightarrow> int" where
  "unsigned_le [] = 0"
| "unsigned_le (b # bs) = uint b + 256 * unsigned_le bs"

definition signed_le :: "u8 list \<Rightarrow> int" where
  "signed_le bs =
     (let u = unsigned_le bs
      in if u \<ge> 2 ^ (8 * length bs) div 2 then u - 2 ^ (8 * length bs) else u)"

fun le_bytes :: "nat \<Rightarrow> int \<Rightarrow> u8 list" where
  "le_bytes 0 v = []"
| "le_bytes (Suc n) v = word_of_int v # le_bytes n (v div 256)"

definition scale_sample :: "u64 \<Rightarrow> int \<Rightarrow> int" where
  "scale_sample scale s = (s * sint scale + ROUND_TERM) div 2 ^ FRAC_BITS"

text \<open>The sample loop of one width; a trailing partial sample is left alone.\<close>

function scale_samples :: "nat \<Rightarrow> u64 \<Rightarrow> u8 list \<Rightarrow> u8 list" where
  "scale_samples n scale bytes =
     (if n = 0 \<or> length bytes < n then bytes
      else le_bytes n (scale_sample scale (signed_le (take n bytes)))
           @ scale_samples n scale (drop n bytes))"
  by pat_completeness auto
termination by (relation "measure (\<lambda>(_, _, bytes). length bytes)") auto

declare scale_samples.simps [simp del]

definition apply_volume :: "u8 list \<Rightarrow> nat \<Rightarrow> u64 \<Rightarrow> u8 list" where
  "apply_volume bytes bytes_per_sample scale =
     (if bytes_per_sample = 1 then scale_samples 1 scale bytes
      else if bytes_per_sample = 2 then scale_samples 2 scale bytes
      else if bytes_per_sample = 3 then scale_samples 3 scale bytes
      else if bytes_per_sample = 4 then scale_samples 4 scale bytes
      else bytes)"

definition volume_ramp_step :: "u32 \<Rightarrow> u64" where
  "volume_ramp_step sample_rate =
     (let frames = (ucast sample_rate * ucast VOLUME_RAMP_MS) div MS_PER_SECOND :: u64
      in if frames = 0 then 0 else (Q32_ONE + frames - 1) div frames)"

definition ramped_gain :: "u64 \<Rightarrow> u64 \<Rightarrow> u64 \<Rightarrow> u64 \<Rightarrow> u64" where
  "ramped_gain current target step frames =
     (if step = 0 then target
      else if current = target then target
      else
        (let rising = current < target;
             distance = (if rising then target - current else current - target);
             travelled = (if frames > distance div step then distance else frames * step)
         in if rising then current + travelled else current - travelled))"

text \<open>The frame loop: what was scaled, the bytes and frames left, and the gain reached.\<close>

fun ramp_loop ::
  "nat \<Rightarrow> nat \<Rightarrow> u64 \<Rightarrow> u64 \<Rightarrow> nat \<Rightarrow> u8 list \<Rightarrow> u64 \<Rightarrow> u8 list \<times> u8 list \<times> nat \<times> u64"
where
  "ramp_loop bps bpf target step 0 bytes current = ([], bytes, 0, current)"
| "ramp_loop bps bpf target step (Suc left) bytes current =
     (if current = target then ([], bytes, Suc left, current)
      else
        (let current' = ramped_gain current target step 1;
             (done, rest, left', final) =
               ramp_loop bps bpf target step left (drop bpf bytes) current'
         in (apply_volume (take bpf bytes) bps current' @ done, rest, left', final)))"

definition apply_volume_ramp ::
  "u8 list \<Rightarrow> u8 \<Rightarrow> u8 \<Rightarrow> u64 \<Rightarrow> u64 \<Rightarrow> u64 \<Rightarrow> u8 list \<times> u64" where
  "apply_volume_ramp bytes bytes_per_sample channels current target step =
     (if bytes_per_sample = 0 \<or> channels = 0 then (bytes, current)
      else
        (let bps = unat bytes_per_sample;
             bytes_per_frame = bps * unat channels;
             frames = length bytes div bytes_per_frame;
             (done, rest, left, current') =
               ramp_loop bps bytes_per_frame target step frames bytes current;
             rest' = (if left > 0 \<and> target \<noteq> Q32_ONE
                      then apply_volume (take (left * bytes_per_frame) rest) bps target
                           @ drop (left * bytes_per_frame) rest
                      else rest)
         in (done @ rest', current')))"

section \<open>Samples\<close>

lemma length_le_bytes [simp]: "length (le_bytes n v) = n"
  by (induction n arbitrary: v) auto

lemma unsigned_le_range: "0 \<le> unsigned_le bs \<and> unsigned_le bs < 256 ^ length bs"
proof (induction bs)
  case (Cons b bs)
  have "0 \<le> uint b" "uint b < 256"
    using unsigned_less [of b, where ?'a = int] by simp_all
  then show ?case using Cons by simp
qed simp

lemma pow_256: "(256::int) ^ n = 2 ^ (8 * n)"
  by (simp add: power_mult)

lemma half_pow: "0 < n \<Longrightarrow> \<exists>h. (2::int) ^ (8 * n) = 2 * h"
  by (cases "8 * n") auto

lemma word_256: "256 * (y :: u8) = 0"
proof -
  have "(256 :: u8) = 0" by simp
  then show ?thesis by (simp only: mult_zero_left)
qed

lemma signed_le_range:
  assumes "bs \<noteq> []"
  shows "- (2 ^ (8 * length bs) div 2) \<le> signed_le bs \<and> signed_le bs < 2 ^ (8 * length bs) div 2"
proof -
  obtain h where h: "(2::int) ^ (8 * length bs) = 2 * h"
    using half_pow [of "length bs"] assms by auto
  show ?thesis using unsigned_le_range [of bs] unfolding pow_256 h by (auto simp: signed_le_def h Let_def)
qed

lemma unsigned_le_bytes: "unsigned_le (le_bytes n v) = v mod 256 ^ n"
proof (induction n arbitrary: v)
  case (Suc n)
  have "v mod 256 ^ Suc n = v mod 256 + 256 * (v div 256 mod 256 ^ n)"
    by (simp add: zmod_zmult2_eq)
  then show ?case using Suc by (simp add: uint_word_of_int)
qed simp

lemma signed_le_bytes:
  assumes "0 < n" "- (2 ^ (8 * n) div 2) \<le> v" "v < 2 ^ (8 * n) div 2"
  shows "signed_le (le_bytes n v) = v"
proof -
  obtain h where h: "(2::int) ^ (8 * n) = 2 * h" using half_pow assms(1) by auto
  have "v mod (2 * h) = (if 0 \<le> v then v else v + 2 * h)"
    using assms(2,3) unfolding h by (auto intro: mod_pos_pos_trivial simp: mod_if
        mod_pos_pos_trivial [of "v + 2 * h" "2 * h", simplified])
  then show ?thesis using assms(2,3)
    by (simp add: signed_le_def unsigned_le_bytes pow_256 h Let_def)
qed

lemma le_bytes_mod: "le_bytes n (v + 256 ^ n * k) = le_bytes n v"
proof (induction n arbitrary: v)
  case (Suc n)
  have "(v + 256 ^ Suc n * k) div 256 = v div 256 + 256 ^ n * k" by simp
  moreover have "(word_of_int (v + 256 ^ Suc n * k) :: u8) = word_of_int v"
    by (simp add: word_256 mult.assoc)
  ultimately show ?case using Suc by simp
qed simp

lemma le_bytes_unsigned: "le_bytes (length bs) (unsigned_le bs) = bs"
proof (induction bs)
  case (Cons b bs)
  have "0 \<le> uint b" "uint b < 256"
    using unsigned_less [of b, where ?'a = int] by simp_all
  then have "(uint b + 256 * unsigned_le bs) div 256 = unsigned_le bs" by simp
  moreover have "(word_of_int (uint b + 256 * unsigned_le bs) :: u8) = b"
    by (simp add: word_256)
  ultimately show ?case using Cons by simp
qed simp

lemma le_bytes_signed: "le_bytes (length bs) (signed_le bs) = bs"
  using le_bytes_mod [of "length bs" "unsigned_le bs" "- 1"]
  by (simp add: signed_le_def Let_def le_bytes_unsigned pow_256)

section \<open>Scaling a buffer\<close>

text \<open>The samples of a buffer, a trailing partial one left out.\<close>

function samples :: "nat \<Rightarrow> u8 list \<Rightarrow> int list" where
  "samples n bytes =
     (if n = 0 \<or> length bytes < n then [] else signed_le (take n bytes) # samples n (drop n bytes))"
  by pat_completeness auto
termination by (relation "measure (\<lambda>(_, bytes). length bytes)") auto

declare samples.simps [simp del]

lemma sint_gain:
  assumes "g \<le> Q32_ONE"
  shows "0 \<le> sint g" "sint g \<le> 2 ^ 32" "sint g = int (unat g)"
proof -
  have u: "uint g \<le> 4294967296" using assms by (simp add: word_le_def Q32_ONE_def)
  have "(- 9223372036854775808 :: int) \<le> 0" by simp
  also have "0 \<le> uint g" by simp
  finally have "sint g = uint g" using u unfolding sint_uint by (intro signed_take_bit_int_eq_self) auto
  then show "0 \<le> sint g" "sint g \<le> 2 ^ 32" "sint g = int (unat g)" using u by simp_all
qed

lemma div_between:
  assumes "a * k \<le> x" "x < (b + 1) * k" "0 < (k :: int)"
  shows "a \<le> x div k \<and> x div k \<le> b"
proof
  show "a \<le> x div k" using zdiv_mono1 [OF assms(1,3)] assms(3) by simp
  show "x div k \<le> b"
  proof (rule ccontr)
    assume "\<not> x div k \<le> b"
    then have "(b + 1) * k \<le> (x div k) * k" using assms(3) by (intro mult_right_mono) simp_all
    moreover have "0 \<le> x mod k" "x = (x div k) * k + x mod k" using assms(3) by simp_all
    ultimately show False using assms(2) by linarith
  qed
qed

lemma scale_sample_bounds:
  assumes "g \<le> Q32_ONE"
  shows "0 \<le> s \<Longrightarrow> 0 \<le> scale_sample g s \<and> scale_sample g s \<le> s"
    and "s \<le> 0 \<Longrightarrow> s \<le> scale_sample g s \<and> scale_sample g s \<le> 0"
proof -
  note g = sint_gain(1,2) [OF assms]
  { assume s: "0 \<le> s"
    have "s * sint g \<le> s * 2 ^ 32" using s g by (intro mult_left_mono) auto
    moreover have "0 \<le> s * sint g" using s g by simp
    ultimately show "0 \<le> scale_sample g s \<and> scale_sample g s \<le> s"
      unfolding scale_sample_def ROUND_TERM_def FRAC_BITS_def by (intro div_between) auto }
  { assume s: "s \<le> 0"
    have "s * 2 ^ 32 \<le> s * sint g" using s g by (intro mult_left_mono_neg) auto
    moreover have "s * sint g \<le> 0" using s g by (simp add: mult_nonpos_nonneg)
    ultimately show "s \<le> scale_sample g s \<and> scale_sample g s \<le> 0"
      unfolding scale_sample_def ROUND_TERM_def FRAC_BITS_def by (intro div_between) auto }
qed

lemma scale_sample_unity [simp]: "scale_sample Q32_ONE s = s"
proof -
  have "sint Q32_ONE = 2 ^ 32" using sint_gain(3) [of Q32_ONE] by (simp add: Q32_ONE_def)
  then show ?thesis by (simp add: scale_sample_def ROUND_TERM_def FRAC_BITS_def)
qed

lemma scale_sample_zero [simp]: "scale_sample 0 s = 0"
  by (simp add: scale_sample_def ROUND_TERM_def FRAC_BITS_def)

lemma scale_sample_rounds: "\<bar>scale_sample g s * 2 ^ 32 - s * sint g\<bar> \<le> 2 ^ 31"
proof -
  let ?x = "s * sint g + 2 ^ 31"
  have "?x div 2 ^ 32 * 2 ^ 32 + ?x mod 2 ^ 32 = ?x" by simp
  moreover have "0 \<le> ?x mod 2 ^ 32" "?x mod 2 ^ 32 < 2 ^ 32" by simp_all
  ultimately show ?thesis by (simp add: scale_sample_def ROUND_TERM_def FRAC_BITS_def)
qed

lemma scaled_in_range:
  assumes "g \<le> Q32_ONE" "bs \<noteq> []"
  shows "- (2 ^ (8 * length bs) div 2) \<le> scale_sample g (signed_le bs)
       \<and> scale_sample g (signed_le bs) < 2 ^ (8 * length bs) div 2"
proof -
  have h: "(0::int) < 2 ^ (8 * length bs) div 2"
    using half_pow [of "length bs"] assms(2) by auto (metis zero_less_power zero_less_numeral
        zero_less_mult_pos)
  show ?thesis using scale_sample_bounds [OF assms(1), of "signed_le bs"] signed_le_range [OF assms(2)] h
    by (cases "0 \<le> signed_le bs") auto
qed

lemma length_scale_samples [simp]: "length (scale_samples n g bs) = length bs"
proof (induction n g bs rule: scale_samples.induct)
  case (1 n g bs)
  then show ?case by (cases "n = 0 \<or> length bs < n") (simp_all add: scale_samples.simps [of n g bs])
qed

lemma samples_scale:
  "g \<le> Q32_ONE \<Longrightarrow> samples n (scale_samples n g bs) = map (scale_sample g) (samples n bs)"
proof (induction n g bs rule: scale_samples.induct)
  case (1 n g bs)
  show ?case
  proof (cases "n = 0 \<or> length bs < n")
    case True
    then show ?thesis by (simp add: scale_samples.simps [of n g bs] samples.simps [of n bs])
  next
    case False
    let ?v = "scale_sample g (signed_le (take n bs))"
    have l: "length (take n bs) = n" using False by simp
    have "take n bs \<noteq> []" using False by auto
    then have "signed_le (le_bytes n ?v) = ?v"
      using scaled_in_range [OF 1(2), of "take n bs", unfolded l] False
      by (intro signed_le_bytes) auto
    then have "samples n (le_bytes n ?v @ r) = ?v # samples n r" for r
      using False by (subst samples.simps) auto
    then show ?thesis using False 1
      by (simp add: scale_samples.simps [of n g bs] samples.simps [of n bs])
  qed
qed

lemma scale_samples_append:
  "length a mod n = 0 \<Longrightarrow> scale_samples n g (a @ b) = scale_samples n g a @ scale_samples n g b"
proof (induction n g a rule: scale_samples.induct)
  case (1 n g a)
  show ?case
  proof (cases "n = 0 \<or> length a < n")
    case True
    then have "a = [] \<or> n = 0" using 1(2) by auto
    then show ?thesis
      by (auto simp: scale_samples.simps [of n g "[]"] scale_samples.simps [of 0])
  next
    case False
    then have "length (drop n a) mod n = 0" using 1(2) by (simp add: le_mod_geq [symmetric])
    then show ?thesis using 1(1) False
      by (simp add: scale_samples.simps [of n g "a @ b"] scale_samples.simps [of n g a])
  qed
qed

lemma scale_samples_unity [simp]: "scale_samples n Q32_ONE bs = bs"
proof (induction n Q32_ONE bs rule: scale_samples.induct)
  case (1 n bs)
  show ?case
  proof (cases "n = 0 \<or> length bs < n")
    case False
    then have l: "length (take n bs) = n" by simp
    have "le_bytes n (signed_le (take n bs)) = take n bs"
      using le_bytes_signed [of "take n bs"] unfolding l .
    then show ?thesis using 1 False by (simp add: scale_samples.simps [of n Q32_ONE bs])
  qed (simp add: scale_samples.simps [of n Q32_ONE bs])
qed

lemma scale_samples_tail:
  "0 < n \<Longrightarrow> drop (n * (length bs div n)) (scale_samples n g bs) = drop (n * (length bs div n)) bs"
proof (induction n g bs rule: scale_samples.induct)
  case (1 n g bs)
  show ?case
  proof (cases "length bs < n")
    case False
    then have "length bs div n = Suc ((length bs - n) div n)" using 1(2) by (simp add: le_div_geq)
    then show ?thesis using 1 False by (simp add: scale_samples.simps [of n g bs] add.commute)
  qed (simp add: scale_samples.simps [of n g bs])
qed

lemma apply_volume_eq:
  "apply_volume bs n g = (if n \<in> {1, 2, 3, 4} then scale_samples n g bs else bs)"
  by (auto simp: apply_volume_def)

lemma apply_volume_append:
  "length a mod n = 0 \<Longrightarrow> apply_volume (a @ b) n g = apply_volume a n g @ apply_volume b n g"
  by (simp add: apply_volume_eq scale_samples_append)

lemma apply_volume_unity [simp]: "apply_volume bs n Q32_ONE = bs"
  by (simp add: apply_volume_eq)

lemma length_apply_volume [simp]: "length (apply_volume bs n g) = length bs"
  by (simp add: apply_volume_eq)

section \<open>The ramp\<close>

text \<open>The reference: \<open>frames\<close> steps of size \<open>step\<close> towards the target, in plain arithmetic.\<close>

definition ramp_to :: "nat \<Rightarrow> nat \<Rightarrow> nat \<Rightarrow> nat" where
  "ramp_to c t d = (if c \<le> t then min t (c + d) else max t (c - d))"

lemma ramp_to_add: "ramp_to (ramp_to c t a) t b = ramp_to c t (a + b)"
  by (auto simp: ramp_to_def min_def max_def)

lemma ramp_to_between: "min c t \<le> ramp_to c t d \<and> ramp_to c t d \<le> max c t"
  by (auto simp: ramp_to_def)

lemma travelled:
  assumes "step \<noteq> 0"
  shows "unat (if frames > dist div step then dist else frames * step :: u64)
           = min (unat dist) (unat frames * unat step)"
proof -
  have s: "0 < unat step" using assms by (simp add: unat_gt_0)
  show ?thesis
  proof (cases "frames > dist div step")
    case True
    then have "unat dist div unat step < unat frames" by (simp add: word_less_nat_alt unat_div)
    then have "unat dist < unat frames * unat step" using s by (simp add: div_less_iff_less_mult)
    then show ?thesis using True by simp
  next
    case False
    then have "unat frames \<le> unat dist div unat step" by (simp add: word_less_nat_alt unat_div)
    then have le: "unat frames * unat step \<le> unat dist" using s by (simp add: less_eq_div_iff_mult_less_eq)
    moreover have "unat dist < 2 ^ LENGTH(64)" by (rule unsigned_less)
    ultimately have "unat (frames * step) = unat frames * unat step"
      by (intro unat_mult_lem [THEN iffD1]) simp
    then show ?thesis using False le by simp
  qed
qed

lemma unat_ramped_gain:
  assumes "step \<noteq> 0"
  shows "unat (ramped_gain c t step frames) = ramp_to (unat c) (unat t) (unat frames * unat step)"
proof (cases "c = t")
  case True
  then show ?thesis by (simp add: ramped_gain_def ramp_to_def)
next
  case ne: False
  let ?d = "if c < t then t - c else c - t"
  let ?tr = "if frames > ?d div step then ?d else frames * step"
  have tr: "unat ?tr = min (unat ?d) (unat frames * unat step)" by (rule travelled [OF assms])
  have tr_le: "unat ?tr \<le> unat ?d" unfolding tr by simp
  have g: "ramped_gain c t step frames = (if c < t then c + ?tr else c - ?tr)"
    using assms ne by (simp add: ramped_gain_def Let_def)
  show ?thesis
  proof (cases "c < t")
    case True
    then have d: "unat ?d = unat t - unat c" by (simp add: unat_sub)
    have lt: "unat c < unat t" using True by (simp add: word_less_nat_alt)
    have "unat c + unat ?tr \<le> unat t" using tr_le d lt by linarith
    moreover have "unat t < 2 ^ LENGTH(64)" by (rule unsigned_less)
    ultimately have "unat (c + ?tr) = unat c + unat ?tr"
      by (intro unat_add_lem [THEN iffD1]) linarith
    then show ?thesis using g True tr d lt by (auto simp: ramp_to_def min_def)
  next
    case False
    then have gt: "unat t < unat c" using ne by (simp add: word_less_nat_alt word_unat_eq_iff)
    have le: "t \<le> c" using False by simp
    then have d: "unat ?d = unat c - unat t" using False by (simp add: unat_sub)
    have "?tr \<le> c" using tr_le d by (simp only: word_le_nat_alt)
    then have "unat (c - ?tr) = unat c - unat ?tr" by (rule unat_sub)
    then show ?thesis using g False tr d gt by (auto simp: ramp_to_def min_def max_def)
  qed
qed

lemma ramped_gain_add:
  assumes "unat a + unat b < 2 ^ 64"
  shows "ramped_gain (ramped_gain c t step a) t step b = ramped_gain c t step (a + b)"
proof (cases "step = 0")
  case False
  have "unat (a + b) = unat a + unat b" using assms by (intro unat_add_lem [THEN iffD1]) simp
  then show ?thesis
    using False by (simp add: word_unat_eq_iff unat_ramped_gain ramp_to_add algebra_simps)
qed (simp add: ramped_gain_def)

lemma ramped_gain_at [simp]: "ramped_gain t t step n = t"
  by (simp add: ramped_gain_def)

text \<open>The reference for the buffer: one gain per frame.\<close>

fun scale_frames :: "nat \<Rightarrow> nat \<Rightarrow> u64 list \<Rightarrow> u8 list \<Rightarrow> u8 list" where
  "scale_frames bps bpf [] bytes = bytes"
| "scale_frames bps bpf (g # gs) bytes =
     apply_volume (take bpf bytes) bps g @ scale_frames bps bpf gs (drop bpf bytes)"

fun frame_gains :: "u64 \<Rightarrow> u64 \<Rightarrow> u64 \<Rightarrow> nat \<Rightarrow> u64 list" where
  "frame_gains c t step 0 = []"
| "frame_gains c t step (Suc n) =
     (let c' = ramped_gain c t step 1 in c' # frame_gains c' t step n)"

lemma frame_gains_at: "frame_gains t t step n = replicate n t"
  by (induction n) simp_all

lemma scale_frames_steady:
  assumes "bpf mod bps = 0"
  shows "n * bpf \<le> length bytes \<Longrightarrow> scale_frames bps bpf (replicate n g) bytes =
           apply_volume (take (n * bpf) bytes) bps g @ drop (n * bpf) bytes"
proof (induction n arbitrary: bytes)
  case (Suc n)
  have "take (Suc n * bpf) bytes = take bpf bytes @ take (n * bpf) (drop bpf bytes)"
    by (simp add: take_add)
  moreover have "length (take bpf bytes) mod bps = 0" using assms Suc.prems by simp
  ultimately show ?case using Suc by (simp add: apply_volume_append add.commute)
qed (simp add: apply_volume_eq scale_samples.simps [of _ _ "[]"])

lemma ramp_loop_spec:
  assumes "bpf mod bps = 0"
  shows "n * bpf \<le> length bytes \<Longrightarrow>
     ramp_loop bps bpf t step n bytes c = (done, rest, left, c') \<Longrightarrow>
     scale_frames bps bpf (frame_gains c t step n) bytes
       = done @ apply_volume (take (left * bpf) rest) bps t @ drop (left * bpf) rest
     \<and> left \<le> n \<and> (0 < left \<longrightarrow> c' = t) \<and> c' = last (c # frame_gains c t step n)"
proof (induction n arbitrary: bytes c "done" rest left c')
  case 0
  then show ?case by (auto simp: apply_volume_eq scale_samples.simps [of _ _ "[]"])
next
  case (Suc n)
  show ?case
  proof (cases "c = t")
    case True
    then have "done = []" "rest = bytes" "left = Suc n" "c' = t" using Suc.prems(2) by auto
    moreover have "frame_gains t t step (Suc n) = replicate (Suc n) t" by (rule frame_gains_at)
    ultimately show ?thesis using scale_frames_steady [OF assms Suc.prems(1)] True by simp
  next
    case False
    let ?c = "ramped_gain c t step 1"
    obtain d r l g where rl: "ramp_loop bps bpf t step n (drop bpf bytes) ?c = (d, r, l, g)"
      by (metis prod_cases4)
    have "n * bpf \<le> length (drop bpf bytes)" using Suc.prems(1) by simp
    from Suc.IH [OF this rl] show ?thesis using Suc.prems(2) False rl by (auto simp: Let_def)
  qed
qed

lemma frame_gains_nth:
  "k < n \<Longrightarrow> n < 2 ^ 64 \<Longrightarrow> frame_gains c t step n ! k = ramped_gain c t step (of_nat (Suc k))"
proof (induction n arbitrary: c k)
  case (Suc n)
  show ?case
  proof (cases k)
    case (Suc j)
    then have j: "Suc j < 2 ^ 64" using Suc.prems by simp
    then have u: "unat (of_nat (Suc j) :: u64) = Suc j"
      by (simp add: unat_of_nat take_bit_eq_mod del: of_nat_Suc)
    have "frame_gains c t step (Suc n) ! k = ramped_gain (ramped_gain c t step 1) t step (of_nat (Suc j))"
      using Suc.IH [of j "ramped_gain c t step 1"] Suc Suc.prems by (simp add: Let_def)
    also have "\<dots> = ramped_gain c t step (1 + of_nat (Suc j))"
      by (rule ramped_gain_add) (use u Suc.prems \<open>k = Suc j\<close> in simp)
    finally show ?thesis using \<open>k = Suc j\<close> by (simp add: algebra_simps)
  qed (simp add: Let_def)
qed simp

lemma length_frame_gains [simp]: "length (frame_gains c t step n) = n"
  by (induction n arbitrary: c) (simp_all add: Let_def)

lemma apply_volume_ramp_spec:
  assumes "bytes_per_sample \<noteq> 0" "channels \<noteq> 0" "length bytes < 2 ^ 64"
    "frames = length bytes div (unat bytes_per_sample * unat channels)"
  shows "apply_volume_ramp bytes bytes_per_sample channels c t step =
     (scale_frames (unat bytes_per_sample) (unat bytes_per_sample * unat channels)
        (map (\<lambda>k. ramped_gain c t step (of_nat (Suc k))) [0..<frames]) bytes,
      if frames = 0 then c else ramped_gain c t step (of_nat frames))"
proof -
  let ?bps = "unat bytes_per_sample" and ?bpf = "unat bytes_per_sample * unat channels"
  have fr: "frames * ?bpf \<le> length bytes" unfolding assms(4) by (rule div_times_less_eq_dividend)
  have f64: "frames < 2 ^ 64" using assms(3,4) div_le_dividend [of "length bytes" ?bpf] by linarith
  obtain d r l g where rl: "ramp_loop ?bps ?bpf t step frames bytes c = (d, r, l, g)"
    by (metis prod_cases4)
  note spec = ramp_loop_spec [OF _ fr rl]
  have gains: "frame_gains c t step frames = map (\<lambda>k. ramped_gain c t step (of_nat (Suc k))) [0..<frames]"
    by (rule nth_equalityI) (use f64 in \<open>simp_all add: frame_gains_nth del: of_nat_Suc\<close>)
  have last: "last (c # map (\<lambda>k. ramped_gain c t step (of_nat (Suc k))) [0..<frames])
      = (if frames = 0 then c else ramped_gain c t step (of_nat frames))"
    by (cases frames) simp_all
  have "(if 0 < l \<and> t \<noteq> Q32_ONE then apply_volume (take (l * ?bpf) r) ?bps t @ drop (l * ?bpf) r else r)
      = apply_volume (take (l * ?bpf) r) ?bps t @ drop (l * ?bpf) r"
    by (auto simp: apply_volume_eq scale_samples.simps [of _ _ "[]"])
  then show ?thesis
    using spec assms(1,2) rl last unfolding gains
    by (simp add: apply_volume_ramp_def Let_def assms(4) [symmetric] del: of_nat_Suc)
qed

lemma samples_range:
  "n \<in> {1, 2, 3, 4} \<Longrightarrow> s \<in> set (samples n bytes) \<Longrightarrow> - (2 ^ 31) \<le> s \<and> s < 2 ^ 31"
proof (induction n bytes rule: samples.induct)
  case (1 n bytes)
  show ?case
  proof (cases "length bytes < n")
    case False
    then have l: "length (take n bytes) = n" by simp
    have "take n bytes \<noteq> []" using False 1(2) by auto
    then have "- (2 ^ (8 * n) div 2) \<le> signed_le (take n bytes) \<and> signed_le (take n bytes) < 2 ^ (8 * n) div 2"
      using signed_le_range [of "take n bytes", unfolded l] by simp
    then have "- (2 ^ 31) \<le> signed_le (take n bytes) \<and> signed_le (take n bytes) < 2 ^ 31"
      using 1(2) by auto
    then show ?thesis using 1 False by (auto simp: samples.simps [of n bytes])
  qed (use 1 in \<open>simp add: samples.simps [of n bytes]\<close>)
qed

lemma ramp_frames:
  "unat ((ucast rate * ucast VOLUME_RAMP_MS) div MS_PER_SECOND :: u64) = unat (rate :: u32) * 20 div 1000"
proof -
  have c: "unat (ucast rate :: u64) = unat rate" by simp
  have "unat rate * 20 < 18446744073709551616" using unat_u32_less [of rate] by linarith
  then have "unat (ucast rate * 20 :: u64) = unat rate * 20"
    using unat_mult_lem [of "ucast rate :: u64" 20] c by simp
  then show ?thesis by (simp add: unat_div VOLUME_RAMP_MS_def MS_PER_SECOND_def)
qed

lemma volume_ramp_step_unat:
  assumes "f = unat rate * 20 div 1000" "f \<noteq> 0"
  shows "unat (volume_ramp_step rate) = (4294967296 + f - 1) div f"
proof -
  let ?f = "(ucast rate * ucast VOLUME_RAMP_MS) div MS_PER_SECOND :: u64"
  have f: "unat ?f = f" using ramp_frames assms(1) by simp
  then have nz: "?f \<noteq> 0" using assms(2) by (auto simp: unat_eq_0)
  have fl: "f < 4294967296" using assms(1) unat_u32_less [of rate] by linarith
  have "unat (Q32_ONE + ?f) = 4294967296 + f"
    using f fl by (subst unat_add_lem [THEN iffD1]) (simp_all add: Q32_ONE_def)
  then have "unat (Q32_ONE + ?f - 1) = 4294967296 + f - 1"
    using nz by (subst unat_sub) (simp_all add: word_le_nat_alt)
  then show ?thesis using nz f by (simp add: volume_ramp_step_def Let_def unat_div)
qed

lemma ceil_div_covers: "0 < f \<Longrightarrow> (q :: nat) \<le> f * ((q + f - 1) div f)"
proof -
  assume f: "0 < f"
  have "q + f - 1 = f * ((q + f - 1) div f) + (q + f - 1) mod f" by simp
  moreover have "(q + f - 1) mod f < f" using f by simp
  ultimately show ?thesis by linarith
qed

lemma volume_ramp_step_zero: "volume_ramp_step rate = 0 \<longleftrightarrow> unat rate < 50"
proof (cases "unat rate * 20 div 1000 = 0")
  case True
  then have "(ucast rate * ucast VOLUME_RAMP_MS) div MS_PER_SECOND = (0 :: u64)"
    using ramp_frames [of rate] by (simp add: unat_eq_0)
  then show ?thesis using True by (simp add: volume_ramp_step_def)
next
  case False
  let ?f = "unat rate * 20 div 1000"
  have "4294967296 \<le> ?f * unat (volume_ramp_step rate)"
    using ceil_div_covers [of ?f 4294967296] volume_ramp_step_unat [OF refl False] False by simp
  then have "volume_ramp_step rate \<noteq> 0" by auto
  then show ?thesis using False by simp
qed

lemma volume_ramp_arrives:
  assumes "c \<le> Q32_ONE" "t \<le> Q32_ONE"
  shows "ramped_gain c t (volume_ramp_step rate) (of_nat (unat rate * 20 div 1000)) = t"
proof (cases "unat rate * 20 div 1000 = 0")
  case True
  then have "volume_ramp_step rate = 0" by (simp add: volume_ramp_step_zero)
  then show ?thesis by (simp add: ramped_gain_def)
next
  case False
  let ?f = "unat rate * 20 div 1000"
  have fl: "?f < 18446744073709551616"
    using unat_u32_less [of rate] by linarith
  then have u: "unat (of_nat ?f :: u64) = ?f" by (simp add: unat_of_nat take_bit_eq_mod)
  have s: "4294967296 \<le> ?f * unat (volume_ramp_step rate)"
    using ceil_div_covers [of ?f 4294967296] volume_ramp_step_unat [OF refl False] False by simp
  then have nz: "volume_ramp_step rate \<noteq> 0" by auto
  have "unat c \<le> 4294967296" "unat t \<le> 4294967296"
    using assms by (simp_all add: word_le_nat_alt Q32_ONE_def)
  then have "ramp_to (unat c) (unat t) (?f * unat (volume_ramp_step rate)) = unat t"
    using s by (auto simp: ramp_to_def)
  then show ?thesis using unat_ramped_gain [OF nz] u by (simp add: word_unat_eq_iff)
qed

section \<open>Properties\<close>

text \<open>
  C37. Scaling by a gain up to unity, at every width: the buffer keeps its length and its trailing
  partial sample, every sample becomes the rounded product (within half a unit), never larger in
  magnitude and never of the other sign, so it fits its type and the 64-bit product does not
  overflow; unity is the identity and other widths are left alone.
\<close>

theorem apply_volume_is_sound:
  assumes "g \<le> Q32_ONE" "n \<in> {1, 2, 3, 4}"
  shows "length (apply_volume bytes n g) = length bytes
    \<and> samples n (apply_volume bytes n g) = map (scale_sample g) (samples n bytes)
    \<and> drop (n * (length bytes div n)) (apply_volume bytes n g) = drop (n * (length bytes div n)) bytes
    \<and> (\<forall>s \<in> set (samples n bytes). \<bar>scale_sample g s\<bar> \<le> \<bar>s\<bar> \<and> 0 \<le> scale_sample g s * s
         \<and> \<bar>scale_sample g s * 2 ^ 32 - s * int (unat g)\<bar> \<le> 2 ^ 31
         \<and> - (2 ^ 63) \<le> s * int (unat g) \<and> s * int (unat g) + ROUND_TERM < 2 ^ 63)
    \<and> apply_volume bytes n Q32_ONE = bytes"
proof (intro conjI ballI)
  fix s assume "s \<in> set (samples n bytes)"
  then have r: "- (2 ^ 31) \<le> s \<and> s < 2 ^ 31" using samples_range assms(2) by blast
  note b = scale_sample_bounds [OF assms(1), of s]
  show "\<bar>scale_sample g s\<bar> \<le> \<bar>s\<bar>" "0 \<le> scale_sample g s * s"
    using b by (cases "0 \<le> s"; simp add: mult_nonpos_nonpos)+
  show "\<bar>scale_sample g s * 2 ^ 32 - s * int (unat g)\<bar> \<le> 2 ^ 31"
    using scale_sample_rounds [of g s] sint_gain(3) [OF assms(1)] by simp
  have g: "0 \<le> int (unat g)" "int (unat g) \<le> 2 ^ 32" using sint_gain [OF assms(1)] by simp_all
  have "- (2 ^ 31) * 2 ^ 32 \<le> s * int (unat g)"
  proof (cases "0 \<le> s")
    case True
    then have "0 \<le> s * int (unat g)" using g by simp
    then show ?thesis by simp
  next
    case False
    then have "s * 2 ^ 32 \<le> s * int (unat g)" using g by (intro mult_left_mono_neg) auto
    moreover have "- (2 ^ 31) * 2 ^ 32 \<le> s * 2 ^ 32" using r by (intro mult_right_mono) auto
    ultimately show ?thesis by linarith
  qed
  then show "- (2 ^ 63) \<le> s * int (unat g)" by simp
  have "s * int (unat g) \<le> (2 ^ 31 - 1) * 2 ^ 32"
  proof (cases "0 \<le> s")
    case True
    then show ?thesis using r g by (intro mult_mono) auto
  next
    case False
    then have "s * int (unat g) \<le> 0" using g by (simp add: mult_nonpos_nonneg)
    then show ?thesis by simp
  qed
  then show "s * int (unat g) + ROUND_TERM < 2 ^ 63" by (simp add: ROUND_TERM_def)
qed (use assms in \<open>auto simp: apply_volume_eq samples_scale scale_samples_tail\<close>)

theorem apply_volume_is_sound_witness:
  "samples 2 (apply_volume [0, 128, 255, 127, 7] 2 2147483648) = [- 16384, 16384]"
proof -
  have "samples 2 [0, 128, 255, 127, 7] = [- 32768, 32767]"
    by (simp add: samples.simps signed_le_def)
  moreover have "scale_sample 2147483648 (- 32768) = - 16384" "scale_sample 2147483648 32767 = 16384"
    using sint_gain(3) [of 2147483648] by (simp_all add: scale_sample_def ROUND_TERM_def FRAC_BITS_def Q32_ONE_def)
  ultimately show ?thesis
    using apply_volume_is_sound [of 2147483648 2 "[0, 128, 255, 127, 7]"] by (simp add: Q32_ONE_def)
qed

text \<open>
  The buffer ramp agrees frame for frame with \<^verbatim>\<open>ramped_gain\<close>: frame \<open>k\<close> (every channel of
  it) is scaled by the gain \<open>k + 1\<close> steps on, a trailing partial frame is left alone, and the gain
  returned is where \<^verbatim>\<open>ramped_gain\<close> is after all frames, which is what a caller that consumed
  fewer of them recomputes.
\<close>

lemma apply_volume_ramp_frame_for_frame:
  assumes "bytes_per_sample \<noteq> 0" "channels \<noteq> 0" "length bytes < 2 ^ 64"
    "frames = length bytes div (unat bytes_per_sample * unat channels)"
  shows "apply_volume_ramp bytes bytes_per_sample channels c t step =
     (scale_frames (unat bytes_per_sample) (unat bytes_per_sample * unat channels)
        (map (\<lambda>k. ramped_gain c t step (of_nat (Suc k))) [0..<frames]) bytes,
      if frames = 0 then c else ramped_gain c t step (of_nat frames))"
  by (rule apply_volume_ramp_spec [OF assms])

text \<open>
  The ramp's arithmetic: taking \<open>a\<close> frames and then \<open>b\<close> is taking \<open>a + b\<close>, the gain moves by
  exactly \<open>step\<close> a frame until it meets the target and never leaves the interval between start and
  target, and with the step of a sample rate it arrives within \<^verbatim>\<open>VOLUME_RAMP_MS\<close>; a step of 0
  (a rate below 50 Hz) snaps.
\<close>

theorem ramp_arithmetic:
  assumes "unat a + unat b < 2 ^ 64" "c \<le> Q32_ONE" "t \<le> Q32_ONE"
  shows "ramped_gain (ramped_gain c t step a) t step b = ramped_gain c t step (a + b)
    \<and> (step \<noteq> 0 \<longrightarrow> unat (ramped_gain c t step a) =
         (if c \<le> t then min (unat t) (unat c + unat a * unat step)
          else max (unat t) (unat c - unat a * unat step)))
    \<and> ramped_gain c t 0 a = t
    \<and> (volume_ramp_step rate = 0 \<longleftrightarrow> unat rate < 50)
    \<and> ramped_gain c t (volume_ramp_step rate) (of_nat (unat rate * 20 div 1000)) = t"
proof (intro conjI impI)
  show "ramped_gain (ramped_gain c t step a) t step b = ramped_gain c t step (a + b)"
    by (rule ramped_gain_add [OF assms(1)])
  show "step \<noteq> 0 \<Longrightarrow> unat (ramped_gain c t step a) =
         (if c \<le> t then min (unat t) (unat c + unat a * unat step)
          else max (unat t) (unat c - unat a * unat step))"
    by (simp add: unat_ramped_gain ramp_to_def word_le_nat_alt)
  show "ramped_gain c t 0 a = t" by (simp add: ramped_gain_def)
  show "volume_ramp_step rate = 0 \<longleftrightarrow> unat rate < 50" using volume_ramp_step_zero .
  show "ramped_gain c t (volume_ramp_step rate) (of_nat (unat rate * 20 div 1000)) = t"
    using volume_ramp_arrives [OF assms(2,3)] .
qed

theorem ramp_arithmetic_witness:
  "ramped_gain 0 Q32_ONE (volume_ramp_step 44100) 882 = Q32_ONE"
proof -
  have "ramped_gain 0 Q32_ONE (volume_ramp_step 44100) (of_nat (unat (44100 :: u32) * 20 div 1000)) = Q32_ONE"
    by (rule ramp_arithmetic [of 0 0 0 Q32_ONE 0 44100, THEN conjunct2, THEN conjunct2,
          THEN conjunct2, THEN conjunct2]) simp_all
  then show ?thesis by simp
qed

end
