(* ===== verification/ControlProtocol.thy ===== *)
theory ControlProtocol
  imports Prelude
begin

text \<open>
  \<^verbatim>\<open>src/src/control_common.cpp\<close> and the declarations of \<^verbatim>\<open>control.h\<close> it implements, first part:
  the subcommand table, the parsing and printing of one request, and what the daemon does with it
  before anything is sent. The enumerators and fields of the Sendspin library are the ones this
  code names. A parse that fails returns the message (\<open>Inl\<close>).
\<close>

section \<open>Commands\<close>

datatype control_command =
  CmdStatus | CmdPlay | CmdPause | CmdStop | CmdNext | CmdPrevious | CmdVolume | CmdMute | CmdSeek
| CmdSeekRelative | CmdRepeat | CmdShuffle | CmdSwitch | CmdDelay

datatype control_status = StatusOk | Usage | NoDaemon | NotConnected | Unsupported | Failed

datatype repeat_mode = RepeatOff | RepeatOne | RepeatAll

datatype controller_command =
  PLAY | PAUSE | STOP | NEXT | PREVIOUS | VOLUME | MUTE | SEEK | SEEK_RELATIVE | REPEAT_OFF
| REPEAT_ONE | REPEAT_ALL | SHUFFLE | UNSHUFFLE | SWITCH

record control_subcommand =
  sub_name :: string
  sub_command :: control_command
  sub_arity :: nat
  sub_argument :: "string option"
  sub_description :: string

definition MAX_CONTROL_LINE_BYTES :: nat where "MAX_CONTROL_LINE_BYTES = 256"
definition MAX_STATIC_DELAY_MS :: nat where "MAX_STATIC_DELAY_MS = 5000"

definition ON_OFF :: string where "ON_OFF = ''on|off''"

abbreviation sub_row ::
  "string \<Rightarrow> control_command \<Rightarrow> nat \<Rightarrow> string option \<Rightarrow> string \<Rightarrow> control_subcommand" where
  "sub_row n c a arg d \<equiv>
     \<lparr>sub_name = n, sub_command = c, sub_arity = a, sub_argument = arg, sub_description = d\<rparr>"

definition control_subcommands :: "control_subcommand list" where
  "control_subcommands =
    [sub_row ''status'' CmdStatus 0 None ''What this player and its group are doing'',
     sub_row ''play'' CmdPlay 0 None ''Resume or start playback'',
     sub_row ''pause'' CmdPause 0 None ''Pause playback'',
     sub_row ''stop'' CmdStop 0 None ''Stop playback'',
     sub_row ''next'' CmdNext 0 None ''Skip to the next track'',
     sub_row ''prev'' CmdPrevious 0 None ''Skip to the previous track'',
     sub_row ''vol'' CmdVolume 1 (Some ''<0-100>'')
       (''Set the *group* volume -- the server spreads it across every player in the group and '' @
        ''clamps it per player. Not this endpoint'' @ [CHR 0x27] @ ''s own output level''),
     sub_row ''mute'' CmdMute 1 (Some ON_OFF) ''Mute or unmute the group'',
     sub_row ''seek'' CmdSeek 1 (Some ''<ms>'') ''Seek to an absolute position, in milliseconds'',
     sub_row ''seek-rel'' CmdSeekRelative 1 (Some ''<+/-ms>'')
       ''Seek by an offset from the current position; negative seeks backwards'',
     sub_row ''repeat'' CmdRepeat 1 (Some ''off|one|all'') ''Set the repeat mode'',
     sub_row ''shuffle'' CmdShuffle 1 (Some ON_OFF) ''Turn shuffle on or off'',
     sub_row ''switch'' CmdSwitch 0 None
       (''Move this player through the groups available to it. Not a source selector: per the '' @
        ''spec'' @ [CHR 0x27] @ ''s switch cycle it re-homes this client between groups''),
     sub_row ''delay'' CmdDelay 1 (Some ''<0-5000>'')
       (''Tell *this* endpoint how much latency its hardware adds after the audio port -- an '' @
        ''amplifier, an external speaker. The player then hands audio over that much earlier, so '' @
        ''the sound lands in sync rather than late. Answered locally, remembered across restarts, '' @
        ''and not a group setting'')]"

definition find_control_subcommand :: "string \<Rightarrow> control_subcommand option" where
  "find_control_subcommand name = find (\<lambda>s. sub_name s = name) control_subcommands"

fun comma_list :: "string \<Rightarrow> string list \<Rightarrow> string" where
  "comma_list out [] = out"
| "comma_list out (n # ns) = comma_list ((if out \<noteq> [] then out @ '', '' else out) @ n) ns"

definition control_subcommand_list :: string where
  "control_subcommand_list = comma_list [] (map sub_name control_subcommands)"

definition command_name :: "control_command \<Rightarrow> string" where
  "command_name c =
     (case find (\<lambda>s. sub_command s = c) control_subcommands of
        Some s \<Rightarrow> sub_name s
      | None \<Rightarrow> ''?'')"

section \<open>Values\<close>

definition parse_unsigned :: "string \<Rightarrow> nat \<Rightarrow> nat option" where
  "parse_unsigned text limit =
     (if text = [] \<or> find_first_not_of DIGITS text \<noteq> None then None
      else if dec_val text > ULLONG_MAX \<or> strtoull text > limit then None
      else Some (strtoull text))"

definition parse_int32 :: "string \<Rightarrow> int option" where
  "parse_int32 text =
     (let negative = (text \<noteq> [] \<and> hd text = CHR ''-'');
          signed_form = (negative \<or> (text \<noteq> [] \<and> hd text = CHR ''+''));
          digits = (if signed_form then tl text else text);
          limit = (if negative then 2147483648 else 2147483647)
      in case parse_unsigned digits limit of
           None \<Rightarrow> None
         | Some magnitude \<Rightarrow> Some (if negative then - int magnitude else int magnitude))"

definition parse_on_off :: "string \<Rightarrow> bool option" where
  "parse_on_off text =
     (if text = ''on'' then Some True else if text = ''off'' then Some False else None)"

definition parse_repeat_mode :: "string \<Rightarrow> repeat_mode option" where
  "parse_repeat_mode text =
     (if text = ''off'' then Some RepeatOff
      else if text = ''one'' then Some RepeatOne
      else if text = ''all'' then Some RepeatAll
      else None)"

fun repeat_mode_name :: "repeat_mode \<Rightarrow> string" where
  "repeat_mode_name RepeatOne = ''one''"
| "repeat_mode_name RepeatAll = ''all''"
| "repeat_mode_name RepeatOff = ''off''"

definition to_string_int :: "int \<Rightarrow> string" where
  "to_string_int v = (if v < 0 then CHR ''-'' # to_string (nat (- v)) else to_string (nat v))"

section \<open>Requests\<close>

text \<open>\<open>rq_offset_ms\<close> is an \<^verbatim>\<open>int32_t\<close>, held as the integer it is.\<close>

record control_request =
  rq_command :: control_command
  rq_volume :: "u8 option"
  rq_flag :: "bool option"
  rq_position_ms :: "u32 option"
  rq_offset_ms :: "int option"
  rq_repeat :: "repeat_mode option"
  rq_delay_ms :: "u16 option"

definition request_for :: "control_command \<Rightarrow> control_request" where
  "request_for c = \<lparr>rq_command = c, rq_volume = None, rq_flag = None, rq_position_ms = None,
     rq_offset_ms = None, rq_repeat = None, rq_delay_ms = None\<rparr>"

record control_invocation =
  inv_name :: string
  inv_args :: "string list"
  inv_consumed :: nat

definition split_subcommand :: "string list \<Rightarrow> string + control_invocation" where
  "split_subcommand argv =
     (if length argv < 2 \<or> (argv ! 1 \<noteq> [] \<and> hd (argv ! 1) = CHR ''-'')
      then Inr \<lparr>inv_name = [], inv_args = [], inv_consumed = 0\<rparr>
      else case find_control_subcommand (argv ! 1) of
             None \<Rightarrow> Inl (''unknown subcommand '' @ quoted (argv ! 1) @ '' -- expected one of: '' @
                           control_subcommand_list)
           | Some sub \<Rightarrow>
               if length argv < 2 + sub_arity sub
               then Inl (quoted (sub_name sub) @ '' needs an argument: '' @ sub_name sub @ '' '' @
                         (case sub_argument sub of None \<Rightarrow> [] | Some a \<Rightarrow> a))
               else Inr \<lparr>inv_name = sub_name sub, inv_args = take (sub_arity sub) (drop 2 argv),
                         inv_consumed = 2 + sub_arity sub\<rparr>)"

definition parse_control_request :: "string \<Rightarrow> string list \<Rightarrow> string + control_request" where
  "parse_control_request name args =
     (case find_control_subcommand name of
        None \<Rightarrow> Inl (''unknown subcommand '' @ quoted name @ '' -- expected one of: '' @
                      control_subcommand_list)
      | Some sub \<Rightarrow>
          if length args \<noteq> sub_arity sub
          then Inl (quoted (sub_name sub) @ '' takes '' @ to_string (sub_arity sub) @ '' argument'' @
                    (if sub_arity sub = 1 then '''' else ''s'') @ '', got '' @ to_string (length args))
          else
            (let out = request_for (sub_command sub) in
             if sub_arity sub = 0 then Inr out
             else
               (let value = hd args;
                    reject = (\<lambda>accepted. Inl (quoted (sub_name sub @ '' '' @ value) @
                                               '': expected '' @ accepted))
                in case sub_command sub of
                     CmdVolume \<Rightarrow>
                       (case parse_unsigned value 100 of
                          None \<Rightarrow> reject ''a volume from 0 to 100''
                        | Some v \<Rightarrow> Inr (out\<lparr>rq_volume := Some (of_nat v)\<rparr>))
                   | CmdDelay \<Rightarrow>
                       (case parse_unsigned value MAX_STATIC_DELAY_MS of
                          None \<Rightarrow> reject (''a static delay in milliseconds, from 0 to '' @
                                           to_string MAX_STATIC_DELAY_MS)
                        | Some v \<Rightarrow> Inr (out\<lparr>rq_delay_ms := Some (of_nat v)\<rparr>))
                   | CmdMute \<Rightarrow>
                       (case parse_on_off value of
                          None \<Rightarrow> reject (quoted ''on'' @ '' or '' @ quoted ''off'')
                        | Some b \<Rightarrow> Inr (out\<lparr>rq_flag := Some b\<rparr>))
                   | CmdShuffle \<Rightarrow>
                       (case parse_on_off value of
                          None \<Rightarrow> reject (quoted ''on'' @ '' or '' @ quoted ''off'')
                        | Some b \<Rightarrow> Inr (out\<lparr>rq_flag := Some b\<rparr>))
                   | CmdSeek \<Rightarrow>
                       (case parse_unsigned value 4294967295 of
                          None \<Rightarrow> reject (''a non-negative position in milliseconds, at most 4294967295 '' @
                                           ''(use seek-rel for a relative move)'')
                        | Some v \<Rightarrow> Inr (out\<lparr>rq_position_ms := Some (of_nat v)\<rparr>))
                   | CmdSeekRelative \<Rightarrow>
                       (case parse_int32 value of
                          None \<Rightarrow> reject ''an offset in milliseconds from -2147483648 to 2147483647''
                        | Some v \<Rightarrow> Inr (out\<lparr>rq_offset_ms := Some v\<rparr>))
                   | CmdRepeat \<Rightarrow>
                       (case parse_repeat_mode value of
                          None \<Rightarrow> reject (quoted ''off'' @ '', '' @ quoted ''one'' @ '' or '' @ quoted ''all'')
                        | Some r \<Rightarrow> Inr (out\<lparr>rq_repeat := Some r\<rparr>))
                   | _ \<Rightarrow> Inl (quoted (sub_name sub) @ '' takes no argument''))))"

definition encode_control_request :: "control_request \<Rightarrow> string" where
  "encode_control_request r =
     (let l = command_name (rq_command r) in
      case rq_volume r of Some v \<Rightarrow> l @ '' '' @ to_string (unat v) | None \<Rightarrow>
     (case rq_flag r of Some b \<Rightarrow> l @ (if b then '' on'' else '' off'') | None \<Rightarrow>
     (case rq_position_ms r of Some p \<Rightarrow> l @ '' '' @ to_string (unat p) | None \<Rightarrow>
     (case rq_offset_ms r of Some d \<Rightarrow> l @ '' '' @ to_string_int d | None \<Rightarrow>
     (case rq_repeat r of Some m \<Rightarrow> l @ '' '' @ repeat_mode_name m | None \<Rightarrow>
     (case rq_delay_ms r of Some d \<Rightarrow> l @ '' '' @ to_string (unat d) | None \<Rightarrow> l))))))"

definition WORD_BLANKS :: string where
  "WORD_BLANKS = [CHR '' '', CHR 0x09]"

lemma find_first_not_of_SomeD:
  "find_first_not_of cs s = Some i \<Longrightarrow> i < length s \<and> s ! i \<notin> set cs"
  by (induction s arbitrary: i) (auto split: if_splits)

lemma word_end_after:
  assumes "find_first_not_of cs (drop p line) = Some s" "find_first_of cs (drop (p + s) line) = Some n"
  shows "0 < n"
proof (rule ccontr)
  assume "\<not> 0 < n"
  then have "drop (p + s) line ! 0 \<in> set cs" "0 < length (drop (p + s) line)"
    using find_first_of_SomeD [OF assms(2)] by auto
  moreover have "drop p line ! s \<notin> set cs" "s < length (drop p line)"
    using find_first_not_of_SomeD [OF assms(1)] by auto
  ultimately show False by simp
qed

text \<open>The loop of \<^verbatim>\<open>split_control_line\<close>, over the position in the line.\<close>

function split_loop :: "string \<Rightarrow> nat \<Rightarrow> string \<Rightarrow> string list \<Rightarrow> string \<times> string list" where
  "split_loop line position name args =
     (if position \<ge> length line then (name, args)
      else case find_first_not_of WORD_BLANKS (drop position line) of
             None \<Rightarrow> (name, args)
           | Some s \<Rightarrow>
               (let start = position + s;
                    stop = find_first_of WORD_BLANKS (drop start line);
                    word = (case stop of None \<Rightarrow> drop start line | Some n \<Rightarrow> substr line start n);
                    position' = (case stop of None \<Rightarrow> length line | Some n \<Rightarrow> start + n)
                in if name = [] then split_loop line position' word args
                   else split_loop line position' name (args @ [word])))"
  by pat_completeness auto
termination
  by (relation "measure (\<lambda>(line, position, _). length line - position)")
     (auto dest: word_end_after split: option.splits)

declare split_loop.simps [simp del]

definition split_control_line :: "string \<Rightarrow> bool \<times> string \<times> string list" where
  "split_control_line line =
     (case split_loop line 0 [] [] of (name, args) \<Rightarrow> (name \<noteq> [], name, args))"

section \<open>What is sent\<close>

definition protocol_command :: "control_request \<Rightarrow> controller_command option" where
  "protocol_command r =
     (case rq_command r of
        CmdStatus \<Rightarrow> None
      | CmdDelay \<Rightarrow> None
      | CmdPlay \<Rightarrow> Some PLAY
      | CmdPause \<Rightarrow> Some PAUSE
      | CmdStop \<Rightarrow> Some STOP
      | CmdNext \<Rightarrow> Some NEXT
      | CmdPrevious \<Rightarrow> Some PREVIOUS
      | CmdVolume \<Rightarrow> Some VOLUME
      | CmdMute \<Rightarrow> Some MUTE
      | CmdSeek \<Rightarrow> Some SEEK
      | CmdSeekRelative \<Rightarrow> Some SEEK_RELATIVE
      | CmdRepeat \<Rightarrow>
          (case (case rq_repeat r of None \<Rightarrow> RepeatOff | Some m \<Rightarrow> m) of
             RepeatOne \<Rightarrow> Some REPEAT_ONE
           | RepeatAll \<Rightarrow> Some REPEAT_ALL
           | RepeatOff \<Rightarrow> Some REPEAT_OFF)
      | CmdShuffle \<Rightarrow> Some (if rq_flag r = Some True then SHUFFLE else UNSHUFFLE)
      | CmdSwitch \<Rightarrow> Some SWITCH)"

record client_command =
  cc_command :: controller_command
  cc_volume :: "u8 option"
  cc_muted :: "bool option"
  cc_position_ms :: "u32 option"
  cc_offset_ms :: "int option"

definition to_client_command :: "control_request \<Rightarrow> client_command" where
  "to_client_command r =
     \<lparr>cc_command = (case protocol_command r of None \<Rightarrow> PLAY | Some c \<Rightarrow> c),
      cc_volume = rq_volume r,
      cc_muted = (if rq_command r = CmdMute then rq_flag r else None),
      cc_position_ms = rq_position_ms r,
      cc_offset_ms = rq_offset_ms r\<rparr>"

record controller_snapshot =
  snap_connected :: bool
  supported_commands :: "controller_command list"
  seek_max_ms :: "u32 option"

definition position_or_0 :: "control_request \<Rightarrow> u32" where
  "position_or_0 r = (case rq_position_ms r of None \<Rightarrow> 0 | Some p \<Rightarrow> p)"

definition control_refusal ::
  "control_request \<Rightarrow> controller_snapshot \<Rightarrow> (control_status \<times> string) option" where
  "control_refusal r snap =
     (case protocol_command r of
        None \<Rightarrow> None
      | Some c \<Rightarrow>
          if \<not> snap_connected snap
          then Some (NotConnected,
                 ''this player is not connected to a Sendspin server, so there is nothing to send '' @
                 quoted (command_name (rq_command r)) @ '' to. Run '' @ quoted ''sendspin-cli status'' @
                 '' to see what it is doing'')
          else if c \<notin> set (supported_commands snap)
          then Some (Unsupported,
                 ''the server does not offer '' @ quoted (command_name (rq_command r)) @
                 '': it is not in the supported_commands this connection published, so sending '' @
                 ''it would be ignored'' @
                 (if supported_commands snap = []
                  then ''. The server has published no commands at all yet'' else ''''))
          else
            (case seek_max_ms snap of
               None \<Rightarrow> None
             | Some m \<Rightarrow>
                 if rq_command r = CmdSeek \<and> position_or_0 r > m
                 then Some (Usage,
                        quoted (''seek '' @ to_string (unat (position_or_0 r))) @
                        '' is past the end of what this server says is seekable (seek_max_ms is '' @
                        to_string (unat m) @ '')'')
                 else None))"

section \<open>The words of a line\<close>

text \<open>The reference for \<^verbatim>\<open>split_control_line\<close>: the maximal runs without blanks.\<close>

definition is_blank :: "char \<Rightarrow> bool" where
  "is_blank c \<longleftrightarrow> c \<in> set WORD_BLANKS"

function words_of :: "string \<Rightarrow> string list" where
  "words_of s =
     (let t = dropWhile is_blank s in
      if t = [] then []
      else takeWhile (\<lambda>c. \<not> is_blank c) t # words_of (dropWhile (\<lambda>c. \<not> is_blank c) t))"
  by pat_completeness auto
termination
proof (relation "measure length")
  fix s :: string and t
  assume t: "t = dropWhile is_blank s" "t \<noteq> []"
  then have "\<not> is_blank (hd t)" using hd_dropWhile by blast
  then have "length (dropWhile (\<lambda>c. \<not> is_blank c) t) < length t"
    using t(2) by (cases t) (auto simp: le_imp_less_Suc length_dropWhile_le)
  moreover have "length t \<le> length s" unfolding t(1) by (rule length_dropWhile_le)
  ultimately show "(dropWhile (\<lambda>c. \<not> is_blank c) t, s) \<in> measure length" by simp
qed simp

declare words_of.simps [simp del]

lemma find_first_of_while:
  "find_first_of WORD_BLANKS t = Some n \<Longrightarrow>
     take n t = takeWhile (\<lambda>c. \<not> is_blank c) t \<and> drop n t = dropWhile (\<lambda>c. \<not> is_blank c) t"
  by (induction t arbitrary: n) (auto simp: is_blank_def split: if_splits)

lemma find_first_of_none_while:
  "find_first_of WORD_BLANKS t = None \<Longrightarrow>
     takeWhile (\<lambda>c. \<not> is_blank c) t = t \<and> dropWhile (\<lambda>c. \<not> is_blank c) t = []"
  by (induction t) (auto simp: is_blank_def split: if_splits)

lemma find_first_not_of_while:
  "find_first_not_of WORD_BLANKS t = Some s \<Longrightarrow> dropWhile is_blank t = drop s t \<and> s < length t"
  using find_first_not_of_drop [of WORD_BLANKS t s] by (simp add: is_blank_def [abs_def])

lemma find_first_not_of_none_while:
  "find_first_not_of WORD_BLANKS t = None \<Longrightarrow> dropWhile is_blank t = []"
  by (induction t) (auto simp: is_blank_def split: if_splits)

definition add_words :: "string \<Rightarrow> string list \<Rightarrow> string list \<Rightarrow> string \<times> string list" where
  "add_words name args ws =
     (if name = [] then (case ws of [] \<Rightarrow> ([], args) | w # r \<Rightarrow> (w, args @ r)) else (name, args @ ws))"

lemma words_of_Nil [simp]: "words_of [] = []"
  by (simp add: words_of.simps)

lemma split_loop_words: "split_loop line p name args = add_words name args (words_of (drop p line))"
proof (induction line p name args rule: split_loop.induct)
  case (1 line p name args)
  show ?case
  proof (cases "p \<ge> length line")
    case True
    then show ?thesis by (simp add: split_loop.simps [of line p] add_words_def)
  next
    case False
    show ?thesis
    proof (cases "find_first_not_of WORD_BLANKS (drop p line)")
      case None
      then have "words_of (drop p line) = []"
        by (simp add: words_of.simps [of "drop p line"] find_first_not_of_none_while)
      then show ?thesis using False None by (simp add: split_loop.simps [of line p] add_words_def)
    next
      case (Some s)
      let ?t = "drop (p + s) line"
      have t: "dropWhile is_blank (drop p line) = ?t" "?t \<noteq> []"
        using find_first_not_of_while [OF Some] by (auto simp: add.commute)
      show ?thesis
      proof (cases "find_first_of WORD_BLANKS ?t")
        case n: None
        then have w: "words_of (drop p line) = [?t]"
          using t by (simp add: words_of.simps [of "drop p line"] find_first_of_none_while)
        show ?thesis
          using False Some n w t(2)
          by (auto simp: split_loop.simps [of line p] split_loop.simps [of line "length line"] add_words_def)
      next
        case n: (Some n)
        have w: "words_of (drop p line) = take n ?t # words_of (drop n ?t)"
          using t find_first_of_while [OF n] by (simp add: words_of.simps [of "drop p line"] Let_def)
        have "take n ?t \<noteq> []" using word_end_after [OF Some n] t(2) by auto
        then show ?thesis
          using False Some n w 1(1) [OF False Some refl refl refl refl]
            1(2) [OF False Some refl refl refl refl]
          by (auto simp: split_loop.simps [of line p] add_words_def substr_def Let_def add.commute
              add.left_commute)
      qed
    qed
  qed
qed

lemma words_of_word:
  "w \<noteq> [] \<Longrightarrow> \<forall>c \<in> set w. \<not> is_blank c \<Longrightarrow> words_of w = [w]"
proof -
  assume w: "w \<noteq> []" "\<forall>c \<in> set w. \<not> is_blank c"
  then have "dropWhile is_blank w = w" by (cases w) auto
  moreover have "takeWhile (\<lambda>c. \<not> is_blank c) w = w" "dropWhile (\<lambda>c. \<not> is_blank c) w = []"
    using w by auto
  ultimately show ?thesis by (subst words_of.simps) (simp only: Let_def w(1) if_False words_of_Nil)
qed

lemma words_of_two:
  assumes "w \<noteq> []" "\<forall>c \<in> set w. \<not> is_blank c"
  shows "words_of (w @ CHR '' '' # s) = w # words_of s"
proof -
  have b: "is_blank CHR '' ''" by (simp add: is_blank_def WORD_BLANKS_def)
  have "dropWhile is_blank (w @ CHR '' '' # s) = w @ CHR '' '' # s" using assms by (cases w) auto
  moreover have "takeWhile (\<lambda>c. \<not> is_blank c) (w @ CHR '' '' # s) = w"
      "dropWhile (\<lambda>c. \<not> is_blank c) (w @ CHR '' '' # s) = CHR '' '' # s"
    using assms(2) b by (simp_all add: takeWhile_append2 dropWhile_append2)
  moreover have "words_of (CHR '' '' # s) = words_of s"
    using b by (simp add: words_of.simps [of "CHR '' '' # s"] words_of.simps [of s])
  ultimately show ?thesis using assms(1) by (simp add: words_of.simps [of "w @ CHR '' '' # s"])
qed

section \<open>Requests on the wire\<close>

text \<open>A request as the parser produces it: exactly its command's field, inside its bound.\<close>

definition request_ok :: "control_request \<Rightarrow> bool" where
  "request_ok r \<longleftrightarrow>
     (let out = request_for (rq_command r) in
      case rq_command r of
        CmdVolume \<Rightarrow> (case rq_volume r of None \<Rightarrow> False | Some v \<Rightarrow> unat v \<le> 100 \<and> r = out\<lparr>rq_volume := Some v\<rparr>)
      | CmdDelay \<Rightarrow> (case rq_delay_ms r of None \<Rightarrow> False
                    | Some d \<Rightarrow> unat d \<le> MAX_STATIC_DELAY_MS \<and> r = out\<lparr>rq_delay_ms := Some d\<rparr>)
      | CmdMute \<Rightarrow> (case rq_flag r of None \<Rightarrow> False | Some b \<Rightarrow> r = out\<lparr>rq_flag := Some b\<rparr>)
      | CmdShuffle \<Rightarrow> (case rq_flag r of None \<Rightarrow> False | Some b \<Rightarrow> r = out\<lparr>rq_flag := Some b\<rparr>)
      | CmdSeek \<Rightarrow> (case rq_position_ms r of None \<Rightarrow> False | Some p \<Rightarrow> r = out\<lparr>rq_position_ms := Some p\<rparr>)
      | CmdSeekRelative \<Rightarrow>
          (case rq_offset_ms r of None \<Rightarrow> False
           | Some v \<Rightarrow> - 2147483648 \<le> v \<and> v \<le> 2147483647 \<and> r = out\<lparr>rq_offset_ms := Some v\<rparr>)
      | CmdRepeat \<Rightarrow> (case rq_repeat r of None \<Rightarrow> False | Some m \<Rightarrow> r = out\<lparr>rq_repeat := Some m\<rparr>)
      | _ \<Rightarrow> r = out)"

lemma parse_unsigned_SomeD: "parse_unsigned t m = Some v \<Longrightarrow> v \<le> m"
  by (auto simp: parse_unsigned_def split: if_splits)

lemma parse_unsigned_to_string [simp]:
  "n \<le> m \<Longrightarrow> n \<le> ULLONG_MAX \<Longrightarrow> parse_unsigned (to_string n) m = Some n"
  using set_to_string [of n] by (simp add: parse_unsigned_def strtoull_to_string)

lemma to_string_head: "hd (to_string n) \<noteq> CHR ''-'' \<and> hd (to_string n) \<noteq> CHR ''+''"
proof -
  have "hd (to_string n) \<in> set DIGITS" using subsetD [OF set_to_string hd_in_set] by simp
  then show ?thesis by (auto simp: DIGITS_def)
qed

lemma parse_int32_to_string:
  assumes "- 2147483648 \<le> v" "v \<le> 2147483647"
  shows "parse_int32 (to_string_int v) = Some v"
proof (cases "v < 0")
  case True
  then have "parse_unsigned (to_string (nat (- v))) 2147483648 = Some (nat (- v))"
    using assms by (intro parse_unsigned_to_string) (auto simp: ULLONG_MAX_def)
  then show ?thesis using True by (simp add: parse_int32_def to_string_int_def)
next
  case False
  then have "parse_unsigned (to_string (nat v)) 2147483647 = Some (nat v)"
    using assms by (intro parse_unsigned_to_string) (auto simp: ULLONG_MAX_def)
  then show ?thesis using False to_string_head [of "nat v"]
    by (simp add: parse_int32_def to_string_int_def Let_def)
qed

lemma parse_int32_range:
  "parse_int32 t = Some v \<Longrightarrow> - 2147483648 \<le> v \<and> v \<le> 2147483647"
  by (auto simp: parse_int32_def Let_def split: option.splits if_splits dest!: parse_unsigned_SomeD)

definition WIRE_CHARS :: string where
  "WIRE_CHARS = ''-abcdefghijklmnopqrstuvwxyz0123456789''"

lemma wire_chars:
  "c \<in> set WIRE_CHARS \<Longrightarrow> \<not> is_blank c \<and> c \<noteq> CHR 0x0A \<and> c \<noteq> CHR 0x00 \<and> c \<noteq> CHR 0x0D"
proof -
  have "\<forall>c \<in> set WIRE_CHARS. \<not> is_blank c \<and> c \<noteq> CHR 0x0A \<and> c \<noteq> CHR 0x00 \<and> c \<noteq> CHR 0x0D" by code_simp
  then show "c \<in> set WIRE_CHARS \<Longrightarrow> \<not> is_blank c \<and> c \<noteq> CHR 0x0A \<and> c \<noteq> CHR 0x00 \<and> c \<noteq> CHR 0x0D" by blast
qed

definition all_commands :: "control_command list" where
  "all_commands = [CmdStatus, CmdPlay, CmdPause, CmdStop, CmdNext, CmdPrevious, CmdVolume, CmdMute,
     CmdSeek, CmdSeekRelative, CmdRepeat, CmdShuffle, CmdSwitch, CmdDelay]"

lemma command_listed: "c \<in> set all_commands"
  by (cases c) (simp_all add: all_commands_def)

lemma command_names_checked:
  "list_all (\<lambda>c. command_name c \<noteq> [] \<and> list_all (\<lambda>x. x \<in> set WIRE_CHARS) (command_name c)
     \<and> length (command_name c) \<le> 20
     \<and> map_option sub_command (find_control_subcommand (command_name c)) = Some c) all_commands"
  by code_simp

lemma command_name_wire:
  "command_name c \<noteq> []" "set (command_name c) \<subseteq> set WIRE_CHARS" "length (command_name c) \<le> 20"
  using command_names_checked command_listed [of c] by (auto simp: list_all_iff)

definition takes_argument :: "control_command \<Rightarrow> bool" where
  "takes_argument c \<longleftrightarrow>
     c \<in> {CmdVolume, CmdMute, CmdSeek, CmdSeekRelative, CmdRepeat, CmdShuffle, CmdDelay}"

lemma subcommand_rows:
  "list_all (\<lambda>s. command_name (sub_command s) = sub_name s
     \<and> sub_arity s = (if takes_argument (sub_command s) then 1 else 0)) control_subcommands"
  by code_simp

lemma command_found: "map_option sub_command (find_control_subcommand (command_name c)) = Some c"
  using command_names_checked command_listed [of c] by (auto simp: list_all_iff)

lemma find_control_subcommand_SomeD:
  assumes "find_control_subcommand n = Some s"
  shows "sub_name s = n" "command_name (sub_command s) = n"
    "sub_arity s = (if takes_argument (sub_command s) then 1 else 0)"
proof -
  have m: "sub_name s = n" "s \<in> set control_subcommands"
    using assms by (auto simp: find_control_subcommand_def find_Some_iff)
  then show "sub_name s = n" "command_name (sub_command s) = n"
    "sub_arity s = (if takes_argument (sub_command s) then 1 else 0)"
    using subcommand_rows by (auto simp: list_all_iff)
qed

lemma find_command_name:
  obtains s where "find_control_subcommand (command_name c) = Some s" "sub_command s = c"
    "sub_name s = command_name c" "sub_arity s = (if takes_argument c then 1 else 0)"
  using command_found [of c] find_control_subcommand_SomeD [of "command_name c"]
  by (auto split: option.splits)

text \<open>A line can go over the wire: one word or two, short, and neither blank nor terminator inside.\<close>

definition wire_line :: "string \<Rightarrow> string \<Rightarrow> string list \<Rightarrow> bool" where
  "wire_line l name args \<longleftrightarrow>
     split_control_line l = (True, name, args) \<and> length l \<le> MAX_CONTROL_LINE_BYTES
     \<and> CHR 0x0A \<notin> set l \<and> CHR 0x00 \<notin> set l \<and> CHR 0x0D \<notin> set l"

lemma not_blank_wire: "set w \<subseteq> set WIRE_CHARS \<Longrightarrow> \<forall>c \<in> set w. \<not> is_blank c"
  using wire_chars by blast

lemma wire_line_one: "wire_line (command_name c) (command_name c) []"
  unfolding wire_line_def
  using command_name_wire [of c] not_blank_wire [of "command_name c"] wire_chars
  by (auto simp: split_control_line_def split_loop_words words_of_word add_words_def
      MAX_CONTROL_LINE_BYTES_def)

lemma wire_line_two:
  assumes "v \<noteq> []" "set v \<subseteq> set WIRE_CHARS" "length v \<le> 20"
  shows "wire_line (command_name c @ CHR '' '' # v) (command_name c) [v]"
proof -
  have n: "\<forall>x \<in> set (command_name c). \<not> is_blank x" "\<forall>x \<in> set v. \<not> is_blank x"
    using not_blank_wire command_name_wire(2) assms(2) by auto
  have "words_of (command_name c @ CHR '' '' # v) = [command_name c, v]"
    using words_of_two [OF command_name_wire(1) n(1)] words_of_word [OF assms(1) n(2)] by simp
  then have "split_control_line (command_name c @ CHR '' '' # v) = (True, command_name c, [v])"
    using command_name_wire(1) [of c] by (simp add: split_control_line_def split_loop_words add_words_def)
  moreover have "length (command_name c @ CHR '' '' # v) \<le> 256"
    using command_name_wire(3) [of c] assms(3) by simp
  moreover have "CHR 0x0A \<notin> set (command_name c @ CHR '' '' # v)" "CHR 0x00 \<notin> set (command_name c @ CHR '' '' # v)"
      "CHR 0x0D \<notin> set (command_name c @ CHR '' '' # v)"
    using wire_chars command_name_wire(2) [of c] assms(2) by auto
  ultimately show ?thesis by (simp add: wire_line_def MAX_CONTROL_LINE_BYTES_def)
qed

lemma to_string_wire:
  "set (to_string n) \<subseteq> set WIRE_CHARS" "n \<le> ULLONG_MAX \<Longrightarrow> length (to_string n) \<le> 20"
proof -
  have "set DIGITS \<subseteq> set WIRE_CHARS" by code_simp
  then show "set (to_string n) \<subseteq> set WIRE_CHARS" using set_to_string [of n] by blast
qed (rule length_to_string)

lemma to_string_int_wire:
  assumes "- 2147483648 \<le> v" "v \<le> 2147483647"
  shows "to_string_int v \<noteq> []" "set (to_string_int v) \<subseteq> set WIRE_CHARS" "length (to_string_int v) \<le> 20"
proof -
  have "length (to_string (nat (- v))) \<le> 10" "length (to_string (nat v)) \<le> 10"
    using assms by (auto intro!: length_to_string_pow)
  moreover have "CHR ''-'' \<in> set WIRE_CHARS" by code_simp
  ultimately show "to_string_int v \<noteq> []" "set (to_string_int v) \<subseteq> set WIRE_CHARS"
      "length (to_string_int v) \<le> 20"
    using to_string_wire(1) by (auto simp: to_string_int_def)
qed

lemma request_sent:
  assumes "request_ok r"
  shows "\<exists>name args. wire_line (encode_control_request r) name args \<and> parse_control_request name args = Inr r"
proof -
  let ?c = "rq_command r"
  obtain s where s: "find_control_subcommand (command_name ?c) = Some s" "sub_command s = ?c"
      "sub_arity s = (if takes_argument ?c then 1 else 0)"
    using find_command_name [of ?c] by metis
  have two: "\<exists>name args. wire_line (encode_control_request r) name args \<and> parse_control_request name args = Inr r"
    if "encode_control_request r = command_name ?c @ CHR '' '' # v" "v \<noteq> []" "set v \<subseteq> set WIRE_CHARS"
       "length v \<le> 20" "parse_control_request (command_name ?c) [v] = Inr r" for v
    using that wire_line_two [OF that(2-4), of ?c] by auto
  have one: "\<exists>name args. wire_line (encode_control_request r) name args \<and> parse_control_request name args = Inr r"
    if "r = request_for ?c" "sub_arity s = 0"
  proof -
    have "encode_control_request r = command_name ?c" using that(1)
      by (metis (no_types, lifting) encode_control_request_def option.case(1) request_for_def
          control_request.select_convs(1-7))
    moreover have "parse_control_request (command_name ?c) [] = Inr r"
      using s that by (simp add: parse_control_request_def Let_def)
    ultimately show ?thesis using wire_line_one by auto
  qed
  show ?thesis
  proof (cases ?c)
    case CmdVolume
    then obtain v where v: "unat v \<le> 100" "r = request_for CmdVolume\<lparr>rq_volume := Some v\<rparr>"
      using assms by (auto simp: request_ok_def Let_def split: option.splits)
    have "parse_unsigned (to_string (unat v)) 100 = Some (unat v)"
      using v(1) unat_ullong(1) by (rule parse_unsigned_to_string)
    then show ?thesis using v s CmdVolume to_string_wire(1) [of "unat v"] to_string_wire(2) [OF unat_ullong(1)]
      by (intro two [of "to_string (unat v)"])
         (simp_all add: parse_control_request_def encode_control_request_def request_for_def takes_argument_def Let_def)
  next
    case CmdDelay
    then obtain v where v: "unat v \<le> MAX_STATIC_DELAY_MS" "r = request_for CmdDelay\<lparr>rq_delay_ms := Some v\<rparr>"
      using assms by (auto simp: request_ok_def Let_def split: option.splits)
    have "parse_unsigned (to_string (unat v)) MAX_STATIC_DELAY_MS = Some (unat v)"
      using v(1) unat_ullong(2) by (rule parse_unsigned_to_string)
    then show ?thesis using v s CmdDelay to_string_wire(1) [of "unat v"] to_string_wire(2) [OF unat_ullong(2)]
      by (intro two [of "to_string (unat v)"])
         (simp_all add: parse_control_request_def encode_control_request_def request_for_def takes_argument_def Let_def)
  next
    case CmdSeek
    then obtain v where v: "r = request_for CmdSeek\<lparr>rq_position_ms := Some v\<rparr>"
      using assms by (auto simp: request_ok_def Let_def split: option.splits)
    have "parse_unsigned (to_string (unat v)) 4294967295 = Some (unat v)"
      using unat_u32_le unat_ullong(3) by (rule parse_unsigned_to_string)
    then show ?thesis using v s CmdSeek to_string_wire(1) [of "unat v"] to_string_wire(2) [OF unat_ullong(3)]
      by (intro two [of "to_string (unat v)"])
         (simp_all add: parse_control_request_def encode_control_request_def request_for_def takes_argument_def Let_def)
  next
    case CmdSeekRelative
    then obtain v where v: "- 2147483648 \<le> v" "v \<le> 2147483647"
        "r = request_for CmdSeekRelative\<lparr>rq_offset_ms := Some v\<rparr>"
      using assms by (auto simp: request_ok_def Let_def split: option.splits)
    show ?thesis using v s CmdSeekRelative to_string_int_wire [OF v(1,2)] parse_int32_to_string [OF v(1,2)]
      by (intro two [of "to_string_int v"])
         (simp_all add: parse_control_request_def encode_control_request_def request_for_def takes_argument_def Let_def)
  next
    case CmdRepeat
    then obtain m where m: "r = request_for CmdRepeat\<lparr>rq_repeat := Some m\<rparr>"
      using assms by (auto simp: request_ok_def Let_def split: option.splits)
    have w: "set (repeat_mode_name m) \<subseteq> set WIRE_CHARS" "length (repeat_mode_name m) \<le> 20"
        "repeat_mode_name m \<noteq> []" "parse_repeat_mode (repeat_mode_name m) = Some m"
      by (cases m; simp add: WIRE_CHARS_def parse_repeat_mode_def)+
    then show ?thesis using m s CmdRepeat
      by (intro two [of "repeat_mode_name m"])
         (simp_all add: parse_control_request_def encode_control_request_def request_for_def takes_argument_def Let_def)
  next
    case CmdMute
    then obtain b where b: "r = request_for CmdMute\<lparr>rq_flag := Some b\<rparr>"
      using assms by (auto simp: request_ok_def Let_def split: option.splits)
    have w: "set (if b then ''on'' else ''off'') \<subseteq> set WIRE_CHARS" by (simp add: WIRE_CHARS_def)
    show ?thesis using b s CmdMute w
      by (intro two [of "if b then ''on'' else ''off''"])
         (simp_all add: parse_control_request_def encode_control_request_def request_for_def takes_argument_def Let_def parse_on_off_def)
  next
    case CmdShuffle
    then obtain b where b: "r = request_for CmdShuffle\<lparr>rq_flag := Some b\<rparr>"
      using assms by (auto simp: request_ok_def Let_def split: option.splits)
    have w: "set (if b then ''on'' else ''off'') \<subseteq> set WIRE_CHARS" by (simp add: WIRE_CHARS_def)
    show ?thesis using b s CmdShuffle w
      by (intro two [of "if b then ''on'' else ''off''"])
         (simp_all add: parse_control_request_def encode_control_request_def request_for_def takes_argument_def Let_def parse_on_off_def)
  qed (use assms s one in \<open>auto simp: request_ok_def takes_argument_def Let_def\<close>)
qed

lemma parse_request_ok:
  assumes "parse_control_request name args = Inr r"
  shows "request_ok r \<and> command_name (rq_command r) = name"
proof -
  obtain s where s: "find_control_subcommand name = Some s" using assms
    by (auto simp: parse_control_request_def split: option.splits)
  note sd = find_control_subcommand_SomeD [OF s]
  note p = parse_control_request_def s Let_def sd(3) takes_argument_def
  note ok = request_ok_def request_for_def Let_def
  show ?thesis
  proof (cases "sub_command s")
    case CmdVolume
    then obtain v where "parse_unsigned (hd args) 100 = Some v" "r = request_for CmdVolume\<lparr>rq_volume := Some (of_nat v)\<rparr>"
      using assms by (auto simp: p split: if_splits option.splits)
    then show ?thesis using sd(2) CmdVolume parse_unsigned_SomeD [of "hd args" 100 v] by (simp add: ok)
  next
    case CmdDelay
    then obtain v where "parse_unsigned (hd args) MAX_STATIC_DELAY_MS = Some v"
        "r = request_for CmdDelay\<lparr>rq_delay_ms := Some (of_nat v)\<rparr>"
      using assms by (auto simp: p split: if_splits option.splits)
    then show ?thesis using sd(2) CmdDelay parse_unsigned_SomeD [of "hd args" MAX_STATIC_DELAY_MS v]
      by (simp add: ok MAX_STATIC_DELAY_MS_def)
  next
    case CmdSeek
    then obtain v where "r = request_for CmdSeek\<lparr>rq_position_ms := Some v\<rparr>"
      using assms by (auto simp: p split: if_splits option.splits)
    then show ?thesis using sd(2) CmdSeek by (simp add: ok)
  next
    case CmdSeekRelative
    then obtain v where "parse_int32 (hd args) = Some v" "r = request_for CmdSeekRelative\<lparr>rq_offset_ms := Some v\<rparr>"
      using assms by (auto simp: p split: if_splits option.splits)
    then show ?thesis using sd(2) CmdSeekRelative parse_int32_range [of "hd args" v] by (simp add: ok)
  next
    case CmdRepeat
    then obtain m where "r = request_for CmdRepeat\<lparr>rq_repeat := Some m\<rparr>"
      using assms by (auto simp: p split: if_splits option.splits)
    then show ?thesis using sd(2) CmdRepeat by (simp add: ok)
  next
    case CmdMute
    then obtain b where "r = request_for CmdMute\<lparr>rq_flag := Some b\<rparr>"
      using assms by (auto simp: p split: if_splits option.splits)
    then show ?thesis using sd(2) CmdMute by (simp add: ok)
  next
    case CmdShuffle
    then obtain b where "r = request_for CmdShuffle\<lparr>rq_flag := Some b\<rparr>"
      using assms by (auto simp: p split: if_splits option.splits)
    then show ?thesis using sd(2) CmdShuffle by (simp add: ok)
  qed (use assms sd(2) in \<open>auto simp: p ok split: if_splits\<close>)
qed

lemma parse_unsigned_iff:
  "m \<le> ULLONG_MAX \<Longrightarrow> parse_unsigned t m = Some v \<longleftrightarrow> all_digits t \<and> dec_val t = v \<and> v \<le> m"
  by (auto simp: parse_unsigned_def all_digits_def strtoull_def)

section \<open>Properties\<close>

text \<open>
  Whatever request the subcommand line parsed to, the line the client sends for it is read back
  by the daemon as the same request: it splits into the same command and one word per argument,
  fits the daemon's line bound and holds neither a terminator nor a NUL. Every request that parses
  carries exactly its command's field, within the field's bound.
\<close>

lemma control_request_roundtrip:
  assumes "parse_control_request name args = Inr r"
  shows "request_ok r \<and> command_name (rq_command r) = name
    \<and> (\<exists>name' args'.
         split_control_line (encode_control_request r) = (True, name', args')
         \<and> parse_control_request name' args' = Inr r)
    \<and> length (encode_control_request r) \<le> MAX_CONTROL_LINE_BYTES
    \<and> CHR 0x0A \<notin> set (encode_control_request r) \<and> CHR 0x00 \<notin> set (encode_control_request r)"
  using parse_request_ok [OF assms] request_sent [of r] by (auto simp: wire_line_def)

text \<open>
  A request line is read as its words, the maximal runs without spaces and tabs, in order: the
  position loop agrees with that reference on every line, and fails exactly when there is no word.
\<close>

theorem split_control_line_is_words:
  "split_control_line line =
     (case words_of line of [] \<Rightarrow> (False, [], []) | w # ws \<Rightarrow> (True, w, ws))"
proof -
  have "words_of s = w # ws \<Longrightarrow> w \<noteq> []" for s w ws
  proof -
    assume "words_of s = w # ws"
    then have t: "dropWhile is_blank s \<noteq> []" "w = takeWhile (\<lambda>c. \<not> is_blank c) (dropWhile is_blank s)"
      by (simp_all only: words_of.simps [of s] Let_def split: if_splits) auto
    then have "\<not> is_blank (hd (dropWhile is_blank s))" using hd_dropWhile by blast
    with t show "w \<noteq> []" by (cases "dropWhile is_blank s") auto
  qed
  then show ?thesis
    by (auto simp: split_control_line_def split_loop_words add_words_def split: list.split)
qed

text \<open>
  A request goes to the server exactly when it has a controller command, the connection is up,
  the server offered that very command (of the three a \<^verbatim>\<open>repeat\<close> and the two a \<^verbatim>\<open>shuffle\<close> can
  mean) and an absolute seek is inside the published bound; the first of these that fails, in that
  order, names the status. What is sent carries that command, and a mute only for \<^verbatim>\<open>mute\<close>.
\<close>

theorem control_refusal_order:
  "(control_refusal r snap = None \<longleftrightarrow>
      (case protocol_command r of
         None \<Rightarrow> True
       | Some c \<Rightarrow> snap_connected snap \<and> c \<in> set (supported_commands snap)
           \<and> (rq_command r = CmdSeek \<and> seek_max_ms snap \<noteq> None
                \<longrightarrow> position_or_0 r \<le> the (seek_max_ms snap))))
   \<and> (protocol_command r = None \<longleftrightarrow> rq_command r \<in> {CmdStatus, CmdDelay})
   \<and> (control_refusal r snap \<noteq> None \<longrightarrow>
        fst (the (control_refusal r snap)) =
          (if \<not> snap_connected snap then NotConnected
           else if the (protocol_command r) \<notin> set (supported_commands snap) then Unsupported
           else Usage))
   \<and> (protocol_command r \<noteq> None \<longrightarrow> protocol_command r = Some (cc_command (to_client_command r)))
   \<and> (cc_muted (to_client_command r) \<noteq> None \<longrightarrow> cc_command (to_client_command r) = MUTE)"
proof (intro conjI)
  show "protocol_command r = None \<longleftrightarrow> rq_command r \<in> {CmdStatus, CmdDelay}"
    by (cases "rq_command r") (auto simp: protocol_command_def split: option.splits repeat_mode.splits)
  show "protocol_command r \<noteq> None \<longrightarrow> protocol_command r = Some (cc_command (to_client_command r))"
    by (auto simp: to_client_command_def)
  show "cc_muted (to_client_command r) \<noteq> None \<longrightarrow> cc_command (to_client_command r) = MUTE"
    by (auto simp: to_client_command_def protocol_command_def)
qed (auto simp: control_refusal_def not_less split: option.splits)

theorem control_refusal_order_witness:
  "control_refusal (request_for CmdPlay)
     \<lparr>snap_connected = True, supported_commands = [PLAY], seek_max_ms = None\<rparr> = None"
  using control_refusal_order [of "request_for CmdPlay"
      "\<lparr>snap_connected = True, supported_commands = [PLAY], seek_max_ms = None\<rparr>"]
  by (simp add: protocol_command_def request_for_def)

end
