(* ===== verification/AudioTypes.thy ===== *)
theory AudioTypes
  imports Prelude
begin

text \<open>
  The plain data of \<^verbatim>\<open>src/src/audio_sink.h\<close> that several components share: a stream's format,
  where the sink's volume came from, and the formats a backend is probed for.
\<close>

record stream_format =
  sample_rate :: u32
  channel_count :: u8
  bit_depth :: u8

datatype volume_source = SinkDefault | Restored | FromServer

definition DEFAULT_SINK_VOLUME :: u8 where "DEFAULT_SINK_VOLUME = 100"

definition PROBE_RATES :: "u32 list" where
  "PROBE_RATES = [22050, 32000, 44100, 48000, 88200, 96000, 176400, 192000]"

definition PROBE_BIT_DEPTHS :: "u8 list" where "PROBE_BIT_DEPTHS = [8, 16, 24, 32]"

definition PROBE_CHANNELS :: "u8 list" where "PROBE_CHANNELS = [1, 2, 4, 6, 8]"

record sink_capabilities =
  cap_rates :: "u32 list"
  cap_bit_depths :: "u8 list"
  cap_channels :: "u8 list"

definition permissive :: sink_capabilities where
  "permissive = \<lparr>cap_rates = PROBE_RATES, cap_bit_depths = PROBE_BIT_DEPTHS, cap_channels = PROBE_CHANNELS\<rparr>"

end
