(* ===== verification/ControlWire.thy ===== *)
theory ControlWire
  imports ControlProtocol AudioTypes KeyValueFile ConfigFile
begin

unbundle bit_operations_syntax

text \<open>
  \<^verbatim>\<open>src/src/control_common.cpp\<close>, second part: what \<open>status\<close> prints, the reply and its first
  line, assembling one line out of the bytes of a connection, and where the socket goes. The size
  of \<^verbatim>\<open>sun_path\<close>, the platform and what \<^verbatim>\<open>stat\<close>/\<^verbatim>\<open>confstr\<close> answer are arguments.
\<close>

section \<open>Status\<close>

definition two_digits :: "nat \<Rightarrow> string" where
  "two_digits v = (if v < 10 then ''0'' else '''') @ to_string v"

definition format_clock :: "u32 \<Rightarrow> string" where
  "format_clock milliseconds =
     (let total_seconds = milliseconds div 1000;
          hours = total_seconds div 3600;
          minutes = (total_seconds mod 3600) div 60;
          seconds = total_seconds mod 60
      in if hours > 0
         then to_string (unat hours) @ '':'' @ two_digits (unat minutes) @ '':'' @ two_digits (unat seconds)
         else to_string (unat minutes) @ '':'' @ two_digits (unat seconds))"

definition append_line :: "string \<Rightarrow> string \<Rightarrow> string \<Rightarrow> string" where
  "append_line out k v = out @ k @ '': '' @ v @ [NL]"

definition format_volume :: "bool \<Rightarrow> u8 \<Rightarrow> bool \<Rightarrow> string" where
  "format_volume known volume muted =
     (if \<not> known then ''unknown''
      else to_string (unat volume) @ (if muted then '' (muted)'' else ''''))"

fun volume_source_note :: "volume_source \<Rightarrow> string" where
  "volume_source_note Restored = '' (remembered from an earlier run; no server has set it)''"
| "volume_source_note FromServer = ''''"
| "volume_source_note SinkDefault = '' (default; no server has set it)''"

record status_snapshot =
  st_name :: string
  st_connected :: bool
  st_server_name :: string
  st_server_id :: string
  st_playback_speed :: "u32 option"
  st_streaming :: bool
  st_format :: "stream_format option"
  st_artist :: string
  st_title :: string
  st_progress_ms :: "u32 option"
  st_duration_ms :: "u32 option"
  st_group_state_known :: bool
  st_group_volume :: u8
  st_group_muted :: bool
  st_group_repeat :: repeat_mode
  st_group_shuffle :: bool
  st_player_volume :: u8
  st_player_muted :: bool
  st_player_volume_source :: volume_source
  st_static_delay_ms :: u16
  st_output :: string

definition status_server :: "status_snapshot \<Rightarrow> string" where
  "status_server s =
     (if \<not> st_connected s then ''not connected''
      else if st_server_name s = []
      then ''connected ('' @ (if st_server_id s = [] then ''no identity yet'' else st_server_id s) @ '')''
      else st_server_name s @ '' (connected)'')"

definition status_state :: "status_snapshot \<Rightarrow> string" where
  "status_state s =
     (case st_playback_speed s of
        None \<Rightarrow> ''unknown''
      | Some v \<Rightarrow> if v = 0 then ''paused'' else if v = 1000 then ''playing''
                  else ''playing (speed '' @ to_string (unat v) @ ''/1000)'')"

definition status_track :: "status_snapshot \<Rightarrow> string" where
  "status_track s =
     (if st_title s = [] \<and> st_artist s = [] then ''unknown''
      else if st_artist s = [] then st_title s
      else if st_title s = [] then st_artist s
      else st_artist s @ '' - '' @ st_title s)"

definition status_position :: "status_snapshot \<Rightarrow> string" where
  "status_position s =
     (case st_progress_ms s of
        None \<Rightarrow> ''unknown''
      | Some p \<Rightarrow>
          (let position = format_clock p;
               duration = (case st_duration_ms s of None \<Rightarrow> 0 | Some d \<Rightarrow> d);
               reading = (if duration = 0 then position @ '' / unknown''
                          else position @ '' / '' @ format_clock duration)
           in if (case st_playback_speed s of None \<Rightarrow> 0 | Some v \<Rightarrow> v) \<noteq> 0
              then reading @ '' (estimated)'' else reading))"

definition status_output :: "status_snapshot \<Rightarrow> string" where
  "status_output s =
     (case st_format s of
        None \<Rightarrow> st_output s
      | Some f \<Rightarrow> st_output s @ '' ('' @ to_string (unat (sample_rate f)) @ '' Hz / '' @
                    to_string (unat (channel_count f)) @ '' ch / '' @
                    to_string (unat (bit_depth f)) @ ''-bit)'')"

definition status_fields :: "status_snapshot \<Rightarrow> (string \<times> string) list" where
  "status_fields s =
     [(''name'', st_name s), (''server'', status_server s), (''state'', status_state s),
      (''stream'', if st_streaming s then ''receiving'' else ''idle''),
      (''track'', status_track s), (''position'', status_position s),
      (''group volume'', format_volume (st_group_state_known s) (st_group_volume s) (st_group_muted s)),
      (''repeat'', if st_group_state_known s then repeat_mode_name (st_group_repeat s) else ''unknown''),
      (''shuffle'', if st_group_state_known s then (if st_group_shuffle s then ''on'' else ''off'')
                    else ''unknown''),
      (''player volume'', format_volume True (st_player_volume s) (st_player_muted s) @
                          volume_source_note (st_player_volume_source s)),
      (''static delay'', to_string (unat (st_static_delay_ms s)) @ '' ms'')]
     @ (if st_connected s
        then [(''note'', ''state, position, repeat and shuffle are the server'' @ [CHR 0x27] @
               ''s last report; a server '' @
               ''that does not resend them after a change will show stale values here'')]
        else [])
     @ [(''output'', status_output s)]"

definition format_status :: "status_snapshot \<Rightarrow> string" where
  "format_status s = foldl (\<lambda>out (k, v). append_line out k v) [] (status_fields s)"

section \<open>Replies\<close>

definition REPLY_KINDS :: "(control_status \<times> string) list" where
  "REPLY_KINDS = [(Usage, ''usage''), (NotConnected, ''not-connected''),
     (Unsupported, ''unsupported''), (Failed, ''failed'')]"

definition replace_char :: "char \<Rightarrow> char \<Rightarrow> string \<Rightarrow> string" where
  "replace_char a b s = map (\<lambda>c. if c = a then b else c) s"

definition one_line :: "string \<Rightarrow> string" where
  "one_line reason = replace_char CR CHR '' '' (replace_char NL CHR '' '' reason)"

definition encode_control_reply :: "control_status \<Rightarrow> string \<Rightarrow> string \<Rightarrow> string" where
  "encode_control_reply status reason payload =
     (if status = StatusOk then ''ok'' @ [NL] @ payload
      else case find (\<lambda>kind. fst kind = status) REPLY_KINDS of
             Some kind \<Rightarrow> ''error '' @ snd kind @ '': '' @ one_line reason @ [NL] @ payload
           | None \<Rightarrow> ''error failed: '' @ one_line reason @ [NL] @ payload)"

definition decode_control_reply :: "string \<Rightarrow> (control_status \<times> string) option" where
  "decode_control_reply line =
     (if line = ''ok'' then Some (StatusOk, [])
      else
        (let prefix_length = length ''error '' in
         if \<not> starts_with ''error '' line then None
         else case find_char CHR '':'' (drop prefix_length line) of
                None \<Rightarrow> None
              | Some n \<Rightarrow>
                  (let token = substr line prefix_length n;
                       reason = drop (prefix_length + n + 1) line;
                       reason' = (if reason \<noteq> [] \<and> hd reason = CHR '' '' then tl reason else reason)
                   in case find (\<lambda>kind. snd kind = token) REPLY_KINDS of
                        Some kind \<Rightarrow> Some (fst kind, reason')
                      | None \<Rightarrow> Some (Failed, reason'))))"

section \<open>One line out of a stream of bytes\<close>

datatype line_state = LineIncomplete | LineReady | LineTooLong | LineInvalid

record line_assembler =
  asm_buffer :: string
  asm_line :: string

definition new_assembler :: line_assembler where
  "new_assembler = \<lparr>asm_buffer = [], asm_line = []\<rparr>"

definition strip_cr :: "string \<Rightarrow> string" where
  "strip_cr l = (if l \<noteq> [] \<and> last l = CR then butlast l else l)"

fun assembler_feed :: "string \<Rightarrow> line_assembler \<Rightarrow> line_state \<times> line_assembler" where
  "assembler_feed [] a = (LineIncomplete, a)"
| "assembler_feed (byte # bytes) a =
     (if byte = CHR 0x00 then (LineInvalid, a)
      else if byte = NL
      then (LineReady, a\<lparr>asm_line := strip_cr (asm_buffer a), asm_buffer := []\<rparr>)
      else if length (asm_buffer a) \<ge> MAX_CONTROL_LINE_BYTES then (LineTooLong, a)
      else assembler_feed bytes (a\<lparr>asm_buffer := asm_buffer a @ [byte]\<rparr>))"

definition assembler_finish :: "line_assembler \<Rightarrow> line_state \<times> line_assembler" where
  "assembler_finish a =
     (if asm_buffer a = [] then (LineIncomplete, a)
      else (LineReady, a\<lparr>asm_line := strip_cr (asm_buffer a), asm_buffer := []\<rparr>))"

fun line_state_reason :: "line_state \<Rightarrow> string" where
  "line_state_reason LineTooLong = ''the request line is too long''"
| "line_state_reason LineInvalid = ''the request contains a NUL byte, and this is a text protocol''"
| "line_state_reason LineIncomplete = ''the connection closed before a whole request arrived''"
| "line_state_reason LineReady = ''''"

section \<open>Where the socket goes\<close>

record stat_info =
  stat_is_dir :: bool
  stat_uid :: nat
  stat_mode :: u32

definition S_IWGRP :: u32 where "S_IWGRP = 16"
definition S_IWOTH :: u32 where "S_IWOTH = 2"

text \<open>\<^verbatim>\<open>stat()\<close>: the text of \<^verbatim>\<open>strerror(errno)\<close>, or what it found. \<open>None\<close>: private; \<open>Some\<close>: why not.\<close>

definition is_private_runtime_dir ::
  "(string \<Rightarrow> string + stat_info) \<Rightarrow> nat \<Rightarrow> string \<Rightarrow> string option" where
  "is_private_runtime_dir stat euid path =
     (case stat path of
        Inl why \<Rightarrow> Some (''cannot stat '' @ path @ '': '' @ why)
      | Inr info \<Rightarrow>
          if \<not> stat_is_dir info then Some (path @ '' is not a directory'')
          else if stat_uid info \<noteq> euid
          then Some (path @ '' is owned by uid '' @ to_string (stat_uid info) @ '', not by this user'')
          else if stat_mode info AND (S_IWGRP OR S_IWOTH) \<noteq> 0
          then Some (path @ '' is writable by its group or by everyone'')
          else None)"

function strip_slashes :: "string \<Rightarrow> string" where
  "strip_slashes path =
     (if length path > 1 \<and> last path = CHR ''/'' then strip_slashes (butlast path) else path)"
  by pat_completeness auto
termination by (relation "measure length") auto

declare strip_slashes.simps [simp del]

record runtime_host =
  rt_apple :: bool
  rt_confstr :: "string option"
  rt_stat :: "string \<Rightarrow> string + stat_info"
  rt_euid :: nat
  rt_sun_path :: nat

text \<open>The path (empty when there is none) and the rejection, as the reference parameter holds it.\<close>

definition control_platform_runtime_dir :: "runtime_host \<Rightarrow> string \<Rightarrow> string \<times> string" where
  "control_platform_runtime_dir host rejection =
     (if rt_apple host then
        (case rt_confstr host of
           None \<Rightarrow> ([], rejection)
         | Some buffer \<Rightarrow>
             (let path = strip_slashes buffer in
              if path = [] then ([], rejection)
              else case is_private_runtime_dir (rt_stat host) (rt_euid host) path of
                     Some why \<Rightarrow> ([], why)
                   | None \<Rightarrow> (path, rejection)))
      else ([], rejection))"

record control_runtime_dir =
  rd_path :: string
  rd_warning :: string
  rd_rejection :: string

definition control_runtime_dir_of :: "environment \<Rightarrow> runtime_host \<Rightarrow> control_runtime_dir" where
  "control_runtime_dir_of env host =
     (let value = env_or_empty env ''XDG_RUNTIME_DIR'' in
      if value \<noteq> [] then
        \<lparr>rd_path = value,
         rd_warning =
           (case is_private_runtime_dir (rt_stat host) (rt_euid host) value of
              None \<Rightarrow> []
            | Some why \<Rightarrow>
                ''the control socket'' @ [CHR 0x27] @ ''s directory is not private to this user ('' @ why @
                ''). The socket itself is 0600, but on macOS and the BSDs socket permissions are '' @
                ''not enforced on connect(), so the directory is what keeps other local accounts '' @
                ''out. Point --control-socket somewhere private, or fix the directory'' @ [CHR 0x27] @
                ''s mode''),
         rd_rejection = []\<rparr>
      else
        (let (path, rejection) = control_platform_runtime_dir host []
         in \<lparr>rd_path = path, rd_warning = [], rd_rejection = rejection\<rparr>))"

definition CONTROL_SOCKET_PREFIX :: string where "CONTROL_SOCKET_PREFIX = ''sendspin-cli-''"
definition CONTROL_SOCKET_SUFFIX :: string where "CONTROL_SOCKET_SUFFIX = ''.sock''"

definition control_socket_path :: "string \<Rightarrow> u16 \<Rightarrow> string" where
  "control_socket_path runtime_dir port =
     (if runtime_dir = [] then []
      else runtime_dir @ ''/'' @ CONTROL_SOCKET_PREFIX @ to_string (unat port) @ CONTROL_SOCKET_SUFFIX)"

definition control_socket_path_fits :: "nat \<Rightarrow> string \<Rightarrow> bool" where
  "control_socket_path_fits limit path \<longleftrightarrow> path \<noteq> [] \<and> length path < limit"

definition control_socket_absent_reason :: "runtime_host \<Rightarrow> control_runtime_dir \<Rightarrow> string \<Rightarrow> string" where
  "control_socket_absent_reason host runtime path =
     (if rd_path runtime = [] then
        (if rd_rejection runtime \<noteq> []
         then ''this host'' @ [CHR 0x27] @ ''s own per-user directory cannot hold a control socket: '' @
              rd_rejection runtime @
              ''. Give --control-socket <path> to choose one, or --no-control to stop asking''
         else if rt_apple host
         then ''$XDG_RUNTIME_DIR is not set and this host'' @ [CHR 0x27] @
              ''s own per-user temporary directory '' @
              ''could not be used, so there is nowhere user-private to put a control socket. '' @
              ''Give --control-socket <path> to choose one, or --no-control to stop asking''
         else ''$XDG_RUNTIME_DIR is not set, so there is no user-private directory to put a '' @
              ''control socket in. Give --control-socket <path> to choose one, or '' @
              ''--no-control to stop asking'')
      else if \<not> control_socket_path_fits (rt_sun_path host) path
      then ''the default control socket path '' @ quoted path @ '' is longer than the '' @
           to_string (rt_sun_path host) @
           '' bytes a Unix socket address holds, because the directory it goes in is that '' @
           ''deep. Give --control-socket <a shorter path>, or --no-control''
      else [])"

section \<open>Replies\<close>

lemma one_line_clean: "NL \<notin> set (one_line r)" "CR \<notin> set (one_line r)"
  by (auto simp: one_line_def replace_char_def)

lemma first_line:
  "NL \<notin> set l \<Longrightarrow> find_char NL (l @ NL # s) = Some (length l)
     \<and> take (length l) (l @ NL # s) = l \<and> drop (Suc (length l)) (l @ NL # s) = s"
  by simp

lemma decode_error_line:
  assumes "find (\<lambda>kind. snd kind = token) REPLY_KINDS = Some (status, token)" "CHR '':'' \<notin> set token"
  shows "decode_control_reply (''error '' @ token @ '': '' @ reason) = Some (status, reason)"
  using assms by (simp add: decode_control_reply_def substr_def Let_def)

text \<open>
  The client reads every reply as the daemon meant it, whatever is in the reason and the
  payload: the first line decodes to the status (a \<open>NoDaemon\<close>, which has no token, to a plain
  failure) and the reason on one line, and the rest is the payload, byte for byte.
\<close>

lemma control_reply_roundtrip:
  "\<exists>line. encode_control_reply status reason payload = line @ NL # payload
     \<and> NL \<notin> set line
     \<and> decode_control_reply line =
         Some (if status = StatusOk then (StatusOk, [])
               else (if status = NoDaemon then Failed else status, one_line reason))"
proof -
  have kinds: "NL \<notin> set (''error '' @ token @ '': '' @ one_line reason)" if "NL \<notin> set token" for token
    using that one_line_clean by simp
  have dec: "decode_control_reply (''error usage: '' @ one_line reason) = Some (Usage, one_line reason)"
    "decode_control_reply (''error not-connected: '' @ one_line reason) = Some (NotConnected, one_line reason)"
    "decode_control_reply (''error unsupported: '' @ one_line reason) = Some (Unsupported, one_line reason)"
    "decode_control_reply (''error failed: '' @ one_line reason) = Some (Failed, one_line reason)"
    using decode_error_line [of "''usage''" Usage] decode_error_line [of "''not-connected''" NotConnected]
      decode_error_line [of "''unsupported''" Unsupported] decode_error_line [of "''failed''" Failed]
    by (simp_all add: REPLY_KINDS_def)
  show ?thesis
  proof (cases status)
    case StatusOk
    then show ?thesis
      by (intro exI [of _ "''ok''"]) (simp add: encode_control_reply_def decode_control_reply_def)
  next
    case Usage
    then show ?thesis using dec kinds [of "''usage''"]
      by (intro exI [of _ "''error usage: '' @ one_line reason"])
         (simp add: encode_control_reply_def REPLY_KINDS_def)
  next
    case NotConnected
    then show ?thesis using dec kinds [of "''not-connected''"]
      by (intro exI [of _ "''error not-connected: '' @ one_line reason"])
         (simp add: encode_control_reply_def REPLY_KINDS_def)
  next
    case Unsupported
    then show ?thesis using dec kinds [of "''unsupported''"]
      by (intro exI [of _ "''error unsupported: '' @ one_line reason"])
         (simp add: encode_control_reply_def REPLY_KINDS_def)
  next
    case Failed
    then show ?thesis using dec kinds [of "''failed''"]
      by (intro exI [of _ "''error failed: '' @ one_line reason"])
         (simp add: encode_control_reply_def REPLY_KINDS_def)
  next
    case NoDaemon
    then show ?thesis using dec kinds [of "''failed''"]
      by (intro exI [of _ "''error failed: '' @ one_line reason"])
         (simp add: encode_control_reply_def REPLY_KINDS_def)
  qed
qed

section \<open>The assembler\<close>

text \<open>The reads of one connection, fed as they come.\<close>

fun feed_chunks :: "string list \<Rightarrow> line_assembler \<Rightarrow> line_state \<times> line_assembler" where
  "feed_chunks [] a = (LineIncomplete, a)"
| "feed_chunks (c # cs) a =
     (case assembler_feed c a of
        (LineIncomplete, a') \<Rightarrow> feed_chunks cs a'
      | r \<Rightarrow> r)"

lemma feed_append:
  "assembler_feed (x @ y) a =
     (case assembler_feed x a of (LineIncomplete, a') \<Rightarrow> assembler_feed y a' | r \<Rightarrow> r)"
  by (induction x a rule: assembler_feed.induct) auto

lemma feed_chunks_concat: "feed_chunks cs a = assembler_feed (concat cs) a"
proof (induction cs arbitrary: a)
  case (Cons c cs)
  then show ?case by (auto simp: feed_append split: prod.split line_state.split)
qed simp

definition terminator :: "char \<Rightarrow> bool" where
  "terminator c \<longleftrightarrow> c = NL \<or> c = CHR 0x00"

text \<open>The reference: what comes before the first newline or NUL decides.\<close>

definition assembled :: "string \<Rightarrow> line_state \<times> string" where
  "assembled s =
     (let p = takeWhile (\<lambda>c. \<not> terminator c) s; r = dropWhile (\<lambda>c. \<not> terminator c) s
      in if length p > MAX_CONTROL_LINE_BYTES then (LineTooLong, [])
         else if r = [] then (LineIncomplete, [])
         else if hd r = NL then (LineReady, strip_cr p)
         else (LineInvalid, []))"

lemma feed_spec:
  assumes "length (asm_buffer a) \<le> MAX_CONTROL_LINE_BYTES"
  shows "(let p = takeWhile (\<lambda>c. \<not> terminator c) s; r = dropWhile (\<lambda>c. \<not> terminator c) s; b = asm_buffer a @ p
          in assembler_feed s a =
             (if length b > MAX_CONTROL_LINE_BYTES
              then (LineTooLong, a\<lparr>asm_buffer := take MAX_CONTROL_LINE_BYTES b\<rparr>)
              else if r = [] then (LineIncomplete, a\<lparr>asm_buffer := b\<rparr>)
              else if hd r = NL then (LineReady, a\<lparr>asm_line := strip_cr b, asm_buffer := []\<rparr>)
              else (LineInvalid, a\<lparr>asm_buffer := b\<rparr>)))"
  using assms
proof (induction s a rule: assembler_feed.induct)
  case (1 a)
  then show ?case by simp
next
  case (2 byte bytes a)
  show ?case
  proof (cases "terminator byte \<or> length (asm_buffer a) \<ge> MAX_CONTROL_LINE_BYTES")
    case True
    then show ?thesis using 2(2) by (auto simp: terminator_def)
  next
    case False
    then have "byte \<noteq> CHR 0x00" "byte \<noteq> NL" "\<not> length (asm_buffer a) \<ge> MAX_CONTROL_LINE_BYTES"
      by (auto simp: terminator_def)
    from 2(1) [OF this] False show ?thesis by (simp add: Let_def terminator_def)
  qed
qed

text \<open>
  How the bytes of a connection are split over reads makes no difference: the assembler ends as
  the whole stream does. It is ready with what precedes the first newline (less one carriage
  return) exactly when that is within the bound and free of NUL, and otherwise reports which rule
  was broken; a ready line never exceeds the bound.
\<close>

lemma assembler_reads_first_line:
  "fst (feed_chunks chunks new_assembler) = fst (assembled (concat chunks))
   \<and> (fst (feed_chunks chunks new_assembler) = LineReady \<longrightarrow>
        asm_line (snd (feed_chunks chunks new_assembler)) = snd (assembled (concat chunks))
        \<and> length (asm_line (snd (feed_chunks chunks new_assembler))) \<le> MAX_CONTROL_LINE_BYTES)
   \<and> length (asm_buffer (snd (feed_chunks chunks new_assembler))) \<le> MAX_CONTROL_LINE_BYTES"
  using feed_spec [of new_assembler "concat chunks"]
  by (auto simp: feed_chunks_concat assembled_def Let_def new_assembler_def strip_cr_def)

text \<open>
  Client and daemon agree on a request across the socket: whatever request the command line
  parsed to, in whatever pieces its line arrives, and whether the newline or only the end of input
  closes it, the daemon assembles that line and parses the same request from it.
\<close>

lemma request_crosses_the_socket:
  assumes "parse_control_request name args = Inr r"
  shows "(concat chunks = encode_control_request r @ [NL] \<longrightarrow>
       (\<exists>a name' args'. feed_chunks chunks new_assembler = (LineReady, a)
          \<and> split_control_line (asm_line a) = (True, name', args')
          \<and> parse_control_request name' args' = Inr r))
    \<and> (concat chunks = encode_control_request r \<longrightarrow>
       (\<exists>a a' name' args'. feed_chunks chunks new_assembler = (LineIncomplete, a)
          \<and> assembler_finish a = (LineReady, a')
          \<and> split_control_line (asm_line a') = (True, name', args')
          \<and> parse_control_request name' args' = Inr r))"
proof -
  let ?l = "encode_control_request r"
  have ok: "request_ok r" using parse_request_ok [OF assms] by simp
  from request_sent [OF this] obtain name' args' where w: "wire_line ?l name' args'"
    and p: "parse_control_request name' args' = Inr r" by blast
  have nt: "\<forall>c \<in> set ?l. \<not> terminator c" and len: "length ?l \<le> MAX_CONTROL_LINE_BYTES"
    and sp: "split_control_line ?l = (True, name', args')"
    using w by (auto simp: wire_line_def terminator_def)
  have ne: "?l \<noteq> []" using sp by (auto simp: split_control_line_def split_loop.simps)
  have "CR \<notin> set ?l" using w by (simp add: wire_line_def)
  then have cr: "strip_cr ?l = ?l" using last_in_set [OF ne] by (auto simp: strip_cr_def)
  have tw: "takeWhile (\<lambda>c. \<not> terminator c) (?l @ [NL]) = ?l"
      "dropWhile (\<lambda>c. \<not> terminator c) (?l @ [NL]) = [NL]"
      "takeWhile (\<lambda>c. \<not> terminator c) ?l = ?l" "dropWhile (\<lambda>c. \<not> terminator c) ?l = []"
    using nt by (auto simp: takeWhile_append2 dropWhile_append2 terminator_def)
  show ?thesis
    using feed_spec [of new_assembler "?l @ [NL]"] feed_spec [of new_assembler ?l] tw len cr sp p ne
    by (auto simp: feed_chunks_concat Let_def new_assembler_def assembler_finish_def)
qed

section \<open>What status prints\<close>

text \<open>Reading a clock back: each colon multiplies what came before by sixty.\<close>

fun clock_value :: "nat \<Rightarrow> nat \<Rightarrow> string \<Rightarrow> nat" where
  "clock_value acc cur [] = acc * 60 + cur"
| "clock_value acc cur (c # cs) =
     (if c = CHR '':'' then clock_value (acc * 60 + cur) 0 cs
      else clock_value acc (cur * 10 + digit_val c) cs)"

lemma clock_value_digits:
  "set ds \<subseteq> set DIGITS \<Longrightarrow> clock_value acc 0 (ds @ s) = clock_value acc (dec_val ds) s"
proof (induction ds arbitrary: s rule: rev_induct)
  case (snoc d ds)
  have "CHR '':'' \<notin> set DIGITS" by code_simp
  then have "d \<noteq> CHR '':''" using snoc.prems by auto
  then show ?case using snoc by simp
qed simp

lemma dec_val_0: "dec_val (CHR ''0'' # ds) = dec_val ds"
  by (simp add: dec_val_def digit_val_def DIGITS_def)

lemma two_digits_dec: "set (two_digits v) \<subseteq> set DIGITS" "dec_val (two_digits v) = v"
  using set_to_string [of v] by (auto simp: two_digits_def dec_val_0 DIGITS_def)

lemma clock_value_number: "clock_value acc 0 (to_string v @ CHR '':'' # s) = clock_value (acc * 60 + v) 0 s"
  by (simp add: clock_value_digits [OF set_to_string])

lemma clock_value_two: "clock_value acc 0 (two_digits v @ CHR '':'' # s) = clock_value (acc * 60 + v) 0 s"
  "clock_value acc 0 (two_digits v) = acc * 60 + v"
  using clock_value_digits [OF two_digits_dec(1), of acc v "[]"]
  by (simp_all add: clock_value_digits [OF two_digits_dec(1)] two_digits_dec(2))

lemma format_clock_reads_back: "clock_value 0 0 (format_clock ms) = unat ms div 1000"
proof -
  define t where "t = unat ms div 1000"
  have w: "unat (ms div 1000) = t" by (simp add: t_def unat_div)
  have h: "unat (ms div 1000 div 3600) = t div 3600" "unat (ms div 1000 mod 3600 div 60) = t mod 3600 div 60"
      "unat (ms div 1000 mod 60) = t mod 60"
    using w by (simp_all add: unat_div unat_mod)
  have e: "(t div 3600) * 60 * 60 + (t mod 3600 div 60) * 60 + t mod 60 = t"
  proof -
    have "t mod 3600 = (t mod 3600 div 60) * 60 + t mod 3600 mod 60" by simp
    moreover have "t mod 3600 mod 60 = t mod 60" by (simp add: mod_mod_cancel)
    moreover have "t = t div 3600 * 3600 + t mod 3600" by simp
    ultimately show ?thesis by linarith
  qed
  have pos: "ms div 1000 div 3600 > 0 \<longleftrightarrow> t div 3600 > 0"
    using h(1) by (metis unat_gt_0 neq0_conv word_neq_0_conv)
  show ?thesis
  proof (cases "ms div 1000 div 3600 > 0")
    case True
    then show ?thesis using h e t_def
      by (simp add: format_clock_def Let_def clock_value_number clock_value_two algebra_simps)
  next
    case False
    then have "t div 3600 = 0" using pos by simp
    then show ?thesis using False h e t_def
      by (simp add: format_clock_def Let_def clock_value_number clock_value_two)
  qed
qed

lemma foldl_append_line:
  "foldl (\<lambda>out (k, v). append_line out k v) out kvs
     = out @ concat (map (\<lambda>(k, v). k @ '': '' @ v @ [NL]) kvs)"
  by (induction kvs arbitrary: out) (auto simp: append_line_def)

lemma text_lines_fields:
  "\<forall>(k, v) \<in> set kvs. NL \<notin> set k \<and> NL \<notin> set v \<Longrightarrow>
     text_lines (concat (map (\<lambda>(k, v). k @ '': '' @ v @ [NL]) kvs)) = map (\<lambda>(k, v). k @ '': '' @ v) kvs"
proof (induction kvs)
  case (Cons kv kvs)
  obtain k v where kv: "kv = (k, v)" by fastforce
  then have "NL \<notin> set (k @ '': '' @ v)" using Cons.prems by simp
  from text_lines_append [OF this] Cons kv show ?case by simp
qed (simp add: text_lines.simps)

lemma digits_no_nl: "NL \<notin> set (to_string n)"
proof -
  have "NL \<notin> set DIGITS" by code_simp
  then show ?thesis using set_to_string by blast
qed

lemma format_clock_no_nl: "NL \<notin> set (format_clock ms)"
  using digits_no_nl by (auto simp: format_clock_def two_digits_def Let_def)

lemma status_fields_no_nl:
  assumes "\<forall>t \<in> {st_name s, st_server_name s, st_server_id s, st_artist s, st_title s, st_output s}. NL \<notin> set t"
  shows "\<forall>(k, v) \<in> set (status_fields s). NL \<notin> set k \<and> NL \<notin> set v"
proof -
  have "NL \<notin> set (status_server s)" "NL \<notin> set (status_track s)" "NL \<notin> set (status_output s)"
      "NL \<notin> set (status_state s)" "NL \<notin> set (status_position s)"
    using assms digits_no_nl format_clock_no_nl
    by (auto simp: status_server_def status_track_def status_output_def status_state_def
        status_position_def Let_def split: option.split)
  moreover have "NL \<notin> set (repeat_mode_name m)" for m by (cases m) simp_all
  moreover have "NL \<notin> set (format_volume b v mu)" for b v mu using digits_no_nl by (simp add: format_volume_def)
  moreover have "NL \<notin> set (volume_source_note src)" for src by (cases src) simp_all
  ultimately show ?thesis using assms digits_no_nl by (auto simp: status_fields_def)
qed

text \<open>
  \<open>status\<close> prints each of its fields on exactly one line, in a fixed order, provided the names
  and metadata the server supplied hold no newline; and the clocks in it read back as the second
  they stand for, hours included, for every 32-bit millisecond count.
\<close>

lemma status_is_line_per_field:
  assumes "\<forall>t \<in> {st_name s, st_server_name s, st_server_id s, st_artist s, st_title s, st_output s}. NL \<notin> set t"
  shows "text_lines (format_status s) = map (\<lambda>(k, v). k @ '': '' @ v) (status_fields s)
    \<and> map fst (status_fields s) =
        [''name'', ''server'', ''state'', ''stream'', ''track'', ''position'', ''group volume'', ''repeat'',
         ''shuffle'', ''player volume'', ''static delay'']
        @ (if st_connected s then [''note''] else []) @ [''output'']
    \<and> clock_value 0 0 (format_clock ms) = unat ms div 1000"
  using text_lines_fields [OF status_fields_no_nl [OF assms]] format_clock_reads_back [of ms]
  by (auto simp: format_status_def foldl_append_line status_fields_def)

end
