(* ===== verification/SupportedFormats.thy ===== *)
theory SupportedFormats
  imports AudioTypes "HOL-Library.Multiset"
begin

text \<open>
  \<^verbatim>\<open>src/src/supported_formats.{h,cpp}\<close>: the formats advertised for a sink's capabilities, in the
  order of preference, and the \<open>--audio-format\<close> value that moves one of them to the front.
  \<^verbatim>\<open>std::stable_sort\<close> by rank is the stable \<open>sort_key\<close>; the codec enumerators are those of the
  Sendspin library this code names.
\<close>

section \<open>Definitions\<close>

datatype codec = FLAC | OPUS | PCM | UNSUPPORTED

record supported_format =
  fmt_codec :: codec
  fmt_channels :: u8
  fmt_rate :: u32
  fmt_depth :: u8

definition OPUS_RATE :: u32 where "OPUS_RATE = 48000"
definition OPUS_BIT_DEPTH :: u8 where "OPUS_BIT_DEPTH = 16"
definition OPUS_MAX_CHANNELS :: u8 where "OPUS_MAX_CHANNELS = 2"

definition CODEC_PREFERENCE :: "codec list" where "CODEC_PREFERENCE = [FLAC, OPUS, PCM]"
definition RATE_PREFERENCE :: "u32 list" where
  "RATE_PREFERENCE = [48000, 44100, 96000, 88200, 192000, 176400, 32000, 22050]"
definition DEPTH_PREFERENCE :: "u8 list" where "DEPTH_PREFERENCE = [16, 24, 32, 8]"

definition advertised_channels :: "u8 list \<Rightarrow> u8" where
  "advertised_channels channels =
     (if channels = [] then 0 else if 2 \<in> set channels then 2 else hd channels)"

fun preference_rank :: "'a list \<Rightarrow> 'a \<Rightarrow> nat" where
  "preference_rank [] v = 0"
| "preference_rank (x # xs) v = (if x = v then 0 else Suc (preference_rank xs v))"

definition in_preference_order :: "'a list \<Rightarrow> 'a list \<Rightarrow> 'a list" where
  "in_preference_order values ladder = sort_key (preference_rank ladder) values"

definition codec_formats :: "u8 \<Rightarrow> u32 list \<Rightarrow> u8 list \<Rightarrow> bool \<Rightarrow> codec \<Rightarrow> supported_format list" where
  "codec_formats channels rates depths opus_reachable c =
     (if c = OPUS then
        (if opus_reachable
         then [\<lparr>fmt_codec = c, fmt_channels = channels, fmt_rate = OPUS_RATE, fmt_depth = OPUS_BIT_DEPTH\<rparr>]
         else [])
      else concat (map (\<lambda>rate. map (\<lambda>depth.
             \<lparr>fmt_codec = c, fmt_channels = channels, fmt_rate = rate, fmt_depth = depth\<rparr>) depths) rates))"

definition supported_formats :: "sink_capabilities \<Rightarrow> supported_format list" where
  "supported_formats caps =
     (let channels = advertised_channels (cap_channels caps) in
      if channels = 0 then []
      else
        (let rates = in_preference_order (cap_rates caps) RATE_PREFERENCE;
             depths = in_preference_order (cap_bit_depths caps) DEPTH_PREFERENCE;
             opus_reachable = (channels \<le> OPUS_MAX_CHANNELS \<and> OPUS_RATE \<in> set (cap_rates caps)
                               \<and> OPUS_BIT_DEPTH \<in> set (cap_bit_depths caps))
         in concat (map (codec_formats channels rates depths opus_reachable) CODEC_PREFERENCE)))"

definition add_distinct :: "'a list \<Rightarrow> 'a \<Rightarrow> 'a list" where
  "add_distinct values v = (if v \<in> set values then values else values @ [v])"

fun join_slashed :: "string \<Rightarrow> nat list \<Rightarrow> string" where
  "join_slashed text [] = text"
| "join_slashed text (v # vs) =
     join_slashed ((if text \<noteq> [] then text @ ''/'' else text) @ to_string v) vs"

fun codec_name :: "codec \<Rightarrow> string" where
  "codec_name FLAC = ''FLAC''"
| "codec_name OPUS = ''OPUS''"
| "codec_name PCM = ''PCM''"
| "codec_name UNSUPPORTED = ''unsupported''"

record format_digest =
  dg_codec :: codec
  dg_channels :: "u8 list"
  dg_depths :: "u8 list"
  dg_rates :: "u32 list"

definition digest_add :: "supported_format \<Rightarrow> format_digest \<Rightarrow> format_digest" where
  "digest_add f d = d\<lparr>dg_channels := add_distinct (dg_channels d) (fmt_channels f),
     dg_depths := add_distinct (dg_depths d) (fmt_depth f),
     dg_rates := add_distinct (dg_rates d) (fmt_rate f)\<rparr>"

fun digest_insert :: "supported_format \<Rightarrow> format_digest list \<Rightarrow> format_digest list" where
  "digest_insert f [] =
     [digest_add f \<lparr>dg_codec = fmt_codec f, dg_channels = [], dg_depths = [], dg_rates = []\<rparr>]"
| "digest_insert f (d # ds) =
     (if dg_codec d = fmt_codec f then digest_add f d # ds else d # digest_insert f ds)"

definition digest_text :: "format_digest \<Rightarrow> string" where
  "digest_text d =
     codec_name (dg_codec d) @ '' '' @ join_slashed [] (map unat (dg_channels d)) @ ''ch '' @
     join_slashed [] (map unat (dg_depths d)) @ ''-bit @ '' @
     join_slashed [] (map unat (dg_rates d)) @ '' Hz''"

definition describe_formats :: "supported_format list \<Rightarrow> string" where
  "describe_formats formats =
     (if formats = [] then ''(nothing)''
      else foldl (\<lambda>text d. (if text \<noteq> [] then text @ ''; '' else text) @ digest_text d) []
             (fold digest_insert formats []))"

definition parse_format_field :: "string \<Rightarrow> nat \<Rightarrow> nat option" where
  "parse_format_field text limit =
     (if text = [] \<or> find_first_not_of DIGITS text \<noteq> None then None
      else let v = strtoull text in if v > 0 \<and> v \<le> limit then Some v else None)"

function split_colons :: "string \<Rightarrow> string list" where
  "split_colons spec =
     (case find_char CHR '':'' spec of
        None \<Rightarrow> [spec]
      | Some colon \<Rightarrow> substr spec 0 colon # split_colons (drop (colon + 1) spec))"
  by pat_completeness auto
termination
  by (relation "measure length") (auto dest: find_char_SomeD)

declare split_colons.simps [simp del]

definition parse_codec :: "string \<Rightarrow> codec option" where
  "parse_codec s =
     (if s = ''flac'' then Some FLAC else if s = ''opus'' then Some OPUS
      else if s = ''pcm'' then Some PCM else None)"

definition parse_format_spec :: "string \<Rightarrow> string + supported_format" where
  "parse_format_spec spec =
     (let parts = split_colons spec in
      if length parts \<noteq> 4 then Inl ''expected codec:rate:depth:channels, e.g. flac:48000:24:2''
      else case parse_codec (parts ! 0) of
        None \<Rightarrow> Inl (''unknown codec '' @ quoted (parts ! 0) @ '' -- this player plays flac, opus and pcm'')
      | Some c \<Rightarrow>
     (case parse_format_field (parts ! 1) 999999 of
        None \<Rightarrow> Inl (quoted (parts ! 1) @ '' is not a sample rate in Hz'')
      | Some rate \<Rightarrow>
     (case parse_format_field (parts ! 2) 32 of
        None \<Rightarrow> Inl (quoted (parts ! 2) @ '' is not a bit depth this player can emit (8, 16, 24 or 32)'')
      | Some depth \<Rightarrow>
      if depth \<noteq> 8 \<and> depth \<noteq> 16 \<and> depth \<noteq> 24 \<and> depth \<noteq> 32
      then Inl (quoted (parts ! 2) @ '' is not a bit depth this player can emit (8, 16, 24 or 32)'')
      else
     (case parse_format_field (parts ! 3) 255 of
        None \<Rightarrow> Inl (quoted (parts ! 3) @ '' is not a channel count'')
      | Some channels \<Rightarrow>
      if c = OPUS \<and> (rate \<noteq> unat OPUS_RATE \<or> depth \<noteq> unat OPUS_BIT_DEPTH \<or> channels > unat OPUS_MAX_CHANNELS)
      then Inl (''opus is decoded at '' @ to_string (unat OPUS_RATE) @ '' Hz, '' @
                to_string (unat OPUS_BIT_DEPTH) @ ''-bit, at most '' @ to_string (unat OPUS_MAX_CHANNELS) @
                '' channels -- it is advertised in no other shape'')
      else Inr \<lparr>fmt_codec = c, fmt_channels = of_nat channels, fmt_rate = of_nat rate,
                fmt_depth = of_nat depth\<rparr>))))"

text \<open>
  \<^verbatim>\<open>std::rotate(begin, begin + index, begin + index + 1)\<close> at the first entry that is the same.
\<close>

fun pin_loop :: "supported_format list \<Rightarrow> supported_format list \<Rightarrow> supported_format \<Rightarrow> bool \<times> supported_format list"
where
  "pin_loop before [] p = (False, before)"
| "pin_loop before (f # fs) p =
     (if f = p then (True, f # before @ fs) else pin_loop (before @ [f]) fs p)"

definition pin_preferred_format ::
  "supported_format list \<Rightarrow> supported_format \<Rightarrow> bool \<times> supported_format list" where
  "pin_preferred_format formats preferred = pin_loop [] formats preferred"

section \<open>The advertisement\<close>

lemma set_preference [simp]: "set (in_preference_order vs ladder) = set vs"
  by (simp add: in_preference_order_def)

lemma preference_sorted:
  "sorted (map (preference_rank ladder) (in_preference_order vs ladder))"
  by (simp add: in_preference_order_def)

definition format_ranks :: "supported_format \<Rightarrow> nat \<times> nat \<times> nat" where
  "format_ranks f = (preference_rank CODEC_PREFERENCE (fmt_codec f),
     preference_rank RATE_PREFERENCE (fmt_rate f), preference_rank DEPTH_PREFERENCE (fmt_depth f))"

text \<open>\<open>f\<close> may stand before \<open>g\<close>: codec first, then rate, then depth.\<close>

definition ranked_before :: "supported_format \<Rightarrow> supported_format \<Rightarrow> bool" where
  "ranked_before f g \<longleftrightarrow>
     (case format_ranks f of (c, r, d) \<Rightarrow> case format_ranks g of (c', r', d') \<Rightarrow>
        c < c' \<or> c = c' \<and> (r < r' \<or> r = r' \<and> d \<le> d'))"

lemma sorted_wrt_concat_map:
  assumes "\<And>x. x \<in> set xs \<Longrightarrow> sorted_wrt P (f x)"
    "sorted_wrt Q xs" "\<And>x y a b. x \<in> set xs \<Longrightarrow> y \<in> set xs \<Longrightarrow> Q x y \<Longrightarrow> a \<in> set (f x) \<Longrightarrow> b \<in> set (f y) \<Longrightarrow> P a b"
  shows "sorted_wrt P (concat (map f xs))"
  using assms
proof (induction xs)
  case (Cons x xs)
  have "sorted_wrt P (concat (map f xs))"
  proof (rule Cons.IH)
    show "P a b" if "y \<in> set xs" "z \<in> set xs" "Q y z" "a \<in> set (f y)" "b \<in> set (f z)" for y z a b
      using Cons.prems(3) [of y z a b] that by simp
  qed (use Cons.prems(1,2) in auto)
  moreover have "\<forall>a \<in> set (f x). \<forall>b \<in> set (concat (map f xs)). P a b"
    using Cons.prems(2) Cons.prems(3) [of x] by auto
  ultimately show ?case using Cons.prems(1) by (simp add: sorted_wrt_append)
qed simp

lemma preference_rank_inj:
  "x \<in> set ladder \<Longrightarrow> preference_rank ladder x = preference_rank ladder y \<Longrightarrow> x = y"
  by (induction ladder) (auto split: if_splits)

lemma preference_strict:
  assumes "distinct vs" "set vs \<subseteq> set ladder"
  shows "sorted_wrt (\<lambda>x y. preference_rank ladder x < preference_rank ladder y) (in_preference_order vs ladder)"
proof -
  have "distinct (map (preference_rank ladder) (in_preference_order vs ladder))"
  proof -
    have "inj_on (preference_rank ladder) (set vs)"
      using assms(2) preference_rank_inj by (metis inj_onI subsetD)
    then show ?thesis using assms(1) by (simp add: distinct_map in_preference_order_def)
  qed
  then have "sorted_wrt (<) (map (preference_rank ladder) (in_preference_order vs ladder))"
    using preference_sorted [of ladder vs] by (simp add: strict_sorted_iff)
  then show ?thesis by (simp add: sorted_wrt_map)
qed

lemma codec_formats_ranked:
  assumes "distinct rs" "set rs \<subseteq> set RATE_PREFERENCE"
  shows "sorted_wrt ranked_before
     (codec_formats ch (in_preference_order rs RATE_PREFERENCE) (in_preference_order ds DEPTH_PREFERENCE) b c)"
proof (cases "c = OPUS")
  case False
  let ?f = "\<lambda>rate depth. \<lparr>fmt_codec = c, fmt_channels = ch, fmt_rate = rate, fmt_depth = depth\<rparr>"
  have "sorted_wrt ranked_before
      (concat (map (\<lambda>rate. map (?f rate) (in_preference_order ds DEPTH_PREFERENCE)) (in_preference_order rs RATE_PREFERENCE)))"
  proof (rule sorted_wrt_concat_map [OF _ preference_strict [OF assms]])
    show "sorted_wrt ranked_before (map (?f rate) (in_preference_order ds DEPTH_PREFERENCE))" for rate
      using preference_sorted [of DEPTH_PREFERENCE ds]
      by (simp add: sorted_wrt_map ranked_before_def format_ranks_def)
  qed (auto simp: ranked_before_def format_ranks_def)
  then show ?thesis using False by (simp add: codec_formats_def)
qed (simp add: codec_formats_def)

lemma codec_formats_codec: "f \<in> set (codec_formats ch rs ds b c) \<Longrightarrow> fmt_codec f = c"
  by (auto simp: codec_formats_def split: if_splits)

section \<open>Pinning\<close>

lemma pin_loop_eq:
  "pin_loop before fs p = (if p \<in> set fs then (True, p # before @ remove1 p fs) else (False, before @ fs))"
  by (induction before fs p rule: pin_loop.induct) auto

section \<open>The spec text\<close>

lemma split_colons_cons:
  "CHR '':'' \<notin> set a \<Longrightarrow> split_colons (a @ CHR '':'' # s) = a # split_colons s"
  by (subst split_colons.simps) (simp add: substr_def)

lemma split_colons_last: "CHR '':'' \<notin> set a \<Longrightarrow> split_colons a = [a]"
  by (subst split_colons.simps) simp

lemma colon_not_digit: "CHR '':'' \<notin> set (to_string n)"
proof -
  have "CHR '':'' \<notin> set DIGITS" by code_simp
  then show ?thesis using set_to_string by blast
qed

lemma parse_format_field_to_string:
  "0 < n \<Longrightarrow> n \<le> m \<Longrightarrow> n \<le> ULLONG_MAX \<Longrightarrow> parse_format_field (to_string n) m = Some n"
  using set_to_string [of n] by (simp add: parse_format_field_def strtoull_to_string)

lemma parse_format_field_SomeD: "parse_format_field t m = Some n \<Longrightarrow> 0 < n \<and> n \<le> m"
  by (auto simp: parse_format_field_def Let_def split: if_splits)

text \<open>The flag value that names a format.\<close>

definition spec_of :: "supported_format \<Rightarrow> string" where
  "spec_of f =
     (case fmt_codec f of FLAC \<Rightarrow> ''flac'' | OPUS \<Rightarrow> ''opus'' | PCM \<Rightarrow> ''pcm'' | UNSUPPORTED \<Rightarrow> '''')
     @ '':'' @ to_string (unat (fmt_rate f)) @ '':'' @ to_string (unat (fmt_depth f)) @ '':'' @
     to_string (unat (fmt_channels f))"

text \<open>The shapes the flag accepts, and every advertised entry has.\<close>

definition format_valid :: "supported_format \<Rightarrow> bool" where
  "format_valid f \<longleftrightarrow>
     fmt_codec f \<noteq> UNSUPPORTED \<and> 0 < unat (fmt_rate f) \<and> unat (fmt_rate f) \<le> 999999
     \<and> fmt_depth f \<in> {8, 16, 24, 32} \<and> fmt_channels f \<noteq> 0
     \<and> (fmt_codec f = OPUS \<longrightarrow> fmt_rate f = OPUS_RATE \<and> fmt_depth f = OPUS_BIT_DEPTH
                              \<and> fmt_channels f \<le> OPUS_MAX_CHANNELS)"

lemma unat_depths: "d \<in> {8, 16, 24, 32 :: u8} \<longleftrightarrow> unat d \<in> {8, 16, 24, 32}"
  by (simp add: word_unat_eq_iff)

lemma parse_spec_of:
  assumes "format_valid f"
  shows "parse_format_spec (spec_of f) = Inr f"
proof -
  let ?r = "unat (fmt_rate f)" and ?d = "unat (fmt_depth f)" and ?c = "unat (fmt_channels f)"
  define name where "name = (case fmt_codec f of FLAC \<Rightarrow> ''flac'' | OPUS \<Rightarrow> ''opus'' | PCM \<Rightarrow> ''pcm'' | UNSUPPORTED \<Rightarrow> '''')"
  have n: "CHR '':'' \<notin> set name" "parse_codec name = Some (fmt_codec f)"
    using assms by (auto simp: name_def format_valid_def parse_codec_def split: codec.split)
  have d: "?d \<in> {8, 16, 24, 32}" using assms unat_depths by (simp add: format_valid_def)
  have "spec_of f = name @ CHR '':'' # to_string ?r @ CHR '':'' # to_string ?d @ CHR '':'' # to_string ?c"
    by (simp add: spec_of_def name_def)
  then have s: "split_colons (spec_of f) = [name, to_string ?r, to_string ?d, to_string ?c]"
    using n(1) colon_not_digit by (simp add: split_colons_cons split_colons_last)
  have "parse_format_field (to_string ?r) 999999 = Some ?r"
    using assms unat_ullong(3) by (intro parse_format_field_to_string) (auto simp: format_valid_def)
  moreover have "parse_format_field (to_string ?d) 32 = Some ?d"
    using d unat_ullong(1) by (intro parse_format_field_to_string) auto
  moreover have "parse_format_field (to_string ?c) 255 = Some ?c"
    using assms unat_ullong(1) unat_u8_le by (intro parse_format_field_to_string) (auto simp: format_valid_def unat_gt_0)
  moreover have "\<not> (fmt_codec f = OPUS \<and> (?r \<noteq> unat OPUS_RATE \<or> ?d \<noteq> unat OPUS_BIT_DEPTH \<or> ?c > unat OPUS_MAX_CHANNELS))"
    using assms by (auto simp: format_valid_def word_le_nat_alt)
  moreover have "\<not> (?d \<noteq> 8 \<and> ?d \<noteq> 16 \<and> ?d \<noteq> 24 \<and> ?d \<noteq> 32)" using d by auto
  ultimately show ?thesis
    unfolding parse_format_spec_def s Let_def by (simp add: n(2) del: disj_not1)
qed

lemma parse_format_valid:
  assumes "parse_format_spec spec = Inr f"
  shows "format_valid f"
proof -
  define parts where "parts = split_colons spec"
  note a = assms [unfolded parse_format_spec_def Let_def, folded parts_def]
  from a obtain c where c: "parse_codec (parts ! 0) = Some c" by (auto split: if_splits option.splits)
  from a c obtain rate where rate: "parse_format_field (parts ! 1) 999999 = Some rate"
    by (auto split: if_splits option.splits)
  from a c rate obtain depth where depth: "parse_format_field (parts ! 2) 32 = Some depth"
    by (auto split: if_splits option.splits)
  from a c rate depth obtain ch where ch: "parse_format_field (parts ! 3) 255 = Some ch"
    by (auto split: if_splits option.splits)
  have
    p: "0 < rate" "rate \<le> 999999" "depth \<in> {8, 16, 24, 32}"
      "0 < ch" "ch \<le> 255" "c = OPUS \<longrightarrow> rate = unat OPUS_RATE \<and> depth = unat OPUS_BIT_DEPTH \<and> ch \<le> unat OPUS_MAX_CHANNELS"
    and f: "f = \<lparr>fmt_codec = c, fmt_channels = of_nat ch, fmt_rate = of_nat rate, fmt_depth = of_nat depth\<rparr>"
    using a parse_format_field_SomeD [OF rate] parse_format_field_SomeD [OF ch]
    unfolding c rate depth ch option.case by (auto split: if_split_asm)
  have u: "unat (of_nat rate :: u32) = rate" "unat (of_nat ch :: u8) = ch" "unat (of_nat depth :: u8) = depth"
    using p by auto
  have "c \<noteq> UNSUPPORTED" using c by (auto simp: parse_codec_def split: if_splits)
  moreover have "(of_nat depth :: u8) \<in> {8, 16, 24, 32}" using u(3) p(3) unat_depths by simp
  moreover have "(of_nat ch :: u8) \<noteq> 0" using u(2) p(4) by (metis less_irrefl unat_0)
  moreover have "c = OPUS \<Longrightarrow> (of_nat ch :: u8) \<le> OPUS_MAX_CHANNELS \<and> (of_nat rate :: u32) = OPUS_RATE
      \<and> (of_nat depth :: u8) = OPUS_BIT_DEPTH"
    using p(6) u(2) by (simp add: word_le_nat_alt)
  ultimately show ?thesis using f u(1) p(1,2) by (simp add: format_valid_def)
qed

section \<open>Properties\<close>

text \<open>What the sinks report: rates and depths off the probe ladders, each once.\<close>

definition probed :: "sink_capabilities \<Rightarrow> bool" where
  "probed caps \<longleftrightarrow> distinct (cap_rates caps) \<and> set (cap_rates caps) \<subseteq> set PROBE_RATES
     \<and> set (cap_bit_depths caps) \<subseteq> set PROBE_BIT_DEPTHS"

lemma supported_formats_set:
  "f \<in> set (supported_formats caps) \<longleftrightarrow>
     (let ch = advertised_channels (cap_channels caps) in
      ch \<noteq> 0 \<and> fmt_channels f = ch \<and> fmt_rate f \<in> set (cap_rates caps)
      \<and> fmt_depth f \<in> set (cap_bit_depths caps)
      \<and> (fmt_codec f \<in> {FLAC, PCM} \<or>
         fmt_codec f = OPUS \<and> fmt_rate f = OPUS_RATE \<and> fmt_depth f = OPUS_BIT_DEPTH \<and> ch \<le> OPUS_MAX_CHANNELS))"
  by (cases f) (auto simp: supported_formats_def codec_formats_def CODEC_PREFERENCE_def Let_def)

lemma supported_formats_valid:
  assumes "probed caps" "f \<in> set (supported_formats caps)"
  shows "format_valid f"
proof -
  have r: "fmt_rate f \<in> set PROBE_RATES" "fmt_depth f \<in> set PROBE_BIT_DEPTHS"
    using assms by (auto simp: supported_formats_set probed_def Let_def)
  then have "0 < unat (fmt_rate f) \<and> unat (fmt_rate f) \<le> 999999" by (auto simp: PROBE_RATES_def)
  then show ?thesis using assms(2) r(2)
    by (auto simp: format_valid_def supported_formats_set PROBE_BIT_DEPTHS_def Let_def)
qed

text \<open>
  The advertisement is exactly what the player can play on the device, in priority order: FLAC
  and PCM at every reported rate and depth, Opus at its one shape where the device takes it, all at
  one channel count; and sorted by codec, then rate, then depth preference, for every device.
\<close>

lemma supported_formats_exact_and_ranked:
  assumes "probed caps"
  shows "(f \<in> set (supported_formats caps) \<longleftrightarrow>
      (let ch = advertised_channels (cap_channels caps) in
       ch \<noteq> 0 \<and> fmt_channels f = ch \<and> fmt_rate f \<in> set (cap_rates caps)
       \<and> fmt_depth f \<in> set (cap_bit_depths caps)
       \<and> (fmt_codec f \<in> {FLAC, PCM} \<or>
          fmt_codec f = OPUS \<and> fmt_rate f = OPUS_RATE \<and> fmt_depth f = OPUS_BIT_DEPTH
          \<and> ch \<le> OPUS_MAX_CHANNELS)))
    \<and> sorted_wrt ranked_before (supported_formats caps)"
proof -
  have "set PROBE_RATES = set RATE_PREFERENCE" by (auto simp: PROBE_RATES_def RATE_PREFERENCE_def)
  then have r: "distinct (cap_rates caps)" "set (cap_rates caps) \<subseteq> set RATE_PREFERENCE"
    using assms by (auto simp: probed_def)
  have "sorted_wrt ranked_before (concat (map (codec_formats ch (in_preference_order (cap_rates caps) RATE_PREFERENCE)
      (in_preference_order (cap_bit_depths caps) DEPTH_PREFERENCE) b) CODEC_PREFERENCE))" for ch b
  proof (rule sorted_wrt_concat_map [where Q = "\<lambda>x y. preference_rank CODEC_PREFERENCE x < preference_rank CODEC_PREFERENCE y"])
    show "sorted_wrt (\<lambda>x y. preference_rank CODEC_PREFERENCE x < preference_rank CODEC_PREFERENCE y) CODEC_PREFERENCE"
      by (simp add: CODEC_PREFERENCE_def)
  qed (auto simp: codec_formats_ranked [OF r] ranked_before_def format_ranks_def dest!: codec_formats_codec)
  then show ?thesis unfolding supported_formats_set by (simp add: supported_formats_def Let_def)
qed

text \<open>
  Every advertised entry can be named by \<open>--audio-format\<close>, and naming it puts it first and
  leaves the others as they were: its \<open>codec:rate:depth:channels\<close> text parses to it, the pin finds
  it, and the result is the entry followed by the rest in their order. A text that parses is a
  shape the player can emit, and a format that is not advertised changes nothing.
\<close>

lemma advertised_format_can_be_pinned:
  assumes "probed caps" "f \<in> set (supported_formats caps)"
  shows "parse_format_spec (spec_of f) = Inr f
    \<and> pin_preferred_format (supported_formats caps) f = (True, f # remove1 f (supported_formats caps))
    \<and> mset (snd (pin_preferred_format (supported_formats caps) g)) = mset (supported_formats caps)
    \<and> (fst (pin_preferred_format (supported_formats caps) g) \<longleftrightarrow> g \<in> set (supported_formats caps))
    \<and> (parse_format_spec spec = Inr h \<longrightarrow> format_valid h)"
  using parse_spec_of [OF supported_formats_valid [OF assms]] assms(2) parse_format_valid [of spec h]
  by (auto simp: pin_preferred_format_def pin_loop_eq)

end
