(* ===== verification/DeviceSpec.thy ===== *)
theory DeviceSpec
  imports AudioTypes
begin

text \<open>
  The backend registry of \<^verbatim>\<open>src/src/audio_sink.cpp\<close>: what \<open>-o\<close> means on a build, and the sink
  it constructs. The four preprocessor flags are the record \<open>build_flags\<close>; the probes of the
  device libraries are a parameter that answers with an error text or accepts.
\<close>

section \<open>Definitions\<close>

datatype sink_backend = NullBackend | StdoutBackend | Alsa | PortAudio | Pulse | PipeWire

datatype device_arg = ArgNone | ArgRequired | ArgOptional

record build_flags =
  have_alsa :: bool
  have_portaudio :: bool
  have_pulse :: bool
  have_pipewire :: bool

record built_backend =
  bb_name :: string
  bb_backend :: sink_backend
  bb_device_arg :: device_arg

record reserved_backend =
  rb_name :: string
  rb_reason :: string
  rb_alsa_plugin :: "string option"

record device_spec =
  ds_backend :: sink_backend
  ds_device :: string

abbreviation built :: "string \<Rightarrow> sink_backend \<Rightarrow> device_arg \<Rightarrow> built_backend" where
  "built n b a \<equiv> \<lparr>bb_name = n, bb_backend = b, bb_device_arg = a\<rparr>"

abbreviation device :: "sink_backend \<Rightarrow> string \<Rightarrow> device_spec" where
  "device b d \<equiv> \<lparr>ds_backend = b, ds_device = d\<rparr>"

definition BUILT_BACKENDS :: "build_flags \<Rightarrow> built_backend list" where
  "BUILT_BACKENDS b =
     [built ''null'' NullBackend ArgNone, built ''stdout'' StdoutBackend ArgNone] @
     (if have_alsa b then [built ''alsa'' Alsa ArgRequired] else []) @
     (if have_portaudio b then [built ''portaudio'' PortAudio ArgOptional] else []) @
     (if have_pulse b then [built ''pulse'' Pulse ArgOptional] else []) @
     (if have_pipewire b then [built ''pipewire'' PipeWire ArgOptional] else [])"

definition RESERVED_BACKENDS :: "reserved_backend list" where
  "RESERVED_BACKENDS =
     [\<lparr>rb_name = ''alsa'', rb_reason = ''the ALSA backend is not in this build -- libasound was missing, or it was configured with -DSENDSPIN_CLI_WITH_ALSA=OFF'',
        rb_alsa_plugin = None\<rparr>,
      \<lparr>rb_name = ''portaudio'', rb_reason = ''the PortAudio backend is not in this build -- libportaudio was missing, or it was configured with -DSENDSPIN_CLI_WITH_PORTAUDIO=OFF'',
        rb_alsa_plugin = None\<rparr>,
      \<lparr>rb_name = ''pulse'', rb_reason = ''the PulseAudio backend is not in this build -- libpulse was missing, or it was configured with -DSENDSPIN_CLI_WITH_PULSE=OFF'',
        rb_alsa_plugin = Some ''pulse''\<rparr>,
      \<lparr>rb_name = ''pipewire'', rb_reason = ''the PipeWire backend is not in this build -- libpipewire was missing, or it was configured with -DSENDSPIN_CLI_WITH_PIPEWIRE=OFF'',
        rb_alsa_plugin = Some ''pipewire''\<rparr>]"

fun backend_names :: "string \<Rightarrow> built_backend list \<Rightarrow> string" where
  "backend_names text [] = text"
| "backend_names text (e # es) =
     backend_names ((if text \<noteq> [] then text @ '', '' else text) @ bb_name e) es"

definition audio_backend_list :: "build_flags \<Rightarrow> string" where
  "audio_backend_list b = backend_names [] (BUILT_BACKENDS b)"

definition unavailable_error :: "build_flags \<Rightarrow> reserved_backend \<Rightarrow> string" where
  "unavailable_error b r =
     rb_reason r @ ''. This build has: '' @ audio_backend_list b @
     (if have_alsa b then (case rb_alsa_plugin r of None \<Rightarrow> []
        | Some p \<Rightarrow> ''. That server is still reachable through ALSA's plugin PCM as -o alsa:'' @ p) else [])"

text \<open>Rule 3: anything else is an ALSA PCM name.\<close>

definition resolve_bare :: "build_flags \<Rightarrow> string \<Rightarrow> string + device_spec" where
  "resolve_bare b spec =
     (if have_alsa b then Inr (device Alsa spec)
      else Inl (''unknown output device '' @ quoted spec @ '' -- this build has: '' @ audio_backend_list b @
        (if have_portaudio b then ''. A PortAudio device needs its prefix: -o portaudio:'' @ spec else []) @
        '' (run with -l)''))"

text \<open>The table of reserved names, after the built ones have missed.\<close>

definition resolve_reserved :: "build_flags \<Rightarrow> string \<Rightarrow> string \<Rightarrow> bool \<Rightarrow> string + device_spec" where
  "resolve_reserved b spec prefix has_colon =
     (case find (\<lambda>r. prefix = rb_name r) RESERVED_BACKENDS of
        None \<Rightarrow> resolve_bare b spec
      | Some r \<Rightarrow>
          if have_alsa b \<and> \<not> has_colon \<and> rb_alsa_plugin r \<noteq> None then resolve_bare b spec
          else Inl (unavailable_error b r))"

text \<open>Rule 2: \<open><backend>:<device>\<close>, split on the first colon.\<close>

definition resolve_prefixed :: "build_flags \<Rightarrow> string \<Rightarrow> string + device_spec" where
  "resolve_prefixed b spec =
     (case find_char CHR '':'' spec of
        None \<Rightarrow> resolve_reserved b spec spec False
      | Some colon \<Rightarrow>
          (let prefix = substr spec 0 colon; rest = drop (colon + 1) spec in
           case find (\<lambda>e. prefix = bb_name e) (BUILT_BACKENDS b) of
             None \<Rightarrow> resolve_reserved b spec prefix True
           | Some e \<Rightarrow>
               if bb_device_arg e = ArgNone then
                 Inl (''the '' @ prefix @ '' backend takes no device, so -o '' @ quoted spec @
                      '' means nothing -- use -o '' @ prefix @ '' on its own'')
               else if rest = [] then
                 Inl (''-o '' @ quoted spec @ '' names no device -- write -o '' @ prefix @ '':<device>'' @
                      (if bb_device_arg e = ArgOptional
                       then '', or -o '' @ prefix @ '' on its own for this host's default'' else []) @
                      '', or -l to list them'')
               else Inr (device (bb_backend e) rest)))"

definition resolve_device_spec :: "build_flags \<Rightarrow> string \<Rightarrow> string + device_spec" where
  "resolve_device_spec b spec =
     (if spec = [] then Inl ''empty output device -- run with -l to list what this build has''
      else if spec = ''-'' then Inr (device StdoutBackend [])
      else case find (\<lambda>e. spec = bb_name e) (BUILT_BACKENDS b) of
        Some e \<Rightarrow>
          if bb_device_arg e = ArgRequired then
            Inl (''-o '' @ quoted spec @ '' names a backend but no device -- write -o '' @ spec @
                 '':<device>, or -l to list them'')
          else Inr (device (bb_backend e) [])
      | None \<Rightarrow> resolve_prefixed b spec)"

definition alsa_pcm_is_reachable :: "build_flags \<Rightarrow> string \<Rightarrow> bool" where
  "alsa_pcm_is_reachable b pcm =
     (if have_alsa b then
        (case resolve_device_spec b pcm of Inl e \<Rightarrow> False
         | Inr d \<Rightarrow> ds_backend d = Alsa \<and> ds_device d = pcm)
      else False)"

text \<open>The line logged at INFO, when there is one.\<close>

definition warn_if_shadowing_an_alsa_pcm :: "build_flags \<Rightarrow> string \<Rightarrow> device_spec \<Rightarrow> string option" where
  "warn_if_shadowing_an_alsa_pcm b spec d =
     (if have_alsa b then
        (if ds_backend d \<noteq> Pulse \<and> ds_backend d \<noteq> PipeWire then None
         else if find_char CHR '':'' spec \<noteq> None then None
         else Some (''-o '' @ spec @ '' is the native '' @ spec @ '' backend, not ALSA's plugin PCM of the same name -- write -o alsa:'' @ spec @ '' for that''))
      else None)"

datatype null_sink_output = Discard | StdoutPcm

text \<open>The constructed sink: \<open>NullAudioSink\<close>, or a device backend's class with its two arguments.\<close>

datatype audio_sink_object =
  NullAudioSink null_sink_output
| DeviceSink sink_backend string u32

definition INTERNAL_ERROR :: "string \<Rightarrow> string" where
  "INTERNAL_ERROR dev = ''internal error: output device '' @ quoted dev @
     '' resolved to a backend this build cannot construct''"

definition probed_sink ::
  "(sink_backend \<Rightarrow> string \<Rightarrow> string option) \<Rightarrow> device_spec \<Rightarrow> u32 \<Rightarrow> string + audio_sink_object" where
  "probed_sink probe d buffer_ms =
     (case probe (ds_backend d) (ds_device d) of
        Some e \<Rightarrow> Inl e
      | None \<Rightarrow> Inr (DeviceSink (ds_backend d) (ds_device d) buffer_ms))"

definition make_audio_sink ::
  "build_flags \<Rightarrow> (sink_backend \<Rightarrow> string \<Rightarrow> string option) \<Rightarrow> string \<Rightarrow> u32 \<Rightarrow> string + audio_sink_object" where
  "make_audio_sink b probe dev buffer_ms =
     (case resolve_device_spec b dev of
        Inl e \<Rightarrow> Inl e
      | Inr d \<Rightarrow>
          (case ds_backend d of
             NullBackend \<Rightarrow> Inr (NullAudioSink Discard)
           | StdoutBackend \<Rightarrow> Inr (NullAudioSink StdoutPcm)
           | Alsa \<Rightarrow> if have_alsa b then probed_sink probe d buffer_ms else Inl (INTERNAL_ERROR dev)
           | PortAudio \<Rightarrow> if have_portaudio b then probed_sink probe d buffer_ms else Inl (INTERNAL_ERROR dev)
           | Pulse \<Rightarrow> if have_pulse b then probed_sink probe d buffer_ms else Inl (INTERNAL_ERROR dev)
           | PipeWire \<Rightarrow> if have_pipewire b then probed_sink probe d buffer_ms else Inl (INTERNAL_ERROR dev)))"

fun join_numbers :: "string \<Rightarrow> nat list \<Rightarrow> string" where
  "join_numbers text [] = text"
| "join_numbers text (v # vs) =
     join_numbers ((if text \<noteq> [] then text @ '' '' else text) @ to_string v) vs"

definition join_or :: "nat list \<Rightarrow> string \<Rightarrow> string" where
  "join_or values none = (if values = [] then none else join_numbers [] values)"

fun depth_list :: "string \<Rightarrow> u8 list \<Rightarrow> (u8 \<times> string) list \<Rightarrow> string" where
  "depth_list text depths [] = text"
| "depth_list text depths ((d, n) # ps) =
     depth_list (if d \<in> set depths then (if text \<noteq> [] then text @ '' '' else text) @ n else text) depths ps"

definition print_sink_capabilities :: "sink_capabilities \<Rightarrow> string list \<Rightarrow> string" where
  "print_sink_capabilities caps depth_names =
     (let formats = depth_list [] (cap_bit_depths caps) (zip PROBE_BIT_DEPTHS depth_names) in
      ''      rates:    '' @ join_or (map unat (cap_rates caps)) ''(none of the probed rates)'' @ [NL] @
      ''      formats:  '' @ (if formats = [] then ''(none sendspin-cli can emit)'' else formats) @ [NL] @
      ''      channels: '' @ join_or (map unat (cap_channels caps)) ''(none of the probed counts)'' @ [NL])"

section \<open>What a spec resolves to\<close>

lemma built_found:
  "find (\<lambda>e. s = bb_name e) (BUILT_BACKENDS b) =
     (if s = ''null'' then Some (built s NullBackend ArgNone)
      else if s = ''stdout'' then Some (built s StdoutBackend ArgNone)
      else if s = ''alsa'' \<and> have_alsa b then Some (built s Alsa ArgRequired)
      else if s = ''portaudio'' \<and> have_portaudio b then Some (built s PortAudio ArgOptional)
      else if s = ''pulse'' \<and> have_pulse b then Some (built s Pulse ArgOptional)
      else if s = ''pipewire'' \<and> have_pipewire b then Some (built s PipeWire ArgOptional)
      else None)"
  by (simp add: BUILT_BACKENDS_def)

lemma reserved_none:
  "find (\<lambda>r. s = rb_name r) RESERVED_BACKENDS = None \<longleftrightarrow> s \<notin> {''alsa'', ''portaudio'', ''pulse'', ''pipewire''}"
  by (simp add: RESERVED_BACKENDS_def)

lemma reserved_plugin:
  "find (\<lambda>r. s = rb_name r) RESERVED_BACKENDS = Some r \<Longrightarrow>
     rb_alsa_plugin r \<noteq> None \<longleftrightarrow> s \<in> {''pulse'', ''pipewire''}"
  by (cases "s = ''alsa''"; cases "s = ''portaudio''"; cases "s = ''pulse''"; cases "s = ''pipewire''")
     (simp_all add: RESERVED_BACKENDS_def, force+)?

text \<open>The outcome without the texts: the value of a spec on a build, or a refusal.\<close>

fun resolved :: "string + device_spec \<Rightarrow> device_spec option" where
  "resolved (Inl e) = None"
| "resolved (Inr d) = Some d"

definition named_backend :: "build_flags \<Rightarrow> string \<Rightarrow> sink_backend option" where
  "named_backend b s =
     (if s = ''null'' then Some NullBackend else if s = ''stdout'' then Some StdoutBackend
      else if s = ''alsa'' \<and> have_alsa b then Some Alsa
      else if s = ''portaudio'' \<and> have_portaudio b then Some PortAudio
      else if s = ''pulse'' \<and> have_pulse b then Some Pulse
      else if s = ''pipewire'' \<and> have_pipewire b then Some PipeWire else None)"

definition RESERVED :: "string set" where
  "RESERVED = {''alsa'', ''portaudio'', ''pulse'', ''pipewire''}"

definition device_meant :: "build_flags \<Rightarrow> string \<Rightarrow> device_spec option" where
  "device_meant b spec =
     (if spec = [] then None
      else if spec = ''-'' then Some (device StdoutBackend [])
      else if CHR '':'' \<notin> set spec then
        (case named_backend b spec of
           Some Alsa \<Rightarrow> None
         | Some k \<Rightarrow> Some (device k [])
         | None \<Rightarrow> if have_alsa b \<and> spec \<notin> {''alsa'', ''portaudio''} then Some (device Alsa spec) else None)
      else
        (let prefix = takeWhile (\<lambda>c. c \<noteq> CHR '':'') spec; rest = tl (dropWhile (\<lambda>c. c \<noteq> CHR '':'') spec) in
         case named_backend b prefix of
           Some k \<Rightarrow> if k \<in> {NullBackend, StdoutBackend} \<or> rest = [] then None else Some (device k rest)
         | None \<Rightarrow> if have_alsa b \<and> prefix \<notin> RESERVED then Some (device Alsa spec) else None))"

lemma resolved_bare: "resolved (resolve_bare b spec) = (if have_alsa b then Some (device Alsa spec) else None)"
  by (simp add: resolve_bare_def)

lemma resolved_reserved:
  "resolved (resolve_reserved b spec prefix has_colon) =
     (if have_alsa b \<and> (prefix \<notin> RESERVED \<or> \<not> has_colon \<and> prefix \<in> {''pulse'', ''pipewire''})
      then Some (device Alsa spec) else None)"
proof (cases "find (\<lambda>r. prefix = rb_name r) RESERVED_BACKENDS")
  case None
  then show ?thesis using reserved_none [of prefix]
    by (simp add: resolve_reserved_def resolved_bare RESERVED_def)
next
  case (Some r)
  then show ?thesis using reserved_plugin [OF Some] reserved_none [of prefix]
    by (auto simp: resolve_reserved_def resolved_bare RESERVED_def)
qed

lemma takeWhile_find:
  "find_char c s = Some i \<Longrightarrow> takeWhile (\<lambda>x. x \<noteq> c) s = take i s \<and> dropWhile (\<lambda>x. x \<noteq> c) s = drop i s"
  by (induction s arbitrary: i) (auto split: if_splits)

lemma resolve_device_spec_meant: "resolved (resolve_device_spec b spec) = device_meant b spec"
proof (cases "find_char CHR '':'' spec")
  case None
  then show ?thesis
    by (auto simp: resolve_device_spec_def built_found resolve_prefixed_def resolved_reserved
      device_meant_def named_backend_def find_char_None RESERVED_def)
next
  case (Some i)
  then have c: "CHR '':'' \<in> set spec" using find_char_None [of "CHR '':''" spec] by auto
  then have whole: "spec \<notin> {[], ''-'', ''null'', ''stdout'', ''alsa'', ''portaudio'', ''pulse'', ''pipewire''}"
    by auto
  note t = takeWhile_find [OF Some]
  show ?thesis using Some c whole
    by (auto simp: resolve_device_spec_def built_found resolve_prefixed_def resolved_reserved
      device_meant_def named_backend_def t substr_def Let_def drop_Suc drop_tl)
qed

text \<open>A resolved spec is one the build can construct, with the device its backend wants.\<close>

definition playable :: "build_flags \<Rightarrow> device_spec \<Rightarrow> bool" where
  "playable b d =
     (case ds_backend d of NullBackend \<Rightarrow> ds_device d = [] | StdoutBackend \<Rightarrow> ds_device d = []
      | Alsa \<Rightarrow> have_alsa b \<and> ds_device d \<noteq> [] | PortAudio \<Rightarrow> have_portaudio b
      | Pulse \<Rightarrow> have_pulse b | PipeWire \<Rightarrow> have_pipewire b)"

lemma meant_playable: "device_meant b spec = Some d \<Longrightarrow> playable b d"
  by (auto simp: device_meant_def named_backend_def playable_def Let_def split: if_splits)

lemma resolve_Inr: "resolve_device_spec b spec = Inr d \<longleftrightarrow> device_meant b spec = Some d"
  using resolve_device_spec_meant [of b spec] by (cases "resolve_device_spec b spec") auto

lemma resolve_Inl: "resolve_device_spec b spec = Inl e \<Longrightarrow> device_meant b spec = None"
  using resolve_device_spec_meant [of b spec] by simp

section \<open>Properties\<close>

text \<open>
  The construction never reaches its internal error: on every build, a spec is refused by
  \<open>resolve_device_spec\<close> with its own text, or it names a backend the build has and the sink is
  that backend's, opened on the resolved device after its probe accepted, the probe's own text
  being the only other failure.
\<close>

lemma make_audio_sink_builds_what_resolves:
  "case resolve_device_spec b spec of
     Inl e \<Rightarrow> make_audio_sink b probe spec ms = Inl e
   | Inr d \<Rightarrow> playable b d \<and>
       make_audio_sink b probe spec ms =
         (case ds_backend d of NullBackend \<Rightarrow> Inr (NullAudioSink Discard)
          | StdoutBackend \<Rightarrow> Inr (NullAudioSink StdoutPcm)
          | k \<Rightarrow> (case probe k (ds_device d) of Some e \<Rightarrow> Inl e
                 | None \<Rightarrow> Inr (DeviceSink k (ds_device d) ms)))"
proof (cases "resolve_device_spec b spec")
  case (Inr d)
  then have "playable b d" using meant_playable resolve_Inr by blast
  then show ?thesis using Inr
    by (cases "ds_backend d") (simp_all add: make_audio_sink_def playable_def probed_sink_def split: option.split)
qed (simp add: make_audio_sink_def)

text \<open>
  An explicit prefix always wins: \<open><backend>:<device>\<close> reaches exactly that device of that
  backend, colons in the device included, on every build that has the backend. In particular
  \<open>alsa:\<close> is the way back to the PCMs the native backends shadow. The bare names \<open>-o\<close> hands to
  ALSA are exactly those outside the backend names, built or reserved; the listing's
  \<open>alsa_pcm_is_reachable\<close> says so for each PCM.
\<close>

lemma explicit_prefix_and_reachability:
  "(\<forall>n k. (n, k) \<in> {(''alsa'', Alsa), (''portaudio'', PortAudio), (''pulse'', Pulse), (''pipewire'', PipeWire)} \<longrightarrow>
      named_backend b n = Some k \<longrightarrow> dev \<noteq> [] \<longrightarrow>
      resolve_device_spec b (n @ CHR '':'' # dev) = Inr (device k dev))
   \<and> (alsa_pcm_is_reachable b pcm \<longleftrightarrow>
      have_alsa b
      \<and> pcm \<notin> {[], ''-'', ''null'', ''stdout'', ''alsa'', ''portaudio''}
      \<and> (pcm = ''pulse'' \<longrightarrow> \<not> have_pulse b) \<and> (pcm = ''pipewire'' \<longrightarrow> \<not> have_pipewire b)
      \<and> (CHR '':'' \<in> set pcm \<longrightarrow> takeWhile (\<lambda>c. c \<noteq> CHR '':'') pcm \<notin>
            {''null'', ''stdout'', ''alsa'', ''portaudio'', ''pulse'', ''pipewire''}))"
proof (intro conjI allI impI)
  fix n k assume a: "(n, k) \<in> {(''alsa'', Alsa), (''portaudio'', PortAudio), (''pulse'', Pulse), (''pipewire'', PipeWire)}"
    and k: "named_backend b n = Some k" and d: "dev \<noteq> []"
  have n: "CHR '':'' \<notin> set n" "n \<noteq> []" and kk: "k \<notin> {NullBackend, StdoutBackend}" using a by auto
  have "takeWhile (\<lambda>c. c \<noteq> CHR '':'') (n @ CHR '':'' # dev) = n"
    "dropWhile (\<lambda>c. c \<noteq> CHR '':'') (n @ CHR '':'' # dev) = CHR '':'' # dev"
    using n(1) by (simp_all add: takeWhile_append takeWhile_eq_all_conv dropWhile_append)
  then have "device_meant b (n @ CHR '':'' # dev) = Some (device k dev)"
    using k kk d by (cases n) (simp_all add: device_meant_def)
  then show "resolve_device_spec b (n @ CHR '':'' # dev) = Inr (device k dev)" by (simp add: resolve_Inr)
next
  have tl: "tl (dropWhile (\<lambda>c. c \<noteq> CHR '':'') pcm) \<noteq> pcm" if "pcm \<noteq> []"
  proof -
    have "length (tl (dropWhile (\<lambda>c. c \<noteq> CHR '':'') pcm)) < length pcm"
      using that length_dropWhile_le [of "\<lambda>c. c \<noteq> CHR '':''" pcm] by (cases pcm) auto
    then show ?thesis by (metis less_irrefl)
  qed
  have "alsa_pcm_is_reachable b pcm \<longleftrightarrow> have_alsa b \<and> device_meant b pcm = Some (device Alsa pcm)"
    by (auto simp: alsa_pcm_is_reachable_def resolve_Inr dest: resolve_Inl split: sum.splits)
  also have "\<dots> \<longleftrightarrow> have_alsa b
      \<and> pcm \<notin> {[], ''-'', ''null'', ''stdout'', ''alsa'', ''portaudio''}
      \<and> (pcm = ''pulse'' \<longrightarrow> \<not> have_pulse b) \<and> (pcm = ''pipewire'' \<longrightarrow> \<not> have_pipewire b)
      \<and> (CHR '':'' \<in> set pcm \<longrightarrow> takeWhile (\<lambda>c. c \<noteq> CHR '':'') pcm \<notin>
            {''null'', ''stdout'', ''alsa'', ''portaudio'', ''pulse'', ''pipewire''})"
  proof (cases "CHR '':'' \<in> set pcm")
    case True
    then have "pcm \<notin> {[], ''-'', ''null'', ''stdout'', ''alsa'', ''portaudio'', ''pulse'', ''pipewire''}" by auto
    then show ?thesis using True tl
      by (simp add: device_meant_def named_backend_def RESERVED_def Let_def)
  next
    case False
    then show ?thesis by (simp add: device_meant_def named_backend_def)
  qed
  finally show "alsa_pcm_is_reachable b pcm \<longleftrightarrow> have_alsa b
      \<and> pcm \<notin> {[], ''-'', ''null'', ''stdout'', ''alsa'', ''portaudio''}
      \<and> (pcm = ''pulse'' \<longrightarrow> \<not> have_pulse b) \<and> (pcm = ''pipewire'' \<longrightarrow> \<not> have_pipewire b)
      \<and> (CHR '':'' \<in> set pcm \<longrightarrow> takeWhile (\<lambda>c. c \<noteq> CHR '':'') pcm \<notin>
            {''null'', ''stdout'', ''alsa'', ''portaudio'', ''pulse'', ''pipewire''})" .
qed

definition fewer_backends :: "build_flags \<Rightarrow> build_flags \<Rightarrow> bool" where
  "fewer_backends b c \<longleftrightarrow> (have_alsa b \<longrightarrow> have_alsa c) \<and> (have_portaudio b \<longrightarrow> have_portaudio c)
     \<and> (have_pulse b \<longrightarrow> have_pulse c) \<and> (have_pipewire b \<longrightarrow> have_pipewire c)"

lemma named_backend_mono:
  "fewer_backends b c \<Longrightarrow> named_backend b s = Some k \<Longrightarrow> named_backend c s = Some k"
  "named_backend b s = None \<Longrightarrow> named_backend c s \<noteq> None \<Longrightarrow> s \<in> RESERVED"
  by (auto simp: fewer_backends_def named_backend_def RESERVED_def split: if_splits)

text \<open>
  Adding backends to a build changes the meaning of two command lines only: what a spec resolves
  to on a build it resolves to on every build with more backends, except the bare \<open>pulse\<close> and
  \<open>pipewire\<close>, which move from ALSA's plugin PCM to the native backend; and those are exactly the
  ones the shadowing line is logged for.
\<close>

lemma more_backends_shadow_two_names:
  assumes "fewer_backends b c" "resolve_device_spec b spec = Inr d"
  shows "resolve_device_spec c spec = Inr d
     \<and> (warn_if_shadowing_an_alsa_pcm c spec d \<noteq> None \<longrightarrow> spec \<in> {''pulse'', ''pipewire''} \<and> d \<noteq> device Alsa spec)
   \<or> spec \<in> {''pulse'', ''pipewire''} \<and> d = device Alsa spec
     \<and> (\<exists>k. resolve_device_spec c spec = Inr (device k [])
            \<and> (warn_if_shadowing_an_alsa_pcm c spec (device k []) \<noteq> None))"
proof -
  have d: "device_meant b spec = Some d" using assms(2) by (simp add: resolve_Inr)
  have w: "warn_if_shadowing_an_alsa_pcm c spec e = None \<longleftrightarrow>
      \<not> (have_alsa c \<and> ds_backend e \<in> {Pulse, PipeWire} \<and> CHR '':'' \<notin> set spec)" for e
    by (auto simp: warn_if_shadowing_an_alsa_pcm_def find_char_None)
  show ?thesis
  proof (cases "CHR '':'' \<in> set spec")
    case True
    let ?p = "takeWhile (\<lambda>c. c \<noteq> CHR '':'') spec"
    have "device_meant c spec = Some d"
    proof (cases "named_backend b ?p")
      case None
      then have "?p \<notin> RESERVED" "have_alsa b" using d True
        by (auto simp: device_meant_def Let_def split: if_splits)
      moreover have "named_backend c ?p = None"
        using named_backend_mono(2) [OF None, of c] \<open>?p \<notin> RESERVED\<close> by blast
      ultimately show ?thesis using d True None assms(1)
        by (simp add: device_meant_def Let_def fewer_backends_def split: if_splits)
    next
      case (Some k)
      then show ?thesis using d True named_backend_mono(1) [OF assms(1) Some]
        by (simp add: device_meant_def Let_def split: if_splits)
    qed
    then show ?thesis unfolding w resolve_Inr using True by simp
  next
    case False
    then show ?thesis using d assms(1) unfolding w resolve_Inr
      by (auto simp: device_meant_def named_backend_def fewer_backends_def split: if_splits)
  qed
qed

end
