(* ===== verification/ServerUrl.thy ===== *)
theory ServerUrl
  imports Prelude
begin

text \<open>
  The \<open>-s\<close> values of \<^verbatim>\<open>src/src/cli.cpp\<close>: the discovery form, the URL a value resolves to, and the
  masking of the credentials it may carry. A fallible parse returns its message or its value.
\<close>

section \<open>Definitions\<close>

definition SENDSPIN_PATH :: string where "SENDSPIN_PATH = ''/sendspin''"
definition DISCOVERY_PREFIX :: string where "DISCOVERY_PREFIX = ''mdns:''"
definition DEFAULT_REMOTE_SERVER_PORT :: u16 where "DEFAULT_REMOTE_SERVER_PORT = 8927"
definition USERINFO_MASK :: string where "USERINFO_MASK = ''***''"

definition is_all_digits :: "string \<Rightarrow> bool" where
  "is_all_digits value \<longleftrightarrow> value \<noteq> [] \<and> find_first_not_of DIGITS value = None"

definition parse_port :: "string \<Rightarrow> u16 option" where
  "parse_port str =
     (if \<not> is_all_digits str then None
      else let value = strtoull str in
        if value = 0 \<or> value > 65535 then None else Some (of_nat value))"

definition parse_discovery_spec :: "string \<Rightarrow> string option" where
  "parse_discovery_spec server =
     (if starts_with DISCOVERY_PREFIX server then Some (drop (length DISCOVERY_PREFIX) server) else None)"

definition redact_url_userinfo :: "string \<Rightarrow> string" where
  "redact_url_userinfo url =
     (let begin = (case find_str ''://'' url of None \<Rightarrow> 0 | Some e \<Rightarrow> e + 3);
          authority = (case find_first_of ''/?#'' (drop begin url) of
                         None \<Rightarrow> drop begin url | Some n \<Rightarrow> substr url begin n)
      in case find_last_char CHR ''@'' authority of
           None \<Rightarrow> url
         | Some at \<Rightarrow>
             (let userinfo = substr authority 0 at in
              case find_char CHR '':'' userinfo of
                None \<Rightarrow>
                  if userinfo = [] then url
                  else substr url 0 begin @ USERINFO_MASK @ drop (begin + at) url
              | Some colon \<Rightarrow>
                  if colon + 1 = length userinfo then url
                  else substr url 0 begin @ (substr userinfo 0 (colon + 1) @ USERINFO_MASK)
                       @ drop (begin + at) url))"

text \<open>
  The host and, when a \<open>:\<close> was written, the port text, of a value without a scheme.
\<close>

definition split_host_port :: "string \<Rightarrow> string \<Rightarrow> string + string \<times> string option" where
  "split_host_port shown server =
     (if server \<noteq> [] \<and> hd server = CHR ''['' then
        (case find_char CHR '']'' server of
           None \<Rightarrow> Inl (''-s '' @ quoted shown @ '': unterminated '' @ quoted ''['' @
                        '' -- an IPv6 literal reads [::1]:8927'')
         | Some bracket \<Rightarrow>
             (let host = substr server 0 (bracket + 1); rest = drop (bracket + 1) server in
              if rest = [] then Inr (host, None)
              else if hd rest \<noteq> CHR '':'' then
                Inl (''-s '' @ quoted shown @ '': expected '' @ quoted '':<port>'' @ '' after '' @ quoted '']'' @
                     '', got '' @ quoted (redact_url_userinfo rest))
              else Inr (host, Some (drop 1 rest))))
      else
        (case find_char CHR '':'' server of
           None \<Rightarrow> Inr (server, None)
         | Some colon \<Rightarrow>
             if find_char CHR '':'' (drop (colon + 1) server) \<noteq> None then
               Inl (''-s '' @ quoted shown @ '': an IPv6 literal must be bracketed -- try '' @
                    quoted (CHR ''['' # shown @ '']'') @ '' or '' @ quoted (CHR ''['' # shown @ '']:<port>''))
             else Inr (substr server 0 colon, Some (drop (colon + 1) server))))"

definition parse_server_url :: "string \<Rightarrow> string + string" where
  "parse_server_url server =
     (if server = [] then Inl ''-s needs a server: <host>[:<port>], or a full ws:// URL''
      else
        (let shown = redact_url_userinfo server in
         case find_str ''://'' server of
           Some scheme_end \<Rightarrow>
             (let scheme = substr server 0 scheme_end in
              if scheme \<noteq> ''ws'' \<and> scheme \<noteq> ''wss'' then
                Inl (''-s '' @ quoted shown @ '': Sendspin runs over WebSocket, so the scheme must be '' @
                     ''ws:// or wss://, not '' @ scheme @ ''://'')
              else if scheme_end + 3 = length server then Inl (''-s '' @ quoted shown @ '': a scheme but no host'')
              else Inr server)
         | None \<Rightarrow>
             (case split_host_port shown server of
                Inl e \<Rightarrow> Inl e
              | Inr (host, port_text) \<Rightarrow>
                  if host = [] \<or> host = ''[]'' then Inl (''-s '' @ quoted shown @ '': no host before the port'')
                  else
                    (case (case port_text of None \<Rightarrow> Some DEFAULT_REMOTE_SERVER_PORT | Some t \<Rightarrow> parse_port t) of
                       None \<Rightarrow> Inl (''-s '' @ quoted shown @ '': '' @
                                  quoted (redact_url_userinfo (the port_text)) @
                                  '' is not a port number (expected 1-65535)'')
                     | Some port \<Rightarrow>
                         Inr (''ws://'' @ host @ '':'' @ to_string (unat port) @ SENDSPIN_PATH)))))"

section \<open>The URL a value resolves to\<close>

text \<open>A host that stands before a port: a name, or a bracketed IPv6 literal.\<close>

definition host_ok :: "string \<Rightarrow> bool" where
  "host_ok host \<longleftrightarrow>
     host \<noteq> [] \<and> (if hd host = CHR ''['' then host \<noteq> ''[]'' \<and> find_char CHR '']'' host = Some (length host - 1)
                  else CHR '':'' \<notin> set host)"

lemma parse_port_iff:
  "parse_port t = Some p \<longleftrightarrow>
     is_all_digits t \<and> 0 < strtoull t \<and> strtoull t \<le> 65535 \<and> unat p = strtoull t"
  by (auto simp: parse_port_def Let_def word_unat_eq_iff)

lemma find_char_take: "find_char c s = Some i \<Longrightarrow> find_char c (take (Suc i) s) = Some i"
  by (induction s arbitrary: i) (auto split: if_splits)

lemma find_char_nth_hd: "find_char c s = Some 0 \<Longrightarrow> hd s = c"
  by (cases s) (auto split: if_splits)

lemma hd_take: "n > 0 \<Longrightarrow> hd (take n s) = hd s"
  by (cases s; cases n) auto

lemma split_host_port_plain:
  assumes "server \<noteq> []" "hd server \<noteq> CHR ''[''" "split_host_port shown server = Inr (host, port_text)"
    "host \<noteq> []"
  shows "host_ok host \<and> server = host @ (case port_text of None \<Rightarrow> [] | Some t \<Rightarrow> CHR '':'' # t)"
proof (cases "find_char CHR '':'' server")
  case None
  then show ?thesis using assms find_char_None [of "CHR '':''" server]
    by (simp add: split_host_port_def host_ok_def)
next
  case (Some i)
  then have h: "host = take i server" "port_text = Some (drop (i + 1) server)"
    using assms by (auto simp: split_host_port_def substr_def split: if_splits)
  have "server = take i server @ CHR '':'' # drop (Suc i) server" by (rule find_char_split [OF Some])
  moreover have "CHR '':'' \<notin> set host" using find_char_SomeD [OF Some] h(1) by blast
  moreover have "hd host = hd server" using assms(4) h(1) by (cases i) (auto simp: hd_take)
  ultimately show ?thesis using h assms(2,4) by (simp add: host_ok_def)
qed

lemma split_host_port_bracket:
  assumes "server \<noteq> []" "hd server = CHR ''[''" "split_host_port shown server = Inr (host, port_text)"
    "host \<noteq> ''[]''"
  shows "host_ok host \<and> server = host @ (case port_text of None \<Rightarrow> [] | Some t \<Rightarrow> CHR '':'' # t)"
proof -
  obtain i where i: "find_char CHR '']'' server = Some i"
    using assms by (auto simp: split_host_port_def split: option.splits)
  have il: "i < length server" using find_char_SomeD [OF i] by blast
  have h: "host = take (Suc i) server"
    using assms i by (auto simp: split_host_port_def substr_def Let_def split: if_splits)
  have "find_char CHR '']'' host = Some (length host - 1)" using find_char_take [OF i] h il by simp
  moreover have "host \<noteq> []" "hd host = CHR ''[''" using h assms(1,2) by (auto simp: hd_take)
  moreover have "port_text = (if drop (Suc i) server = [] then None else Some (drop 1 (drop (Suc i) server)))
      \<and> (drop (Suc i) server \<noteq> [] \<longrightarrow> hd (drop (Suc i) server) = CHR '':'')"
    using assms i by (auto simp: split_host_port_def substr_def Let_def split: if_splits)
  then have "drop (Suc i) server = (case port_text of None \<Rightarrow> [] | Some t \<Rightarrow> CHR '':'' # t)"
    by (cases "drop (Suc i) server") auto
  ultimately show ?thesis using assms(4) h by (metis append_take_drop_id host_ok_def)
qed

lemma split_host_port_complete:
  assumes "host_ok host" "port_text = None \<or> (\<exists>t. port_text = Some t \<and> is_all_digits t)"
  shows "split_host_port shown (host @ (case port_text of None \<Rightarrow> [] | Some t \<Rightarrow> CHR '':'' # t)) = Inr (host, port_text)"
proof (cases "hd host = CHR ''[''")
  case True
  let ?rest = "case port_text of None \<Rightarrow> [] | Some t \<Rightarrow> CHR '':'' # t"
  have h: "host \<noteq> []" "find_char CHR '']'' host = Some (length host - 1)" using assms(1) True by (auto simp: host_ok_def)
  then have "CHR '']'' \<in> set host" using find_char_None [of "CHR '']''" host] by fastforce
  then have f: "find_char CHR '']'' (host @ ?rest) = Some (length host - 1)"
    using h(2) by (simp add: find_char_append_in)
  have "Suc (length host - 1) = length host" using h(1) by simp
  then show ?thesis using True h(1) f
    by (cases port_text) (simp_all add: split_host_port_def substr_def Let_def)
next
  case False
  then have h: "host \<noteq> []" "CHR '':'' \<notin> set host" using assms(1) by (auto simp: host_ok_def)
  have "CHR '':'' \<notin> set t" if "is_all_digits t" for t
    using that by (auto simp: is_all_digits_def find_first_not_of_None DIGITS_def)
  then show ?thesis using False h assms(2)
    by (cases port_text) (auto simp: split_host_port_def substr_def)
qed

lemma parse_server_url_hosts:
  assumes "find_str ''://'' s = None"
  shows "parse_server_url s = Inr url \<longleftrightarrow>
     (\<exists>host port. host_ok host \<and> 0 < unat (port :: u16)
        \<and> url = ''ws://'' @ host @ '':'' @ to_string (unat port) @ ''/sendspin''
        \<and> (s = host \<and> port = 8927
           \<or> (\<exists>t. s = host @ CHR '':'' # t \<and> is_all_digits t \<and> strtoull t = unat port)))"
    (is "?l \<longleftrightarrow> ?r")
proof
  assume a: ?l
  then have ne: "s \<noteq> []" by (auto simp: parse_server_url_def)
  from a assms ne obtain host port_text where
    sp: "split_host_port (redact_url_userinfo s) s = Inr (host, port_text)" and h: "host \<noteq> []" "host \<noteq> ''[]''"
    by (auto simp: parse_server_url_def Let_def split: sum.splits if_splits)
  have ok: "host_ok host \<and> s = host @ (case port_text of None \<Rightarrow> [] | Some t \<Rightarrow> CHR '':'' # t)"
    using split_host_port_plain [OF ne _ sp h(1)] split_host_port_bracket [OF ne _ sp h(2)] by blast
  show ?r
  proof (cases port_text)
    case None
    then have "url = ''ws://'' @ host @ '':'' @ to_string (unat (8927 :: u16)) @ ''/sendspin''"
      using a assms ne sp h
      by (simp add: parse_server_url_def Let_def SENDSPIN_PATH_def DEFAULT_REMOTE_SERVER_PORT_def)
    moreover have "s = host" using ok None by simp
    ultimately show ?thesis using ok by (intro exI [of _ host] exI [of _ "8927 :: u16"]) simp
  next
    case (Some t)
    then obtain port where p: "parse_port t = Some port"
      using a assms ne sp h by (auto simp: parse_server_url_def Let_def split: option.splits)
    then have "url = ''ws://'' @ host @ '':'' @ to_string (unat port) @ ''/sendspin''"
      using a assms ne sp h Some by (simp add: parse_server_url_def Let_def SENDSPIN_PATH_def)
    then show ?thesis using ok p Some
      by (intro exI [of _ host] exI [of _ port]) (auto simp: parse_port_iff)
  qed
next
  assume ?r
  then obtain host and port :: u16 where h: "host_ok host" "0 < unat port"
      "url = ''ws://'' @ host @ '':'' @ to_string (unat port) @ ''/sendspin''"
    and s: "s = host \<and> port = 8927 \<or> (\<exists>t. s = host @ CHR '':'' # t \<and> is_all_digits t \<and> strtoull t = unat port)"
    by blast
  have hn: "host \<noteq> []" "host \<noteq> ''[]''" using h(1) by (auto simp: host_ok_def)
  show ?l
  proof (cases "s = host \<and> port = 8927")
    case True
    then show ?thesis using split_host_port_complete [OF h(1), of None] assms hn h(3)
      by (simp add: parse_server_url_def Let_def SENDSPIN_PATH_def DEFAULT_REMOTE_SERVER_PORT_def)
  next
    case False
    then obtain t where t: "s = host @ CHR '':'' # t" "is_all_digits t" "strtoull t = unat port" using s by blast
    then have "parse_port t = Some port" using h(2) unat_u16_le [of port] by (simp add: parse_port_iff)
    then show ?thesis using split_host_port_complete [OF h(1), of "Some t"] assms hn h(3) t
      by (simp add: parse_server_url_def Let_def SENDSPIN_PATH_def)
  qed
qed

text \<open>
  What \<open>-s\<close> accepts, exactly: a text with a scheme is taken unchanged when the scheme is \<open>ws\<close>
  or \<open>wss\<close> and something follows it; a text without one is a host, or a host, a colon and a port
  of 1 to 65535, where the host is bracketed or holds no colon, and its URL is the host on that port
  (8927 when none is written) at \<open>/sendspin\<close>. Everything else is refused with a message.
\<close>

lemma parse_server_url_accepts:
  "parse_server_url s = Inr url \<longleftrightarrow>
     (case find_str ''://'' s of
        Some e \<Rightarrow> take e s \<in> {''ws'', ''wss''} \<and> e + 3 \<noteq> length s \<and> url = s
      | None \<Rightarrow>
          (\<exists>host port. host_ok host \<and> 0 < unat (port :: u16)
             \<and> url = ''ws://'' @ host @ '':'' @ to_string (unat port) @ ''/sendspin''
             \<and> (s = host \<and> port = 8927
                \<or> (\<exists>t. s = host @ CHR '':'' # t \<and> is_all_digits t \<and> strtoull t = unat port))))"
proof (cases "find_str ''://'' s")
  case None
  then show ?thesis using parse_server_url_hosts [OF None] by simp
next
  case (Some e)
  then have "s \<noteq> []" by auto
  then show ?thesis using Some by (auto simp: parse_server_url_def substr_def Let_def)
qed

section \<open>Masking\<close>

lemma find_str_None_iff: "p \<noteq> [] \<Longrightarrow> find_str p s = None \<longleftrightarrow> (\<forall>i. \<not> starts_with p (drop i s))"
proof (induction s)
  case Nil
  then show ?case by (cases p) auto
next
  case (Cons x s)
  have "(\<forall>i. \<not> starts_with p (drop i (x # s))) \<longleftrightarrow> \<not> starts_with p (x # s) \<and> (\<forall>i. \<not> starts_with p (drop i s))"
    by (metis drop0 drop_Suc_Cons not0_implies_Suc)
  then show ?case using Cons by simp
qed

lemma starts_with_prefix: "length p \<le> length a \<Longrightarrow> starts_with p (a @ b) \<longleftrightarrow> starts_with p a"
  by (simp add: starts_with_take)

lemma find_str_prefix:
  "p \<noteq> [] \<Longrightarrow> find_str p (a @ b) = Some i \<Longrightarrow> i + length p \<le> length a \<Longrightarrow> find_str p (a @ c) = Some i"
proof (induction a arbitrary: i)
  case (Cons x a)
  show ?case
  proof (cases "length p \<le> length (x # a)")
    case True
    then have sw: "starts_with p (x # a @ d) = starts_with p (x # a)" for d
      using starts_with_prefix [of p "x # a" d] by simp
    show ?thesis using Cons.prems Cons.IH [of "i - 1"]
      by (cases i) (auto simp: sw split: if_splits)
  next
    case False
    then show ?thesis using Cons.prems(3) by simp
  qed
qed simp

text \<open>
  Where a parser reads the userinfo of a URL: after the scheme, up to the last \<open>@\<close> of the authority,
  which a \<open>/\<close>, \<open>?\<close> or \<open>#\<close> ends.
\<close>

definition URL_ENDS :: string where "URL_ENDS = ''/?#''"

definition url_begin :: "string \<Rightarrow> nat" where
  "url_begin url = (case find_str ''://'' url of None \<Rightarrow> 0 | Some e \<Rightarrow> e + 3)"

definition authority_of :: "string \<Rightarrow> string" where
  "authority_of s = takeWhile (\<lambda>c. c \<notin> set URL_ENDS) s"

definition code_parts :: "string \<Rightarrow> string \<Rightarrow> string \<Rightarrow> string \<Rightarrow> bool" where
  "code_parts url p userinfo rest \<longleftrightarrow>
     url = p @ userinfo @ CHR ''@'' # rest \<and> length p = url_begin url
     \<and> set userinfo \<inter> set URL_ENDS = {} \<and> CHR ''@'' \<notin> set (authority_of rest)"

definition masked :: "string \<Rightarrow> string" where
  "masked userinfo =
     (case find_char CHR '':'' userinfo of
        None \<Rightarrow> if userinfo = [] then [] else USERINFO_MASK
      | Some colon \<Rightarrow> if colon + 1 = length userinfo then userinfo
                     else take (colon + 1) userinfo @ USERINFO_MASK)"

lemma url_begin_le: "url_begin url \<le> length url"
proof (cases "find_str ''://'' url")
  case (Some e)
  then obtain t where "drop e url = ''://'' @ t" "e \<le> length url"
    using find_str_SomeD [OF Some] by (auto simp: starts_with_iff)
  then have "length url - e = 3 + length t" by (metis length_append length_drop length_Cons list.size(3) numeral_3_eq_3)
  then show ?thesis using Some by (simp add: url_begin_def)
qed (simp add: url_begin_def)

lemma find_first_of_takeWhile:
  "(case find_first_of cs s of None \<Rightarrow> s | Some n \<Rightarrow> take n s) = takeWhile (\<lambda>c. c \<notin> set cs) s"
  by (induction s) (auto split: option.splits)

lemma find_last_char_hit: "c \<notin> set t \<Longrightarrow> find_last_char c (s @ c # t) = Some (length s)"
  by (simp add: find_last_char_def)

lemma authority_at:
  "set u \<inter> set URL_ENDS = {} \<Longrightarrow> authority_of (u @ CHR ''@'' # t) = u @ CHR ''@'' # authority_of t"
  by (induction u) (auto simp: authority_of_def URL_ENDS_def)

lemma redact_authority:
  "redact_url_userinfo url =
     (case find_last_char CHR ''@'' (authority_of (drop (url_begin url) url)) of
        None \<Rightarrow> url
      | Some at \<Rightarrow>
          (let userinfo = take at (authority_of (drop (url_begin url) url)) in
           take (url_begin url) url @ masked userinfo @ drop (url_begin url + at) url))"
proof -
  have a: "(case find_first_of ''/?#'' (drop (url_begin url) url) of
      None \<Rightarrow> drop (url_begin url) url | Some n \<Rightarrow> substr url (url_begin url) n) = authority_of (drop (url_begin url) url)"
    unfolding authority_of_def substr_def URL_ENDS_def [symmetric] by (rule find_first_of_takeWhile)
  show ?thesis
  proof (cases "find_last_char CHR ''@'' (authority_of (drop (url_begin url) url))")
    case None
    then show ?thesis unfolding redact_url_userinfo_def a [folded url_begin_def] url_begin_def [symmetric] Let_def a
      by simp
  next
    case (Some at)
    let ?a = "authority_of (drop (url_begin url) url)"
    have l: "at < length ?a" using find_last_char_SomeD [OF Some] by blast
    obtain rest where rest: "drop (url_begin url) url = ?a @ rest"
      using takeWhile_dropWhile_id [of "\<lambda>c. c \<notin> set URL_ENDS" "drop (url_begin url) url"]
      unfolding authority_of_def by metis
    have "take at (drop (url_begin url) url) = take at ?a" using arg_cong [OF rest, of "take at"] l by simp
    then have whole: "take (url_begin url) url @ take at ?a @ drop (url_begin url + at) url = url"
      by (metis add.commute append_take_drop_id drop_drop)
    show ?thesis using Some l whole
      unfolding redact_url_userinfo_def url_begin_def [symmetric] Let_def a
      by (auto simp: masked_def substr_def split: option.split)
  qed
qed

lemma redact_parts:
  assumes "code_parts url p u t"
  shows "redact_url_userinfo url = p @ masked u @ CHR ''@'' # t"
proof -
  have u: "url = p @ u @ CHR ''@'' # t" "url_begin url = length p" using assms by (auto simp: code_parts_def)
  have a: "authority_of (drop (length p) url) = u @ CHR ''@'' # authority_of t"
    using assms u by (simp add: authority_at code_parts_def)
  have "find_last_char CHR ''@'' (authority_of (drop (length p) url)) = Some (length u)"
    using assms unfolding a by (intro find_last_char_hit) (simp add: code_parts_def)
  then show ?thesis unfolding redact_authority u(2) a by (simp add: u(1) Let_def)
qed

lemma parts_or_unchanged:
  "(\<exists>p u t. code_parts url p u t) \<or> redact_url_userinfo url = url"
proof (cases "find_last_char CHR ''@'' (authority_of (drop (url_begin url) url))")
  case None
  then show ?thesis by (simp add: redact_authority)
next
  case (Some at)
  let ?d = "drop (url_begin url) url"
  let ?a = "authority_of ?d"
  have l: "at < length ?a" "?a ! at = CHR ''@''" "CHR ''@'' \<notin> set (drop (Suc at) ?a)"
    using find_last_char_SomeD [OF Some] by auto
  obtain rest where r: "?d = ?a @ rest"
    using takeWhile_dropWhile_id [of "\<lambda>c. c \<notin> set URL_ENDS" ?d] unfolding authority_of_def by metis
  let ?u = "take at ?a" and ?t = "drop (Suc at) ?a @ rest"
  have "?a = ?u @ CHR ''@'' # drop (Suc at) ?a" using l by (metis id_take_nth_drop)
  then have d: "?d = ?u @ CHR ''@'' # ?t" using r by (metis append.assoc append_Cons)
  have ua: "set ?a \<inter> set URL_ENDS = {}" by (auto simp: authority_of_def dest: set_takeWhileD)
  have bl: "url_begin url \<le> length url" by (rule url_begin_le)
  have su: "set ?u \<inter> set URL_ENDS = {}" using ua by (meson disjoint_iff in_set_takeD)
  have "?a = ?u @ CHR ''@'' # authority_of ?t" using authority_at [OF su, of ?t] d by simp
  then have "authority_of ?t = drop (Suc at) ?a"
    using \<open>?a = ?u @ CHR ''@'' # drop (Suc at) ?a\<close> by (metis list.inject same_append_eq)
  then have "code_parts url (take (url_begin url) url) ?u ?t"
    using l(3) su bl unfolding code_parts_def d [symmetric] append_take_drop_id by simp
  then show ?thesis by blast
qed

lemma masked_chars: "set (masked u) \<subseteq> set u \<union> {CHR ''*''}"
  by (auto simp: masked_def USERINFO_MASK_def split: option.splits dest: in_set_takeD)

lemma masked_idem: "masked (masked u) = masked u"
proof (cases "find_char CHR '':'' u")
  case None
  then show ?thesis by (simp add: masked_def USERINFO_MASK_def)
next
  case (Some c)
  have "c < length u" using find_char_SomeD [OF Some] by simp
  moreover have "find_char CHR '':'' (take (Suc c) u @ x) = Some c" for x
  proof -
    have "CHR '':'' \<in> set (take (Suc c) u)" using find_char_take [OF Some] by (metis find_char_None option.distinct(1))
    then show ?thesis using find_char_take [OF Some] by (simp add: find_char_append_in)
  qed
  ultimately show ?thesis using Some by (simp add: masked_def USERINFO_MASK_def)
qed

lemma no_scheme_masked:
  assumes "find_str ''://'' (u @ CHR ''@'' # t) = None" "CHR ''/'' \<notin> set v"
  shows "find_str ''://'' (v @ CHR ''@'' # t) = None"
proof -
  have "\<not> starts_with ''://'' (drop i (v @ CHR ''@'' # t))" for i
  proof (cases "i < length v")
    case True
    then have d: "drop i (v @ CHR ''@'' # t) = drop i v @ CHR ''@'' # t" by simp
    have "CHR ''/'' \<notin> set (drop i v)" using assms(2) in_set_dropD by metis
    moreover have "drop i v \<noteq> []" using True by simp
    ultimately show ?thesis unfolding d
      by (cases "drop i v" rule: list.exhaust; cases "tl (drop i v)") auto
  next
    case False
    then obtain j where "i = length v + j" using le_Suc_ex not_less by blast
    then have "drop i (v @ CHR ''@'' # t) = drop (length u + j) (u @ CHR ''@'' # t)" by simp
    then show ?thesis using assms(1) find_str_None_iff [of "''://''"] by (metis list.distinct(1))
  qed
  then show ?thesis using find_str_None_iff [of "''://''"] by blast
qed

lemma masked_parts:
  assumes "code_parts url p u t"
  shows "code_parts (p @ masked u @ CHR ''@'' # t) p (masked u) t"
proof -
  have u: "url = p @ u @ CHR ''@'' # t" "length p = url_begin url" "set u \<inter> set URL_ENDS = {}"
    using assms by (auto simp: code_parts_def)
  have m: "set (masked u) \<inter> set URL_ENDS = {}" using masked_chars [of u] u(3) by (auto simp: URL_ENDS_def)
  have "url_begin (p @ masked u @ CHR ''@'' # t) = length p"
  proof (cases "find_str ''://'' url")
    case None
    then have "p = []" using u(2) by (simp add: url_begin_def)
    moreover have "CHR ''/'' \<notin> set (masked u)" using m by (auto simp: URL_ENDS_def)
    ultimately show ?thesis using None u(1) no_scheme_masked [of u t "masked u"] by (simp add: url_begin_def)
  next
    case (Some e)
    then have "length p = e + 3" using u(2) by (simp add: url_begin_def)
    moreover have "find_str ''://'' (p @ masked u @ CHR ''@'' # t) = Some e"
      using find_str_prefix [of "''://''" p "u @ CHR ''@'' # t" e] Some u(1) calculation by simp
    ultimately show ?thesis by (simp add: url_begin_def)
  qed
  then show ?thesis using m assms by (simp add: code_parts_def)
qed

section \<open>What a URL's credentials are\<close>

text \<open>
  The reading \<^verbatim>\<open>cli.h\<close> promises, stated without the code's search: a scheme is a letter followed
  by letters, digits, \<open>+\<close>, \<open>-\<close> or \<open>.\<close>, and ends at \<open>://\<close>; a value without one is a bare authority; the
  authority ends at the first of \<open>/?#\<close>, and its userinfo at the last \<open>@\<close> in it.
\<close>

definition SCHEME_LETTERS :: string where
  "SCHEME_LETTERS = ''abcdefghijklmnopqrstuvwxyzABCDEFGHIJKLMNOPQRSTUVWXYZ''"

definition SCHEME_CHARS :: string where
  "SCHEME_CHARS = SCHEME_LETTERS @ ''0123456789+-.''"

definition url_scheme :: "string \<Rightarrow> string option" where
  "url_scheme url =
     (let s = takeWhile (\<lambda>c. c \<in> set SCHEME_CHARS) url
      in if s \<noteq> [] \<and> hd s \<in> set SCHEME_LETTERS \<and> take 3 (drop (length s) url) = ''://''
         then Some s else None)"

definition scheme_part :: "string \<Rightarrow> string" where
  "scheme_part url = (case url_scheme url of None \<Rightarrow> [] | Some s \<Rightarrow> s @ ''://'')"

definition url_parts :: "string \<Rightarrow> string \<Rightarrow> string \<Rightarrow> string \<Rightarrow> bool" where
  "url_parts url p userinfo rest \<longleftrightarrow>
     p = scheme_part url \<and> url = p @ userinfo @ CHR ''@'' # rest
     \<and> set userinfo \<inter> set ''/?#'' = {}
     \<and> CHR ''@'' \<notin> set (takeWhile (\<lambda>c. c \<notin> set ''/?#'') rest)"

text \<open>A \<open>://\<close> that no scheme comes before: in a path or a query of a bare authority, say.\<close>

definition stray_separator :: "string \<Rightarrow> bool" where
  "stray_separator url \<longleftrightarrow> url_scheme url = None \<and> find_str ''://'' url \<noteq> None"

lemma find_separator: "CHR '':'' \<notin> set s \<Longrightarrow> find_str ''://'' (s @ ''://'' @ t) = Some (length s)"
  by (induction s) auto

lemma url_scheme_begin:
  assumes "url_scheme url = Some s"
  shows "url_begin url = length s + 3"
proof -
  have s: "s = takeWhile (\<lambda>c. c \<in> set SCHEME_CHARS) url" "take 3 (drop (length s) url) = ''://''"
    using assms by (auto simp: url_scheme_def Let_def split: if_splits)
  have "url = s @ drop (length s) url"
    by (metis s(1) takeWhile_dropWhile_id dropWhile_eq_drop)
  moreover have "drop (length s) url = ''://'' @ drop 3 (drop (length s) url)"
    using s(2) append_take_drop_id [of 3 "drop (length s) url"] by simp
  ultimately have u: "url = s @ ''://'' @ drop 3 (drop (length s) url)" by metis
  have "set s \<subseteq> set SCHEME_CHARS" unfolding s(1) by (auto dest: set_takeWhileD)
  moreover have "CHR '':'' \<notin> set SCHEME_CHARS" by (simp add: SCHEME_CHARS_def SCHEME_LETTERS_def)
  ultimately have "CHR '':'' \<notin> set s" by blast
  then have "find_str ''://'' url = Some (length s)" by (subst u) (rule find_separator)
  then show ?thesis by (simp add: url_begin_def)
qed

lemma scheme_part_begin: "\<not> stray_separator url \<Longrightarrow> length (scheme_part url) = url_begin url"
proof (cases "url_scheme url")
  case None
  moreover assume "\<not> stray_separator url"
  ultimately have "find_str ''://'' url = None" by (simp add: stray_separator_def)
  then show ?thesis using None by (simp add: scheme_part_def url_begin_def)
qed (simp add: scheme_part_def url_scheme_begin)

lemma parts_agree:
  assumes "\<not> stray_separator url"
  shows "code_parts url p u t \<longleftrightarrow> url_parts url p u t"
proof
  assume "url_parts url p u t"
  then show "code_parts url p u t" using scheme_part_begin [OF assms]
    unfolding url_parts_def code_parts_def URL_ENDS_def authority_of_def by metis
next
  assume c: "code_parts url p u t"
  then have l: "length p = length (scheme_part url)" "url = p @ u @ CHR ''@'' # t"
    using scheme_part_begin [OF assms] by (auto simp: code_parts_def)
  have "take (length (scheme_part url)) url = scheme_part url"
  proof (cases "url_scheme url")
    case (Some s)
    then have s: "s = takeWhile (\<lambda>c. c \<in> set SCHEME_CHARS) url" "take 3 (drop (length s) url) = ''://''"
      by (auto simp: url_scheme_def Let_def split: if_splits)
    have "take (length s) url = s" unfolding s(1) by (simp add: takeWhile_eq_take [symmetric])
    then show ?thesis using Some s(2) take_add [of "length s" 3 url] by (simp add: scheme_part_def eval_nat_numeral)
  qed (simp add: scheme_part_def)
  moreover have "take (length (scheme_part url)) url = p" using l by (metis append_eq_conv_conj)
  ultimately have "p = scheme_part url" by metis
  then show "url_parts url p u t" using c
    unfolding url_parts_def code_parts_def URL_ENDS_def authority_of_def by metis
qed

text \<open>With a stray \<open>://\<close> the search starts behind it, so the userinfo in front is out of its sight.\<close>

lemma stray_separator_shows:
  assumes "stray_separator url" "url_parts url p u t"
  shows "\<exists>t'. redact_url_userinfo url = u @ CHR ''@'' # t'"
proof -
  have u: "url = u @ CHR ''@'' # t" "CHR ''/'' \<notin> set u"
    using assms by (auto simp: url_parts_def stray_separator_def scheme_part_def)
  obtain e where e: "find_str ''://'' url = Some e" using assms(1) by (auto simp: stray_separator_def)
  obtain v where v: "drop e url = ''://'' @ v" "e \<le> length url"
    using find_str_SomeD [OF e] by (auto simp: starts_with_iff)
  have n: "url ! e = CHR '':''" "url ! Suc e = CHR ''/''" "Suc e < length url"
  proof -
    show "Suc e < length url" using arg_cong [OF v(1), of length] v(2) by simp
    then show "url ! e = CHR '':''" "url ! Suc e = CHR ''/''"
      using arg_cong [OF v(1), of "\<lambda>l. l ! 0"] arg_cong [OF v(1), of "\<lambda>l. l ! 1"] by simp_all
  qed
  have "\<not> e \<le> length u"
  proof
    assume le: "e \<le> length u"
    consider "e = length u" | "Suc e = length u" | "Suc e < length u" using le by linarith
    then show False
    proof cases
      case 1
      then show False using n(1) unfolding u(1) by (simp add: nth_append)
    next
      case 2
      then show False using n(2) unfolding u(1) by (simp add: nth_append)
    next
      case 3
      then show False using n(2) u(2) nth_mem [OF 3] unfolding u(1) by (simp add: nth_append)
    qed
  qed
  then have b: "Suc (length u) \<le> url_begin url" using e by (simp add: url_begin_def)
  obtain k where k: "url_begin url = Suc (length u) + k" using b le_Suc_ex by blast
  have "take (url_begin url) url = u @ CHR ''@'' # take k t"
    unfolding k by (subst u(1)) simp
  moreover have "\<exists>x. redact_url_userinfo url = take (url_begin url) url @ x"
  proof (cases "find_last_char CHR ''@'' (authority_of (drop (url_begin url) url))")
    case None
    then have "redact_url_userinfo url = take (url_begin url) url @ drop (url_begin url) url"
      unfolding redact_authority by simp
    then show ?thesis by blast
  next
    case (Some at)
    then show ?thesis unfolding redact_authority Let_def by auto
  qed
  ultimately show ?thesis by (metis append.assoc append_Cons)
qed

text \<open>
  C25. What a logged URL shows of its credentials, the userinfo being read as \<^verbatim>\<open>cli.h\<close> says: a scheme
  only where the value starts with one, a bare authority otherwise, no unencoded \<open>/\<close>, \<open>?\<close> or \<open>#\<close> in the
  userinfo. Unless a \<open>://\<close> follows a value without a scheme, of \<open>user:password\<close> the user name and
  three asterisks are shown, of a lone token the asterisks only, so two URLs that differ in the secret
  print alike whatever its length; everything outside the userinfo stands as it was and a URL without
  userinfo is unchanged. In the case left out (a \<open>://\<close> in the path or query of a value without a
  scheme) the masking fails: the whole userinfo is printed. Masking twice is masking once, always.
\<close>

theorem redaction_hides_the_secret:
  "(\<not> stray_separator url \<longrightarrow>
      (url_parts url p (user @ CHR '':'' # password) rest \<longrightarrow> CHR '':'' \<notin> set user \<longrightarrow> password \<noteq> [] \<longrightarrow>
         redact_url_userinfo url = p @ user @ '':***@'' @ rest)
      \<and> (url_parts url p token rest \<longrightarrow> CHR '':'' \<notin> set token \<longrightarrow> token \<noteq> [] \<longrightarrow>
         redact_url_userinfo url = p @ ''***@'' @ rest)
      \<and> ((\<forall>p u t. \<not> url_parts url p u t) \<longrightarrow> redact_url_userinfo url = url))
   \<and> (stray_separator url \<longrightarrow> url_parts url p userinfo rest \<longrightarrow>
        (\<exists>rest'. redact_url_userinfo url = userinfo @ CHR ''@'' # rest'))
   \<and> redact_url_userinfo (redact_url_userinfo url) = redact_url_userinfo url"
proof (intro conjI impI)
  assume "\<not> stray_separator url"
  note agree = parts_agree [OF this]
  { assume a: "url_parts url p (user @ CHR '':'' # password) rest" "CHR '':'' \<notin> set user" "password \<noteq> []"
    then show "redact_url_userinfo url = p @ user @ '':***@'' @ rest"
      using redact_parts [OF agree [THEN iffD2, OF a(1)]] by (simp add: masked_def USERINFO_MASK_def) }
  { assume a: "url_parts url p token rest" "CHR '':'' \<notin> set token" "token \<noteq> []"
    then show "redact_url_userinfo url = p @ ''***@'' @ rest"
      using redact_parts [OF agree [THEN iffD2, OF a(1)]] by (simp add: masked_def USERINFO_MASK_def) }
  { assume "\<forall>p u t. \<not> url_parts url p u t"
    then show "redact_url_userinfo url = url" using parts_or_unchanged [of url] agree by blast }
next
  assume "stray_separator url" "url_parts url p userinfo rest"
  then show "\<exists>rest'. redact_url_userinfo url = userinfo @ CHR ''@'' # rest'"
    by (rule stray_separator_shows)
next
  show "redact_url_userinfo (redact_url_userinfo url) = redact_url_userinfo url"
    using parts_or_unchanged [of url] redact_parts masked_parts masked_idem by metis
qed

theorem redaction_hides_the_secret_witness:
  "redact_url_userinfo ''ws://user:token@host:8927/sendspin'' = ''ws://user:***@host:8927/sendspin''
   \<and> redact_url_userinfo ''user:token@host:8927'' = ''user:***@host:8927''
   \<and> (\<exists>t. redact_url_userinfo ''user:secret@host/?next=http://x'' = ''user:secret@'' @ t)"
proof (intro conjI)
  have "url_parts ''ws://user:token@host:8927/sendspin'' ''ws://'' (''user'' @ CHR '':'' # ''token'') ''host:8927/sendspin''"
    "\<not> stray_separator ''ws://user:token@host:8927/sendspin''" by code_simp+
  then show "redact_url_userinfo ''ws://user:token@host:8927/sendspin'' = ''ws://user:***@host:8927/sendspin''"
    using redaction_hides_the_secret [of "''ws://user:token@host:8927/sendspin''" "''ws://''" "''user''" "''token''"
        "''host:8927/sendspin''" "[]" "[]"] by simp
  have "url_parts ''user:token@host:8927'' [] (''user'' @ CHR '':'' # ''token'') ''host:8927''"
    "\<not> stray_separator ''user:token@host:8927''" by code_simp+
  then show "redact_url_userinfo ''user:token@host:8927'' = ''user:***@host:8927''"
    using redaction_hides_the_secret [of "''user:token@host:8927''" "[]" "''user''" "''token''"
        "''host:8927''" "[]" "[]"] by simp
  have "url_parts ''user:secret@host/?next=http://x'' [] ''user:secret'' ''host/?next=http://x''"
    "stray_separator ''user:secret@host/?next=http://x''" by code_simp+
  then show "\<exists>t. redact_url_userinfo ''user:secret@host/?next=http://x'' = ''user:secret@'' @ t"
    using redaction_hides_the_secret [of "''user:secret@host/?next=http://x''" "[]" "[]" "[]"
        "''host/?next=http://x''" "[]" "''user:secret''"] by simp
qed

text \<open>
  The refusal of a scheme quotes the text before \<open>://\<close> as it is; a value without a scheme but with
  a \<open>://\<close> further along has its credentials there.
\<close>

lemma scheme_refusal_shows_the_password:
  "parse_server_url ''user:secret@host/?next=http://x'' =
     Inl (''-s '' @ quoted ''user:secret@host/?next=http://x'' @
          '': Sendspin runs over WebSocket, so the scheme must be ws:// or wss://, not user:secret@host/?next=http://'')"
  by code_simp

end
