(* ===== verification/CliOptions.thy ===== *)
theory CliOptions
  imports Complex_Main ServerUrl ConfigFile ControlWire SupportedFormats DeviceSpec
begin

text \<open>
  \<^verbatim>\<open>src/src/cli.{h,cpp}\<close>: the options, the one function that applies a value to them, the config
  file layered under the command line, and \<open>parse_options\<close> from the words of the command line to
  the options the program runs with. The record \<open>cli_host\<close> holds what the code reads outside the
  repository: the build's flags, the environment, the files, the working directory, the host name,
  \<^verbatim>\<open>strtod\<close> and \<^verbatim>\<open>getopt_long\<close>, whose answers are the sequence of options it hands to the
  switch and the words it leaves. A finite \<^verbatim>\<open>double\<close> is the rational number it denotes. What the
  code prints is a list of lines.
\<close>

section \<open>The options\<close>

datatype opt =
  OptDevice | OptInputDevice | OptPlayerEnabled | OptSourceEnabled | OptLineSense
   | OptLineSenseDbfs | OptLineSenseAttackMs | OptLineSenseReleaseMs | OptSourceStreamStyle
   | OptListDevices | OptName | OptServer | OptDaemonize | OptPidfile | OptLogfile
   | OptLogLevel | OptPort | OptBufferMs | OptStaticDelay | OptNoMdns | OptMdnsName
   | OptControlSocket | OptNoControl | OptStateDir | OptConfig | OptHookStart | OptHookStop
   | OptClientId | OptManufacturer | OptProductName | OptAudioFormat

fun opt_index :: "opt \<Rightarrow> nat" where
  "opt_index OptDevice = 0"
| "opt_index OptInputDevice = 1"
| "opt_index OptPlayerEnabled = 2"
| "opt_index OptSourceEnabled = 3"
| "opt_index OptLineSense = 4"
| "opt_index OptLineSenseDbfs = 5"
| "opt_index OptLineSenseAttackMs = 6"
| "opt_index OptLineSenseReleaseMs = 7"
| "opt_index OptSourceStreamStyle = 8"
| "opt_index OptListDevices = 9"
| "opt_index OptName = 10"
| "opt_index OptServer = 11"
| "opt_index OptDaemonize = 12"
| "opt_index OptPidfile = 13"
| "opt_index OptLogfile = 14"
| "opt_index OptLogLevel = 15"
| "opt_index OptPort = 16"
| "opt_index OptBufferMs = 17"
| "opt_index OptStaticDelay = 18"
| "opt_index OptNoMdns = 19"
| "opt_index OptMdnsName = 20"
| "opt_index OptControlSocket = 21"
| "opt_index OptNoControl = 22"
| "opt_index OptStateDir = 23"
| "opt_index OptConfig = 24"
| "opt_index OptHookStart = 25"
| "opt_index OptHookStop = 26"
| "opt_index OptClientId = 27"
| "opt_index OptManufacturer = 28"
| "opt_index OptProductName = 29"
| "opt_index OptAudioFormat = 30"

datatype log_level = LogNone | LogError | LogWarn | LogInfo | LogDebug | LogVerbose

record options =
  op_device :: string
  op_input_device :: string
  op_player_enabled :: bool
  op_source_enabled :: bool
  op_line_sense :: bool
  op_line_sense_dbfs :: rat
  op_line_sense_attack_ms :: u32
  op_line_sense_release_ms :: u32
  op_source_stream_style :: string
  op_list_devices :: bool
  op_name :: string
  op_client_id :: string
  op_manufacturer :: string
  op_product_name :: string
  op_server :: string
  op_daemonize :: bool
  op_pidfile :: string
  op_logfile :: string
  op_log_level :: log_level
  op_port :: u16
  op_buffer_ms :: u32
  op_static_delay_ms :: u16
  op_no_mdns :: bool
  op_mdns_name :: string
  op_no_control :: bool
  op_hook_start :: string
  op_hook_stop :: string
  op_audio_format :: "supported_format option"
  op_state_dir :: string
  op_config_path :: string
  op_show_help :: bool
  op_show_version :: bool
  op_control_socket :: string
  op_control_absent_reason :: string
  op_subcommand :: string
  op_subcommand_args :: "string list"
  op_server_url :: string
  op_discover :: bool
  op_discover_name :: string
  op_given :: u32

definition opt_bit :: "opt \<Rightarrow> u32" where "opt_bit k = push_bit (opt_index k) 1"

definition was_given :: "options \<Rightarrow> opt \<Rightarrow> bool" where
  "was_given out k \<longleftrightarrow> and (op_given out) (opt_bit k) \<noteq> 0"

definition mark_given :: "opt \<Rightarrow> options \<Rightarrow> options" where
  "mark_given k out = out\<lparr>op_given := or (op_given out) (opt_bit k)\<rparr>"

definition advertises :: "options \<Rightarrow> bool" where
  "advertises out \<longleftrightarrow> \<not> op_no_mdns out \<and> \<not> was_given out OptServer"

definition MIN_BUFFER_MS :: u32 where "MIN_BUFFER_MS = 10"
definition MAX_BUFFER_MS :: u32 where "MAX_BUFFER_MS = 2000"
definition DEFAULT_BUFFER_MS :: u32 where "DEFAULT_BUFFER_MS = 100"
definition MIN_LINE_SENSE_DBFS :: rat where "MIN_LINE_SENSE_DBFS = - 120"
definition MAX_LINE_SENSE_DBFS :: rat where "MAX_LINE_SENSE_DBFS = 0"
definition MAX_LINE_SENSE_WINDOW_MS :: u32 where "MAX_LINE_SENSE_WINDOW_MS = 600000"
definition DEFAULT_SERVER_PORT :: u16 where "DEFAULT_SERVER_PORT = 8928"
definition FALLBACK_NAME :: string where "FALLBACK_NAME = ''sendspin-cli''"

section \<open>What the code reads outside\<close>

datatype long_only =
  OPT_VERSION | OPT_PORT | OPT_BUFFER_MS | OPT_STATIC_DELAY | OPT_NO_MDNS | OPT_MDNS_NAME
| OPT_CONTROL_SOCKET | OPT_NO_CONTROL | OPT_STATE_DIR | OPT_PLAYER_ENABLED | OPT_SOURCE_ENABLED
| OPT_LINE_SENSE | OPT_LINE_SENSE_DBFS | OPT_LINE_SENSE_ATTACK_MS | OPT_LINE_SENSE_RELEASE_MS
| OPT_SOURCE_STREAM_STYLE | OPT_CONFIG | OPT_HOOK_START | OPT_HOOK_STOP | OPT_ID
| OPT_MANUFACTURER | OPT_PRODUCT_NAME | OPT_AUDIO_FORMAT

datatype flag_code = Short char | Long long_only

datatype has_arg = no_argument | required_argument

type_synonym long_option = "string \<times> has_arg \<times> flag_code"

text \<open>
  One return of \<^verbatim>\<open>getopt_long\<close>: an option with its \<^verbatim>\<open>optarg\<close>, \<^verbatim>\<open>':'\<close> or \<^verbatim>\<open>'?'\<close>, the last two with
  \<^verbatim>\<open>optopt\<close> and the word before \<^verbatim>\<open>optind\<close>.
\<close>

datatype getopt_event =
  GotOption flag_code string
| GotMissing "char option" string
| GotUnknown "char option" string

record cli_host =
  h_flags :: build_flags
  h_source :: bool
  h_mdns :: bool
  h_env :: environment
  h_files :: file_system
  h_runtime :: runtime_host
  h_strtod :: "string \<Rightarrow> rat option \<times> string"
  h_cwd :: "string option"
  h_hostname :: "string option"
  h_getopt :: "string \<Rightarrow> long_option list \<Rightarrow> string list \<Rightarrow> getopt_event list \<times> string list"

definition DEFAULT_OUTPUT_DEVICE :: "build_flags \<Rightarrow> string" where
  "DEFAULT_OUTPUT_DEVICE b =
     (if have_alsa b then ''default'' else if have_portaudio b then ''portaudio''
      else if have_pulse b then ''pulse'' else if have_pipewire b then ''pipewire'' else ''null'')"

definition default_options :: "cli_host \<Rightarrow> options" where
  "default_options h =
     \<lparr>op_device = DEFAULT_OUTPUT_DEVICE (h_flags h), op_input_device = ''default'',
      op_player_enabled = True, op_source_enabled = (h_source h \<and> have_alsa (h_flags h)),
      op_line_sense = True, op_line_sense_dbfs = - 50, op_line_sense_attack_ms = 300,
      op_line_sense_release_ms = 5000, op_source_stream_style = ''legacy'', op_list_devices = False,
      op_name = [], op_client_id = [], op_manufacturer = ''sendspin-cpp-cli'',
      op_product_name = ''sendspin-cli'', op_server = [], op_daemonize = False, op_pidfile = [],
      op_logfile = [], op_log_level = LogInfo, op_port = DEFAULT_SERVER_PORT,
      op_buffer_ms = DEFAULT_BUFFER_MS, op_static_delay_ms = 0, op_no_mdns = False, op_mdns_name = [],
      op_no_control = False, op_hook_start = [], op_hook_stop = [], op_audio_format = None,
      op_state_dir = [], op_config_path = [], op_show_help = False, op_show_version = False,
      op_control_socket = [], op_control_absent_reason = [], op_subcommand = [],
      op_subcommand_args = [], op_server_url = [], op_discover = False, op_discover_name = [],
      op_given = 0\<rparr>"

text \<open>A small host: no device library, no environment, one working directory.\<close>

definition plain_host :: "file_system \<Rightarrow> getopt_event list \<Rightarrow> cli_host" where
  "plain_host files events =
     \<lparr>h_flags = \<lparr>have_alsa = False, have_portaudio = False, have_pulse = False, have_pipewire = False\<rparr>,
      h_source = False, h_mdns = True, h_env = (\<lambda>_. None), h_files = files,
      h_runtime = \<lparr>rt_apple = False, rt_confstr = None, rt_stat = (\<lambda>_. Inl ''no such file''),
        rt_euid = 0, rt_sun_path = 108\<rparr>,
      h_strtod = (\<lambda>s. (Some 0, [])), h_cwd = Some ''/home/op'', h_hostname = Some ''box'',
      h_getopt = (\<lambda>_ _ _. (events, []))\<rparr>"

section \<open>One value\<close>

record settable_option =
  so_opt :: opt
  so_key :: string
  so_flag :: string

abbreviation setting :: "opt \<Rightarrow> string \<Rightarrow> string \<Rightarrow> settable_option" where
  "setting k n f \<equiv> \<lparr>so_opt = k, so_key = n, so_flag = f\<rparr>"

definition settable_options :: "settable_option list" where
  "settable_options =
     [setting OptDevice ''output'' ''-o'',
      setting OptInputDevice ''input'' ''-i'',
      setting OptPlayerEnabled ''player-enabled'' ''--player-enabled'',
      setting OptSourceEnabled ''source-enabled'' ''--source-enabled'',
      setting OptLineSense ''line-sense'' ''--line-sense'',
      setting OptLineSenseDbfs ''line-sense-dbfs'' ''--line-sense-dbfs'',
      setting OptLineSenseAttackMs ''line-sense-attack-ms'' ''--line-sense-attack-ms'',
      setting OptLineSenseReleaseMs ''line-sense-release-ms'' ''--line-sense-release-ms'',
      setting OptSourceStreamStyle ''source-stream-style'' ''--source-stream-style'',
      setting OptName ''name'' ''-n'',
      setting OptServer ''server'' ''-s'',
      setting OptPidfile ''pidfile'' ''-P'',
      setting OptLogfile ''logfile'' ''-f'',
      setting OptLogLevel ''log-level'' ''-d'',
      setting OptPort ''port'' ''--port'',
      setting OptBufferMs ''buffer-ms'' ''--buffer-ms'',
      setting OptStaticDelay ''static-delay'' ''--static-delay'',
      setting OptNoMdns ''no-mdns'' ''--no-mdns'',
      setting OptMdnsName ''mdns-name'' ''--mdns-name'',
      setting OptControlSocket ''control-socket'' ''--control-socket'',
      setting OptNoControl ''no-control'' ''--no-control'',
      setting OptStateDir ''state-dir'' ''--state-dir'',
      setting OptHookStart ''hook-start'' ''--hook-start'',
      setting OptHookStop ''hook-stop'' ''--hook-stop'',
      setting OptClientId ''id'' ''--id'',
      setting OptManufacturer ''manufacturer'' ''--manufacturer'',
      setting OptProductName ''product-name'' ''--product-name'',
      setting OptAudioFormat ''audio-format'' ''--audio-format'']"

definition settable_option_for :: "opt \<Rightarrow> settable_option" where
  "settable_option_for k =
     (case find (\<lambda>s. so_opt s = k) settable_options of
        Some s \<Rightarrow> s
      | None \<Rightarrow> setting OptConfig [] ''an option with no config key'')"

definition parse_buffer_ms :: "string \<Rightarrow> u32 option" where
  "parse_buffer_ms str =
     (if \<not> is_all_digits str then None
      else let value = strtoull str in
        if value < unat MIN_BUFFER_MS \<or> value > unat MAX_BUFFER_MS then None else Some (of_nat value))"

definition parse_static_delay :: "string \<Rightarrow> u16 option" where
  "parse_static_delay str =
     (if \<not> is_all_digits str then None
      else let value = strtoull str in if value > MAX_STATIC_DELAY_MS then None else Some (of_nat value))"

definition parse_line_sense_dbfs :: "(string \<Rightarrow> rat option \<times> string) \<Rightarrow> string \<Rightarrow> rat option" where
  "parse_line_sense_dbfs strtod str =
     (if str = [] then None
      else let (value, rest) = strtod (c_str str) in
        if rest = c_str str \<or> rest \<noteq> [] then None
        else case value of None \<Rightarrow> None
          | Some v \<Rightarrow> if v < MIN_LINE_SENSE_DBFS \<or> v > MAX_LINE_SENSE_DBFS then None else Some v)"

definition parse_line_sense_window_ms :: "string \<Rightarrow> u32 option" where
  "parse_line_sense_window_ms str =
     (if \<not> is_all_digits str then None
      else let value = strtoull str in
        if value > unat MAX_LINE_SENSE_WINDOW_MS then None else Some (of_nat value))"

definition offending_option :: "char option \<Rightarrow> string \<Rightarrow> string" where
  "offending_option optopt word =
     (let is_long = starts_with ''--'' word in
      case optopt of
        Some c \<Rightarrow> if \<not> is_long then [CHR ''-'', c] else word
      | None \<Rightarrow> word)"

definition parse_log_level :: "string \<Rightarrow> log_level option" where
  "parse_log_level str =
     (if str = ''none'' \<or> str = ''off'' then Some LogNone
      else if str = ''error'' \<or> str = ''err'' then Some LogError
      else if str = ''warn'' \<or> str = ''warning'' then Some LogWarn
      else if str = ''info'' then Some LogInfo
      else if str = ''debug'' then Some LogDebug
      else if str = ''verbose'' \<or> str = ''sdebug'' then Some LogVerbose
      else None)"

definition LOG_TAGS :: "string list" where
  "LOG_TAGS = [''cli'', ''audio'', ''mdns'', ''discovery'', ''outbound'', ''player'', ''metadata'',
     ''control'', ''hook'']"

text \<open>The level, and the lines printed when there is a stream to print on.\<close>

definition parse_log_spec :: "string \<Rightarrow> bool \<Rightarrow> log_level option \<times> string list" where
  "parse_log_spec text err =
     (let spec = c_str text in
      case find_char CHR ''='' spec of
        None \<Rightarrow> (parse_log_level spec, [])
      | Some eq \<Rightarrow>
          (case parse_log_level (drop (eq + 1) spec) of
             None \<Rightarrow> (None, [])
           | Some level \<Rightarrow>
               (Some level,
                if \<not> err then []
                else [''warning: -d category '' @ quoted (take eq spec) @
                      '' ignored -- this build has one global log level. Every line carries a tag ('' @
                      comma_list [] LOG_TAGS @ ''), so filter after the fact: '' @
                      ''-d debug 2>&1 | grep '' @ quoted '' mdns:''])))"

definition parse_bool :: "string \<Rightarrow> bool option" where
  "parse_bool value =
     (if value = ''true'' \<or> value = ''yes'' \<or> value = ''on'' \<or> value = ''1'' then Some True
      else if value = ''false'' \<or> value = ''no'' \<or> value = ''off'' \<or> value = ''0'' then Some False
      else None)"

end
