(* ===== verification/Cli.thy ===== *)
theory Cli
  imports CliOptions
begin

text \<open>
  The operations of \<^verbatim>\<open>src/src/cli.cpp\<close> on the options of \<open>CliOptions\<close>: the one door every value
  goes through, and the config file layered under the command line.
\<close>

section \<open>Definitions\<close>

text \<open>An optional value assigned, or the message of its absence.\<close>

definition parsed_value :: "'v option \<Rightarrow> ('v \<Rightarrow> options) \<Rightarrow> string \<Rightarrow> string + options" where
  "parsed_value parse assign message = (case parse of None \<Rightarrow> Inl message | Some v \<Rightarrow> Inr (assign v))"

text \<open>The assignment of \<open>apply_option\<close>'s switch: the message of a refusal, or the options changed.\<close>

definition assign_option :: "cli_host \<Rightarrow> settable_option \<Rightarrow> string \<Rightarrow> options \<Rightarrow> string + options" where
  "assign_option h option value out =
     (let non_empty = (\<lambda>assign. if value = [] then Inl (so_flag option @ '' needs a non-empty value'') else Inr (assign value))
      in case so_opt option of
      OptDevice \<Rightarrow> non_empty (\<lambda>v. out\<lparr>op_device := v\<rparr>)
    | OptInputDevice \<Rightarrow> non_empty (\<lambda>v. out\<lparr>op_input_device := v\<rparr>)
    | OptPlayerEnabled \<Rightarrow> parsed_value (parse_bool value) (\<lambda>v. out\<lparr>op_player_enabled := v\<rparr>)
        (''invalid --player-enabled '' @ quoted value @ '' -- expected true or false'')
    | OptSourceEnabled \<Rightarrow> parsed_value (parse_bool value) (\<lambda>v. out\<lparr>op_source_enabled := v\<rparr>)
        (''invalid --source-enabled '' @ quoted value @ '' -- expected true or false'')
    | OptLineSense \<Rightarrow> parsed_value (parse_bool value) (\<lambda>v. out\<lparr>op_line_sense := v\<rparr>)
        (''invalid --line-sense '' @ quoted value @ '' -- expected true or false'')
    | OptLineSenseDbfs \<Rightarrow> parsed_value (parse_line_sense_dbfs (h_strtod h) value) (\<lambda>v. out\<lparr>op_line_sense_dbfs := v\<rparr>)
        (''invalid --line-sense-dbfs '' @ quoted value @ '' -- expected -120 to 0'')
    | OptLineSenseAttackMs \<Rightarrow> parsed_value (parse_line_sense_window_ms value) (\<lambda>v. out\<lparr>op_line_sense_attack_ms := v\<rparr>)
        (''invalid --line-sense-attack-ms '' @ quoted value @ '' -- expected 0-'' @ to_string (unat MAX_LINE_SENSE_WINDOW_MS))
    | OptLineSenseReleaseMs \<Rightarrow> parsed_value (parse_line_sense_window_ms value) (\<lambda>v. out\<lparr>op_line_sense_release_ms := v\<rparr>)
        (''invalid --line-sense-release-ms '' @ quoted value @ '' -- expected 0-'' @ to_string (unat MAX_LINE_SENSE_WINDOW_MS))
    | OptSourceStreamStyle \<Rightarrow>
        if value \<noteq> ''legacy'' \<and> value \<noteq> ''spec''
        then Inl (''invalid --source-stream-style '' @ quoted value @ '' -- expected legacy or spec'')
        else Inr (out\<lparr>op_source_stream_style := value\<rparr>)
    | OptName \<Rightarrow> non_empty (\<lambda>v. out\<lparr>op_name := v\<rparr>)
    | OptServer \<Rightarrow> Inr (out\<lparr>op_server := value\<rparr>)
    | OptPidfile \<Rightarrow> non_empty (\<lambda>v. out\<lparr>op_pidfile := v\<rparr>)
    | OptLogfile \<Rightarrow> non_empty (\<lambda>v. out\<lparr>op_logfile := v\<rparr>)
    | OptLogLevel \<Rightarrow> parsed_value (fst (parse_log_spec value False)) (\<lambda>v. out\<lparr>op_log_level := v\<rparr>)
        (''unknown log level '' @ quoted value)
    | OptPort \<Rightarrow> parsed_value (parse_port value) (\<lambda>v. out\<lparr>op_port := v\<rparr>)
        (''invalid --port '' @ quoted value @ '' -- expected 1-65535'')
    | OptBufferMs \<Rightarrow> parsed_value (parse_buffer_ms value) (\<lambda>v. out\<lparr>op_buffer_ms := v\<rparr>)
        (''invalid --buffer-ms '' @ quoted value @ '' -- expected '' @ to_string (unat MIN_BUFFER_MS) @ ''-'' @ to_string (unat MAX_BUFFER_MS))
    | OptStaticDelay \<Rightarrow> parsed_value (parse_static_delay value) (\<lambda>v. out\<lparr>op_static_delay_ms := v\<rparr>)
        (''invalid --static-delay '' @ quoted value @ '' -- expected 0-'' @ to_string MAX_STATIC_DELAY_MS)
    | OptMdnsName \<Rightarrow> non_empty (\<lambda>v. out\<lparr>op_mdns_name := v\<rparr>)
    | OptControlSocket \<Rightarrow> non_empty (\<lambda>v. out\<lparr>op_control_socket := v\<rparr>)
    | OptStateDir \<Rightarrow> non_empty (\<lambda>v. out\<lparr>op_state_dir := v\<rparr>)
    | OptHookStart \<Rightarrow> non_empty (\<lambda>v. out\<lparr>op_hook_start := v\<rparr>)
    | OptHookStop \<Rightarrow> non_empty (\<lambda>v. out\<lparr>op_hook_stop := v\<rparr>)
    | OptClientId \<Rightarrow> non_empty (\<lambda>v. out\<lparr>op_client_id := v\<rparr>)
    | OptManufacturer \<Rightarrow> non_empty (\<lambda>v. out\<lparr>op_manufacturer := v\<rparr>)
    | OptProductName \<Rightarrow> non_empty (\<lambda>v. out\<lparr>op_product_name := v\<rparr>)
    | OptAudioFormat \<Rightarrow>
        (case parse_format_spec value of
           Inl reason \<Rightarrow> Inl (''invalid --audio-format '' @ quoted value @ '': '' @ reason)
         | Inr f \<Rightarrow> Inr (out\<lparr>op_audio_format := Some f\<rparr>))
    | OptNoMdns \<Rightarrow> parsed_value (parse_bool value) (\<lambda>v. out\<lparr>op_no_mdns := v\<rparr>)
        (''invalid --no-mdns '' @ quoted value @ '' -- expected true or false'')
    | OptNoControl \<Rightarrow> parsed_value (parse_bool value) (\<lambda>v. out\<lparr>op_no_control := v\<rparr>)
        (''invalid --no-control '' @ quoted value @ '' -- expected true or false'')
    | OptListDevices \<Rightarrow> Inl (''internal: '' @ so_flag option @ '' cannot be set this way'')
    | OptDaemonize \<Rightarrow> Inl (''internal: '' @ so_flag option @ '' cannot be set this way'')
    | OptConfig \<Rightarrow> Inl (''internal: '' @ so_flag option @ '' cannot be set this way''))"

definition apply_option :: "cli_host \<Rightarrow> settable_option \<Rightarrow> string \<Rightarrow> options \<Rightarrow> string + options" where
  "apply_option h option value out =
     (case assign_option h option value out of
        Inl e \<Rightarrow> Inl e
      | Inr out' \<Rightarrow> Inr (mark_given (so_opt option) out'))"

text \<open>What the same call prints when it has a stream to print on.\<close>

definition apply_prints :: "settable_option \<Rightarrow> string \<Rightarrow> string list" where
  "apply_prints option value = (if so_opt option = OptLogLevel then snd (parse_log_spec value True) else [])"

definition last_lines :: "key_value_entry list \<Rightarrow> string \<rightharpoonup> nat" where
  "last_lines entries = foldl (\<lambda>m e. m(kv_key e \<mapsto> kv_at e)) Map.empty entries"

definition find_setting :: "string \<Rightarrow> settable_option option" where
  "find_setting key = find (\<lambda>s. key = so_key s) settable_options"

type_synonym merge_result = "options \<times> (opt \<rightharpoonup> string) \<times> string list"

text \<open>
  \<open>merge_config\<close>: the options, where each merged value came from, and the lines printed, after the
  message of the error that stopped it if one did. A
  subcommand run applies two options only and validates the others into a scratch \<open>Options\<close>.
\<close>

fun merge_loop ::
  "cli_host \<Rightarrow> string \<Rightarrow> bool \<Rightarrow> (string \<rightharpoonup> nat) \<Rightarrow> key_value_entry list \<Rightarrow>
   options \<Rightarrow> (opt \<rightharpoonup> string) \<Rightarrow> string list \<Rightarrow> string \<times> merge_result + merge_result" where
  "merge_loop h path subcommand_run last_line [] out origin err = Inr (out, origin, err)"
| "merge_loop h path subcommand_run last_line (entry # entries) out origin err =
     (let place = path @ '':'' @ to_string (kv_at entry) @ '': '' in
      case find_setting (kv_key entry) of
        None \<Rightarrow> Inl (place @ ''unknown key '' @ quoted (kv_key entry), out, origin, err)
      | Some option \<Rightarrow>
          if last_line (kv_key entry) \<noteq> Some (kv_at entry)
          then merge_loop h path subcommand_run last_line entries out origin err
          else if was_given out (so_opt option)
          then merge_loop h path subcommand_run last_line entries out origin err
          else
            (let applies = (\<not> subcommand_run \<or> so_opt option = OptPort \<or> so_opt option = OptControlSocket) in
             case apply_option h option (kv_value entry) (if applies then out else default_options h) of
               Inl message \<Rightarrow> Inl (place @ message, out, origin, err)
             | Inr target \<Rightarrow>
                 if applies
                 then merge_loop h path subcommand_run last_line entries target
                        (origin(so_opt option \<mapsto> place)) (err @ apply_prints option (kv_value entry))
                 else merge_loop h path subcommand_run last_line entries out origin err))"

definition merge_config ::
  "cli_host \<Rightarrow> config_file \<Rightarrow> bool \<Rightarrow> options \<Rightarrow> string \<times> merge_result + merge_result" where
  "merge_config h config subcommand_run out =
     merge_loop h (config_path config) subcommand_run (last_lines (config_entries config))
       (config_entries config) out Map.empty []"

definition absolute_path :: "cli_host \<Rightarrow> string \<Rightarrow> string" where
  "absolute_path h path =
     (if path \<noteq> [] \<and> hd path = CHR ''/'' then path
      else case h_cwd h of None \<Rightarrow> path | Some cwd \<Rightarrow> cwd @ ''/'' @ path)"

definition default_client_name :: "cli_host \<Rightarrow> string" where
  "default_client_name h =
     (case h_hostname h of
        None \<Rightarrow> FALLBACK_NAME
      | Some hostname \<Rightarrow> (let name = c_str (take 255 hostname) in if name = [] then FALLBACK_NAME else name))"

section \<open>The options as a table\<close>

text \<open>Every option's value, and how the record's updates change the table.\<close>

datatype option_value =
  VText string | VBool bool | VRat rat | VN16 u16 | VN32 u32 | VLevel log_level
| VFormat "supported_format option"

fun field :: "opt \<Rightarrow> options \<Rightarrow> option_value" where
  "field OptDevice out = VText (op_device out)"
| "field OptInputDevice out = VText (op_input_device out)"
| "field OptPlayerEnabled out = VBool (op_player_enabled out)"
| "field OptSourceEnabled out = VBool (op_source_enabled out)"
| "field OptLineSense out = VBool (op_line_sense out)"
| "field OptLineSenseDbfs out = VRat (op_line_sense_dbfs out)"
| "field OptLineSenseAttackMs out = VN32 (op_line_sense_attack_ms out)"
| "field OptLineSenseReleaseMs out = VN32 (op_line_sense_release_ms out)"
| "field OptSourceStreamStyle out = VText (op_source_stream_style out)"
| "field OptListDevices out = VBool (op_list_devices out)"
| "field OptName out = VText (op_name out)"
| "field OptServer out = VText (op_server out)"
| "field OptDaemonize out = VBool (op_daemonize out)"
| "field OptPidfile out = VText (op_pidfile out)"
| "field OptLogfile out = VText (op_logfile out)"
| "field OptLogLevel out = VLevel (op_log_level out)"
| "field OptPort out = VN16 (op_port out)"
| "field OptBufferMs out = VN32 (op_buffer_ms out)"
| "field OptStaticDelay out = VN16 (op_static_delay_ms out)"
| "field OptNoMdns out = VBool (op_no_mdns out)"
| "field OptMdnsName out = VText (op_mdns_name out)"
| "field OptControlSocket out = VText (op_control_socket out)"
| "field OptNoControl out = VBool (op_no_control out)"
| "field OptStateDir out = VText (op_state_dir out)"
| "field OptConfig out = VText (op_config_path out)"
| "field OptHookStart out = VText (op_hook_start out)"
| "field OptHookStop out = VText (op_hook_stop out)"
| "field OptClientId out = VText (op_client_id out)"
| "field OptManufacturer out = VText (op_manufacturer out)"
| "field OptProductName out = VText (op_product_name out)"
| "field OptAudioFormat out = VFormat (op_audio_format out)"

lemma field_update [simp]:
  "field k (out\<lparr>op_device := v0\<rparr>) = (if k = OptDevice then VText v0 else field k out)"
  "field k (out\<lparr>op_input_device := v1\<rparr>) = (if k = OptInputDevice then VText v1 else field k out)"
  "field k (out\<lparr>op_player_enabled := v2\<rparr>) = (if k = OptPlayerEnabled then VBool v2 else field k out)"
  "field k (out\<lparr>op_source_enabled := v3\<rparr>) = (if k = OptSourceEnabled then VBool v3 else field k out)"
  "field k (out\<lparr>op_line_sense := v4\<rparr>) = (if k = OptLineSense then VBool v4 else field k out)"
  "field k (out\<lparr>op_line_sense_dbfs := v5\<rparr>) = (if k = OptLineSenseDbfs then VRat v5 else field k out)"
  "field k (out\<lparr>op_line_sense_attack_ms := v6\<rparr>) = (if k = OptLineSenseAttackMs then VN32 v6 else field k out)"
  "field k (out\<lparr>op_line_sense_release_ms := v7\<rparr>) = (if k = OptLineSenseReleaseMs then VN32 v7 else field k out)"
  "field k (out\<lparr>op_source_stream_style := v8\<rparr>) = (if k = OptSourceStreamStyle then VText v8 else field k out)"
  "field k (out\<lparr>op_list_devices := v9\<rparr>) = (if k = OptListDevices then VBool v9 else field k out)"
  "field k (out\<lparr>op_name := v10\<rparr>) = (if k = OptName then VText v10 else field k out)"
  "field k (out\<lparr>op_server := v11\<rparr>) = (if k = OptServer then VText v11 else field k out)"
  "field k (out\<lparr>op_daemonize := v12\<rparr>) = (if k = OptDaemonize then VBool v12 else field k out)"
  "field k (out\<lparr>op_pidfile := v13\<rparr>) = (if k = OptPidfile then VText v13 else field k out)"
  "field k (out\<lparr>op_logfile := v14\<rparr>) = (if k = OptLogfile then VText v14 else field k out)"
  "field k (out\<lparr>op_log_level := v15\<rparr>) = (if k = OptLogLevel then VLevel v15 else field k out)"
  "field k (out\<lparr>op_port := v16\<rparr>) = (if k = OptPort then VN16 v16 else field k out)"
  "field k (out\<lparr>op_buffer_ms := v17\<rparr>) = (if k = OptBufferMs then VN32 v17 else field k out)"
  "field k (out\<lparr>op_static_delay_ms := v18\<rparr>) = (if k = OptStaticDelay then VN16 v18 else field k out)"
  "field k (out\<lparr>op_no_mdns := v19\<rparr>) = (if k = OptNoMdns then VBool v19 else field k out)"
  "field k (out\<lparr>op_mdns_name := v20\<rparr>) = (if k = OptMdnsName then VText v20 else field k out)"
  "field k (out\<lparr>op_control_socket := v21\<rparr>) = (if k = OptControlSocket then VText v21 else field k out)"
  "field k (out\<lparr>op_no_control := v22\<rparr>) = (if k = OptNoControl then VBool v22 else field k out)"
  "field k (out\<lparr>op_state_dir := v23\<rparr>) = (if k = OptStateDir then VText v23 else field k out)"
  "field k (out\<lparr>op_config_path := v24\<rparr>) = (if k = OptConfig then VText v24 else field k out)"
  "field k (out\<lparr>op_hook_start := v25\<rparr>) = (if k = OptHookStart then VText v25 else field k out)"
  "field k (out\<lparr>op_hook_stop := v26\<rparr>) = (if k = OptHookStop then VText v26 else field k out)"
  "field k (out\<lparr>op_client_id := v27\<rparr>) = (if k = OptClientId then VText v27 else field k out)"
  "field k (out\<lparr>op_manufacturer := v28\<rparr>) = (if k = OptManufacturer then VText v28 else field k out)"
  "field k (out\<lparr>op_product_name := v29\<rparr>) = (if k = OptProductName then VText v29 else field k out)"
  "field k (out\<lparr>op_audio_format := v30\<rparr>) = (if k = OptAudioFormat then VFormat v30 else field k out)"
  by (cases k; simp)+

lemma field_given [simp]: "field k (out\<lparr>op_given := g\<rparr>) = field k out"
  by (cases k) simp_all

lemma field_mark [simp]: "field k (mark_given j out) = field k out"
  by (simp add: mark_given_def)

lemma opt_index_less: "opt_index k < 32"
  by (cases k) simp_all

lemma opt_index_inj: "opt_index j = opt_index k \<longleftrightarrow> j = k"
  by (cases j; cases k; simp)

lemma was_given_bit: "was_given out k \<longleftrightarrow> bit (op_given out) (opt_index k)"
  by (simp add: was_given_def opt_bit_def push_bit_of_1 and_exp_eq_0_iff_not_bit)

lemma was_given_mark [simp]: "was_given (mark_given j out) k \<longleftrightarrow> k = j \<or> was_given out k"
  using opt_index_less [of k] opt_index_inj [of j k]
  by (auto simp: was_given_bit mark_given_def opt_bit_def push_bit_of_1 bit_or_iff bit_exp_iff)

lemma was_given_default [simp]: "\<not> was_given (default_options h) k"
  by (simp add: was_given_bit default_options_def)

lemma was_given_cong: "op_given a = op_given b \<Longrightarrow> was_given a k = was_given b k"
  by (simp add: was_given_def)

lemmas assign_cases = assign_option_def parsed_value_def

lemma assign_given: "assign_option h s v out = Inr out' \<Longrightarrow> op_given out' = op_given out"
  by (cases "so_opt s") (auto simp: assign_cases Let_def split: if_splits option.splits sum.splits)

lemma assign_frame: "assign_option h s v out = Inr out' \<Longrightarrow> k \<noteq> so_opt s \<Longrightarrow> field k out' = field k out"
  by (cases "so_opt s") (auto simp: assign_cases Let_def split: if_splits option.splits sum.splits)

text \<open>What a value does does not depend on the options it is applied to.\<close>

lemma assign_uniform:
  "assign_option h s v a = Inr a' \<Longrightarrow>
     \<exists>b'. assign_option h s v b = Inr b' \<and> field (so_opt s) b' = field (so_opt s) a'"
  by (cases "so_opt s") (auto simp: assign_cases Let_def split: if_splits option.splits sum.splits)

lemma apply_frame:
  "apply_option h s v out = Inr out' \<Longrightarrow> k \<noteq> so_opt s \<Longrightarrow>
     field k out' = field k out \<and> (was_given out' k \<longleftrightarrow> was_given out k)"
  by (auto simp: apply_option_def assign_frame was_given_cong [OF assign_given] split: sum.splits)

lemma apply_marks: "apply_option h s v out = Inr out' \<Longrightarrow> was_given out' (so_opt s)"
  by (auto simp: apply_option_def split: sum.splits)

lemma apply_uniform:
  "apply_option h s v a = Inr a' \<Longrightarrow>
     \<exists>b'. apply_option h s v b = Inr b' \<and> field (so_opt s) b' = field (so_opt s) a'"
  using assign_uniform [of h s v a _ b] by (fastforce simp: apply_option_def split: sum.splits)

section \<open>The config file under the command line\<close>

lemma settable_keys: "distinct (map so_key settable_options)" "distinct (map so_opt settable_options)"
  by (simp_all add: settable_options_def)

lemma find_setting_SomeD: "find_setting n = Some s \<Longrightarrow> s \<in> set settable_options \<and> so_key s = n"
  by (auto simp: find_setting_def find_Some_iff)

lemma find_setting_in: "find_setting n = Some s \<Longrightarrow> n \<in> so_key ` set settable_options"
  using find_setting_SomeD by fastforce

lemma find_setting_key: "s \<in> set settable_options \<Longrightarrow> find_setting (so_key s) = Some s"
proof -
  assume s: "s \<in> set settable_options"
  then have "find_setting (so_key s) \<noteq> None" by (auto simp: find_setting_def find_None_iff)
  then obtain t where t: "find_setting (so_key s) = Some t" by blast
  then have "t = s" using find_setting_SomeD [OF t] s settable_keys(1) by (metis distinct_map inj_on_eq_iff)
  then show ?thesis using t by simp
qed

lemma same_setting:
  "s \<in> set settable_options \<Longrightarrow> t \<in> set settable_options \<Longrightarrow> so_opt s = so_opt t \<longleftrightarrow> s = t"
  using settable_keys(2) by (metis distinct_map inj_on_eq_iff)

definition applies :: "bool \<Rightarrow> opt \<Rightarrow> bool" where
  "applies subcommand_run k \<longleftrightarrow> \<not> subcommand_run \<or> k = OptPort \<or> k = OptControlSocket"

text \<open>The entry the loop acts on for a key.\<close>

definition pick :: "(string \<rightharpoonup> nat) \<Rightarrow> key_value_entry list \<Rightarrow> string \<Rightarrow> key_value_entry option" where
  "pick last_line entries n = find (\<lambda>e. kv_key e = n \<and> last_line n = Some (kv_at e)) entries"

text \<open>What merging does to one option.\<close>

definition merged :: "cli_host \<Rightarrow> bool \<Rightarrow> settable_option \<Rightarrow> string option \<Rightarrow> options \<Rightarrow> options \<Rightarrow> bool" where
  "merged h sub s configured out out' \<longleftrightarrow>
     (let k = so_opt s in
      if was_given out k then field k out' = field k out \<and> was_given out' k
      else case configured of
          None \<Rightarrow> field k out' = field k out \<and> \<not> was_given out' k
        | Some v \<Rightarrow> \<exists>r. apply_option h s v (default_options h) = Inr r \<and>
            (if applies sub k then field k out' = field k r \<and> was_given out' k
             else field k out' = field k out \<and> \<not> was_given out' k))"

lemma merged_step:
  assumes "apply_option h t v a = Inr target" "so_opt s \<noteq> so_opt t" "merged h sub s c target out'"
  shows "merged h sub s c a out'"
proof -
  have "field (so_opt s) target = field (so_opt s) a" "was_given target (so_opt s) = was_given a (so_opt s)"
    using apply_frame [OF assms(1,2)] by simp_all
  then have "merged h sub s c target out' = merged h sub s c a out'" unfolding merged_def Let_def by (simp only:)
  then show ?thesis using assms(3) by simp
qed

lemma merge_loop_Cons:
  assumes "merge_loop h path sub ll (entry # entries) out origin err = Inr R"
  obtains s where "find_setting (kv_key entry) = Some s"
    "ll (kv_key entry) \<noteq> Some (kv_at entry) \<or> was_given out (so_opt s)"
    "merge_loop h path sub ll entries out origin err = Inr R"
  | s target origin' err' where "find_setting (kv_key entry) = Some s"
    "ll (kv_key entry) = Some (kv_at entry)" "\<not> was_given out (so_opt s)" "applies sub (so_opt s)"
    "apply_option h s (kv_value entry) out = Inr target"
    "merge_loop h path sub ll entries target origin' err' = Inr R"
  | s target where "find_setting (kv_key entry) = Some s"
    "ll (kv_key entry) = Some (kv_at entry)" "\<not> was_given out (so_opt s)" "\<not> applies sub (so_opt s)"
    "apply_option h s (kv_value entry) (default_options h) = Inr target"
    "merge_loop h path sub ll entries out origin err = Inr R"
proof -
  obtain s where s: "find_setting (kv_key entry) = Some s"
    using assms by (auto simp: Let_def split: option.splits)
  show thesis
  proof (cases "ll (kv_key entry) \<noteq> Some (kv_at entry) \<or> was_given out (so_opt s)")
    case True
    then show ?thesis using that(1) [OF s] assms s by (auto simp: Let_def split: if_splits)
  next
    case b: False
    show ?thesis
    proof (cases "applies sub (so_opt s)")
      case True
      then show ?thesis using that(2) [OF s] b assms s
        by (auto simp: Let_def applies_def split: sum.splits)
    next
      case False
      then show ?thesis using that(3) [OF s] b assms s
        by (auto simp: Let_def applies_def split: sum.splits)
    qed
  qed
qed

lemma merge_loop_given:
  "merge_loop h path sub ll entries out origin err = Inr (out', origin', err') \<Longrightarrow> was_given out k \<Longrightarrow>
     field k out' = field k out \<and> was_given out' k"
proof (induction entries arbitrary: out origin err)
  case (Cons entry entries)
  from Cons.prems(1) show ?case
  proof (cases rule: merge_loop_Cons)
    case (2 s target origin'' err'')
    then have "k \<noteq> so_opt s" using Cons.prems(2) by auto
    then have "field k target = field k out" "was_given target k"
      using apply_frame [OF 2(5)] Cons.prems(2) by auto
    then show ?thesis using Cons.IH [OF 2(6)] by simp
  qed (use Cons in auto)
qed simp

lemma merge_loop_merged:
  assumes "merge_loop h path sub ll entries out origin err = Inr (out', origin', err')"
    "s \<in> set settable_options" "distinct (map kv_at entries)"
  shows "merged h sub s (map_option kv_value (pick ll entries (so_key s))) out out'"
  using assms
proof (induction entries arbitrary: out origin err)
  case Nil
  then show ?case by (simp add: merged_def pick_def Let_def)
next
  case (Cons entry entries)
  let ?n = "so_key s"
  note given = merge_loop_given [where k = "so_opt s"]
  have skip: "merged h sub s (map_option kv_value (pick ll (entry # entries) ?n)) out out'"
    if "merge_loop h path sub ll entries out a b = Inr (out', origin', err')"
      "\<not> (kv_key entry = ?n \<and> ll ?n = Some (kv_at entry))" for a b
    using Cons.IH [OF that(1) assms(2)] Cons.prems(3) that(2) by (auto simp: pick_def)
  have last: "pick ll entries ?n = None" if "kv_key entry = ?n \<and> ll ?n = Some (kv_at entry)"
    using that Cons.prems(3) by (auto simp: pick_def find_None_iff)
  from Cons.prems(1) show ?case
  proof (cases rule: merge_loop_Cons)
    case (1 t)
    show ?thesis
    proof (cases "kv_key entry = ?n \<and> ll ?n = Some (kv_at entry)")
      case True
      then have "was_given out (so_opt s)" using 1 find_setting_key [OF assms(2)] by auto
      then show ?thesis using given [OF 1(3)] by (simp add: merged_def)
    qed (use skip 1(3) in blast)
  next
    case (2 t target origin'' err'')
    show ?thesis
    proof (cases "kv_key entry = ?n")
      case True
      then have st: "t = s" using 2(1) find_setting_key [OF assms(2)] by simp
      have p: "pick ll (entry # entries) ?n = Some entry" using True 2(2) by (simp add: pick_def)
      obtain r where r: "apply_option h s (kv_value entry) (default_options h) = Inr r"
        "field (so_opt s) r = field (so_opt s) target"
        using apply_uniform [OF 2(5)] st by blast
      show ?thesis using p r given [OF 2(6)] apply_marks [OF 2(5)] 2(3,4) st
        by (simp add: merged_def)
    next
      case False
      then have "so_opt s \<noteq> so_opt t" using 2(1) find_setting_SomeD same_setting assms(2) by metis
      moreover have "merged h sub s (map_option kv_value (pick ll (entry # entries) ?n)) target out'"
        using Cons.IH [OF 2(6) assms(2)] Cons.prems(3) False by (simp add: pick_def)
      ultimately show ?thesis using merged_step [OF 2(5)] by blast
    qed
  next
    case (3 t target)
    show ?thesis
    proof (cases "kv_key entry = ?n")
      case True
      then have st: "t = s" using 3(1) find_setting_key [OF assms(2)] by simp
      have p: "pick ll (entry # entries) ?n = Some entry" using True 3(2) by (simp add: pick_def)
      have "merged h sub s None out out'"
        using Cons.IH [OF 3(6) assms(2)] Cons.prems(3) last True 3(2) by simp
      then show ?thesis using p 3(3,4,5) st by (simp add: merged_def)
    qed (use skip 3(6) in blast)
  qed
qed

definition configured :: "key_value_entry list \<Rightarrow> string \<Rightarrow> string option" where
  "configured entries n =
     (case filter (\<lambda>e. kv_key e = n) entries of [] \<Rightarrow> None | es \<Rightarrow> Some (kv_value (last es)))"

lemma last_lines_snoc: "last_lines (es @ [e]) = (last_lines es)(kv_key e \<mapsto> kv_at e)"
  by (simp add: last_lines_def)

lemma last_lines_in: "last_lines es n = Some i \<Longrightarrow> i \<in> kv_at ` set es"
  by (induction es rule: rev_induct) (auto simp: last_lines_def split: if_splits)

lemma find_append: "find P (xs @ ys) = (case find P xs of Some x \<Rightarrow> Some x | None \<Rightarrow> find P ys)"
  by (induction xs) auto

lemma pick_last:
  "distinct (map kv_at es) \<Longrightarrow> map_option kv_value (pick (last_lines es) es n) = configured es n"
proof (induction es rule: rev_induct)
  case Nil
  then show ?case by (simp add: pick_def configured_def)
next
  case (snoc e es)
  show ?case
  proof (cases "kv_key e = n")
    case True
    have "find (\<lambda>x. kv_key x = n \<and> kv_at e = kv_at x) es = None"
      using snoc.prems by (auto simp: find_None_iff image_iff)
    then show ?thesis using True
      by (cases "filter (\<lambda>e. kv_key e = n) es")
         (simp_all add: pick_def last_lines_snoc find_append configured_def)
  next
    case False
    then have "pick (last_lines (es @ [e])) (es @ [e]) n = pick (last_lines es) es n"
      by (simp add: pick_def last_lines_snoc find_append split: option.split)
    moreover have "configured (es @ [e]) n = configured es n" using False by (simp add: configured_def)
    ultimately show ?thesis using snoc by simp
  qed
qed

lemma loaded_lines_distinct:
  assumes "load_config_file files explicit_path paths = Inr config"
  shows "distinct (map kv_at (config_entries config))"
proof -
  have d: "distinct (map kv_at es)" if "read_key_value_file files p 0 = (KvOk, es, l)" for p es l
  proof -
    have "sorted_wrt (<) (map kv_at es)"
      using that kv_loop_result [of "the (files p)" 0 "[]" 0]
      by (auto simp: read_key_value_file_def split: if_splits option.splits prod.splits)
    then show ?thesis using strict_sorted_iff by blast
  qed
  have "config_entries config = [] \<or>
      (\<exists>p l. read_key_value_file files p 0 = (KvOk, config_entries config, l))"
    using assms
    by (auto simp: load_config_file_def search_config_spec split: if_splits prod.splits
      key_value_status.splits option.splits)
  then show ?thesis using d by fastforce
qed

lemma merge_keys_known:
  "merge_loop h path sub ll entries out origin err = Inr R \<Longrightarrow>
     \<forall>e \<in> set entries. kv_key e \<in> so_key ` set settable_options"
proof (induction entries arbitrary: out origin err)
  case (Cons entry entries)
  from Cons.prems show ?case
    by (cases rule: merge_loop_Cons) (auto dest!: Cons.IH dest: find_setting_in)
qed simp

text \<open>
  C24. The config file lies under the command line, and both go through the same door: after the
  merge, an option the command line gave has its value; otherwise the last line of the file with
  its key decides, with the very value the same text typed as a flag would give (a subcommand run
  takes the port and the control socket only, the rest is checked and left alone); otherwise the
  default stands. It counts as given exactly when one of the two gave it. A key that is no option's
  is refused.
\<close>

theorem config_layers_under_command_line:
  assumes "load_config_file (h_files h) explicit_path paths = Inr config"
    "merge_config h config sub out = Inr (out', origin, err)" "s \<in> set settable_options"
  shows "(\<forall>e \<in> set (config_entries config). kv_key e \<in> so_key ` set settable_options)
    \<and> (let k = so_opt s in
       if was_given out k then field k out' = field k out \<and> was_given out' k
       else case configured (config_entries config) (so_key s) of
           None \<Rightarrow> field k out' = field k out \<and> \<not> was_given out' k
         | Some v \<Rightarrow> \<exists>r. apply_option h s v (default_options h) = Inr r \<and>
             (if \<not> sub \<or> k = OptPort \<or> k = OptControlSocket
              then field k out' = field k r \<and> was_given out' k
              else field k out' = field k out \<and> \<not> was_given out' k))"
proof -
  note m = assms(2) [unfolded merge_config_def]
  have d: "distinct (map kv_at (config_entries config))" by (rule loaded_lines_distinct [OF assms(1)])
  show ?thesis
    by (rule conjI [OF merge_keys_known [OF m]
          merge_loop_merged [OF m assms(3) d, unfolded merged_def applies_def pick_last [OF d]]])
qed

theorem config_layers_under_command_line_witness:
  "\<exists>out' origin err. merge_config (plain_host [''/c'' \<mapsto> ''name = kitchen''] [])
     \<lparr>config_path = ''/c'', config_entries = [\<lparr>kv_key = ''name'', kv_value = ''kitchen'', kv_at = 1\<rparr>]\<rparr>
     False (default_options (plain_host [''/c'' \<mapsto> ''name = kitchen''] [])) = Inr (out', origin, err)
   \<and> field OptName out' = VText ''kitchen'' \<and> was_given out' OptName"
proof -
  let ?files = "[''/c'' \<mapsto> ''name = kitchen'']"
  let ?h = "plain_host ?files []"
  let ?c = "\<lparr>config_path = ''/c'', config_entries = [\<lparr>kv_key = ''name'', kv_value = ''kitchen'', kv_at = 1\<rparr>]\<rparr>"
  have f: "h_files ?h = ?files" by (simp add: plain_host_def)
  have l: "load_config_file (h_files ?h) ''/c'' [] = Inr ?c" unfolding f by code_simp
  have s: "find_setting ''name'' = Some (setting OptName ''name'' ''-n'')"
    by (simp add: find_setting_def settable_options_def)
  have "merge_config ?h ?c False (default_options ?h) \<noteq> Inl e" for e
    by (simp add: merge_config_def s last_lines_def apply_option_def assign_option_def)
  then obtain out' origin err where m: "merge_config ?h ?c False (default_options ?h) = Inr (out', origin, err)"
    by (cases "merge_config ?h ?c False (default_options ?h)") auto
  have t: "setting OptName ''name'' ''-n'' \<in> set settable_options" by (simp add: settable_options_def)
  show ?thesis using m config_layers_under_command_line [OF l m t]
    by (auto simp: configured_def apply_option_def assign_option_def)
qed

end
