(* ===== verification/CliParse.thy ===== *)
theory CliParse
  imports Cli
begin

text \<open>
  \<open>parse_options\<close> of \<^verbatim>\<open>src/src/cli.cpp\<close>: the switch over what \<^verbatim>\<open>getopt_long\<close> returns, the merge,
  and the checks over the merged options, each stage of the function a definition, composed in the
  order of the source.
\<close>

section \<open>The flags\<close>

definition MDNS_CLIENT_SERVICE :: string where "MDNS_CLIENT_SERVICE = ''_sendspin._tcp''"

definition SHORT_OPTS :: string where "SHORT_OPTS = '':o:i:ln:s:zP:d:f:h''"

definition long_opts :: "long_option list" where
  "long_opts =
     [(''help'', no_argument, Short (CHR ''h'')),
      (''version'', no_argument, Long OPT_VERSION),
      (''output'', required_argument, Short (CHR ''o'')),
      (''name'', required_argument, Short (CHR ''n'')),
      (''server'', required_argument, Short (CHR ''s'')),
      (''pidfile'', required_argument, Short (CHR ''P'')),
      (''logfile'', required_argument, Short (CHR ''f'')),
      (''log-level'', required_argument, Short (CHR ''d'')),
      (''config'', required_argument, Long OPT_CONFIG),
      (''port'', required_argument, Long OPT_PORT),
      (''buffer-ms'', required_argument, Long OPT_BUFFER_MS),
      (''static-delay'', required_argument, Long OPT_STATIC_DELAY),
      (''no-mdns'', no_argument, Long OPT_NO_MDNS),
      (''mdns-name'', required_argument, Long OPT_MDNS_NAME),
      (''control-socket'', required_argument, Long OPT_CONTROL_SOCKET),
      (''no-control'', no_argument, Long OPT_NO_CONTROL),
      (''state-dir'', required_argument, Long OPT_STATE_DIR),
      (''hook-start'', required_argument, Long OPT_HOOK_START),
      (''hook-stop'', required_argument, Long OPT_HOOK_STOP),
      (''id'', required_argument, Long OPT_ID),
      (''manufacturer'', required_argument, Long OPT_MANUFACTURER),
      (''product-name'', required_argument, Long OPT_PRODUCT_NAME),
      (''audio-format'', required_argument, Long OPT_AUDIO_FORMAT),
      (''input'', required_argument, Short (CHR ''i'')),
      (''player-enabled'', required_argument, Long OPT_PLAYER_ENABLED),
      (''source-enabled'', required_argument, Long OPT_SOURCE_ENABLED),
      (''line-sense'', required_argument, Long OPT_LINE_SENSE),
      (''line-sense-dbfs'', required_argument, Long OPT_LINE_SENSE_DBFS),
      (''line-sense-attack-ms'', required_argument, Long OPT_LINE_SENSE_ATTACK_MS),
      (''line-sense-release-ms'', required_argument, Long OPT_LINE_SENSE_RELEASE_MS),
      (''source-stream-style'', required_argument, Long OPT_SOURCE_STREAM_STYLE)]"

text \<open>
  The calls of \<open>apply\<close> in each case of the switch, through to its \<open>break\<close>: the case of
  \<^verbatim>\<open>OPT_AUDIO_FORMAT\<close> has none and runs into that of \<^verbatim>\<open>'i'\<close>.
\<close>

definition flag_applies :: "flag_code \<Rightarrow> string \<Rightarrow> (opt \<times> string) list" where
  "flag_applies code optarg =
     (case code of
        Short c \<Rightarrow>
          if c = CHR ''o'' then [(OptDevice, optarg)]
          else if c = CHR ''n'' then [(OptName, optarg)]
          else if c = CHR ''s'' then [(OptServer, optarg)]
          else if c = CHR ''P'' then [(OptPidfile, optarg)]
          else if c = CHR ''d'' then [(OptLogLevel, optarg)]
          else if c = CHR ''f'' then [(OptLogfile, optarg)]
          else if c = CHR ''i'' then [(OptInputDevice, optarg)]
          else []
      | Long OPT_PORT \<Rightarrow> [(OptPort, optarg)]
      | Long OPT_BUFFER_MS \<Rightarrow> [(OptBufferMs, optarg)]
      | Long OPT_STATIC_DELAY \<Rightarrow> [(OptStaticDelay, optarg)]
      | Long OPT_MDNS_NAME \<Rightarrow> [(OptMdnsName, optarg)]
      | Long OPT_CONTROL_SOCKET \<Rightarrow> [(OptControlSocket, optarg)]
      | Long OPT_STATE_DIR \<Rightarrow> [(OptStateDir, optarg)]
      | Long OPT_HOOK_START \<Rightarrow> [(OptHookStart, optarg)]
      | Long OPT_HOOK_STOP \<Rightarrow> [(OptHookStop, optarg)]
      | Long OPT_ID \<Rightarrow> [(OptClientId, optarg)]
      | Long OPT_MANUFACTURER \<Rightarrow> [(OptManufacturer, optarg)]
      | Long OPT_PRODUCT_NAME \<Rightarrow> [(OptProductName, optarg)]
      | Long OPT_PLAYER_ENABLED \<Rightarrow> [(OptPlayerEnabled, optarg)]
      | Long OPT_SOURCE_ENABLED \<Rightarrow> [(OptSourceEnabled, optarg)]
      | Long OPT_LINE_SENSE \<Rightarrow> [(OptLineSense, optarg)]
      | Long OPT_LINE_SENSE_DBFS \<Rightarrow> [(OptLineSenseDbfs, optarg)]
      | Long OPT_LINE_SENSE_ATTACK_MS \<Rightarrow> [(OptLineSenseAttackMs, optarg)]
      | Long OPT_LINE_SENSE_RELEASE_MS \<Rightarrow> [(OptLineSenseReleaseMs, optarg)]
      | Long OPT_SOURCE_STREAM_STYLE \<Rightarrow> [(OptSourceStreamStyle, optarg)]
      | Long OPT_NO_MDNS \<Rightarrow> [(OptNoMdns, ''true'')]
      | Long OPT_NO_CONTROL \<Rightarrow> [(OptNoControl, ''true'')]
      | Long OPT_AUDIO_FORMAT \<Rightarrow> [(OptAudioFormat, optarg), (OptInputDevice, optarg)]
      | Long OPT_VERSION \<Rightarrow> []
      | Long OPT_CONFIG \<Rightarrow> [])"

text \<open>The options, the first complaint (empty while there is none) and the lines printed.\<close>

record parse_state =
  ps_out :: options
  ps_error :: string
  ps_err :: "string list"

definition ps_fail :: "string \<Rightarrow> parse_state \<Rightarrow> parse_state" where
  "ps_fail message ps = (if ps_error ps = [] then ps\<lparr>ps_error := message\<rparr> else ps)"

definition apply_flag :: "cli_host \<Rightarrow> opt \<times> string \<Rightarrow> parse_state \<Rightarrow> parse_state" where
  "apply_flag h call ps =
     (let s = settable_option_for (fst call) in
      case apply_option h s (snd call) (ps_out ps) of
        Inl message \<Rightarrow> ps_fail message ps
      | Inr out \<Rightarrow> ps\<lparr>ps_out := out, ps_err := ps_err ps @ apply_prints s (snd call)\<rparr>)"

text \<open>One turn of the loop; \<open>True\<close> is the early return of \<open>--help\<close> and \<open>--version\<close>.\<close>

definition handle_event :: "cli_host \<Rightarrow> getopt_event \<Rightarrow> parse_state \<Rightarrow> bool \<times> parse_state" where
  "handle_event h event ps =
     (case event of
        GotMissing optopt word \<Rightarrow>
          (False, ps_fail (''option '' @ quoted (offending_option optopt word) @ '' needs a value'') ps)
      | GotUnknown optopt word \<Rightarrow>
          (False, ps_fail (''unknown option '' @ quoted (offending_option optopt word)) ps)
      | GotOption code optarg \<Rightarrow>
          if code = Short (CHR ''h'') then (True, ps\<lparr>ps_out := (ps_out ps)\<lparr>op_show_help := True\<rparr>\<rparr>)
          else if code = Long OPT_VERSION then (True, ps\<lparr>ps_out := (ps_out ps)\<lparr>op_show_version := True\<rparr>\<rparr>)
          else if code = Short (CHR ''l'') then
            (False, ps\<lparr>ps_out := mark_given OptListDevices ((ps_out ps)\<lparr>op_list_devices := True\<rparr>)\<rparr>)
          else if code = Short (CHR ''z'') then
            (False, ps\<lparr>ps_out := mark_given OptDaemonize ((ps_out ps)\<lparr>op_daemonize := True\<rparr>)\<rparr>)
          else if code = Long OPT_CONFIG then
            (False, if optarg \<noteq> []
                    then ps\<lparr>ps_out := mark_given OptConfig ((ps_out ps)\<lparr>op_config_path := optarg\<rparr>)\<rparr>
                    else ps_fail ''--config needs a non-empty value'' ps)
          else (False, fold (apply_flag h) (flag_applies code optarg) ps))"

fun getopt_loop :: "cli_host \<Rightarrow> getopt_event list \<Rightarrow> parse_state \<Rightarrow> bool \<times> parse_state" where
  "getopt_loop h [] ps = (False, ps)"
| "getopt_loop h (event # events) ps =
     (case handle_event h event ps of
        (True, ps') \<Rightarrow> (True, ps')
      | (False, ps') \<Rightarrow> getopt_loop h events ps')"

section \<open>The stages\<close>

definition stage_subcommand :: "string list \<Rightarrow> options \<Rightarrow> parse_state \<times> nat" where
  "stage_subcommand argv out =
     (case split_subcommand argv of
        Inl message \<Rightarrow>
          (ps_fail message \<lparr>ps_out = out\<lparr>op_subcommand := [], op_subcommand_args := []\<rparr>, ps_error = [], ps_err = []\<rparr>, 0)
      | Inr invocation \<Rightarrow>
          (let ps = \<lparr>ps_out = out\<lparr>op_subcommand := inv_name invocation, op_subcommand_args := inv_args invocation\<rparr>,
                    ps_error = [], ps_err = []\<rparr> in
           (if inv_name invocation \<noteq> [] then
              (case parse_control_request (inv_name invocation) (inv_args invocation) of
                 Inl message \<Rightarrow> ps_fail message ps
               | Inr request \<Rightarrow> ps)
            else ps, inv_consumed invocation)))"

definition stage_words :: "string list \<Rightarrow> string list \<Rightarrow> parse_state \<Rightarrow> parse_state" where
  "stage_words argv left_over ps =
     (case left_over of
        [] \<Rightarrow> ps
      | word # _ \<Rightarrow>
          if find_control_subcommand word \<noteq> None
          then ps_fail (''a subcommand has to come first: '' @ quoted (hd argv @ '' '' @ word @ '' [flags]'') @
                 '', not after the flags'') ps
          else ps_fail (''unexpected argument '' @ quoted word @
                 '' -- this player takes flags and one optional subcommand ('' @ control_subcommand_list @ '')'') ps)"

definition stage_config :: "cli_host \<Rightarrow> parse_state \<Rightarrow> parse_state \<times> (opt \<rightharpoonup> string)" where
  "stage_config h ps =
     (let out = ps_out ps in
      if ps_error ps = [] \<and> \<not> op_list_devices out then
        (case load_config_file (h_files h) (if was_given out OptConfig then op_config_path out else [])
                (config_search_paths (h_env h)) of
           Inl reason \<Rightarrow> (ps_fail reason ps, Map.empty)
         | Inr config \<Rightarrow>
             (let out' = out\<lparr>op_config_path := config_path config\<rparr> in
              case merge_config h config (op_subcommand out' \<noteq> []) out' of
                Inl (reason, merged_out, origin, err) \<Rightarrow>
                  (ps_fail reason (ps\<lparr>ps_out := merged_out, ps_err := ps_err ps @ err\<rparr>), origin)
              | Inr (merged_out, origin, err) \<Rightarrow>
                  (ps\<lparr>ps_out := merged_out, ps_err := ps_err ps @ err\<rparr>, origin)))
      else (ps, Map.empty))"

definition fail_for :: "(opt \<rightharpoonup> string) \<Rightarrow> opt \<Rightarrow> string \<Rightarrow> parse_state \<Rightarrow> parse_state" where
  "fail_for origin k message ps = ps_fail (case origin k of None \<Rightarrow> message | Some place \<Rightarrow> place @ message) ps"

definition stage_server :: "cli_host \<Rightarrow> (opt \<rightharpoonup> string) \<Rightarrow> parse_state \<Rightarrow> parse_state" where
  "stage_server h origin ps =
     (let out = ps_out ps in
      if ps_error ps = [] \<and> was_given out OptServer then
        (case parse_discovery_spec (op_server out) of
           Some name \<Rightarrow>
             if h_mdns h then ps\<lparr>ps_out := out\<lparr>op_discover_name := name, op_discover := True\<rparr>\<rparr>
             else fail_for origin OptServer
                    (''-s '' @ quoted (redact_url_userinfo (op_server out)) @
                     '': this build has no mDNS support, so it cannot discover a server. Rebuild with dns_sd.h available (libavahi-compat-libdnssd-dev on Debian/Ubuntu, avahi-compat-libdns_sd-devel on Fedora), or give -s an address.'')
                    (ps\<lparr>ps_out := out\<lparr>op_discover_name := name, op_discover := False\<rparr>\<rparr>)
         | None \<Rightarrow>
             (case parse_server_url (op_server out) of
                Inl reason \<Rightarrow> fail_for origin OptServer reason ps
              | Inr url \<Rightarrow> ps\<lparr>ps_out := out\<lparr>op_server_url := url\<rparr>\<rparr>))
      else ps)"

definition stage_stdout :: "cli_host \<Rightarrow> parse_state \<Rightarrow> parse_state" where
  "stage_stdout h ps =
     (let out = ps_out ps in
      if ps_error ps = [] \<and> was_given out OptDaemonize \<and> was_given out OptDevice then
        (case resolve_device_spec (h_flags h) (op_device out) of
           Inl e \<Rightarrow> ps
         | Inr d \<Rightarrow>
             if ds_backend d = StdoutBackend
             then ps_fail (''-z cannot write PCM to stdout: a daemon'' @ [CHR 0x27] @ ''s stdout is /dev/null, so -o '' @
                    quoted (op_device out) @ '' would discard every stream. Drop -z, or pick a real device.'') ps
             else ps)
      else ps)"

definition stage_no_control :: "parse_state \<Rightarrow> parse_state" where
  "stage_no_control ps =
     (let out = ps_out ps in
      if ps_error ps = [] \<and> was_given out OptNoControl \<and> was_given out OptControlSocket
      then ps_fail (''--no-control and --control-socket '' @ quoted (op_control_socket out) @
             '' contradict each other -- drop one'') ps
      else ps)"

definition stage_control_socket :: "cli_host \<Rightarrow> (opt \<rightharpoonup> string) \<Rightarrow> parse_state \<Rightarrow> parse_state" where
  "stage_control_socket h origin ps =
     (let out = ps_out ps; limit = rt_sun_path (h_runtime h) in
      if ps_error ps \<noteq> [] then ps
      else if op_no_control out \<and> op_subcommand out = [] then ps\<lparr>ps_out := out\<lparr>op_control_socket := []\<rparr>\<rparr>
      else if was_given out OptControlSocket then
        (let path = (if was_given out OptDaemonize then absolute_path h (op_control_socket out) else op_control_socket out);
             ps' = ps\<lparr>ps_out := out\<lparr>op_control_socket := path\<rparr>\<rparr>
         in if control_socket_path_fits limit path then ps'
            else fail_for origin OptControlSocket
                   (''--control-socket '' @ quoted path @ '' is '' @ to_string (length path) @
                    '' bytes, and a Unix socket address holds at most '' @ to_string (limit - 1) @ '' on this platform'') ps')
      else
        (let runtime = control_runtime_dir_of (h_env h) (h_runtime h);
             path = control_socket_path (rd_path runtime) (op_port out);
             reason = control_socket_absent_reason (h_runtime h) runtime path
         in ps\<lparr>ps_out := out\<lparr>op_control_absent_reason := reason,
                            op_control_socket := (if reason \<noteq> [] then [] else path)\<rparr>,
               ps_err := ps_err ps @ (if rd_warning runtime \<noteq> [] \<and> op_subcommand out = []
                                      then [''warning: '' @ rd_warning runtime] else [])\<rparr>))"

definition DAEMON_ONLY :: "opt list" where
  "DAEMON_ONLY = [
     OptDevice, OptName, OptServer, OptDaemonize, OptPidfile, OptLogfile, OptLogLevel,
     OptBufferMs, OptNoMdns, OptMdnsName, OptNoControl, OptStateDir, OptStaticDelay,
     OptHookStart, OptHookStop, OptClientId, OptManufacturer, OptProductName, OptAudioFormat,
     OptInputDevice, OptPlayerEnabled, OptSourceEnabled, OptLineSense, OptLineSenseDbfs,
     OptLineSenseAttackMs, OptLineSenseReleaseMs]"

definition run_warnings :: "options \<Rightarrow> string list" where
  "run_warnings out =
     (if op_subcommand out \<noteq> [] then
        (if list_ex (was_given out) DAEMON_ONLY
         then [''warning: a subcommand reads only --port and --control-socket -- the other flags configure a player and do nothing here'']
         else [])
      else
        (if was_given out OptDaemonize \<and> \<not> was_given out OptLogfile
         then [''warning: -z without -f discards all log output -- a detached daemon'' @ [CHR 0x27] @ ''s stderr is /dev/null. Add -f <path> to keep it.'']
         else []) @
        (if was_given out OptMdnsName \<and> was_given out OptServer
         then [''warning: --mdns-name is unused with -s -- a client that dials out must not advertise '' @ MDNS_CLIENT_SERVICE @ '', so there is no instance to name'']
         else []))"

definition normalize_paths :: "cli_host \<Rightarrow> options \<Rightarrow> options" where
  "normalize_paths h out =
     (if was_given out OptDaemonize then
        out\<lparr>op_pidfile := (if was_given out OptPidfile then absolute_path h (op_pidfile out) else op_pidfile out),
            op_logfile := (if was_given out OptLogfile then absolute_path h (op_logfile out) else op_logfile out),
            op_state_dir := (if was_given out OptStateDir then absolute_path h (op_state_dir out) else op_state_dir out)\<rparr>
      else out)"

definition name_defaults :: "cli_host \<Rightarrow> options \<Rightarrow> options" where
  "name_defaults h out =
     (let out1 = (if op_name out = [] then out\<lparr>op_name := default_client_name h\<rparr> else out) in
      if op_mdns_name out1 = [] then out1\<lparr>op_mdns_name := op_name out1\<rparr> else out1)"

definition both_disabled :: "options \<Rightarrow> bool" where
  "both_disabled out \<longleftrightarrow> op_subcommand out = [] \<and> \<not> op_player_enabled out \<and> \<not> op_source_enabled out"

text \<open>What is returned, the options left behind and the lines printed.\<close>

definition stage_finish :: "cli_host \<Rightarrow> parse_state \<Rightarrow> bool \<times> options \<times> string list" where
  "stage_finish h ps =
     (if ps_error ps \<noteq> [] then (False, ps_out ps, ps_err ps @ [''error: '' @ ps_error ps])
      else
        (let out = name_defaults h (normalize_paths h (ps_out ps)); err = ps_err ps @ run_warnings (ps_out ps) in
         if both_disabled out
         then (False, out, err @ [''error: player-enabled and source-enabled cannot both be false''])
         else (True, out, err)))"

definition check_options :: "cli_host \<Rightarrow> parse_state \<Rightarrow> parse_state" where
  "check_options h ps0 =
     (let (ps, origin) = stage_config h ps0
      in stage_control_socket h origin (stage_no_control (stage_stdout h (stage_server h origin ps))))"

definition parse_options :: "cli_host \<Rightarrow> string list \<Rightarrow> options \<Rightarrow> bool \<times> options \<times> string list" where
  "parse_options h argv out =
     (let (ps0, consumed) = stage_subcommand argv out;
          flags = hd argv # drop (if consumed = 0 then 1 else consumed) argv;
          (events, left_over) = h_getopt h SHORT_OPTS long_opts flags;
          (early, ps1) = getopt_loop h events ps0
      in if early then (True, ps_out ps1, ps_err ps1)
         else stage_finish h (check_options h (stage_words argv left_over ps1)))"

section \<open>What every accepted value satisfies\<close>

definition values_ok :: "options \<Rightarrow> bool" where
  "values_ok out \<longleftrightarrow>
     0 < unat (op_port out) \<and> 10 \<le> unat (op_buffer_ms out) \<and> unat (op_buffer_ms out) \<le> 2000
     \<and> unat (op_static_delay_ms out) \<le> 5000 \<and> unat (op_line_sense_attack_ms out) \<le> 600000
     \<and> unat (op_line_sense_release_ms out) \<le> 600000
     \<and> - 120 \<le> op_line_sense_dbfs out \<and> op_line_sense_dbfs out \<le> 0
     \<and> op_source_stream_style out \<in> {''legacy'', ''spec''}
     \<and> (\<forall>f. op_audio_format out = Some f \<longrightarrow> format_valid f)"

text \<open>The options before \<open>-s\<close> is resolved.\<close>

definition unresolved :: "options \<Rightarrow> bool" where
  "unresolved out \<longleftrightarrow> values_ok out \<and> \<not> op_discover out \<and> op_server_url out = []"

lemma parse_ranges:
  "parse_port v = Some p \<Longrightarrow> 0 < unat p"
  "parse_buffer_ms v = Some b \<Longrightarrow> 10 \<le> unat b \<and> unat b \<le> 2000"
  "parse_static_delay v = Some d \<Longrightarrow> unat d \<le> 5000"
  "parse_line_sense_window_ms v = Some w \<Longrightarrow> unat w \<le> 600000"
  "parse_line_sense_dbfs strtod v = Some x \<Longrightarrow> - 120 \<le> x \<and> x \<le> 0"
  by (auto simp: parse_port_def parse_buffer_ms_def parse_static_delay_def parse_line_sense_window_ms_def
    parse_line_sense_dbfs_def Let_def MIN_BUFFER_MS_def MAX_BUFFER_MS_def MAX_STATIC_DELAY_MS_def
    MAX_LINE_SENSE_WINDOW_MS_def MIN_LINE_SENSE_DBFS_def MAX_LINE_SENSE_DBFS_def
    split: if_splits prod.splits option.splits)

lemma mark_given_select [simp]:
  "values_ok (mark_given k out) = values_ok out" "unresolved (mark_given k out) = unresolved out"
  by (simp_all add: mark_given_def values_ok_def unresolved_def)

lemma unresolved_update [simp]:
  "unresolved (out\<lparr>op_device := v0\<rparr>) = unresolved out"
  "unresolved (out\<lparr>op_input_device := v1\<rparr>) = unresolved out"
  "unresolved (out\<lparr>op_player_enabled := v2\<rparr>) = unresolved out"
  "unresolved (out\<lparr>op_source_enabled := v3\<rparr>) = unresolved out"
  "unresolved (out\<lparr>op_line_sense := v4\<rparr>) = unresolved out"
  "unresolved (out\<lparr>op_list_devices := v5\<rparr>) = unresolved out"
  "unresolved (out\<lparr>op_name := v6\<rparr>) = unresolved out"
  "unresolved (out\<lparr>op_client_id := v7\<rparr>) = unresolved out"
  "unresolved (out\<lparr>op_manufacturer := v8\<rparr>) = unresolved out"
  "unresolved (out\<lparr>op_product_name := v9\<rparr>) = unresolved out"
  "unresolved (out\<lparr>op_server := v10\<rparr>) = unresolved out"
  "unresolved (out\<lparr>op_daemonize := v11\<rparr>) = unresolved out"
  "unresolved (out\<lparr>op_pidfile := v12\<rparr>) = unresolved out"
  "unresolved (out\<lparr>op_logfile := v13\<rparr>) = unresolved out"
  "unresolved (out\<lparr>op_log_level := v14\<rparr>) = unresolved out"
  "unresolved (out\<lparr>op_no_mdns := v15\<rparr>) = unresolved out"
  "unresolved (out\<lparr>op_mdns_name := v16\<rparr>) = unresolved out"
  "unresolved (out\<lparr>op_no_control := v17\<rparr>) = unresolved out"
  "unresolved (out\<lparr>op_hook_start := v18\<rparr>) = unresolved out"
  "unresolved (out\<lparr>op_hook_stop := v19\<rparr>) = unresolved out"
  "unresolved (out\<lparr>op_state_dir := v20\<rparr>) = unresolved out"
  "unresolved (out\<lparr>op_config_path := v21\<rparr>) = unresolved out"
  "unresolved (out\<lparr>op_control_socket := v22\<rparr>) = unresolved out"
  "unresolved (out\<lparr>op_control_absent_reason := v23\<rparr>) = unresolved out"
  "unresolved (out\<lparr>op_subcommand := v24\<rparr>) = unresolved out"
  "unresolved (out\<lparr>op_subcommand_args := v25\<rparr>) = unresolved out"
  by (simp_all add: unresolved_def values_ok_def)

lemma unresolved_assign [intro]:
  "unresolved out \<Longrightarrow> 0 < unat p \<Longrightarrow> unresolved (out\<lparr>op_port := p\<rparr>)"
  "unresolved out \<Longrightarrow> 10 \<le> unat b \<and> unat b \<le> 2000 \<Longrightarrow> unresolved (out\<lparr>op_buffer_ms := b\<rparr>)"
  "unresolved out \<Longrightarrow> unat d \<le> 5000 \<Longrightarrow> unresolved (out\<lparr>op_static_delay_ms := d\<rparr>)"
  "unresolved out \<Longrightarrow> unat w \<le> 600000 \<Longrightarrow> unresolved (out\<lparr>op_line_sense_attack_ms := w\<rparr>)"
  "unresolved out \<Longrightarrow> unat w \<le> 600000 \<Longrightarrow> unresolved (out\<lparr>op_line_sense_release_ms := w\<rparr>)"
  "unresolved out \<Longrightarrow> - 120 \<le> x \<and> x \<le> 0 \<Longrightarrow> unresolved (out\<lparr>op_line_sense_dbfs := x\<rparr>)"
  "unresolved out \<Longrightarrow> y \<in> {''legacy'', ''spec''} \<Longrightarrow> unresolved (out\<lparr>op_source_stream_style := y\<rparr>)"
  "unresolved out \<Longrightarrow> format_valid f \<Longrightarrow> unresolved (out\<lparr>op_audio_format := Some f\<rparr>)"
  by (simp_all add: unresolved_def values_ok_def)

lemma assign_unresolved: "assign_option h s v out = Inr out' \<Longrightarrow> unresolved out \<Longrightarrow> unresolved out'"
  by (cases "so_opt s")
     (auto simp: assign_cases Let_def split: if_splits option.splits sum.splits
       intro!: unresolved_assign dest: parse_ranges parse_format_valid)

lemma apply_unresolved: "apply_option h s v out = Inr out' \<Longrightarrow> unresolved out \<Longrightarrow> unresolved out'"
  using assign_unresolved by (auto simp: apply_option_def split: sum.splits)

lemma default_unresolved: "unresolved (default_options h)"
  by (simp add: unresolved_def values_ok_def default_options_def DEFAULT_SERVER_PORT_def DEFAULT_BUFFER_MS_def)

lemma ps_fail_out [simp]: "ps_out (ps_fail m ps) = ps_out ps"
  by (simp add: ps_fail_def)

lemma fail_for_out [simp]: "ps_out (fail_for origin k m ps) = ps_out ps"
  by (simp add: fail_for_def)

lemma ps_fail_error: "m \<noteq> [] \<Longrightarrow> ps_error (ps_fail m ps) \<noteq> []"
  by (simp add: ps_fail_def)

lemma fail_for_error: "m \<noteq> [] \<Longrightarrow> ps_error (fail_for origin k m ps) \<noteq> []"
  by (simp add: fail_for_def ps_fail_error split: option.split)

lemma apply_flag_unresolved: "unresolved (ps_out ps) \<Longrightarrow> unresolved (ps_out (apply_flag h call ps))"
  using apply_unresolved by (auto simp: apply_flag_def Let_def split: sum.split)

lemma fold_apply_unresolved: "unresolved (ps_out ps) \<Longrightarrow> unresolved (ps_out (fold (apply_flag h) calls ps))"
  by (induction calls arbitrary: ps) (simp_all add: apply_flag_unresolved)

lemma handle_event_unresolved:
  "handle_event h event ps = (False, ps') \<Longrightarrow> unresolved (ps_out ps) \<Longrightarrow> unresolved (ps_out ps')"
  by (auto simp: handle_event_def fold_apply_unresolved
    split: getopt_event.splits if_splits)

lemma getopt_loop_unresolved:
  "getopt_loop h events ps = (False, ps') \<Longrightarrow> unresolved (ps_out ps) \<Longrightarrow> unresolved (ps_out ps')"
  by (induction h events ps rule: getopt_loop.induct)
     (auto dest: handle_event_unresolved split: prod.splits bool.splits)

lemma handle_event_early:
  "handle_event h event ps = (True, ps') \<Longrightarrow> op_show_help (ps_out ps') \<or> op_show_version (ps_out ps')"
  by (auto simp: handle_event_def split: getopt_event.splits if_splits)

lemma getopt_loop_early:
  "getopt_loop h events ps = (True, ps') \<Longrightarrow> op_show_help (ps_out ps') \<or> op_show_version (ps_out ps')"
  by (induction h events ps rule: getopt_loop.induct)
     (auto dest: handle_event_early split: prod.splits bool.splits)

lemma merge_loop_unresolved:
  "merge_loop h path sub ll entries out origin err = Inr (out', origin', err') \<Longrightarrow> unresolved out \<Longrightarrow> unresolved out'"
proof (induction entries arbitrary: out origin err)
  case (Cons entry entries)
  from Cons.prems(1) show ?case
  proof (cases rule: merge_loop_Cons)
    case (2 s target origin'' err'')
    then show ?thesis using Cons.IH [OF 2(6)] apply_unresolved [OF 2(5)] Cons.prems(2) by simp
  qed (use Cons in auto)
qed simp

lemma merge_loop_message:
  "merge_loop h path sub ll entries out origin err = Inl (m, R) \<Longrightarrow> m \<noteq> []"
  by (induction entries arbitrary: out origin err)
     (auto simp: Let_def split: if_splits option.splits sum.splits)

lemma stage_config_unresolved:
  assumes "stage_config h ps = (ps', origin)" "unresolved (ps_out ps)" "ps_error ps' = []"
  shows "unresolved (ps_out ps') \<and> ps_error ps = []"
  using assms
  by (auto simp: stage_config_def Let_def merge_config_def ps_fail_def
    split: if_splits sum.splits prod.splits dest: merge_loop_unresolved merge_loop_message)

section \<open>The checks over the merged options\<close>

text \<open>Each check in turn: what holds of the options once it has passed without a complaint.\<close>

definition server_ok :: "cli_host \<Rightarrow> options \<Rightarrow> bool" where
  "server_ok h out \<longleftrightarrow>
     (if was_given out OptServer
      then (if op_discover out then h_mdns h \<and> parse_discovery_spec (op_server out) = Some (op_discover_name out)
            else parse_discovery_spec (op_server out) = None \<and> parse_server_url (op_server out) = Inr (op_server_url out))
      else \<not> op_discover out \<and> op_server_url out = [])"

definition stdout_ok :: "cli_host \<Rightarrow> options \<Rightarrow> bool" where
  "stdout_ok h out \<longleftrightarrow>
     \<not> (was_given out OptDaemonize \<and> was_given out OptDevice
        \<and> (\<exists>d. resolve_device_spec (h_flags h) (op_device out) = Inr d \<and> ds_backend d = StdoutBackend))"

definition socket_ok :: "cli_host \<Rightarrow> options \<Rightarrow> bool" where
  "socket_ok h out \<longleftrightarrow>
     \<not> (was_given out OptNoControl \<and> was_given out OptControlSocket)
     \<and> (op_control_socket out = [] \<or> control_socket_path_fits (rt_sun_path (h_runtime h)) (op_control_socket out))"

lemma parse_server_url_message: "parse_server_url s = Inl m \<Longrightarrow> m \<noteq> []"
  by (auto simp: parse_server_url_def split_host_port_def Let_def
    split: if_splits option.splits sum.splits prod.splits)

lemma stage_server_ok:
  assumes "ps_error (stage_server h origin ps) = []" "unresolved (ps_out ps)"
  shows "server_ok h (ps_out (stage_server h origin ps)) \<and> values_ok (ps_out (stage_server h origin ps))
    \<and> ps_error ps = []"
proof -
  have e: "ps_error ps = []"
    using assms(1) by (auto simp: stage_server_def Let_def fail_for_def ps_fail_def
      split: if_splits option.splits sum.splits)
  have u: "values_ok (ps_out ps)" "\<not> op_discover (ps_out ps)" "op_server_url (ps_out ps) = []"
    using assms(2) by (auto simp: unresolved_def)
  show ?thesis
  proof (cases "was_given (ps_out ps) OptServer")
    case False
    then show ?thesis using e u by (simp add: stage_server_def server_ok_def Let_def)
  next
    case True
    show ?thesis
    proof (cases "parse_discovery_spec (op_server (ps_out ps))")
      case None
      then obtain url where p: "parse_server_url (op_server (ps_out ps)) = Inr url"
        using assms(1) e True parse_server_url_message
        by (auto simp: stage_server_def Let_def fail_for_error split: sum.splits)
      then show ?thesis using e u True None
        by (simp add: stage_server_def server_ok_def Let_def was_given_def values_ok_def)
    next
      case (Some name)
      then have "h_mdns h" using assms(1) e True
        by (auto simp: stage_server_def Let_def fail_for_error split: if_splits)
      then show ?thesis using e u True Some
        by (simp add: stage_server_def server_ok_def Let_def was_given_def values_ok_def)
    qed
  qed
qed

lemma stage_stdout_ok:
  assumes "ps_error (stage_stdout h ps) = []"
  shows "stage_stdout h ps = ps \<and> ps_error ps = [] \<and> stdout_ok h (ps_out ps)"
  using assms
  by (auto simp: stage_stdout_def stdout_ok_def Let_def ps_fail_def split: if_splits sum.splits)

lemma stage_no_control_ok:
  assumes "ps_error (stage_no_control ps) = []"
  shows "stage_no_control ps = ps \<and> ps_error ps = []
    \<and> \<not> (was_given (ps_out ps) OptNoControl \<and> was_given (ps_out ps) OptControlSocket)"
  using assms by (auto simp: stage_no_control_def Let_def ps_fail_def split: if_splits)

lemma absent_reason_fits:
  "control_socket_absent_reason host runtime path = [] \<Longrightarrow> control_socket_path_fits (rt_sun_path host) path"
  by (auto simp: control_socket_absent_reason_def split: if_splits)

lemma stage_control_socket_out:
  "\<exists>socket reason. ps_out (stage_control_socket h origin ps) =
     (ps_out ps)\<lparr>op_control_socket := socket, op_control_absent_reason := reason\<rparr>"
proof (cases "ps_out ps")
  case (fields)
  then show ?thesis
    by (auto simp: stage_control_socket_def Let_def)
qed

lemma stage_control_socket_fits:
  assumes "ps_error (stage_control_socket h origin ps) = []"
  shows "ps_error ps = [] \<and> (let socket = op_control_socket (ps_out (stage_control_socket h origin ps)) in
     socket = [] \<or> control_socket_path_fits (rt_sun_path (h_runtime h)) socket)"
  using assms
  by (auto simp: stage_control_socket_def Let_def fail_for_error absent_reason_fits split: if_splits)

definition rooted :: "string \<Rightarrow> bool" where "rooted path \<longleftrightarrow> path \<noteq> [] \<and> hd path = CHR ''/''"

text \<open>Under \<open>-z\<close> the given paths are absolute, where the working directory is known.\<close>

definition daemon_paths_ok :: "options \<Rightarrow> bool" where
  "daemon_paths_ok out \<longleftrightarrow>
     (was_given out OptDaemonize \<longrightarrow>
        (was_given out OptPidfile \<longrightarrow> rooted (op_pidfile out)) \<and> (was_given out OptLogfile \<longrightarrow> rooted (op_logfile out))
        \<and> (was_given out OptStateDir \<longrightarrow> rooted (op_state_dir out))
        \<and> (was_given out OptControlSocket \<longrightarrow> op_control_socket out = [] \<or> rooted (op_control_socket out)))"

lemma absolute_path_rooted: "h_cwd h = Some cwd \<Longrightarrow> rooted cwd \<Longrightarrow> rooted (absolute_path h path)"
  by (auto simp: absolute_path_def rooted_def)

lemma stage_control_socket_rooted:
  assumes "ps_error (stage_control_socket h origin ps) = []" "h_cwd h = Some cwd" "rooted cwd"
    "was_given (ps_out ps) OptDaemonize" "was_given (ps_out ps) OptControlSocket"
  shows "let socket = op_control_socket (ps_out (stage_control_socket h origin ps)) in socket = [] \<or> rooted socket"
  using assms absolute_path_rooted [OF assms(2,3)]
  by (auto simp: stage_control_socket_def Let_def fail_for_error split: if_splits)

lemma default_client_name_nonempty: "default_client_name h \<noteq> []"
  by (simp add: default_client_name_def FALLBACK_NAME_def Let_def split: option.split)

text \<open>What the last stages leave of the options.\<close>

lemma finish_options:
  assumes "stage_finish h ps = (True, out, err)"
  shows "ps_error ps = [] \<and> \<not> both_disabled out \<and> op_name out \<noteq> [] \<and> op_mdns_name out \<noteq> []
    \<and> (\<forall>k. was_given out k = was_given (ps_out ps) k)
    \<and> (\<exists>name mdns pid log dir. out = (ps_out ps)\<lparr>op_name := name, op_mdns_name := mdns,
          op_pidfile := pid, op_logfile := log, op_state_dir := dir\<rparr>
        \<and> (was_given (ps_out ps) OptDaemonize \<longrightarrow>
            (was_given (ps_out ps) OptPidfile \<longrightarrow> pid = absolute_path h (op_pidfile (ps_out ps)))
            \<and> (was_given (ps_out ps) OptLogfile \<longrightarrow> log = absolute_path h (op_logfile (ps_out ps)))
            \<and> (was_given (ps_out ps) OptStateDir \<longrightarrow> dir = absolute_path h (op_state_dir (ps_out ps)))))"
proof -
  let ?o = "ps_out ps"
  let ?n = "normalize_paths h ?o"
  have e: "ps_error ps = []" "\<not> both_disabled out" "out = name_defaults h ?n"
    using assms by (auto simp: stage_finish_def Let_def split: if_splits)
  obtain pid log dir where n: "?n = ?o\<lparr>op_pidfile := pid, op_logfile := log, op_state_dir := dir\<rparr>"
    and p: "was_given ?o OptDaemonize \<longrightarrow>
            (was_given ?o OptPidfile \<longrightarrow> pid = absolute_path h (op_pidfile ?o))
            \<and> (was_given ?o OptLogfile \<longrightarrow> log = absolute_path h (op_logfile ?o))
            \<and> (was_given ?o OptStateDir \<longrightarrow> dir = absolute_path h (op_state_dir ?o))"
  proof (cases "was_given ?o OptDaemonize")
    case True
    then show ?thesis
      by (intro that [where pid = "if was_given ?o OptPidfile then absolute_path h (op_pidfile ?o) else op_pidfile ?o"
            and log = "if was_given ?o OptLogfile then absolute_path h (op_logfile ?o) else op_logfile ?o"
            and dir = "if was_given ?o OptStateDir then absolute_path h (op_state_dir ?o) else op_state_dir ?o"])
         (simp_all add: normalize_paths_def)
  next
    case False
    then show ?thesis
      by (intro that [where pid = "op_pidfile ?o" and log = "op_logfile ?o" and dir = "op_state_dir ?o"]) (simp_all add: normalize_paths_def)
  qed
  obtain name mdns where d: "out = ?n\<lparr>op_name := name, op_mdns_name := mdns\<rparr>" "name \<noteq> []" "mdns \<noteq> []"
  proof
    let ?name = "if op_name ?n = [] then default_client_name h else op_name ?n"
    let ?mdns = "if op_mdns_name ?n = [] then ?name else op_mdns_name ?n"
    show "out = ?n\<lparr>op_name := ?name, op_mdns_name := ?mdns\<rparr>"
      using e(3) default_client_name_nonempty by (simp add: name_defaults_def Let_def)
    show "?name \<noteq> []" "?mdns \<noteq> []" using default_client_name_nonempty by simp_all
  qed
  have "was_given out k = was_given ?o k" for k using n d(1) by (simp add: was_given_def)
  moreover have "out = ?o\<lparr>op_name := name, op_mdns_name := mdns, op_pidfile := pid, op_logfile := log, op_state_dir := dir\<rparr>"
    using n d(1) by simp
  moreover have "op_name out \<noteq> []" "op_mdns_name out \<noteq> []" using d by simp_all
  ultimately show ?thesis using e(1,2) p by blast
qed

lemma stage_subcommand_unresolved:
  "stage_subcommand argv out = (ps, n) \<Longrightarrow> unresolved out \<Longrightarrow> unresolved (ps_out ps)"
  by (auto simp: stage_subcommand_def Let_def split: sum.splits if_splits)

lemma stage_words_out [simp]: "ps_out (stage_words argv ws ps) = ps_out ps"
  by (simp add: stage_words_def split: list.split)

lemma server_ok_cong:
  "was_given a OptServer = was_given b OptServer \<Longrightarrow> op_discover a = op_discover b \<Longrightarrow>
     op_discover_name a = op_discover_name b \<Longrightarrow> op_server a = op_server b \<Longrightarrow>
     op_server_url a = op_server_url b \<Longrightarrow> server_ok h a = server_ok h b"
  by (simp add: server_ok_def)

lemma stdout_ok_cong:
  "was_given a OptDaemonize = was_given b OptDaemonize \<Longrightarrow> was_given a OptDevice = was_given b OptDevice \<Longrightarrow>
     op_device a = op_device b \<Longrightarrow> stdout_ok h a = stdout_ok h b"
  by (simp add: stdout_ok_def)

lemma check_options_ok:
  assumes "ps_error (check_options h ps0) = []" "unresolved (ps_out ps0)" "h_cwd h = Some cwd \<and> rooted cwd"
  shows "let out = ps_out (check_options h ps0) in
    values_ok out \<and> server_ok h out \<and> stdout_ok h out \<and> socket_ok h out
    \<and> (was_given out OptDaemonize \<and> was_given out OptControlSocket \<longrightarrow>
         op_control_socket out = [] \<or> rooted (op_control_socket out))"
proof -
  obtain ps1 origin where c: "stage_config h ps0 = (ps1, origin)" by fastforce
  let ?ps2 = "stage_server h origin ps1"
  let ?ps3 = "stage_stdout h ?ps2"
  let ?ps4 = "stage_no_control ?ps3"
  let ?ps5 = "stage_control_socket h origin ?ps4"
  have all: "check_options h ps0 = ?ps5" by (simp add: check_options_def c)
  have e5: "ps_error ?ps5 = []" using assms(1) all by simp
  note f = stage_control_socket_fits [OF e5]
  note n = stage_no_control_ok [OF conjunct1 [OF f]]
  have e3: "ps_error ?ps3 = []" using n by blast
  note s = stage_stdout_ok [OF e3]
  have e2: "ps_error ?ps2 = []" using s by metis
  have e1: "ps_error ps1 = []"
    using e2 by (auto simp: stage_server_def Let_def fail_for_def ps_fail_def split: if_splits option.splits sum.splits)
  have u: "unresolved (ps_out ps1)" using stage_config_unresolved [OF c assms(2) e1] by blast
  note v = stage_server_ok [OF e2 u]
  have p4: "?ps4 = ?ps2" using n s by metis
  obtain socket reason where o5: "ps_out ?ps5 = (ps_out ?ps2)\<lparr>op_control_socket := socket, op_control_absent_reason := reason\<rparr>"
    using stage_control_socket_out [of h origin ?ps4] unfolding p4 by blast
  have g: "was_given (ps_out ?ps5) k = was_given (ps_out ?ps2) k" for k by (simp add: o5 was_given_def)
  have "values_ok (ps_out ?ps5)" using v by (simp add: o5 values_ok_def)
  moreover have "server_ok h (ps_out ?ps5)" using v by (subst server_ok_cong [OF g]) (simp_all add: o5)
  moreover have "stdout_ok h (ps_out ?ps5)" using conjunct2 [OF conjunct2 [OF s]]
    by (subst stdout_ok_cong [OF g g]) (simp_all add: o5)
  moreover have "socket_ok h (ps_out ?ps5)"
  proof -
    have "\<not> (was_given (ps_out ?ps2) OptNoControl \<and> was_given (ps_out ?ps2) OptControlSocket)"
      using n s by metis
    moreover have "op_control_socket (ps_out ?ps5) = []
        \<or> control_socket_path_fits (rt_sun_path (h_runtime h)) (op_control_socket (ps_out ?ps5))"
      using f unfolding Let_def by blast
    ultimately show ?thesis unfolding socket_ok_def using g by blast
  qed
  moreover have "was_given (ps_out ?ps5) OptDaemonize \<and> was_given (ps_out ?ps5) OptControlSocket \<longrightarrow>
      op_control_socket (ps_out ?ps5) = [] \<or> rooted (op_control_socket (ps_out ?ps5))"
    using stage_control_socket_rooted [OF e5, of cwd] assms(3) g [of OptDaemonize] g [of OptControlSocket]
    unfolding p4 Let_def by blast
  ultimately show ?thesis unfolding all Let_def by blast
qed

section \<open>Properties\<close>

text \<open>
  C5. A caller that gets true back holds options it can act on: every number is in its range and
  every enumerated value one of its values, the names are not empty, \<open>-s\<close> has been resolved to a
  discovery or to the URL the parser gives (and without \<open>-s\<close> there is neither), a daemon never
  writes PCM to its closed standard output, \<open>--no-control\<close> and \<open>--control-socket\<close> are not both
  given, the socket path fits an address, the paths of a daemon are absolute, and a player has at
  least one role; from the command line or the config file alike.
\<close>

theorem accepted_options_are_sound:
  assumes "parse_options h argv (default_options h) = (True, out, err)"
    "\<not> op_show_help out" "\<not> op_show_version out" "h_cwd h = Some cwd" "rooted cwd"
  shows "values_ok out \<and> op_name out \<noteq> [] \<and> op_mdns_name out \<noteq> []
    \<and> server_ok h out \<and> stdout_ok h out \<and> socket_ok h out \<and> daemon_paths_ok out
    \<and> (op_subcommand out \<noteq> [] \<or> op_player_enabled out \<or> op_source_enabled out)"
proof -
  obtain ps0 n where s: "stage_subcommand argv (default_options h) = (ps0, n)" by fastforce
  obtain events left_over where g: "h_getopt h SHORT_OPTS long_opts (hd argv # drop (if n = 0 then 1 else n) argv) = (events, left_over)"
    by fastforce
  obtain early ps1 where l: "getopt_loop h events ps0 = (early, ps1)" by fastforce
  have "\<not> early" using assms(1-3) getopt_loop_early [of h events ps0 ps1] s g l
    by (auto simp: parse_options_def)
  then have l': "getopt_loop h events ps0 = (False, ps1)" using l by simp
  let ?c = "check_options h (stage_words argv left_over ps1)"
  have fin: "stage_finish h ?c = (True, out, err)" using assms(1) s g l' by (simp add: parse_options_def)
  note f = finish_options [OF fin]
  have u: "unresolved (ps_out (stage_words argv left_over ps1))"
    using getopt_loop_unresolved [OF l' stage_subcommand_unresolved [OF s default_unresolved]] by simp
  have c: "values_ok (ps_out ?c)" "server_ok h (ps_out ?c)" "stdout_ok h (ps_out ?c)" "socket_ok h (ps_out ?c)"
    "was_given (ps_out ?c) OptDaemonize \<and> was_given (ps_out ?c) OptControlSocket \<longrightarrow>
       op_control_socket (ps_out ?c) = [] \<or> rooted (op_control_socket (ps_out ?c))"
    using check_options_ok [OF _ u] f assms(4,5) by (auto simp: Let_def)
  obtain name mdns pid log dir where o: "out = (ps_out ?c)\<lparr>op_name := name, op_mdns_name := mdns,
          op_pidfile := pid, op_logfile := log, op_state_dir := dir\<rparr>"
    and p: "was_given (ps_out ?c) OptDaemonize \<longrightarrow>
            (was_given (ps_out ?c) OptPidfile \<longrightarrow> pid = absolute_path h (op_pidfile (ps_out ?c)))
            \<and> (was_given (ps_out ?c) OptLogfile \<longrightarrow> log = absolute_path h (op_logfile (ps_out ?c)))
            \<and> (was_given (ps_out ?c) OptStateDir \<longrightarrow> dir = absolute_path h (op_state_dir (ps_out ?c)))"
    using f by blast
  have w: "was_given out k = was_given (ps_out ?c) k" for k using f by blast
  have "values_ok out" using c(1) by (simp add: o values_ok_def)
  moreover have "server_ok h out" using c(2) by (subst server_ok_cong [OF w]) (simp_all add: o)
  moreover have "stdout_ok h out" using c(3) by (subst stdout_ok_cong [OF w w]) (simp_all add: o)
  moreover have "socket_ok h out" using c(4) by (simp add: socket_ok_def w) (simp add: o)
  moreover have "daemon_paths_ok out"
    using c(5) p absolute_path_rooted [OF assms(4,5)] by (simp add: daemon_paths_ok_def w) (simp add: o)
  moreover have "op_subcommand out \<noteq> [] \<or> op_player_enabled out \<or> op_source_enabled out"
    using f by (auto simp: both_disabled_def)
  ultimately show ?thesis using f by blast
qed

theorem accepted_options_are_sound_witness:
  "values_ok (fst (snd (parse_options (plain_host Map.empty []) [''sendspin-cli''] (default_options (plain_host Map.empty [])))))"
proof -
  let ?h = "plain_host Map.empty []"
  let ?r = "parse_options ?h [''sendspin-cli''] (default_options ?h)"
  define d where "d = default_options ?h"
  define ps where "ps = \<lparr>ps_out = d, ps_error = [], ps_err = []\<rparr>"
  have pd: "ps_out ps = d" by (simp add: ps_def)
  have g: "\<not> was_given d k" for k by (simp add: d_def)
  have v: "op_subcommand d = []" "op_subcommand_args d = []" "op_config_path d = []" "op_no_control d = False"
    "op_list_devices d = False" "op_player_enabled d" "op_show_help d = False" "op_show_version d = False"
    by (simp_all add: d_def default_options_def)
  have "stage_subcommand [''sendspin-cli''] d = (ps, 0)"
    using v by (simp add: stage_subcommand_def split_subcommand_def ps_def)
  moreover have "h_getopt ?h a b c = ([], [])" for a b c by (simp add: plain_host_def)
  moreover have "stage_words [''sendspin-cli''] [] ps = ps" by (simp add: stage_words_def)
  ultimately have r: "?r = stage_finish ?h (check_options ?h ps)" by (simp add: parse_options_def d_def)
  have c: "load_config_file (h_files ?h) [] (config_search_paths (h_env ?h)) = Inr \<lparr>config_path = [], config_entries = []\<rparr>"
    unfolding plain_host_def by code_simp
  have "stage_config ?h ps = (ps, Map.empty)"
    using g v c by (simp add: stage_config_def ps_def merge_config_def Let_def)
  moreover have "stage_server ?h Map.empty ps = ps" "stage_stdout ?h ps = ps" "stage_no_control ps = ps"
    using g by (simp_all add: stage_server_def stage_stdout_def stage_no_control_def ps_def Let_def)
  ultimately have k: "check_options ?h ps = stage_control_socket ?h Map.empty ps" by (simp add: check_options_def)
  obtain socket reason where s: "ps_out (check_options ?h ps) = d\<lparr>op_control_socket := socket, op_control_absent_reason := reason\<rparr>"
    using stage_control_socket_out [of ?h Map.empty ps] pd unfolding k by auto
  have e: "ps_error (check_options ?h ps) = []" using g v unfolding k by (simp add: stage_control_socket_def ps_def Let_def)
  have "normalize_paths ?h (ps_out (check_options ?h ps)) = ps_out (check_options ?h ps)"
    using g [of OptDaemonize] by (simp add: s normalize_paths_def was_given_def)
  then have "fst ?r" "\<not> op_show_help (fst (snd ?r))" "\<not> op_show_version (fst (snd ?r))"
    using e v by (simp_all add: r stage_finish_def s name_defaults_def both_disabled_def Let_def)
  moreover have "h_cwd ?h = Some ''/home/op''" "rooted ''/home/op''" by (simp_all add: plain_host_def rooted_def)
  moreover have "?r = (fst ?r, fst (snd ?r), snd (snd ?r))" by simp
  ultimately show ?thesis
    using accepted_options_are_sound [of ?h "[''sendspin-cli'']" "fst (snd ?r)" "snd (snd ?r)" "''/home/op''"] by metis
qed

text \<open>The flag of an option: what the table of long options holds under its key.\<close>

fun key_code :: "opt \<Rightarrow> has_arg \<times> flag_code" where
  "key_code OptDevice = (required_argument, Short (CHR ''o''))"
| "key_code OptInputDevice = (required_argument, Short (CHR ''i''))"
| "key_code OptName = (required_argument, Short (CHR ''n''))"
| "key_code OptServer = (required_argument, Short (CHR ''s''))"
| "key_code OptPidfile = (required_argument, Short (CHR ''P''))"
| "key_code OptLogfile = (required_argument, Short (CHR ''f''))"
| "key_code OptLogLevel = (required_argument, Short (CHR ''d''))"
| "key_code OptPort = (required_argument, Long OPT_PORT)"
| "key_code OptBufferMs = (required_argument, Long OPT_BUFFER_MS)"
| "key_code OptStaticDelay = (required_argument, Long OPT_STATIC_DELAY)"
| "key_code OptMdnsName = (required_argument, Long OPT_MDNS_NAME)"
| "key_code OptControlSocket = (required_argument, Long OPT_CONTROL_SOCKET)"
| "key_code OptStateDir = (required_argument, Long OPT_STATE_DIR)"
| "key_code OptHookStart = (required_argument, Long OPT_HOOK_START)"
| "key_code OptHookStop = (required_argument, Long OPT_HOOK_STOP)"
| "key_code OptClientId = (required_argument, Long OPT_ID)"
| "key_code OptManufacturer = (required_argument, Long OPT_MANUFACTURER)"
| "key_code OptProductName = (required_argument, Long OPT_PRODUCT_NAME)"
| "key_code OptPlayerEnabled = (required_argument, Long OPT_PLAYER_ENABLED)"
| "key_code OptSourceEnabled = (required_argument, Long OPT_SOURCE_ENABLED)"
| "key_code OptLineSense = (required_argument, Long OPT_LINE_SENSE)"
| "key_code OptLineSenseDbfs = (required_argument, Long OPT_LINE_SENSE_DBFS)"
| "key_code OptLineSenseAttackMs = (required_argument, Long OPT_LINE_SENSE_ATTACK_MS)"
| "key_code OptLineSenseReleaseMs = (required_argument, Long OPT_LINE_SENSE_RELEASE_MS)"
| "key_code OptSourceStreamStyle = (required_argument, Long OPT_SOURCE_STREAM_STYLE)"
| "key_code OptAudioFormat = (required_argument, Long OPT_AUDIO_FORMAT)"
| "key_code OptConfig = (required_argument, Long OPT_CONFIG)"
| "key_code OptNoMdns = (no_argument, Long OPT_NO_MDNS)"
| "key_code OptNoControl = (no_argument, Long OPT_NO_CONTROL)"
| "key_code OptListDevices = (no_argument, Short (CHR ''l''))"
| "key_code OptDaemonize = (no_argument, Short (CHR ''z''))"

lemma key_code_table: "s \<in> set settable_options \<Longrightarrow> (so_key s, key_code (so_opt s)) \<in> set long_opts"
proof -
  have "list_all (\<lambda>s. List.member long_opts (so_key s, key_code (so_opt s))) settable_options" by code_simp
  then show "s \<in> set settable_options \<Longrightarrow> ?thesis" by (simp add: list_all_iff)
qed

lemma key_code_applies:
  "k \<notin> {OptListDevices, OptDaemonize, OptConfig} \<Longrightarrow>
     flag_applies (snd (key_code k)) v =
       (k, if fst (key_code k) = required_argument then v else ''true'')
         # (if k = OptAudioFormat then [(OptInputDevice, v)] else [])"
  by (cases k) (simp_all add: flag_applies_def)

lemma settable_shape:
  "s \<in> set settable_options \<Longrightarrow> so_opt s \<notin> {OptListDevices, OptDaemonize, OptConfig} \<and> settable_option_for (so_opt s) = s"
proof -
  have "list_all (\<lambda>s. so_opt s \<notin> {OptListDevices, OptDaemonize, OptConfig} \<and> settable_option_for (so_opt s) = s) settable_options"
    by code_simp
  then show "s \<in> set settable_options \<Longrightarrow> ?thesis" by (simp add: list_all_iff)
qed

text \<open>
  One vocabulary: every key a config file may set is a long flag of the command line, its value
  reaches the same option by the same call, and (the switches carrying \<open>true\<close>) with the same text;
  except that \<open>--audio-format\<close> makes a second call, which its key in a file does not.
\<close>

lemma config_keys_are_flags:
  "\<forall>s \<in> set settable_options. settable_option_for (so_opt s) = s \<and>
     (\<exists>arg code. (so_key s, arg, code) \<in> set long_opts \<and>
       (\<forall>v. flag_applies code v =
          (so_opt s, if arg = required_argument then v else ''true'')
            # (if so_opt s = OptAudioFormat then [(OptInputDevice, v)] else [])))"
proof
  fix s assume s: "s \<in> set settable_options"
  obtain arg code where k: "key_code (so_opt s) = (arg, code)" by fastforce
  have "(so_key s, arg, code) \<in> set long_opts" using key_code_table [OF s] k by simp
  moreover have "flag_applies code v = (so_opt s, if arg = required_argument then v else ''true'')
            # (if so_opt s = OptAudioFormat then [(OptInputDevice, v)] else [])" for v
    using key_code_applies [of "so_opt s" v] settable_shape [OF s] k by simp
  ultimately show "settable_option_for (so_opt s) = s \<and>
     (\<exists>arg code. (so_key s, arg, code) \<in> set long_opts \<and>
       (\<forall>v. flag_applies code v =
          (so_opt s, if arg = required_argument then v else ''true'')
            # (if so_opt s = OptAudioFormat then [(OptInputDevice, v)] else [])))"
    using settable_shape [OF s] by blast
qed

text \<open>
  \<open>--audio-format\<close> also sets the capture device: its case falls through into that of \<open>-i\<close>, so a
  valid format is stored and its text becomes the input device, marked as given; the same value in
  a config file leaves the input device alone.
\<close>

lemma audio_format_flag_sets_input_device:
  assumes "parse_format_spec v = Inr f" "ps_error ps = []"
  shows "(case handle_event h (GotOption (Long OPT_AUDIO_FORMAT) v) ps of
      (early, ps') \<Rightarrow> \<not> early \<and> ps_error ps' = [] \<and> op_audio_format (ps_out ps') = Some f
        \<and> op_input_device (ps_out ps') = v \<and> was_given (ps_out ps') OptInputDevice)
    \<and> (\<exists>out. apply_option h (settable_option_for OptAudioFormat) v (ps_out ps) = Inr out
        \<and> op_audio_format out = Some f \<and> op_input_device out = op_input_device (ps_out ps))"
proof -
  have k: "settable_option_for OptAudioFormat = setting OptAudioFormat ''audio-format'' ''--audio-format''"
    "settable_option_for OptInputDevice = setting OptInputDevice ''input'' ''-i''"
    by (simp_all add: settable_option_for_def settable_options_def)
  have "v \<noteq> []" using assms(1) by (auto simp: parse_format_spec_def split_colons.simps [of "[]"])
  then show ?thesis using assms
    by (simp add: handle_event_def flag_applies_def apply_flag_def k apply_option_def assign_option_def)
      (simp add: mark_given_def)
qed

end
