(* ===== verification/MdnsCommon.thy ===== *)
theory MdnsCommon
  imports ServerUrl
begin

text \<open>
  \<^verbatim>\<open>src/src/mdns.h\<close> and \<^verbatim>\<open>src/src/mdns_common.cpp\<close>: the URL of a discovered server, which server
  is chosen, and the truncation of texts to their byte limits. \<^verbatim>\<open>inet_pton\<close> is the parameter
  \<open>inet\<close>: the IPv4 address in host order, and the sixteen bytes of an IPv6 address.
\<close>

unbundle bit_operations_syntax

section \<open>Definitions\<close>

record inet_pton =
  inet_v4 :: "string \<Rightarrow> u32 option"
  inet_v6 :: "string \<Rightarrow> u8 list option"

datatype address_kind = AddrInvalid | AddrUnusable | AddrIPv4 | AddrIPv6

definition MDNS_MAX_LABEL_BYTES :: nat where "MDNS_MAX_LABEL_BYTES = 63"
definition MDNS_MAX_TXT_VALUE_BYTES :: nat where "MDNS_MAX_TXT_VALUE_BYTES = 255"

record discovered_server =
  sv_instance :: string
  sv_name :: string
  sv_path :: string
  sv_port :: u16
  sv_addresses :: "string list"

definition classify_address :: "inet_pton \<Rightarrow> string \<Rightarrow> address_kind" where
  "classify_address inet text =
     (case inet_v4 inet text of
        Some host_order \<Rightarrow>
          (let link_local = (host_order AND 0xFFFF0000 = 0xA9FE0000); unspecified = (host_order = 0)
           in if link_local \<or> unspecified then AddrUnusable else AddrIPv4)
      | None \<Rightarrow>
     (case inet_v6 inet text of
        Some bytes \<Rightarrow>
          (let link_local = (bytes ! 0 = 0xFE \<and> bytes ! 1 AND 0xC0 = 0x80);
               unspecified = list_all (\<lambda>byte. byte = 0) bytes
           in if link_local \<or> unspecified then AddrUnusable else AddrIPv6)
      | None \<Rightarrow> AddrInvalid))"

text \<open>The loop over the addresses: the IPv4 URL that ends it, or the first IPv6 it kept.\<close>

fun address_loop :: "inet_pton \<Rightarrow> string list \<Rightarrow> string option \<Rightarrow> string option \<times> string option" where
  "address_loop inet [] first_v6 = (None, first_v6)"
| "address_loop inet (address # addresses) first_v6 =
     (case classify_address inet address of
        AddrIPv4 \<Rightarrow> (Some address, first_v6)
      | AddrIPv6 \<Rightarrow> address_loop inet addresses (if first_v6 = None then Some address else first_v6)
      | AddrUnusable \<Rightarrow> address_loop inet addresses first_v6
      | AddrInvalid \<Rightarrow> address_loop inet addresses first_v6)"

definition discovered_server_url :: "inet_pton \<Rightarrow> discovered_server \<Rightarrow> string + string" where
  "discovered_server_url inet server =
     (if sv_path server = [] then Inl (''no TXT '' @ quoted ''path'' @ '' record'')
      else if hd (sv_path server) \<noteq> CHR ''/''
      then Inl (''TXT '' @ quoted ''path'' @ '' is '' @ quoted (sv_path server) @
                '', which does not start with '' @ quoted ''/'')
      else if sv_port server = 0 then Inl ''no SRV port''
      else case address_loop inet (sv_addresses server) None of
        (Some address, _) \<Rightarrow>
          Inr (''ws://'' @ address @ '':'' @ to_string (unat (sv_port server)) @ sv_path server)
      | (None, Some first_v6) \<Rightarrow>
          Inr (''ws://['' @ first_v6 @ '']:'' @ to_string (unat (sv_port server)) @ sv_path server)
      | (None, None) \<Rightarrow>
          Inl (if sv_addresses server = [] then ''no address yet''
               else ''no routable address (only link-local or unspecified)''))"

fun select_loop ::
  "discovered_server list \<Rightarrow> string \<Rightarrow> string \<Rightarrow> discovered_server option \<Rightarrow> (discovered_server \<times> string) option"
where
  "select_loop [] name_filter remembered first_match =
     (case first_match of None \<Rightarrow> None
      | Some s \<Rightarrow> Some (s, if name_filter = [] then ''it resolved first''
                          else ''it resolved first among those named '' @ quoted name_filter))"
| "select_loop (server # servers) name_filter remembered first_match =
     (if name_filter \<noteq> [] \<and> sv_name server \<noteq> name_filter
      then select_loop servers name_filter remembered first_match
      else if remembered \<noteq> [] \<and> sv_instance server = remembered
      then Some (server, ''it is the last server whose handshake completed'')
      else select_loop servers name_filter remembered
             (if first_match = None then Some server else first_match))"

definition select_server ::
  "discovered_server list \<Rightarrow> string \<Rightarrow> string \<Rightarrow> (discovered_server \<times> string) option" where
  "select_server servers name_filter remembered = select_loop servers name_filter remembered None"

definition continuation :: "char \<Rightarrow> bool" where
  "continuation c \<longleftrightarrow> (of_char c :: u8) AND 0xC0 = 0x80"

fun cut_loop :: "string \<Rightarrow> nat \<Rightarrow> nat" where
  "cut_loop text 0 = 0"
| "cut_loop text (Suc pos) = (if continuation (text ! Suc pos) then cut_loop text pos else Suc pos)"

definition truncate_utf8 :: "string \<Rightarrow> nat \<Rightarrow> string" where
  "truncate_utf8 text max_bytes =
     (if length text \<le> max_bytes then text else substr text 0 (cut_loop text max_bytes))"

section \<open>The URL\<close>

definition routable_v4 :: "inet_pton \<Rightarrow> string \<Rightarrow> bool" where
  "routable_v4 inet a \<longleftrightarrow> classify_address inet a = AddrIPv4"

definition routable_v6 :: "inet_pton \<Rightarrow> string \<Rightarrow> bool" where
  "routable_v6 inet a \<longleftrightarrow> classify_address inet a = AddrIPv6"

lemma address_loop_finds:
  "address_loop inet as v =
     (case find (routable_v4 inet) as of
        Some a \<Rightarrow> (Some a, snd (address_loop inet as v))
      | None \<Rightarrow> (None, case v of Some b \<Rightarrow> Some b | None \<Rightarrow> find (routable_v6 inet) as))"
  by (induction as arbitrary: v)
     (auto simp: routable_v4_def routable_v6_def split: address_kind.splits option.splits)

lemma ws_url_accepted: "s \<noteq> [] \<Longrightarrow> parse_server_url (''ws://'' @ s) = Inr (''ws://'' @ s)"
  by (simp add: parse_server_url_def substr_def Let_def)

text \<open>
  Which address of a discovered server is dialled: the first routable IPv4 address, else the
  first routable IPv6 address in brackets, wherever in the list they stand; link-local, unspecified
  and unreadable ones never. An instance without a TXT path that starts with a slash, without a port
  or without a routable address has no URL; a URL there is can be given to \<open>-s\<close>, which takes it
  unchanged.
\<close>

lemma discovered_url_prefers_ipv4:
  "(case discovered_server_url inet server of
      Inl _ \<Rightarrow> sv_path server = [] \<or> hd (sv_path server) \<noteq> CHR ''/'' \<or> sv_port server = 0
        \<or> (find (routable_v4 inet) (sv_addresses server) = None
            \<and> find (routable_v6 inet) (sv_addresses server) = None)
    | Inr url \<Rightarrow> sv_path server \<noteq> [] \<and> hd (sv_path server) = CHR ''/'' \<and> sv_port server \<noteq> 0
        \<and> parse_server_url url = Inr url
        \<and> (case find (routable_v4 inet) (sv_addresses server) of
             Some a \<Rightarrow> url = ''ws://'' @ a @ '':'' @ to_string (unat (sv_port server)) @ sv_path server
           | None \<Rightarrow> (case find (routable_v6 inet) (sv_addresses server) of
               Some a \<Rightarrow> url = ''ws://['' @ a @ '']:'' @ to_string (unat (sv_port server)) @ sv_path server
             | None \<Rightarrow> False)))"
proof (cases "find (routable_v4 inet) (sv_addresses server)")
  case None
  then have "address_loop inet (sv_addresses server) None = (None, find (routable_v6 inet) (sv_addresses server))"
    using address_loop_finds [of inet "sv_addresses server" None] by simp
  then show ?thesis using None
    by (auto simp: discovered_server_url_def ws_url_accepted [simplified] split: option.split)
next
  case (Some a)
  then obtain v where "address_loop inet (sv_addresses server) None = (Some a, v)"
    using address_loop_finds [of inet "sv_addresses server" None] by simp
  then show ?thesis using Some by (simp add: discovered_server_url_def ws_url_accepted [simplified])
qed

section \<open>The choice\<close>

lemma select_loop_spec:
  "map_option fst (select_loop servers f r first) =
     (let matches = filter (\<lambda>s. f = [] \<or> sv_name s = f) servers in
      case find (\<lambda>s. r \<noteq> [] \<and> sv_instance s = r) matches of
        Some s \<Rightarrow> Some s
      | None \<Rightarrow> (case first of Some s \<Rightarrow> Some s
                | None \<Rightarrow> (case matches of [] \<Rightarrow> None | s # _ \<Rightarrow> Some s)))"
proof (induction servers arbitrary: first)
  case (Cons s servers)
  show ?case
  proof (cases "f = [] \<or> sv_name s = f")
    case True
    then have keep: "(f \<noteq> [] \<and> sv_name s \<noteq> f) = False" by blast
    show ?thesis
    proof (cases "r \<noteq> [] \<and> sv_instance s = r")
      case hit: True
      then show ?thesis using True by (simp add: keep Let_def)
    next
      case False
      then show ?thesis using True Cons [of "if first = None then Some s else first"]
        by (cases first) (simp_all only: select_loop.simps keep if_False filter.simps Let_def
          simp_thms find.simps if_True refl option.distinct option.case list.case split: option.splits)
    qed
  next
    case False
    then show ?thesis using Cons [of first] by (simp add: Let_def)
  qed
qed (simp split: option.split)

lemma select_server_spec:
  "map_option fst (select_server servers name_filter remembered) =
     (let matches = filter (\<lambda>s. name_filter = [] \<or> sv_name s = name_filter) servers in
      case find (\<lambda>s. remembered \<noteq> [] \<and> sv_instance s = remembered) matches of
        Some s \<Rightarrow> Some s
      | None \<Rightarrow> (case matches of [] \<Rightarrow> None | s # _ \<Rightarrow> Some s))"
  using select_loop_spec [of servers name_filter remembered None]
  by (simp add: select_server_def Let_def split: option.split)

text \<open>
  The server that is dialled, of those found: only one named as \<open>--server-name\<close> asks; among
  these the one whose handshake last completed, wherever it stands; else the one that resolved
  first; none when no name matches.
\<close>

lemma server_choice_is_remembered_or_first:
  "map_option fst (select_server servers name_filter remembered) =
     (let matches = filter (\<lambda>s. name_filter = [] \<or> sv_name s = name_filter) servers in
      case find (\<lambda>s. remembered \<noteq> [] \<and> sv_instance s = remembered) matches of
        Some s \<Rightarrow> Some s
      | None \<Rightarrow> (case matches of [] \<Rightarrow> None | s # _ \<Rightarrow> Some s))"
  by (rule select_server_spec)

section \<open>Truncation\<close>

lemma cut_loop_le: "cut_loop text n \<le> n"
  by (induction n) auto

lemma cut_loop_boundary: "cut_loop text n = 0 \<or> \<not> continuation (text ! cut_loop text n)"
  by (induction n) auto

lemma cut_loop_longest: "cut_loop text n < k \<Longrightarrow> k \<le> n \<Longrightarrow> continuation (text ! k)"
  by (induction n) (auto simp: le_Suc_eq split: if_splits)

text \<open>
  A text is shortened to at most the limit, is a prefix of what it was, and never ends inside a
  UTF-8 sequence: the byte after the cut starts a character, and no later cut within the limit has
  that. A text within the limit is unchanged.
\<close>

lemma truncation_keeps_characters_whole:
  "(let t = truncate_utf8 text limit in
    (if length text \<le> limit then t = text
     else length t \<le> limit \<and> t = take (length t) text
       \<and> (t = [] \<or> \<not> continuation (text ! length t))
       \<and> list_all (\<lambda>k. continuation (text ! k)) [Suc (length t)..<Suc limit]))"
proof (cases "length text \<le> limit")
  case False
  then have "length (truncate_utf8 text limit) = cut_loop text limit"
    using cut_loop_le [of "text" limit] by (simp add: truncate_utf8_def substr_def)
  then show ?thesis
    using False cut_loop_le [of "text" limit] cut_loop_boundary [of "text" limit] cut_loop_longest [of "text" limit]
    by (auto simp: truncate_utf8_def substr_def Let_def list_all_iff)
qed (simp add: truncate_utf8_def)

end
