(* ===== verification/Handles.thy ===== *)
theory Handles
  imports Prelude "HOL-Library.Multiset"
begin

text \<open>
  Handles a library or the kernel hands out and wants back once each: the refs of \<^verbatim>\<open>dns_sd.h\<close>, the
  descriptors of accepted connections. The table says which are out, and whether one was ever given
  back that was not. \<open>handles_hold\<close> is the ownership the components prove: exactly these are out.
\<close>

record handles =
  h_live :: "nat list"
  h_next :: nat
  h_misuse :: bool

definition no_handles :: handles where
  "no_handles = \<lparr>h_live = [], h_next = 0, h_misuse = False\<rparr>"

definition handle_new :: "handles \<Rightarrow> nat \<times> handles" where
  "handle_new l = (h_next l, l\<lparr>h_live := h_next l # h_live l, h_next := h_next l + 1\<rparr>)"

definition handle_free :: "nat \<Rightarrow> handles \<Rightarrow> handles" where
  "handle_free r l = (if r \<in> set (h_live l) then l\<lparr>h_live := remove1 r (h_live l)\<rparr> else l\<lparr>h_misuse := True\<rparr>)"

definition handles_hold :: "handles \<Rightarrow> nat multiset \<Rightarrow> bool" where
  "handles_hold l M \<longleftrightarrow> mset (h_live l) = M \<and> distinct (h_live l) \<and> \<not> h_misuse l
     \<and> (\<forall>r \<in> set (h_live l). r < h_next l)"

lemma no_handles_hold [simp]: "handles_hold no_handles {#}"
  by (simp add: handles_hold_def no_handles_def)

lemma handle_new_holds: "handle_new l = (r, l') \<Longrightarrow> handles_hold l M \<Longrightarrow> handles_hold l' (add_mset r M)"
  by (fastforce simp: handle_new_def handles_hold_def)

lemma handle_free_holds: "handles_hold l (add_mset r M) \<Longrightarrow> handles_hold (handle_free r l) M"
proof -
  assume h: "handles_hold l (add_mset r M)"
  then have "r \<in> set (h_live l)" by (metis handles_hold_def set_mset_mset union_single_eq_member)
  then show ?thesis using h
    by (auto simp: handles_hold_def handle_free_def mset_remove1 dest: subsetD [OF set_remove1_subset])
qed

lemma handles_free_all: "handles_hold l (mset rs + M) \<Longrightarrow> handles_hold (fold handle_free rs l) M"
  by (induction rs arbitrary: l) (simp_all add: handle_free_holds)

end
