(* ===== verification/MdnsService.thy ===== *)
theory MdnsService
  imports MdnsCommon Outbound StdMap Handles
begin

text \<open>
  \<^verbatim>\<open>MdnsService::Impl\<close> of \<^verbatim>\<open>src/src/mdns_dnssd.cpp\<close>: the registration and the browse, the
  candidates being resolved, and the pump that runs the callbacks. The \<^verbatim>\<open>dns_sd.h\<close> library is the
  table \<open>handles\<close>: which refs it has handed out and not had back, and whether one was ever given
  back that was not out. What it answers, and which callbacks one
  \<^verbatim>\<open>DNSServiceProcessResult\<close> makes, are inputs of each operation: a ref's callbacks are those of
  the operation it was made for, with that operation's context. Log lines are left out.
\<close>

text \<open>\<open>release\<close>: a null ref is left alone; the caller's field is null afterwards.\<close>

definition lib_release :: "nat option \<Rightarrow> handles \<Rightarrow> handles" where
  "lib_release r l = (case r of None \<Rightarrow> l | Some x \<Rightarrow> handle_free x l)"

section \<open>State\<close>

definition ADDRESS_SETTLE_MS :: int where "ADDRESS_SETTLE_MS = 250"

record candidate =
  cd_instance :: string
  cd_name :: string
  cd_path :: string
  cd_host :: string
  cd_port :: u16
  cd_interface_index :: u32
  cd_interfaces :: "u32 list"
  cd_addresses :: "string list"
  cd_resolve_ref :: "nat option"
  cd_v4_ref :: "nat option"
  cd_v6_ref :: "nat option"
  cd_first_address_ms :: int
  cd_resolved_seq :: nat
  cd_announced :: bool
  cd_unusable :: bool

definition new_candidate :: "string \<Rightarrow> u32 \<Rightarrow> nat \<Rightarrow> candidate" where
  "new_candidate instance_name interface_index ref =
     \<lparr>cd_instance = instance_name, cd_name = [], cd_path = [], cd_host = [], cd_port = 0,
      cd_interface_index = interface_index, cd_interfaces = [interface_index], cd_addresses = [],
      cd_resolve_ref = Some ref, cd_v4_ref = None, cd_v6_ref = None, cd_first_address_ms = - 1,
      cd_resolved_seq = 0, cd_announced = False, cd_unusable = False\<rparr>"

record mdns =
  md_advertise_wanted :: bool
  md_advertise_instance :: string
  md_advertise_path :: string
  md_advertise_friendly_name :: string
  md_advertise_port :: u16
  md_browse_wanted :: bool
  md_register_ref :: "nat option"
  md_browse_ref :: "nat option"
  md_candidates :: "(string, candidate) std_map"
  md_contexts :: "string list"
  md_retired :: "nat list"
  md_doomed :: "string list"
  md_next_seq :: nat
  md_restart_at_ms :: int
  md_restart_attempt :: u32
  md_now_ms :: int
  md_lib :: handles

definition new_mdns :: mdns where
  "new_mdns =
     \<lparr>md_advertise_wanted = False, md_advertise_instance = [], md_advertise_path = [],
      md_advertise_friendly_name = [], md_advertise_port = 0, md_browse_wanted = False,
      md_register_ref = None, md_browse_ref = None, md_candidates = [], md_contexts = [],
      md_retired = [], md_doomed = [], md_next_seq = 1, md_restart_at_ms = - 1,
      md_restart_attempt = 0, md_now_ms = 0,
      md_lib = \<lparr>h_live = [], h_next = 0, h_misuse = False\<rparr>\<rparr>"

section \<open>Lifecycle\<close>

text \<open>What \<^verbatim>\<open>DNSServiceRegister\<close> is given: the label and the TXT record.\<close>

definition registered_label :: "mdns \<Rightarrow> string" where
  "registered_label m = truncate_utf8 (md_advertise_instance m) MDNS_MAX_LABEL_BYTES"

definition registered_txt :: "mdns \<Rightarrow> (string \<times> string) list" where
  "registered_txt m =
     (let friendly = truncate_utf8 (md_advertise_friendly_name m) MDNS_MAX_TXT_VALUE_BYTES in
      (''path'', truncate_utf8 (md_advertise_path m) MDNS_MAX_TXT_VALUE_BYTES)
        # (if friendly \<noteq> [] then [(''name'', friendly)] else []))"

definition start_register :: "bool \<Rightarrow> mdns \<Rightarrow> bool \<times> mdns" where
  "start_register ok m =
     (if \<not> ok then (False, m\<lparr>md_register_ref := None\<rparr>)
      else let (r, l) = handle_new (md_lib m) in (True, m\<lparr>md_register_ref := Some r, md_lib := l\<rparr>))"

definition start_browse :: "bool \<Rightarrow> mdns \<Rightarrow> bool \<times> mdns" where
  "start_browse ok m =
     (if \<not> ok then (False, m\<lparr>md_browse_ref := None\<rparr>)
      else let (r, l) = handle_new (md_lib m)
           in (True, m\<lparr>md_browse_ref := Some r, md_lib := l, md_restart_attempt := 0\<rparr>))"

definition release_candidate_refs :: "candidate \<Rightarrow> handles \<Rightarrow> handles" where
  "release_candidate_refs c l =
     lib_release (cd_v6_ref c) (lib_release (cd_v4_ref c) (lib_release (cd_resolve_ref c) l))"

definition drain_retired :: "mdns \<Rightarrow> mdns" where
  "drain_retired m = m\<lparr>md_lib := fold handle_free (md_retired m) (md_lib m), md_retired := []\<rparr>"

definition teardown :: "mdns \<Rightarrow> mdns" where
  "teardown m0 =
     (let m = drain_retired m0;
          l1 = fold (\<lambda>(_, c). release_candidate_refs c) (md_candidates m) (md_lib m)
      in m\<lparr>md_candidates := [], md_contexts := [], md_doomed := [],
           md_lib := lib_release (md_register_ref m) (lib_release (md_browse_ref m) l1),
           md_browse_ref := None, md_register_ref := None\<rparr>)"

definition schedule_restart :: "int \<Rightarrow> mdns \<Rightarrow> mdns" where
  "schedule_restart now m =
     (let delay = next_retry_delay_ms (md_restart_attempt m) in
      m\<lparr>md_restart_at_ms := now + int (unat delay),
        md_restart_attempt := (if delay < MAX_RETRY_DELAY_MS then md_restart_attempt m + 1 else md_restart_attempt m)\<rparr>)"

definition mdns_fail :: "int \<Rightarrow> mdns \<Rightarrow> mdns" where
  "mdns_fail now m = schedule_restart now (teardown m)"

definition restart :: "bool \<Rightarrow> bool \<Rightarrow> mdns \<Rightarrow> mdns" where
  "restart register_ok browse_ok m =
     (let m1 = (if md_advertise_wanted m \<and> md_register_ref m = None then snd (start_register register_ok m) else m)
      in if md_browse_wanted m1 \<and> md_browse_ref m1 = None then snd (start_browse browse_ok m1) else m1)"

section \<open>Candidates\<close>

definition md_find :: "mdns \<Rightarrow> string \<Rightarrow> candidate option" where
  "md_find m instance_name = map_find (md_candidates m) instance_name"

definition md_put :: "string \<Rightarrow> candidate \<Rightarrow> mdns \<Rightarrow> mdns" where
  "md_put instance_name c m = m\<lparr>md_candidates := map_insert instance_name c (md_candidates m)\<rparr>"

definition forget :: "string \<Rightarrow> mdns \<Rightarrow> mdns" where
  "forget instance_name m =
     (case md_find m instance_name of
        None \<Rightarrow> m
      | Some c \<Rightarrow>
          m\<lparr>md_lib := release_candidate_refs c (md_lib m),
            md_candidates := map_erase instance_name (md_candidates m),
            md_contexts := removeAll instance_name (md_contexts m)\<rparr>)"

definition add_address :: "string \<Rightarrow> bool \<Rightarrow> int \<Rightarrow> candidate \<Rightarrow> candidate" where
  "add_address address add now c =
     (if \<not> add then c\<lparr>cd_addresses := remove1 address (cd_addresses c)\<rparr>
      else if address \<in> set (cd_addresses c) then c
      else c\<lparr>cd_addresses := cd_addresses c @ [address],
             cd_first_address_ms := (if cd_first_address_ms c < 0 then now else cd_first_address_ms c)\<rparr>)"

definition purge_one :: "string \<Rightarrow> mdns \<Rightarrow> mdns" where
  "purge_one instance_name m =
     (case md_find m instance_name of
        Some c \<Rightarrow> if \<not> cd_unusable c \<and> cd_interfaces c \<noteq> [] then m else forget instance_name m
      | None \<Rightarrow> forget instance_name m)"

definition purge_doomed :: "mdns \<Rightarrow> mdns" where
  "purge_doomed m = (fold purge_one (md_doomed m) m)\<lparr>md_doomed := []\<rparr>"

definition as_server :: "candidate \<Rightarrow> discovered_server" where
  "as_server c = \<lparr>sv_instance = cd_instance c, sv_name = cd_name c, sv_path = cd_path c,
     sv_port = cd_port c, sv_addresses = cd_addresses c\<rparr>"

fun settle_loop ::
  "inet_pton \<Rightarrow> int \<Rightarrow> nat \<Rightarrow> (string, candidate) std_map \<Rightarrow> nat \<times> (string, candidate) std_map" where
  "settle_loop inet now seq [] = (seq, [])"
| "settle_loop inet now seq ((k, c) # cs) =
     (let skip = (cd_resolved_seq c \<noteq> 0 \<or> cd_first_address_ms c < 0
                  \<or> now - cd_first_address_ms c < ADDRESS_SETTLE_MS);
          (c', seq') =
            (if skip then (c, seq)
             else case discovered_server_url inet (as_server c) of
               Inl _ \<Rightarrow> (c\<lparr>cd_announced := True\<rparr>, seq)
             | Inr _ \<Rightarrow> (c\<lparr>cd_resolved_seq := seq, cd_announced := True\<rparr>, seq + 1));
          (seq'', cs') = settle_loop inet now seq' cs
      in (seq'', (k, c') # cs'))"

definition settle_addresses :: "inet_pton \<Rightarrow> int \<Rightarrow> mdns \<Rightarrow> mdns" where
  "settle_addresses inet now m =
     (let (seq, cs) = settle_loop inet now (md_next_seq m) (md_candidates m)
      in m\<lparr>md_next_seq := seq, md_candidates := cs\<rparr>)"

section \<open>Callbacks\<close>

text \<open>
  One call into this code while a result is processed, with what the library then answers to the
  calls made from it.
\<close>

datatype callback =
  Registered bool
| Browsed bool bool u32 string bool
| Resolved bool u32 string u16 string string bool bool
| Queried bool bool string

definition register_callback :: "bool \<Rightarrow> mdns \<Rightarrow> mdns" where
  "register_callback ok m = (if \<not> ok then m else m\<lparr>md_restart_attempt := 0\<rparr>)"

definition browse_callback :: "bool \<Rightarrow> bool \<Rightarrow> u32 \<Rightarrow> string \<Rightarrow> bool \<Rightarrow> mdns \<Rightarrow> mdns" where
  "browse_callback ok add interface_index service_name resolve_ok m =
     (if \<not> ok then m
      else case md_find m service_name of
        Some existing \<Rightarrow>
          if \<not> add then
            (let c = existing\<lparr>cd_interfaces := removeAll interface_index (cd_interfaces existing)\<rparr>;
                 m1 = md_put service_name c m
             in if cd_interfaces c = [] then m1\<lparr>md_doomed := md_doomed m1 @ [service_name]\<rparr> else m1)
          else md_put service_name (existing\<lparr>cd_interfaces := List.insert interface_index (cd_interfaces existing)\<rparr>) m
      | None \<Rightarrow>
          if \<not> add then m
          else
            (let m1 = m\<lparr>md_contexts := List.insert service_name (md_contexts m)\<rparr> in
             if \<not> resolve_ok then m1\<lparr>md_contexts := removeAll service_name (md_contexts m1)\<rparr>
             else let (r, l) = handle_new (md_lib m1)
                  in md_put service_name (new_candidate service_name interface_index r) (m1\<lparr>md_lib := l\<rparr>)))"

text \<open>\<open>start_address_query\<close> for one family: the ref it leaves.\<close>

definition start_address_query :: "bool \<Rightarrow> handles \<Rightarrow> nat option \<times> handles" where
  "start_address_query ok l = (if \<not> ok then (None, l) else let (r, l') = handle_new l in (Some r, l'))"

definition resolve_callback ::
  "nat \<Rightarrow> string \<Rightarrow> bool \<Rightarrow> u32 \<Rightarrow> string \<Rightarrow> u16 \<Rightarrow> string \<Rightarrow> string \<Rightarrow> bool \<Rightarrow> bool \<Rightarrow> mdns \<Rightarrow> mdns" where
  "resolve_callback ref instance_name ok interface_index hosttarget port path name v4_ok v6_ok m =
     (case md_find m instance_name of
        None \<Rightarrow> m
      | Some c \<Rightarrow>
          if \<not> ok then
            (md_put instance_name (c\<lparr>cd_unusable := True\<rparr>) m)\<lparr>md_doomed := md_doomed m @ [instance_name]\<rparr>
          else if cd_resolve_ref c = None then m
          else
            (let (v4, l4) = start_address_query v4_ok (md_lib m);
                 (v6, l6) = start_address_query v6_ok l4;
                 lost = (v4 = None \<and> v6 = None);
                 c1 = c\<lparr>cd_resolve_ref := None, cd_host := hosttarget, cd_port := port,
                        cd_interface_index := interface_index, cd_path := path, cd_name := name,
                        cd_v4_ref := v4, cd_v6_ref := v6,
                        cd_unusable := (if lost then True else cd_unusable c)\<rparr>
             in (md_put instance_name c1 m)\<lparr>md_retired := md_retired m @ [ref], md_lib := l6,
                  md_doomed := (if lost then md_doomed m @ [instance_name] else md_doomed m)\<rparr>))"

text \<open>\<open>address\<close> is the literal of the record, empty when it is neither an A nor an AAAA one.\<close>

definition query_callback :: "string \<Rightarrow> bool \<Rightarrow> bool \<Rightarrow> string \<Rightarrow> mdns \<Rightarrow> mdns" where
  "query_callback instance_name ok add address m =
     (case md_find m instance_name of
        None \<Rightarrow> m
      | Some c \<Rightarrow>
          if \<not> ok then m
          else if address = [] then m
          else md_put instance_name (add_address address add (md_now_ms m) c) m)"

section \<open>The pump\<close>

definition option_list :: "'a option \<Rightarrow> 'a list" where
  "option_list r = (case r of None \<Rightarrow> [] | Some x \<Rightarrow> [x])"

definition candidate_refs :: "candidate \<Rightarrow> nat list" where
  "candidate_refs c = option_list (cd_resolve_ref c) @ option_list (cd_v4_ref c) @ option_list (cd_v6_ref c)"

definition live_refs :: "mdns \<Rightarrow> nat list" where
  "live_refs m = option_list (md_register_ref m) @ option_list (md_browse_ref m)
     @ concat (map (\<lambda>(_, c). candidate_refs c) (md_candidates m))"

text \<open>
  Whether a ref is still one of ours, and whose: the callback and the context it was made with.
\<close>

datatype ref_role = RoleRegister | RoleBrowse | RoleResolve string | RoleQuery string

definition ref_role_of :: "mdns \<Rightarrow> nat \<Rightarrow> ref_role option" where
  "ref_role_of m r =
     (if md_register_ref m = Some r then Some RoleRegister
      else if md_browse_ref m = Some r then Some RoleBrowse
      else case find (\<lambda>(_, c). r \<in> set (candidate_refs c)) (md_candidates m) of
        None \<Rightarrow> None
      | Some (k, c) \<Rightarrow> Some (if cd_resolve_ref c = Some r then RoleResolve k else RoleQuery k))"

fun run_callback :: "nat \<Rightarrow> ref_role \<Rightarrow> callback \<Rightarrow> mdns \<Rightarrow> mdns" where
  "run_callback r RoleRegister (Registered ok) m = register_callback ok m"
| "run_callback r RoleBrowse (Browsed ok add i n resolve_ok) m = browse_callback ok add i n resolve_ok m"
| "run_callback r (RoleResolve k) (Resolved ok i host port path name v4 v6) m =
     resolve_callback r k ok i host port path name v4 v6 m"
| "run_callback r (RoleQuery k) (Queried ok add address) m = query_callback k ok add address m"
| "run_callback r _ _ m = m"

text \<open>
  What is ready on a ref: the callbacks processing it makes, and whether processing succeeds.
\<close>

type_synonym delivery = "callback list \<times> bool"

fun process_loop :: "int \<Rightarrow> (nat \<Rightarrow> delivery option) \<Rightarrow> nat list \<Rightarrow> mdns \<Rightarrow> mdns" where
  "process_loop now ready [] m = m"
| "process_loop now ready (r # refs) m =
     (case ready r of
        None \<Rightarrow> process_loop now ready refs m
      | Some (callbacks, ok) \<Rightarrow>
          (case ref_role_of m r of
             None \<Rightarrow> process_loop now ready refs m
           | Some role \<Rightarrow>
               (let m1 = fold (run_callback r role) callbacks m in
                if \<not> ok then mdns_fail now m1 else process_loop now ready refs m1)))"

record poll_input =
  pi_now :: int
  pi_register_ok :: bool
  pi_browse_ok :: bool
  pi_ready :: "nat \<Rightarrow> delivery option"

definition missing :: "mdns \<Rightarrow> bool" where
  "missing m \<longleftrightarrow> md_advertise_wanted m \<and> md_register_ref m = None \<or> md_browse_wanted m \<and> md_browse_ref m = None"

definition poll_restarts :: "poll_input \<Rightarrow> mdns \<Rightarrow> mdns" where
  "poll_restarts inp m0 =
     (let now = pi_now inp;
          m1 = m0\<lparr>md_now_ms := now\<rparr>;
          m2 = (if missing m1 \<and> md_restart_at_ms m1 < 0 then schedule_restart now m1 else m1)
      in if md_restart_at_ms m2 \<ge> 0 \<and> now \<ge> md_restart_at_ms m2
         then restart (pi_register_ok inp) (pi_browse_ok inp) (m2\<lparr>md_restart_at_ms := - 1\<rparr>) else m2)"

definition poll_once :: "inet_pton \<Rightarrow> poll_input \<Rightarrow> mdns \<Rightarrow> mdns" where
  "poll_once inet inp m0 =
     (let m1 = poll_restarts inp m0;
          m2 = process_loop (pi_now inp) (pi_ready inp) (live_refs m1) m1
      in settle_addresses inet (pi_now inp) (purge_doomed (drain_retired m2)))"

section \<open>The interface\<close>

definition advertise :: "string \<Rightarrow> u16 \<Rightarrow> string \<Rightarrow> string \<Rightarrow> bool \<Rightarrow> mdns \<Rightarrow> bool \<times> mdns" where
  "advertise instance_name port path friendly_name ok m =
     start_register ok (m\<lparr>md_advertise_wanted := True, md_advertise_instance := instance_name,
       md_advertise_port := port, md_advertise_path := path, md_advertise_friendly_name := friendly_name\<rparr>)"

definition browse :: "bool \<Rightarrow> mdns \<Rightarrow> bool \<times> mdns" where
  "browse ok m = start_browse ok (m\<lparr>md_browse_wanted := True\<rparr>)"

definition mdns_servers :: "inet_pton \<Rightarrow> mdns \<Rightarrow> discovered_server list" where
  "mdns_servers inet m =
     (let ready = sort_key cd_resolved_seq (filter (\<lambda>c. cd_resolved_seq c \<noteq> 0) (map snd (md_candidates m)))
      in filter (\<lambda>s. case discovered_server_url inet s of Inl _ \<Rightarrow> False | Inr _ \<Rightarrow> True) (map as_server ready))"

definition mdns_stop :: "mdns \<Rightarrow> mdns" where
  "mdns_stop m = teardown (m\<lparr>md_advertise_wanted := False, md_browse_wanted := False, md_restart_at_ms := - 1\<rparr>)"

section \<open>Ownership\<close>

lemma lib_release_holds: "handles_hold l (mset (option_list r) + M) \<Longrightarrow> handles_hold (lib_release r l) M"
  by (cases r) (simp_all add: option_list_def lib_release_def handle_free_holds)

lemma release_candidate_holds:
  assumes "handles_hold l (mset (candidate_refs c) + M)"
  shows "handles_hold (release_candidate_refs c l) M"
proof -
  have "handles_hold l (mset (option_list (cd_resolve_ref c)) +
      (mset (option_list (cd_v4_ref c)) + (mset (option_list (cd_v6_ref c)) + M)))"
    using assms by (simp add: candidate_refs_def ac_simps)
  then show ?thesis unfolding release_candidate_refs_def by (intro lib_release_holds)
qed

definition map_refs :: "(string, candidate) std_map \<Rightarrow> nat multiset" where
  "map_refs cs = mset (concat (map (\<lambda>(_, c). candidate_refs c) cs))"

lemma map_refs_Nil [simp]: "map_refs [] = {#}"
  by (simp add: map_refs_def)

lemma map_refs_Cons [simp]: "map_refs ((k, c) # cs) = mset (candidate_refs c) + map_refs cs"
  by (simp add: map_refs_def)

lemma release_all_holds:
  "handles_hold l (map_refs cs + M) \<Longrightarrow> handles_hold (fold (\<lambda>(_, c). release_candidate_refs c) cs l) M"
proof (induction cs arbitrary: l)
  case (Cons kc cs)
  then show ?case using release_candidate_holds by (cases kc) (simp add: add.assoc)
qed simp

lemma map_refs_find:
  "map_find cs k = Some c \<Longrightarrow> map_refs cs = mset (candidate_refs c) + map_refs (map_erase k cs)"
  by (induction k cs rule: map_erase.induct) (auto simp: map_find_def split: if_splits)

lemma map_erase_absent: "map_find cs k = None \<Longrightarrow> map_erase k cs = cs"
  by (induction k cs rule: map_erase.induct) (auto simp: map_find_def split: if_splits)

lemma map_refs_insert:
  "map_wf cs \<Longrightarrow> map_refs (map_insert k c cs) = mset (candidate_refs c) + map_refs (map_erase k cs)"
proof (induction k c cs rule: map_insert.induct)
  case (2 k v k' v' m)
  have "k < k' \<Longrightarrow> map_erase k m = m"
  proof -
    assume "k < k'"
    then have "k \<notin> fst ` set m" using "2.prems" by (auto simp: map_wf_Cons)
    then show ?thesis by (intro map_erase_absent) (simp add: map_find_def map_of_eq_None_iff)
  qed
  then show ?case using 2 by (auto simp: map_wf_Cons)
qed simp

definition owned :: "mdns \<Rightarrow> nat multiset" where
  "owned m = mset (option_list (md_register_ref m)) + mset (option_list (md_browse_ref m))
     + map_refs (md_candidates m) + mset (md_retired m)"

lemma live_refs_owned: "mset (live_refs m) + mset (md_retired m) = owned m"
  by (simp add: owned_def live_refs_def map_refs_def)

text \<open>
  Of one candidate: its key, its context, and no address query before the resolve has answered.
\<close>

definition candidate_ok :: "mdns \<Rightarrow> string \<Rightarrow> candidate \<Rightarrow> bool" where
  "candidate_ok m k c \<longleftrightarrow>
     cd_instance c = k \<and> k \<in> set (md_contexts m)
     \<and> (cd_resolve_ref c \<noteq> None \<longrightarrow> cd_v4_ref c = None \<and> cd_v6_ref c = None)"

definition mdns_inv :: "mdns \<Rightarrow> bool" where
  "mdns_inv m \<longleftrightarrow>
     handles_hold (md_lib m) (owned m) \<and> map_wf (md_candidates m)
     \<and> (\<forall>k c. md_find m k = Some c \<longrightarrow> candidate_ok m k c)"

lemma new_mdns_inv: "mdns_inv new_mdns"
  by (simp add: mdns_inv_def new_mdns_def owned_def handles_hold_def option_list_def md_find_def)

text \<open>Fields that carry no ref.\<close>

lemma mdns_inv_update [simp]:
  "mdns_inv (m\<lparr>md_advertise_wanted := a\<rparr>) = mdns_inv m"
  "mdns_inv (m\<lparr>md_advertise_instance := n\<rparr>) = mdns_inv m"
  "mdns_inv (m\<lparr>md_advertise_path := p\<rparr>) = mdns_inv m"
  "mdns_inv (m\<lparr>md_advertise_friendly_name := f\<rparr>) = mdns_inv m"
  "mdns_inv (m\<lparr>md_advertise_port := t\<rparr>) = mdns_inv m"
  "mdns_inv (m\<lparr>md_browse_wanted := b\<rparr>) = mdns_inv m"
  "mdns_inv (m\<lparr>md_doomed := d\<rparr>) = mdns_inv m"
  "mdns_inv (m\<lparr>md_next_seq := s\<rparr>) = mdns_inv m"
  "mdns_inv (m\<lparr>md_restart_at_ms := i\<rparr>) = mdns_inv m"
  "mdns_inv (m\<lparr>md_restart_attempt := j\<rparr>) = mdns_inv m"
  "mdns_inv (m\<lparr>md_now_ms := i\<rparr>) = mdns_inv m"
  by (simp_all add: mdns_inv_def owned_def md_find_def candidate_ok_def)

lemma drain_retired_inv: "mdns_inv m \<Longrightarrow> mdns_inv (drain_retired m)"
  using handles_free_all [of "md_lib m" "md_retired m" "owned (m\<lparr>md_retired := []\<rparr>)"]
  by (auto simp: mdns_inv_def drain_retired_def owned_def md_find_def candidate_ok_def ac_simps)

text \<open>Tearing down gives back everything.\<close>

lemma teardown_empty:
  assumes "mdns_inv m"
  shows "handles_hold (md_lib (teardown m)) {#} \<and> owned (teardown m) = {#} \<and> mdns_inv (teardown m)"
proof -
  let ?m = "drain_retired m"
  let ?l = "fold (\<lambda>(_, c). release_candidate_refs c) (md_candidates ?m) (md_lib ?m)"
  have "handles_hold (md_lib ?m) (map_refs (md_candidates ?m) + (mset (option_list (md_browse_ref ?m)) +
      (mset (option_list (md_register_ref ?m)) + {#})))"
    using drain_retired_inv [OF assms] by (simp add: mdns_inv_def owned_def drain_retired_def ac_simps)
  from lib_release_holds [OF lib_release_holds [OF release_all_holds [OF this]]]
  have h: "handles_hold (lib_release (md_register_ref ?m) (lib_release (md_browse_ref ?m) ?l)) {#}" .
  have o: "owned (teardown m) = {#}"
    by (simp add: teardown_def drain_retired_def owned_def option_list_def Let_def)
  have "md_lib (teardown m) = lib_release (md_register_ref ?m) (lib_release (md_browse_ref ?m) ?l)"
    by (simp add: teardown_def Let_def)
  with h o show ?thesis by (simp add: mdns_inv_def) (simp add: teardown_def md_find_def Let_def)
qed

lemma schedule_restart_inv [simp]: "mdns_inv (schedule_restart now m) = mdns_inv m"
  by (simp add: schedule_restart_def Let_def)

lemma mdns_fail_inv: "mdns_inv m \<Longrightarrow> mdns_inv (mdns_fail now m)"
  using teardown_empty by (simp add: mdns_fail_def)

lemma mdns_stop_inv: "mdns_inv m \<Longrightarrow> mdns_inv (mdns_stop m) \<and> h_live (md_lib (mdns_stop m)) = []"
  using teardown_empty [of "m\<lparr>md_advertise_wanted := False, md_browse_wanted := False, md_restart_at_ms := - 1\<rparr>"]
  by (simp add: mdns_stop_def handles_hold_def)

lemma start_register_inv: "mdns_inv m \<Longrightarrow> md_register_ref m = None \<Longrightarrow> mdns_inv (snd (start_register ok m))"
  using handle_new_holds [of "md_lib m" _ _ "owned m"]
  by (auto simp: start_register_def mdns_inv_def owned_def option_list_def md_find_def candidate_ok_def
    split: prod.split)

lemma start_browse_inv: "mdns_inv m \<Longrightarrow> md_browse_ref m = None \<Longrightarrow> mdns_inv (snd (start_browse ok m))"
  using handle_new_holds [of "md_lib m" _ _ "owned m"]
  by (auto simp: start_browse_def mdns_inv_def owned_def option_list_def md_find_def candidate_ok_def
    split: prod.split)

lemma restart_inv: "mdns_inv m \<Longrightarrow> mdns_inv (restart a b m)"
  by (simp add: restart_def Let_def start_register_inv start_browse_inv)

lemma poll_restarts_inv: "mdns_inv m \<Longrightarrow> mdns_inv (poll_restarts inp m)"
  by (simp add: poll_restarts_def Let_def restart_inv)

text \<open>Replacing a candidate by one that holds the same refs.\<close>

lemma md_find_put [simp]: "md_find (md_put k c m) j = (if j = k then Some c else md_find m j)"
  by (simp add: md_find_def md_put_def)

lemma put_inv:
  assumes "mdns_inv m" "md_find m k = Some c" "candidate_refs c' = candidate_refs c" "candidate_ok m k c'"
  shows "mdns_inv (md_put k c' m)"
proof -
  have w: "map_wf (md_candidates m)" using assms(1) by (simp add: mdns_inv_def)
  have "map_refs (map_insert k c' (md_candidates m)) = map_refs (md_candidates m)"
    using map_refs_insert [OF w] map_refs_find [of "md_candidates m" k c] assms(2,3) by (simp add: md_find_def)
  then have "owned (md_put k c' m) = owned m" by (simp add: owned_def md_put_def)
  then have "handles_hold (md_lib (md_put k c' m)) (owned (md_put k c' m))"
    using assms(1) by (simp add: mdns_inv_def) (simp add: md_put_def)
  moreover have "candidate_ok (md_put k c' m) j d = candidate_ok m j d" for j d
    by (simp add: candidate_ok_def md_put_def)
  ultimately show ?thesis using assms(1,4) by (simp add: mdns_inv_def) (simp add: md_put_def)
qed

lemma forget_inv: "mdns_inv m \<Longrightarrow> mdns_inv (forget k m)"
proof (cases "md_find m k")
  case (Some c)
  assume i: "mdns_inv m"
  have w: "map_wf (md_candidates m)" using i by (simp add: mdns_inv_def)
  have "owned m = mset (candidate_refs c) + owned (forget k m)"
    using map_refs_find [of "md_candidates m" k c] Some by (simp add: owned_def forget_def md_find_def ac_simps)
  then have "handles_hold (md_lib (forget k m)) (owned (forget k m))"
    using i release_candidate_holds [of "md_lib m" c "owned (forget k m)"] Some
    by (simp add: mdns_inv_def) (simp add: forget_def)
  moreover have "candidate_ok (forget k m) j d" if "md_find (forget k m) j = Some d" for j d
  proof -
    have j: "j \<noteq> k" "md_find m j = Some d"
      using that Some w by (auto simp: forget_def md_find_def split: if_splits)
    then have "candidate_ok m j d" using i by (simp add: mdns_inv_def)
    then show ?thesis using j(1) Some by (simp add: forget_def candidate_ok_def)
  qed
  moreover have "map_wf (md_candidates (forget k m))" using Some w by (simp add: forget_def)
  ultimately show ?thesis by (simp add: mdns_inv_def)
qed (simp add: forget_def)

lemma purge_one_inv: "mdns_inv m \<Longrightarrow> mdns_inv (purge_one k m)"
  by (simp add: purge_one_def forget_inv split: option.split)

lemma fold_purge_inv: "mdns_inv m \<Longrightarrow> mdns_inv (fold purge_one ks m)"
  by (induction ks arbitrary: m) (simp_all add: purge_one_inv)

lemma purge_doomed_inv: "mdns_inv m \<Longrightarrow> mdns_inv (purge_doomed m)"
  by (simp add: purge_doomed_def fold_purge_inv)

lemma browse_callback_inv:
  assumes "mdns_inv m"
  shows "mdns_inv (browse_callback ok add i n resolve_ok m)"
proof (cases "md_find m n")
  case (Some c)
  then have c: "candidate_ok m n c" using assms by (simp add: mdns_inv_def)
  show ?thesis using Some c put_inv [OF assms Some] assms
    by (simp add: browse_callback_def Let_def candidate_refs_def candidate_ok_def)
next
  case None
  have w: "map_wf (md_candidates m)" using assms by (simp add: mdns_inv_def)
  have i1: "mdns_inv (m\<lparr>md_contexts := List.insert n (md_contexts m)\<rparr>)"
    using assms by (auto simp: mdns_inv_def owned_def md_find_def candidate_ok_def)
  have i2: "mdns_inv (m\<lparr>md_contexts := removeAll n (List.insert n (md_contexts m))\<rparr>)"
    using assms None by (auto simp: mdns_inv_def owned_def md_find_def candidate_ok_def)
  have i3: "mdns_inv (md_put n (new_candidate n i r) (m\<lparr>md_contexts := List.insert n (md_contexts m), md_lib := l\<rparr>))"
    if "handle_new (md_lib m) = (r, l)" for r l
  proof -
    let ?m = "md_put n (new_candidate n i r) (m\<lparr>md_contexts := List.insert n (md_contexts m), md_lib := l\<rparr>)"
    have "owned ?m = add_mset r (owned m)"
      using map_refs_insert [OF w] map_erase_absent [of "md_candidates m" n] None
      by (simp add: owned_def md_put_def md_find_def new_candidate_def candidate_refs_def option_list_def)
    then have "handles_hold (md_lib ?m) (owned ?m)"
      using handle_new_holds [OF that] assms by (simp add: mdns_inv_def) (simp add: md_put_def)
    then show ?thesis using assms w
      by (simp add: mdns_inv_def) (auto simp: md_put_def new_candidate_def md_find_def candidate_ok_def)
  qed
  show ?thesis using None i1 i2 i3 assms
    by (auto simp: browse_callback_def Let_def split: prod.split)
qed

text \<open>While a resolve ref is being processed its candidate holds it still, or has retired it.\<close>

definition role_ok :: "mdns \<Rightarrow> nat \<Rightarrow> ref_role \<Rightarrow> bool" where
  "role_ok m r role =
     (case role of RoleResolve k \<Rightarrow>
        (case md_find m k of None \<Rightarrow> True | Some c \<Rightarrow> cd_resolve_ref c = None \<or> cd_resolve_ref c = Some r)
      | _ \<Rightarrow> True)"

lemma start_address_query_holds:
  "start_address_query ok l = (v, l') \<Longrightarrow> handles_hold l M \<Longrightarrow> handles_hold l' (mset (option_list v) + M)"
  by (auto simp: start_address_query_def option_list_def handle_new_holds split: if_splits prod.splits)

lemma resolve_callback_inv:
  assumes "mdns_inv m" "role_ok m r (RoleResolve k)"
  shows "mdns_inv (resolve_callback r k ok i host port path name a b m)
    \<and> role_ok (resolve_callback r k ok i host port path name a b m) r (RoleResolve k)"
proof (cases "md_find m k")
  case None
  then show ?thesis using assms by (simp add: resolve_callback_def)
next
  case (Some c)
  then have c: "candidate_ok m k c" using assms(1) by (simp add: mdns_inv_def)
  consider "\<not> ok" | "ok" "cd_resolve_ref c = None" | "ok" "cd_resolve_ref c = Some r"
    using assms(2) Some by (auto simp: role_ok_def)
  then show ?thesis
  proof cases
    case 1
    have "mdns_inv (md_put k (c\<lparr>cd_unusable := True\<rparr>) m)"
      using c by (intro put_inv [OF assms(1) Some]) (simp_all add: candidate_refs_def candidate_ok_def)
    then show ?thesis using 1 Some assms(2)
      by (simp add: resolve_callback_def role_ok_def md_find_def) (simp add: md_put_def)
  next
    case 2
    then show ?thesis using Some assms by (simp add: resolve_callback_def)
  next
    case 3
    obtain v4 l4 where q4: "start_address_query a (md_lib m) = (v4, l4)" by fastforce
    obtain v6 l6 where q6: "start_address_query b l4 = (v6, l6)" by fastforce
    define m' where "m' = resolve_callback r k ok i host port path name a b m"
    define c1 where "c1 = c\<lparr>cd_resolve_ref := None, cd_host := host, cd_port := port,
                        cd_interface_index := i, cd_path := path, cd_name := name,
                        cd_v4_ref := v4, cd_v6_ref := v6,
                        cd_unusable := (if v4 = None \<and> v6 = None then True else cd_unusable c)\<rparr>"
    have f: "md_candidates m' = map_insert k c1 (md_candidates m)" "md_retired m' = md_retired m @ [r]"
      "md_lib m' = l6" "md_register_ref m' = md_register_ref m" "md_browse_ref m' = md_browse_ref m"
      "md_contexts m' = md_contexts m"
      using 3 Some q4 q6 by (simp_all add: m'_def resolve_callback_def c1_def Let_def md_put_def)
    have w: "map_wf (md_candidates m)" using assms(1) by (simp add: mdns_inv_def)
    have rc: "candidate_refs c = [r]"
      using 3(2) c by (simp add: candidate_ok_def candidate_refs_def option_list_def)
    have rc1: "candidate_refs c1 = option_list v4 @ option_list v6"
      by (simp add: c1_def candidate_refs_def option_list_def [of None])
    have "owned m' = mset (option_list v6) + (mset (option_list v4) + owned m)"
      using map_refs_insert [OF w, of k c1] map_refs_find [of "md_candidates m" k c] Some rc
      by (simp add: owned_def f rc1 md_find_def)
    moreover have "handles_hold (md_lib m) (owned m)" using assms(1) by (simp add: mdns_inv_def)
    ultimately have "handles_hold (md_lib m') (owned m')"
      using start_address_query_holds [OF q6 start_address_query_holds [OF q4]] by (simp add: f)
    moreover have "md_find m' j = (if j = k then Some c1 else md_find m j)" for j by (simp add: md_find_def f)
    moreover have "candidate_ok m' j d = candidate_ok m j d" for j d by (simp add: candidate_ok_def f)
    moreover have "candidate_ok m k c1" using c by (simp add: candidate_ok_def c1_def)
    ultimately show ?thesis unfolding m'_def [symmetric] using assms(1) w
      by (auto simp: mdns_inv_def f role_ok_def c1_def)
  qed
qed

lemma query_callback_inv:
  assumes "mdns_inv m"
  shows "mdns_inv (query_callback k ok add address m)"
proof (cases "md_find m k")
  case (Some c)
  then have c: "candidate_ok m k c" using assms by (simp add: mdns_inv_def)
  show ?thesis using Some c put_inv [OF assms Some] assms
    by (simp add: query_callback_def add_address_def candidate_refs_def candidate_ok_def)
qed (simp add: query_callback_def assms)

lemma run_callback_inv:
  assumes "mdns_inv m" "role_ok m r role"
  shows "mdns_inv (run_callback r role cb m) \<and> role_ok (run_callback r role cb m) r role"
  using assms resolve_callback_inv
  by (cases "(r, role, cb, m)" rule: run_callback.cases)
     (simp_all add: browse_callback_inv query_callback_inv register_callback_def role_ok_def [of _ _ RoleRegister]
       role_ok_def [of _ _ RoleBrowse] role_ok_def [of _ _ "RoleQuery _"])

lemma fold_callbacks_inv:
  "mdns_inv m \<Longrightarrow> role_ok m r role \<Longrightarrow> mdns_inv (fold (run_callback r role) cbs m)"
  by (induction cbs arbitrary: m) (simp_all add: run_callback_inv)

lemma ref_role_ok:
  assumes "ref_role_of m r = Some role" "mdns_inv m"
  shows "role_ok m r role"
proof (cases role)
  case (RoleResolve k)
  then obtain c where f: "find (\<lambda>(_, c). r \<in> set (candidate_refs c)) (md_candidates m) = Some (k, c)"
      "cd_resolve_ref c = Some r"
    using assms(1) by (auto simp: ref_role_of_def split: if_splits option.splits)
  then have "(k, c) \<in> set (md_candidates m)" by (auto simp: find_Some_iff in_set_conv_nth)
  moreover have w: "map_wf (md_candidates m)" using assms(2) by (simp add: mdns_inv_def)
  ultimately have "md_find m k = Some c" using map_find_in [OF w] by (simp add: md_find_def)
  then show ?thesis using RoleResolve f(2) by (simp add: role_ok_def)
qed (simp_all add: role_ok_def)

lemma process_loop_inv: "mdns_inv m \<Longrightarrow> mdns_inv (process_loop now ready refs m)"
proof (induction refs arbitrary: m)
  case (Cons r refs)
  show ?case
  proof (cases "ready r")
    case None
    then show ?thesis using Cons by simp
  next
    case (Some d)
    obtain cbs ok where d: "ready r = Some (cbs, ok)" using Some by (cases d) auto
    show ?thesis
    proof (cases "ref_role_of m r")
      case None
      then show ?thesis using Cons d by simp
    next
      case (Some role)
      have "mdns_inv (fold (run_callback r role) cbs m)"
        using fold_callbacks_inv [OF Cons.prems ref_role_ok [OF Some Cons.prems]] .
      then show ?thesis using Cons.IH d Some by (simp add: mdns_fail_inv Let_def)
    qed
  qed
qed simp

lemma settle_loop_refs:
  "settle_loop inet now seq cs = (seq', cs') \<Longrightarrow>
     map fst cs' = map fst cs \<and> map_refs cs' = map_refs cs
     \<and> list_all2 (\<lambda>(_, c) (_, d). candidate_refs d = candidate_refs c \<and> cd_instance d = cd_instance c
         \<and> cd_resolve_ref d = cd_resolve_ref c \<and> cd_v4_ref d = cd_v4_ref c \<and> cd_v6_ref d = cd_v6_ref c) cs cs'"
  by (induction inet now seq cs arbitrary: seq' cs' rule: settle_loop.induct)
     (fastforce simp: candidate_refs_def Let_def split: if_splits prod.splits sum.splits)+

lemma map_wf_keys: "map fst cs' = map fst cs \<Longrightarrow> map_wf cs' = map_wf cs"
  by (simp add: map_wf_def)

lemma settle_addresses_inv:
  assumes "mdns_inv m"
  shows "mdns_inv (settle_addresses inet now m)"
proof -
  obtain seq cs where s: "settle_loop inet now (md_next_seq m) (md_candidates m) = (seq, cs)" by fastforce
  note l = settle_loop_refs [OF s]
  have w: "map_wf (md_candidates m)" "map_wf cs"
    using assms l map_wf_keys by (auto simp: mdns_inv_def)
  have "candidate_ok m k d" if "map_find cs k = Some d" for k d
  proof -
    have "(k, d) \<in> set cs" using map_find_in [OF w(2)] that by simp
    then obtain n where n: "n < length cs" "cs ! n = (k, d)" by (auto simp: in_set_conv_nth)
    obtain j c where c: "md_candidates m ! n = (j, c)" by fastforce
    have len: "length (md_candidates m) = length cs" using l by (auto dest: list_all2_lengthD)
    have "j = k" using arg_cong [OF conjunct1 [OF l], of "\<lambda>x. x ! n"] n c len by simp
    moreover have "(j, c) \<in> set (md_candidates m)" using n(1) c len by (metis nth_mem)
    ultimately have "candidate_ok m k c"
      using assms map_find_in [OF w(1)] by (simp add: mdns_inv_def md_find_def)
    moreover have "cd_instance d = cd_instance c \<and> cd_resolve_ref d = cd_resolve_ref c
        \<and> cd_v4_ref d = cd_v4_ref c \<and> cd_v6_ref d = cd_v6_ref c"
      using list_all2_nthD [OF conjunct2 [OF conjunct2 [OF l]], of n] n c len by simp
    ultimately show ?thesis by (simp add: candidate_ok_def)
  qed
  then show ?thesis using assms s l w
    by (simp add: mdns_inv_def settle_addresses_def owned_def md_find_def candidate_ok_def)
qed

lemma poll_once_inv: "mdns_inv m \<Longrightarrow> mdns_inv (poll_once inet inp m)"
  by (simp add: poll_once_def Let_def settle_addresses_inv purge_doomed_inv drain_retired_inv
    process_loop_inv poll_restarts_inv)

end
