(* ===== verification/MdnsMachine.thy ===== *)
theory MdnsMachine
  imports MdnsService
begin

text \<open>
  \<^verbatim>\<open>MdnsService\<close> as a state machine: the states its calls can reach, and what holds in all of
  them - who holds the daemon's refs, that it recovers by itself, and which servers it offers.
\<close>

section \<open>The service as a state machine\<close>

text \<open>
  The calls the main loop makes: the service is told once to advertise and once to browse, is polled
  with a clock that does not run backwards, and may be stopped.
\<close>

inductive mdns_step :: "inet_pton \<Rightarrow> mdns \<Rightarrow> mdns \<Rightarrow> bool" for inet where
  Advertise: "md_register_ref m = None \<Longrightarrow> mdns_step inet m (snd (advertise n p path f ok m))"
| Browse: "md_browse_ref m = None \<Longrightarrow> mdns_step inet m (snd (browse ok m))"
| Poll: "md_now_ms m \<le> pi_now inp \<Longrightarrow> mdns_step inet m (poll_once inet inp m)"
| Stop: "mdns_step inet m (mdns_stop m)"

inductive_cases mdns_stepE: "mdns_step inet m m'"

inductive mdns_reachable :: "inet_pton \<Rightarrow> mdns \<Rightarrow> bool" for inet where
  Start: "mdns_reachable inet new_mdns"
| Step: "mdns_reachable inet m \<Longrightarrow> mdns_step inet m m' \<Longrightarrow> mdns_reachable inet m'"

lemma mdns_step_inv: "mdns_step inet m m' \<Longrightarrow> mdns_inv m \<Longrightarrow> mdns_inv m'"
  by (erule mdns_stepE)
     (simp_all add: advertise_def browse_def start_register_inv start_browse_inv poll_once_inv mdns_stop_inv)

lemma mdns_reachable_inv: "mdns_reachable inet m \<Longrightarrow> mdns_inv m"
  by (induction rule: mdns_reachable.induct) (simp_all add: new_mdns_inv mdns_step_inv)

section \<open>What the calls leave alone\<close>

lemma lib_only_fields [simp]:
  "md_now_ms (drain_retired m) = md_now_ms m" "md_retired (drain_retired m) = []"
  "md_candidates (drain_retired m) = md_candidates m" "md_next_seq (drain_retired m) = md_next_seq m"
  "md_restart_at_ms (drain_retired m) = md_restart_at_ms m"
  "md_register_ref (drain_retired m) = md_register_ref m" "md_browse_ref (drain_retired m) = md_browse_ref m"
  "md_advertise_wanted (drain_retired m) = md_advertise_wanted m" "md_browse_wanted (drain_retired m) = md_browse_wanted m"
  by (simp_all add: drain_retired_def)

lemma teardown_fields [simp]:
  "md_now_ms (teardown m) = md_now_ms m" "md_retired (teardown m) = []" "md_candidates (teardown m) = []"
  "md_next_seq (teardown m) = md_next_seq m" "md_restart_at_ms (teardown m) = md_restart_at_ms m"
  by (simp_all add: teardown_def Let_def)

lemma start_fields [simp]:
  "md_now_ms (snd (start_register ok m)) = md_now_ms m" "md_now_ms (snd (start_browse ok m)) = md_now_ms m"
  "md_candidates (snd (start_register ok m)) = md_candidates m" "md_candidates (snd (start_browse ok m)) = md_candidates m"
  "md_next_seq (snd (start_register ok m)) = md_next_seq m" "md_next_seq (snd (start_browse ok m)) = md_next_seq m"
  "md_retired (snd (start_register ok m)) = md_retired m" "md_retired (snd (start_browse ok m)) = md_retired m"
  "md_restart_at_ms (snd (start_register ok m)) = md_restart_at_ms m"
  "md_restart_at_ms (snd (start_browse ok m)) = md_restart_at_ms m"
  "md_advertise_wanted (snd (start_register ok m)) = md_advertise_wanted m"
  "md_advertise_wanted (snd (start_browse ok m)) = md_advertise_wanted m"
  "md_browse_wanted (snd (start_register ok m)) = md_browse_wanted m"
  "md_browse_wanted (snd (start_browse ok m)) = md_browse_wanted m"
  "md_register_ref (snd (start_browse ok m)) = md_register_ref m"
  "md_browse_ref (snd (start_register ok m)) = md_browse_ref m"
  by (simp_all add: start_register_def start_browse_def split: prod.split)

lemma restart_fields [simp]:
  "md_now_ms (restart a b m) = md_now_ms m" "md_candidates (restart a b m) = md_candidates m"
  "md_next_seq (restart a b m) = md_next_seq m" "md_retired (restart a b m) = md_retired m"
  "md_restart_at_ms (restart a b m) = md_restart_at_ms m"
  "md_advertise_wanted (restart a b m) = md_advertise_wanted m"
  "md_browse_wanted (restart a b m) = md_browse_wanted m"
  by (simp_all add: restart_def Let_def)

lemma schedule_fields [simp]:
  "md_now_ms (schedule_restart now m) = md_now_ms m" "md_candidates (schedule_restart now m) = md_candidates m"
  "md_next_seq (schedule_restart now m) = md_next_seq m" "md_retired (schedule_restart now m) = md_retired m"
  "md_register_ref (schedule_restart now m) = md_register_ref m" "md_browse_ref (schedule_restart now m) = md_browse_ref m"
  "md_advertise_wanted (schedule_restart now m) = md_advertise_wanted m"
  "md_browse_wanted (schedule_restart now m) = md_browse_wanted m"
  by (simp_all add: schedule_restart_def Let_def)

text \<open>What a callback changes is the candidates, the refs and the backoff.\<close>

lemma callback_fields [simp]:
  "md_now_ms (run_callback r role cb m) = md_now_ms m"
  "md_next_seq (run_callback r role cb m) = md_next_seq m"
  "md_restart_at_ms (run_callback r role cb m) = md_restart_at_ms m"
  "md_register_ref (run_callback r role cb m) = md_register_ref m"
  "md_browse_ref (run_callback r role cb m) = md_browse_ref m"
  "md_advertise_wanted (run_callback r role cb m) = md_advertise_wanted m"
  "md_browse_wanted (run_callback r role cb m) = md_browse_wanted m"
  by (cases "(r, role, cb, m)" rule: run_callback.cases;
      auto simp: register_callback_def browse_callback_def resolve_callback_def query_callback_def md_put_def
        Let_def split: option.splits prod.splits)+

lemma callbacks_fields [simp]:
  "md_now_ms (fold (run_callback r role) cbs m) = md_now_ms m"
  "md_next_seq (fold (run_callback r role) cbs m) = md_next_seq m"
  "md_restart_at_ms (fold (run_callback r role) cbs m) = md_restart_at_ms m"
  "md_register_ref (fold (run_callback r role) cbs m) = md_register_ref m"
  "md_browse_ref (fold (run_callback r role) cbs m) = md_browse_ref m"
  "md_advertise_wanted (fold (run_callback r role) cbs m) = md_advertise_wanted m"
  "md_browse_wanted (fold (run_callback r role) cbs m) = md_browse_wanted m"
  by (induction cbs arbitrary: m) simp_all

lemma forget_fields [simp]:
  "md_now_ms (forget k m) = md_now_ms m" "md_next_seq (forget k m) = md_next_seq m"
  "md_retired (forget k m) = md_retired m" "md_restart_at_ms (forget k m) = md_restart_at_ms m"
  "md_register_ref (forget k m) = md_register_ref m" "md_browse_ref (forget k m) = md_browse_ref m"
  "md_advertise_wanted (forget k m) = md_advertise_wanted m" "md_browse_wanted (forget k m) = md_browse_wanted m"
  by (simp_all add: forget_def split: option.split)

lemma purge_fields [simp]:
  "md_now_ms (purge_doomed m) = md_now_ms m" "md_next_seq (purge_doomed m) = md_next_seq m"
  "md_retired (purge_doomed m) = md_retired m" "md_restart_at_ms (purge_doomed m) = md_restart_at_ms m"
  "md_register_ref (purge_doomed m) = md_register_ref m" "md_browse_ref (purge_doomed m) = md_browse_ref m"
  "md_advertise_wanted (purge_doomed m) = md_advertise_wanted m" "md_browse_wanted (purge_doomed m) = md_browse_wanted m"
proof -
  have "md_now_ms (fold purge_one ks m) = md_now_ms m \<and> md_next_seq (fold purge_one ks m) = md_next_seq m
     \<and> md_retired (fold purge_one ks m) = md_retired m \<and> md_restart_at_ms (fold purge_one ks m) = md_restart_at_ms m
     \<and> md_register_ref (fold purge_one ks m) = md_register_ref m \<and> md_browse_ref (fold purge_one ks m) = md_browse_ref m
     \<and> md_advertise_wanted (fold purge_one ks m) = md_advertise_wanted m
     \<and> md_browse_wanted (fold purge_one ks m) = md_browse_wanted m" for ks
    by (induction ks arbitrary: m) (simp_all add: purge_one_def split: option.split)
  then show "md_now_ms (purge_doomed m) = md_now_ms m" "md_next_seq (purge_doomed m) = md_next_seq m"
    "md_retired (purge_doomed m) = md_retired m" "md_restart_at_ms (purge_doomed m) = md_restart_at_ms m"
    "md_register_ref (purge_doomed m) = md_register_ref m" "md_browse_ref (purge_doomed m) = md_browse_ref m"
    "md_advertise_wanted (purge_doomed m) = md_advertise_wanted m" "md_browse_wanted (purge_doomed m) = md_browse_wanted m"
    by (simp_all add: purge_doomed_def)
qed

lemma settle_fields [simp]:
  "md_now_ms (settle_addresses inet now m) = md_now_ms m" "md_retired (settle_addresses inet now m) = md_retired m"
  "md_restart_at_ms (settle_addresses inet now m) = md_restart_at_ms m"
  "md_register_ref (settle_addresses inet now m) = md_register_ref m"
  "md_browse_ref (settle_addresses inet now m) = md_browse_ref m"
  "md_advertise_wanted (settle_addresses inet now m) = md_advertise_wanted m"
  "md_browse_wanted (settle_addresses inet now m) = md_browse_wanted m"
  by (simp_all add: settle_addresses_def split: prod.split)

section \<open>Clock and backoff\<close>

definition clock_inv :: "mdns \<Rightarrow> bool" where
  "clock_inv m \<longleftrightarrow> 0 \<le> md_now_ms m \<and> md_restart_at_ms m \<le> md_now_ms m + 30000 \<and> md_retired m = []"

lemma schedule_restart_at:
  "md_restart_at_ms (schedule_restart now m) = now + retry_delay (unat (md_restart_attempt m))"
  using next_retry_delay [of "md_restart_attempt m"] by (simp add: schedule_restart_def Let_def)

lemma schedule_restart_bounds:
  "now < md_restart_at_ms (schedule_restart now m)" "md_restart_at_ms (schedule_restart now m) \<le> now + 30000"
  using retry_schedule.delay_pos retry_schedule.delay_le by (simp_all add: schedule_restart_at)

lemma fail_fields [simp]:
  "md_now_ms (mdns_fail now m) = md_now_ms m" "md_candidates (mdns_fail now m) = []"
  "md_next_seq (mdns_fail now m) = md_next_seq m" "md_retired (mdns_fail now m) = []"
  by (simp_all add: mdns_fail_def)

lemma process_loop_clock:
  "md_now_ms (process_loop now ready refs m) = md_now_ms m"
  "md_next_seq (process_loop now ready refs m) = md_next_seq m"
  "md_restart_at_ms m \<le> now + 30000 \<Longrightarrow> md_restart_at_ms (process_loop now ready refs m) \<le> now + 30000"
  using schedule_restart_bounds
  by (induction refs arbitrary: m) (auto simp: Let_def mdns_fail_def split: option.split)

lemma poll_restarts_clock:
  assumes "clock_inv m" "md_now_ms m \<le> pi_now inp"
  shows "clock_inv (poll_restarts inp m) \<and> md_now_ms (poll_restarts inp m) = pi_now inp"
  using assms schedule_restart_bounds(2) [of "pi_now inp"]
  by (auto simp: clock_inv_def poll_restarts_def Let_def intro: order_trans)

lemma poll_once_clock:
  assumes "clock_inv m" "md_now_ms m \<le> pi_now inp"
  shows "clock_inv (poll_once inet inp m)"
  using poll_restarts_clock [OF assms] process_loop_clock(3) [of "poll_restarts inp m" "pi_now inp"]
  by (simp add: poll_once_def Let_def clock_inv_def process_loop_clock(1))

lemma mdns_reachable_clock: "mdns_reachable inet m \<Longrightarrow> clock_inv m"
proof (induction rule: mdns_reachable.induct)
  case Start
  then show ?case by (simp add: clock_inv_def new_mdns_def)
next
  case (Step m m')
  from Step.hyps(2) show ?case
  proof (cases rule: mdns_step.cases)
    case (Poll inp)
    then show ?thesis using poll_once_clock Step.IH by simp
  qed (use Step.IH in \<open>simp_all add: clock_inv_def advertise_def browse_def mdns_stop_def\<close>)
qed

text \<open>
  C7. Between calls, every ref the daemon has handed out is held in exactly one place of the service:
  the registration, the browse, or one resolve or address query of one candidate. None was ever given
  back twice or after it had been given back, none is leaked, whatever the daemon answers, whichever
  callbacks run and whenever a connection is lost; and stopping gives all of them back.
\<close>

theorem mdns_refs_owned_once:
  assumes "mdns_reachable inet m"
  shows "mset (h_live (md_lib m)) = mset (live_refs m) \<and> distinct (live_refs m)
    \<and> \<not> h_misuse (md_lib m)
    \<and> h_live (md_lib (mdns_stop m)) = [] \<and> live_refs (mdns_stop m) = []
    \<and> \<not> h_misuse (md_lib (mdns_stop m))"
proof -
  have i: "mdns_inv m" and r: "md_retired m = []"
    using mdns_reachable_inv [OF assms] mdns_reachable_clock [OF assms] by (simp_all add: clock_inv_def)
  have s: "mdns_inv (mdns_stop m)" "h_live (md_lib (mdns_stop m)) = []"
    using mdns_stop_inv [OF i] by simp_all
  have l: "mset (h_live (md_lib m)) = mset (live_refs m)" "distinct (h_live (md_lib m))" "\<not> h_misuse (md_lib m)"
    using i live_refs_owned [of m] r by (simp_all add: mdns_inv_def handles_hold_def)
  have "owned (mdns_stop m) = {#}" using s by (simp add: mdns_inv_def handles_hold_def)
  then have "live_refs (mdns_stop m) = []" using live_refs_owned [of "mdns_stop m"] by simp
  moreover have "distinct (live_refs m)" using l(1,2) by (metis mset_eq_imp_distinct_iff)
  ultimately show ?thesis using l s by (simp add: mdns_inv_def handles_hold_def)
qed

section \<open>Recovery\<close>

text \<open>A poll whose calls the daemon answers, with nothing lost while it runs.\<close>

definition answers_well :: "poll_input \<Rightarrow> bool" where
  "answers_well inp \<longleftrightarrow> pi_register_ok inp \<and> pi_browse_ok inp
     \<and> (\<forall>r. case pi_ready inp r of None \<Rightarrow> True | Some (_, ok) \<Rightarrow> ok)"

lemma process_loop_well:
  assumes "answers_well inp"
  shows "md_register_ref (process_loop now (pi_ready inp) refs m) = md_register_ref m
    \<and> md_browse_ref (process_loop now (pi_ready inp) refs m) = md_browse_ref m
    \<and> md_advertise_wanted (process_loop now (pi_ready inp) refs m) = md_advertise_wanted m
    \<and> md_browse_wanted (process_loop now (pi_ready inp) refs m) = md_browse_wanted m
    \<and> md_restart_at_ms (process_loop now (pi_ready inp) refs m) = md_restart_at_ms m"
proof (induction refs arbitrary: m)
  case (Cons r refs)
  have ok: "case pi_ready inp r of None \<Rightarrow> True | Some (_, ok) \<Rightarrow> ok"
    using assms by (simp add: answers_well_def)
  show ?case
  proof (cases "pi_ready inp r")
    case (Some d)
    then obtain cbs where d: "pi_ready inp r = Some (cbs, True)" using ok by (cases d) auto
    show ?thesis using Cons by (simp add: d Let_def split: option.split)
  qed (use Cons in simp)
qed simp

lemma missing_poll_well:
  assumes "answers_well inp"
  shows "missing (poll_once inet inp m) = missing (poll_restarts inp m)
    \<and> md_restart_at_ms (poll_once inet inp m) = md_restart_at_ms (poll_restarts inp m)
    \<and> md_advertise_wanted (poll_once inet inp m) = md_advertise_wanted m
    \<and> md_browse_wanted (poll_once inet inp m) = md_browse_wanted m"
  using process_loop_well [OF assms, of "pi_now inp" "live_refs (poll_restarts inp m)" "poll_restarts inp m"]
  by (simp add: poll_once_def Let_def missing_def) (simp add: poll_restarts_def Let_def)

lemma restart_runs: "\<not> missing (restart True True m)"
  by (auto simp: missing_def restart_def start_register_def start_browse_def Let_def split: prod.split)

lemma poll_restarts_well:
  assumes "answers_well inp" "0 \<le> pi_now inp"
  shows "\<not> missing (poll_restarts inp m)
    \<or> pi_now inp < md_restart_at_ms (poll_restarts inp m)
      \<and> (md_restart_at_ms m < 0 \<longrightarrow> md_restart_at_ms (poll_restarts inp m) \<le> pi_now inp + 30000)
      \<and> (0 \<le> md_restart_at_ms m \<longrightarrow> md_restart_at_ms (poll_restarts inp m) = md_restart_at_ms m)"
  using assms restart_runs schedule_restart_bounds [of "pi_now inp"]
  by (auto simp: poll_restarts_def answers_well_def Let_def missing_def)

text \<open>
  C28. The service recovers by itself. In any state it can get into - the daemon not up at start, the
  connection lost at any point, restarts already refused - two polls at least 30 s apart which the
  daemon answers leave everything that is wanted running.
\<close>

theorem mdns_recovers:
  assumes "mdns_reachable inet m" "answers_well a" "answers_well b"
    and "md_now_ms m \<le> pi_now a" "pi_now a + 30000 \<le> pi_now b"
  shows "let m' = poll_once inet b (poll_once inet a m) in
    md_advertise_wanted m' = md_advertise_wanted m \<and> md_browse_wanted m' = md_browse_wanted m
    \<and> (md_advertise_wanted m \<longrightarrow> md_register_ref m' \<noteq> None)
    \<and> (md_browse_wanted m \<longrightarrow> md_browse_ref m' \<noteq> None)"
proof -
  let ?m = "poll_once inet a m"
  have c: "clock_inv m" using mdns_reachable_clock [OF assms(1)] .
  have t: "0 \<le> pi_now a" "0 \<le> pi_now b" "md_restart_at_ms m \<le> pi_now a + 30000"
    using c assms(4,5) by (simp_all add: clock_inv_def)
  have "\<not> missing ?m \<or> 0 \<le> md_restart_at_ms ?m \<and> md_restart_at_ms ?m \<le> pi_now b"
    using poll_restarts_well [OF assms(2) t(1), of m] missing_poll_well [OF assms(2), of inet m] t assms(5)
    by (cases "md_restart_at_ms m < 0") auto
  moreover have "\<not> missing (poll_restarts b n)" if "0 \<le> md_restart_at_ms n" "md_restart_at_ms n \<le> pi_now b" for n
    using poll_restarts_well [OF assms(3) t(2), of n] that by auto
  moreover have "\<not> missing (poll_restarts b n)" if "\<not> missing n" for n
    using that restart_runs assms(3) by (simp add: poll_restarts_def Let_def answers_well_def missing_def)
  ultimately have "\<not> missing (poll_once inet b ?m)"
    using missing_poll_well [OF assms(3), of inet ?m] by blast
  then show ?thesis
    using missing_poll_well [OF assms(2), of inet m] missing_poll_well [OF assms(3), of inet ?m]
    by (simp add: Let_def missing_def)
qed

definition quiet_poll :: "int \<Rightarrow> bool \<Rightarrow> poll_input" where
  "quiet_poll now ok = \<lparr>pi_now = now, pi_register_ok = ok, pi_browse_ok = ok, pi_ready = \<lambda>_. None\<rparr>"

theorem mdns_recovers_witness:
  "let inet = \<lparr>inet_v4 = \<lambda>_. None, inet_v6 = \<lambda>_. None\<rparr>;
       m = poll_once inet (quiet_poll 40 False) (snd (advertise ''kitchen'' 8928 ''/sendspin'' [] False new_mdns));
       m' = poll_once inet (quiet_poll 30050 True) (poll_once inet (quiet_poll 50 True) m)
   in md_register_ref m = None \<and> md_advertise_wanted m \<and> md_register_ref m' \<noteq> None"
proof -
  let ?inet = "\<lparr>inet_v4 = \<lambda>_. None, inet_v6 = \<lambda>_. None\<rparr>"
  let ?fresh = "snd (advertise ''kitchen'' 8928 ''/sendspin'' [] False new_mdns)"
  let ?m = "poll_once ?inet (quiet_poll 40 False) ?fresh"
  have r0: "mdns_reachable ?inet ?fresh"
    by (rule mdns_reachable.Step [OF mdns_reachable.Start mdns_step.Advertise]) (simp add: new_mdns_def)
  have p: "mdns_step ?inet ?fresh ?m"
    by (rule mdns_step.Poll) (simp add: advertise_def start_register_def new_mdns_def quiet_poll_def)
  note r = mdns_reachable.Step [OF r0 p]
  have f: "md_register_ref ?m = None \<and> md_advertise_wanted ?m \<and> md_now_ms ?m = 40"
    by (simp add: poll_once_def poll_restarts_def missing_def schedule_restart_def quiet_poll_def advertise_def
      start_register_def new_mdns_def live_refs_def option_list_def Let_def next_retry_delay_ms_def
      MIN_RETRY_DELAY_MS_def MAX_RETRY_DELAY_MS_def)
  have "answers_well (quiet_poll t True)" for t by (simp add: answers_well_def quiet_poll_def)
  from mdns_recovers [OF r this [of 50] this [of 30050]] f show ?thesis
    by (simp add: quiet_poll_def Let_def)
qed

section \<open>The servers offered\<close>

text \<open>
  A candidate with a place in the resolution order has had an address for the settle time, and its
  place is its own.
\<close>

definition settled_at :: "int \<Rightarrow> nat \<Rightarrow> candidate \<Rightarrow> bool" where
  "settled_at now seq c \<longleftrightarrow> (cd_resolved_seq c \<noteq> 0 \<longrightarrow>
     0 \<le> cd_first_address_ms c \<and> cd_first_address_ms c + ADDRESS_SETTLE_MS \<le> now \<and> cd_resolved_seq c < seq)"

definition places :: "(string, candidate) std_map \<Rightarrow> nat list" where
  "places cs = filter (\<lambda>n. n \<noteq> 0) (map (cd_resolved_seq \<circ> snd) cs)"

definition settled :: "int \<Rightarrow> nat \<Rightarrow> (string, candidate) std_map \<Rightarrow> bool" where
  "settled now seq cs \<longleftrightarrow> 1 \<le> seq \<and> (\<forall>(k, c) \<in> set cs. settled_at now seq c) \<and> distinct (places cs)"

lemma places_Nil [simp]: "places [] = []"
  by (simp add: places_def)

lemma places_Cons [simp]:
  "places ((k, c) # cs) = (if cd_resolved_seq c \<noteq> 0 then cd_resolved_seq c # places cs else places cs)"
  by (simp add: places_def)

lemma set_places: "set (places cs) = (cd_resolved_seq \<circ> snd) ` set cs - {0}"
  by (auto simp: places_def)

lemma set_insert_sub: "set (map_insert k c cs) \<subseteq> insert (k, c) (set cs)"
  by (induction k c cs rule: map_insert.induct) auto

lemma settled_later: "settled now seq cs \<Longrightarrow> now \<le> now' \<Longrightarrow> settled now' seq cs"
  by (fastforce simp: settled_def settled_at_def)

lemma set_erase_sub: "set (map_erase k cs) \<subseteq> set cs"
  by (induction k cs rule: map_erase.induct) auto

lemma distinct_places_erase: "distinct (places cs) \<Longrightarrow> distinct (places (map_erase k cs))"
proof (induction k cs rule: map_erase.induct)
  case (2 k k' v m)
  have "set (places (map_erase k m)) \<subseteq> set (places m)"
    unfolding set_places using set_erase_sub [of k m] by blast
  then show ?case using 2 by (auto split: if_splits)
qed simp

lemma settled_erase: "settled now seq cs \<Longrightarrow> settled now seq (map_erase k cs)"
  using set_erase_sub [of k cs] distinct_places_erase by (auto simp: settled_def)

lemma settled_insert_new:
  assumes "settled now seq cs" "cd_resolved_seq c = 0"
  shows "settled now seq (map_insert k c cs)"
proof -
  have "distinct (places cs) \<Longrightarrow> distinct (places (map_insert k c cs))"
    using assms(2)
  proof (induction k c cs rule: map_insert.induct)
    case (2 k v k' v' m)
    have "set (places (map_insert k v m)) \<subseteq> set (places m)"
      unfolding set_places using set_insert_sub [of k v m] 2(3) by fastforce
    then show ?case using 2 by (auto split: if_splits)
  qed simp
  moreover have "settled_at now seq c" using assms(2) by (simp add: settled_at_def)
  ultimately show ?thesis using assms(1) set_insert_sub [of k c cs] by (auto simp: settled_def)
qed

text \<open>Replacing a candidate that keeps its place.\<close>

lemma settled_insert_same:
  assumes "settled now seq cs" "map_wf cs" "map_find cs k = Some d"
    and "cd_resolved_seq c = cd_resolved_seq d"
    and "cd_resolved_seq d \<noteq> 0 \<Longrightarrow> cd_first_address_ms c = cd_first_address_ms d"
  shows "settled now seq (map_insert k c cs)"
proof -
  have d: "(k, d) \<in> set cs" using assms(3) map_find_in [OF assms(2)] by simp
  have "map_wf cs \<Longrightarrow> map_find cs k = Some d \<Longrightarrow> places (map_insert k c cs) = places cs"
    using assms(4)
  proof (induction k c cs rule: map_insert.induct)
    case (2 k v k' v' m)
    show ?case
    proof (cases "k < k'")
      case True
      then have "k \<notin> fst ` set ((k', v') # m)" using "2.prems"(1) by (fastforce simp: map_wf_Cons)
      then show ?thesis using "2.prems"(2) by (simp add: map_find_def map_of_eq_None_iff [symmetric])
    next
      case False
      then show ?thesis using 2 by (auto simp: map_wf_Cons map_find_def)
    qed
  qed simp
  then have "distinct (places (map_insert k c cs))" using assms(1-3) by (simp add: settled_def)
  moreover have "settled_at now seq d" using assms(1) d by (auto simp: settled_def)
  then have "settled_at now seq c" using assms(4,5) by (auto simp: settled_at_def)
  ultimately show ?thesis using assms(1) set_insert_sub [of k c cs] by (auto simp: settled_def)
qed

lemma settle_loop_settled:
  "settle_loop inet now seq cs = (seq', cs') \<Longrightarrow> settled now seq cs \<Longrightarrow>
     seq \<le> seq' \<and> settled now seq' cs' \<and> set (places cs') \<subseteq> set (places cs) \<union> {seq..<seq'}"
proof (induction inet now seq cs arbitrary: seq' cs' rule: settle_loop.induct)
  case (2 inet now seq k c cs)
  let ?skip = "cd_resolved_seq c \<noteq> 0 \<or> cd_first_address_ms c < 0 \<or> now - cd_first_address_ms c < ADDRESS_SETTLE_MS"
  have h: "1 \<le> seq" "settled_at now seq c" "settled now seq cs"
    "cd_resolved_seq c \<noteq> 0 \<Longrightarrow> cd_resolved_seq c \<notin> set (places cs)" "\<forall>p \<in> set (places cs). p < seq"
    using "2.prems"(2) by (auto simp: settled_def set_places settled_at_def split: if_splits)
  define c1 where "c1 = (if ?skip then (c, seq)
    else case discovered_server_url inet (as_server c) of
      Inl _ \<Rightarrow> (c\<lparr>cd_announced := True\<rparr>, seq)
    | Inr _ \<Rightarrow> (c\<lparr>cd_resolved_seq := seq, cd_announced := True\<rparr>, seq + 1))"
  obtain d q where d: "c1 = (d, q)" by fastforce
  obtain ds where r: "settle_loop inet now q cs = (seq', ds)" "cs' = (k, d) # ds"
    using "2.prems"(1) d unfolding c1_def by (auto simp: Let_def split: prod.splits)
  have q: "q = seq \<and> cd_resolved_seq d = cd_resolved_seq c \<and> cd_first_address_ms d = cd_first_address_ms c
    \<or> q = seq + 1 \<and> cd_resolved_seq d = seq \<and> cd_first_address_ms d = cd_first_address_ms c
        \<and> 0 \<le> cd_first_address_ms c \<and> cd_first_address_ms c + ADDRESS_SETTLE_MS \<le> now"
    using d unfolding c1_def by (auto split: if_splits sum.splits)
  have "settled now q cs" using h(1,3) q by (fastforce simp: settled_def settled_at_def)
  from "2.IH" [OF refl d [symmetric, unfolded c1_def] refl r(1) this]
  have i: "q \<le> seq'" "settled now seq' ds" "set (places ds) \<subseteq> set (places cs) \<union> {q..<seq'}" by simp_all
  have "settled_at now seq' d" using q h(1,2) i(1) by (auto simp: settled_at_def)
  moreover have "cd_resolved_seq d \<noteq> 0 \<Longrightarrow> cd_resolved_seq d \<notin> set (places ds)"
    using q h(2,4,5) i(3) by (fastforce simp: settled_at_def)
  moreover have "cd_resolved_seq d \<noteq> 0 \<Longrightarrow> cd_resolved_seq d \<in> insert (cd_resolved_seq c) {seq..<seq'}"
    using q i(1) by auto
  ultimately show ?case using i q r(2) h(1) by (auto simp: settled_def)
qed simp

definition mdns_settled :: "mdns \<Rightarrow> bool" where
  "mdns_settled m \<longleftrightarrow> settled (md_now_ms m) (md_next_seq m) (md_candidates m)"

lemma forget_settled: "mdns_settled m \<Longrightarrow> mdns_settled (forget k m)"
  by (simp add: mdns_settled_def) (simp add: forget_def settled_erase split: option.split)

lemma purge_settled: "mdns_settled m \<Longrightarrow> mdns_settled (purge_doomed m)"
proof -
  assume "mdns_settled m"
  then have "mdns_settled (fold purge_one ks m)" for ks
    by (induction ks arbitrary: m) (simp_all add: purge_one_def forget_settled split: option.split)
  then show ?thesis by (simp add: purge_doomed_def mdns_settled_def)
qed

lemma settled_find: "settled now seq cs \<Longrightarrow> map_wf cs \<Longrightarrow> map_find cs k = Some c \<Longrightarrow> settled_at now seq c"
  using map_find_in [of cs k c] by (auto simp: settled_def)

lemma query_callback_settled:
  assumes "mdns_settled m" "map_wf (md_candidates m)"
  shows "mdns_settled (query_callback k ok add address m)"
proof (cases "md_find m k")
  case (Some c)
  then have f: "map_find (md_candidates m) k = Some c" by (simp add: md_find_def)
  have s: "settled (md_now_ms m) (md_next_seq m) (md_candidates m)" using assms(1) by (simp add: mdns_settled_def)
  have "cd_resolved_seq c = 0 \<or> 0 \<le> cd_first_address_ms c"
    using settled_find [OF s assms(2) f] by (auto simp: settled_at_def)
  then show ?thesis using Some s settled_insert_same [OF s assms(2) f] settled_insert_new [OF s]
    by (simp add: query_callback_def mdns_settled_def) (auto simp: md_put_def add_address_def)
qed (simp add: query_callback_def assms)

lemma browse_callback_settled:
  assumes "mdns_settled m" "map_wf (md_candidates m)"
  shows "mdns_settled (browse_callback ok add i n resolve_ok m)"
proof (cases "map_find (md_candidates m) n")
  case (Some c)
  then show ?thesis using assms settled_insert_same [OF _ assms(2) Some]
    by (simp add: browse_callback_def md_find_def mdns_settled_def Let_def) (simp add: md_put_def)
next
  case None
  then show ?thesis using assms settled_insert_new [of _ _ "md_candidates m" "new_candidate n i _"]
    by (simp add: browse_callback_def md_find_def mdns_settled_def Let_def split: prod.split)
       (simp add: md_put_def new_candidate_def)
qed

lemma resolve_callback_settled:
  assumes "mdns_settled m" "map_wf (md_candidates m)"
  shows "mdns_settled (resolve_callback r n ok i host port path name a b m)"
proof (cases "map_find (md_candidates m) n")
  case (Some c)
  then show ?thesis using assms settled_insert_same [OF _ assms(2) Some]
    by (simp add: resolve_callback_def md_find_def mdns_settled_def Let_def split: prod.split)
       (simp add: md_put_def)
qed (simp add: resolve_callback_def md_find_def assms)

lemma run_callback_settled:
  assumes "mdns_settled m" "map_wf (md_candidates m)"
  shows "mdns_settled (run_callback r role cb m)"
  using assms query_callback_settled browse_callback_settled resolve_callback_settled
  by (cases "(r, role, cb, m)" rule: run_callback.cases) (simp_all add: register_callback_def mdns_settled_def)

lemma callbacks_settled:
  "mdns_inv m \<Longrightarrow> role_ok m r role \<Longrightarrow> mdns_settled m \<Longrightarrow> mdns_settled (fold (run_callback r role) cbs m)"
proof (induction cbs arbitrary: m)
  case (Cons cb cbs)
  have "mdns_settled (run_callback r role cb m)"
    using Cons.prems by (intro run_callback_settled) (simp_all add: mdns_inv_def)
  then show ?case using Cons run_callback_inv by simp
qed simp

lemma process_loop_settled:
  "mdns_inv m \<Longrightarrow> mdns_settled m \<Longrightarrow> mdns_settled (process_loop now ready refs m)"
proof (induction refs arbitrary: m)
  case (Cons r refs)
  show ?case
  proof (cases "ready r")
    case (Some d)
    obtain cbs ok where d: "ready r = Some (cbs, ok)" using Some by (cases d) auto
    show ?thesis
    proof (cases "ref_role_of m r")
      case (Some role)
      note ok = ref_role_ok [OF Some Cons.prems(1)]
      have "mdns_settled (fold (run_callback r role) cbs m)" "mdns_inv (fold (run_callback r role) cbs m)"
        using callbacks_settled [OF Cons.prems(1) ok Cons.prems(2)] fold_callbacks_inv [OF Cons.prems(1) ok] by simp_all
      then show ?thesis using Cons.IH d Some by (simp add: Let_def mdns_settled_def settled_def)
    qed (use Cons d in simp)
  qed (use Cons in simp)
qed simp

lemma poll_restarts_settled:
  "mdns_settled m \<Longrightarrow> md_now_ms m \<le> pi_now inp \<Longrightarrow> mdns_settled (poll_restarts inp m)"
  using settled_later by (simp add: poll_restarts_def Let_def mdns_settled_def)

lemma poll_once_settled:
  assumes "mdns_inv m" "clock_inv m" "mdns_settled m" "md_now_ms m \<le> pi_now inp"
  shows "mdns_settled (poll_once inet inp m)"
proof -
  let ?m = "purge_doomed (drain_retired (process_loop (pi_now inp) (pi_ready inp)
    (live_refs (poll_restarts inp m)) (poll_restarts inp m)))"
  have now: "md_now_ms ?m = pi_now inp"
    using poll_restarts_clock [OF assms(2,4)] by (simp add: process_loop_clock(1))
  have "mdns_settled ?m"
    using process_loop_settled [OF poll_restarts_inv [OF assms(1)] poll_restarts_settled [OF assms(3,4)]]
    by (intro purge_settled) (simp add: mdns_settled_def)
  then show ?thesis using now settle_loop_settled
    by (simp add: poll_once_def Let_def settle_addresses_def mdns_settled_def split: prod.split)
qed

lemma mdns_reachable_settled: "mdns_reachable inet m \<Longrightarrow> mdns_settled m"
proof (induction rule: mdns_reachable.induct)
  case Start
  then show ?case by (simp add: mdns_settled_def settled_def new_mdns_def)
next
  case (Step m m')
  from Step.hyps(2) show ?case
  proof (cases rule: mdns_step.cases)
    case (Poll inp)
    then show ?thesis
      using poll_once_settled [OF mdns_reachable_inv [OF Step.hyps(1)] mdns_reachable_clock [OF Step.hyps(1)]] Step.IH
      by simp
  qed (use Step.IH in \<open>simp_all add: mdns_settled_def advertise_def browse_def mdns_stop_def settled_def\<close>)
qed

text \<open>A server found, resolved and given an address, which is offered 250 ms later.\<close>

definition demo_inet :: inet_pton where
  "demo_inet = \<lparr>inet_v4 = \<lambda>t. if t = ''10.0.0.7'' then Some 0x0A000007 else None, inet_v6 = \<lambda>_. None\<rparr>"

definition demo_poll :: "int \<Rightarrow> nat \<Rightarrow> callback list \<Rightarrow> poll_input" where
  "demo_poll now ref cbs = \<lparr>pi_now = now, pi_register_ok = True, pi_browse_ok = True,
     pi_ready = \<lambda>r. if r = ref then Some (cbs, True) else None\<rparr>"

definition demo_polls :: "poll_input list" where
  "demo_polls =
     [demo_poll 10 0 [Browsed True True 2 ''hall'' True],
      demo_poll 20 1 [Resolved True 2 ''hall.local'' 8927 ''/sendspin'' ''Hall'' True True],
      demo_poll 30 2 [Queried True True ''10.0.0.7''],
      demo_poll 280 9 []]"

definition demo_mdns :: mdns where
  "demo_mdns = fold (poll_once demo_inet) demo_polls (snd (browse True new_mdns))"

lemma polls_reachable:
  "mdns_reachable inet m \<Longrightarrow> sorted (md_now_ms m # map pi_now ps) \<Longrightarrow>
    mdns_reachable inet (fold (poll_once inet) ps m)"
proof (induction ps arbitrary: m)
  case (Cons p ps)
  have t: "md_now_ms m \<le> pi_now p" using Cons.prems(2) by simp
  have r: "mdns_reachable inet (poll_once inet p m)"
    by (rule mdns_reachable.Step [OF Cons.prems(1) mdns_step.Poll [OF t]])
  have "md_now_ms (poll_once inet p m) = pi_now p"
    using poll_restarts_clock [OF mdns_reachable_clock [OF Cons.prems(1)] t]
    by (simp add: poll_once_def Let_def process_loop_clock(1))
  then show ?case using Cons.IH [OF r] Cons.prems(2) by simp
qed simp

lemma demo_reachable: "mdns_reachable demo_inet demo_mdns"
proof -
  have "mdns_reachable demo_inet (snd (browse True new_mdns))"
    by (rule mdns_reachable.Step [OF mdns_reachable.Start mdns_step.Browse]) (simp add: new_mdns_def)
  then show ?thesis unfolding demo_mdns_def
    by (rule polls_reachable) (simp add: demo_polls_def demo_poll_def browse_def start_browse_def new_mdns_def split: prod.split)
qed

lemmas poll_defs = poll_once_def poll_restarts_def missing_def Let_def demo_poll_def live_refs_def option_list_def
  candidate_refs_def drain_retired_def purge_doomed_def settle_addresses_def ref_role_of_def browse_callback_def
  md_find_def map_find_def md_put_def new_candidate_def handle_new_def handle_free_def start_address_query_def
  resolve_callback_def query_callback_def add_address_def ADDRESS_SETTLE_MS_def start_browse_def browse_def new_mdns_def

lemma demo_servers:
  "map sv_name (mdns_servers demo_inet demo_mdns) = [''Hall''] \<and> length (live_refs demo_mdns) = 3"
  by (simp add: poll_defs demo_mdns_def demo_polls_def demo_inet_def mdns_servers_def discovered_server_url_def
    as_server_def classify_address_def)

theorem mdns_refs_owned_once_witness:
  "length (live_refs demo_mdns) = 3 \<and> distinct (live_refs demo_mdns) \<and> length (h_live (md_lib demo_mdns)) = 3
    \<and> h_live (md_lib (mdns_stop demo_mdns)) = []"
proof -
  note h = mdns_refs_owned_once [OF demo_reachable]
  have "length (h_live (md_lib demo_mdns)) = length (live_refs demo_mdns)"
    using h by (metis size_mset)
  then show ?thesis using h demo_servers by simp
qed

text \<open>
  What the service offers to dial: each server it found that has a URL now, in the order they
  became dialable - never two at one place - and none before its addresses had 250 ms to arrive.
\<close>

lemma mdns_offers_settled_servers:
  assumes "mdns_reachable inet m"
  shows "\<exists>cs. mdns_servers inet m = map as_server cs
    \<and> sorted_wrt (<) (map cd_resolved_seq cs)
    \<and> (\<forall>c. c \<in> set cs \<longleftrightarrow> c \<in> snd ` set (md_candidates m) \<and> cd_resolved_seq c \<noteq> 0
          \<and> (case discovered_server_url inet (as_server c) of Inl _ \<Rightarrow> False | Inr _ \<Rightarrow> True))
    \<and> list_all (\<lambda>c. 0 \<le> cd_first_address_ms c \<and> cd_first_address_ms c + ADDRESS_SETTLE_MS \<le> md_now_ms m) cs"
proof -
  let ?ok = "\<lambda>s. case discovered_server_url inet s of Inl _ \<Rightarrow> False | Inr _ \<Rightarrow> True"
  let ?all = "filter (\<lambda>c. cd_resolved_seq c \<noteq> 0) (map snd (md_candidates m))"
  let ?cs = "filter (?ok \<circ> as_server) (sort_key cd_resolved_seq ?all)"
  have s: "settled (md_now_ms m) (md_next_seq m) (md_candidates m)"
    using mdns_reachable_settled [OF assms] by (simp add: mdns_settled_def)
  have "map cd_resolved_seq ?all = places (md_candidates m)"
    by (simp add: places_def filter_map comp_def)
  then have "distinct (map cd_resolved_seq ?all)" using s by (simp add: settled_def)
  then have "distinct (map cd_resolved_seq (sort_key cd_resolved_seq ?all))"
    by (metis mset_map mset_sort mset_eq_imp_distinct_iff)
  then have "sorted_wrt (<) (map cd_resolved_seq (sort_key cd_resolved_seq ?all))"
    by (simp add: strict_sorted_iff)
  then have "sorted_wrt (<) (map cd_resolved_seq ?cs)"
    by (simp add: sorted_wrt_map sorted_wrt_filter)
  moreover have "mdns_servers inet m = map as_server ?cs"
    by (simp add: mdns_servers_def Let_def filter_map)
  moreover have "c \<in> set ?cs \<longleftrightarrow> c \<in> snd ` set (md_candidates m) \<and> cd_resolved_seq c \<noteq> 0 \<and> ?ok (as_server c)" for c
    by auto
  moreover have "list_all (\<lambda>c. 0 \<le> cd_first_address_ms c \<and> cd_first_address_ms c + ADDRESS_SETTLE_MS \<le> md_now_ms m) ?cs"
    using s by (fastforce simp: list_all_iff settled_def settled_at_def)
  ultimately show ?thesis by blast
qed

end
