(* ===== verification/Hooks.thy ===== *)
theory Hooks
  imports Prelude "HOL-Library.Sublist"
begin

text \<open>
  \<^verbatim>\<open>src/src/hooks.{h,cpp}\<close>: the shell commands run on stream start and stop. What \<^verbatim>\<open>fork\<close> and
  \<^verbatim>\<open>waitpid\<close> answer are inputs, the environment of the process and its descriptor limit too; an
  operation returns the runner and the hooks it tried to start. Log lines are left out.
\<close>

section \<open>Definitions\<close>

record hook_context =
  hc_server_id :: string
  hc_server_name :: string
  hc_server_url :: string
  hc_client_id :: string
  hc_client_name :: string

definition empty_context :: hook_context where
  "empty_context = \<lparr>hc_server_id = [], hc_server_name = [], hc_server_url = [], hc_client_id = [], hc_client_name = []\<rparr>"

text \<open>A hook that waits or is started: its command, its event and its context.\<close>

record hook =
  hk_command :: string
  hk_event :: string
  hk_context :: hook_context

record hook_runner =
  hr_running :: "(int \<times> string) list"
  hr_pending :: "hook option"

definition new_hook_runner :: hook_runner where
  "new_hook_runner = \<lparr>hr_running = [], hr_pending = None\<rparr>"

definition ENV_PREFIX :: string where "ENV_PREFIX = ''SENDSPIN_''"
definition FD_CLOSE_CAP :: nat where "FD_CLOSE_CAP = 4096"

text \<open>The soft limit \<^verbatim>\<open>getrlimit\<close> reports, or \<open>None\<close> when the call fails.\<close>

definition fd_close_limit :: "nat option \<Rightarrow> nat" where
  "fd_close_limit limit = (case limit of None \<Rightarrow> FD_CLOSE_CAP | Some cur \<Rightarrow> min cur FD_CLOSE_CAP)"

definition closed_fds :: "nat option \<Rightarrow> nat list" where
  "closed_fds limit = [3..<fd_close_limit limit]"

definition add_env :: "string \<Rightarrow> string \<Rightarrow> string list \<Rightarrow> string list" where
  "add_env name value env = (if value = [] then env else env @ [name @ ''='' @ value])"

definition hook_environment :: "string list \<Rightarrow> string \<Rightarrow> hook_context \<Rightarrow> string list" where
  "hook_environment environ event c =
     add_env ''SENDSPIN_CLIENT_NAME'' (hc_client_name c)
    (add_env ''SENDSPIN_CLIENT_ID'' (hc_client_id c)
    (add_env ''SENDSPIN_SERVER_URL'' (hc_server_url c)
    (add_env ''SENDSPIN_SERVER_NAME'' (hc_server_name c)
    (add_env ''SENDSPIN_SERVER_ID'' (hc_server_id c)
    (add_env ''SENDSPIN_EVENT'' event
    (filter (\<lambda>entry. take (length ENV_PREFIX) entry \<noteq> ENV_PREFIX) environ))))))"

text \<open>\<open>fork\<close> is the child's pid, or \<open>None\<close> when there is none.\<close>

definition spawn :: "int option \<Rightarrow> hook \<Rightarrow> hook_runner \<Rightarrow> hook_runner \<times> hook list" where
  "spawn fork h r =
     ((case fork of None \<Rightarrow> r | Some pid \<Rightarrow> r\<lparr>hr_running := hr_running r @ [(pid, hk_event h)]\<rparr>), [h])"

definition hook_run :: "int option \<Rightarrow> hook \<Rightarrow> hook_runner \<Rightarrow> hook_runner \<times> hook list" where
  "hook_run fork h r =
     (if hr_running r \<noteq> [] then (r\<lparr>hr_pending := Some h\<rparr>, []) else spawn fork h r)"

text \<open>One \<^verbatim>\<open>waitpid\<close> with \<^verbatim>\<open>WNOHANG\<close>: not yet, interrupted, not waitable, or how the child ended.\<close>

datatype wait_answer = WaitNotYet | WaitInterrupted | WaitFailed | WaitExited int | WaitSignaled int

definition still_running :: "wait_answer \<Rightarrow> bool" where
  "still_running w = (case w of WaitNotYet \<Rightarrow> True | WaitInterrupted \<Rightarrow> True | _ \<Rightarrow> False)"

fun reap_loop :: "(int \<Rightarrow> wait_answer) \<Rightarrow> (int \<times> string) list \<Rightarrow> (int \<times> string) list" where
  "reap_loop wait [] = []"
| "reap_loop wait ((pid, event) # hooks) =
     (if still_running (wait pid) then (pid, event) # reap_loop wait hooks else reap_loop wait hooks)"

definition hook_flush :: "int option \<Rightarrow> hook_runner \<Rightarrow> hook_runner \<times> hook list" where
  "hook_flush fork r =
     (case hr_pending r of None \<Rightarrow> (r, []) | Some next \<Rightarrow> spawn fork next (r\<lparr>hr_pending := None\<rparr>))"

definition hook_poll :: "(int \<Rightarrow> wait_answer) \<Rightarrow> int option \<Rightarrow> hook_runner \<Rightarrow> hook_runner \<times> hook list" where
  "hook_poll wait fork r0 =
     (let r = r0\<lparr>hr_running := reap_loop wait (hr_running r0)\<rparr> in
      if hr_running r = [] \<and> hr_pending r \<noteq> None
      then spawn fork (the (hr_pending r)) (r\<lparr>hr_pending := None\<rparr>) else (r, []))"

section \<open>The environment\<close>

text \<open>The values an environment gives to a name, as \<^verbatim>\<open>getenv\<close> and every shell read it.\<close>

definition env_values :: "string \<Rightarrow> string list \<Rightarrow> string list" where
  "env_values name env = map (drop (length name + 1)) (filter (prefix (name @ ''='')) env)"

lemma env_values_add:
  "CHR ''='' \<notin> set name \<Longrightarrow> CHR ''='' \<notin> set n \<Longrightarrow>
    env_values name (add_env n v env) = env_values name env @ (if n = name \<and> v \<noteq> [] then [v] else [])"
proof -
  assume "CHR ''='' \<notin> set name" "CHR ''='' \<notin> set n"
  then have "prefix (name @ ''='') (n @ ''='' @ v) = (n = name)"
    by (induction name n rule: list_induct2') auto
  then show ?thesis by (auto simp: env_values_def add_env_def)
qed

lemma env_values_inherited:
  assumes "CHR ''='' \<notin> set name"
  shows "env_values name (filter (\<lambda>e. take (length ENV_PREFIX) e \<noteq> ENV_PREFIX) environ) =
     (if prefix ENV_PREFIX name then [] else env_values name environ)"
proof -
  have p: "take (length ENV_PREFIX) e = ENV_PREFIX \<longleftrightarrow> prefix ENV_PREFIX e" for e
    by (metis append_take_drop_id prefix_def append_eq_conv_conj)
  have no: "\<not> prefix ENV_PREFIX e" if "prefix (name @ ''='') e" "\<not> prefix ENV_PREFIX name" for e
  proof
    assume "prefix ENV_PREFIX e"
    with that(1) have "prefix (name @ ''='') ENV_PREFIX \<or> prefix ENV_PREFIX (name @ ''='')"
      using prefix_same_cases by blast
    then show False using that(2) assms by (auto simp: ENV_PREFIX_def prefix_Cons prefix_snoc)
  qed
  have yes: "prefix ENV_PREFIX e" if "prefix (name @ ''='') e" "prefix ENV_PREFIX name" for e
    using that by (meson append_prefixD prefix_order.trans)
  show ?thesis
  proof (cases "prefix ENV_PREFIX name")
    case True
    then have "filter (\<lambda>e. prefix (name @ ''='') e \<and> \<not> prefix ENV_PREFIX e) environ = []"
      using yes by (auto simp: filter_empty_conv)
    then show ?thesis using True by (simp add: env_values_def p conj_commute)
  next
    case False
    then have "filter (\<lambda>e. \<not> prefix ENV_PREFIX e \<and> prefix (name @ ''='') e) environ = filter (prefix (name @ ''='')) environ"
      using no by (intro filter_cong) auto
    then show ?thesis using False by (simp add: env_values_def p)
  qed
qed

text \<open>
  What a hook finds in its environment. A name outside \<open>SENDSPIN_\<close> has the values the player
  inherited. One inside it never has an inherited value: the six the player knows have the one value
  of this event, or none when it is unknown, and any other has none.
\<close>

lemma hook_environment_says_what_is_known:
  assumes "CHR ''='' \<notin> set name"
  shows "env_values name (hook_environment environ event c) =
    (if \<not> prefix ''SENDSPIN_'' name then env_values name environ
     else case map_of [(''SENDSPIN_EVENT'', event), (''SENDSPIN_SERVER_ID'', hc_server_id c),
         (''SENDSPIN_SERVER_NAME'', hc_server_name c), (''SENDSPIN_SERVER_URL'', hc_server_url c),
         (''SENDSPIN_CLIENT_ID'', hc_client_id c), (''SENDSPIN_CLIENT_NAME'', hc_client_name c)] name of
       Some v \<Rightarrow> if v = [] then [] else [v]
     | None \<Rightarrow> [])"
proof -
  have e: "env_values name (hook_environment environ event c) =
      (if prefix ''SENDSPIN_'' name then [] else env_values name environ)
      @ (if ''SENDSPIN_EVENT'' = name \<and> event \<noteq> [] then [event] else [])
      @ (if ''SENDSPIN_SERVER_ID'' = name \<and> hc_server_id c \<noteq> [] then [hc_server_id c] else [])
      @ (if ''SENDSPIN_SERVER_NAME'' = name \<and> hc_server_name c \<noteq> [] then [hc_server_name c] else [])
      @ (if ''SENDSPIN_SERVER_URL'' = name \<and> hc_server_url c \<noteq> [] then [hc_server_url c] else [])
      @ (if ''SENDSPIN_CLIENT_ID'' = name \<and> hc_client_id c \<noteq> [] then [hc_client_id c] else [])
      @ (if ''SENDSPIN_CLIENT_NAME'' = name \<and> hc_client_name c \<noteq> [] then [hc_client_name c] else [])"
    using assms env_values_inherited [OF assms, of environ]
    by (simp add: hook_environment_def env_values_add ENV_PREFIX_def)
  show ?thesis
  proof (cases "prefix ''SENDSPIN_'' name")
    case True
    then show ?thesis unfolding e by simp
  next
    case False
    then have "''SENDSPIN_'' @ x \<noteq> name" for x by auto
    from this [of "''EVENT''"] this [of "''SERVER_ID''"] this [of "''SERVER_NAME''"] this [of "''SERVER_URL''"]
      this [of "''CLIENT_ID''"] this [of "''CLIENT_NAME''"] False
    show ?thesis unfolding e by simp
  qed
qed

section \<open>One at a time, and the newest last\<close>

datatype hook_event =
  HookRun "int option" hook
| HookPoll "int \<Rightarrow> wait_answer" "int option"

definition hook_step :: "hook_event \<Rightarrow> hook_runner \<times> hook list \<Rightarrow> hook_runner \<times> hook list" where
  "hook_step e w =
     (let (r, started) = (case e of HookRun fork h \<Rightarrow> hook_run fork h (fst w)
                                  | HookPoll wait fork \<Rightarrow> hook_poll wait fork (fst w))
      in (r, snd w @ started))"

definition requested :: "hook_event list \<Rightarrow> hook list" where
  "requested es = concat (map (\<lambda>e. case e of HookRun _ h \<Rightarrow> [h] | HookPoll _ _ \<Rightarrow> []) es)"

definition hook_history :: "hook_event list \<Rightarrow> hook_runner \<times> hook list" where
  "hook_history es = fold hook_step es (new_hook_runner, [])"

definition pending_list :: "hook_runner \<Rightarrow> hook list" where
  "pending_list r = (case hr_pending r of None \<Rightarrow> [] | Some h \<Rightarrow> [h])"

definition hooks_ok :: "hook list \<Rightarrow> hook_runner \<times> hook list \<Rightarrow> bool" where
  "hooks_ok asked w \<longleftrightarrow>
     length (hr_running (fst w)) \<le> 1
     \<and> (hr_pending (fst w) \<noteq> None \<longrightarrow> hr_running (fst w) \<noteq> [])
     \<and> subseq (snd w @ pending_list (fst w)) asked
     \<and> (asked \<noteq> [] \<longrightarrow> snd w @ pending_list (fst w) \<noteq> [] \<and> last (snd w @ pending_list (fst w)) = last asked)"

lemma reap_loop_length: "length (reap_loop wait hs) \<le> length hs"
  by (induction wait hs rule: reap_loop.induct) auto

lemma hooks_ok_run: "hooks_ok asked w \<Longrightarrow> hooks_ok (asked @ [h]) (hook_step (HookRun fork h) w)"
proof -
  assume w: "hooks_ok asked w"
  have s: "subseq (snd w @ [h]) (asked @ [h])"
    using w by (auto simp: hooks_ok_def intro: subseq_order.trans [of _ "snd w @ pending_list (fst w)"])
  show ?thesis
  proof (cases "hr_running (fst w) = []")
    case True
    then have "pending_list (fst w) = []" using w by (auto simp: hooks_ok_def pending_list_def)
    then show ?thesis using w s True
      by (auto simp: hooks_ok_def hook_step_def hook_run_def spawn_def pending_list_def split: option.splits)
  next
    case False
    then show ?thesis using w s by (simp add: hooks_ok_def hook_step_def hook_run_def pending_list_def)
  qed
qed

lemma hooks_ok_poll: "hooks_ok asked w \<Longrightarrow> hooks_ok asked (hook_step (HookPoll wait fork) w)"
  using reap_loop_length [of wait "hr_running (fst w)"]
  by (cases "hr_pending (fst w)"; cases fork)
     (auto simp: hooks_ok_def hook_step_def hook_poll_def spawn_def pending_list_def Let_def)

lemma hooks_ok_history: "hooks_ok (requested es) (hook_history es)"
proof (induction es rule: rev_induct)
  case (snoc e es)
  then show ?case
    by (cases e) (simp_all add: hook_history_def requested_def hooks_ok_run hooks_ok_poll)
qed (simp add: hook_history_def requested_def hooks_ok_def new_hook_runner_def pending_list_def)

text \<open>
  C17. Hooks never run side by side while the player runs, are started in the order of their events,
  and the newest event is never lost: it is the last one started, or it waits behind the one that
  runs. The flush at shutdown starts what waits, so that after it the last hook started is the one of
  the last event.
\<close>

theorem hooks_end_in_the_last_event:
  "let (r, started) = hook_history es; (r', late) = hook_flush fork r in
     length (hr_running r) \<le> 1
     \<and> subseq (started @ late) (requested es)
     \<and> (case requested es of [] \<Rightarrow> started @ late = []
        | _ \<Rightarrow> started @ late \<noteq> [] \<and> last (started @ late) = last (requested es))
     \<and> hr_pending r' = None"
proof -
  obtain r s where h: "hook_history es = (r, s)" by fastforce
  have f: "snd (hook_flush fork r) = pending_list r" "hr_pending (fst (hook_flush fork r)) = None"
    by (simp_all add: hook_flush_def pending_list_def spawn_def split: option.split)
  obtain r' late where l: "hook_flush fork r = (r', late)" by fastforce
  have "hooks_ok (requested es) (r, s)" using hooks_ok_history [of es] h by simp
  then show ?thesis using f h l
    by (cases "requested es") (auto simp: hooks_ok_def dest: list_emb_Nil2)
qed

end
