(* ===== verification/Listener.thy ===== *)
theory Listener
  imports AudioTypes StateStore
begin

text \<open>
  \<^verbatim>\<open>src/src/player_listener.{h,cpp}\<close>: the adapter from the player role's callbacks to the sink,
  and the start of a run that puts the remembered volume back (\<^verbatim>\<open>main.cpp\<close>). What it does to the
  sink, the stream event it fires and what it writes through to the store are one trace of actions;
  the sink's answers are inputs. The two atomics are plain fields: each callback is one step.
\<close>

section \<open>Definitions\<close>

datatype player_action =
  StreamEvent bool
| SinkConfigure stream_format bool
| SinkClear
| SinkVolume u8
| SinkMuted bool
| Persisted u8 bool bool

record player_listener =
  pl_streaming :: bool
  pl_applied_volume :: u8
  pl_applied_muted :: bool
  pl_volume_source :: volume_source
  pl_stream_format :: "stream_format option"
  pl_stream_refused :: bool
  pl_refused_bytes :: u64

definition new_player_listener :: player_listener where
  "new_player_listener =
     \<lparr>pl_streaming = False, pl_applied_volume = DEFAULT_SINK_VOLUME, pl_applied_muted = False,
      pl_volume_source = SinkDefault, pl_stream_format = None, pl_stream_refused = False,
      pl_refused_bytes = 0\<rparr>"

text \<open>What it holds on to: itself, the store and the files, and the actions so far.\<close>

record player_state =
  ps_listener :: player_listener
  ps_store :: "state_store option"
  ps_files :: file_system
  ps_trace :: "player_action list"

definition act :: "player_action list \<Rightarrow> player_state \<Rightarrow> player_state" where
  "act actions p = p\<lparr>ps_trace := ps_trace p @ actions\<rparr>"

definition set_listener :: "player_listener \<Rightarrow> player_state \<Rightarrow> player_state" where
  "set_listener l p = p\<lparr>ps_listener := l\<rparr>"

text \<open>\<open>written\<close> is what the sink's \<^verbatim>\<open>write\<close> returned.\<close>

definition on_audio_write :: "nat \<Rightarrow> player_state \<Rightarrow> nat \<times> player_state" where
  "on_audio_write written p =
     (let l = ps_listener p in
      (written, if pl_stream_refused l
                then set_listener (l\<lparr>pl_refused_bytes := pl_refused_bytes l + of_nat written\<rparr>) p else p))"

text \<open>\<open>params\<close> are the stream's parameters when they are complete; \<open>accepts\<close> is the sink's \<^verbatim>\<open>configure\<close>.\<close>

definition on_stream_start :: "stream_format option \<Rightarrow> (stream_format \<Rightarrow> bool) \<Rightarrow> player_state \<Rightarrow> player_state" where
  "on_stream_start params accepts p =
     (let l = (ps_listener p)\<lparr>pl_stream_refused := False, pl_refused_bytes := 0, pl_streaming := True,
                               pl_stream_format := None\<rparr>;
          p1 = act [StreamEvent True] (set_listener l p)
      in case params of
           None \<Rightarrow> p1
         | Some fmt \<Rightarrow>
             (let p2 = act [SinkConfigure fmt (accepts fmt)] p1 in
              if \<not> accepts fmt then set_listener (l\<lparr>pl_stream_refused := True\<rparr>) p2
              else set_listener (l\<lparr>pl_stream_format := Some fmt\<rparr>) p2))"

definition on_stream_end :: "player_state \<Rightarrow> player_state" where
  "on_stream_end p =
     act [SinkClear, StreamEvent False]
       (set_listener ((ps_listener p)\<lparr>pl_stream_refused := False, pl_refused_bytes := 0,
          pl_streaming := False, pl_stream_format := None\<rparr>) p)"

definition persist_volume :: "syscalls \<Rightarrow> player_state \<Rightarrow> player_state" where
  "persist_volume sys p =
     (case ps_store p of
        None \<Rightarrow> p
      | Some s \<Rightarrow>
          (let l = ps_listener p;
               (ok, s', trace) = set_volume_and_muted sys (pl_applied_volume l) (pl_applied_muted l) s (ps_files p)
           in act [Persisted (pl_applied_volume l) (pl_applied_muted l) ok]
                (p\<lparr>ps_store := Some s', ps_files := last trace\<rparr>)))"

definition on_volume_changed :: "syscalls \<Rightarrow> u8 \<Rightarrow> player_state \<Rightarrow> player_state" where
  "on_volume_changed sys volume p =
     persist_volume sys (set_listener ((ps_listener p)\<lparr>pl_applied_volume := volume, pl_volume_source := FromServer\<rparr>)
       (act [SinkVolume volume] p))"

definition on_mute_changed :: "syscalls \<Rightarrow> bool \<Rightarrow> player_state \<Rightarrow> player_state" where
  "on_mute_changed sys muted p =
     persist_volume sys (set_listener ((ps_listener p)\<lparr>pl_applied_muted := muted, pl_volume_source := FromServer\<rparr>)
       (act [SinkMuted muted] p))"

definition restore_volume :: "u8 \<Rightarrow> bool \<Rightarrow> player_state \<Rightarrow> player_state" where
  "restore_volume volume muted p =
     set_listener ((ps_listener p)\<lparr>pl_applied_volume := volume, pl_applied_muted := muted, pl_volume_source := Restored\<rparr>)
       (act [SinkVolume volume, SinkMuted muted] p)"

text \<open>
  The start of a run: the listener on the loaded store, the remembered pair put back, and the pair
  the player role is told (\<^verbatim>\<open>update_volume\<close>, \<^verbatim>\<open>update_muted\<close>).
\<close>

definition start_player :: "state_store \<Rightarrow> file_system \<Rightarrow> player_state \<times> u8 \<times> bool" where
  "start_player store files =
     (let p = \<lparr>ps_listener = new_player_listener, ps_store = Some store, ps_files = files, ps_trace = []\<rparr>;
          volume = (case stored_volume store of Some v \<Rightarrow> v | None \<Rightarrow> DEFAULT_SINK_VOLUME);
          muted = (case stored_muted store of Some b \<Rightarrow> b | None \<Rightarrow> False)
      in (if stored_volume store \<noteq> None \<or> stored_muted store \<noteq> None then restore_volume volume muted p else p,
          volume, muted))"

section \<open>A run\<close>

text \<open>The callbacks, in the order they fire, with the answers each of them gets.\<close>

datatype player_callback =
  CbWrite nat
| CbStart "stream_format option" "stream_format \<Rightarrow> bool"
| CbEnd
| CbVolume syscalls u8
| CbMute syscalls bool

fun player_step :: "player_callback \<Rightarrow> player_state \<Rightarrow> player_state" where
  "player_step (CbWrite n) p = snd (on_audio_write n p)"
| "player_step (CbStart params accepts) p = on_stream_start params accepts p"
| "player_step CbEnd p = on_stream_end p"
| "player_step (CbVolume sys v) p = on_volume_changed sys v p"
| "player_step (CbMute sys b) p = on_mute_changed sys b p"

definition player_run :: "player_callback list \<Rightarrow> player_state \<Rightarrow> player_state" where
  "player_run cbs p = fold player_step cbs p"

text \<open>What the sink was last told, and the stream as its events and configurations say.\<close>

definition sink_volume :: "player_action list \<Rightarrow> u8" where
  "sink_volume tr = fold (\<lambda>a v. case a of SinkVolume w \<Rightarrow> w | _ \<Rightarrow> v) tr DEFAULT_SINK_VOLUME"

definition sink_muted :: "player_action list \<Rightarrow> bool" where
  "sink_muted tr = fold (\<lambda>a b. case a of SinkMuted c \<Rightarrow> c | _ \<Rightarrow> b) tr False"

text \<open>Whether a stream runs, and what the sink made of its format.\<close>

definition stream_of :: "player_action list \<Rightarrow> bool \<times> (stream_format \<times> bool) option" where
  "stream_of tr = fold (\<lambda>a st. case a of StreamEvent b \<Rightarrow> (b, None) | SinkConfigure f ok \<Rightarrow> (fst st, Some (f, ok)) | _ \<Rightarrow> st)
     tr (False, None)"

lemmas trace_reading = sink_volume_def sink_muted_def stream_of_def

definition truthful :: "player_state \<Rightarrow> bool" where
  "truthful p \<longleftrightarrow> (let l = ps_listener p; tr = ps_trace p in
     pl_applied_volume l = sink_volume tr \<and> pl_applied_muted l = sink_muted tr
     \<and> (case stream_of tr of (running, answer) \<Rightarrow>
          pl_streaming l = running
          \<and> pl_stream_format l = (case answer of Some (f, True) \<Rightarrow> Some f | _ \<Rightarrow> None)
          \<and> pl_stream_refused l = (case answer of Some (_, False) \<Rightarrow> True | _ \<Rightarrow> False)
          \<and> (answer \<noteq> None \<longrightarrow> running)))"

lemma act_fields [simp]:
  "ps_listener (act as p) = ps_listener p" "ps_trace (act as p) = ps_trace p @ as"
  "ps_store (act as p) = ps_store p" "ps_files (act as p) = ps_files p"
  "ps_listener (set_listener l p) = l" "ps_trace (set_listener l p) = ps_trace p"
  "ps_store (set_listener l p) = ps_store p" "ps_files (set_listener l p) = ps_files p"
  by (simp_all add: act_def set_listener_def)

lemma read_snoc [simp]:
  "sink_volume (tr @ as) = fold (\<lambda>a v. case a of SinkVolume w \<Rightarrow> w | _ \<Rightarrow> v) as (sink_volume tr)"
  "sink_muted (tr @ as) = fold (\<lambda>a b. case a of SinkMuted c \<Rightarrow> c | _ \<Rightarrow> b) as (sink_muted tr)"
  "stream_of (tr @ as) =
     fold (\<lambda>a st. case a of StreamEvent b \<Rightarrow> (b, None) | SinkConfigure f ok \<Rightarrow> (fst st, Some (f, ok)) | _ \<Rightarrow> st)
       as (stream_of tr)"
  by (simp_all add: trace_reading)

lemma persist_fields [simp]:
  "ps_listener (persist_volume sys p) = ps_listener p"
  "sink_volume (ps_trace (persist_volume sys p)) = sink_volume (ps_trace p)"
  "sink_muted (ps_trace (persist_volume sys p)) = sink_muted (ps_trace p)"
  "stream_of (ps_trace (persist_volume sys p)) = stream_of (ps_trace p)"
  by (simp_all add: persist_volume_def Let_def split: option.split prod.split)

lemma truthful_step: "truthful p \<Longrightarrow> truthful (player_step cb p)"
proof (cases cb)
  case (CbStart params accepts)
  assume "truthful p"
  then show ?thesis using CbStart
    by (cases params) (simp_all add: truthful_def on_stream_start_def Let_def)
next
  case (CbWrite n)
  assume "truthful p"
  then show ?thesis using CbWrite
    by (cases "stream_of (ps_trace p)") (auto simp: truthful_def on_audio_write_def Let_def)
next
  case CbEnd
  assume "truthful p"
  then show ?thesis using CbEnd by (simp add: truthful_def on_stream_end_def Let_def)
next
  case (CbVolume sys v)
  assume "truthful p"
  then show ?thesis using CbVolume by (simp add: truthful_def on_volume_changed_def Let_def)
next
  case (CbMute sys b)
  assume "truthful p"
  then show ?thesis using CbMute by (simp add: truthful_def on_mute_changed_def Let_def)
qed

lemma truthful_run: "truthful p \<Longrightarrow> truthful (player_run cbs p)"
  by (induction cbs arbitrary: p) (simp_all add: player_run_def truthful_step)

lemma start_player_truthful: "truthful (fst (start_player store files))"
  by (simp add: start_player_def restore_volume_def truthful_def new_player_listener_def Let_def)
     (simp add: trace_reading)

text \<open>
  C31. What \<open>status\<close> says of this endpoint is what the sink is really doing. After any sequence of
  callbacks, whatever the sink and the disk answer: the volume and the mute are the last the sink was
  told, or its own defaults; the player streams between a start and its end and only then; and it
  has a format exactly when the sink accepted one in the stream that runs.
\<close>

theorem status_tells_what_the_sink_does:
  "let p = player_run cbs (fst (start_player store files)); l = ps_listener p; tr = ps_trace p in
     pl_applied_volume l = sink_volume tr \<and> pl_applied_muted l = sink_muted tr
     \<and> pl_streaming l = fst (stream_of tr)
     \<and> (\<forall>f. pl_stream_format l = Some f \<longleftrightarrow> snd (stream_of tr) = Some (f, True))
     \<and> pl_stream_refused l = (\<exists>f. snd (stream_of tr) = Some (f, False))
     \<and> (if pl_streaming l then True else pl_stream_format l = None \<and> \<not> pl_stream_refused l)"
  using truthful_run [OF start_player_truthful, of cbs store files]
  by (auto simp: truthful_def Let_def split: prod.splits option.splits bool.splits)

section \<open>The volume survives the run\<close>

definition stored_ok :: "string \<Rightarrow> player_state \<Rightarrow> bool" where
  "stored_ok path p \<longleftrightarrow> (case ps_store p of None \<Rightarrow> False
     | Some s \<Rightarrow> store_clean s \<and> store_path s = path \<and> path \<noteq> [] \<and> on_disk (ps_files p) s)"

lemma volume_pair_clean:
  "\<forall>(k, v) \<in> set [(KEY_VOLUME, to_string (unat (vol :: u8))), (KEY_MUTED, if mute then ''true'' else ''false'')]. kv_clean k v"
  by (simp add: clean_settings clean_keys)

lemma set_volume_on_disk:
  assumes "set_volume_and_muted sys vol mute s files = (ok, s', trace)"
    and "store_clean s" "store_path s \<noteq> []" "on_disk files s"
  shows "store_clean s' \<and> store_path s' = store_path s \<and> on_disk (last trace) s'"
  using memory_stays_on_disk_lemma [OF assms(2-4) volume_pair_clean assms(1) [unfolded set_volume_and_muted_def]]
    set_all_all_or_nothing_lemma [OF _ assms(1) [unfolded set_volume_and_muted_def]] assms(2)
  by (simp add: store_clean_def)

lemma stored_ok_persist: "stored_ok path p \<Longrightarrow> stored_ok path (persist_volume sys p)"
  using set_volume_on_disk by (fastforce simp: stored_ok_def persist_volume_def Let_def split: option.splits prod.splits)

lemma stored_ok_cong: "ps_store q = ps_store p \<Longrightarrow> ps_files q = ps_files p \<Longrightarrow> stored_ok path q = stored_ok path p"
  by (simp add: stored_ok_def split: option.split)

lemma stream_step_store:
  "ps_store (on_stream_start params accepts p) = ps_store p" "ps_files (on_stream_start params accepts p) = ps_files p"
  "ps_store (on_stream_end p) = ps_store p" "ps_files (on_stream_end p) = ps_files p"
  "ps_store (snd (on_audio_write n p)) = ps_store p" "ps_files (snd (on_audio_write n p)) = ps_files p"
  by (simp_all add: on_stream_start_def on_stream_end_def on_audio_write_def Let_def split: option.split)

lemma stored_ok_step: "stored_ok path p \<Longrightarrow> stored_ok path (player_step cb p)"
  by (cases cb) (simp_all add: stored_ok_cong [OF stream_step_store(1,2)] stored_ok_cong [OF stream_step_store(3,4)]
    stored_ok_cong [OF stream_step_store(5,6)] on_volume_changed_def on_mute_changed_def stored_ok_persist
    stored_ok_cong [of "set_listener _ (act _ p)" p])

lemma stored_ok_run: "stored_ok path p \<Longrightarrow> stored_ok path (player_run cbs p)"
  by (induction cbs arbitrary: p) (simp_all add: player_run_def stored_ok_step)

text \<open>
  C30. The volume and the mute a server set are those of the next run. Whatever callbacks came before
  and whatever the disk answered to them: when the write after a volume change succeeds, the next run
  that loads the file starts with the sink, the role and \<open>status\<close> at that volume and that mute, and
  says that they were restored.
\<close>

theorem server_volume_is_next_runs_volume:
  assumes "store_clean s" "store_path s \<noteq> []" "on_disk files s" "unat vol \<le> 100"
    and "p = on_volume_changed sys vol (player_run cbs (fst (start_player s files)))"
    and "last (ps_trace p) = Persisted vol mute True"
  shows "let (q, role_volume, role_muted) = start_player (reloaded (ps_files p) (store_path s)) (ps_files p) in
    role_volume = vol \<and> role_muted = mute
    \<and> sink_volume (ps_trace q) = vol \<and> sink_muted (ps_trace q) = mute
    \<and> pl_applied_volume (ps_listener q) = vol \<and> pl_applied_muted (ps_listener q) = mute
    \<and> pl_volume_source (ps_listener q) = Restored"
proof -
  let ?r = "player_run cbs (fst (start_player s files))"
  have "stored_ok (store_path s) (fst (start_player s files))"
    using assms(1-3) by (simp add: stored_ok_def start_player_def restore_volume_def Let_def)
  then have ok: "stored_ok (store_path s) ?r" by (rule stored_ok_run)
  obtain t where t: "ps_store ?r = Some t" "store_path t = store_path s" "store_clean t" "on_disk (ps_files ?r) t"
    using ok by (auto simp: stored_ok_def split: option.splits)
  obtain b t' trace where w: "set_volume_and_muted sys vol (pl_applied_muted (ps_listener ?r)) t (ps_files ?r) = (b, t', trace)"
    by (metis prod_cases3)
  have f: "ps_files p = last trace" "mute = pl_applied_muted (ps_listener ?r)" "b"
    using assms(5,6) t(1) w by (simp_all add: on_volume_changed_def persist_volume_def Let_def)
  have "set_volume_and_muted sys vol mute t (ps_files ?r) = (True, t', trace)" using w f by simp
  from volume_reloaded [OF t(3) _ t(4) this assms(4)] t(2) assms(2)
  have "stored_volume (reloaded (last trace) (store_path s)) = Some vol"
    "stored_muted (reloaded (last trace) (store_path s)) = Some mute"
    by (simp_all add: Let_def)
  then show ?thesis using f
    by (simp add: start_player_def restore_volume_def Let_def) (simp add: trace_reading)
qed

theorem server_volume_is_next_runs_volume_witness:
  "let s = StateStore ''s'';
       p = on_volume_changed all_calls_ok 40 (player_run [CbEnd] (fst (start_player s Map.empty)));
       (q, role_volume, _) = start_player (reloaded (ps_files p) ''s'') (ps_files p)
   in role_volume = 40 \<and> sink_volume (ps_trace q) = 40 \<and> pl_volume_source (ps_listener q) = Restored"
proof -
  let ?s = "StateStore ''s''"
  let ?r = "player_run [CbEnd] (fst (start_player ?s Map.empty))"
  define p where "p = on_volume_changed all_calls_ok 40 ?r"
  have r: "ps_store ?r = Some ?s" "ps_files ?r = Map.empty" "pl_applied_muted (ps_listener ?r) = False"
    by (simp_all add: player_run_def on_stream_end_def start_player_def stored_volume_def stored_muted_def
      get_number_def state_get_def StateStore_def new_player_listener_def Let_def)
  have "fst (set_volume_and_muted all_calls_ok 40 False ?s Map.empty)"
    by (simp add: set_volume_and_muted_def set_all_def state_write_def all_calls_ok_def fs_remove_def Let_def
      StateStore_def parent_directory_def find_last_char_def)
  then have l: "last (ps_trace p) = Persisted 40 False True"
    using r by (auto simp: p_def on_volume_changed_def persist_volume_def Let_def split: prod.split)
  have c: "store_clean ?s" "store_path ?s \<noteq> []" "on_disk Map.empty ?s" "unat (40 :: u8) \<le> 100"
    by (simp_all add: store_clean_def StateStore_def on_disk_def state_load_def read_key_value_file_def)
  obtain q rv rm where q: "start_player (reloaded (ps_files p) ''s'') (ps_files p) = (q, rv, rm)"
    by (metis prod_cases3)
  have "store_path ?s = ''s''" by (simp add: StateStore_def)
  then show ?thesis
    using server_volume_is_next_runs_volume [OF c p_def l] q by (simp add: p_def [symmetric] Let_def)
qed

end
