(* ===== verification/ControlServer.thy ===== *)
theory ControlServer
  imports ControlWire Handles
begin

text \<open>
  The listening half of the control channel, \<^verbatim>\<open>ControlSocket::poll\<close> and \<^verbatim>\<open>close\<close> of
  \<^verbatim>\<open>src/src/control_socket.cpp\<close>: connections accepted, requests assembled, answered and closed,
  once per tick of the main loop. The kernel's answers are inputs, each loop's own list of them; an
  exhausted list is \<^verbatim>\<open>EAGAIN\<close>. The handler threads a state of its own. Descriptors are handles.
  Log lines are left out.
\<close>

section \<open>Definitions\<close>

definition MAX_CONTROL_CONNECTIONS :: nat where "MAX_CONTROL_CONNECTIONS = 8"
definition CONTROL_IDLE_TIMEOUT_MS :: int where "CONTROL_IDLE_TIMEOUT_MS = 5000"

record connection =
  cn_fd :: nat
  cn_assembler :: line_assembler
  cn_accepted_ms :: int

record control_socket =
  cs_listening :: bool
  cs_connections :: "connection list"
  cs_fds :: handles

definition new_control_socket :: control_socket where
  "new_control_socket = \<lparr>cs_listening = False, cs_connections = [], cs_fds = no_handles\<rparr>"

type_synonym 'w control_handler = "string \<Rightarrow> 'w \<Rightarrow> string \<times> 'w"

text \<open>What was written to which descriptor, in order.\<close>

type_synonym sent = "(nat \<times> string) list"

definition busy_reply :: string where
  "busy_reply = encode_control_reply Failed
     (''this player already has '' @ to_string MAX_CONTROL_CONNECTIONS @
      '' control connections open, which is as many as it will take -- try again'') []"

text \<open>
  One accepted connection per element: how much of a busy reply it takes, and whether it could be
  made non-blocking.
\<close>

fun accept_loop :: "int \<Rightarrow> (nat \<times> bool) list \<Rightarrow> connection list \<Rightarrow> handles \<Rightarrow> connection list \<times> handles \<times> sent" where
  "accept_loop now [] cs fds = (cs, fds, [])"
| "accept_loop now ((taken, nonblock_ok) # accepts) cs fds =
     (let (fd, fds1) = handle_new fds in
      if length cs \<ge> MAX_CONTROL_CONNECTIONS
      then (let (cs', fds', s) = accept_loop now accepts cs (handle_free fd fds1)
            in (cs', fds', (fd, take taken busy_reply) # s))
      else if \<not> nonblock_ok then accept_loop now accepts cs (handle_free fd fds1)
      else accept_loop now accepts
             (cs @ [\<lparr>cn_fd = fd, cn_assembler = new_assembler, cn_accepted_ms = now\<rparr>]) fds1)"

text \<open>\<open>ReadData\<close> is at most \<open>MAX_CONTROL_LINE_BYTES\<close> bytes, the size of the buffer.\<close>

datatype read_answer = ReadData string | ReadEof | ReadInterrupted | ReadAgain | ReadError

fun read_loop :: "read_answer list \<Rightarrow> line_assembler \<Rightarrow> line_state \<times> bool \<times> line_assembler" where
  "read_loop [] a = (LineIncomplete, False, a)"
| "read_loop (ReadData d # reads) a =
     (case assembler_feed d a of
        (LineIncomplete, a') \<Rightarrow> read_loop reads a'
      | (state, a') \<Rightarrow> (state, False, a'))"
| "read_loop (ReadEof # reads) a = (case assembler_finish a of (state, a') \<Rightarrow> (state, True, a'))"
| "read_loop (ReadInterrupted # reads) a = read_loop reads a"
| "read_loop (ReadAgain # reads) a = (LineIncomplete, False, a)"
| "read_loop (ReadError # reads) a = (LineIncomplete, True, a)"

datatype write_answer = Wrote nat | WriteInterrupted | WriteFailed

text \<open>The bytes of the reply that get out; \<open>left\<close> is what is still to be written.\<close>

fun write_loop :: "write_answer list \<Rightarrow> string \<Rightarrow> string" where
  "write_loop answers [] = []"
| "write_loop [] left = []"
| "write_loop (Wrote n # answers) left =
     (if n = 0 then [] else take n left @ write_loop answers (drop n left))"
| "write_loop (WriteInterrupted # answers) left = write_loop answers left"
| "write_loop (WriteFailed # answers) left = []"

record tick =
  tk_now :: int
  tk_accepts :: "(nat \<times> bool) list"
  tk_reads :: "nat \<Rightarrow> read_answer list"
  tk_writes :: "nat \<Rightarrow> write_answer list"

text \<open>What becomes of one connection in a tick.\<close>

datatype served = Keep connection | Drop | Answer string

definition serve :: "'w control_handler \<Rightarrow> tick \<Rightarrow> connection \<Rightarrow> 'w \<Rightarrow> served \<times> 'w" where
  "serve handler t c w =
     (let (state, closed, a) = read_loop (tk_reads t (cn_fd c)) (cn_assembler c) in
      if state = LineReady then (let (reply, w') = handler (asm_line a) w in (Answer reply, w'))
      else if state = LineTooLong \<or> state = LineInvalid
      then (Answer (encode_control_reply Usage (line_state_reason state) []), w)
      else if closed then (Drop, w)
      else if tk_now t - cn_accepted_ms c \<ge> CONTROL_IDLE_TIMEOUT_MS then (Drop, w)
      else (Keep (c\<lparr>cn_assembler := a\<rparr>), w))"

fun serve_loop ::
  "'w control_handler \<Rightarrow> tick \<Rightarrow> connection list \<Rightarrow> handles \<Rightarrow> 'w \<Rightarrow> connection list \<times> handles \<times> sent \<times> 'w" where
  "serve_loop handler t [] fds w = ([], fds, [], w)"
| "serve_loop handler t (c # cs) fds w =
     (let (outcome, w1) = serve handler t c w;
          (fds1, sent1) = (case outcome of
             Keep _ \<Rightarrow> (fds, [])
           | Drop \<Rightarrow> (handle_free (cn_fd c) fds, [])
           | Answer reply \<Rightarrow>
               (handle_free (cn_fd c) fds, [(cn_fd c, write_loop (tk_writes t (cn_fd c)) reply)]));
          (surviving, fds2, sent2, w2) = serve_loop handler t cs fds1 w1
      in ((case outcome of Keep c' \<Rightarrow> c' # surviving | _ \<Rightarrow> surviving), fds2, sent1 @ sent2, w2))"

definition control_poll ::
  "'w control_handler \<Rightarrow> tick \<Rightarrow> control_socket \<Rightarrow> 'w \<Rightarrow> control_socket \<times> sent \<times> 'w" where
  "control_poll handler t s w =
     (if \<not> cs_listening s then (s, [], w)
      else
        (let (cs, fds, busy) = accept_loop (tk_now t) (tk_accepts t) (cs_connections s) (cs_fds s);
             (surviving, fds', sent, w') = serve_loop handler t cs fds w
         in (s\<lparr>cs_connections := surviving, cs_fds := fds'\<rparr>, busy @ sent, w')))"

definition control_close :: "control_socket \<Rightarrow> control_socket" where
  "control_close s =
     s\<lparr>cs_fds := fold (\<lambda>c. handle_free (cn_fd c)) (cs_connections s) (cs_fds s), cs_connections := [],
       cs_listening := False\<rparr>"

section \<open>Descriptors\<close>

definition fds_of :: "connection list \<Rightarrow> nat multiset" where
  "fds_of cs = mset (map cn_fd cs)"

lemma fds_of_simps [simp]: "fds_of [] = {#}" "fds_of (c # cs) = add_mset (cn_fd c) (fds_of cs)"
  "fds_of (cs @ ds) = fds_of cs + fds_of ds"
  by (simp_all add: fds_of_def)

lemma accept_loop_fds:
  "handles_hold fds (fds_of cs) \<Longrightarrow> accept_loop now accepts cs fds = (cs', fds', s) \<Longrightarrow>
     handles_hold fds' (fds_of cs')"
proof (induction now accepts cs fds arbitrary: cs' fds' s rule: accept_loop.induct)
  case (2 now taken nonblock_ok accepts cs fds)
  obtain fd fds1 where n: "handle_new fds = (fd, fds1)" by fastforce
  have h: "handles_hold fds1 (add_mset fd (fds_of cs))" using handle_new_holds [OF n "2.prems"(1)] .
  have f: "handles_hold (handle_free fd fds1) (fds_of cs)" using handle_free_holds [OF h] .
  show ?case using "2.prems"(2) "2.IH" [OF n [symmetric] refl] h f n
    by (auto simp: Let_def split: if_splits prod.splits)
qed simp

lemma accept_loop_bound:
  "accept_loop now accepts cs fds = (cs', fds', s) \<Longrightarrow> length cs \<le> MAX_CONTROL_CONNECTIONS \<Longrightarrow>
     length cs' \<le> MAX_CONTROL_CONNECTIONS"
  by (induction now accepts cs fds arbitrary: cs' fds' s rule: accept_loop.induct)
     (auto simp: Let_def split: if_splits prod.splits)

lemma serve_keeps: "serve handler t c w = (Keep c', w') \<Longrightarrow>
    cn_fd c' = cn_fd c \<and> cn_accepted_ms c' = cn_accepted_ms c \<and> tk_now t - cn_accepted_ms c < CONTROL_IDLE_TIMEOUT_MS"
  by (auto simp: serve_def Let_def split: prod.splits if_splits)

lemma serve_loop_Cons:
  assumes "serve handler t c w = (outcome, w1)" "serve_loop handler t (c # cs) fds w = (cs', fds', s, w')"
  obtains rest s2 where
    "serve_loop handler t cs (case outcome of Keep _ \<Rightarrow> fds | _ \<Rightarrow> handle_free (cn_fd c) fds) w1 = (rest, fds', s2, w')"
    "cs' = (case outcome of Keep c' \<Rightarrow> c' # rest | _ \<Rightarrow> rest)"
    "s = (case outcome of Answer r \<Rightarrow> (cn_fd c, write_loop (tk_writes t (cn_fd c)) r) # s2 | _ \<Rightarrow> s2)"
  using assms by (cases outcome) (simp_all add: Let_def split: prod.splits)

lemma serve_loop_fds:
  "handles_hold fds (fds_of cs + M) \<Longrightarrow> serve_loop handler t cs fds w = (cs', fds', s, w') \<Longrightarrow>
     handles_hold fds' (fds_of cs' + M) \<and> length cs' \<le> length cs
     \<and> (\<forall>c \<in> set cs'. tk_now t - cn_accepted_ms c < CONTROL_IDLE_TIMEOUT_MS)"
proof (induction cs arbitrary: M fds w cs' fds' s w')
  case (Cons c cs)
  obtain outcome w1 where o1: "serve handler t c w = (outcome, w1)" by fastforce
  from serve_loop_Cons [OF o1 Cons.prems(2)] obtain rest s2 where
    r: "serve_loop handler t cs (case outcome of Keep _ \<Rightarrow> fds | _ \<Rightarrow> handle_free (cn_fd c) fds) w1 = (rest, fds', s2, w')"
    and cs': "cs' = (case outcome of Keep c' \<Rightarrow> c' # rest | _ \<Rightarrow> rest)" .
  have free: "handles_hold (handle_free (cn_fd c) fds) (fds_of cs + M)"
    using Cons.prems(1) by (intro handle_free_holds) simp
  show ?case
  proof (cases outcome)
    case (Keep c')
    have "handles_hold fds (fds_of cs + add_mset (cn_fd c) M)" using Cons.prems(1) by simp
    from Cons.IH [OF this r [unfolded Keep, simplified]] show ?thesis
      using serve_keeps [OF o1 [unfolded Keep]] cs' Keep by simp
  next
    case Drop
    from Cons.IH [OF free r [unfolded Drop, simplified]] show ?thesis using cs' Drop by simp
  next
    case (Answer x)
    from Cons.IH [OF free r [unfolded Answer, simplified]] show ?thesis using cs' Answer by simp
  qed
qed simp

definition sock_ok :: "control_socket \<Rightarrow> bool" where
  "sock_ok s \<longleftrightarrow> handles_hold (cs_fds s) (fds_of (cs_connections s))
     \<and> length (cs_connections s) \<le> MAX_CONTROL_CONNECTIONS"

lemma control_poll_ok:
  assumes "sock_ok s" "control_poll handler t s w = (s', sent, w')"
  shows "sock_ok s' \<and> cs_listening s' = cs_listening s
    \<and> (cs_listening s \<longrightarrow> (\<forall>c \<in> set (cs_connections s'). tk_now t - cn_accepted_ms c < CONTROL_IDLE_TIMEOUT_MS))"
proof (cases "cs_listening s")
  case True
  obtain cs fds busy where a: "accept_loop (tk_now t) (tk_accepts t) (cs_connections s) (cs_fds s) = (cs, fds, busy)"
    by (metis prod_cases3)
  obtain sv fds' sn w2 where v: "serve_loop handler t cs fds w = (sv, fds', sn, w2)" by (metis prod_cases4)
  have "handles_hold fds (fds_of cs + {#})" "length cs \<le> MAX_CONTROL_CONNECTIONS"
    using assms(1) accept_loop_fds [OF _ a] accept_loop_bound [OF a] by (simp_all add: sock_ok_def)
  with serve_loop_fds [OF this(1) v] show ?thesis using assms(2) True a v
    by (auto simp: control_poll_def sock_ok_def Let_def)
qed (use assms in \<open>simp add: control_poll_def\<close>)

lemma control_close_ok:
  assumes "sock_ok s"
  shows "h_live (cs_fds (control_close s)) = [] \<and> \<not> h_misuse (cs_fds (control_close s)) \<and> sock_ok (control_close s)"
proof -
  have f: "fold (\<lambda>c. handle_free (cn_fd c)) cs fds = fold handle_free (map cn_fd cs) fds" for cs fds
    by (induction cs arbitrary: fds) simp_all
  have "handles_hold (cs_fds (control_close s)) {#}"
    using handles_free_all [of "cs_fds s" "map cn_fd (cs_connections s)" "{#}"] assms
    by (simp add: control_close_def sock_ok_def fds_of_def f)
  then show ?thesis by (simp add: sock_ok_def control_close_def handles_hold_def)
qed

text \<open>
  C14. The control socket never holds more than eight connections nor one beyond its deadline, and
  every descriptor it was handed is open while it serves that connection and closed exactly once:
  after any number of ticks - bursts, partial requests, peers that stall, hang up or fail - what is
  open is what is being served, and after closing nothing is.
\<close>

theorem control_descriptors_accounted:
  "let polled = fold (\<lambda>t (s, w). case control_poll handler t s w of (s', _, w') \<Rightarrow> (s', w')) ticks
         (new_control_socket\<lparr>cs_listening := True\<rparr>, w);
       s = fst polled
   in length (cs_connections s) \<le> MAX_CONTROL_CONNECTIONS
     \<and> mset (h_live (cs_fds s)) = mset (map cn_fd (cs_connections s)) \<and> distinct (map cn_fd (cs_connections s))
     \<and> list_all (\<lambda>c. case rev ticks of [] \<Rightarrow> False | t # _ \<Rightarrow> tk_now t - cn_accepted_ms c < CONTROL_IDLE_TIMEOUT_MS)
         (cs_connections s)
     \<and> h_live (cs_fds (control_close s)) = [] \<and> \<not> h_misuse (cs_fds (control_close s))"
proof -
  let ?run = "\<lambda>ticks. fold (\<lambda>t (s, w). case control_poll handler t s w of (s', _, w') \<Rightarrow> (s', w')) ticks
         (new_control_socket\<lparr>cs_listening := True\<rparr>, w)"
  have "sock_ok (fst (?run ticks)) \<and> cs_listening (fst (?run ticks))
    \<and> list_all (\<lambda>c. case rev ticks of [] \<Rightarrow> False | t # _ \<Rightarrow> tk_now t - cn_accepted_ms c < CONTROL_IDLE_TIMEOUT_MS)
         (cs_connections (fst (?run ticks)))"
  proof (induction ticks rule: rev_induct)
    case (snoc t ticks)
    obtain s w1 where r: "?run ticks = (s, w1)" by fastforce
    obtain s' sent w2 where p: "control_poll handler t s w1 = (s', sent, w2)" by (metis prod_cases3)
    from control_poll_ok [OF _ p] snoc.IH r p show ?case by (simp add: list_all_iff)
  qed (simp add: sock_ok_def new_control_socket_def)
  then have ok: "sock_ok (fst (?run ticks))" and
    l: "list_all (\<lambda>c. case rev ticks of [] \<Rightarrow> False | t # _ \<Rightarrow> tk_now t - cn_accepted_ms c < CONTROL_IDLE_TIMEOUT_MS)
         (cs_connections (fst (?run ticks)))" by simp_all
  have m: "mset (h_live (cs_fds (fst (?run ticks)))) = mset (map cn_fd (cs_connections (fst (?run ticks))))"
    "distinct (h_live (cs_fds (fst (?run ticks))))"
    using ok by (simp_all add: sock_ok_def handles_hold_def fds_of_def)
  then have "distinct (map cn_fd (cs_connections (fst (?run ticks))))" by (metis mset_eq_imp_distinct_iff)
  then show ?thesis using ok l m control_close_ok [OF ok] unfolding Let_def sock_ok_def by simp
qed

section \<open>One connection, over its ticks\<close>

fun conn_run :: "'w control_handler \<Rightarrow> tick list \<Rightarrow> connection \<Rightarrow> 'w \<Rightarrow> served \<times> 'w" where
  "conn_run handler [] c w = (Keep c, w)"
| "conn_run handler (t # ticks) c w =
     (case serve handler t c w of
        (Keep c', w') \<Rightarrow> conn_run handler ticks c' w'
      | r \<Rightarrow> r)"

text \<open>A tick's reads that deliver data and then wait: what they deliver.\<close>

fun only_data :: "read_answer list \<Rightarrow> bool" where
  "only_data [] = True"
| "only_data (ReadData d # reads) = only_data reads"
| "only_data (ReadInterrupted # reads) = only_data reads"
| "only_data (ReadAgain # reads) = True"
| "only_data (r # reads) = False"

fun data_of :: "read_answer list \<Rightarrow> string list" where
  "data_of (ReadData d # reads) = d # data_of reads"
| "data_of (ReadInterrupted # reads) = data_of reads"
| "data_of reads = []"

lemma read_loop_feeds:
  "only_data reads \<Longrightarrow> read_loop reads a =
     (case feed_chunks (data_of reads) a of (state, a') \<Rightarrow> (state, False, a'))"
  by (induction reads a rule: read_loop.induct) (auto split: prod.split line_state.split)

lemma feed_chunks_append:
  "feed_chunks (xs @ ys) a = (case feed_chunks xs a of (LineIncomplete, a') \<Rightarrow> feed_chunks ys a' | r \<Rightarrow> r)"
  by (simp add: feed_chunks_concat feed_append split: prod.split line_state.split)

definition sent_in :: "nat \<Rightarrow> tick list \<Rightarrow> string list" where
  "sent_in fd ticks = concat (map (\<lambda>t. data_of (tk_reads t fd)) ticks)"

definition in_time :: "nat \<Rightarrow> int \<Rightarrow> tick list \<Rightarrow> bool" where
  "in_time fd accepted ticks \<longleftrightarrow>
     list_all (\<lambda>t. only_data (tk_reads t fd) \<and> tk_now t - accepted < CONTROL_IDLE_TIMEOUT_MS) ticks"

text \<open>What the state of the assembled stream makes of the connection.\<close>

definition answer_of :: "'w control_handler \<Rightarrow> connection \<Rightarrow> line_state \<times> line_assembler \<Rightarrow> 'w \<Rightarrow> served \<times> 'w" where
  "answer_of handler c r w =
     (case fst r of
        LineReady \<Rightarrow> (let (reply, w') = handler (asm_line (snd r)) w in (Answer reply, w'))
      | LineIncomplete \<Rightarrow> (Keep (c\<lparr>cn_assembler := snd r\<rparr>), w)
      | state \<Rightarrow> (Answer (encode_control_reply Usage (line_state_reason state) []), w))"

lemma serve_data:
  assumes "in_time (cn_fd c) (cn_accepted_ms c) [t]"
  shows "serve handler t c w = answer_of handler c (feed_chunks (data_of (tk_reads t (cn_fd c))) (cn_assembler c)) w"
proof -
  obtain state a where f: "feed_chunks (data_of (tk_reads t (cn_fd c))) (cn_assembler c) = (state, a)" by fastforce
  then show ?thesis using assms read_loop_feeds [of "tk_reads t (cn_fd c)" "cn_assembler c"]
    by (cases state) (simp_all add: serve_def answer_of_def in_time_def)
qed

lemma conn_run_data:
  "in_time (cn_fd c) (cn_accepted_ms c) ticks \<Longrightarrow>
     conn_run handler ticks c w = answer_of handler c (feed_chunks (sent_in (cn_fd c) ticks) (cn_assembler c)) w"
proof (induction ticks arbitrary: c w)
  case Nil
  then show ?case by (simp add: sent_in_def answer_of_def)
next
  case (Cons t ticks)
  let ?r = "feed_chunks (data_of (tk_reads t (cn_fd c))) (cn_assembler c)"
  have s: "serve handler t c w = answer_of handler c ?r w"
    using Cons.prems by (intro serve_data) (simp add: in_time_def)
  have e: "feed_chunks (sent_in (cn_fd c) (t # ticks)) (cn_assembler c) =
      (case ?r of (LineIncomplete, a') \<Rightarrow> feed_chunks (sent_in (cn_fd c) ticks) a' | r \<Rightarrow> r)"
    by (simp add: sent_in_def feed_chunks_append split: prod.split line_state.split)
  obtain state a where r: "?r = (state, a)" by fastforce
  show ?case
  proof (cases state)
    case LineIncomplete
    then show ?thesis using Cons.IH [of "c\<lparr>cn_assembler := a\<rparr>" w] Cons.prems r s e
      by (simp add: answer_of_def in_time_def split: line_state.splits prod.splits)
  qed (simp_all add: r s e answer_of_def split: prod.split)
qed

text \<open>
  C27. A connection is answered once, and for exactly the first line it sends, however its bytes fall
  into reads and ticks: until the line is complete nothing runs, then the handler runs once on it,
  or the reply says which bound it broke; whatever follows the line is never looked at.
\<close>

theorem request_is_answered_once:
  assumes "in_time fd accepted ticks"
  shows "case assembled (concat (sent_in fd ticks)) of
      (LineReady, line) \<Rightarrow>
        conn_run handler ticks \<lparr>cn_fd = fd, cn_assembler = new_assembler, cn_accepted_ms = accepted\<rparr> w =
          (let (reply, w') = handler line w in (Answer reply, w'))
    | (LineIncomplete, _) \<Rightarrow>
        (\<exists>c. conn_run handler ticks \<lparr>cn_fd = fd, cn_assembler = new_assembler, cn_accepted_ms = accepted\<rparr> w = (Keep c, w)
          \<and> asm_buffer (cn_assembler c) = concat (sent_in fd ticks))
    | (state, _) \<Rightarrow>
        conn_run handler ticks \<lparr>cn_fd = fd, cn_assembler = new_assembler, cn_accepted_ms = accepted\<rparr> w =
          (Answer (encode_control_reply Usage (line_state_reason state) []), w)"
proof -
  let ?c = "\<lparr>cn_fd = fd, cn_assembler = new_assembler, cn_accepted_ms = accepted\<rparr>"
  let ?s = "concat (sent_in fd ticks)"
  have run: "conn_run handler ticks ?c w = answer_of handler ?c (assembler_feed ?s new_assembler) w"
    using conn_run_data [of ?c ticks handler w] assms by (simp add: feed_chunks_concat)
  have "dropWhile (\<lambda>c. \<not> terminator c) ?s = [] \<Longrightarrow> takeWhile (\<lambda>c. \<not> terminator c) ?s = ?s"
    by (metis append_Nil2 takeWhile_dropWhile_id)
  then show ?thesis unfolding run using feed_spec [of new_assembler ?s]
    by (auto simp: assembled_def Let_def new_assembler_def answer_of_def split: prod.split)
qed

theorem request_is_answered_once_witness:
  "conn_run (\<lambda>line n. (line @ ''!'', Suc n))
     [\<lparr>tk_now = 10, tk_accepts = [], tk_reads = \<lambda>_. [ReadData ''sta'', ReadAgain], tk_writes = \<lambda>_. []\<rparr>,
      \<lparr>tk_now = 20, tk_accepts = [], tk_reads = \<lambda>_. [ReadInterrupted, ReadData (''tus'' @ [NL] @ ''x'')], tk_writes = \<lambda>_. []\<rparr>]
     \<lparr>cn_fd = 4, cn_assembler = new_assembler, cn_accepted_ms = 5\<rparr> 0 = (Answer ''status!'', 1)"
proof -
  let ?ts = "[\<lparr>tk_now = 10, tk_accepts = [], tk_reads = \<lambda>_. [ReadData ''sta'', ReadAgain], tk_writes = \<lambda>_. []\<rparr>,
      \<lparr>tk_now = 20, tk_accepts = [], tk_reads = \<lambda>_. [ReadInterrupted, ReadData (''tus'' @ [NL] @ ''x'')], tk_writes = \<lambda>_. []\<rparr>]"
  have "in_time 4 5 ?ts" by (simp add: in_time_def CONTROL_IDLE_TIMEOUT_MS_def)
  moreover have "concat (sent_in 4 ?ts) = ''status'' @ [NL] @ ''x''" by (simp add: sent_in_def)
  moreover have "assembled (''status'' @ [NL] @ ''x'') = (LineReady, ''status'')" by code_simp
  ultimately show ?thesis using request_is_answered_once [of 4 5 ?ts "\<lambda>line n. (line @ ''!'', Suc n)" 0] by simp
qed

end
