(* ===== verification/ControlClient.thy ===== *)
theory ControlClient
  imports ControlServer
begin

text \<open>
  The subcommand half of the control channel, \<^verbatim>\<open>src/src/control_client.cpp\<close>: connect, send one
  line, read until the daemon closes, print. What the socket calls answer is an input; \<^verbatim>\<open>strerror\<close>'s
  text is carried by the failing answers. The result is the exit status with what went to stdout and
  to stderr.
\<close>

section \<open>Definitions\<close>

definition MAX_REPLY_BYTES :: nat where "MAX_REPLY_BYTES = 64 * 1024"

definition split_first_line :: "string \<Rightarrow> string \<times> string" where
  "split_first_line reply =
     (case find_char NL reply of
        None \<Rightarrow> (reply, [])
      | Some newline \<Rightarrow> (substr reply 0 newline, drop (newline + 1) reply))"

datatype connect_answer = Connected | SocketError string | NoEntry | Refused | NoAccess | ConnectError string

definition connect_to_socket :: "nat \<Rightarrow> string \<Rightarrow> connect_answer \<Rightarrow> string option" where
  "connect_to_socket limit path answer =
     (if \<not> control_socket_path_fits limit path
      then Some (''control socket path '' @ quoted path @ '' does not fit a Unix socket address ('' @
             to_string (limit - 1) @ '' bytes)'')
      else case answer of
        Connected \<Rightarrow> None
      | SocketError e \<Rightarrow> Some (''cannot create a socket: '' @ e)
      | NoEntry \<Rightarrow> Some (''no sendspin-cli is listening on '' @ path @
          ''. Start one, or point this at the right socket with --control-socket -- and note that a '' @
          ''non-default --port moves the default path, so the same --port has to be given here'')
      | Refused \<Rightarrow> Some (path @ '' exists but nothing accepted the connection: either the player it '' @
          ''belonged to is gone and left the file behind, or it already has as many control connections '' @
          ''open as it will take. Try again, and if it keeps failing, restart the player'')
      | NoAccess \<Rightarrow> Some (''not allowed to connect to '' @ path @
          '': the socket is 0600, so only the user running the player can drive it'')
      | ConnectError e \<Rightarrow> Some (''cannot connect to '' @ path @ '': '' @ e))"

datatype send_answer = Sent nat | SendInterrupted | SendError string

text \<open>The error, or none when all of it went out.\<close>

fun write_all :: "send_answer list \<Rightarrow> string \<Rightarrow> string option" where
  "write_all answers [] = None"
| "write_all [] left = Some ''cannot send the request: short write''"
| "write_all (Sent n # answers) left =
     (if n = 0 then Some ''cannot send the request: short write'' else write_all answers (drop n left))"
| "write_all (SendInterrupted # answers) left = write_all answers left"
| "write_all (SendError e # answers) left = Some (''cannot send the request: '' @ e)"

datatype reply_answer = ReplyData string | ReplyEnd | ReplyInterrupted | ReplyError string

text \<open>The reply so far and the error that ended it. The peer closing is the last answer of a list.\<close>

fun read_reply :: "reply_answer list \<Rightarrow> string \<Rightarrow> string \<times> string option" where
  "read_reply [] reply = (reply, None)"
| "read_reply (ReplyData d # answers) reply =
     (if length reply + length d > MAX_REPLY_BYTES
      then (reply, Some (''the reply is longer than '' @ to_string MAX_REPLY_BYTES @
              '' bytes, which is not something a sendspin-cli daemon sends''))
      else read_reply answers (reply @ d))"
| "read_reply (ReplyEnd # answers) reply = (reply, None)"
| "read_reply (ReplyInterrupted # answers) reply = read_reply answers reply"
| "read_reply (ReplyError e # answers) reply = (reply, Some (''cannot read the reply: '' @ e))"

record client_calls =
  cc_limit :: nat
  cc_connect :: connect_answer
  cc_sends :: "send_answer list"
  cc_replies :: "reply_answer list"

record client_result =
  cr_status :: control_status
  cr_stdout :: string
  cr_stderr :: string

definition client_error :: "control_status \<Rightarrow> string \<Rightarrow> client_result" where
  "client_error status reason = \<lparr>cr_status = status, cr_stdout = [], cr_stderr = ''error: '' @ reason @ [NL]\<rparr>"

definition run_control_subcommand :: "client_calls \<Rightarrow> control_request \<Rightarrow> string \<Rightarrow> string \<Rightarrow> client_result" where
  "run_control_subcommand calls request path absent_reason =
     (if path = [] then
        client_error NoDaemon
          (if absent_reason = []
           then ''there is no control socket to talk to: this player was started with '' @
                ''--no-control, or --control-socket was not given''
           else absent_reason)
      else case connect_to_socket (cc_limit calls) path (cc_connect calls) of
        Some reason \<Rightarrow> client_error NoDaemon reason
      | None \<Rightarrow>
          (let sent = write_all (cc_sends calls) (encode_control_request request @ [NL]);
               (reply, received) = read_reply (cc_replies calls) []
           in if sent \<noteq> None \<and> reply = []
              then client_error Failed (case received of Some e \<Rightarrow> e | None \<Rightarrow> the sent)
              else if received \<noteq> None then client_error Failed (the received)
              else if reply = [] then client_error Failed ''the daemon closed the connection without answering''
              else
                (let (first_line, payload) = split_first_line reply in
                 case decode_control_reply first_line of
                   None \<Rightarrow> client_error Failed (path @ '' answered '' @ quoted first_line @
                             '', which is not a sendspin-cli reply'')
                 | Some (status, reason) \<Rightarrow>
                     if status \<noteq> StatusOk then client_error status reason
                     else \<lparr>cr_status = StatusOk, cr_stdout = payload, cr_stderr = []\<rparr>)))"

section \<open>Writing and reading in pieces\<close>

text \<open>What a list of reads delivers when none fails, and whether a list of writes takes all of a text.\<close>

fun reply_of :: "reply_answer list \<Rightarrow> string option" where
  "reply_of [] = Some []"
| "reply_of (ReplyData d # answers) = map_option (\<lambda>r. d @ r) (reply_of answers)"
| "reply_of (ReplyEnd # answers) = Some []"
| "reply_of (ReplyInterrupted # answers) = reply_of answers"
| "reply_of (ReplyError e # answers) = None"

lemma read_reply_data:
  "reply_of answers = Some r \<Longrightarrow> length reply + length r \<le> MAX_REPLY_BYTES \<Longrightarrow>
     read_reply answers reply = (reply @ r, None)"
  by (induction answers arbitrary: reply r rule: reply_of.induct) auto

lemma split_first_line_at:
  "NL \<notin> set line \<Longrightarrow> split_first_line (line @ NL # rest) = (line, rest)"
proof -
  assume "NL \<notin> set line"
  then have "find_char NL (line @ NL # rest) = Some (length line)"
    by (induction line) auto
  then show ?thesis by (simp add: split_first_line_def substr_def)
qed

section \<open>End to end\<close>

text \<open>
  A subcommand gets the daemon's answer. Whatever request the command line parsed to, however its
  line and the reply are cut into reads, ticks and interrupted calls: the daemon's handler runs once,
  on a line that parses to that request, and the client exits with the status the handler gave,
  printing its payload on stdout when that is \<open>ok\<close> and its reason, on one line, on stderr otherwise.
\<close>

lemma subcommand_gets_the_daemons_answer:
  assumes "parse_control_request name args = Inr r"
    and "in_time fd accepted ticks" "concat (sent_in fd ticks) = encode_control_request r @ [NL]"
    and "\<And>line name' args'. split_control_line line = (True, name', args') \<Longrightarrow>
           parse_control_request name' args' = Inr r \<Longrightarrow>
           handler line w = (encode_control_reply status reason payload, w')"
    and "control_socket_path_fits (cc_limit calls) path" "cc_connect calls = Connected"
    and "reply_of (cc_replies calls) = Some reply" "length reply \<le> MAX_REPLY_BYTES"
    and "conn_run handler ticks \<lparr>cn_fd = fd, cn_assembler = new_assembler, cn_accepted_ms = accepted\<rparr> w
           = (Answer reply, w'')"
  shows "w'' = w' \<and> run_control_subcommand calls r path absent =
    (if status = StatusOk then \<lparr>cr_status = StatusOk, cr_stdout = payload, cr_stderr = []\<rparr>
     else client_error (if status = NoDaemon then Failed else status) (one_line reason))"
proof -
  let ?c = "\<lparr>cn_fd = fd, cn_assembler = new_assembler, cn_accepted_ms = accepted\<rparr>"
  obtain a name' args' where f: "feed_chunks (sent_in fd ticks) new_assembler = (LineReady, a)"
    and p: "split_control_line (asm_line a) = (True, name', args')" "parse_control_request name' args' = Inr r"
    using request_crosses_the_socket [OF assms(1)] assms(3) by blast
  have "conn_run handler ticks ?c w = answer_of handler ?c (LineReady, a) w"
    using conn_run_data [of ?c ticks handler w] assms(2) f by simp
  then have reply: "reply = encode_control_reply status reason payload" "w'' = w'"
    using assms(4) [OF p] assms(9) by (simp_all add: answer_of_def)
  obtain line where l: "reply = line @ NL # payload" "NL \<notin> set line" and d: "decode_control_reply line =
      Some (if status = StatusOk then (StatusOk, [])
            else (if status = NoDaemon then Failed else status, one_line reason))"
    using control_reply_roundtrip [of status reason payload] reply by blast
  have "read_reply (cc_replies calls) [] = (reply, None)"
    using read_reply_data [OF assms(7), of "[]"] assms(8) by simp
  moreover have "path \<noteq> []" "connect_to_socket (cc_limit calls) path (cc_connect calls) = None"
    using assms(5,6) by (simp_all add: connect_to_socket_def control_socket_path_fits_def)
  ultimately show ?thesis using l d split_first_line_at [OF l(2), of payload] reply(2)
    by (auto simp: run_control_subcommand_def Let_def)
qed

definition demo_tick :: tick where
  "demo_tick = \<lparr>tk_now = 10, tk_accepts = [], tk_reads = \<lambda>_. [ReadData ''pl'', ReadData (''ay'' @ [NL])],
     tk_writes = \<lambda>_. []\<rparr>"

end
