(* ===== verification/Dispatcher.thy ===== *)
theory Dispatcher
  imports ControlClient Listener CliOptions
begin

text \<open>
  The two request handlers of \<^verbatim>\<open>src/src/main.cpp\<close>, \<^verbatim>\<open>ControlDispatcher\<close> of a player and
  \<^verbatim>\<open>SourceControlDispatcher\<close> of a source-only endpoint, and the metadata cache \<open>status\<close> reads
  (\<^verbatim>\<open>MetadataLogger\<close>). What the client and its roles answer while a request runs is the record
  \<open>client_view\<close>; what a request does to them is a list of effects. Log lines are left out.
\<close>

section \<open>What the handlers read\<close>

text \<open>The metadata object: title and artist when given, and its progress object's speed when it has one.\<close>

record track_metadata =
  md_artist :: "string option"
  md_title :: "string option"
  md_progress_speed :: "u32 option"

text \<open>\<^verbatim>\<open>MetadataLogger\<close>: the last object the server sent, until it clears.\<close>

definition on_metadata :: "track_metadata \<Rightarrow> track_metadata option \<Rightarrow> track_metadata option" where
  "on_metadata metadata state = Some metadata"

definition on_metadata_clear :: "track_metadata option \<Rightarrow> track_metadata option" where
  "on_metadata_clear state = None"

record controller_state =
  ct_supported :: "controller_command list"
  ct_seek_max_ms :: "u32 option"
  ct_volume :: u8
  ct_muted :: bool
  ct_repeat :: repeat_mode
  ct_shuffle :: bool

record client_view =
  cv_connected :: bool
  cv_server :: "(string \<times> string) option"
  cv_metadata :: "track_metadata option"
  cv_progress_ms :: u32
  cv_duration_ms :: u32
  cv_controller :: controller_state
  cv_static_delay_ms :: u16
  cv_sink_name :: string

datatype control_effect = SendCommand client_command | UpdateStaticDelay u16

section \<open>The player's handler\<close>

definition controller_snapshot_of :: "client_view \<Rightarrow> controller_snapshot" where
  "controller_snapshot_of v =
     \<lparr>snap_connected = cv_connected v, supported_commands = ct_supported (cv_controller v),
      seek_max_ms = ct_seek_max_ms (cv_controller v)\<rparr>"

definition empty_status :: status_snapshot where
  "empty_status =
     \<lparr>st_name = [], st_connected = False, st_server_name = [], st_server_id = [], st_playback_speed = None,
      st_streaming = False, st_format = None, st_artist = [], st_title = [], st_progress_ms = None,
      st_duration_ms = None, st_group_state_known = False, st_group_volume = 0, st_group_muted = False,
      st_group_repeat = RepeatOff, st_group_shuffle = False, st_player_volume = DEFAULT_SINK_VOLUME, st_player_muted = False,
      st_player_volume_source = SinkDefault, st_static_delay_ms = 0, st_output = []\<rparr>"

definition value_or_empty :: "string option \<Rightarrow> string" where
  "value_or_empty s = (case s of None \<Rightarrow> [] | Some t \<Rightarrow> t)"

definition player_status :: "options \<Rightarrow> client_view \<Rightarrow> player_listener \<Rightarrow> status_snapshot" where
  "player_status opts v l =
     (let s1 = empty_status\<lparr>st_name := op_name opts, st_connected := cv_connected v\<rparr>;
          s2 = (case cv_server v of None \<Rightarrow> s1
                | Some (sid, sname) \<Rightarrow> s1\<lparr>st_server_id := sid, st_server_name := sname\<rparr>);
          s3 = (case cv_metadata v of None \<Rightarrow> s2
                | Some md \<Rightarrow>
                    (let s = s2\<lparr>st_artist := value_or_empty (md_artist md), st_title := value_or_empty (md_title md)\<rparr>
                     in case md_progress_speed md of None \<Rightarrow> s
                        | Some speed \<Rightarrow> s\<lparr>st_playback_speed := Some speed, st_progress_ms := Some (cv_progress_ms v),
                                          st_duration_ms := Some (cv_duration_ms v)\<rparr>));
          ct = cv_controller v
      in s3\<lparr>st_streaming := pl_streaming l, st_format := pl_stream_format l,
            st_group_state_known := (st_connected s3 \<and> ct_supported ct \<noteq> []),
            st_group_volume := ct_volume ct, st_group_muted := ct_muted ct,
            st_group_repeat := ct_repeat ct, st_group_shuffle := ct_shuffle ct,
            st_player_volume := pl_applied_volume l, st_player_muted := pl_applied_muted l,
            st_player_volume_source := pl_volume_source l, st_static_delay_ms := cv_static_delay_ms v,
            st_output := cv_sink_name v\<rparr>)"

definition player_dispatch :: "options \<Rightarrow> client_view \<Rightarrow> player_listener \<Rightarrow> control_effect list control_handler" where
  "player_dispatch opts v l line effects =
     (case split_control_line line of
        (False, _, _) \<Rightarrow> (encode_control_reply Usage ''empty request'' [], effects)
      | (True, name, args) \<Rightarrow>
          (case parse_control_request name args of
             Inl e \<Rightarrow> (encode_control_reply Usage e [], effects)
           | Inr request \<Rightarrow>
               (case control_refusal request (controller_snapshot_of v) of
                  Some (refusal, reason) \<Rightarrow> (encode_control_reply refusal reason [], effects)
                | None \<Rightarrow>
                    if rq_command request = CmdStatus
                    then (encode_control_reply StatusOk [] (format_status (player_status opts v l)), effects)
                    else if rq_command request = CmdDelay
                    then (encode_control_reply StatusOk [] [],
                          effects @ [UpdateStaticDelay (case rq_delay_ms request of None \<Rightarrow> 0 | Some d \<Rightarrow> d)])
                    else (encode_control_reply StatusOk [] [],
                          effects @ [SendCommand (to_client_command request)]))))"

section \<open>The source-only handler\<close>

definition source_status :: "options \<Rightarrow> client_view \<Rightarrow> status_snapshot" where
  "source_status opts v =
     (let s1 = empty_status\<lparr>st_name := op_name opts, st_connected := cv_connected v\<rparr>;
          s2 = (case cv_server v of None \<Rightarrow> s1
                | Some (sid, sname) \<Rightarrow> s1\<lparr>st_server_id := sid, st_server_name := sname\<rparr>)
      in s2\<lparr>st_output := ''source-only''\<rparr>)"

definition source_dispatch :: "options \<Rightarrow> client_view \<Rightarrow> control_effect list control_handler" where
  "source_dispatch opts v line effects =
     (case split_control_line line of
        (False, _, _) \<Rightarrow> (encode_control_reply Usage ''empty request'' [], effects)
      | (True, name, args) \<Rightarrow>
          (case parse_control_request name args of
             Inl e \<Rightarrow> (encode_control_reply Usage e [], effects)
           | Inr request \<Rightarrow>
               if rq_command request \<noteq> CmdStatus
               then (encode_control_reply Unsupported
                       ''this endpoint is running source-only; player control commands are unavailable'' [], effects)
               else (encode_control_reply StatusOk [] (format_status (source_status opts v)), effects)))"

section \<open>What a request may do\<close>

text \<open>What one request may do to the player: a command this connection offers, inside its bounds.\<close>

definition permitted :: "client_view \<Rightarrow> control_effect \<Rightarrow> bool" where
  "permitted v e =
     (case e of
        UpdateStaticDelay d \<Rightarrow> unat d \<le> MAX_STATIC_DELAY_MS
      | SendCommand c \<Rightarrow>
          cv_connected v \<and> cc_command c \<in> set (ct_supported (cv_controller v))
          \<and> (case cc_volume c of None \<Rightarrow> cc_command c \<noteq> VOLUME | Some p \<Rightarrow> unat p \<le> 100)
          \<and> (if cc_command c = SEEK then
               (case cc_position_ms c of None \<Rightarrow> False | Some p \<Rightarrow>
                  (case ct_seek_max_ms (cv_controller v) of None \<Rightarrow> True | Some m \<Rightarrow> p \<le> m))
             else True))"

lemma sent_is_permitted:
  assumes "request_ok r" "control_refusal r (controller_snapshot_of v) = None"
    and "rq_command r \<noteq> CmdStatus" "rq_command r \<noteq> CmdDelay"
  shows "permitted v (SendCommand (to_client_command r))"
proof -
  obtain c where c: "protocol_command r = Some c"
    using assms(3,4) by (cases "rq_command r"; cases "case rq_repeat r of None \<Rightarrow> RepeatOff | Some m \<Rightarrow> m")
      (auto simp: protocol_command_def)
  have s: "cv_connected v" "c \<in> set (ct_supported (cv_controller v))"
    using assms(2) c by (auto simp: control_refusal_def controller_snapshot_of_def split: if_splits)
  have m: "rq_command r = CmdSeek \<Longrightarrow> case ct_seek_max_ms (cv_controller v) of None \<Rightarrow> True | Some m \<Rightarrow> position_or_0 r \<le> m"
    using assms(2) c s by (auto simp: control_refusal_def controller_snapshot_of_def split: option.splits if_splits)
  have vol: "case rq_volume r of None \<Rightarrow> rq_command r \<noteq> CmdVolume | Some p \<Rightarrow> unat p \<le> 100"
    using assms(1) by (cases r) (auto simp: request_ok_def request_for_def Let_def split: option.splits control_command.splits)
  have pos: "rq_command r = CmdSeek \<Longrightarrow> rq_position_ms r = Some (position_or_0 r)"
    using assms(1) by (auto simp: request_ok_def position_or_0_def split: option.splits)
  have k: "c = VOLUME \<longleftrightarrow> rq_command r = CmdVolume" "c = SEEK \<longleftrightarrow> rq_command r = CmdSeek"
    using c by (cases "rq_command r"; auto simp: protocol_command_def split: repeat_mode.splits if_splits)+
  show ?thesis using s m vol pos c k
    by (auto simp: permitted_def to_client_command_def split: option.splits)
qed

text \<open>What a request the daemon accepts does.\<close>

definition request_effects :: "control_request \<Rightarrow> control_effect list" where
  "request_effects r =
     (if rq_command r = CmdStatus then []
      else if rq_command r = CmdDelay then [UpdateStaticDelay (case rq_delay_ms r of None \<Rightarrow> 0 | Some d \<Rightarrow> d)]
      else [SendCommand (to_client_command r)])"

text \<open>The request a line is, if it is one, and whether a reply's first line is the \<open>ok\<close>.\<close>

definition asked :: "string \<Rightarrow> control_request option" where
  "asked line =
     (case split_control_line line of (is_line, name, args) \<Rightarrow>
        if \<not> is_line then None
        else case parse_control_request name args of Inl _ \<Rightarrow> None | Inr r \<Rightarrow> Some r)"

definition says_ok :: "string \<Rightarrow> bool" where
  "says_ok reply \<longleftrightarrow> takeWhile (\<lambda>c. c \<noteq> NL) reply = ''ok''"

lemma says_ok_reply [simp]: "says_ok (encode_control_reply status reason payload) \<longleftrightarrow> status = StatusOk"
proof (cases "status = StatusOk")
  case False
  then obtain t where "encode_control_reply status reason payload = CHR ''e'' # t"
    by (cases "find (\<lambda>kind. fst kind = status) REPLY_KINDS") (simp_all add: encode_control_reply_def)
  then show ?thesis using False by (simp add: says_ok_def)
qed (simp add: says_ok_def encode_control_reply_def)

text \<open>
  C26. A peer on the control socket can do no more than the protocol allows, whatever bytes it sends: a
  request has at most one effect; a command reaches the server only while connected and only if that
  server offers it, with a volume of at most 100 and a seek inside what it says is seekable; a static
  delay stays within five seconds. The answer tells what was done: a line that is no request is not
  answered \<open>ok\<close> and does nothing; a request is answered \<open>ok\<close> exactly when the state does not refuse it, and
  then its effect has been carried out - the one command or delay change it names, none for \<open>status\<close> -
  and otherwise nothing has. A source-only endpoint has no effect at all and says \<open>ok\<close> to \<open>status\<close> alone.
\<close>

theorem control_peer_is_confined:
  "(let (reply, after) = player_dispatch opts v l line before; done = drop (length before) after in
      after = before @ done \<and> length done \<le> 1 \<and> list_all (permitted v) done
      \<and> (case asked line of
           None \<Rightarrow> \<not> says_ok reply \<and> done = []
         | Some r \<Rightarrow>
             (says_ok reply \<longleftrightarrow> control_refusal r (controller_snapshot_of v) = None)
             \<and> done = (if says_ok reply then request_effects r else [])))
   \<and> (let (reply, after) = source_dispatch opts v line before in
      after = before \<and> (says_ok reply \<longleftrightarrow> map_option rq_command (asked line) = Some CmdStatus))"
proof -
  obtain ok name args where sp: "split_control_line line = (ok, name, args)" by (metis prod_cases3)
  have src: "let (reply, after) = source_dispatch opts v line before in
      after = before \<and> (says_ok reply \<longleftrightarrow> map_option rq_command (asked line) = Some CmdStatus)"
    by (auto simp: source_dispatch_def asked_def sp split: bool.split sum.split)
  show ?thesis
  proof (cases "parse_control_request name args")
    case (Inl e)
    then show ?thesis using src by (simp add: player_dispatch_def asked_def sp split: bool.split)
  next
    case (Inr r)
    have rk: "request_ok r" using parse_request_ok [OF Inr] by simp
    have d: "rq_command r = CmdDelay \<Longrightarrow> permitted v (UpdateStaticDelay (case rq_delay_ms r of None \<Rightarrow> 0 | Some d \<Rightarrow> d))"
      using rk by (auto simp: request_ok_def permitted_def split: option.splits)
    show ?thesis
    proof (cases "control_refusal r (controller_snapshot_of v)")
      case None
      then show ?thesis using src Inr d sent_is_permitted [OF rk None]
        by (simp add: player_dispatch_def asked_def request_effects_def sp split: bool.split)
    next
      case (Some x)
      then obtain status reason where x: "x = (status, reason)" by fastforce
      have "status \<noteq> StatusOk"
        using Some x by (auto simp: control_refusal_def split: option.splits if_splits)
      then show ?thesis using src Inr Some x by (simp add: player_dispatch_def asked_def sp split: bool.split)
    qed
  qed
qed

section \<open>From the shell to the server\<close>

text \<open>
  C4. A subcommand typed at a shell reaches the player it is for, whole. Whatever request the command
  line parsed to, however its line and the reply are cut into reads and ticks: the daemon does exactly
  what the request names, once, and the client exits 0 printing what \<open>status\<close> asked for; or the
  daemon refuses it for the reason its state gives, does nothing, and the client exits with that
  status and that reason.
\<close>

theorem subcommand_reaches_the_player:
  assumes "parse_control_request name args = Inr r"
    and "in_time fd accepted ticks" "concat (sent_in fd ticks) = encode_control_request r @ [NL]"
    and "control_socket_path_fits (cc_limit calls) path" "cc_connect calls = Connected"
    and "reply_of (cc_replies calls) = Some reply" "length reply \<le> MAX_REPLY_BYTES"
    and "conn_run (player_dispatch opts v l) ticks
           \<lparr>cn_fd = fd, cn_assembler = new_assembler, cn_accepted_ms = accepted\<rparr> before = (Answer reply, after)"
  shows "case control_refusal r (controller_snapshot_of v) of
      None \<Rightarrow> after = before @ request_effects r
        \<and> run_control_subcommand calls r path absent =
            \<lparr>cr_status = StatusOk,
             cr_stdout = (if rq_command r = CmdStatus then format_status (player_status opts v l) else []),
             cr_stderr = []\<rparr>
    | Some (status, reason) \<Rightarrow> after = before
        \<and> run_control_subcommand calls r path absent = client_error status (one_line reason)"
proof -
  note e2e = subcommand_gets_the_daemons_answer [OF assms(1-3) _ assms(4-8), where absent = absent]
  show ?thesis
  proof (cases "control_refusal r (controller_snapshot_of v)")
    case None
    have "player_dispatch opts v l line before = (encode_control_reply StatusOk []
        (if rq_command r = CmdStatus then format_status (player_status opts v l) else []), before @ request_effects r)"
      if "split_control_line line = (True, name', args')" "parse_control_request name' args' = Inr r" for line name' args'
      using that None by (simp add: player_dispatch_def request_effects_def)
    from e2e [OF this] None show ?thesis by simp
  next
    case (Some x)
    obtain status reason where x: "x = (status, reason)" by fastforce
    have "player_dispatch opts v l line before = (encode_control_reply status reason [], before)"
      if "split_control_line line = (True, name', args')" "parse_control_request name' args' = Inr r" for line name' args'
      using that Some x by (simp add: player_dispatch_def)
    from e2e [OF this] have "after = before \<and> run_control_subcommand calls r path absent =
        (if status = StatusOk then \<lparr>cr_status = StatusOk, cr_stdout = [], cr_stderr = []\<rparr>
         else client_error (if status = NoDaemon then Failed else status) (one_line reason))" by simp
    moreover have "status \<noteq> StatusOk \<and> status \<noteq> NoDaemon"
      using Some x by (auto simp: control_refusal_def split: option.splits if_splits)
    ultimately show ?thesis using Some x by simp
  qed
qed

definition demo_view :: client_view where
  "demo_view = \<lparr>cv_connected = True, cv_server = Some (''s1'', ''Hall''), cv_metadata = None, cv_progress_ms = 0,
     cv_duration_ms = 0,
     cv_controller = \<lparr>ct_supported = [PLAY, VOLUME], ct_seek_max_ms = None, ct_volume = 40, ct_muted = False,
       ct_repeat = RepeatOff, ct_shuffle = False\<rparr>,
     cv_static_delay_ms = 0, cv_sink_name = ''null''\<rparr>"

theorem subcommand_reaches_the_player_witness:
  "let calls = \<lparr>cc_limit = 108, cc_connect = Connected, cc_sends = [Sent 3, SendInterrupted, Sent 2],
         cc_replies = [ReplyData ''o'', ReplyData (''k'' @ [NL]), ReplyEnd]\<rparr>;
       (outcome, effects) = conn_run (player_dispatch (default_options (plain_host Map.empty [])) demo_view new_player_listener)
         [demo_tick] \<lparr>cn_fd = 4, cn_assembler = new_assembler, cn_accepted_ms = 5\<rparr> []
   in effects = [SendCommand (to_client_command (request_for CmdPlay))]
     \<and> run_control_subcommand calls (request_for CmdPlay) ''/run/s.sock'' [] =
         \<lparr>cr_status = StatusOk, cr_stdout = [], cr_stderr = []\<rparr>"
proof -
  let ?calls = "\<lparr>cc_limit = 108, cc_connect = Connected, cc_sends = [Sent 3, SendInterrupted, Sent 2],
         cc_replies = [ReplyData ''o'', ReplyData (''k'' @ [NL]), ReplyEnd]\<rparr>"
  let ?h = "player_dispatch (default_options (plain_host Map.empty [])) demo_view new_player_listener"
  let ?c = "\<lparr>cn_fd = 4, cn_assembler = new_assembler, cn_accepted_ms = 5\<rparr>"
  have p: "parse_control_request ''play'' [] = Inr (request_for CmdPlay)"
    by (simp add: parse_control_request_def find_control_subcommand_def control_subcommands_def Let_def)
  have e: "encode_control_request (request_for CmdPlay) = ''play''"
    by (simp add: encode_control_request_def request_for_def command_name_def control_subcommands_def Let_def)
  have t: "in_time 4 5 [demo_tick]" "concat (sent_in 4 [demo_tick]) = encode_control_request (request_for CmdPlay) @ [NL]"
    by (simp_all add: in_time_def demo_tick_def CONTROL_IDLE_TIMEOUT_MS_def sent_in_def e)
  have s: "split_control_line ''play'' = (True, ''play'', [])" by code_simp
  have n: "control_refusal (request_for CmdPlay) (controller_snapshot_of demo_view) = None"
    by (simp add: control_refusal_def protocol_command_def request_for_def controller_snapshot_of_def demo_view_def)
  have h: "?h ''play'' [] = (''ok'' @ [NL], [SendCommand (to_client_command (request_for CmdPlay))])"
    by (simp add: player_dispatch_def s p n encode_control_reply_def) (simp add: request_for_def)
  have "assembled (''play'' @ [NL]) = (LineReady, ''play'')" by code_simp
  moreover have "feed_chunks [''pl'', ''ay'' @ [NL]] new_assembler = assembler_feed (''play'' @ [NL]) new_assembler"
    by (simp only: feed_chunks_concat) simp
  ultimately have c: "conn_run ?h [demo_tick] ?c [] =
      (Answer (''ok'' @ [NL]), [SendCommand (to_client_command (request_for CmdPlay))])"
    using conn_run_data [of ?c "[demo_tick]" ?h "[]"] t(1) h
    by (simp add: sent_in_def demo_tick_def answer_of_def new_assembler_def MAX_CONTROL_LINE_BYTES_def strip_cr_def)
  have r: "reply_of (cc_replies ?calls) = Some (''ok'' @ [NL])" "length (''ok'' @ [NL]) \<le> MAX_REPLY_BYTES"
    "control_socket_path_fits (cc_limit ?calls) ''/run/s.sock''" "cc_connect ?calls = Connected"
    by (simp_all add: MAX_REPLY_BYTES_def control_socket_path_fits_def)
  from subcommand_reaches_the_player [OF p t r(3,4,1,2) c, of "[]"] n c show ?thesis
    by (simp add: Let_def) (simp add: request_for_def)
qed

end
