(* ===== verification/OutboundMode.thy ===== *)
theory OutboundMode
  imports Outbound MdnsCommon StateStore CliOptions
begin

text \<open>
  \<^verbatim>\<open>OutboundMode\<close> of \<^verbatim>\<open>src/src/main.cpp\<close>: with \<^verbatim>\<open>-s\<close>, choose a server, dial it, keep dialling, and
  remember whose handshake completed. The client's connection state, the server's information and
  the servers discovery offers at a tick are inputs. What it does - dials, and connections it saw
  lost - is a trace. Log lines are left out.
\<close>

section \<open>Definitions\<close>

record outbound_mode =
  om_remembered :: string
  om_last_dial :: last_dial
  om_remembered_this_connection :: bool
  om_pacer :: retry_pacer

definition new_outbound_mode :: "state_store \<Rightarrow> outbound_mode" where
  "new_outbound_mode store =
     \<lparr>om_remembered = last_server store, om_last_dial = fresh_dial, om_remembered_this_connection = False,
      om_pacer = fresh_pacer\<rparr>"

datatype outbound_event = ConnectionLost int | Dialled int string string

record outbound_state =
  os_mode :: outbound_mode
  os_store :: state_store
  os_files :: file_system
  os_trace :: "outbound_event list"

text \<open>One tick: the clock, the client, what it knows of the server, what is offered, and the disk.\<close>

record outbound_tick =
  ot_now :: int
  ot_connected :: bool
  ot_server_id :: "string option"
  ot_servers :: "discovered_server list"
  ot_sys :: syscalls

definition choose_server :: "inet_pton \<Rightarrow> options \<Rightarrow> discovered_server list \<Rightarrow> outbound_mode \<Rightarrow> (string \<times> string) option" where
  "choose_server inet opts servers om =
     (case select_server servers (op_discover_name opts) (om_remembered om) of
        None \<Rightarrow> None
      | Some (chosen, _) \<Rightarrow>
          (case discovered_server_url inet chosen of
             Inl _ \<Rightarrow> None
           | Inr url \<Rightarrow> Some (url, sv_instance chosen)))"

definition remember :: "syscalls \<Rightarrow> string option \<Rightarrow> outbound_state \<Rightarrow> outbound_state" where
  "remember sys server_id s =
     (let om = os_mode s in
      if om_remembered_this_connection om then s
      else case server_id of
        None \<Rightarrow> s
      | Some sid \<Rightarrow>
          if sid = [] \<or> sid = om_remembered om then s
          else
            (let s1 = s\<lparr>os_mode := om\<lparr>om_remembered_this_connection := True, om_remembered := sid\<rparr>\<rparr> in
             if store_path (os_store s1) = [] then s1
             else (let (_, store, trace) = set_last_server sys sid (os_store s1) (os_files s1)
                   in s1\<lparr>os_store := store, os_files := last trace\<rparr>)))"

definition outbound_tick_lost :: "outbound_tick \<Rightarrow> outbound_state \<Rightarrow> outbound_state" where
  "outbound_tick_lost t s =
     (let om = os_mode s;
          (lost, pacer) = note_connection_state (ot_connected t) (ot_now t) (om_pacer om);
          om1 = om\<lparr>om_pacer := pacer\<rparr>
      in if lost
         then s\<lparr>os_mode := om1\<lparr>om_remembered_this_connection := False, om_last_dial := last_dial_lost (om_last_dial om1)\<rparr>,
                os_trace := os_trace s @ [ConnectionLost (ot_now t)]\<rparr>
         else s\<lparr>os_mode := om1\<rparr>)"

definition outbound_dial :: "int \<Rightarrow> string \<times> string \<Rightarrow> outbound_state \<Rightarrow> outbound_state" where
  "outbound_dial now target s =
     (let (url, server_id) = target; om = os_mode s in
      s\<lparr>os_mode := om\<lparr>om_pacer := note_dial now (om_pacer om),
                       om_last_dial := last_dial_note url server_id (om_last_dial om)\<rparr>,
        os_trace := os_trace s @ [Dialled now url server_id]\<rparr>)"

definition outbound_step :: "inet_pton \<Rightarrow> options \<Rightarrow> outbound_tick \<Rightarrow> outbound_state \<Rightarrow> outbound_state" where
  "outbound_step inet opts t s0 =
     (let s = outbound_tick_lost t s0 in
      if ot_connected t then remember (ot_sys t) (ot_server_id t) s
      else if \<not> should_dial (ot_now t) (om_pacer (os_mode s)) then s
      else if op_discover opts
      then (case choose_server inet opts (ot_servers t) (os_mode s) of
              None \<Rightarrow> s
            | Some target \<Rightarrow> outbound_dial (ot_now t) target s)
      else outbound_dial (ot_now t) (op_server_url opts, []) s)"

definition outbound_run :: "inet_pton \<Rightarrow> options \<Rightarrow> outbound_tick list \<Rightarrow> state_store \<Rightarrow> file_system \<Rightarrow> outbound_state" where
  "outbound_run inet opts ticks store files =
     fold (outbound_step inet opts) ticks
       \<lparr>os_mode = new_outbound_mode store, os_store = store, os_files = files, os_trace = []\<rparr>"

text \<open>The URL exported to a hook for a stream from \<open>who\<close>.\<close>

definition outbound_url_for :: "string \<Rightarrow> outbound_state \<Rightarrow> string" where
  "outbound_url_for who s = url_for who (om_last_dial (os_mode s))"

section \<open>Dials\<close>

definition dial_times :: "outbound_event list \<Rightarrow> int list" where
  "dial_times tr = concat (map (\<lambda>e. case e of Dialled t _ _ \<Rightarrow> [t] | ConnectionLost _ \<Rightarrow> []) tr)"

lemma dial_times_simps [simp]:
  "dial_times [] = []" "dial_times (tr @ tr') = dial_times tr @ dial_times tr'"
  "dial_times [Dialled t u i] = [t]" "dial_times [ConnectionLost t] = []"
  by (simp_all add: dial_times_def)

text \<open>The last thing seen decides what may be said of the connection that is up.\<close>

definition exported_url :: "string \<Rightarrow> outbound_event list \<Rightarrow> string" where
  "exported_url who tr = (case rev tr of
     Dialled _ url server_id # _ \<Rightarrow> if server_id = [] \<or> server_id = who then url else []
   | _ \<Rightarrow> [])"

definition outbound_ok :: "int \<Rightarrow> outbound_state \<Rightarrow> bool" where
  "outbound_ok c s \<longleftrightarrow> pacer_ok c (om_pacer (os_mode s), dial_times (os_trace s))
     \<and> (\<forall>who. outbound_url_for who s = exported_url who (os_trace s))"

lemma remember_keeps:
  "om_pacer (os_mode (remember sys sid s)) = om_pacer (os_mode s)"
  "om_last_dial (os_mode (remember sys sid s)) = om_last_dial (os_mode s)"
  "os_trace (remember sys sid s) = os_trace s"
  by (simp_all add: remember_def Let_def split: option.split prod.split)

lemma lost_ok:
  assumes "outbound_ok c s" "c \<le> ot_now t"
  shows "outbound_ok (ot_now t) (outbound_tick_lost t s)
    \<and> retry_pacer.connected (om_pacer (os_mode (outbound_tick_lost t s))) = ot_connected t"
  using assms url_for_is_honest
  by (auto simp: outbound_ok_def pacer_ok_def outbound_tick_lost_def note_connection_state_def Let_def
    outbound_url_for_def exported_url_def)

lemma dial_ok:
  assumes "outbound_ok now s" "should_dial now (om_pacer (os_mode s))" "\<not> retry_pacer.connected (om_pacer (os_mode s))"
  shows "outbound_ok now (outbound_dial now target s)"
proof -
  let ?w = "(om_pacer (os_mode s), dial_times (os_trace s))"
  have "snd (note_connection_state False now (om_pacer (os_mode s))) = om_pacer (os_mode s)"
    using assms(3) by (simp add: note_connection_state_def Let_def)
  then have "pacer_ok now (note_dial now (om_pacer (os_mode s)), dial_times (os_trace s) @ [now])"
    using pacer_ok_tick [of now ?w now False] assms by (simp add: outbound_ok_def pacer_tick_def)
  then show ?thesis using url_for_is_honest
    by (simp add: outbound_ok_def outbound_dial_def Let_def outbound_url_for_def exported_url_def split: prod.split)
qed

lemma step_ok: "outbound_ok c s \<Longrightarrow> c \<le> ot_now t \<Longrightarrow> outbound_ok (ot_now t) (outbound_step inet opts t s)"
proof -
  assume "outbound_ok c s" "c \<le> ot_now t"
  note l = lost_ok [OF this]
  then show ?thesis using dial_ok [of "ot_now t" "outbound_tick_lost t s"]
    by (auto simp: outbound_step_def Let_def outbound_ok_def [of _ "remember _ _ _"] remember_keeps
      outbound_url_for_def outbound_ok_def [of _ "outbound_tick_lost t s"] split: option.split)
qed

lemma run_ok:
  "outbound_ok c s \<Longrightarrow> sorted (c # map ot_now ticks) \<Longrightarrow> \<exists>c'. outbound_ok c' (fold (outbound_step inet opts) ticks s)"
proof (induction ticks arbitrary: c s)
  case (Cons t ticks)
  then have "outbound_ok (ot_now t) (outbound_step inet opts t s)" using step_ok by simp
  then show ?case using Cons by simp
qed auto

text \<open>Where a dialled URL came from: the tick it was dialled in.\<close>

definition dial_source :: "inet_pton \<Rightarrow> options \<Rightarrow> outbound_tick \<Rightarrow> outbound_event \<Rightarrow> bool" where
  "dial_source inet opts t e =
     (case e of ConnectionLost now \<Rightarrow> now = ot_now t
      | Dialled now url server_id \<Rightarrow>
          now = ot_now t \<and> \<not> ot_connected t
          \<and> (if op_discover opts
             then \<exists>s \<in> set (ot_servers t). sv_instance s = server_id
                    \<and> (op_discover_name opts = [] \<or> sv_name s = op_discover_name opts)
                    \<and> discovered_server_url inet s = Inr url
             else url = op_server_url opts \<and> server_id = []))"

lemma select_server_in:
  assumes "select_server servers f r = Some (s, reason)"
  shows "s \<in> set servers \<and> (f = [] \<or> sv_name s = f)"
proof -
  define ms where "ms = filter (\<lambda>s. f = [] \<or> sv_name s = f) servers"
  have "Some s = (case find (\<lambda>s. r \<noteq> [] \<and> sv_instance s = r) ms of Some s \<Rightarrow> Some s
      | None \<Rightarrow> (case ms of [] \<Rightarrow> None | s # _ \<Rightarrow> Some s))"
    using assms select_server_spec [of servers f r, unfolded Let_def, folded ms_def] by simp
  then have "s \<in> set ms" by (auto simp: find_Some_iff split: option.splits list.splits)
  then show ?thesis by (simp add: ms_def)
qed

lemma step_trace:
  "\<exists>es. os_trace (outbound_step inet opts t s) = os_trace s @ es \<and> list_all (dial_source inet opts t) es"
proof -
  have l: "\<exists>es. os_trace (outbound_tick_lost t s) = os_trace s @ es \<and> list_all (dial_source inet opts t) es"
    by (auto simp: outbound_tick_lost_def Let_def dial_source_def split: prod.split)
  have d: "os_trace (outbound_dial (ot_now t) (u, i) q) = os_trace q @ [Dialled (ot_now t) u i]" for u i q
    by (simp add: outbound_dial_def Let_def)
  have c: "dial_source inet opts t (Dialled (ot_now t) u i)"
    if "choose_server inet opts (ot_servers t) om = Some (u, i)" "op_discover opts" "\<not> ot_connected t" for u i om
    using that select_server_in
    by (fastforce simp: choose_server_def dial_source_def split: option.splits prod.splits sum.splits)
  show ?thesis using l d c [of "os_mode (outbound_tick_lost t s)"]
    by (auto simp: outbound_step_def Let_def remember_keeps dial_source_def [of _ _ _ "Dialled _ _ []"] split: option.split)
qed

lemma run_trace:
  "list_all (\<lambda>e. list_ex (\<lambda>t. dial_source inet opts t e) ticks) (os_trace (outbound_run inet opts ticks store files))"
proof (induction ticks rule: rev_induct)
  case (snoc t ticks)
  obtain es where "os_trace (outbound_run inet opts (ticks @ [t]) store files) = os_trace (outbound_run inet opts ticks store files) @ es"
      "list_all (dial_source inet opts t) es"
    using step_trace [of inet opts t "outbound_run inet opts ticks store files"] by (auto simp: outbound_run_def)
  then show ?case using snoc by (auto simp: list_all_iff)
qed (simp add: outbound_run_def)

text \<open>
  C13. What the player dials. On a monotonic clock, whatever the connection and the network do: two
  dials are at least a second apart, none is made over a connection that is up, and each is to the
  address \<open>-s\<close> gave or to the URL of a server that discovery offers at that tick under the name asked
  for. The URL a hook is told is that of the last dial, unless that connection was lost since or the
  stream comes from another server than the one dialled.
\<close>

theorem outbound_dials:
  assumes "sorted (map ot_now ticks)"
  shows "let s = outbound_run inet opts ticks store files; tr = os_trace s in
    spaced 1000 (dial_times tr)
    \<and> list_all (\<lambda>e. list_ex (\<lambda>t. dial_source inet opts t e) ticks) tr
    \<and> outbound_url_for who s = exported_url who tr"
proof (cases ticks)
  case Nil
  then show ?thesis
    by (simp add: outbound_run_def outbound_url_for_def exported_url_def new_outbound_mode_def url_for_is_honest)
next
  case (Cons t ts)
  have "outbound_ok (ot_now t) \<lparr>os_mode = new_outbound_mode store, os_store = store, os_files = files, os_trace = []\<rparr>"
    by (simp add: outbound_ok_def pacer_ok_def new_outbound_mode_def fresh_pacer_def outbound_url_for_def
      exported_url_def url_for_is_honest)
  from run_ok [OF this, of ticks inet opts] obtain c' where "outbound_ok c' (outbound_run inet opts ticks store files)"
    using assms Cons by (auto simp: outbound_run_def)
  then show ?thesis using run_trace [of inet opts ticks store files]
    by (simp add: Let_def outbound_ok_def pacer_ok_def)
qed

definition hall_inet :: inet_pton where
  "hall_inet = \<lparr>inet_v4 = \<lambda>_. Some 0x0A000007, inet_v6 = \<lambda>_. None\<rparr>"

definition address_tick :: "int \<Rightarrow> bool \<Rightarrow> outbound_tick" where
  "address_tick now up = \<lparr>ot_now = now, ot_connected = up, ot_server_id = None, ot_servers = [], ot_sys = all_calls_ok\<rparr>"

theorem outbound_dials_witness:
  "let opts = (default_options (plain_host Map.empty []))\<lparr>op_server_url := ''ws://hall/''\<rparr>;
       ticks = [address_tick 0 False, address_tick 500 False, address_tick 1000 False, address_tick 1500 True,
                address_tick 1600 False, address_tick 2600 False];
       s = outbound_run hall_inet opts ticks (StateStore []) Map.empty
   in dial_times (os_trace s) = [0, 1000, 2600] \<and> outbound_url_for ''any'' s = ''ws://hall/''"
proof -
  let ?opts = "(default_options (plain_host Map.empty []))\<lparr>op_server_url := ''ws://hall/''\<rparr>"
  let ?ticks = "[address_tick 0 False, address_tick 500 False, address_tick 1000 False, address_tick 1500 True,
                address_tick 1600 False, address_tick 2600 False]"
  let ?s = "outbound_run hall_inet ?opts ?ticks (StateStore []) Map.empty"
  have d: "op_discover ?opts = False" by (simp add: default_options_def)
  have tr: "os_trace ?s = [Dialled 0 ''ws://hall/'' [], Dialled 1000 ''ws://hall/'' [], ConnectionLost 1600,
      Dialled 2600 ''ws://hall/'' []]"
    by (simp add: outbound_run_def outbound_step_def d address_tick_def outbound_tick_lost_def new_outbound_mode_def
      fresh_pacer_def note_connection_state_def should_dial_def delay_ms_def note_dial_def outbound_dial_def
      remember_def next_retry_delay_ms_def MIN_RETRY_DELAY_MS_def MAX_RETRY_DELAY_MS_def Let_def unat_div)
  have "sorted (map ot_now ?ticks)" by (simp add: address_tick_def)
  from outbound_dials [OF this, where who = "''any''" and inet = hall_inet and opts = ?opts and store = "StateStore []" and files = Map.empty]
  have "outbound_url_for ''any'' ?s = exported_url ''any'' (os_trace ?s)" by (simp only: Let_def)
  then show ?thesis by (simp only: Let_def tr) (simp add: exported_url_def dial_times_def)
qed

section \<open>The memory\<close>

lemma choose_prefers_remembered:
  assumes "find (\<lambda>s. sv_instance s = om_remembered om)
      (filter (\<lambda>s. op_discover_name opts = [] \<or> sv_name s = op_discover_name opts) servers) = Some s"
    and "om_remembered om \<noteq> []" "discovered_server_url inet s = Inr url"
  shows "choose_server inet opts servers om = Some (url, sv_instance s)"
proof -
  have "map_option fst (select_server servers (op_discover_name opts) (om_remembered om)) = Some s"
    using assms(1,2) select_server_spec [of servers "op_discover_name opts" "om_remembered om"]
    by (simp add: Let_def)
  then show ?thesis using assms(3) by (auto simp: choose_server_def split: option.splits)
qed

text \<open>The server a tick's connection shook hands with, once the client knows it.\<close>

definition handshake_of :: "outbound_tick \<Rightarrow> string option" where
  "handshake_of t =
     (if \<not> ot_connected t then None
      else case ot_server_id t of None \<Rightarrow> None | Some sid \<Rightarrow> if sid = [] then None else Some sid)"

definition handshakes :: "outbound_tick list \<Rightarrow> string list" where
  "handshakes ticks = concat (map (\<lambda>t. case handshake_of t of None \<Rightarrow> [] | Some sid \<Rightarrow> [sid]) ticks)"

text \<open>A connection is to one server: the id, once known, stays the same until the connection is lost.\<close>

fun one_server :: "string option \<Rightarrow> outbound_tick list \<Rightarrow> bool" where
  "one_server known [] \<longleftrightarrow> True"
| "one_server known (t # ts) \<longleftrightarrow>
     (if \<not> ot_connected t then one_server None ts
      else case handshake_of t of
        None \<Rightarrow> one_server known ts
      | Some sid \<Rightarrow> (known = None \<or> known = Some sid) \<and> one_server (Some sid) ts)"

lemma handshakes_Cons:
  "handshakes (t # ts) = (case handshake_of t of None \<Rightarrow> [] | Some sid \<Rightarrow> [sid]) @ handshakes ts"
  by (simp add: handshakes_def)

text \<open>The disk of a tick on which no call fails.\<close>

definition calls_succeed :: "syscalls \<Rightarrow> bool" where
  "calls_succeed sys \<longleftrightarrow> mkdir_ok sys \<and> remove_ok sys \<and> open_ok sys \<and> fdopen_ok sys \<and> (\<forall>i. printf_ok sys i)
     \<and> fflush_ok sys \<and> fsync_ok sys \<and> fclose_ok sys \<and> rename_ok sys"

lemma print_loop_succeeds: "\<forall>i. printf_ok sys i \<Longrightarrow> fst (print_loop sys tmp i n True trace)"
  by (induction n arbitrary: i trace) simp_all

lemma set_last_server_succeeds:
  assumes "calls_succeed sys" "store_path s \<noteq> []" "sid \<noteq> []"
  shows "fst (set_last_server sys sid s files)"
proof -
  have "fst (state_write sys s' files)" if "store_path s' \<noteq> []" for s'
    using assms(1) that print_loop_succeeds [of sys]
    by (auto simp: state_write_def calls_succeed_def fs_remove_def Let_def prod.case_eq_if simp del: print_loop.simps)
  then show ?thesis using assms(2,3) by (simp add: set_last_server_def set_all_def Let_def prod.case_eq_if)
qed

text \<open>What \<open>remember\<close> leaves of the store: its file still agrees with it, and names the old server or the new.\<close>

definition memory_ok :: "string \<Rightarrow> outbound_state \<Rightarrow> bool" where
  "memory_ok path s \<longleftrightarrow> store_clean (os_store s) \<and> store_path (os_store s) = path \<and> path \<noteq> []
     \<and> on_disk (os_files s) (os_store s)"

lemma set_last_server_memory:
  assumes "memory_ok path s" "kv_clean KEY_LAST_SERVER sid" "sid \<noteq> []"
    and "set_last_server sys sid (os_store s) (os_files s) = (ok, s1, trace)"
  shows "store_clean s1 \<and> store_path s1 = path \<and> on_disk (last trace) s1
    \<and> last_server s1 = (if ok then sid else last_server (os_store s))"
proof -
  have m: "store_clean (os_store s)" "store_path (os_store s) = path" "path \<noteq> []" "on_disk (os_files s) (os_store s)"
    using assms(1) by (auto simp: memory_ok_def)
  have w: "set_all sys [(KEY_LAST_SERVER, sid)] (os_store s) (os_files s) = (ok, s1, trace)"
    using assms(3,4) by (simp add: set_last_server_def)
  have wf: "map_wf (store_values (os_store s))" using m(1) by (simp add: store_clean_def)
  have "\<forall>(k, v) \<in> set [(KEY_LAST_SERVER, sid)]. kv_clean k v" using assms(2) by simp
  from memory_stays_on_disk_lemma [OF m(1) _ m(4) this w] set_all_all_or_nothing_lemma [OF wf w] m assms(3)
  show ?thesis by (auto simp: last_server_def state_get_def)
qed

lemma remember_memory:
  assumes "memory_ok path s" "\<forall>sid. met = Some sid \<longrightarrow> sid \<noteq> [] \<longrightarrow> kv_clean KEY_LAST_SERVER sid"
  shows "memory_ok path (remember sys met s)
    \<and> last_server (os_store (remember sys met s)) \<in> {last_server (os_store s)} \<union> {sid. met = Some sid \<and> sid \<noteq> []}"
proof (cases "remember sys met s = s")
  case False
  then obtain sid where sid: "met = Some sid" "sid \<noteq> []" "sid \<noteq> om_remembered (os_mode s)"
    "\<not> om_remembered_this_connection (os_mode s)"
    by (auto simp: remember_def Let_def split: if_splits option.splits)
  have p: "store_path (os_store s) \<noteq> []" using assms(1) by (simp add: memory_ok_def)
  obtain ok s1 trace where w: "set_last_server sys sid (os_store s) (os_files s) = (ok, s1, trace)"
    by (metis prod_cases3)
  from set_last_server_memory [OF assms(1) _ sid(2) w] assms(2) sid show ?thesis
    using p w assms(1) by (auto simp: remember_def Let_def memory_ok_def)
qed (use assms in auto)

text \<open>On a disk that takes the write, the store names the server of the connection.\<close>

definition in_step :: "string option \<Rightarrow> outbound_state \<Rightarrow> bool" where
  "in_step known s \<longleftrightarrow> om_remembered (os_mode s) = last_server (os_store s)
     \<and> (om_remembered_this_connection (os_mode s) \<longrightarrow>
          known = Some (om_remembered (os_mode s)) \<and> retry_pacer.connected (om_pacer (os_mode s)))"

lemma remember_in_step:
  assumes "memory_ok path s" "in_step known s" "calls_succeed sys" "kv_clean KEY_LAST_SERVER sid" "sid \<noteq> []"
    and "known = None \<or> known = Some sid" "retry_pacer.connected (om_pacer (os_mode s))"
  shows "in_step (Some sid) (remember sys (Some sid) s) \<and> last_server (os_store (remember sys (Some sid) s)) = sid"
proof (cases "om_remembered_this_connection (os_mode s) \<or> sid = om_remembered (os_mode s)")
  case True
  then show ?thesis using assms(2,5-7) by (auto simp: in_step_def remember_def Let_def)
next
  case False
  have p: "store_path (os_store s) \<noteq> []" using assms(1) by (simp add: memory_ok_def)
  obtain ok s1 trace where w: "set_last_server sys sid (os_store s) (os_files s) = (ok, s1, trace)"
    by (metis prod_cases3)
  have ok using set_last_server_succeeds [OF assms(3) p assms(5), of "os_files s"] w by simp
  then show ?thesis using set_last_server_memory [OF assms(1,4,5) w] False p w assms(5,7)
    by (auto simp: in_step_def remember_def Let_def)
qed

lemma tick_lost_keeps:
  "os_store (outbound_tick_lost t s) = os_store s" "os_files (outbound_tick_lost t s) = os_files s"
  "om_remembered (os_mode (outbound_tick_lost t s)) = om_remembered (os_mode s)"
  "retry_pacer.connected (om_pacer (os_mode (outbound_tick_lost t s))) = ot_connected t"
  "om_remembered_this_connection (os_mode (outbound_tick_lost t s)) \<longleftrightarrow>
     om_remembered_this_connection (os_mode s) \<and> \<not> (retry_pacer.connected (om_pacer (os_mode s)) \<and> \<not> ot_connected t)"
  by (auto simp: outbound_tick_lost_def note_connection_state_def Let_def split: if_splits)

lemma dial_keeps:
  "os_store (outbound_dial now target s) = os_store s" "os_files (outbound_dial now target s) = os_files s"
  "om_remembered (os_mode (outbound_dial now target s)) = om_remembered (os_mode s)"
  "retry_pacer.connected (om_pacer (os_mode (outbound_dial now target s))) = retry_pacer.connected (om_pacer (os_mode s))"
  "om_remembered_this_connection (os_mode (outbound_dial now target s)) = om_remembered_this_connection (os_mode s)"
  by (auto simp: outbound_dial_def note_dial_def Let_def split: prod.split)

lemma idle_step_keeps:
  assumes "\<not> ot_connected t"
  shows "os_store (outbound_step inet opts t s) = os_store s" "os_files (outbound_step inet opts t s) = os_files s"
    "om_remembered (os_mode (outbound_step inet opts t s)) = om_remembered (os_mode s)"
    "om_remembered_this_connection (os_mode (outbound_step inet opts t s)) \<longrightarrow>
       om_remembered_this_connection (os_mode s) \<and> \<not> retry_pacer.connected (om_pacer (os_mode s))"
  using assms by (auto simp: outbound_step_def Let_def tick_lost_keeps dial_keeps split: option.splits)

lemma connected_step:
  "ot_connected t \<Longrightarrow> outbound_step inet opts t s = remember (ot_sys t) (ot_server_id t) (outbound_tick_lost t s)"
  by (simp add: outbound_step_def Let_def)

lemma memory_run:
  assumes "memory_ok path s" "\<forall>sid \<in> set (handshakes ticks). kv_clean KEY_LAST_SERVER sid"
  shows "memory_ok path (fold (outbound_step inet opts) ticks s)
    \<and> last_server (os_store (fold (outbound_step inet opts) ticks s)) \<in> set (last_server (os_store s) # handshakes ticks)"
  using assms
proof (induction ticks arbitrary: s)
  case (Cons t ticks)
  let ?s = "outbound_step inet opts t s"
  have "memory_ok path ?s \<and> last_server (os_store ?s) \<in> {last_server (os_store s)} \<union> set (handshakes [t])"
  proof (cases "ot_connected t")
    case True
    have l: "memory_ok path (outbound_tick_lost t s)" using Cons.prems(1) by (simp add: memory_ok_def tick_lost_keeps)
    have "\<forall>sid. ot_server_id t = Some sid \<longrightarrow> sid \<noteq> [] \<longrightarrow> kv_clean KEY_LAST_SERVER sid"
      using Cons.prems(2) True by (simp add: handshakes_Cons handshake_of_def)
    from remember_memory [OF l this, of "ot_sys t"]
    have r: "memory_ok path ?s" "last_server (os_store ?s) \<in> {last_server (os_store s)} \<union> {sid. ot_server_id t = Some sid \<and> sid \<noteq> []}"
      unfolding connected_step [OF True] tick_lost_keeps(1) by blast+
    have "{sid. ot_server_id t = Some sid \<and> sid \<noteq> []} = set (handshakes [t])"
      by (cases "ot_server_id t") (auto simp: handshakes_def handshake_of_def True)
    then show ?thesis using r by simp
  next
    case False
    then show ?thesis using Cons.prems(1) by (simp add: memory_ok_def idle_step_keeps)
  qed
  moreover have e: "handshakes (t # ticks) = handshakes [t] @ handshakes ticks" by (simp add: handshakes_def)
  moreover have "\<forall>sid \<in> set (handshakes ticks). kv_clean KEY_LAST_SERVER sid" using Cons.prems(2) unfolding e by simp
  ultimately show ?case using Cons.IH [of ?s] unfolding fold_simps(2) e by auto
qed (simp add: handshakes_def)

lemma in_step_run:
  assumes "memory_ok path s" "in_step known s" "\<forall>sid \<in> set (handshakes ticks). kv_clean KEY_LAST_SERVER sid"
    and "one_server known ticks" "\<forall>t \<in> set ticks. calls_succeed (ot_sys t)"
  shows "last_server (os_store (fold (outbound_step inet opts) ticks s)) = last (last_server (os_store s) # handshakes ticks)"
  using assms
proof (induction ticks arbitrary: s known)
  case (Cons t ticks)
  let ?s = "outbound_step inet opts t s" and ?l = "outbound_tick_lost t s"
  have mem: "memory_ok path ?s" using memory_run [of path s "[t]" inet opts] Cons.prems(1,3)
    by (simp add: handshakes_Cons [of t] handshakes_def [of "[]"])
  have l: "memory_ok path ?l" using Cons.prems(1) by (simp add: memory_ok_def tick_lost_keeps)
  show ?case
  proof (cases "ot_connected t")
    case False
    then have "handshake_of t = None" "one_server None ticks" using Cons.prems(4) by (simp_all add: handshake_of_def)
    moreover have "in_step None ?s" using Cons.prems(2) idle_step_keeps [OF False] by (auto simp: in_step_def)
    ultimately show ?thesis using Cons.IH [OF mem, of None] Cons.prems(3,5) idle_step_keeps(1) [OF False]
      by (simp add: handshakes_Cons)
  next
    case up: True
    have i: "in_step known ?l" "retry_pacer.connected (om_pacer (os_mode ?l))"
      using Cons.prems(2) up by (auto simp: in_step_def tick_lost_keeps)
    show ?thesis
    proof (cases "handshake_of t")
      case None
      then have "?s = ?l" using up
        by (auto simp: connected_step remember_def Let_def handshake_of_def split: option.splits if_splits)
      then show ?thesis using Cons.IH [OF mem, of known] Cons.prems(3-5) i(1) None up
        by (simp add: handshakes_Cons tick_lost_keeps)
    next
      case (Some sid)
      then have sid: "ot_server_id t = Some sid" "sid \<noteq> []" using up by (auto simp: handshake_of_def split: option.splits if_splits)
      have k: "kv_clean KEY_LAST_SERVER sid" "known = None \<or> known = Some sid" "one_server (Some sid) ticks"
          "calls_succeed (ot_sys t)"
        using Cons.prems(3-5) Some up by (simp_all add: handshakes_Cons)
      from remember_in_step [OF l i(1) k(4,1) sid(2) k(2) i(2)]
      have "in_step (Some sid) ?s" "last_server (os_store ?s) = sid" using connected_step [OF up] sid(1) by simp_all
      then show ?thesis using Cons.IH [OF mem, of "Some sid"] Cons.prems(3,5) k(3) Some by (simp add: handshakes_Cons)
    qed
  qed
qed (simp add: handshakes_def)

lemma first_tick_dials:
  assumes "last_server store = sid" "sid \<noteq> []" "op_discover opts" "\<not> ot_connected t"
    and "find (\<lambda>v. sv_instance v = sid)
      (filter (\<lambda>v. op_discover_name opts = [] \<or> sv_name v = op_discover_name opts) (ot_servers t)) = Some v"
    and "discovered_server_url inet v = Inr url"
  shows "os_trace (outbound_run inet opts [t] store files) = [Dialled (ot_now t) url sid]"
proof -
  have i: "sv_instance v = sid" using assms(5) by (auto simp: find_Some_iff)
  have "choose_server inet opts (ot_servers t) om = Some (url, sid)" if "om_remembered om = sid" for om
  proof -
    have "find (\<lambda>s. sv_instance s = om_remembered om)
        (filter (\<lambda>s. op_discover_name opts = [] \<or> sv_name s = op_discover_name opts) (ot_servers t)) = Some v"
      using assms(5) that by simp
    from choose_prefers_remembered [OF this _ assms(6)] that assms(2) i show ?thesis by simp
  qed
  then show ?thesis using assms(1,3,4)
    by (simp add: outbound_run_def outbound_step_def outbound_tick_lost_def new_outbound_mode_def fresh_pacer_def
      note_connection_state_def should_dial_def outbound_dial_def Let_def)
qed

text \<open>
  C29. Which server the next run goes back to. Take any run over a state file that agrees with the store,
  whatever connections come, go and shake hands in it, every server id met being one a line of the file can
  hold. The run that starts from the file it leaves remembers the server the run started with or one it shook
  hands with; and when each connection was to one server and no write failed, it remembers the last one
  a handshake was completed with (the one it started with, when there was none). With discovery that run's first
  tick without a connection dials the server it remembers, if it is offered under the name asked for with a URL,
  wherever it stands among the servers offered.
\<close>

theorem remembered_server_is_dialled_next:
  assumes "store_clean store" "store_path store \<noteq> []" "on_disk files store"
    and "\<forall>sid \<in> set (handshakes ticks). kv_clean KEY_LAST_SERVER sid"
    and "next_store = reloaded (os_files (outbound_run inet opts ticks store files)) (store_path store)"
  shows "last_server next_store \<in> set (last_server store # handshakes ticks)
    \<and> (one_server None ticks \<longrightarrow> (\<forall>t \<in> set ticks. calls_succeed (ot_sys t)) \<longrightarrow>
         last_server next_store = last (last_server store # handshakes ticks))
    \<and> (last_server next_store \<noteq> [] \<longrightarrow> op_discover opts' \<longrightarrow> \<not> ot_connected t \<longrightarrow>
         find (\<lambda>v. sv_instance v = last_server next_store)
           (filter (\<lambda>v. op_discover_name opts' = [] \<or> sv_name v = op_discover_name opts') (ot_servers t)) = Some v \<longrightarrow>
         discovered_server_url inet v = Inr url \<longrightarrow>
         os_trace (outbound_run inet opts' [t] next_store files') = [Dialled (ot_now t) url (last_server next_store)])"
proof -
  let ?start = "\<lparr>os_mode = new_outbound_mode store, os_store = store, os_files = files, os_trace = []\<rparr>"
  let ?s = "outbound_run inet opts ticks store files"
  have m0: "memory_ok (store_path store) ?start" "in_step None ?start"
    using assms(1-3) by (simp_all add: memory_ok_def in_step_def new_outbound_mode_def)
  note run = memory_run [OF m0(1) assms(4), of inet opts, folded outbound_run_def]
  then have "next_store = os_store ?s"
    using assms(5) reloaded_on_disk [of "os_files ?s" "os_store ?s"] by (simp add: memory_ok_def)
  then show ?thesis
    using run in_step_run [OF m0 assms(4), of inet opts, folded outbound_run_def] first_tick_dials
    by (intro conjI impI) simp_all
qed

definition server_at :: "string \<Rightarrow> string \<Rightarrow> discovered_server" where
  "server_at instance_name address = \<lparr>sv_instance = instance_name, sv_name = [], sv_path = ''/s'', sv_port = 8927, sv_addresses = [address]\<rparr>"

theorem remembered_server_is_dialled_next_witness:
  "let opts = (default_options (plain_host Map.empty []))\<lparr>op_discover := True\<rparr>;
       up = (\<lambda>now sid. (address_tick now True)\<lparr>ot_server_id := Some sid\<rparr>);
       run = outbound_run hall_inet opts [up 0 ''a'', address_tick 100 False, up 200 ''b''] (StateStore ''s'') Map.empty;
       store = reloaded (os_files run) ''s'';
       t = (address_tick 5 False)\<lparr>ot_servers := [server_at ''a'' ''10.0.0.6'', server_at ''b'' ''10.0.0.7'']\<rparr>
   in os_trace (outbound_run hall_inet opts [t] store Map.empty) = [Dialled 5 (''ws://10.0.0.7:'' @ to_string 8927 @ ''/s'') ''b'']"
proof -
  let ?opts = "(default_options (plain_host Map.empty []))\<lparr>op_discover := True\<rparr>"
  let ?up = "\<lambda>now sid. (address_tick now True)\<lparr>ot_server_id := Some sid\<rparr>"
  let ?ticks = "[?up 0 ''a'', address_tick 100 False, ?up 200 ''b'']"
  let ?store = "reloaded (os_files (outbound_run hall_inet ?opts ?ticks (StateStore ''s'') Map.empty)) (store_path (StateStore ''s''))"
  let ?t = "(address_tick 5 False)\<lparr>ot_servers := [server_at ''a'' ''10.0.0.6'', server_at ''b'' ''10.0.0.7'']\<rparr>"
  let ?v = "server_at ''b'' ''10.0.0.7''"
  have c: "store_clean (StateStore ''s'')" "store_path (StateStore ''s'') \<noteq> []" "on_disk Map.empty (StateStore ''s'')"
    by (simp_all add: store_clean_def StateStore_def on_disk_def state_load_def read_key_value_file_def)
  have h: "handshakes ?ticks = [''a'', ''b'']" by (simp add: handshakes_def handshake_of_def address_tick_def)
  have "kv_clean KEY_LAST_SERVER ''a''" "kv_clean KEY_LAST_SERVER ''b''" by code_simp+
  then have k: "\<forall>sid \<in> set (handshakes ?ticks). kv_clean KEY_LAST_SERVER sid" by (simp add: h)
  have o: "one_server None ?ticks" "\<forall>t \<in> set ?ticks. calls_succeed (ot_sys t)"
    by (simp_all add: address_tick_def handshake_of_def calls_succeed_def all_calls_ok_def)
  have u: "discovered_server_url hall_inet ?v = Inr (''ws://10.0.0.7:'' @ to_string 8927 @ ''/s'')"
    by (simp add: discovered_server_url_def server_at_def hall_inet_def classify_address_def)
  note claim = remembered_server_is_dialled_next [OF c k refl, of hall_inet ?opts ?opts ?t ?v _ Map.empty]
  have "last_server ?store = ''b''" using claim o h by simp
  moreover have "find (\<lambda>v. sv_instance v = ''b'') (filter (\<lambda>v. op_discover_name ?opts = [] \<or> sv_name v = op_discover_name ?opts)
      (ot_servers ?t)) = Some ?v"
    by (simp add: default_options_def server_at_def)
  ultimately have "os_trace (outbound_run hall_inet ?opts [?t] ?store Map.empty)
      = [Dialled (ot_now ?t) (''ws://10.0.0.7:'' @ to_string 8927 @ ''/s'') ''b'']"
    using claim u by (simp add: address_tick_def)
  moreover have "store_path (StateStore ''s'') = ''s''" by (simp add: StateStore_def)
  ultimately show ?thesis by (simp only: Let_def) (simp add: address_tick_def)
qed

end
