(* ===== verification/StreamHooks.thy ===== *)
theory StreamHooks
  imports Hooks CliOptions
begin

text \<open>
  The hooks of a run, from \<^verbatim>\<open>main()\<close> of \<^verbatim>\<open>src/src/main.cpp\<close>: the callback wired to the listener's
  stream events, the reaping in each tick, and the shutdown - the pumping that waits for the stream's
  end, and the flush. The events the library delivers, \<^verbatim>\<open>fork\<close> and \<^verbatim>\<open>waitpid\<close> are inputs.
\<close>

section \<open>Definitions\<close>

definition LOOP_INTERVAL_MS :: nat where "LOOP_INTERVAL_MS = 10"
definition SHUTDOWN_DRAIN_MS :: nat where "SHUTDOWN_DRAIN_MS = 500"

record hook_state =
  hs_runner :: hook_runner
  hs_started :: "hook list"
  hs_context :: hook_context
  hs_streaming :: bool

definition new_hook_state :: hook_state where
  "new_hook_state = \<lparr>hs_runner = new_hook_runner, hs_started = [], hs_context = empty_context, hs_streaming = False\<rparr>"

text \<open>
  What a start learns: the server's id and name when they are known, and what \<^verbatim>\<open>OutboundMode::url_for\<close>
  says when there is an outbound mode.
\<close>

definition context_of :: "options \<Rightarrow> (string \<times> string) option \<Rightarrow> (string \<Rightarrow> string) option \<Rightarrow> hook_context" where
  "context_of opts info url =
     (let c = empty_context\<lparr>hc_client_id := op_client_id opts, hc_client_name := op_name opts\<rparr>;
          c1 = (case info of None \<Rightarrow> c | Some (sid, sname) \<Rightarrow> c\<lparr>hc_server_id := sid, hc_server_name := sname\<rparr>)
      in case url of None \<Rightarrow> c1 | Some f \<Rightarrow> c1\<lparr>hc_server_url := f (hc_server_id c1)\<rparr>)"

definition stream_hook :: "options \<Rightarrow> bool \<Rightarrow> hook_context \<Rightarrow> hook" where
  "stream_hook opts started c =
     \<lparr>hk_command = (if started then op_hook_start opts else op_hook_stop opts),
      hk_event = (if started then ''start'' else ''stop''), hk_context = c\<rparr>"

datatype loop_event =
  LoopStream bool "(string \<times> string) option" "(string \<Rightarrow> string) option" "int option"
| LoopPoll "int \<Rightarrow> wait_answer" "int option"

definition with_hooks :: "hook_runner \<times> hook list \<Rightarrow> hook_state \<Rightarrow> hook_state" where
  "with_hooks w s = s\<lparr>hs_runner := fst w, hs_started := hs_started s @ snd w\<rparr>"

definition on_stream_event ::
  "options \<Rightarrow> (string \<times> string) option \<Rightarrow> (string \<Rightarrow> string) option \<Rightarrow> int option \<Rightarrow> bool \<Rightarrow> hook_state \<Rightarrow> hook_state" where
  "on_stream_event opts info url fork started s0 =
     (let s = (if started then s0\<lparr>hs_context := context_of opts info url\<rparr> else s0);
          h = stream_hook opts started (hs_context s)
      in if hk_command h = [] then s else with_hooks (hook_run fork h (hs_runner s)) s)"

fun loop_step :: "options \<Rightarrow> loop_event \<Rightarrow> hook_state \<Rightarrow> hook_state" where
  "loop_step opts (LoopStream started info url fork) s =
     on_stream_event opts info url fork started (s\<lparr>hs_streaming := started\<rparr>)"
| "loop_step opts (LoopPoll wait fork) s = with_hooks (hook_poll wait fork (hs_runner s)) s"

text \<open>
  The drain: what each \<^verbatim>\<open>client.loop()\<close> and \<^verbatim>\<open>hooks.poll()\<close> of it delivers, nothing when the list
  is exhausted. The result says how often it pumped and whether it gave up.
\<close>

function drain :: "options \<Rightarrow> nat \<Rightarrow> loop_event list list \<Rightarrow> hook_state \<Rightarrow> hook_state \<times> nat \<times> bool" where
  "drain opts waited pumps s =
     (if \<not> hs_streaming s then (s, 0, False)
      else if waited \<ge> SHUTDOWN_DRAIN_MS then (s, 0, True)
      else
        (let s1 = (case pumps of [] \<Rightarrow> s | es # _ \<Rightarrow> fold (loop_step opts) es s);
             (s2, n, gave_up) = drain opts (waited + LOOP_INTERVAL_MS) (tl pumps) s1
         in (s2, n + 1, gave_up)))"
  by pat_completeness auto

termination by (relation "measure (\<lambda>(opts, waited, pumps, s). SHUTDOWN_DRAIN_MS - waited)")
  (auto simp: LOOP_INTERVAL_MS_def SHUTDOWN_DRAIN_MS_def)

declare drain.simps [simp del]

definition hook_lifetime ::
  "options \<Rightarrow> loop_event list \<Rightarrow> loop_event list list \<Rightarrow> int option \<Rightarrow> hook_state \<times> nat \<times> bool" where
  "hook_lifetime opts events pumps fork =
     (let s = fold (loop_step opts) events new_hook_state;
          (s1, n, gave_up) = drain opts 0 pumps s
      in (with_hooks (hook_flush fork (hs_runner s1)) s1, n, gave_up))"

section \<open>The drain\<close>

lemma drain_spec:
  "waited \<le> SHUTDOWN_DRAIN_MS \<Longrightarrow> drain opts waited pumps s = (s', n, gave_up) \<Longrightarrow>
     n * LOOP_INTERVAL_MS \<le> SHUTDOWN_DRAIN_MS - waited
     \<and> s' = fold (loop_step opts) (concat (take n pumps)) s
     \<and> gave_up = hs_streaming s'
     \<and> (gave_up \<longrightarrow> n * LOOP_INTERVAL_MS = SHUTDOWN_DRAIN_MS - waited)"
  if "LOOP_INTERVAL_MS dvd SHUTDOWN_DRAIN_MS - waited"
  using that
proof (induction opts waited pumps s arbitrary: s' n gave_up rule: drain.induct)
  case (1 opts waited pumps s)
  note run = "1.prems"(2) [unfolded drain.simps [of opts waited pumps s]]
  show ?case
  proof (cases "\<not> hs_streaming s \<or> waited \<ge> SHUTDOWN_DRAIN_MS")
    case True
    then show ?thesis using "1.prems"(1) run by (cases "hs_streaming s") simp_all
  next
    case False
    let ?s1 = "case pumps of [] \<Rightarrow> s | es # _ \<Rightarrow> fold (loop_step opts) es s"
    obtain s2 k g where r: "drain opts (waited + LOOP_INTERVAL_MS) (tl pumps) ?s1 = (s2, k, g)"
      by (metis prod_cases3)
    have e: "s' = s2" "n = k + 1" "gave_up = g"
      using run False r by simp_all
    have w: "waited + LOOP_INTERVAL_MS \<le> SHUTDOWN_DRAIN_MS"
      using "1.prems"(3) False by (auto simp: LOOP_INTERVAL_MS_def SHUTDOWN_DRAIN_MS_def dest: dvd_imp_le)
    have d: "LOOP_INTERVAL_MS dvd SHUTDOWN_DRAIN_MS - (waited + LOOP_INTERVAL_MS)"
      using "1.prems"(3) w by (metis diff_diff_left dvd_diff_nat dvd_refl)
    have "fold (loop_step opts) (concat (take k (tl pumps))) ?s1 = fold (loop_step opts) (concat (take (k + 1) pumps)) s"
      by (cases pumps) simp_all
    with "1.IH" [OF _ _ refl w r d] False e w show ?thesis by auto
  qed
qed

text \<open>
  C36. Shutting down ends: however the library behaves, the drain pumps it at most fifty times, and
  it gives up only when the stream still runs after all fifty; what it delivers until then is handled
  like any tick of the loop.
\<close>

theorem shutdown_drain_ends:
  "let (s', n, gave_up) = drain opts 0 pumps s in
     n \<le> 50 \<and> s' = fold (loop_step opts) (concat (take n pumps)) s
     \<and> (if gave_up then n = 50 \<and> hs_streaming s' else \<not> hs_streaming s')"
proof -
  obtain s' n g where d: "drain opts 0 pumps s = (s', n, g)" by (metis prod_cases3)
  have "LOOP_INTERVAL_MS dvd SHUTDOWN_DRAIN_MS - 0" "0 \<le> SHUTDOWN_DRAIN_MS"
    by (simp_all add: LOOP_INTERVAL_MS_def SHUTDOWN_DRAIN_MS_def)
  note f = drain_spec [OF this d]
  have "n * LOOP_INTERVAL_MS \<le> SHUTDOWN_DRAIN_MS" "g \<longrightarrow> n * LOOP_INTERVAL_MS = SHUTDOWN_DRAIN_MS"
    and e: "s' = fold (loop_step opts) (concat (take n pumps)) s" "g = hs_streaming s'"
    using f unfolding minus_nat.diff_0 by blast+
  then have "n \<le> 50" "g \<longrightarrow> n = 50" unfolding LOOP_INTERVAL_MS_def SHUTDOWN_DRAIN_MS_def by linarith+
  with e have "n \<le> 50 \<and> s' = fold (loop_step opts) (concat (take n pumps)) s \<and> (if g then n = 50 \<and> hs_streaming s' else \<not> hs_streaming s')"
    by metis
  then show ?thesis unfolding d Let_def prod.case .
qed

section \<open>What is asked of the hooks\<close>

text \<open>The hook of each stream event, with the context its stream started on.\<close>

fun asked :: "options \<Rightarrow> hook_context \<Rightarrow> loop_event list \<Rightarrow> hook list" where
  "asked opts c [] = []"
| "asked opts c (LoopStream started info url fork # es) =
     (let c' = (if started then context_of opts info url else c);
          h = stream_hook opts started c'
      in (if hk_command h = [] then [] else [h]) @ asked opts c' es)"
| "asked opts c (LoopPoll wait fork # es) = asked opts c es"

fun context_after :: "options \<Rightarrow> hook_context \<Rightarrow> loop_event list \<Rightarrow> hook_context" where
  "context_after opts c [] = c"
| "context_after opts c (LoopStream started info url fork # es) =
     context_after opts (if started then context_of opts info url else c) es"
| "context_after opts c (LoopPoll wait fork # es) = context_after opts c es"

fun streaming_after :: "bool \<Rightarrow> loop_event list \<Rightarrow> bool" where
  "streaming_after b [] = b"
| "streaming_after b (LoopStream started info url fork # es) = streaming_after started es"
| "streaming_after b (LoopPoll wait fork # es) = streaming_after b es"

lemma with_hooks_run:
  "(hs_runner (with_hooks (hook_run fork h (hs_runner s)) s), hs_started (with_hooks (hook_run fork h (hs_runner s)) s)) =
     hook_step (HookRun fork h) (hs_runner s, hs_started s)"
  by (simp add: with_hooks_def hook_step_def split: prod.split)

lemma with_hooks_poll:
  "(hs_runner (with_hooks (hook_poll wait fork (hs_runner s)) s), hs_started (with_hooks (hook_poll wait fork (hs_runner s)) s)) =
     hook_step (HookPoll wait fork) (hs_runner s, hs_started s)"
  by (simp add: with_hooks_def hook_step_def split: prod.split)

lemma with_hooks_fields [simp]:
  "hs_context (with_hooks w s) = hs_context s" "hs_streaming (with_hooks w s) = hs_streaming s"
  by (simp_all add: with_hooks_def)

lemma loop_hooks_ok:
  "hooks_ok done (hs_runner s, hs_started s) \<Longrightarrow>
     (let s' = fold (loop_step opts) es s in
      hooks_ok (done @ asked opts (hs_context s) es) (hs_runner s', hs_started s')
      \<and> hs_context s' = context_after opts (hs_context s) es \<and> hs_streaming s' = streaming_after (hs_streaming s) es)"
proof (induction es arbitrary: \<open>done\<close> s)
  case (Cons e es)
  show ?case
  proof (cases e)
    case (LoopPoll wait fork)
    have "hooks_ok done (hs_runner (loop_step opts e s), hs_started (loop_step opts e s))"
      using hooks_ok_poll [OF Cons.prems] LoopPoll by (simp add: with_hooks_poll)
    from Cons.IH [OF this] LoopPoll show ?thesis by (simp add: Let_def)
  next
    case (LoopStream started info url fork)
    let ?c = "if started then context_of opts info url else hs_context s"
    let ?h = "stream_hook opts started ?c"
    let ?asked = "if hk_command ?h = [] then [] else [?h]"
    have f: "hs_context (loop_step opts e s) = ?c" "hs_streaming (loop_step opts e s) = started"
      using LoopStream by (auto simp: on_stream_event_def Let_def)
    have "hooks_ok (done @ ?asked) (hs_runner (loop_step opts e s), hs_started (loop_step opts e s))"
    proof (cases "hk_command ?h = []")
      case True
      then show ?thesis using LoopStream Cons.prems by (cases started) (simp_all add: on_stream_event_def Let_def)
    next
      case False
      let ?s = "s\<lparr>hs_streaming := started, hs_context := ?c\<rparr>"
      have "loop_step opts e s = with_hooks (hook_run fork ?h (hs_runner ?s)) ?s"
        using LoopStream False by (cases started) (simp_all add: on_stream_event_def Let_def)
      then show ?thesis using hooks_ok_run [OF Cons.prems, of ?h fork] with_hooks_run [of fork ?h ?s] False by simp
    qed
    from Cons.IH [OF this] f LoopStream show ?thesis by (simp add: Let_def)
  qed
qed simp

definition has_start :: "loop_event list \<Rightarrow> bool" where
  "has_start es \<longleftrightarrow> list_ex (\<lambda>e. case e of LoopStream b _ _ _ \<Rightarrow> b | LoopPoll _ _ \<Rightarrow> False) es"

lemma no_start:
  "\<not> has_start es \<Longrightarrow> context_after opts c es = c \<and> set (asked opts c es) \<subseteq> {stream_hook opts False c}"
  by (induction opts c es rule: asked.induct) (auto simp: has_start_def Let_def)

lemma last_asked:
  assumes "op_hook_stop opts \<noteq> []"
  shows "\<not> streaming_after b es \<Longrightarrow> b \<or> has_start es \<Longrightarrow>
    asked opts c es \<noteq> [] \<and> last (asked opts c es) = stream_hook opts False (context_after opts c es)"
proof (induction es arbitrary: b c)
  case (Cons e es)
  show ?case
  proof (cases e)
    case (LoopPoll wait fork)
    then show ?thesis using Cons by (simp add: has_start_def)
  next
    case (LoopStream started info url fork)
    let ?c = "if started then context_of opts info url else c"
    show ?thesis
    proof (cases "started \<or> has_start es")
      case True
      then have "asked opts ?c es \<noteq> [] \<and> last (asked opts ?c es) = stream_hook opts False (context_after opts ?c es)"
        using Cons.IH [of started ?c] Cons.prems(1) LoopStream by simp
      then show ?thesis using LoopStream by (simp add: Let_def)
    next
      case False
      have "hk_command (stream_hook opts False c) \<noteq> []" using assms by (simp add: stream_hook_def)
      moreover have "asked opts c es = [] \<or> last (asked opts c es) = stream_hook opts False c"
        using no_start [of es opts c] False last_in_set [of "asked opts c es"] by blast
      ultimately show ?thesis using LoopStream False no_start [of es opts c] by (auto simp: Let_def)
    qed
  qed
qed (simp add: has_start_def)

text \<open>
  C35. Stopping the player runs the stop hook. Whatever streams came and went, whatever the hooks did,
  and however the library delivers the end of the stream while the shutdown waits: unless the stream
  is still running when that wait gives up, the last hook started is the stop hook of the last stream
  and has the context that stream started on; the hooks before it are those of the events, in order.
\<close>

theorem shutdown_runs_the_stop_hook:
  assumes "op_hook_stop opts \<noteq> []" "hook_lifetime opts events pumps fork = (s, n, False)"
    and "has_start events"
  shows "hs_started s \<noteq> []
    \<and> last (hs_started s) = stream_hook opts False (context_after opts empty_context (events @ concat (take n pumps)))
    \<and> subseq (hs_started s) (asked opts empty_context (events @ concat (take n pumps)))
    \<and> hr_pending (hs_runner s) = None"
proof -
  let ?es = "events @ concat (take n pumps)"
  let ?s0 = "fold (loop_step opts) events new_hook_state"
  obtain s1 n1 g where d: "drain opts 0 pumps ?s0 = (s1, n1, g)" by (metis prod_cases3)
  have g: "n1 = n" "\<not> g" and s: "s = with_hooks (hook_flush fork (hs_runner s1)) s1"
    using assms(2) d by (simp_all add: hook_lifetime_def Let_def)
  have "LOOP_INTERVAL_MS dvd SHUTDOWN_DRAIN_MS - 0" "0 \<le> SHUTDOWN_DRAIN_MS"
    by (simp_all add: LOOP_INTERVAL_MS_def SHUTDOWN_DRAIN_MS_def)
  note dr = drain_spec [OF this d]
  have s1: "s1 = fold (loop_step opts) ?es new_hook_state" and off: "\<not> hs_streaming s1"
    using dr g by auto
  have "hooks_ok [] (hs_runner new_hook_state, hs_started new_hook_state)"
    by (simp add: hooks_ok_def new_hook_state_def new_hook_runner_def pending_list_def)
  from loop_hooks_ok [OF this, of opts ?es]
  have ok: "hooks_ok (asked opts empty_context ?es) (hs_runner s1, hs_started s1)"
    and st: "hs_streaming s1 = streaming_after False ?es"
    unfolding s1 by (simp_all add: Let_def new_hook_state_def)
  have "asked opts empty_context ?es \<noteq> []"
    and l: "last (asked opts empty_context ?es) = stream_hook opts False (context_after opts empty_context ?es)"
    using last_asked [OF assms(1), of False ?es empty_context] off st assms(3) by (simp_all add: has_start_def)
  moreover have "hs_started s = hs_started s1 @ pending_list (hs_runner s1)" "hr_pending (hs_runner s) = None"
    unfolding s by (simp_all add: with_hooks_def hook_flush_def pending_list_def spawn_def split: option.split)
  ultimately show ?thesis using ok by (simp add: hooks_ok_def)
qed

theorem shutdown_runs_the_stop_hook_witness:
  "let opts = (default_options (plain_host Map.empty []))\<lparr>op_hook_start := ''on'', op_hook_stop := ''off'', op_name := ''Hall''\<rparr>;
       (s, n, gave_up) = hook_lifetime opts
         [LoopStream True (Some (''s1'', ''Attic'')) None (Some 70), LoopPoll (\<lambda>_. WaitNotYet) None]
         [[], [LoopStream False None None (Some 71), LoopPoll (\<lambda>_. WaitNotYet) None]] (Some 72)
   in n = 2 \<and> map hk_command (hs_started s) = [''on'', ''off'']
     \<and> hc_server_name (hk_context (last (hs_started s))) = ''Attic''"
proof -
  let ?opts = "(default_options (plain_host Map.empty []))\<lparr>op_hook_start := ''on'', op_hook_stop := ''off'', op_name := ''Hall''\<rparr>"
  let ?es = "[LoopStream True (Some (''s1'', ''Attic'')) None (Some 70), LoopPoll (\<lambda>_. WaitNotYet) None]"
  let ?pumps = "[[], [LoopStream False None None (Some 71), LoopPoll (\<lambda>_. WaitNotYet) None]]"
  obtain s n g where l: "hook_lifetime ?opts ?es ?pumps (Some 72) = (s, n, g)" by (metis prod_cases3)
  have v: "n = 2 \<and> \<not> g \<and> map hk_command (hs_started s) = [''on'', ''off'']"
    using l by (simp add: hook_lifetime_def drain.simps new_hook_state_def new_hook_runner_def on_stream_event_def
      stream_hook_def context_of_def with_hooks_def hook_run_def spawn_def hook_poll_def still_running_def
      hook_flush_def SHUTDOWN_DRAIN_MS_def LOOP_INTERVAL_MS_def Let_def) auto
  have h: "op_hook_stop ?opts \<noteq> []" "has_start ?es" by (simp_all add: has_start_def)
  have "last (hs_started s) = stream_hook ?opts False (context_after ?opts empty_context (?es @ concat (take n ?pumps)))"
    using shutdown_runs_the_stop_hook [OF h(1) _ h(2), of ?pumps "Some 72" s n] l v by simp
  then show ?thesis using l v by (simp add: stream_hook_def context_of_def empty_context_def Let_def)
qed

end
