(* ===== verification/LineSense.thy ===== *)
theory LineSense
  imports Prelude
begin

text \<open>
  \<^verbatim>\<open>src/src/alsa_source.{h,cpp}\<close>: the capture thread of a source endpoint - whether a signal is
  on the line, the timestamps of what it sends, and the thread's own lifetime. Whether a block's RMS
  reaches the threshold is a floating point computation and the parameter \<open>loud\<close>; clock values are
  integers of nanoseconds (\<^verbatim>\<open>steady_clock\<close>) and microseconds. The ALSA calls' answers are inputs.
\<close>

section \<open>Line sense\<close>

record line_sense =
  ls_present :: bool
  ls_candidate :: "bool option"
  ls_since :: int
  ls_pending :: "bool option"

definition new_line_sense :: "bool \<Rightarrow> line_sense" where
  "new_line_sense enabled =
     \<lparr>ls_present = False, ls_candidate = None, ls_since = 0, ls_pending = (if enabled then Some False else None)\<rparr>"

record sense_config =
  sc_enabled :: bool
  sc_loud :: "16 word list \<Rightarrow> bool"
  sc_attack_ms :: u32
  sc_release_ms :: u32

definition required_ms :: "sense_config \<Rightarrow> bool \<Rightarrow> int" where
  "required_ms cfg measured = int (unat (if measured then sc_attack_ms cfg else sc_release_ms cfg))"

definition elapsed_ms :: "int \<Rightarrow> int \<Rightarrow> int" where
  "elapsed_ms now since = (now - since) div 1000000"

definition set_signal_from_pcm :: "sense_config \<Rightarrow> int \<Rightarrow> 16 word list \<Rightarrow> line_sense \<Rightarrow> line_sense" where
  "set_signal_from_pcm cfg now samples s =
     (if samples = [] then s
      else
        (let measured = sc_loud cfg samples in
         if measured = ls_present s then s\<lparr>ls_candidate := None\<rparr>
         else if ls_candidate s \<noteq> Some measured then s\<lparr>ls_candidate := Some measured, ls_since := now\<rparr>
         else if elapsed_ms now (ls_since s) < required_ms cfg measured then s
         else s\<lparr>ls_present := measured, ls_candidate := None, ls_pending := Some measured\<rparr>))"

text \<open>What \<^verbatim>\<open>poll\<close> tells the role, if anything.\<close>

definition sense_poll :: "sense_config \<Rightarrow> line_sense \<Rightarrow> bool option \<times> line_sense" where
  "sense_poll cfg s = (if \<not> sc_enabled cfg then (None, s) else (ls_pending s, s\<lparr>ls_pending := None\<rparr>))"

text \<open>Blocks captured and polls made, in order; the last signal the role was told.\<close>

datatype sense_event = Block int "16 word list" | Poll

fun sense_step :: "sense_config \<Rightarrow> sense_event \<Rightarrow> line_sense \<times> bool option \<Rightarrow> line_sense \<times> bool option" where
  "sense_step cfg (Block now samples) (s, told) =
     ((if sc_enabled cfg then set_signal_from_pcm cfg now samples s else s), told)"
| "sense_step cfg Poll (s, told) =
     (case sense_poll cfg s of (None, s') \<Rightarrow> (s', told) | (Some v, s') \<Rightarrow> (s', Some v))"

definition sense_run :: "sense_config \<Rightarrow> sense_event list \<Rightarrow> line_sense \<times> bool option" where
  "sense_run cfg es = fold (sense_step cfg) es (new_line_sense (sc_enabled cfg), None)"

text \<open>The levels measured, newest first, and the run of equal ones that ends now.\<close>

definition levels :: "sense_config \<Rightarrow> sense_event list \<Rightarrow> (int \<times> bool) list" where
  "levels cfg es = rev (concat (map (\<lambda>e. case e of
     Block now samples \<Rightarrow> if samples = [] then [] else [(now, sc_loud cfg samples)] | Poll \<Rightarrow> []) es))"

definition held :: "sense_config \<Rightarrow> (int \<times> bool) list \<Rightarrow> bool" where
  "held cfg ls =
     (case ls of [] \<Rightarrow> False
      | (now, v) # older \<Rightarrow>
          (let run = takeWhile (\<lambda>(_, w). w = v) older in
           run \<noteq> [] \<and> required_ms cfg v \<le> elapsed_ms now (fst (last run))))"

text \<open>The reference: the signal is what was measured last, once that has been held; else it stays.\<close>

fun debounced :: "sense_config \<Rightarrow> (int \<times> bool) list \<Rightarrow> bool" where
  "debounced cfg [] = False"
| "debounced cfg ((now, v) # older) = (if held cfg ((now, v) # older) then v else debounced cfg older)"

lemma levels_snoc [simp]:
  "levels cfg (es @ [Block now samples]) = (if samples = [] then levels cfg es else (now, sc_loud cfg samples) # levels cfg es)"
  "levels cfg (es @ [Poll]) = levels cfg es" "levels cfg [] = []"
  by (simp_all add: levels_def)

definition sense_ok :: "sense_config \<Rightarrow> (int \<times> bool) list \<Rightarrow> line_sense \<Rightarrow> bool option \<Rightarrow> bool" where
  "sense_ok cfg ls s told \<longleftrightarrow>
     ls_present s = debounced cfg ls
     \<and> ls_candidate s = (if ls = [] \<or> snd (hd ls) = debounced cfg ls then None else Some (snd (hd ls)))
     \<and> (ls \<noteq> [] \<longrightarrow> snd (hd ls) \<noteq> debounced cfg ls \<longrightarrow>
          ls_since s = fst (last (takeWhile (\<lambda>(_, x). x = snd (hd ls)) ls)))
     \<and> (ls_pending s = Some (debounced cfg ls) \<or> ls_pending s = None \<and> told = Some (debounced cfg ls))"

lemma debounced_Cons: "debounced cfg ((now, v) # ls) = (if held cfg ((now, v) # ls) then v else debounced cfg ls)"
  by simp

lemma sense_ok_block:
  assumes "sense_ok cfg ls s told" "samples \<noteq> []" "sc_loud cfg samples = v"
  shows "sense_ok cfg ((now, v) # ls) (set_signal_from_pcm cfg now samples s) told"
proof -
  define D where "D = debounced cfg ls"
  note new = debounced_Cons [of cfg now v ls, folded D_def]
  have p: "ls_present s = D" and pend: "ls_pending s = Some D \<or> ls_pending s = None \<and> told = Some D"
    using assms(1) unfolding sense_ok_def D_def by blast+
  show ?thesis
  proof (cases "v = D")
    case True
    then have "debounced cfg ((now, v) # ls) = v" using new by simp
    moreover have "set_signal_from_pcm cfg now samples s = s\<lparr>ls_candidate := None\<rparr>"
      using assms(2,3) p True by (simp add: set_signal_from_pcm_def)
    ultimately show ?thesis using p pend True by (simp add: sense_ok_def del: debounced.simps)
  next
    case False
    show ?thesis
    proof (cases "\<exists>t older. ls = (t, v) # older")
      case True
      then obtain t older where ls: "ls = (t, v) # older" by blast
      have hv: "ls \<noteq> []" "snd (hd ls) = v" using ls by simp_all
      have c: "ls_candidate s = Some v"
        "ls_since s = fst (last (takeWhile (\<lambda>(_, x). x = v) ls))"
        using assms(1) False hv by (simp_all add: sense_ok_def D_def)
      have h: "held cfg ((now, v) # ls) = (\<not> elapsed_ms now (ls_since s) < required_ms cfg v)"
        unfolding held_def c(2) by (simp add: Let_def not_less ls)
      show ?thesis
      proof (cases "elapsed_ms now (ls_since s) < required_ms cfg v")
        case less: True
        then have "set_signal_from_pcm cfg now samples s = s" using assms(2,3) p c False
          by (simp add: set_signal_from_pcm_def)
        moreover have "debounced cfg ((now, v) # ls) = D" using new h less by simp
        ultimately show ?thesis using p pend c False ls by (simp add: sense_ok_def del: debounced.simps)
      next
        case False2: False
        then have "set_signal_from_pcm cfg now samples s =
            s\<lparr>ls_present := v, ls_candidate := None, ls_pending := Some v\<rparr>"
          using assms(2,3) p c False by (simp add: set_signal_from_pcm_def Let_def)
        moreover have "debounced cfg ((now, v) # ls) = v" using new h False2 by simp
        ultimately show ?thesis by (simp add: sense_ok_def del: debounced.simps)
      qed
    next
      case other: False
      have "ls_candidate s = None"
        using assms(1) other False by (cases ls) (auto simp: sense_ok_def D_def simp del: debounced.simps)
      then have "set_signal_from_pcm cfg now samples s = s\<lparr>ls_candidate := Some v, ls_since := now\<rparr>"
        using assms(2,3) p False by (simp add: set_signal_from_pcm_def)
      moreover have run: "takeWhile (\<lambda>(_, w). w = v) ls = []" using other by (cases ls) auto
      then have "debounced cfg ((now, v) # ls) = D" using new by (simp add: held_def)
      ultimately show ?thesis using p pend False run by (simp add: sense_ok_def del: debounced.simps)
    qed
  qed
qed

lemma sense_ok_poll:
  assumes "sense_ok cfg ls s told" "sc_enabled cfg"
  shows "\<exists>s'. sense_step cfg Poll (s, told) = (s', Some (debounced cfg ls)) \<and> sense_ok cfg ls s' (Some (debounced cfg ls))"
  using assms by (cases "ls_pending s") (auto simp: sense_ok_def sense_poll_def)

lemma sense_ok_run:
  assumes "sc_enabled cfg"
  shows "sense_ok cfg (levels cfg es) (fst (sense_run cfg es)) (snd (sense_run cfg es))"
proof (induction es rule: rev_induct)
  case Nil
  then show ?case using assms by (simp add: sense_ok_def sense_run_def new_line_sense_def)
next
  case (snoc e es)
  obtain s told where r: "sense_run cfg es = (s, told)" by fastforce
  have step: "sense_run cfg (es @ [e]) = sense_step cfg e (s, told)"
    using r by (simp add: sense_run_def)
  show ?case
  proof (cases e)
    case (Block now samples)
    have e: "sense_run cfg (es @ [e]) = (set_signal_from_pcm cfg now samples s, told)"
      using step Block assms by simp
    show ?thesis
    proof (cases "samples = []")
      case True
      then show ?thesis using e snoc r Block by (simp add: set_signal_from_pcm_def)
    next
      case False
      then show ?thesis using e sense_ok_block [of cfg "levels cfg es" s told samples _ now] snoc r Block by simp
    qed
  next
    case Poll
    then show ?thesis using sense_ok_poll [of cfg "levels cfg es" s told] snoc r assms step by auto
  qed
qed

text \<open>
  C34. Line sense is debounced. Whatever levels are measured: the signal follows the level measured
  last exactly when that level has been measured without interruption for the attack or the release
  time, and stays otherwise, so a click or a pause shorter than that changes nothing. The server is
  told of every change: after each poll what it was told last is the signal there is.
\<close>

theorem line_sense_is_debounced:
  assumes "sc_enabled cfg"
  shows "ls_present (fst (sense_run cfg es)) = debounced cfg (levels cfg es)
    \<and> snd (sense_run cfg (es @ [Poll])) = Some (debounced cfg (levels cfg es))"
proof -
  obtain s told where r: "sense_run cfg es = (s, told)" by fastforce
  have ok: "sense_ok cfg (levels cfg es) s told" using sense_ok_run [OF assms, of es] r by simp
  have "sense_run cfg (es @ [Poll]) = sense_step cfg Poll (s, told)" using r by (simp add: sense_run_def)
  then show ?thesis using ok r sense_ok_poll [OF ok assms] by (auto simp: sense_ok_def)
qed

theorem line_sense_is_debounced_witness:
  "let cfg = \<lparr>sc_enabled = True, sc_loud = \<lambda>xs. hd xs = 9, sc_attack_ms = 300, sc_release_ms = 5000\<rparr>;
       ms = 1000000; es = [Block (10 * ms) [9], Block (200 * ms) [9], Block (310 * ms) [9], Block (400 * ms) [0]]
   in snd (sense_run cfg (es @ [Poll])) = Some True"
proof -
  let ?cfg = "\<lparr>sc_enabled = True, sc_loud = \<lambda>xs. hd xs = (9 :: 16 word), sc_attack_ms = 300, sc_release_ms = 5000\<rparr>"
  let ?es = "[Block (10 * 1000000) [9], Block (200 * 1000000) [9], Block (310 * 1000000) [9], Block (400 * 1000000) [0]]"
  have "levels ?cfg ?es = [(400000000, False), (310000000, True), (200000000, True), (10000000, True)]"
    by (simp add: levels_def)
  moreover have "debounced ?cfg [(400000000, False), (310000000, True), (200000000, True), (10000000, True)]"
    by (simp add: held_def required_ms_def elapsed_ms_def)
  ultimately show ?thesis using line_sense_is_debounced [of ?cfg ?es] by simp
qed

end
