(* ===== verification/AlsaSource.thy ===== *)
theory AlsaSource
  imports LineSense
begin

text \<open>
  The capture thread itself, \<^verbatim>\<open>AlsaSource::run\<close>, \<^verbatim>\<open>start\<close> and \<^verbatim>\<open>stop\<close> of
  \<^verbatim>\<open>src/src/alsa_source.cpp\<close>: what is sent with which timestamp, and how the thread object ends.
  ALSA's answers, the clock and the role's answers are inputs. The frame counter is the source's
  \<^verbatim>\<open>uint64_t\<close> and wraps.
\<close>

section \<open>The capture loop\<close>

record capture =
  cp_sense :: line_sense
  cp_have_anchor :: bool
  cp_was_active :: bool
  cp_anchor_us :: int
  cp_frames :: u64

definition new_capture :: "sense_config \<Rightarrow> capture" where
  "new_capture cfg = \<lparr>cp_sense = new_line_sense (sc_enabled cfg), cp_have_anchor = False, cp_was_active = False,
     cp_anchor_us = 0, cp_frames = 0\<rparr>"

text \<open>
  One turn of the loop: an overrun, another error and whether \<^verbatim>\<open>snd_pcm_recover\<close> mended it, nothing,
  or a block - when it was read on the sense clock, its samples per channel, its samples, whether the
  role streams, the clock after it, and whether the role took it.
\<close>

record block =
  bk_sense_now :: int
  bk_frames :: nat
  bk_samples :: "16 word list"
  bk_streaming :: bool
  bk_now_us :: int
  bk_taken :: bool

datatype capture_read = Overrun | ReadFailed bool | NothingRead | BlockRead block

definition no_anchor :: "capture \<Rightarrow> capture" where
  "no_anchor c = c\<lparr>cp_have_anchor := False, cp_frames := 0\<rparr>"

definition duration_us :: "nat \<Rightarrow> u32 \<Rightarrow> int" where
  "duration_us frames rate = int frames * 1000000 div int (unat rate)"

definition elapsed_us :: "u64 \<Rightarrow> u32 \<Rightarrow> int" where
  "elapsed_us frames rate = int (unat ((frames * 1000000) div ucast rate))"

text \<open>One block: the next state and, when it is sent, its timestamp.\<close>

definition capture_block :: "sense_config \<Rightarrow> u32 \<Rightarrow> block \<Rightarrow> capture \<Rightarrow> capture \<times> int option" where
  "capture_block cfg rate b c0 =
     (let c = (if sc_enabled cfg
               then c0\<lparr>cp_sense := set_signal_from_pcm cfg (bk_sense_now b) (bk_samples b) (cp_sense c0)\<rparr> else c0)
      in if \<not> bk_streaming b then ((no_anchor c)\<lparr>cp_was_active := False\<rparr>, None)
      else
        (let c1 = (if \<not> cp_was_active c \<or> \<not> cp_have_anchor c
                   then c\<lparr>cp_anchor_us := bk_now_us b - duration_us (bk_frames b) rate, cp_frames := 0, cp_have_anchor := True\<rparr>
                   else c);
             c2 = c1\<lparr>cp_was_active := True\<rparr>;
             first_sample_us = cp_anchor_us c2 + elapsed_us (cp_frames c2) rate
         in (if bk_taken b then c2\<lparr>cp_frames := cp_frames c2 + of_nat (bk_frames b)\<rparr> else no_anchor c2,
             Some first_sample_us)))"

text \<open>The loop: every block offered to the role, and whether a failed recovery ended it.\<close>

fun capture_loop ::
  "sense_config \<Rightarrow> u32 \<Rightarrow> capture_read list \<Rightarrow> capture \<Rightarrow> capture \<times> (int \<times> block) list \<times> bool"
where
  "capture_loop cfg rate [] c = (c, [], False)"
| "capture_loop cfg rate (Overrun # reads) c = capture_loop cfg rate reads (no_anchor c)"
| "capture_loop cfg rate (ReadFailed mended # reads) c =
     (if mended then capture_loop cfg rate reads (no_anchor c) else (c, [], True))"
| "capture_loop cfg rate (NothingRead # reads) c = capture_loop cfg rate reads c"
| "capture_loop cfg rate (BlockRead b # reads) c =
     (if bk_frames b = 0 then capture_loop cfg rate reads c
      else
        (let (c', stamp) = capture_block cfg rate b c;
             (c'', sent, ended) = capture_loop cfg rate reads c'
         in (c'', (case stamp of None \<Rightarrow> sent | Some t \<Rightarrow> (t, b) # sent), ended)))"

text \<open>
  The reference. A block continues the stretch before it when nothing but delivered blocks (and empty
  reads) lie between it and the stretch's first block.
\<close>

fun stretch :: "capture_read list \<Rightarrow> block list" where
  "stretch [] = []"
| "stretch (NothingRead # older) = stretch older"
| "stretch (BlockRead b # older) =
     (if bk_frames b = 0 then stretch older else if bk_streaming b \<and> bk_taken b then b # stretch older else [])"
| "stretch (_ # older) = []"

definition total_frames :: "block list \<Rightarrow> nat" where
  "total_frames bs = sum_list (map bk_frames bs)"

text \<open>The time of a stretch's first sample: when its first block ended, less that block's duration.\<close>

definition stretch_start :: "u32 \<Rightarrow> block list \<Rightarrow> int" where
  "stretch_start rate bs = bk_now_us (last bs) - duration_us (bk_frames (last bs)) rate"

definition stamp_of :: "u32 \<Rightarrow> block \<Rightarrow> block list \<Rightarrow> int" where
  "stamp_of rate b before =
     stretch_start rate (b # before) + duration_us (total_frames before) rate"

fun stamped :: "u32 \<Rightarrow> capture_read list \<Rightarrow> (int \<times> block) list" where
  "stamped rate [] = []"
| "stamped rate (BlockRead b # older) =
     (if bk_frames b \<noteq> 0 \<and> bk_streaming b then (stamp_of rate b (stretch older), b) # stamped rate older
      else stamped rate older)"
| "stamped rate (_ # older) = stamped rate older"

definition going_on :: "capture_read \<Rightarrow> bool" where
  "going_on r = (case r of ReadFailed mended \<Rightarrow> mended | _ \<Rightarrow> True)"

definition capture_ok :: "u32 \<Rightarrow> capture_read list \<Rightarrow> capture \<Rightarrow> bool" where
  "capture_ok rate past c \<longleftrightarrow>
     cp_have_anchor c = (stretch past \<noteq> []) \<and> (cp_have_anchor c \<longrightarrow> cp_was_active c)
     \<and> (stretch past \<noteq> [] \<longrightarrow> cp_anchor_us c = stretch_start rate (stretch past)
           \<and> cp_frames c = of_nat (total_frames (stretch past)))"

fun read_frames :: "capture_read list \<Rightarrow> nat" where
  "read_frames [] = 0"
| "read_frames (BlockRead b # reads) = bk_frames b + read_frames reads"
| "read_frames (_ # reads) = read_frames reads"

lemma read_frames_append [simp]: "read_frames (xs @ ys) = read_frames xs + read_frames ys"
  by (induction xs rule: read_frames.induct) simp_all

lemma stretch_within: "total_frames (stretch past) \<le> read_frames past"
  by (induction past rule: stretch.induct) (auto simp: total_frames_def)

lemma capture_ok_stop: "stretch past = [] \<Longrightarrow> \<not> cp_have_anchor c \<Longrightarrow> capture_ok rate past c"
  by (simp add: capture_ok_def)

lemma elapsed_is_duration:
  assumes "n * 1000000 < 2 ^ 64"
  shows "elapsed_us (of_nat n) rate = duration_us n rate"
proof -
  have "unat (of_nat n * 1000000 :: u64) = n * 1000000"
    using assms by (simp add: unat_word_ariths unat_of_nat take_bit_eq_mod mod_mult_left_eq)
  moreover have "unat (ucast rate :: u64) = unat rate" by (rule unat_u64_of_u32)
  ultimately show ?thesis by (simp add: elapsed_us_def duration_us_def unat_div zdiv_int)
qed

lemma capture_block_ok:
  assumes ok: "capture_ok rate past c" and few: "(bk_frames b + read_frames past) * 1000000 < 2 ^ 64"
    and some: "bk_frames b \<noteq> 0" and step: "capture_block cfg rate b c = (c', stamp)"
  shows "capture_ok rate (BlockRead b # past) c'
    \<and> stamp = (if bk_streaming b then Some (stamp_of rate b (stretch past)) else None)"
proof (cases "bk_streaming b")
  case False
  then show ?thesis using step some
    by (auto simp: capture_block_def Let_def no_anchor_def capture_ok_def)
next
  case True
  have few': "total_frames (stretch past) * 1000000 < 2 ^ 64"
    using stretch_within [of past] few by (simp add: order.strict_trans1 [of _ "(bk_frames b + read_frames past) * 1000000"])
  show ?thesis
  proof (cases "stretch past = []")
    case None: True
    then have "\<not> cp_have_anchor c" using ok by (simp add: capture_ok_def)
    then show ?thesis using step some True None
      by (auto simp: capture_block_def Let_def no_anchor_def capture_ok_def stamp_of_def stretch_start_def
          total_frames_def duration_us_def elapsed_us_def)
  next
    case False
    then have c: "cp_have_anchor c" "cp_was_active c" "cp_anchor_us c = stretch_start rate (stretch past)"
      "cp_frames c = of_nat (total_frames (stretch past))"
      using ok by (simp_all add: capture_ok_def)
    have e: "elapsed_us (of_nat (total_frames (stretch past))) rate = duration_us (total_frames (stretch past)) rate"
      by (rule elapsed_is_duration [OF few'])
    show ?thesis using step some True False c e
      by (auto simp: capture_block_def Let_def no_anchor_def capture_ok_def stamp_of_def stretch_start_def
          total_frames_def add.commute)
  qed
qed

lemma capture_loop_stamps:
  assumes "capture_ok rate past c" "read_frames (reads @ past) * 1000000 < 2 ^ 64"
    "capture_loop cfg rate reads c = (c', sent, ended)"
  shows "rev (stamped rate (rev (takeWhile going_on reads) @ past)) = rev (stamped rate past) @ sent
    \<and> ended = (\<exists>r \<in> set reads. \<not> going_on r)"
  using assms
proof (induction reads arbitrary: c past sent c' ended)
  case (Cons r reads)
  have few: "read_frames (reads @ r # past) * 1000000 < 2 ^ 64"
    using Cons.prems(2) by (cases r) (simp_all add: add_ac)
  show ?case
  proof (cases r)
    case Overrun
    have "capture_ok rate (r # past) (no_anchor c)" by (simp add: capture_ok_stop Overrun no_anchor_def)
    from Cons.IH [OF this few] show ?thesis using Cons.prems(3) Overrun by (simp add: going_on_def)
  next
    case (ReadFailed mended)
    have "capture_ok rate (r # past) (no_anchor c)" by (simp add: capture_ok_stop ReadFailed no_anchor_def)
    from Cons.IH [OF this few] show ?thesis using Cons.prems(3) ReadFailed by (cases mended) (simp_all add: going_on_def)
  next
    case NothingRead
    have "capture_ok rate (r # past) c" using Cons.prems(1) NothingRead by (simp add: capture_ok_def)
    from Cons.IH [OF this few] show ?thesis using Cons.prems(3) NothingRead by (simp add: going_on_def)
  next
    case (BlockRead b)
    show ?thesis
    proof (cases "bk_frames b = 0")
      case True
      have "capture_ok rate (r # past) c" using Cons.prems(1) BlockRead True by (simp add: capture_ok_def)
      from Cons.IH [OF this few] show ?thesis using Cons.prems(3) BlockRead True by (simp add: going_on_def)
    next
      case False
      obtain c1 stamp where s: "capture_block cfg rate b c = (c1, stamp)" by fastforce
      obtain c2 sent' e where l: "capture_loop cfg rate reads c1 = (c2, sent', e)" by (metis prod_cases3)
      have b: "capture_ok rate (r # past) c1" "stamp = (if bk_streaming b then Some (stamp_of rate b (stretch past)) else None)"
        using capture_block_ok [OF Cons.prems(1) _ False s] Cons.prems(2) BlockRead by simp_all
      show ?thesis using Cons.IH [OF b(1) few l] Cons.prems(3) BlockRead False s l b(2)
        by (cases "bk_streaming b") (auto simp: going_on_def)
    qed
  qed
qed simp

text \<open>
  C33. Capture timestamps do not drift. As long as the frames read since the start stay under
  \<open>2\<^sup>6\<^sup>4 / 10\<^sup>6\<close> (twelve years at 48 kHz), each block offered to the role carries the time its
  stretch began plus the duration of exactly the frames delivered before it in that stretch: the
  clock is read once per stretch, whatever the reads' jitter. A stretch is ended by an overrun, a
  recovered error, a pause of the stream or a block the role refused, and by nothing else; a device
  that cannot be recovered ends the loop.
\<close>

theorem capture_timestamps_do_not_drift:
  assumes "read_frames reads * 1000000 < 2 ^ 64"
  shows "let (_, sent, ended) = capture_loop cfg rate reads (new_capture cfg) in
     rev sent = stamped rate (rev (takeWhile going_on reads)) \<and> ended = (\<exists>r \<in> set reads. \<not> going_on r)"
proof -
  obtain c sent ended where l: "capture_loop cfg rate reads (new_capture cfg) = (c, sent, ended)"
    by (metis prod_cases3)
  have "capture_ok rate [] (new_capture cfg)" by (simp add: capture_ok_def new_capture_def)
  then show ?thesis using capture_loop_stamps [of rate "[]" "new_capture cfg" reads cfg c sent ended] assms l
    by (simp add: rev_swap)
qed

theorem capture_timestamps_do_not_drift_witness:
  "let block = (\<lambda>now taken. BlockRead \<lparr>bk_sense_now = 0, bk_frames = 960, bk_samples = [], bk_streaming = True,
                 bk_now_us = now, bk_taken = taken\<rparr>);
       cfg = \<lparr>sc_enabled = False, sc_loud = \<lambda>_. False, sc_attack_ms = 0, sc_release_ms = 0\<rparr>;
       reads = [block 20000 True, block 43127 True, block 60001 False, block 90000 True]
   in rev (map fst (fst (snd (capture_loop cfg 48000 reads (new_capture cfg))))) = [70000, 40000, 20000, 0]"
proof -
  let ?block = "\<lambda>now taken. BlockRead \<lparr>bk_sense_now = 0, bk_frames = 960, bk_samples = [], bk_streaming = True,
                 bk_now_us = now, bk_taken = taken\<rparr>"
  let ?cfg = "\<lparr>sc_enabled = False, sc_loud = \<lambda>_. False, sc_attack_ms = 0, sc_release_ms = 0\<rparr>"
  let ?reads = "[?block 20000 True, ?block 43127 True, ?block 60001 False, ?block 90000 True]"
  obtain c sent ended where l: "capture_loop ?cfg 48000 ?reads (new_capture ?cfg) = (c, sent, ended)"
    by (metis prod_cases3)
  have "rev sent = stamped 48000 (rev (takeWhile going_on ?reads))"
    using capture_timestamps_do_not_drift [of ?reads ?cfg 48000] l by simp
  then have "map fst (rev sent) = [70000, 40000, 20000, 0]"
    by (simp add: going_on_def stamp_of_def stretch_start_def total_frames_def duration_us_def)
  then show ?thesis using l by (simp add: rev_map)
qed

section \<open>Opening the capture\<close>

text \<open>
  What ALSA answers: whether the PCM opens, the error of setting the parameters, and what was negotiated -
  rate, channels and format by its name - or the error of asking. The handle's closing is a result.
\<close>

record capture_answers =
  ca_opens :: bool
  ca_params :: "string option"
  ca_negotiated :: "string + u32 \<times> u32 \<times> string"

definition negotiated_mismatch :: "u32 \<Rightarrow> u32 \<Rightarrow> u32 \<Rightarrow> u32 \<Rightarrow> string \<Rightarrow> string" where
  "negotiated_mismatch rate channels actual_rate actual_channels actual_format =
     ''ALSA negotiated '' @ to_string (unat actual_rate) @ '' Hz/'' @ to_string (unat actual_channels) @ '' ch/'' @ actual_format
     @ '', but Sendspin announces '' @ to_string (unat rate) @ '' Hz/'' @ to_string (unat channels)
     @ '' ch/S16_LE; refusing mismatched capture''"

text \<open>The reason of a refusal or the frames of a chunk, and whether the handle is still open.\<close>

definition open_capture :: "string \<Rightarrow> u32 \<Rightarrow> u32 \<Rightarrow> capture_answers \<Rightarrow> (string + u32) \<times> bool" where
  "open_capture dev rate channels a =
     (if \<not> ca_opens a then (Inl (''failed to open ALSA input '' @ dev), False)
      else case ca_params a of
        Some e \<Rightarrow> (Inl (''ALSA input configuration failed: '' @ e), False)
      | None \<Rightarrow>
     (case ca_negotiated a of
        Inl e \<Rightarrow> (Inl (''failed to query negotiated ALSA input format: '' @ e), False)
      | Inr (actual_rate, actual_channels, actual_format) \<Rightarrow>
          if actual_rate \<noteq> rate \<or> actual_channels \<noteq> channels \<or> actual_format \<noteq> ''S16_LE''
          then (Inl (negotiated_mismatch rate channels actual_rate actual_channels actual_format), False)
          else (Inr (max 1 (actual_rate div 50)), True)))"

text \<open>
  Only the announced format is captured, in chunks of 20 ms (a frame at least), and a refusal keeps no handle.
\<close>

lemma capture_is_as_announced:
  assumes "open_capture dev rate channels a = (r, kept)"
  shows "kept = (\<exists>n. r = Inr n)"
    and "r = Inr n \<Longrightarrow> ca_negotiated a = Inr (rate, channels, ''S16_LE'') \<and> unat n = max 1 (unat rate div 50)"
proof -
  show "kept = (\<exists>n. r = Inr n)"
    using assms by (auto simp: open_capture_def split: if_splits option.splits sum.splits prod.splits)
  assume "r = Inr n"
  then have "ca_negotiated a = Inr (rate, channels, ''S16_LE'')" "n = max 1 (rate div 50)"
    using assms by (auto simp: open_capture_def split: if_splits option.splits sum.splits prod.splits)
  then show "ca_negotiated a = Inr (rate, channels, ''S16_LE'') \<and> unat n = max 1 (unat rate div 50)"
    by (simp add: max_def word_le_nat_alt unat_div)
qed

section \<open>The thread's lifetime\<close>

text \<open>
  The flag \<^verbatim>\<open>running_\<close>, whether the \<^verbatim>\<open>std::thread\<close> object is joinable, whether the thread still
  executes, and whether \<^verbatim>\<open>std::terminate\<close> was called: by assigning to or destroying a joinable thread.
\<close>

record source_thread =
  st_running :: bool
  st_joinable :: bool
  st_alive :: bool
  st_aborted :: bool

definition new_source_thread :: source_thread where
  "new_source_thread = \<lparr>st_running = False, st_joinable = False, st_alive = False, st_aborted = False\<rparr>"

definition source_start :: "source_thread \<Rightarrow> source_thread" where
  "source_start t =
     (if st_running t then t
      else t\<lparr>st_running := True, st_aborted := st_aborted t \<or> st_joinable t, st_joinable := True, st_alive := True\<rparr>)"

text \<open>\<^verbatim>\<open>join\<close> returns once the thread has left its loop.\<close>

definition source_stop :: "source_thread \<Rightarrow> source_thread" where
  "source_stop t =
     (if \<not> st_running t then t
      else if st_joinable t then t\<lparr>st_running := False, st_joinable := False, st_alive := False\<rparr>
      else t\<lparr>st_running := False\<rparr>)"

text \<open>The destructor: \<^verbatim>\<open>stop\<close>, then the members, of them the thread object.\<close>

definition source_destroy :: "source_thread \<Rightarrow> source_thread" where
  "source_destroy t = (let t' = source_stop t in t'\<lparr>st_aborted := st_aborted t' \<or> st_joinable t'\<rparr>)"

text \<open>
  What the thread and its owner do between: the thread gives up before the loop (the device does not
  open, or not with the format announced) and clears the flag; it leaves the loop after a failed
  recovery and does not; the owner stops it.
\<close>

datatype source_event = CaptureRefused | CaptureLost | OwnerStops

fun source_step :: "source_event \<Rightarrow> source_thread \<Rightarrow> source_thread" where
  "source_step CaptureRefused t = (if st_alive t then t\<lparr>st_running := False, st_alive := False\<rparr> else t)"
| "source_step CaptureLost t = (if st_alive t then t\<lparr>st_alive := False\<rparr> else t)"
| "source_step OwnerStops t = source_stop t"

definition source_life :: "source_event list \<Rightarrow> source_thread" where
  "source_life es = source_destroy (fold source_step es (source_start new_source_thread))"

lemma source_steps_over:
  "\<not> st_alive t \<Longrightarrow> \<not> st_running t \<Longrightarrow> fold source_step es t = t"
proof (induction es)
  case (Cons e es)
  then show ?case by (cases e) (simp_all add: source_stop_def)
qed simp

lemma source_steps_lost:
  "\<not> st_alive t \<Longrightarrow> st_running t \<Longrightarrow> st_joinable t \<Longrightarrow> \<not> st_aborted t \<Longrightarrow>
    \<not> st_aborted (source_destroy (fold source_step es t))"
proof (induction es)
  case (Cons e es)
  then show ?case
    by (cases e) (simp_all add: source_stop_def source_steps_over source_destroy_def)
qed (simp add: source_destroy_def source_stop_def)

lemma source_life_aborts:
  "st_aborted (source_life es) = (case es of CaptureRefused # _ \<Rightarrow> True | _ \<Rightarrow> False)"
proof (cases es)
  case Nil
  then show ?thesis by (simp add: source_life_def source_destroy_def source_stop_def source_start_def new_source_thread_def)
next
  case (Cons e es')
  let ?t = "source_start new_source_thread"
  have t: "st_alive ?t" "st_running ?t" "st_joinable ?t" "\<not> st_aborted ?t"
    by (simp_all add: source_start_def new_source_thread_def)
  show ?thesis
  proof (cases e)
    case CaptureRefused
    then show ?thesis using Cons t by (simp add: source_life_def source_steps_over source_destroy_def source_stop_def)
  next
    case CaptureLost
    then show ?thesis using Cons t by (simp add: source_life_def source_steps_lost)
  next
    case OwnerStops
    then show ?thesis using Cons t by (simp add: source_life_def source_steps_over source_destroy_def source_stop_def)
  qed
qed

text \<open>A capture that was never started has no thread to destroy.\<close>

lemma idle_source_ends: "\<not> st_aborted (source_destroy (fold source_step es new_source_thread))"
  by (simp add: source_steps_over new_source_thread_def source_destroy_def source_stop_def)

text \<open>
  C40. How a capture ends. The process is aborted at shutdown exactly when the device was refused
  first: the thread then clears the flag the owner's \<^verbatim>\<open>stop\<close> looks at, so \<^verbatim>\<open>stop\<close> returns
  without joining and the destructor meets a joinable thread. A capture that was stopped, or lost its
  device inside the loop, ends cleanly.
\<close>

theorem failed_capture_aborts_shutdown:
  "st_aborted (source_life es) = (case es of CaptureRefused # _ \<Rightarrow> True | _ \<Rightarrow> False)"
  by (rule source_life_aborts)

end
