(* ===== verification/RampStream.thy ===== *)
theory RampStream
  imports PcmVolume
begin

text \<open>
  Gains of consecutive buffers. A ramp that is continued from the gain the last buffer ended at is one
  ramp over both, frame by frame; the sinks rest on this when they take a buffer in parts. The facts
  here are about the reference \<open>frame_gains\<close> of \<open>PcmVolume\<close>, the gain of each frame.
\<close>

lemma length_scale_frames [simp]: "length (scale_frames bps bpf gs bytes) = length bytes"
  by (induction gs arbitrary: bytes) simp_all

lemma scale_frames_append:
  "length a = length gs * bpf \<Longrightarrow>
     scale_frames bps bpf (gs @ hs) (a @ b) = scale_frames bps bpf gs a @ scale_frames bps bpf hs b"
proof (induction gs arbitrary: a)
  case (Cons g gs)
  then have "length (drop bpf a) = length gs * bpf" "bpf \<le> length a" by simp_all
  then show ?case using Cons.IH [of "drop bpf a"] by simp
qed simp

lemma scale_frames_take:
  assumes "n \<le> length gs" "length gs * bpf \<le> length bytes"
  shows "take (n * bpf) (scale_frames bps bpf gs bytes) = scale_frames bps bpf (take n gs) (take (n * bpf) bytes)"
proof -
  have l: "length (take (n * bpf) bytes) = length (take n gs) * bpf"
    using assms le_trans [OF mult_le_mono1 [OF assms(1), of bpf] assms(2)] by simp
  show ?thesis using scale_frames_append [OF l, of bps "drop n gs" "drop (n * bpf) bytes"] l assms by simp
qed

lemma frame_gains_add:
  "frame_gains c t step (n + m) = frame_gains c t step n @ frame_gains (last (c # frame_gains c t step n)) t step m"
  by (induction n arbitrary: c) (simp_all add: Let_def)

lemma frame_gains_last:
  assumes "n < 2 ^ 64" "n \<noteq> 0"
  shows "last (c # frame_gains c t step n) = ramped_gain c t step (of_nat n)"
proof -
  have "last (c # frame_gains c t step n) = frame_gains c t step n ! (n - 1)"
    using assms(2) by (metis last_ConsR last_conv_nth length_frame_gains list.size(3))
  then show ?thesis using frame_gains_nth [of "n - 1" n c t step] assms by simp
qed

lemma ramp_is_frame_gains:
  assumes "w \<noteq> 0" "channels \<noteq> 0" "length bytes < 2 ^ 64"
  shows "fst (apply_volume_ramp bytes w channels c t step) =
    scale_frames (unat w) (unat w * unat channels)
      (frame_gains c t step (length bytes div (unat w * unat channels))) bytes"
proof -
  let ?n = "length bytes div (unat w * unat channels)"
  have "?n < 2 ^ 64" using assms(3) div_le_dividend [of "length bytes" "unat w * unat channels"] by linarith
  then have "frame_gains c t step ?n = map (\<lambda>k. ramped_gain c t step (of_nat (Suc k))) [0..<?n]"
    by (intro nth_equalityI) (simp_all add: frame_gains_nth del: of_nat_Suc)
  then show ?thesis using apply_volume_ramp_spec [OF assms refl, of c t step] by simp
qed

text \<open>Silence: every sample scaled by nothing is zero.\<close>

lemma le_bytes_zero: "le_bytes n 0 = replicate n 0"
  by (induction n) simp_all

lemma scale_samples_zero: "0 < n \<Longrightarrow> n dvd length bs \<Longrightarrow> scale_samples n 0 bs = replicate (length bs) 0"
proof (induction n "0 :: u64" bs rule: scale_samples.induct)
  case (1 n bs)
  show ?case
  proof (cases "length bs < n")
    case True
    then have "bs = []" using 1(2,3) by (auto dest: dvd_imp_le)
    then show ?thesis using 1(2) by (simp add: scale_samples.simps [of n 0 "[]"])
  next
    case False
    then have "n dvd length (drop n bs)" using 1(3) by (simp add: dvd_diff_nat)
    then have "scale_samples n 0 (drop n bs) = replicate (length bs - n) 0" using 1 False by simp
    then show ?thesis using False 1(2)
      by (simp add: scale_samples.simps [of n 0 bs] le_bytes_zero replicate_add [symmetric])
  qed
qed

lemma silence_is_zero_gain:
  assumes "bps \<in> {1, 2, 3, 4}" "bps dvd bpf" "length bytes = n * bpf"
  shows "scale_frames bps bpf (replicate n 0) bytes = replicate (length bytes) 0"
proof -
  have "bps dvd length bytes" using assms(2,3) by simp
  then have "scale_samples bps 0 bytes = replicate (length bytes) 0" using assms(1) by (intro scale_samples_zero) auto
  then show ?thesis
    using scale_frames_steady [of bpf bps n bytes 0] assms by (simp add: apply_volume_eq dvd_imp_mod_0)
qed

lemma unity_is_identity:
  assumes "bps dvd bpf" "length bytes = n * bpf"
  shows "scale_frames bps bpf (replicate n Q32_ONE) bytes = bytes"
  using scale_frames_steady [of bpf bps n bytes Q32_ONE] assms by (simp add: dvd_imp_mod_0)

text \<open>No gain differs from the one before it by more than a step, and none leaves \<open>0 .. limit\<close>.\<close>

fun smooth :: "u64 \<Rightarrow> u64 list \<Rightarrow> bool" where
  "smooth step (a # b # gs) = (unat a \<le> unat b + unat step \<and> unat b \<le> unat a + unat step \<and> smooth step (b # gs))"
| "smooth step _ = True"

lemma smooth_append:
  "smooth step (a # gs) \<Longrightarrow> smooth step (last (a # gs) # hs) \<Longrightarrow> smooth step (a # gs @ hs)"
  by (induction gs arbitrary: a) simp_all

lemma ramp_to_step: "(c :: nat) \<le> ramp_to c t d + d \<and> ramp_to c t d \<le> c + d"
  by (auto simp: ramp_to_def)

lemma frame_gains_smooth: "step \<noteq> 0 \<Longrightarrow> smooth step (c # frame_gains c t step n)"
proof (induction n arbitrary: c)
  case (Suc n)
  then show ?case
    using ramp_to_step [of "unat c" "unat t" "unat step"] by (simp add: Let_def unat_ramped_gain add.commute)
qed simp

lemma ramped_gain_limit:
  assumes "c \<le> limit" "t \<le> limit"
  shows "ramped_gain c t step n \<le> limit"
proof (cases "step = 0")
  case False
  then show ?thesis using unat_ramped_gain [OF False, of c t n] ramp_to_between [of "unat c" "unat t" "unat n * unat step"] assms
    by (simp add: word_le_nat_alt max_def split: if_splits)
qed (use assms in \<open>simp add: ramped_gain_def\<close>)

lemma frame_gains_limit: "c \<le> limit \<Longrightarrow> t \<le> limit \<Longrightarrow> list_all (\<lambda>g. g \<le> limit) (frame_gains c t step n)"
  by (induction n arbitrary: c) (simp_all add: Let_def ramped_gain_limit)

end
