(* ===== verification/SinkContract.thy ===== *)
theory SinkContract
  imports Prelude
begin

text \<open>
  The contract of \<^verbatim>\<open>AudioSink::write\<close> in \<^verbatim>\<open>src/src/audio_sink.h\<close>, as the sync task relies on it:
  a write consumes at most what it is offered, and whole frames when it is offered whole frames. The
  sync task itself is not part of this repository; \<open>sink_feed\<close> is what the contract lets it do, and the
  lemma of the locale is what it may rely on over a whole stream. Each backend is an interpretation.
\<close>

text \<open>
  A stream fed in writes of at most so many frames each, every write offered what the one before left.
  \<open>None\<close> is a write that does not return.
\<close>

fun sink_feed ::
  "('e \<Rightarrow> u8 list \<Rightarrow> 's \<Rightarrow> (nat \<times> 's) option) \<Rightarrow> nat \<Rightarrow> ('e \<times> nat) list \<Rightarrow> u8 list \<Rightarrow> 's \<Rightarrow> (nat \<times> 's) option"
where
  "sink_feed write frame [] stream s = Some (0, s)"
| "sink_feed write frame ((e, frames) # offers) stream s =
     (case write e (take (frames * frame) stream) s of
        None \<Rightarrow> None
      | Some (n, s') \<Rightarrow>
          (case sink_feed write frame offers (drop n stream) s' of
             None \<Rightarrow> None | Some (m, s'') \<Rightarrow> Some (n + m, s'')))"

locale audio_sink =
  fixes put :: "'e \<Rightarrow> u8 list \<Rightarrow> 's \<Rightarrow> (nat \<times> 's) option"
    and lawful :: "'e \<Rightarrow> bool"
    and inv_sink :: "'s \<Rightarrow> bool"
    and frame :: "'s \<Rightarrow> nat"
  assumes put_within: "inv_sink s \<Longrightarrow> lawful e \<Longrightarrow> put e data s = Some (n, s') \<Longrightarrow> n \<le> length data"
    and put_frames: "inv_sink s \<Longrightarrow> lawful e \<Longrightarrow> put e data s = Some (n, s') \<Longrightarrow> frame s dvd length data \<Longrightarrow> frame s dvd n"
    and put_keeps: "inv_sink s \<Longrightarrow> lawful e \<Longrightarrow> put e data s = Some (n, s') \<Longrightarrow> inv_sink s' \<and> frame s' = frame s"
begin

lemma feed_whole_frames:
  "inv_sink s \<Longrightarrow> list_all (lawful \<circ> fst) offers \<Longrightarrow> frame s dvd length stream \<Longrightarrow>
     sink_feed put (frame s) offers stream s = Some (n, s') \<Longrightarrow>
     n \<le> length stream \<and> frame s dvd n \<and> inv_sink s' \<and> frame s' = frame s"
proof (induction offers arbitrary: s stream n)
  case (Cons offer offers)
  obtain e k where o': "offer = (e, k)" by fastforce
  then obtain m s1 l where w: "put e (take (k * frame s) stream) s = Some (m, s1)"
    and f: "sink_feed put (frame s) offers (drop m stream) s1 = Some (l, s')" and n: "n = m + l"
    using Cons.prems(4) by (auto split: option.splits)
  have e: "lawful e" using Cons.prems(2) o' by simp
  have d: "frame s dvd length (take (k * frame s) stream)" using Cons.prems(3) by (simp add: min_def)
  note here = put_within [OF Cons.prems(1) e w] put_frames [OF Cons.prems(1) e w d] put_keeps [OF Cons.prems(1) e w]
  have "frame s1 dvd length (drop m stream)" using here Cons.prems(3) by (simp add: dvd_diff_nat)
  from Cons.IH [OF _ _ this] have "l \<le> length (drop m stream) \<and> frame s dvd l \<and> inv_sink s' \<and> frame s' = frame s"
    using here Cons.prems(2) f by simp
  then show ?case using here n by (auto simp: le_diff_conv2 add.commute)
qed simp

end

end
