(* ===== verification/AlsaSink.thy ===== *)
theory AlsaSink
  imports RampStream AudioTypes SinkContract
begin

text \<open>
  \<^verbatim>\<open>src/src/alsa_sink.{h,cpp}\<close>: the sink that plays through an ALSA PCM. What libasound, the clock
  and the C library's volume curve answer is an input of each operation; what the device was given is a
  result of it. The deadline of a write appears as what the clock says at each check of it. The mutex
  makes each operation one step; only the stop flag can change inside a write, and does so per turn.
\<close>

section \<open>Definitions\<close>

definition PERIODS_PER_BUFFER :: u32 where "PERIODS_PER_BUFFER = 5"
definition RESUME_TRIES :: nat where "RESUME_TRIES = 10"

datatype alsa_format = S8 | S16_LE | S24_3LE | S32_LE

definition PROBE_FORMATS :: "alsa_format list" where "PROBE_FORMATS = [S8, S16_LE, S24_3LE, S32_LE]"

definition alsa_format_for :: "u8 \<Rightarrow> alsa_format option" where
  "alsa_format_for bits_per_sample = map_of (zip PROBE_BIT_DEPTHS PROBE_FORMATS) bits_per_sample"

text \<open>What one PCM will take: what \<^verbatim>\<open>snd_pcm_open\<close> and the configuration space answer.\<close>

datatype alsa_open = AlsaOpened | AlsaBusy | AlsaCannotOpen string

record alsa_pcm =
  ap_open :: alsa_open
  ap_interleaved :: bool
  ap_rate :: "u32 \<Rightarrow> bool"
  ap_format :: "alsa_format \<Rightarrow> bool"
  ap_channels :: "u8 \<Rightarrow> bool"

datatype probe_status = ProbeOk | ProbeBusy | ProbeCannotOpen string | ProbeNoInterleaved

definition no_capabilities :: sink_capabilities where
  "no_capabilities = \<lparr>cap_rates = [], cap_bit_depths = [], cap_channels = []\<rparr>"

definition probe_capabilities :: "alsa_pcm \<Rightarrow> probe_status \<times> sink_capabilities" where
  "probe_capabilities pcm =
     (case ap_open pcm of
        AlsaBusy \<Rightarrow> (ProbeBusy, no_capabilities)
      | AlsaCannotOpen e \<Rightarrow> (ProbeCannotOpen e, no_capabilities)
      | AlsaOpened \<Rightarrow>
          if \<not> ap_interleaved pcm then (ProbeNoInterleaved, no_capabilities)
          else (ProbeOk,
            \<lparr>cap_rates = filter (ap_rate pcm) PROBE_RATES,
             cap_bit_depths = map fst (filter (\<lambda>(_, f). ap_format pcm f) (zip PROBE_BIT_DEPTHS PROBE_FORMATS)),
             cap_channels = filter (ap_channels pcm) PROBE_CHANNELS\<rparr>))"

definition alsa_capabilities :: "alsa_pcm \<Rightarrow> sink_capabilities" where
  "alsa_capabilities pcm =
     (case probe_capabilities pcm of (ProbeOk, caps) \<Rightarrow> caps | (_, _) \<Rightarrow> permissive)"

definition alsa_probe :: "string \<Rightarrow> alsa_open \<Rightarrow> string option" where
  "alsa_probe device opened =
     (case opened of AlsaOpened \<Rightarrow> None | AlsaBusy \<Rightarrow> None
      | AlsaCannotOpen e \<Rightarrow> Some (''cannot open ALSA device '' @ quoted device @ '': '' @ e @
          '' -- run with -l to list this host's PCMs''))"

record alsa_sink =
  as_buffer_ms :: u32
  as_pcm :: bool
  as_rate :: u32
  as_channels :: u8
  as_bits :: u8
  as_frame :: nat
  as_stopping :: bool
  as_failed :: bool
  as_volume :: u8
  as_muted :: bool
  as_target :: u64
  as_current :: u64

definition new_alsa_sink :: "u32 \<Rightarrow> alsa_sink" where
  "new_alsa_sink buffer_ms =
     \<lparr>as_buffer_ms = buffer_ms, as_pcm = False, as_rate = 0, as_channels = 0, as_bits = 0, as_frame = 0,
      as_stopping = False, as_failed = False, as_volume = DEFAULT_SINK_VOLUME, as_muted = False,
      as_target = Q32_ONE, as_current = Q32_ONE\<rparr>"

text \<open>What was done with the handle: opening it (and whether that worked), any other call, closing it.\<close>

datatype pcm_call = PcmOpen bool | PcmUse | PcmClose

definition close_device :: "alsa_sink \<Rightarrow> alsa_sink \<times> pcm_call list" where
  "close_device s =
     (if \<not> as_pcm s then (s, [])
      else (s\<lparr>as_pcm := False, as_rate := 0, as_channels := 0, as_bits := 0, as_frame := 0\<rparr>, [PcmClose]))"

text \<open>The hardware parameters in the order they are asked for, and the software ones after them.\<close>

datatype hw_step =
  HwDefaults
| HwAccess
| HwFormat alsa_format
| HwChannels u8
| HwRate u32
| HwBufferTime u32
| HwPeriodTime u32
| HwParams

datatype sw_step = SwCurrent | SwStartThreshold nat | SwAvailMin nat | SwParams

definition hw_steps :: "u32 \<Rightarrow> alsa_format \<Rightarrow> u8 \<Rightarrow> u32 \<Rightarrow> hw_step list" where
  "hw_steps buffer_ms format channels rate =
     (let buffer_time_us = buffer_ms * 1000
      in [HwDefaults, HwAccess, HwFormat format, HwChannels channels, HwRate rate, HwBufferTime buffer_time_us,
          HwPeriodTime (buffer_time_us div PERIODS_PER_BUFFER), HwParams])"

definition sw_steps :: "nat \<Rightarrow> sw_step list" where
  "sw_steps period_size = [SwCurrent, SwStartThreshold period_size, SwAvailMin period_size, SwParams]"

text \<open>A device's answers to one opening: a step it takes, the period size if it names one, and prepare.\<close>

record alsa_device =
  ad_open :: bool
  ad_hw :: "hw_step \<Rightarrow> bool"
  ad_period :: "nat option"
  ad_sw :: "sw_step \<Rightarrow> bool"
  ad_prepare :: bool

text \<open>The calls up to and with the first refusal.\<close>

definition until_refused :: "('a \<Rightarrow> bool) \<Rightarrow> 'a list \<Rightarrow> pcm_call list" where
  "until_refused takes steps = map (\<lambda>_. PcmUse) (takeWhile takes steps @ take 1 (dropWhile takes steps))"

definition open_device :: "alsa_device \<Rightarrow> u32 \<Rightarrow> u8 \<Rightarrow> u8 \<Rightarrow> alsa_sink \<Rightarrow> bool \<times> alsa_sink \<times> pcm_call list" where
  "open_device d rate channels bits s =
     (case alsa_format_for bits of
        None \<Rightarrow> (False, s, [])
      | Some format \<Rightarrow>
          if channels = 0 \<or> rate = 0 then (False, s, [])
          else if \<not> ad_open d then (False, s\<lparr>as_pcm := False\<rparr>, [PcmOpen False])
          else
            (let s1 = s\<lparr>as_pcm := True\<rparr>;
                 hw = hw_steps (as_buffer_ms s) format channels rate;
                 t1 = PcmOpen True # until_refused (ad_hw d) hw;
                 refuse = (\<lambda>t. case close_device s1 of (s', c) \<Rightarrow> (False, s', t @ c))
             in if \<not> list_all (ad_hw d) hw then refuse t1
                else case ad_period d of
                  None \<Rightarrow> refuse (t1 @ [PcmUse, PcmUse])
                | Some period \<Rightarrow>
                    (let t2 = t1 @ [PcmUse, PcmUse]; sw = sw_steps period; t3 = t2 @ until_refused (ad_sw d) sw
                     in if period = 0 then refuse t2
                        else if \<not> list_all (ad_sw d) sw then refuse t3
                        else if \<not> ad_prepare d then refuse (t3 @ [PcmUse])
                        else (True,
                              s1\<lparr>as_rate := rate, as_channels := channels, as_bits := bits,
                                 as_frame := unat channels * (unat bits div 8), as_failed := False\<rparr>,
                              t3 @ [PcmUse]))))"

text \<open>Errors of a PCM call, and what mending one is answered.\<close>

datatype alsa_error = EINTR | EAGAIN | EPIPE | ESTRPIPE | OtherError

datatype resume_answer = ResumeAgain | Resumed | ResumeFailed

text \<open>
  The tries of \<^verbatim>\<open>snd_pcm_resume\<close>, each a call with its answer, and whether one resumed the stream.
  Like the functions below it gives the calls made on the handle with what came of them.
\<close>

fun resume_loop :: "nat \<Rightarrow> (nat \<Rightarrow> resume_answer) \<Rightarrow> pcm_call list \<times> bool" where
  "resume_loop 0 answers = ([], False)"
| "resume_loop (Suc left) answers =
     (case answers (RESUME_TRIES - Suc left) of
        ResumeAgain \<Rightarrow> (case resume_loop left answers of (calls, ok) \<Rightarrow> (PcmUse # calls, ok))
      | Resumed \<Rightarrow> ([PcmUse], True)
      | ResumeFailed \<Rightarrow> ([PcmUse], False))"

definition alsa_recover :: "bool \<Rightarrow> (nat \<Rightarrow> resume_answer) \<Rightarrow> alsa_error \<Rightarrow> pcm_call list \<times> bool" where
  "alsa_recover prepared resumes err =
     (case err of EINTR \<Rightarrow> ([], True) | EAGAIN \<Rightarrow> ([], True) | EPIPE \<Rightarrow> ([PcmUse], prepared)
      | ESTRPIPE \<Rightarrow>
          (case resume_loop RESUME_TRIES resumes of (tries, resumed) \<Rightarrow>
             if resumed then (tries, True) else (tries @ [PcmUse], prepared))
      | OtherError \<Rightarrow> ([], False))"

text \<open>
  One turn of the write loop: the stop flag and whether the deadline has passed when it starts, what
  \<^verbatim>\<open>snd_pcm_avail_update\<close> says, the time left and the outcome of \<^verbatim>\<open>snd_pcm_wait\<close> when there is no
  room, what \<^verbatim>\<open>snd_pcm_writei\<close> takes of a chunk, and the answers to mending an error.
\<close>

record alsa_turn =
  tu_stopping :: bool
  tu_late :: bool
  tu_avail :: "nat + alsa_error"
  tu_left_ms :: int
  tu_wait :: "alsa_error option"
  tu_writei :: "nat \<Rightarrow> nat + alsa_error"
  tu_prepared :: bool
  tu_resumes :: "nat \<Rightarrow> resume_answer"

definition mended :: "alsa_turn \<Rightarrow> alsa_error \<Rightarrow> pcm_call list \<times> bool" where
  "mended t = alsa_recover (tu_prepared t) (tu_resumes t)"

text \<open>
  The body of the loop: its calls, and the frames done after it, or \<open>None\<close> when it breaks out. The calls
  are \<^verbatim>\<open>snd_pcm_avail_update\<close>, then \<^verbatim>\<open>snd_pcm_wait\<close> or \<^verbatim>\<open>snd_pcm_writei\<close>, then those of a recovery.
\<close>

definition alsa_turn_step :: "alsa_turn \<Rightarrow> bool \<Rightarrow> nat \<Rightarrow> nat \<Rightarrow> pcm_call list \<times> nat option" where
  "alsa_turn_step t first_pass frames_total frames_done =
     (let retry = (\<lambda>calls e. case mended t e of (mending, ok) \<Rightarrow> (calls @ mending, if ok then Some frames_done else None)) in
      if tu_stopping t then ([], None)
      else if \<not> first_pass \<and> tu_late t then ([], None)
      else case tu_avail t of
        Inr e \<Rightarrow> retry [PcmUse] e
      | Inl avail \<Rightarrow>
          if avail = 0
          then (if tu_left_ms t \<le> 0 then ([PcmUse], None)
                else case tu_wait t of None \<Rightarrow> ([PcmUse, PcmUse], Some frames_done) | Some e \<Rightarrow> retry [PcmUse, PcmUse] e)
          else (case tu_writei t (min (frames_total - frames_done) avail) of
                  Inr e \<Rightarrow> retry [PcmUse, PcmUse] e
                | Inl written \<Rightarrow> ([PcmUse, PcmUse], Some (frames_done + written))))"

text \<open>The calls and the frames done when the loop ends, or \<open>None\<close> while the turns given do not end it.\<close>

fun alsa_write_loop :: "alsa_turn list \<Rightarrow> bool \<Rightarrow> nat \<Rightarrow> nat \<Rightarrow> (pcm_call list \<times> nat) option" where
  "alsa_write_loop [] first_pass frames_total frames_done =
     (if frames_done < frames_total then None else Some ([], frames_done))"
| "alsa_write_loop (t # ts) first_pass frames_total frames_done =
     (if \<not> frames_done < frames_total then Some ([], frames_done)
      else case alsa_turn_step t first_pass frames_total frames_done of
        (calls, None) \<Rightarrow> Some (calls, frames_done)
      | (calls, Some frames_done') \<Rightarrow>
          map_option (\<lambda>(later, n). (calls @ later, n)) (alsa_write_loop ts False frames_total frames_done'))"

text \<open>The volume: what the device is offered for the whole frames of a buffer.\<close>

definition scaled_for :: "alsa_sink \<Rightarrow> u8 list \<Rightarrow> u8 list" where
  "scaled_for s usable =
     (let target = as_target s; start = as_current s; steady = (start = target)
      in if steady \<and> target = Q32_ONE then usable
         else if steady \<and> target = 0 then replicate (length usable) 0
         else fst (apply_volume_ramp usable (as_bits s div 8) (as_channels s) start target (volume_ramp_step (as_rate s))))"

text \<open>
  A write: the bytes consumed, the sink after it, the bytes the device took, the calls made on the handle
  (\<^verbatim>\<open>snd_pcm_delay\<close> last, once frames were taken), and what is reported as played - the frames and when they finish, from the frames \<^verbatim>\<open>snd_pcm_delay\<close> says are still queued.
\<close>

record write_result =
  wr_consumed :: nat
  wr_sink :: alsa_sink
  wr_device :: "u8 list"
  wr_calls :: "pcm_call list"
  wr_played :: "(u32 \<times> int) option"

definition alsa_write ::
  "alsa_turn list \<Rightarrow> nat option \<Rightarrow> int \<Rightarrow> u8 list \<Rightarrow> alsa_sink \<Rightarrow> write_result option"
where
  "alsa_write turns delay now_us data s =
     (if data = [] then Some \<lparr>wr_consumed = 0, wr_sink = s, wr_device = [], wr_calls = [], wr_played = None\<rparr>
      else if \<not> as_pcm s \<or> as_frame s = 0
      then Some \<lparr>wr_consumed = (if as_frame s = 0 then length data else length data - length data mod as_frame s),
                 wr_sink = s\<lparr>as_failed := True\<rparr>, wr_device = [], wr_calls = [], wr_played = None\<rparr>
      else
        (let usable = length data - length data mod as_frame s in
         if usable = 0 then Some \<lparr>wr_consumed = 0, wr_sink = s, wr_device = [], wr_calls = [], wr_played = None\<rparr>
         else case alsa_write_loop turns True (usable div as_frame s) 0 of
           None \<Rightarrow> None
         | Some (calls, frames_done) \<Rightarrow>
             Some \<lparr>wr_consumed = frames_done * as_frame s,
               wr_sink = s\<lparr>as_current := ramped_gain (as_current s) (as_target s) (volume_ramp_step (as_rate s)) (of_nat frames_done)\<rparr>,
               wr_device = take (frames_done * as_frame s) (scaled_for s (take usable data)),
               wr_calls = calls @ (if frames_done > 0 \<and> as_rate s > 0 then [PcmUse] else []),
               wr_played = (if frames_done > 0 \<and> as_rate s > 0
                            then map_option (\<lambda>d. (of_nat frames_done, now_us + int d * 1000000 div int (unat (as_rate s)))) delay
                            else None)\<rparr>))"

definition alsa_configure ::
  "alsa_device \<Rightarrow> bool \<Rightarrow> u32 \<Rightarrow> u8 \<Rightarrow> u8 \<Rightarrow> alsa_sink \<Rightarrow> bool \<times> alsa_sink \<times> pcm_call list"
where
  "alsa_configure d prepared rate channels bits s0 =
     (let s = s0\<lparr>as_current := as_target s0\<rparr>; closed = close_device s in
      if as_pcm s \<and> as_rate s = rate \<and> as_channels s = channels \<and> as_bits s = bits
      then (if prepared then (True, s, [PcmUse, PcmUse])
            else (case open_device d rate channels bits (fst closed) of
                    (ok, s', t) \<Rightarrow> (ok, s', [PcmUse, PcmUse] @ snd closed @ t)))
      else (case open_device d rate channels bits (fst closed) of
              (ok, s', t) \<Rightarrow> (ok, if ok then s' else s'\<lparr>as_failed := True\<rparr>, snd closed @ t)))"

definition alsa_clear :: "alsa_sink \<Rightarrow> alsa_sink \<times> pcm_call list" where
  "alsa_clear s =
     (let s' = s\<lparr>as_current := as_target s\<rparr> in if \<not> as_pcm s then (s', []) else (s', [PcmUse, PcmUse]))"

definition alsa_stop :: "alsa_sink \<Rightarrow> alsa_sink \<times> pcm_call list" where
  "alsa_stop s0 =
     (let s = s0\<lparr>as_stopping := True\<rparr> in
      if \<not> as_pcm s then (s, []) else (case close_device s of (s', t) \<Rightarrow> (s', PcmUse # t)))"

definition alsa_destroy :: "alsa_sink \<Rightarrow> alsa_sink \<times> pcm_call list" where
  "alsa_destroy s = close_device (s\<lparr>as_stopping := True\<rparr>)"

definition update_target :: "(u8 \<Rightarrow> u64) \<Rightarrow> alsa_sink \<Rightarrow> alsa_sink" where
  "update_target curve s = s\<lparr>as_target := q32_gain_for curve (as_volume s) (as_muted s)\<rparr>"

definition alsa_set_volume :: "(u8 \<Rightarrow> u64) \<Rightarrow> u8 \<Rightarrow> alsa_sink \<Rightarrow> alsa_sink" where
  "alsa_set_volume curve volume s = update_target curve (s\<lparr>as_volume := (if volume > 100 then 100 else volume)\<rparr>)"

definition alsa_set_muted :: "(u8 \<Rightarrow> u64) \<Rightarrow> bool \<Rightarrow> alsa_sink \<Rightarrow> alsa_sink" where
  "alsa_set_muted curve muted s = update_target curve (s\<lparr>as_muted := muted\<rparr>)"

section \<open>A write returns, in whole frames\<close>

text \<open>\<^verbatim>\<open>snd_pcm_writei\<close> never takes more frames than it is given.\<close>

definition lawful_turn :: "alsa_turn \<Rightarrow> bool" where
  "lawful_turn t \<longleftrightarrow> (\<forall>n m. tu_writei t n = Inl m \<longrightarrow> m \<le> n)"

lemma alsa_turn_step_bounds:
  assumes "lawful_turn t" "d \<le> all" "alsa_turn_step t fp all d = (calls, Some d')"
  shows "d \<le> d' \<and> d' \<le> all"
proof -
  have "w \<le> all - d" if "tu_writei t (min (all - d) a) = Inl w" for a w
    using assms(1) that by (metis lawful_turn_def min.boundedE)
  then show ?thesis using assms(2,3)
    by (fastforce simp: alsa_turn_step_def Let_def split: if_splits sum.splits option.splits prod.splits)
qed

text \<open>One turn of the loop: it is over, it ends at this turn, or it goes on with the turns left.\<close>

lemma alsa_write_loop_cases:
  assumes "alsa_write_loop (t # ts) fp all d = Some (calls, n)" "alsa_turn_step t fp all d = (cs, q)"
  obtains (over) "calls = []" "n = d"
  | (ends) "calls = cs" "n = d" "q = None"
  | (goes_on) d' later where "q = Some d'" "alsa_write_loop ts False all d' = Some (later, n)" "calls = cs @ later"
  using assms by (cases "d < all"; cases q) (auto split: prod.splits)

lemma alsa_write_loop_bounds:
  "list_all lawful_turn ts \<Longrightarrow> d \<le> all \<Longrightarrow> alsa_write_loop ts fp all d = Some (calls, n) \<Longrightarrow>
     d \<le> n \<and> n \<le> all"
proof (induction ts arbitrary: fp d calls)
  case (Cons t ts)
  obtain cs q where st: "alsa_turn_step t fp all d = (cs, q)" by fastforce
  from Cons.prems(3) st show ?case
  proof (cases rule: alsa_write_loop_cases)
    case (goes_on d' later)
    then have "d \<le> d' \<and> d' \<le> all" using alsa_turn_step_bounds [of t d all fp cs d'] Cons.prems(1,2) st by simp
    then show ?thesis using Cons.IH [OF _ _ goes_on(2)] Cons.prems(1) by auto
  qed (use Cons.prems(2) in simp_all)
qed (auto split: if_splits)

text \<open>Every call of a write is a use of the handle, none of them opens or closes it.\<close>

definition only_uses :: "pcm_call list \<Rightarrow> bool" where
  "only_uses calls \<longleftrightarrow> list_all (\<lambda>c. c = PcmUse) calls"

lemma only_uses_simps [simp]:
  "only_uses []" "only_uses (c # cs) \<longleftrightarrow> c = PcmUse \<and> only_uses cs" "only_uses (cs @ cs') \<longleftrightarrow> only_uses cs \<and> only_uses cs'"
  by (simp_all add: only_uses_def)

lemma mended_uses: "mended t e = (calls, ok) \<Longrightarrow> only_uses calls"
proof -
  have "only_uses (fst (resume_loop n answers))" for n answers
    by (induction n) (auto split: resume_answer.split prod.split)
  then have "resume_loop n answers = (cs, b) \<Longrightarrow> only_uses cs" for n answers cs b by (metis fst_conv)
  then show "mended t e = (calls, ok) \<Longrightarrow> only_uses calls"
    by (auto simp: mended_def alsa_recover_def split: alsa_error.splits prod.splits if_splits)
qed

lemma alsa_turn_uses: "alsa_turn_step t fp all d = (calls, q) \<Longrightarrow> only_uses calls"
  by (auto simp: alsa_turn_step_def Let_def dest: mended_uses split: if_splits sum.splits option.splits prod.splits)

lemma alsa_write_loop_uses: "alsa_write_loop ts fp all d = Some (calls, n) \<Longrightarrow> only_uses calls"
proof (induction ts arbitrary: fp d calls)
  case (Cons t ts)
  obtain cs q where st: "alsa_turn_step t fp all d = (cs, q)" by fastforce
  from Cons.prems st show ?case
  proof (cases rule: alsa_write_loop_cases)
    case (goes_on d' later)
    then show ?thesis using Cons.IH [OF goes_on(2)] alsa_turn_uses [OF st] by simp
  qed (use alsa_turn_uses [OF st] in simp_all)
qed (auto split: if_splits)

text \<open>A turn that finds the deadline passed, or the stop flag, ends the loop.\<close>

lemma alsa_write_loop_returns:
  "\<exists>t \<in> set ts. tu_stopping t \<or> tu_late t \<Longrightarrow> \<not> fp \<Longrightarrow> alsa_write_loop ts fp all d \<noteq> None"
proof (induction ts arbitrary: fp d)
  case (Cons t ts)
  obtain cs q where st: "alsa_turn_step t fp all d = (cs, q)" by fastforce
  show ?case
  proof (cases "tu_stopping t \<or> tu_late t")
    case True
    then have "alsa_turn_step t fp all d = ([], None)" using Cons.prems(2) by (auto simp: alsa_turn_step_def)
    then show ?thesis by simp
  next
    case False
    then have "alsa_write_loop ts False all d' \<noteq> None" for d' using Cons.IH [of False d'] Cons.prems(1) by auto
    then show ?thesis using st by (cases q) (simp_all del: not_None_eq)
  qed
qed simp

lemma alsa_write_loop_first:
  assumes "\<exists>t \<in> set ts. tu_stopping t \<or> tu_late t"
  shows "alsa_write_loop (t0 # ts) fp all d \<noteq> None"
proof -
  obtain cs q where st: "alsa_turn_step t0 fp all d = (cs, q)" by fastforce
  have "alsa_write_loop ts False all d' \<noteq> None" for d' by (rule alsa_write_loop_returns [OF assms]) simp
  then show ?thesis using st by (cases q) (simp_all del: not_None_eq)
qed

lemma usable_frames: "(l - l mod f) div f * f = l - l mod (f :: nat)"
  by (simp add: minus_mod_eq_div_mult)

definition usable_bytes :: "alsa_sink \<Rightarrow> u8 list \<Rightarrow> nat" where
  "usable_bytes s data = length data - length data mod as_frame s"

lemma usable_bytes_props: "usable_bytes s data \<le> length data" "as_frame s dvd usable_bytes s data"
  by (simp_all add: usable_bytes_def minus_mod_eq_div_mult)

text \<open>The three ways a write goes: nothing to feed, no device, or frames written.\<close>

lemma alsa_write_cases:
  assumes "alsa_write turns delay now data s = Some r" "list_all lawful_turn turns"
  obtains (none) "r = \<lparr>wr_consumed = 0, wr_sink = s, wr_device = [], wr_calls = [], wr_played = None\<rparr>"
      "data = [] \<or> as_pcm s \<and> as_frame s \<noteq> 0 \<and> usable_bytes s data = 0"
  | (discards) "wr_consumed r = (if as_frame s = 0 then length data else usable_bytes s data)" "wr_device r = []"
      "wr_sink r = s\<lparr>as_failed := True\<rparr>" "data \<noteq> []" "\<not> as_pcm s \<or> as_frame s = 0"
  | (writes) n where "wr_consumed r = n * as_frame s" "n \<le> usable_bytes s data div as_frame s" "as_pcm s" "as_frame s \<noteq> 0"
      "wr_device r = take (n * as_frame s) (scaled_for s (take (usable_bytes s data) data))"
      "wr_sink r = s\<lparr>as_current := ramped_gain (as_current s) (as_target s) (volume_ramp_step (as_rate s)) (of_nat n)\<rparr>"
proof (cases "data = [] \<or> \<not> as_pcm s \<or> as_frame s = 0 \<or> usable_bytes s data = 0")
  case True
  then show ?thesis using assms(1) that(1,2)
    by (auto simp: alsa_write_def Let_def usable_bytes_def split: if_splits)
next
  case False
  then obtain n calls where n: "alsa_write_loop turns True (usable_bytes s data div as_frame s) 0 = Some (calls, n)"
    "wr_consumed r = n * as_frame s"
    "wr_device r = take (n * as_frame s) (scaled_for s (take (usable_bytes s data) data))"
    "wr_sink r = s\<lparr>as_current := ramped_gain (as_current s) (as_target s) (volume_ramp_step (as_rate s)) (of_nat n)\<rparr>"
    using assms(1) by (auto simp: alsa_write_def Let_def usable_bytes_def split: option.splits)
  then show ?thesis using that(3) [of n] alsa_write_loop_bounds [OF assms(2) _ n(1)] False by simp
qed

section \<open>The handle\<close>

text \<open>Running calls against one handle: whether it is open, or \<open>None\<close> when a call misuses it.\<close>

fun handle_run :: "bool \<Rightarrow> pcm_call list \<Rightarrow> bool option" where
  "handle_run opened [] = Some opened"
| "handle_run opened (PcmOpen ok # calls) = (if opened then None else handle_run ok calls)"
| "handle_run opened (PcmUse # calls) = (if opened then handle_run opened calls else None)"
| "handle_run opened (PcmClose # calls) = (if opened then handle_run False calls else None)"

lemma handle_run_append: "handle_run o' (xs @ ys) = Option.bind (handle_run o' xs) (\<lambda>q. handle_run q ys)"
  by (induction o' xs rule: handle_run.induct) simp_all

lemma handle_run_uses: "list_all (\<lambda>c. c = PcmUse) cs \<Longrightarrow> handle_run True cs = Some True"
  by (induction cs) auto

lemma handle_run_refused [simp]: "handle_run True (until_refused takes steps) = Some True"
  by (rule handle_run_uses) (auto simp: until_refused_def list_all_iff)

definition alsa_ok :: "alsa_sink \<Rightarrow> bool" where
  "alsa_ok s \<longleftrightarrow>
     as_target s \<le> Q32_ONE \<and> as_current s \<le> Q32_ONE \<and>
     (if as_pcm s
      then alsa_format_for (as_bits s) \<noteq> None \<and> as_channels s \<noteq> 0 \<and> as_rate s \<noteq> 0
        \<and> as_frame s = unat (as_channels s) * (unat (as_bits s) div 8)
      else as_rate s = 0 \<and> as_channels s = 0 \<and> as_bits s = 0 \<and> as_frame s = 0)"

lemma alsa_format_width:
  "alsa_format_for bits \<noteq> None \<Longrightarrow> unat bits div 8 \<in> {1, 2, 3, 4} \<and> unat (bits div 8) = unat bits div 8"
  by (auto simp: alsa_format_for_def PROBE_BIT_DEPTHS_def PROBE_FORMATS_def unat_div split: if_splits)

lemma alsa_ok_frame:
  "alsa_ok s \<Longrightarrow> as_pcm s \<Longrightarrow> as_frame s \<noteq> 0 \<and> as_channels s \<noteq> 0 \<and> as_bits s div 8 \<noteq> 0
     \<and> unat (as_bits s div 8) \<in> {1, 2, 3, 4} \<and> as_frame s = unat (as_bits s div 8) * unat (as_channels s)"
proof -
  assume s: "alsa_ok s" "as_pcm s"
  then have "alsa_format_for (as_bits s) \<noteq> None" "as_channels s \<noteq> 0"
    and f: "as_frame s = unat (as_channels s) * (unat (as_bits s) div 8)" by (simp_all add: alsa_ok_def)
  then have w: "unat (as_bits s div 8) \<in> {1, 2, 3, 4}" "unat (as_bits s div 8) = unat (as_bits s) div 8"
    and c: "0 < unat (as_channels s)" "as_channels s \<noteq> 0"
    using alsa_format_width by (auto simp: unat_gt_0)
  have "as_bits s div 8 \<noteq> 0" "0 < unat (as_bits s div 8)" using w(1) by auto
  then show ?thesis using w c f by (simp add: mult.commute)
qed

lemma alsa_ok_frame_pos: "alsa_ok s \<Longrightarrow> as_pcm s \<Longrightarrow> as_frame s \<noteq> 0"
  using alsa_ok_frame by blast

lemma close_device_ok:
  "alsa_ok s \<Longrightarrow> close_device s = (s', t) \<Longrightarrow>
     alsa_ok s' \<and> \<not> as_pcm s' \<and> handle_run (as_pcm s) t = Some False
     \<and> as_target s' = as_target s \<and> as_current s' = as_current s \<and> as_stopping s' = as_stopping s"
  by (auto simp: close_device_def alsa_ok_def split: if_splits)

lemma open_device_ok:
  assumes "alsa_ok s" "\<not> as_pcm s" "open_device d rate channels bits s = (ok, s', t)"
  shows "alsa_ok s' \<and> as_pcm s' = ok \<and> handle_run False t = Some ok
    \<and> as_target s' = as_target s \<and> as_current s' = as_current s \<and> as_stopping s' = as_stopping s"
proof (cases "alsa_format_for bits")
  case None
  then show ?thesis using assms by (auto simp: open_device_def)
next
  case (Some format)
  let ?s1 = "s\<lparr>as_pcm := True\<rparr>"
  have c: "close_device ?s1 = (s, [PcmClose])"
    using assms(1,2) by (simp add: close_device_def alsa_ok_def)
  show ?thesis
  proof (cases "channels = 0 \<or> rate = 0 \<or> \<not> ad_open d")
    case True
    then show ?thesis using assms Some by (auto simp: open_device_def alsa_ok_def split: if_splits)
  next
    case False
    then show ?thesis using assms Some c
      by (auto simp: open_device_def Let_def handle_run_append alsa_ok_def split: if_splits option.splits)
  qed
qed

text \<open>What a write does to the handle: uses alone, and none without one.\<close>

lemma alsa_write_uses:
  assumes "alsa_write turns delay now data s = Some r"
  shows "only_uses (wr_calls r) \<and> (\<not> as_pcm s \<longrightarrow> wr_calls r = [])"
  using assms by (auto simp: alsa_write_def Let_def dest: alsa_write_loop_uses split: if_splits option.splits)

lemma alsa_write_closed:
  assumes "\<not> as_pcm s" "as_frame s = 0" "data \<noteq> []"
  shows "alsa_write turns delay now data s = Some \<lparr>wr_consumed = length data, wr_sink = s\<lparr>as_failed := True\<rparr>,
    wr_device = [], wr_calls = [], wr_played = None\<rparr>"
  using assms by (simp add: alsa_write_def)

text \<open>
  What the player does to its sink, in any order and with any answers. Every operation holds the device's
  mutex, so a write is a step once it has returned, with all the calls it made.
\<close>

datatype alsa_op =
  AlsaConfigure alsa_device bool u32 u8 u8
| AlsaWrite "alsa_turn list" "nat option" int "u8 list"
| AlsaClear
| AlsaStop
| AlsaVolume u8
| AlsaMute bool

fun alsa_step :: "(u8 \<Rightarrow> u64) \<Rightarrow> alsa_op \<Rightarrow> alsa_sink \<Rightarrow> alsa_sink \<times> pcm_call list" where
  "alsa_step curve (AlsaConfigure d prepared rate channels bits) s = snd (alsa_configure d prepared rate channels bits s)"
| "alsa_step curve (AlsaWrite turns delay now data) s =
     (case alsa_write turns delay now data s of None \<Rightarrow> (s, []) | Some r \<Rightarrow> (wr_sink r, wr_calls r))"
| "alsa_step curve AlsaClear s = alsa_clear s"
| "alsa_step curve AlsaStop s = alsa_stop s"
| "alsa_step curve (AlsaVolume v) s = (alsa_set_volume curve v s, [])"
| "alsa_step curve (AlsaMute m) s = (alsa_set_muted curve m s, [])"

fun alsa_history :: "(u8 \<Rightarrow> u64) \<Rightarrow> alsa_op list \<Rightarrow> alsa_sink \<Rightarrow> alsa_sink \<times> pcm_call list" where
  "alsa_history curve [] s = (s, [])"
| "alsa_history curve (op # ops) s =
     (let (s', t) = alsa_step curve op s; (s'', t') = alsa_history curve ops s' in (s'', t @ t'))"

text \<open>The curve of \<^verbatim>\<open>pow\<close> never exceeds unity.\<close>

definition curve_ok :: "(u8 \<Rightarrow> u64) \<Rightarrow> bool" where
  "curve_ok curve \<longleftrightarrow> (\<forall>v. curve v \<le> Q32_ONE)"

lemma q32_gain_limit: "curve_ok curve \<Longrightarrow> q32_gain_for curve v m \<le> Q32_ONE"
  by (simp add: q32_gain_for_def curve_ok_def)

lemma alsa_write_sink:
  "case alsa_write turns delay now data s of None \<Rightarrow> True
   | Some r \<Rightarrow> (\<exists>n. wr_sink r = s\<lparr>as_current := ramped_gain (as_current s) (as_target s) (volume_ramp_step (as_rate s)) n\<rparr>)
             \<or> wr_sink r = s \<or> wr_sink r = s\<lparr>as_failed := True\<rparr>"
  by (auto simp: alsa_write_def Let_def split: option.split)

lemma alsa_configure_ok:
  assumes "alsa_ok s" "alsa_configure d prepared rate channels bits s = (ok, s', t)"
  shows "alsa_ok s' \<and> handle_run (as_pcm s) t = Some (as_pcm s') \<and> (ok \<longrightarrow> as_pcm s' \<and> as_current s' = as_target s')"
proof -
  let ?s = "s\<lparr>as_current := as_target s\<rparr>"
  have ok: "alsa_ok ?s" using assms(1) by (simp add: alsa_ok_def)
  obtain c ct where close: "close_device ?s = (c, ct)" by fastforce
  note closed = close_device_ok [OF ok close]
  obtain o1 s1 t1 where opn: "open_device d rate channels bits c = (o1, s1, t1)" by (metis prod_cases3)
  note opened = open_device_ok [OF _ _ opn]
  have same: "as_target c = as_target s \<and> as_current c = as_target s" using closed by simp
  have o: "alsa_ok s1" "as_pcm s1 = o1" "handle_run False t1 = Some o1" "as_current s1 = as_target s1"
    using opened closed same by simp_all
  show ?thesis
  proof (cases "as_pcm s \<and> as_rate s = rate \<and> as_channels s = channels \<and> as_bits s = bits")
    case reuse: True
    show ?thesis
    proof (cases prepared)
      case True
      then have "(ok, s', t) = (True, ?s, [PcmUse, PcmUse])"
        using assms(2) reuse by (simp add: alsa_configure_def Let_def)
      then show ?thesis using ok reuse by simp
    next
      case False
      then have "(ok, s', t) = (o1, s1, [PcmUse, PcmUse] @ ct @ t1)"
        using assms(2) reuse close opn by (simp add: alsa_configure_def Let_def)
      then show ?thesis using o closed reuse by (simp add: handle_run_append)
    qed
  next
    case False
    then have "(ok, s', t) = (o1, if o1 then s1 else s1\<lparr>as_failed := True\<rparr>, ct @ t1)"
      using assms(2) close opn by (auto simp: alsa_configure_def Let_def)
    then show ?thesis using o closed by (cases o1) (simp_all add: handle_run_append alsa_ok_def)
  qed
qed

lemma alsa_step_ok:
  assumes "alsa_ok s" "curve_ok curve" "alsa_step curve op s = (s', t)"
  shows "alsa_ok s' \<and> handle_run (as_pcm s) t = Some (as_pcm s')"
proof (cases op)
  case (AlsaConfigure d prepared rate channels bits)
  then show ?thesis using alsa_configure_ok [OF assms(1), of d prepared rate channels bits] assms(3)
    by (cases "alsa_configure d prepared rate channels bits s") auto
next
  case (AlsaWrite turns delay now data)
  show ?thesis
  proof (cases "alsa_write turns delay now data s")
    case None
    then show ?thesis using AlsaWrite assms(1,3) by simp
  next
    case (Some r)
    then have t: "t = wr_calls r" "s' = wr_sink r" using AlsaWrite assms(3) by simp_all
    have ok: "alsa_ok s'" "as_pcm s' = as_pcm s"
      using alsa_write_sink [where turns = turns and delay = delay and now = now and data = data and s = s] assms(1) Some t
      by (auto simp: alsa_ok_def ramped_gain_limit split: option.splits)
    have "handle_run (as_pcm s) t = Some (as_pcm s)"
      using alsa_write_uses [OF Some] handle_run_uses t by (cases "as_pcm s") (simp_all add: only_uses_def)
    then show ?thesis using ok by simp
  qed
next
  case AlsaClear
  then show ?thesis using assms by (auto simp: alsa_clear_def alsa_ok_def Let_def split: if_splits)
next
  case AlsaStop
  obtain c ct where close: "close_device (s\<lparr>as_stopping := True\<rparr>) = (c, ct)" by fastforce
  have "alsa_ok (s\<lparr>as_stopping := True\<rparr>)" using assms(1) by (simp add: alsa_ok_def)
  from close_device_ok [OF this close] show ?thesis using AlsaStop assms close
    by (auto simp: alsa_stop_def alsa_ok_def Let_def split: if_splits)
next
  case (AlsaVolume v)
  then show ?thesis using assms q32_gain_limit [OF assms(2)]
    by (auto simp: alsa_set_volume_def update_target_def alsa_ok_def)
next
  case (AlsaMute m)
  then show ?thesis using assms q32_gain_limit [OF assms(2)]
    by (auto simp: alsa_set_muted_def update_target_def alsa_ok_def)
qed

lemma alsa_history_ok:
  "alsa_ok s \<Longrightarrow> curve_ok curve \<Longrightarrow> alsa_history curve ops s = (s', t) \<Longrightarrow>
     alsa_ok s' \<and> handle_run (as_pcm s) t = Some (as_pcm s')"
proof (induction ops arbitrary: s s' t)
  case (Cons op ops)
  obtain s1 t1 where a: "alsa_step curve op s = (s1, t1)" by fastforce
  obtain s2 t2 where b: "alsa_history curve ops s1 = (s2, t2)" by fastforce
  show ?case using alsa_step_ok [OF Cons.prems(1,2) a] Cons.IH [OF _ Cons.prems(2) b] Cons.prems(3) a b
    by (auto simp: handle_run_append)
qed simp

lemma new_alsa_sink_ok: "alsa_ok (new_alsa_sink ms)"
  by (simp add: new_alsa_sink_def alsa_ok_def)

text \<open>
  C38. The ALSA handle is never leaked, closed twice or used while closed. Whatever the player does to
  the sink in whatever order, and however ALSA refuses any step of it: every call but the opening - those of
  opening and configuring, each turn of a write, its recoveries and its delay query, a flush and a stop - is
  made on an open handle, an opening only on a closed one, and the destructor leaves it closed. While
  it is open the format the sink counts frames by is the one it was opened for. While it is closed a
  write makes no call and takes the whole buffer at once.
\<close>

theorem alsa_handle_is_owned:
  assumes "curve_ok curve"
  shows "let (s, t) = alsa_history curve ops (new_alsa_sink ms) in
     handle_run False (t @ snd (alsa_destroy s)) = Some False
   \<and> handle_run False t = Some (as_pcm s)
   \<and> (if as_pcm s then as_frame s = unat (as_channels s) * (unat (as_bits s) div 8) \<and> as_frame s \<noteq> 0 \<and> as_rate s \<noteq> 0
      else as_frame s = 0 \<and>
        (if data = [] then True
         else alsa_write turns delay now data s = Some \<lparr>wr_consumed = length data, wr_sink = s\<lparr>as_failed := True\<rparr>,
                wr_device = [], wr_calls = [], wr_played = None\<rparr>))"
proof -
  obtain s t where h: "alsa_history curve ops (new_alsa_sink ms) = (s, t)" by fastforce
  have ok: "alsa_ok s" "handle_run False t = Some (as_pcm s)"
    using alsa_history_ok [OF new_alsa_sink_ok assms h] by (simp_all add: new_alsa_sink_def)
  obtain c ct where close: "close_device (s\<lparr>as_stopping := True\<rparr>) = (c, ct)" by fastforce
  have "alsa_ok (s\<lparr>as_stopping := True\<rparr>)" using ok(1) by (simp add: alsa_ok_def)
  from close_device_ok [OF this close] have "handle_run (as_pcm s) ct = Some False" by simp
  then show ?thesis using h ok close alsa_ok_frame [OF ok(1)] alsa_write_closed [of s data]
    by (auto simp: alsa_destroy_def handle_run_append alsa_ok_def)
qed

section \<open>One ramp over the whole stream\<close>

text \<open>
  A stream as the sync task feeds it: each write is offered at most \<open>len\<close> bytes from where the last
  one stopped, with volume and mute changes in between. The bytes consumed, what the device took, and
  the sink at the end.
\<close>

datatype feed = Feed "alsa_turn list" "nat option" int nat | FeedVolume u8 | FeedMute bool

fun alsa_feed :: "(u8 \<Rightarrow> u64) \<Rightarrow> feed list \<Rightarrow> u8 list \<Rightarrow> alsa_sink \<Rightarrow> (nat \<times> u8 list \<times> alsa_sink) option" where
  "alsa_feed curve [] stream s = Some (0, [], s)"
| "alsa_feed curve (FeedVolume v # fs) stream s = alsa_feed curve fs stream (alsa_set_volume curve v s)"
| "alsa_feed curve (FeedMute m # fs) stream s = alsa_feed curve fs stream (alsa_set_muted curve m s)"
| "alsa_feed curve (Feed turns delay now len # fs) stream s =
     (case alsa_write turns delay now (take len stream) s of
        None \<Rightarrow> None
      | Some r \<Rightarrow>
          (case alsa_feed curve fs (drop (wr_consumed r) stream) (wr_sink r) of
             None \<Rightarrow> None
           | Some (n, device, s') \<Rightarrow> Some (wr_consumed r + n, wr_device r @ device, s')))"

fun lawful_feed :: "feed \<Rightarrow> bool" where
  "lawful_feed (Feed turns _ _ _) = list_all lawful_turn turns"
| "lawful_feed _ = True"

lemma scaled_for_gains:
  assumes ok: "alsa_ok s" "as_pcm s" and l: "length usable = n * as_frame s" "length usable < 2 ^ 64"
  shows "scaled_for s usable = scale_frames (unat (as_bits s div 8)) (as_frame s)
    (frame_gains (as_current s) (as_target s) (volume_ramp_step (as_rate s)) n) usable"
proof -
  note f = alsa_ok_frame [OF ok]
  have d: "unat (as_bits s div 8) dvd as_frame s" using f by simp
  have "as_frame s \<noteq> 0" by (rule alsa_ok_frame_pos [OF ok])
  then have n: "length usable div as_frame s = n" unfolding l(1) by (rule nonzero_mult_div_cancel_right)
  have "fst (apply_volume_ramp usable (as_bits s div 8) (as_channels s) (as_current s) (as_target s) (volume_ramp_step (as_rate s)))
      = scale_frames (unat (as_bits s div 8)) (as_frame s)
          (frame_gains (as_current s) (as_target s) (volume_ramp_step (as_rate s)) n) usable"
    using ramp_is_frame_gains [of "as_bits s div 8" "as_channels s" usable] f l(2) n by simp
  then show ?thesis using unity_is_identity [OF d l(1)] silence_is_zero_gain [OF _ d l(1)] f
    by (auto simp: scaled_for_def Let_def frame_gains_at)
qed

definition played_with :: "alsa_sink \<Rightarrow> u8 list \<Rightarrow> nat \<Rightarrow> u8 list \<Rightarrow> u64 list \<Rightarrow> u64 \<Rightarrow> bool" where
  "played_with s stream consumed device gains final \<longleftrightarrow>
     consumed = length gains * as_frame s \<and> consumed \<le> length stream
     \<and> device = scale_frames (unat (as_bits s div 8)) (as_frame s) gains (take consumed stream)
     \<and> smooth (volume_ramp_step (as_rate s)) (as_current s # gains)
     \<and> list_all (\<lambda>g. g \<le> Q32_ONE) gains
     \<and> final = last (as_current s # gains)"

lemma alsa_write_played:
  assumes ok: "alsa_ok s" "as_pcm s" "50 \<le> unat (as_rate s)"
    and w: "alsa_write turns delay now data s = Some r" "list_all lawful_turn turns"
    and l: "length data < 2 ^ 64" "length data \<le> length stream" "data = take (length data) stream"
  shows "\<exists>gains. played_with s stream (wr_consumed r) (wr_device r) gains (as_current (wr_sink r))
    \<and> wr_sink r = s\<lparr>as_current := as_current (wr_sink r)\<rparr>"
  using w
proof (cases rule: alsa_write_cases)
  case none
  then show ?thesis by (intro exI [of _ "[]"]) (simp add: played_with_def)
next
  case discards
  have "as_frame s \<noteq> 0" by (rule alsa_ok_frame_pos [OF ok(1,2)])
  with discards ok(2) show ?thesis by simp
next
  case (writes n)
  let ?f = "as_frame s" and ?u = "usable_bytes s data" and ?step = "volume_ramp_step (as_rate s)"
  let ?g = "\<lambda>k. frame_gains (as_current s) (as_target s) ?step k"
  have step: "?step \<noteq> 0" using ok(3) by (simp add: volume_ramp_step_zero)
  have u: "?u \<le> length data" "?u = ?u div ?f * ?f" using usable_bytes_props [of s data] by simp_all
  have len: "length (take ?u data) = ?u div ?f * ?f" "length (take ?u data) < 2 ^ 64" using u l(1) by simp_all
  have nu: "n * ?f \<le> ?u" using writes(2) u(2) by (metis mult_le_mono1)
  have "wr_device r = take (n * ?f) (scale_frames (unat (as_bits s div 8)) ?f (?g (?u div ?f)) (take ?u data))"
    using writes(5) scaled_for_gains [OF ok(1,2) len] by simp
  also have "\<dots> = scale_frames (unat (as_bits s div 8)) ?f (take n (?g (?u div ?f))) (take (n * ?f) (take ?u data))"
    by (rule scale_frames_take) (use writes(2) len in simp_all)
  also have "take n (?g (?u div ?f)) = ?g n"
    using frame_gains_add [of "as_current s" "as_target s" ?step n "?u div ?f - n"] writes(2) by simp
  also have "take (n * ?f) (take ?u data) = take (n * ?f) stream"
    using nu u(1) l(2,3) by (metis min.absorb1 take_take le_trans)
  finally have dev: "wr_device r = scale_frames (unat (as_bits s div 8)) ?f (?g n) (take (n * ?f) stream)" .
  have n64: "n < 2 ^ 64" using writes(2) len(2) u(1) div_le_dividend [of ?u ?f] l(1) by linarith
  have fin: "as_current (wr_sink r) = last (as_current s # ?g n)"
  proof (cases "n = 0")
    case True
    then show ?thesis using writes(6) step by (simp add: ramped_gain_def)
  next
    case False
    then show ?thesis using frame_gains_last [OF n64 False, of "as_current s" "as_target s" ?step] writes(6) by simp
  qed
  have lim: "as_current s \<le> Q32_ONE" "as_target s \<le> Q32_ONE" using ok(1) by (simp_all add: alsa_ok_def)
  have "played_with s stream (wr_consumed r) (wr_device r) (?g n) (as_current (wr_sink r))"
    using dev fin writes(1) nu u(1) l(2) frame_gains_smooth [OF step] frame_gains_limit [OF lim]
    by (simp add: played_with_def)
  then show ?thesis using writes(6) by auto
qed

lemma played_with_append:
  assumes "played_with s stream m d g c" "played_with s1 (drop m stream) n e h final"
    "s1 = s\<lparr>as_current := c\<rparr>"
  shows "played_with s stream (m + n) (d @ e) (g @ h) final"
proof -
  have m: "m = length g * as_frame s" "m \<le> length stream" and c: "c = last (as_current s # g)"
    using assms(1) by (simp_all add: played_with_def)
  have "take (m + n) stream = take m stream @ take n (drop m stream)" by (simp add: take_add)
  moreover have "length (take m stream) = length g * as_frame s" using m by simp
  ultimately have "scale_frames (unat (as_bits s div 8)) (as_frame s) (g @ h) (take (m + n) stream)
      = scale_frames (unat (as_bits s div 8)) (as_frame s) g (take m stream)
        @ scale_frames (unat (as_bits s div 8)) (as_frame s) h (take n (drop m stream))"
    by (simp add: scale_frames_append)
  then show ?thesis using assms m c smooth_append [of _ "as_current s" g h]
    by (auto simp: played_with_def add_mult_distrib)
qed

lemma played_with_target: "played_with (s\<lparr>as_target := t, as_volume := v, as_muted := m\<rparr>) = played_with s"
  by (intro ext) (simp add: played_with_def)

lemma volume_feed_same:
  "alsa_set_volume curve v s = s\<lparr>as_volume := as_volume (alsa_set_volume curve v s), as_target := as_target (alsa_set_volume curve v s)\<rparr>"
  "alsa_set_muted curve m s = s\<lparr>as_muted := m, as_target := as_target (alsa_set_muted curve m s)\<rparr>"
  by (simp_all add: alsa_set_volume_def alsa_set_muted_def update_target_def)

lemma alsa_feed_played:
  "alsa_feed curve fs stream s = Some (n, device, s') \<Longrightarrow> list_all lawful_feed fs \<Longrightarrow> curve_ok curve \<Longrightarrow>
     alsa_ok s \<Longrightarrow> as_pcm s \<Longrightarrow> 50 \<le> unat (as_rate s) \<Longrightarrow> length stream < 2 ^ 64 \<Longrightarrow>
     \<exists>gains. played_with s stream n device gains (as_current s')"
proof (induction curve fs stream s arbitrary: n device rule: alsa_feed.induct)
  case (1 curve stream s)
  then show ?case by (intro exI [of _ "[]"]) (simp add: played_with_def)
next
  case (2 curve v fs stream s)
  let ?s = "alsa_set_volume curve v s"
  have "alsa_ok ?s" using alsa_step_ok [of s curve "AlsaVolume v"] 2 by simp
  moreover have "as_pcm ?s = as_pcm s" "as_rate ?s = as_rate s" "played_with ?s = played_with s"
    by (simp_all add: alsa_set_volume_def update_target_def played_with_def fun_eq_iff)
  ultimately show ?case using 2 by simp
next
  case (3 curve m fs stream s)
  let ?s = "alsa_set_muted curve m s"
  have "alsa_ok ?s" using alsa_step_ok [of s curve "AlsaMute m"] 3 by simp
  moreover have "as_pcm ?s = as_pcm s" "as_rate ?s = as_rate s" "played_with ?s = played_with s"
    by (simp_all add: alsa_set_muted_def update_target_def played_with_def fun_eq_iff)
  ultimately show ?case using 3 by simp
next
  case (4 curve turns delay now len fs stream s)
  then obtain r m e where w: "alsa_write turns delay now (take len stream) s = Some r"
    and f: "alsa_feed curve fs (drop (wr_consumed r) stream) (wr_sink r) = Some (m, e, s')"
    and res: "n = wr_consumed r + m" "device = wr_device r @ e"
    by (auto split: option.splits)
  have lt: "list_all lawful_turn turns" using 4(3) by simp
  have few: "length (take len stream) < 2 ^ 64" "length (take len stream) \<le> length stream"
    "take len stream = take (length (take len stream)) stream"
    using 4(8) by (simp_all add: min_def)
  obtain g where g: "played_with s stream (wr_consumed r) (wr_device r) g (as_current (wr_sink r))"
    and same: "wr_sink r = s\<lparr>as_current := as_current (wr_sink r)\<rparr>"
    using alsa_write_played [OF 4(5,6,7) w lt, of stream] few by blast
  have pcm: "as_pcm (wr_sink r)" "as_rate (wr_sink r) = as_rate s"
    using same 4(6) by (metis alsa_sink.simps(2,3) alsa_sink.surjective alsa_sink.update_convs(12))+
  have ok: "alsa_ok (wr_sink r)"
    using alsa_step_ok [of s curve "AlsaWrite turns delay now (take len stream)"] 4(4,5) w by simp
  have rest: "length (drop (wr_consumed r) stream) < 2 ^ 64" by (rule le_less_trans [OF _ 4(8)]) simp
  obtain h where h: "played_with (wr_sink r) (drop (wr_consumed r) stream) m e h (as_current s')"
    using 4(1) [OF w f] 4(3,4,7) ok pcm rest by auto
  show ?case using played_with_append [OF g h same] res by blast
qed

text \<open>
  C8. A volume change never clicks, whatever ALSA takes of each buffer. However often a write comes up
  short - at its deadline, at a stop, at an error - and the tail is offered again, and whenever volume
  or mute change in between: the device plays exactly the bytes consumed, in order and in whole frames,
  each frame scaled by one gain; the first gain is one ramp step at most from the gain the sink was at,
  each following one at most a step from the one before it, all within unity, and the sink ends at the
  last of them.
\<close>

theorem alsa_volume_never_clicks:
  assumes "alsa_ok s" "as_pcm s" "50 \<le> unat (as_rate s)" "curve_ok curve"
    and "list_all lawful_feed fs" "length stream < 2 ^ 64"
    and "alsa_feed curve fs stream s = Some (consumed, device, s')"
  shows "\<exists>gains. consumed = length gains * as_frame s \<and> consumed \<le> length stream
    \<and> device = scale_frames (unat (as_bits s div 8)) (as_frame s) gains (take consumed stream)
    \<and> smooth (volume_ramp_step (as_rate s)) (as_current s # gains)
    \<and> list_all (\<lambda>g. g \<le> Q32_ONE) gains \<and> as_current s' = last (as_current s # gains)"
  using alsa_feed_played [OF assms(7,5,4,1,2,3,6)] by (auto simp: played_with_def)

text \<open>An 8-bit mono sink at 50 Hz, whose one-frame ramp jumps, fed four bytes in two parts.\<close>

definition demo_sink :: alsa_sink where
  "demo_sink = (new_alsa_sink 100)\<lparr>as_pcm := True, as_rate := 50, as_channels := 1, as_bits := 8, as_frame := 1\<rparr>"

definition demo_turn :: "nat \<Rightarrow> bool \<Rightarrow> alsa_turn" where
  "demo_turn room late = \<lparr>tu_stopping = False, tu_late = late, tu_avail = Inl room, tu_left_ms = 0, tu_wait = None,
     tu_writei = Inl, tu_prepared = True, tu_resumes = (\<lambda>_. Resumed)\<rparr>"

theorem alsa_volume_never_clicks_witness:
  "\<exists>gains s'. alsa_feed (\<lambda>_. 0) [Feed [demo_turn 3 False, demo_turn 0 True] None 0 9, FeedMute True,
       Feed [demo_turn 9 False] None 0 9] [1, 2, 3, 4] demo_sink
     = Some (4, scale_frames 1 1 gains [1, 2, 3, 4], s') \<and> length gains = 4 \<and> smooth Q32_ONE (Q32_ONE # gains)"
proof -
  let ?fs = "[Feed [demo_turn 3 False, demo_turn 0 True] None 0 9, FeedMute True, Feed [demo_turn 9 False] None 0 9]"
  have step: "volume_ramp_step 50 = Q32_ONE"
    by (simp add: volume_ramp_step_def VOLUME_RAMP_MS_def MS_PER_SECOND_def Q32_ONE_def Let_def)
  have lawful: "list_all lawful_feed ?fs" by (simp add: lawful_turn_def demo_turn_def)
  have ok: "alsa_ok demo_sink" "as_pcm demo_sink" "50 \<le> unat (as_rate demo_sink)"
    by (simp_all add: alsa_ok_def demo_sink_def new_alsa_sink_def alsa_format_for_def PROBE_BIT_DEPTHS_def PROBE_FORMATS_def)
  have loops: "alsa_write_loop [demo_turn 3 False, demo_turn 0 True] True (Suc (Suc (Suc (Suc 0)))) 0 = Some ([PcmUse, PcmUse], 3)"
    "alsa_write_loop [demo_turn 9 False] True (Suc 0) 0 = Some ([PcmUse, PcmUse], 1)"
    by (simp_all add: alsa_turn_step_def demo_turn_def Let_def)
  obtain device s' where f: "alsa_feed (\<lambda>_. 0) ?fs [1, 2, 3, 4] demo_sink = Some (4, device, s')"
    using loops by (auto simp del: alsa_write_loop.simps simp: alsa_write_def Let_def demo_sink_def new_alsa_sink_def alsa_set_muted_def update_target_def)
  have "length ([1, 2, 3, 4] :: u8 list) < 2 ^ 64" by simp
  from alsa_volume_never_clicks [OF ok _ lawful this f]
  show ?thesis using f step by (auto simp: curve_ok_def demo_sink_def new_alsa_sink_def)
qed

section \<open>The contract of a sink\<close>

text \<open>The write without what the device got, as the contract sees it.\<close>

definition alsa_sink_write :: "alsa_turn list \<times> nat option \<times> int \<Rightarrow> u8 list \<Rightarrow> alsa_sink \<Rightarrow> (nat \<times> alsa_sink) option" where
  "alsa_sink_write e data s =
     (case e of (turns, delay, now) \<Rightarrow> map_option (\<lambda>r. (wr_consumed r, wr_sink r)) (alsa_write turns delay now data s))"

lemma alsa_write_contract:
  assumes "alsa_write turns delay now data s = Some r" "list_all lawful_turn turns"
  shows "wr_consumed r \<le> length data \<and> (as_frame s dvd length data \<longrightarrow> as_frame s dvd wr_consumed r)
    \<and> as_frame (wr_sink r) = as_frame s"
  using assms
proof (cases rule: alsa_write_cases)
  case none
  then show ?thesis by simp
next
  case discards
  then show ?thesis using usable_bytes_props [of s data] by auto
next
  case (writes n)
  have "n * as_frame s \<le> usable_bytes s data div as_frame s * as_frame s" using writes(2) by (rule mult_le_mono1)
  then show ?thesis using writes usable_bytes_props [of s data] by simp
qed

interpretation alsa: audio_sink alsa_sink_write "\<lambda>e. list_all lawful_turn (fst e)" "\<lambda>_. True" as_frame
  by unfold_locales (auto simp: alsa_sink_write_def dest: alsa_write_contract)

text \<open>
  An ALSA write always comes back, in time and with whole frames. Whatever the device answers, once
  the clock passes the deadline at a turn after the first, or the stop flag is seen, the write returns;
  fed whole frames it consumes whole frames and never more than it was offered; and without a usable
  device it takes everything at once, so the player is never stalled by a sink that cannot play.
\<close>

lemma alsa_write_comes_back:
  assumes "list_all lawful_turn (t # ts)" "list_ex (\<lambda>u. tu_stopping u \<or> tu_late u) ts"
  shows "case alsa_write (t # ts) delay now data s of None \<Rightarrow> False
    | Some r \<Rightarrow> wr_consumed r \<le> length data
        \<and> (if as_frame s dvd length data then as_frame s dvd wr_consumed r else True)
        \<and> (if as_frame s = 0 \<or> \<not> as_pcm s \<and> as_frame s dvd length data then wr_consumed r = length data else True)"
proof -
  let ?n = "(length data - length data mod as_frame s) div as_frame s"
  have "alsa_write_loop (t # ts) True ?n 0 \<noteq> None"
    using assms(2) by (intro alsa_write_loop_first) (simp add: list_ex_iff)
  then obtain k where "alsa_write_loop (t # ts) True ?n 0 = Some k" by blast
  then obtain calls m where "alsa_write_loop (t # ts) True ?n 0 = Some (calls, m)" by (cases k) blast
  then have "alsa_write (t # ts) delay now data s \<noteq> None"
    by (simp add: alsa_write_def Let_def del: alsa_write_loop.simps)
  then obtain r where r: "alsa_write (t # ts) delay now data s = Some r" by blast
  have "as_frame s = 0 \<or> \<not> as_pcm s \<and> as_frame s dvd length data \<Longrightarrow> wr_consumed r = length data"
    using r by (auto simp: alsa_write_def dvd_imp_mod_0 split: if_splits)
  then show ?thesis using r alsa_write_contract [OF r assms(1)] by simp
qed

text \<open>
  A device opened, written to (a full ring, an underrun mended, four frames taken), flushed and closed, for
  the ownership property.
\<close>

definition willing_device :: alsa_device where
  "willing_device = \<lparr>ad_open = True, ad_hw = (\<lambda>_. True), ad_period = Some 480, ad_sw = (\<lambda>_. True), ad_prepare = True\<rparr>"

definition demo_ops :: "alsa_op list" where
  "demo_ops =
     [AlsaConfigure willing_device True 50 1 8,
      AlsaWrite [(demo_turn 0 False)\<lparr>tu_left_ms := 20\<rparr>, (demo_turn 4 False)\<lparr>tu_writei := (\<lambda>_. Inr EPIPE)\<rparr>,
                 demo_turn 4 False] (Some 9) 0 [1, 2, 3, 4],
      AlsaClear, AlsaStop, AlsaWrite [] None 0 [5]]"

theorem alsa_handle_is_owned_witness:
  "let (s, t) = alsa_history (\<lambda>_. 0) demo_ops (new_alsa_sink 100) in
     handle_run False (t @ snd (alsa_destroy s)) = Some False \<and> \<not> as_pcm s
     \<and> t = PcmOpen True # replicate 15 PcmUse @ replicate 8 PcmUse @ replicate 3 PcmUse @ [PcmClose]"
proof -
  have "snd (alsa_history (\<lambda>_. 0) demo_ops (new_alsa_sink 100))
      = PcmOpen True # replicate 15 PcmUse @ replicate 8 PcmUse @ replicate 3 PcmUse @ [PcmClose]"
    "\<not> as_pcm (fst (alsa_history (\<lambda>_. 0) demo_ops (new_alsa_sink 100)))"
    by code_simp+
  then show ?thesis using alsa_handle_is_owned [of "\<lambda>_. 0" demo_ops 100] by (simp add: curve_ok_def split_beta Let_def)
qed

end
