(* ===== verification/NullSink.thy ===== *)
theory NullSink
  imports SinkContract AudioTypes
begin

text \<open>
  \<^verbatim>\<open>src/src/null_sink.{h,cpp}\<close>: the sink that discards, or writes raw PCM to standard output. What
  \<^verbatim>\<open>fwrite\<close> accepts is an input: the bytes standard output takes before it fails, if it fails.
\<close>

section \<open>Definitions\<close>

datatype null_output = DiscardOutput | StdoutOutput

definition SILENCE_CHUNK :: nat where "SILENCE_CHUNK = 4096"

record null_sink =
  ns_output :: null_output
  ns_total :: nat
  ns_frame :: nat
  ns_failed :: bool
  ns_volume :: u8
  ns_muted :: bool

definition new_null_sink :: "null_output \<Rightarrow> null_sink" where
  "new_null_sink output = \<lparr>ns_output = output, ns_total = 0, ns_frame = 0, ns_failed = False,
     ns_volume = DEFAULT_SINK_VOLUME, ns_muted = False\<rparr>"

definition null_name :: "null_sink \<Rightarrow> string" where
  "null_name s = (if ns_output s = StdoutOutput then ''stdout'' else ''null'')"

definition align_to_frame :: "nat \<Rightarrow> nat \<Rightarrow> nat" where
  "align_to_frame bytes bytes_per_frame = (if bytes_per_frame = 0 then bytes else bytes - bytes mod bytes_per_frame)"

definition null_configure :: "u8 \<Rightarrow> u8 \<Rightarrow> null_sink \<Rightarrow> bool \<times> null_sink" where
  "null_configure channels bits s =
     (let bytes_per_frame = unat channels * (unat bits div 8)
      in (bytes_per_frame \<noteq> 0, s\<lparr>ns_frame := bytes_per_frame\<rparr>))"

text \<open>\<^verbatim>\<open>fwrite\<close> of so many bytes, when standard output takes \<open>room\<close> more (\<open>None\<close>: any number).\<close>

definition fwrite :: "nat option \<Rightarrow> nat \<Rightarrow> nat" where
  "fwrite room n = (case room of None \<Rightarrow> n | Some k \<Rightarrow> min n k)"

text \<open>The loop that writes silence in chunks: the bytes written.\<close>

function silence_loop :: "nat option \<Rightarrow> nat \<Rightarrow> nat \<Rightarrow> nat" where
  "silence_loop room len written =
     (if written < len
      then (let chunk = min SILENCE_CHUNK (len - written);
                n = fwrite (map_option (\<lambda>k. k - written) room) chunk
            in if n < chunk then written + n else silence_loop room len (written + n))
      else written)"
  by pat_completeness auto
termination
  by (relation "measure (\<lambda>(_, len, written). len - written)") (auto simp: SILENCE_CHUNK_def fwrite_def not_less split: option.splits)

text \<open>A write: the bytes consumed, the sink after it, and what standard output got.\<close>

definition null_write :: "nat option \<Rightarrow> u8 list \<Rightarrow> null_sink \<Rightarrow> nat \<times> null_sink \<times> u8 list" where
  "null_write room data s =
     (if ns_output s = DiscardOutput \<or> ns_failed s
      then (length data, s\<lparr>ns_total := ns_total s + length data\<rparr>, [])
      else
        (let written = (if ns_muted s then silence_loop room (length data) 0 else fwrite room (length data));
             out = (if ns_muted s then replicate written 0 else take written data)
         in if written < length data
            then (length data, s\<lparr>ns_failed := True, ns_total := ns_total s + length data\<rparr>, out)
            else (align_to_frame written (ns_frame s),
                  s\<lparr>ns_total := ns_total s + align_to_frame written (ns_frame s)\<rparr>, out)))"

definition null_stop :: "null_sink \<Rightarrow> null_sink" where
  "null_stop s = s\<lparr>ns_frame := 0\<rparr>"

definition null_set_volume :: "u8 \<Rightarrow> null_sink \<Rightarrow> null_sink" where
  "null_set_volume volume s = s\<lparr>ns_volume := volume\<rparr>"

definition null_set_muted :: "bool \<Rightarrow> null_sink \<Rightarrow> null_sink" where
  "null_set_muted muted s = s\<lparr>ns_muted := muted\<rparr>"

section \<open>The contract\<close>

declare silence_loop.simps [simp del]

lemma silence_loop_writes:
  "written \<le> len \<Longrightarrow> (case room of None \<Rightarrow> True | Some k \<Rightarrow> written \<le> k) \<Longrightarrow>
     silence_loop room len written = fwrite room len"
proof (induction room len written rule: silence_loop.induct)
  case (1 room len written)
  show ?case
  proof (cases "written < len")
    case True
    let ?chunk = "min SILENCE_CHUNK (len - written)"
    let ?n = "fwrite (map_option (\<lambda>k. k - written) room) ?chunk"
    show ?thesis
    proof (cases "?n < ?chunk")
      case short: True
      then have "silence_loop room len written = written + ?n"
        using True by (simp add: silence_loop.simps [of room len written] Let_def)
      then show ?thesis using 1(2,3) True short by (auto simp: fwrite_def min_def split: option.splits if_splits)
    next
      case False
      have "written + ?n \<le> len" "case room of None \<Rightarrow> True | Some k \<Rightarrow> written + ?n \<le> k"
        using 1(2,3) True by (auto simp: fwrite_def split: option.split)
      then have "silence_loop room len (written + ?n) = fwrite room len"
        by (rule 1(1) [OF True refl refl False])
      moreover have "silence_loop room len written = silence_loop room len (written + ?n)"
        by (subst silence_loop.simps) (simp only: Let_def True False if_True if_False)
      ultimately show ?thesis by simp
    qed
  next
    case False
    then have "silence_loop room len written = written" by (subst silence_loop.simps) (simp only: if_False)
    then show ?thesis using 1(2,3) False by (auto simp: fwrite_def split: option.split)
  qed
qed

lemma fwrite_le: "fwrite room n \<le> n"
  by (simp add: fwrite_def split: option.split)

lemma null_written: "(if ns_muted s then silence_loop room n 0 else fwrite room n) = fwrite room n"
  by (simp add: silence_loop_writes split: option.split)

lemma null_write_eq:
  "null_write room data s =
     (if ns_output s = DiscardOutput \<or> ns_failed s
      then (length data, s\<lparr>ns_total := ns_total s + length data\<rparr>, [])
      else
        (let written = fwrite room (length data);
             out = (if ns_muted s then replicate written 0 else take written data)
         in if written < length data
            then (length data, s\<lparr>ns_failed := True, ns_total := ns_total s + length data\<rparr>, out)
            else (align_to_frame written (ns_frame s),
                  s\<lparr>ns_total := ns_total s + align_to_frame written (ns_frame s)\<rparr>, out)))"
  by (simp add: null_write_def null_written)

text \<open>The sink's write without what standard output got, as the contract sees it.\<close>

definition null_sink_write :: "nat option \<Rightarrow> u8 list \<Rightarrow> null_sink \<Rightarrow> (nat \<times> null_sink) option" where
  "null_sink_write room data s = (case null_write room data s of (n, s', _) \<Rightarrow> Some (n, s'))"

interpretation null_sink: audio_sink null_sink_write "\<lambda>_. True" "\<lambda>_. True" ns_frame
proof
  fix s room data n s'
  assume w: "null_sink_write room data s = Some (n, s')"
  show "n \<le> length data"
    using w fwrite_le [of room "length data"]
    by (auto simp: null_sink_write_def null_write_eq align_to_frame_def Let_def split: if_splits)
  show "ns_frame s dvd n" if "ns_frame s dvd length data"
    using w that fwrite_le [of room "length data"]
    by (auto simp: null_sink_write_def null_write_eq align_to_frame_def Let_def minus_mod_eq_div_mult split: if_splits)
  show "True \<and> ns_frame s' = ns_frame s"
    using w by (auto simp: null_sink_write_def null_write_eq Let_def split: if_splits)
qed

section \<open>Standard output carries the stream\<close>

fun null_feed :: "(nat option \<times> nat) list \<Rightarrow> u8 list \<Rightarrow> null_sink \<Rightarrow> nat \<times> u8 list \<times> null_sink" where
  "null_feed [] stream s = (0, [], s)"
| "null_feed ((room, frames) # offers) stream s =
     (case null_write room (take (frames * ns_frame s) stream) s of
        (n, s', out) \<Rightarrow> (case null_feed offers (drop n stream) s' of (m, out', s'') \<Rightarrow> (n + m, out @ out', s'')))"

lemma null_feed_failed: "ns_failed s \<Longrightarrow> null_feed offers stream s = (n, out, s') \<Longrightarrow> out = [] \<and> ns_failed s'"
  by (induction offers stream s arbitrary: n out rule: null_feed.induct)
     (auto simp: null_write_def split: prod.splits)

lemma null_feed_stdout:
  assumes "ns_frame s \<noteq> 0" "ns_frame s dvd length stream" "ns_output s = StdoutOutput"
    and "null_feed offers stream s = (n, out, s')"
  shows "n \<le> length stream \<and> ns_frame s' = ns_frame s \<and> ns_frame s dvd n \<and>
    (let shown = (if ns_muted s then replicate n 0 else take n stream)
     in if ns_failed s' then out = take (length out) shown else out = shown)"
  using assms
proof (induction offers stream s arbitrary: n out rule: null_feed.induct)
  case (2 room frames offers stream s)
  let ?f = "ns_frame s" and ?d = "take (frames * ns_frame s) stream"
  have d: "?f dvd length ?d" using 2(3) by (simp add: min_def)
  obtain m s1 o1 where w: "null_write room ?d s = (m, s1, o1)" by (metis prod_cases3)
  obtain l o2 where f: "null_feed offers (drop m stream) s1 = (l, o2, s')" and res: "n = m + l" "out = o1 @ o2"
    using 2(5) w by (auto split: prod.splits)
  have c: "null_sink_write room ?d s = Some (m, s1)" using w by (simp add: null_sink_write_def)
  have m: "m \<le> length ?d" "?f dvd m" "ns_frame s1 = ?f"
    using null_sink.put_within [OF _ _ c] null_sink.put_frames [OF _ _ c d] null_sink.put_keeps [OF _ _ c] by simp_all
  have keep: "ns_output s1 = ns_output s" "ns_muted s1 = ns_muted s" "ns_failed s \<Longrightarrow> ns_failed s1"
    using w by (auto simp: null_write_eq Let_def split: if_splits)
  have "?f dvd length (drop m stream)" using m 2(3) by (simp add: dvd_diff_nat)
  then have ih: "l \<le> length (drop m stream) \<and> ns_frame s' = ?f \<and> ?f dvd l \<and>
    (let shown = (if ns_muted s then replicate l 0 else take l (drop m stream))
     in if ns_failed s' then o2 = take (length o2) shown else o2 = shown)"
    using 2(1) [OF w [symmetric] refl] f 2(2,4) m keep by simp
  define all where "all = (if ns_muted s then replicate n 0 else take n stream)"
  have prefix_all: "(if ns_muted s then replicate k 0 else take k ?d) = take k all" if "k \<le> m" for k
  proof -
    have "k \<le> n" "k \<le> frames * ns_frame s" using that m(1) res by simp_all
    then show ?thesis by (simp add: all_def min_def take_replicate)
  qed
  have mine: "if ns_failed s1 then o1 = take (length o1) all else o1 = take m all \<and> length o1 = m"
  proof (cases "ns_failed s")
    case True
    then show ?thesis using w by (auto simp: null_write_eq)
  next
    case False
    let ?k = "fwrite room (length ?d)"
    have o1: "o1 = (if ns_muted s then replicate ?k 0 else take ?k ?d)" "length o1 = ?k"
      using w False 2(4) fwrite_le [of room "length ?d"] by (auto simp: null_write_eq Let_def split: if_splits)
    show ?thesis
    proof (cases "?k < length ?d")
      case True
      then have "m = length ?d" "ns_failed s1" using w False 2(4) by (auto simp: null_write_eq Let_def)
      then show ?thesis using o1 True prefix_all [of ?k] by simp
    next
      case False2: False
      then have k: "?k = length ?d" using fwrite_le [of room "length ?d"] by linarith
      have whole: "align_to_frame (length ?d) ?f = length ?d" using d by (simp only: align_to_frame_def) (auto simp: dvd_imp_mod_0)
      have "null_write room ?d s = (length ?d, s\<lparr>ns_total := ns_total s + length ?d\<rparr>, if ns_muted s then replicate ?k 0 else take ?k ?d)"
        unfolding null_write_eq using False 2(4) k whole by (simp only: Let_def) (simp del: length_take)
      then have m': "m = length ?d" and live: "\<not> ns_failed s1" using w False by auto
      from m' k have "?k = m" by simp
      with o1 prefix_all [of m] have "o1 = take m all \<and> length o1 = m" by (simp only: le_refl)
      then show ?thesis unfolding if_not_P [OF live] .
    qed
  qed
  have n: "n \<le> length stream" "ns_frame s' = ?f" "?f dvd n" using ih m res by (auto simp: le_diff_conv2 add.commute)
  show ?case
  proof (cases "ns_failed s1")
    case True
    then have "o2 = []" "ns_failed s'" using null_feed_failed [OF True f] by simp_all
    moreover have "o1 = take (length o1) all" using mine unfolding if_P [OF True] .
    ultimately show ?thesis using n res unfolding Let_def all_def [symmetric] by simp
  next
    case False
    have rest: "drop m all = (if ns_muted s then replicate l 0 else take l (drop m stream))"
      using res by (simp add: all_def drop_take)
    have o1: "o1 = take m all" "length o1 = m" using mine unfolding if_not_P [OF False] by blast+
    show ?thesis
    proof (cases "ns_failed s'")
      case True
      then have "o2 = take (length o2) (drop m all)" using ih rest by (simp add: Let_def)
      then have "out = take (length out) all" using o1 res by (metis length_append take_add)
      then show ?thesis using n unfolding Let_def all_def [symmetric] if_P [OF True] by blast
    next
      case live: False
      then have "o2 = drop m all" using ih rest by (simp add: Let_def)
      then have "out = all" using o1 res by simp
      then show ?thesis using n unfolding Let_def all_def [symmetric] if_not_P [OF live] by blast
    qed
  qed
qed (auto simp: Let_def)

text \<open>
  Standard output gets the stream. Fed whole frames in writes of any size, the \<^verbatim>\<open>stdout\<close> sink
  consumes whole frames and writes what it consumed byte for byte (as many zeros while muted), until
  standard output fails: from then on it keeps consuming and writes nothing, so what was written is a
  prefix of it.
\<close>

lemma stdout_carries_the_stream:
  assumes "ns_frame s \<noteq> 0" "ns_frame s dvd length stream" "ns_output s = StdoutOutput"
    and "null_feed offers stream s = (n, out, s')"
  shows "n \<le> length stream \<and> ns_frame s dvd n \<and>
    (let shown = (if ns_muted s then replicate n 0 else take n stream)
     in if ns_failed s' then out = take (length out) shown else out = shown)"
  using null_feed_stdout [OF assms] by simp

end
