(* ===== verification/Daemon.thy ===== *)
theory Daemon
  imports Prelude
begin

text \<open>
  \<^verbatim>\<open>src/src/daemon.{h,cpp}\<close>: the lock that makes two players notice each other, the pidfile that
  rests on it, and the detaching of \<^verbatim>\<open>-z\<close>. Each system call's answer is an input: \<open>None\<close> when it
  succeeds, or the text \<^verbatim>\<open>strerror\<close> gives its error. An operation also returns the calls it made.
\<close>

section \<open>Definitions\<close>

datatype pid_file_status = PidOk | PidAlreadyRunning | PidFailed

definition PIDFILE_MODE :: nat where "PIDFILE_MODE = 420"

text \<open>What was done to which file; the descriptor is the one the operation opened.\<close>

datatype file_call =
  OpenFile string nat
| LockFile
| UnlockFile
| TruncateFile
| WriteFile string
| CloseFile
| UnlinkFile string

datatype flock_answer = FlockOk | FlockBusy | FlockError string

definition lock_file ::
  "string option \<Rightarrow> flock_answer \<Rightarrow> string \<Rightarrow> string \<Rightarrow> nat \<Rightarrow> pid_file_status \<times> string \<times> file_call list"
where
  "lock_file open_error flock path what mode =
     (case open_error of
        Some e \<Rightarrow> (PidFailed, ''cannot open '' @ what @ '' '' @ path @ '': '' @ e, [OpenFile path mode])
      | None \<Rightarrow>
          (case flock of
             FlockOk \<Rightarrow> (PidOk, [], [OpenFile path mode, LockFile])
           | FlockBusy \<Rightarrow>
               (PidAlreadyRunning, ''another sendspin-cli is already running -- it holds the lock on '' @ path,
                [OpenFile path mode, LockFile, CloseFile])
           | FlockError e \<Rightarrow>
               (PidFailed, ''cannot lock '' @ what @ '' '' @ path @ '': '' @ e @ ''. A '' @ what @
                  '' has to be on a local filesystem: flock is emulated over NFS and is not dependable over SMB'',
                [OpenFile path mode, LockFile, CloseFile])))"

text \<open>\<^verbatim>\<open>PidFile\<close>: the path it owns while its descriptor is open.\<close>

type_synonym pid_file = "string option"

datatype pid_write = PidWrote nat | PidWriteError string

record pid_calls =
  pc_open :: "string option"
  pc_flock :: flock_answer
  pc_truncate :: "string option"
  pc_write :: pid_write

definition pid_line :: "nat \<Rightarrow> string" where
  "pid_line pid = to_string pid @ [NL]"

definition acquire ::
  "pid_calls \<Rightarrow> nat \<Rightarrow> string \<Rightarrow> pid_file \<Rightarrow> pid_file_status \<times> string \<times> file_call list \<times> pid_file"
where
  "acquire calls pid path held =
     (case lock_file (pc_open calls) (pc_flock calls) path ''pidfile'' PIDFILE_MODE of
        (PidOk, _, trace) \<Rightarrow>
          (case pc_truncate calls of
             Some e \<Rightarrow> (PidFailed, ''cannot truncate pidfile '' @ path @ '': '' @ e, trace @ [TruncateFile, CloseFile], held)
           | None \<Rightarrow>
               (let line = pid_line pid; tr = trace @ [TruncateFile, WriteFile line] in
                case pc_write calls of
                  PidWriteError e \<Rightarrow> (PidFailed, ''cannot write pidfile '' @ path @ '': '' @ e, tr @ [CloseFile], held)
                | PidWrote n \<Rightarrow>
                    if n \<noteq> length line
                    then (PidFailed, ''cannot write pidfile '' @ path @ '': short write'', tr @ [CloseFile], held)
                    else (PidOk, [], tr, Some path)))
      | (status, error, trace) \<Rightarrow> (status, error, trace, held))"

definition destroy_pid_file :: "pid_file \<Rightarrow> file_call list" where
  "destroy_pid_file held = (case held of None \<Rightarrow> [] | Some path \<Rightarrow> [UnlinkFile path, CloseFile])"

definition probe_pidfile :: "string option \<Rightarrow> flock_answer \<Rightarrow> string \<Rightarrow> pid_file_status \<times> string \<times> file_call list" where
  "probe_pidfile open_error flock path =
     (case lock_file open_error flock path ''pidfile'' PIDFILE_MODE of
        (PidOk, error, trace) \<Rightarrow> (PidOk, error, trace @ [UnlockFile, CloseFile])
      | (status, error, trace) \<Rightarrow> (status, error, trace))"

text \<open>
  \<^verbatim>\<open>daemonize\<close>. What a descriptor refers to: \<^verbatim>\<open>/dev/null\<close>, or what it was before. The parent of a
  successful fork exits; everything else is the child or the process that could not fork.
\<close>

datatype stream = DevNull | Inherited nat

datatype daemon_result = ParentExits | DaemonError string | Daemonized

record daemon_calls =
  dc_fork :: "int + string"
  dc_setsid :: "string option"
  dc_chdir :: "string option"
  dc_null :: "nat + string"
  dc_dup :: "nat \<Rightarrow> string option"

definition dup_null :: "daemon_calls \<Rightarrow> nat \<Rightarrow> (nat \<rightharpoonup> stream) \<times> string option \<Rightarrow> (nat \<rightharpoonup> stream) \<times> string option" where
  "dup_null calls fd r =
     (case r of (fds, Some e) \<Rightarrow> (fds, Some e)
      | (fds, None) \<Rightarrow> (case dc_dup calls fd of Some e \<Rightarrow> (fds, Some e) | None \<Rightarrow> (fds(fd \<mapsto> DevNull), None)))"

definition daemonize ::
  "daemon_calls \<Rightarrow> bool \<Rightarrow> (nat \<rightharpoonup> stream) \<Rightarrow> daemon_result \<times> (nat \<rightharpoonup> stream)"
where
  "daemonize calls discard_stderr fds =
     (case dc_fork calls of
        Inr e \<Rightarrow> (DaemonError (''cannot fork: '' @ e), fds)
      | Inl child \<Rightarrow>
          if child > 0 then (ParentExits, fds)
          else case dc_setsid calls of
            Some e \<Rightarrow> (DaemonError (''cannot start a new session: '' @ e), fds)
          | None \<Rightarrow>
          (case dc_chdir calls of
            Some e \<Rightarrow> (DaemonError (''cannot change directory to /: '' @ e), fds)
          | None \<Rightarrow>
          (case dc_null calls of
            Inr e \<Rightarrow> (DaemonError (''cannot open /dev/null: '' @ e), fds)
          | Inl null_fd \<Rightarrow>
              (let fds0 = fds(null_fd \<mapsto> DevNull);
                   (fds1, error) = (if discard_stderr then dup_null calls 2 else id)
                                     (dup_null calls 1 (dup_null calls 0 (fds0, None)));
                   fds2 = (if null_fd > 2 then fds1(null_fd := None) else fds1)
               in (case error of
                     Some e \<Rightarrow> (DaemonError (''cannot redirect the standard streams: '' @ e), fds2)
                   | None \<Rightarrow> (Daemonized, fds2))))))"

section \<open>What the calls leave behind\<close>

text \<open>Whether the descriptor an operation opened is still open, from the calls that succeeded.\<close>

definition left_open :: "string option \<Rightarrow> file_call list \<Rightarrow> bool" where
  "left_open open_error trace = (open_error = None \<and> trace \<noteq> [] \<and> CloseFile \<notin> set trace)"

lemma lock_file_status:
  "fst (lock_file oe fl path what mode) = PidOk \<longleftrightarrow> oe = None \<and> fl = FlockOk"
  "fst (lock_file oe fl path what mode) = PidAlreadyRunning \<longleftrightarrow> oe = None \<and> fl = FlockBusy"
  by (simp_all add: lock_file_def split: option.split flock_answer.split)

lemma lock_file_keeps_fd:
  "left_open oe (snd (snd (lock_file oe fl path what mode))) = (fst (lock_file oe fl path what mode) = PidOk)"
  by (simp add: lock_file_def left_open_def split: option.split flock_answer.split)

text \<open>
  C39. Taking the pidfile is all or nothing. It succeeds exactly when the file opens, its lock is free,
  and the truncation and the whole write of the pid succeed, in this order, so the file then reads as
  this pid alone and nothing of a file another process holds was touched; its descriptor, and with it
  the lock, stays open until the end unlinks the file first. Whatever fails, the descriptor is closed
  once, the object owns nothing and its end unlinks nothing; a lock that is held is reported as such.
\<close>

theorem pidfile_is_all_or_nothing:
  "let (status, error, trace, held) = acquire calls pid path None in
     (status = PidOk) = (pc_open calls = None \<and> pc_flock calls = FlockOk \<and> pc_truncate calls = None
                          \<and> pc_write calls = PidWrote (length (pid_line pid)))
   \<and> (status = PidAlreadyRunning) = (pc_open calls = None \<and> pc_flock calls = FlockBusy)
   \<and> (held, left_open (pc_open calls) trace, destroy_pid_file held) =
       (if status = PidOk then (Some path, True, [UnlinkFile path, CloseFile]) else (None, False, []))
   \<and> (TruncateFile \<in> set trace) = (pc_open calls = None \<and> pc_flock calls = FlockOk)
   \<and> (if status = PidOk then trace = [OpenFile path PIDFILE_MODE, LockFile, TruncateFile, WriteFile (pid_line pid)] \<and> error = []
      else error \<noteq> [])"
  by (cases "pc_open calls"; cases "pc_flock calls"; cases "pc_truncate calls"; cases "pc_write calls")
     (auto simp: acquire_def lock_file_def left_open_def destroy_pid_file_def Let_def)

text \<open>
  Detaching leaves the streams right. When it succeeds, standard input and output are
  \<^verbatim>\<open>/dev/null\<close>, and standard error too when nothing else was to be done with it, or when it was
  closed and the null device landed there; no other descriptor changed and none was leaked. When
  anything fails the caller is told what, and the parent leaves without touching a stream.
\<close>

lemma daemonize_redirects_the_streams:
  assumes "case dc_null calls of Inl n \<Rightarrow> fds n = None | Inr _ \<Rightarrow> True"
  shows "(case daemonize calls discard fds of
      (Daemonized, fds') \<Rightarrow>
        fds' 0 = Some DevNull \<and> fds' 1 = Some DevNull
        \<and> fds' 2 = (if discard \<or> dc_null calls = Inl 2 then Some DevNull else fds 2)
        \<and> list_all (\<lambda>n. fds' n = fds n) [3..<m]
    | (DaemonError e, fds') \<Rightarrow> e \<noteq> [] \<and> list_all (\<lambda>n. fds' n = fds n) [3..<m]
    | (ParentExits, fds') \<Rightarrow> fds' = fds)"
proof (cases "dc_null calls")
  case (Inl n)
  have "list_all P [3..<m] = (\<forall>i. 3 \<le> i \<longrightarrow> i < m \<longrightarrow> P i)" for P :: "nat \<Rightarrow> bool"
    by (auto simp: list_all_iff)
  then show ?thesis using assms Inl
    by (auto simp: daemonize_def dup_null_def Let_def split: option.splits sum.splits)
next
  case (Inr e)
  then show ?thesis
    by (auto simp: daemonize_def Let_def list_all_iff split: option.splits sum.splits)
qed

end
