(* ===== verification/ControlOpen.thy ===== *)
theory ControlOpen
  imports Daemon ControlClient
begin

text \<open>
  \<^verbatim>\<open>ControlSocket::open\<close> and \<^verbatim>\<open>probe_control_socket\<close> of \<^verbatim>\<open>src/src/control_socket.cpp\<close>, what
  \<^verbatim>\<open>main.cpp\<close> makes of the result, and what several players that open, probe, close or die on the same
  path do to each other. An operation returns its status, the reason and the calls it made with their
  answers; the machine below runs those calls of several processes in any order against one lock and
  one path.
\<close>

section \<open>Definitions\<close>

datatype control_socket_status = SocketOk | SocketAlreadyRunning | SocketFailed

datatype unlink_answer = UnlinkOk | UnlinkNoEntry | UnlinkError

datatype sock_call =
  SkOpenLock bool
| SkFlock flock_answer
| SkSocket bool
| SkUnlink unlink_answer
| SkBind bool
| SkListen bool
| SkNonBlock bool
| SkCloseListener
| SkUnlock
| SkCloseLock

text \<open>The answers: \<open>None\<close> for success, or the text of the error.\<close>

record open_calls =
  oc_lock :: "string option"
  oc_flock :: flock_answer
  oc_socket :: "string option"
  oc_unlink :: "unlink_answer \<times> string"
  oc_bind :: "string option"
  oc_listen :: "string option"
  oc_nonblock :: "string option"
  oc_cleanup :: unlink_answer

definition CONTROL_LOCK_SUFFIX :: string where "CONTROL_LOCK_SUFFIX = ''.lock''"
definition CONTROL_SOCKET_MODE :: nat where "CONTROL_SOCKET_MODE = 384"

text \<open>\<^verbatim>\<open>lock_file\<close>, its calls as this machine's.\<close>

definition lock_calls :: "open_calls \<Rightarrow> sock_call list" where
  "lock_calls a =
     (if oc_lock a \<noteq> None then [SkOpenLock False]
      else [SkOpenLock True, SkFlock (oc_flock a)] @ (if oc_flock a = FlockOk then [] else [SkCloseLock]))"

definition does_not_fit :: "string \<Rightarrow> nat \<Rightarrow> string" where
  "does_not_fit path bytes =
     ''control socket path '' @ quoted path @ '' does not fit a Unix socket address ('' @ to_string bytes @ '' bytes)''"

definition cannot :: "string \<Rightarrow> string \<Rightarrow> string" where
  "cannot what e = ''cannot '' @ what @ '': '' @ e"

definition control_open :: "nat \<Rightarrow> open_calls \<Rightarrow> string \<Rightarrow> control_socket_status \<times> string \<times> sock_call list" where
  "control_open limit a path =
     (if \<not> control_socket_path_fits limit path then (SocketFailed, does_not_fit path limit, [])
      else case lock_file (oc_lock a) (oc_flock a) (path @ CONTROL_LOCK_SUFFIX) ''control socket'' CONTROL_SOCKET_MODE of
        (PidAlreadyRunning, error, _) \<Rightarrow> (SocketAlreadyRunning, error, lock_calls a)
      | (PidFailed, error, _) \<Rightarrow> (SocketFailed, error, lock_calls a)
      | (PidOk, _, _) \<Rightarrow>
        (case oc_socket a of
           Some e \<Rightarrow> (SocketFailed, cannot ''create the control socket'' e, lock_calls a @ [SkSocket False, SkCloseLock])
         | None \<Rightarrow>
        (let t1 = lock_calls a @ [SkSocket True, SkUnlink (fst (oc_unlink a))] in
         if fst (oc_unlink a) = UnlinkError
         then (SocketFailed, cannot (''remove the stale control socket '' @ path) (snd (oc_unlink a)),
               t1 @ [SkCloseListener, SkCloseLock])
         else case oc_bind a of
           Some e \<Rightarrow> (SocketFailed, cannot (''bind the control socket '' @ path) e,
                      t1 @ [SkBind False, SkCloseListener, SkCloseLock])
         | None \<Rightarrow>
        (let t2 = t1 @ [SkBind True] in
         case oc_listen a of
           Some e \<Rightarrow> (SocketFailed, cannot (''listen on the control socket '' @ path) e,
                      t2 @ [SkListen False, SkUnlink (oc_cleanup a), SkCloseListener, SkCloseLock])
         | None \<Rightarrow>
        (let t3 = t2 @ [SkListen True] in
         case oc_nonblock a of
           Some e \<Rightarrow> (SocketFailed, cannot ''make the control socket non-blocking'' e,
                      t3 @ [SkNonBlock False, SkUnlink (oc_cleanup a), SkCloseListener, SkCloseLock])
         | None \<Rightarrow> (SocketOk, [], t3 @ [SkNonBlock True]))))))"

definition probe_control_socket :: "nat \<Rightarrow> open_calls \<Rightarrow> string \<Rightarrow> control_socket_status \<times> string \<times> sock_call list" where
  "probe_control_socket limit a path =
     (if \<not> control_socket_path_fits limit path then (SocketFailed, does_not_fit path (limit - 1), [])
      else case lock_file (oc_lock a) (oc_flock a) (path @ CONTROL_LOCK_SUFFIX) ''control socket'' CONTROL_SOCKET_MODE of
        (PidOk, error, _) \<Rightarrow> (SocketOk, error, lock_calls a @ [SkUnlock, SkCloseLock])
      | (PidAlreadyRunning, error, _) \<Rightarrow> (SocketAlreadyRunning, error, lock_calls a)
      | (PidFailed, error, _) \<Rightarrow> (SocketFailed, error, lock_calls a))"

text \<open>\<^verbatim>\<open>ControlSocket::close\<close> of a socket that was opened.\<close>

definition close_calls :: "unlink_answer \<Rightarrow> sock_call list" where
  "close_calls answer = [SkCloseListener, SkUnlink answer, SkCloseLock]"

text \<open>\<^verbatim>\<open>start_control_socket\<close>: whether the player goes on, and whether it listens.\<close>

definition start_control_socket :: "nat \<Rightarrow> open_calls \<Rightarrow> bool \<Rightarrow> string \<Rightarrow> bool \<times> bool" where
  "start_control_socket limit a no_control path =
     (if no_control then (True, False)
      else if path = [] then (True, False)
      else case fst (control_open limit a path) of
        SocketOk \<Rightarrow> (True, True)
      | SocketAlreadyRunning \<Rightarrow> (False, False)
      | SocketFailed \<Rightarrow> (True, False))"

section \<open>Several players on one path\<close>

text \<open>
  What a process does about the path from its start: it opens the socket and, when that succeeds,
  closes it at its end, or it only probes. Its answers are whatever the world lets them be.
\<close>

definition life :: "nat \<Rightarrow> string \<Rightarrow> bool \<Rightarrow> open_calls \<Rightarrow> unlink_answer \<Rightarrow> sock_call list" where
  "life limit path probing a u =
     (if probing then snd (snd (probe_control_socket limit a path))
      else (case control_open limit a path of
              (SocketOk, _, trace) \<Rightarrow> trace @ close_calls u
            | (_, _, trace) \<Rightarrow> trace))"

text \<open>The lock's holder, whose socket the path names, and per process the calls made and to make.\<close>

record lock_world =
  lw_lock :: "nat option"
  lw_path :: "nat option"
  lw_done :: "nat \<Rightarrow> sock_call list"
  lw_todo :: "nat \<Rightarrow> sock_call list"

definition empty_lock_world :: lock_world where
  "empty_lock_world = \<lparr>lw_lock = None, lw_path = None, lw_done = (\<lambda>_. []), lw_todo = (\<lambda>_. [])\<rparr>"

text \<open>Which answers the kernel gives: a lock is exclusive, a socket binds where nothing is.\<close>

definition answerable :: "lock_world \<Rightarrow> sock_call \<Rightarrow> bool" where
  "answerable w c =
     (case c of SkFlock FlockOk \<Rightarrow> lw_lock w = None | SkFlock FlockBusy \<Rightarrow> lw_lock w \<noteq> None
      | SkBind True \<Rightarrow> lw_path w = None | SkUnlink UnlinkOk \<Rightarrow> lw_path w \<noteq> None
      | SkUnlink UnlinkNoEntry \<Rightarrow> lw_path w = None | _ \<Rightarrow> True)"

definition kernel_effect :: "nat \<Rightarrow> sock_call \<Rightarrow> lock_world \<Rightarrow> lock_world" where
  "kernel_effect p c w =
     (case c of SkFlock FlockOk \<Rightarrow> w\<lparr>lw_lock := Some p\<rparr>
      | SkUnlock \<Rightarrow> (if lw_lock w = Some p then w\<lparr>lw_lock := None\<rparr> else w)
      | SkCloseLock \<Rightarrow> (if lw_lock w = Some p then w\<lparr>lw_lock := None\<rparr> else w)
      | SkBind True \<Rightarrow> w\<lparr>lw_path := Some p\<rparr>
      | SkUnlink UnlinkOk \<Rightarrow> w\<lparr>lw_path := None\<rparr>
      | _ \<Rightarrow> w)"

inductive sock_reachable :: "nat \<Rightarrow> string \<Rightarrow> lock_world \<Rightarrow> bool" for limit path where
  sock_init: "sock_reachable limit path empty_lock_world"
| sock_starts: "sock_reachable limit path w \<Longrightarrow> lw_done w p = [] \<Longrightarrow> lw_todo w p = [] \<Longrightarrow>
    sock_reachable limit path (w\<lparr>lw_todo := (lw_todo w)(p := life limit path probing a u)\<rparr>)"
| sock_calls: "sock_reachable limit path w \<Longrightarrow> lw_todo w p = c # cs \<Longrightarrow> answerable w c \<Longrightarrow>
    sock_reachable limit path (kernel_effect p c (w\<lparr>lw_todo := (lw_todo w)(p := cs),
      lw_done := (lw_done w)(p := lw_done w p @ [c])\<rparr>))"
| sock_dies: "sock_reachable limit path w \<Longrightarrow>
    sock_reachable limit path (kernel_effect p SkCloseLock (w\<lparr>lw_todo := (lw_todo w)(p := []),
      lw_done := (lw_done w)(p := [])\<rparr>))"

text \<open>What a process has by the calls it made: the lock, a socket of its own at the path, a listener.\<close>

record has =
  ha_lock :: bool
  ha_path :: bool
  ha_listens :: bool

definition nothing :: has where "nothing = \<lparr>ha_lock = False, ha_path = False, ha_listens = False\<rparr>"

fun has_step :: "sock_call \<Rightarrow> has \<Rightarrow> has" where
  "has_step (SkFlock FlockOk) h = h\<lparr>ha_lock := True\<rparr>"
| "has_step SkUnlock h = h\<lparr>ha_lock := False\<rparr>"
| "has_step SkCloseLock h = h\<lparr>ha_lock := False\<rparr>"
| "has_step (SkBind True) h = h\<lparr>ha_path := True\<rparr>"
| "has_step (SkUnlink _) h = h\<lparr>ha_path := False\<rparr>"
| "has_step (SkNonBlock True) h = h\<lparr>ha_listens := True\<rparr>"
| "has_step SkCloseListener h = h\<lparr>ha_listens := False\<rparr>"
| "has_step _ h = h"

definition has_after :: "sock_call list \<Rightarrow> has" where
  "has_after cs = fold has_step cs nothing"

text \<open>The discipline of every life: the path is touched, and a socket owned, under the lock only.\<close>

fun disciplined :: "has \<Rightarrow> sock_call list \<Rightarrow> bool" where
  "disciplined h [] = (h = nothing)"
| "disciplined h (c # cs) =
     ((case c of SkUnlink _ \<Rightarrow> ha_lock h | SkBind _ \<Rightarrow> ha_lock h | SkFlock _ \<Rightarrow> \<not> ha_lock h | _ \<Rightarrow> True)
      \<and> (if ha_path h then ha_lock h else True) \<and> (if ha_listens h then ha_path h else True)
      \<and> disciplined (has_step c h) cs)"

lemma lock_file_cases:
  obtains (ok) t where "lock_file oe fl path what mode = (PidOk, [], t)" "oe = None" "fl = FlockOk"
  | (busy) e t where "lock_file oe fl path what mode = (PidAlreadyRunning, e, t)" "oe = None" "fl = FlockBusy"
  | (failed) e t where "lock_file oe fl path what mode = (PidFailed, e, t)" "oe \<noteq> None \<or> (\<exists>x. fl = FlockError x)"
  by (cases oe; cases fl) (auto simp: lock_file_def)

lemma lock_calls_disciplined:
  "oc_lock a = None \<Longrightarrow> oc_flock a = FlockOk \<Longrightarrow> disciplined nothing (lock_calls a @ cs) = disciplined (nothing\<lparr>ha_lock := True\<rparr>) cs"
  "oc_lock a \<noteq> None \<or> oc_flock a \<noteq> FlockOk \<Longrightarrow> disciplined nothing (lock_calls a)"
  by (cases "oc_lock a"; cases "oc_flock a"; simp add: lock_calls_def nothing_def)+

lemma life_disciplined: "disciplined nothing (life limit path probing a u)"
proof (cases "control_socket_path_fits limit path")
  case True
  show ?thesis
  proof (cases rule: lock_file_cases [of "oc_lock a" "oc_flock a" "path @ CONTROL_LOCK_SUFFIX" "''control socket''" CONTROL_SOCKET_MODE])
    case ok
    have "disciplined nothing (life limit path False a u)"
      using True ok by (cases "oc_socket a"; cases "fst (oc_unlink a)"; cases "oc_bind a"; cases "oc_listen a"; cases "oc_nonblock a")
        (simp_all add: life_def control_open_def close_calls_def Let_def lock_calls_disciplined, simp_all add: nothing_def)
    moreover have "disciplined nothing (life limit path True a u)"
      using True ok by (simp add: life_def probe_control_socket_def lock_calls_disciplined) (simp add: nothing_def)
    ultimately show ?thesis by (cases probing) simp_all
  next
    case busy
    then show ?thesis using True by (simp add: life_def control_open_def probe_control_socket_def lock_calls_disciplined)
  next
    case failed
    then show ?thesis using True by (auto simp: life_def control_open_def probe_control_socket_def lock_calls_disciplined)
  qed
qed (simp add: life_def control_open_def probe_control_socket_def nothing_def)

definition locks_ok :: "lock_world \<Rightarrow> bool" where
  "locks_ok w \<longleftrightarrow>
     (\<forall>p. disciplined (has_after (lw_done w p)) (lw_todo w p)
        \<and> ha_lock (has_after (lw_done w p)) = (lw_lock w = Some p)
        \<and> (ha_path (has_after (lw_done w p)) \<longrightarrow> lw_path w = Some p))"

lemma has_after_snoc [simp]: "has_after (cs @ [c]) = has_step c (has_after cs)"
  by (simp add: has_after_def)

lemma has_after_Nil [simp]: "has_after [] = nothing"
  by (simp add: has_after_def)

lemma disciplined_path: "disciplined h cs \<Longrightarrow> (ha_path h \<longrightarrow> ha_lock h) \<and> (ha_listens h \<longrightarrow> ha_path h)"
  by (cases cs) (auto simp: nothing_def split: if_splits)

lemma effect_keeps [simp]: "lw_done (kernel_effect p c w) = lw_done w" "lw_todo (kernel_effect p c w) = lw_todo w"
  by (auto simp: kernel_effect_def split: sock_call.split flock_answer.split unlink_answer.split bool.split)

lemma effect_lock: "lw_lock (kernel_effect p c w) =
    (if c = SkFlock FlockOk then Some p
     else if (c = SkUnlock \<or> c = SkCloseLock) \<and> lw_lock w = Some p then None else lw_lock w)"
  by (auto simp: kernel_effect_def split: sock_call.split flock_answer.split unlink_answer.split bool.split)

lemma effect_path: "lw_path (kernel_effect p c w) =
    (if c = SkBind True then Some p else if c = SkUnlink UnlinkOk then None else lw_path w)"
  by (auto simp: kernel_effect_def split: sock_call.split flock_answer.split unlink_answer.split bool.split)

lemma step_lock: "ha_lock (has_step c h) =
    (if c = SkFlock FlockOk then True else if c = SkUnlock \<or> c = SkCloseLock then False else ha_lock h)"
  by (cases "(c, h)" rule: has_step.cases) simp_all

lemma step_path: "ha_path (has_step c h) =
    (if c = SkBind True then True else if (\<exists>u. c = SkUnlink u) then False else ha_path h)"
  by (cases "(c, h)" rule: has_step.cases) auto

lemma touching: "disciplined h (c # cs) \<Longrightarrow> c = SkBind True \<or> (\<exists>u. c = SkUnlink u) \<Longrightarrow> ha_lock h"
  by auto

lemma locks_ok_call:
  assumes ok: "locks_ok w" and todo: "lw_todo w p = c # cs" and ans: "answerable w c"
  shows "locks_ok (kernel_effect p c (w\<lparr>lw_todo := (lw_todo w)(p := cs), lw_done := (lw_done w)(p := lw_done w p @ [c])\<rparr>))"
    (is "locks_ok ?w")
proof -
  let ?h = "\<lambda>q. has_after (lw_done w q)"
  have d: "disciplined (?h q) (lw_todo w q)" and lock: "ha_lock (?h q) = (lw_lock w = Some q)"
    and path: "ha_path (?h q) \<Longrightarrow> lw_path w = Some q" for q
    using ok by (simp_all add: locks_ok_def)
  have dp: "disciplined (?h p) (c # cs)" using d [of p] todo by simp
  have free: "c = SkFlock FlockOk \<Longrightarrow> lw_lock w = None" using ans by (simp add: answerable_def)
  have mine: "c = SkBind True \<or> (\<exists>u. c = SkUnlink u) \<Longrightarrow> lw_lock w = Some p"
    using touching [OF dp] lock by simp
  have held: "ha_path (?h q) \<Longrightarrow> lw_lock w = Some q" for q
    using disciplined_path [OF d, of q] lock by simp
  have l: "ha_lock (has_after (lw_done ?w q)) = (lw_lock ?w = Some q)" for q
    using lock [of q] free by (auto simp: effect_lock step_lock)
  have "ha_path (has_after (lw_done ?w q)) \<Longrightarrow> lw_path ?w = Some q" for q
    using path [of q] mine held [of q] by (auto simp: effect_path step_path split: if_splits)
  moreover have "disciplined (has_after (lw_done ?w q)) (lw_todo ?w q)" for q
    using d [of q] dp by simp
  ultimately show ?thesis using l by (simp add: locks_ok_def)
qed

lemma sock_reachable_ok: "sock_reachable limit path w \<Longrightarrow> locks_ok w"
proof (induction rule: sock_reachable.induct)
  case sock_init
  then show ?case by (simp add: locks_ok_def empty_lock_world_def nothing_def)
next
  case (sock_starts w p probing a u)
  then show ?case using life_disciplined by (simp add: locks_ok_def)
next
  case (sock_calls w p c cs)
  then show ?case by (intro locks_ok_call)
next
  case (sock_dies w p)
  have "ha_path (has_after (lw_done w q)) \<longrightarrow> lw_path w = Some q" "ha_lock (has_after (lw_done w q)) = (lw_lock w = Some q)" for q
    using sock_dies.IH by (simp_all add: locks_ok_def)
  then show ?case using sock_dies.IH
    by (simp add: locks_ok_def nothing_def effect_lock effect_path)
qed

text \<open>
  C12. One player per control path. Whatever processes open, probe and close the same path, fail
  half-way or die, in whatever order their system calls fall: a player that listens holds the lock
  and the path names its own socket, so a client reaches it and no other; hence no two listen, the
  lock can be taken by nobody else meanwhile, and a process that finds it taken reports a running
  player and touches nothing.
\<close>

theorem one_player_per_control_path:
  assumes "sock_reachable limit path w" "ha_listens (has_after (lw_done w p))"
  shows "lw_path w = Some p \<and> lw_lock w = Some p \<and> \<not> answerable w (SkFlock FlockOk)
    \<and> (\<forall>q. ha_listens (has_after (lw_done w q)) = (q = p))"
proof -
  have ok: "locks_ok w" using sock_reachable_ok [OF assms(1)] .
  have owner: "lw_lock w = Some q \<and> lw_path w = Some q" if "ha_listens (has_after (lw_done w q))" for q
    using disciplined_path [of "has_after (lw_done w q)" "lw_todo w q"] ok that by (auto simp: locks_ok_def)
  have "q = p" if "ha_listens (has_after (lw_done w q))" for q
    using owner [OF that] owner [OF assms(2)] by simp
  then have "\<forall>q. ha_listens (has_after (lw_done w q)) = (q = p)" using assms(2) by blast
  then show ?thesis using owner [OF assms(2)] by (simp add: answerable_def)
qed

text \<open>Running some calls of one process, for examples.\<close>

fun run_calls :: "nat \<Rightarrow> nat \<Rightarrow> lock_world \<Rightarrow> lock_world" where
  "run_calls p 0 w = w"
| "run_calls p (Suc n) w =
     (case lw_todo w p of [] \<Rightarrow> w
      | c # cs \<Rightarrow> if answerable w c
          then run_calls p n (kernel_effect p c (w\<lparr>lw_todo := (lw_todo w)(p := cs), lw_done := (lw_done w)(p := lw_done w p @ [c])\<rparr>))
          else w)"

lemma run_calls_reachable: "sock_reachable limit path w \<Longrightarrow> sock_reachable limit path (run_calls p n w)"
proof (induction p n w rule: run_calls.induct)
  case (2 p n w)
  then show ?case by (cases "lw_todo w p") (auto intro: sock_calls)
qed simp

lemma run_calls_numeral:
  "run_calls p (numeral k) w =
     (case lw_todo w p of [] \<Rightarrow> w
      | c # cs \<Rightarrow> if answerable w c
          then run_calls p (pred_numeral k)
                 (kernel_effect p c (w\<lparr>lw_todo := (lw_todo w)(p := cs), lw_done := (lw_done w)(p := lw_done w p @ [c])\<rparr>))
          else w)"
  by (simp add: numeral_eq_Suc)

definition open_answers :: "unlink_answer \<Rightarrow> open_calls" where
  "open_answers u = \<lparr>oc_lock = None, oc_flock = FlockOk, oc_socket = None, oc_unlink = (u, []), oc_bind = None,
     oc_listen = None, oc_nonblock = None, oc_cleanup = UnlinkOk\<rparr>"

theorem one_player_per_control_path_witness:
  "let start = (\<lambda>p u w. w\<lparr>lw_todo := (lw_todo w)(p := life 108 ''s'' False (open_answers u) UnlinkOk)\<rparr>);
       die = (\<lambda>p w. kernel_effect p SkCloseLock (w\<lparr>lw_todo := (lw_todo w)(p := []), lw_done := (lw_done w)(p := [])\<rparr>));
       w = run_calls 2 7 (start 2 UnlinkOk (die 3 (run_calls 3 7 (start 3 UnlinkNoEntry empty_lock_world))))
   in lw_path w = Some 2 \<and> \<not> ha_listens (has_after (lw_done w 3))"
proof -
  let ?start = "\<lambda>p u w. w\<lparr>lw_todo := (lw_todo w)(p := life 108 ''s'' False (open_answers u) UnlinkOk)\<rparr>"
  let ?die = "\<lambda>p w. kernel_effect p SkCloseLock (w\<lparr>lw_todo := (lw_todo w)(p := []), lw_done := (lw_done w)(p := [])\<rparr>)"
  let ?w1 = "run_calls 3 7 (?start 3 UnlinkNoEntry empty_lock_world)"
  let ?w = "run_calls 2 7 (?start 2 UnlinkOk (?die 3 ?w1))"
  have life: "life 108 ''s'' False (open_answers u) UnlinkOk =
      [SkOpenLock True, SkFlock FlockOk, SkSocket True, SkUnlink u, SkBind True, SkListen True, SkNonBlock True,
       SkCloseListener, SkUnlink UnlinkOk, SkCloseLock]" if "u \<noteq> UnlinkError" for u
    using that by (simp add: life_def control_open_def open_answers_def lock_file_def lock_calls_def close_calls_def
        control_socket_path_fits_def)
  have "sock_reachable 108 ''s'' (?start 3 UnlinkNoEntry empty_lock_world)"
    by (rule sock_starts [OF sock_init]) (simp_all add: empty_lock_world_def)
  then have r1: "sock_reachable 108 ''s'' (?die 3 ?w1)"
    by (intro sock_dies run_calls_reachable)
  have w1: "lw_done (?die 3 ?w1) = (\<lambda>_. [])" "lw_todo (?die 3 ?w1) = (\<lambda>_. [])" "lw_lock (?die 3 ?w1) = None"
    "lw_path (?die 3 ?w1) = Some 3"
    by (simp_all add: life empty_lock_world_def run_calls_numeral kernel_effect_def answerable_def fun_eq_iff)
  have r: "sock_reachable 108 ''s'' ?w"
    by (intro run_calls_reachable sock_starts r1 fun_cong [OF w1(1)] fun_cong [OF w1(2)])
  have "lw_done ?w 2 = [SkOpenLock True, SkFlock FlockOk, SkSocket True, SkUnlink UnlinkOk, SkBind True, SkListen True, SkNonBlock True]"
    using w1 by (simp add: life run_calls_numeral kernel_effect_def answerable_def)
  then have "ha_listens (has_after (lw_done ?w 2))" by (simp add: has_after_def nothing_def)
  note one = one_player_per_control_path [OF r this]
  from one have path: "lw_path ?w = Some 2" by blast
  have "(3 :: nat) \<noteq> 2" by simp
  with one have "\<not> ha_listens (has_after (lw_done ?w 3))" by blast
  with path show ?thesis unfolding Let_def by blast
qed

end
