(* ===== verification/PortAudioDevice.thy ===== *)
theory PortAudioDevice
  imports DeviceSpec
begin

text \<open>
  The free functions of \<^verbatim>\<open>src/src/portaudio_sink.cpp\<close> and its static methods: how \<^verbatim>\<open>-o portaudio:\<close>
  names a device, what a device is probed for, and the listing of \<^verbatim>\<open>-l\<close>. What PortAudio answers is the
  record \<open>pa_host\<close>; the two renderings of the device's default rate (a \<^verbatim>\<open>double\<close>) are among its answers.
\<close>

section \<open>Definitions\<close>

record pa_device =
  pd_name :: "string option"
  pd_outputs :: int
  pd_rate :: u32
  pd_rate_text :: string
  pd_host_api :: "string option"

datatype pa_format = PaInt8 | PaInt16 | PaInt24 | PaInt32

definition PA_PROBE_FORMATS :: "pa_format list" where
  "PA_PROBE_FORMATS = [PaInt8, PaInt16, PaInt24, PaInt32]"

definition PA_FORMAT_NAMES :: "string list" where
  "PA_FORMAT_NAMES = [''paInt8'', ''paInt16'', ''paInt24'', ''paInt32'']"

text \<open>
  \<^verbatim>\<open>Pa_GetDeviceCount\<close> (a negative count is an error, with its text), \<^verbatim>\<open>Pa_GetDefaultOutputDevice\<close>
  (\<open>None\<close> is \<^verbatim>\<open>paNoDevice\<close>), \<^verbatim>\<open>Pa_GetDeviceInfo\<close> and \<^verbatim>\<open>Pa_IsFormatSupported\<close>.
\<close>

datatype pa_answer = PaSupported | PaUnavailable | PaRefused

record pa_host =
  pa_count :: int
  pa_error_text :: string
  pa_default :: "nat option"
  pa_info :: "nat \<Rightarrow> pa_device option"
  pa_accepts :: "nat \<Rightarrow> u32 \<Rightarrow> pa_format \<Rightarrow> int \<Rightarrow> pa_answer"

definition pa_format_for :: "u8 \<Rightarrow> pa_format option" where
  "pa_format_for bits_per_sample = map_of (zip PROBE_BIT_DEPTHS PA_PROBE_FORMATS) bits_per_sample"

definition is_device_index :: "string \<Rightarrow> bool" where
  "is_device_index spec = (if spec = [] then False else find_first_not_of DIGITS spec = None)"

text \<open>\<^verbatim>\<open>std::tolower\<close> of one byte, in the C locale the program runs in.\<close>

definition to_lower :: "char \<Rightarrow> nat" where
  "to_lower c = (let n = of_char c in if 65 \<le> n \<and> n \<le> 90 then n + 32 else n)"

definition iequals :: "string \<Rightarrow> string option \<Rightarrow> bool" where
  "iequals spec other =
     (case other of
        None \<Rightarrow> False
      | Some name \<Rightarrow>
          if length spec \<noteq> length name then False
          else list_all (\<lambda>(a, c). to_lower a = to_lower c) (zip spec name))"

definition is_output_device :: "pa_device option \<Rightarrow> bool" where
  "is_output_device info = (case info of None \<Rightarrow> False | Some d \<Rightarrow> pd_outputs d > 0)"

fun join_indices :: "string \<Rightarrow> nat list \<Rightarrow> string" where
  "join_indices indices [] = indices"
| "join_indices indices (i # is) =
     join_indices ((if indices \<noteq> [] then indices @ '', '' else indices) @ to_string i) is"

definition name_matches :: "pa_host \<Rightarrow> string \<Rightarrow> nat list" where
  "name_matches h spec =
     filter (\<lambda>i. is_output_device (pa_info h i) \<and> iequals spec (Option.bind (pa_info h i) pd_name))
       [0..<nat (pa_count h)]"

definition resolve_pa_device :: "pa_host \<Rightarrow> string \<Rightarrow> string + nat" where
  "resolve_pa_device h spec =
     (let count = pa_count h in
      if count < 0 then Inl (''cannot enumerate PortAudio devices: '' @ pa_error_text h)
      else if count = 0 then Inl ''PortAudio found no audio devices on this host at all''
      else if spec = []
      then (case pa_default h of
              None \<Rightarrow> Inl ''this host has no PortAudio output device at all -- run with -l to see what it does have''
            | Some fallback \<Rightarrow> Inr fallback)
      else if is_device_index spec
      then (let index = strtoull spec in
            if index \<ge> nat count
            then Inl (''-o portaudio:'' @ spec @ '': no device at that index -- indices run 0-'' @
                   to_string (nat (count - 1)) @ '' here, and -l lists the ones -o can reach'')
            else if \<not> is_output_device (pa_info h index)
            then Inl (''-o portaudio:'' @ spec @ '': that device has no output channels -- run with -l, '' @
                   ''which lists only the ones -o can reach'')
            else Inr index)
      else
        (let found = name_matches h spec in
         if found = []
         then Inl (''-o portaudio:'' @ spec @ '': no output device by that name -- run with -l to list them'')
         else if length found > 1
         then Inl (''-o portaudio:'' @ spec @ '': '' @ to_string (length found) @
                '' output devices share that name (indices '' @ join_indices [] found @
                '') -- name the one you mean by index instead'')
         else Inr (hd found)))"

text \<open>The rate and depth grid of one device, row by row, ended by a device that is held elsewhere.\<close>

datatype pa_probe_status = PaProbeOk | PaProbeBusy | PaProbeNoDevice

fun probe_row :: "(pa_format \<Rightarrow> pa_answer) \<Rightarrow> pa_format list \<Rightarrow> bool list option" where
  "probe_row answer [] = Some []"
| "probe_row answer (f # fs) =
     (case answer f of
        PaUnavailable \<Rightarrow> None
      | PaSupported \<Rightarrow> map_option (Cons True) (probe_row answer fs)
      | PaRefused \<Rightarrow> map_option (Cons False) (probe_row answer fs))"

fun probe_grid :: "(u32 \<Rightarrow> pa_format \<Rightarrow> pa_answer) \<Rightarrow> u32 list \<Rightarrow> bool list list option" where
  "probe_grid answer [] = Some []"
| "probe_grid answer (r # rs) =
     (case probe_row (answer r) PA_PROBE_FORMATS of
        None \<Rightarrow> None
      | Some row \<Rightarrow> map_option (Cons row) (probe_grid answer rs))"

definition pa_no_capabilities :: sink_capabilities where
  "pa_no_capabilities = \<lparr>cap_rates = [], cap_bit_depths = [], cap_channels = []\<rparr>"

definition pa_probe_capabilities :: "pa_host \<Rightarrow> nat \<Rightarrow> pa_probe_status \<times> sink_capabilities" where
  "pa_probe_capabilities h dev =
     (case pa_info h dev of
        None \<Rightarrow> (PaProbeNoDevice, pa_no_capabilities)
      | Some info \<Rightarrow>
          if pd_outputs info \<le> 0 then (PaProbeNoDevice, pa_no_capabilities)
          else
            (let probe_channels = min 2 (pd_outputs info) in
             case probe_grid (\<lambda>r f. pa_accepts h dev r f probe_channels) PROBE_RATES of
               None \<Rightarrow> (PaProbeBusy, pa_no_capabilities)
             | Some accepted \<Rightarrow>
                 (let caps = pa_no_capabilities
                        \<lparr>cap_rates := map fst (filter (\<lambda>(r, row). list_ex id row) (zip PROBE_RATES accepted)),
                         cap_bit_depths := map fst (filter (\<lambda>(b, d). list_ex (\<lambda>row. row ! d) accepted)
                                                      (zip PROBE_BIT_DEPTHS [0..<length PROBE_BIT_DEPTHS]))\<rparr>
                  in case cap_bit_depths caps of
                       [] \<Rightarrow> (PaProbeOk, caps)
                     | front # _ \<Rightarrow>
                         (let probe_format = (case pa_format_for front of None \<Rightarrow> hd PA_PROBE_FORMATS | Some f \<Rightarrow> f)
                          in (PaProbeOk,
                              caps\<lparr>cap_channels :=
                                filter (\<lambda>n. pa_accepts h dev (pd_rate info) probe_format (int (unat n)) = PaSupported)
                                  (takeWhile (\<lambda>n. int (unat n) \<le> pd_outputs info) PROBE_CHANNELS)\<rparr>)))))"

text \<open>\<^verbatim>\<open>PortAudioSink::probe\<close> (the error, or \<open>None\<close>) and \<^verbatim>\<open>PortAudioSink::capabilities\<close>.\<close>

definition pa_probe :: "(string + pa_host) \<Rightarrow> string \<Rightarrow> string option" where
  "pa_probe initialised spec =
     (case initialised of
        Inl e \<Rightarrow> Some (''cannot initialise PortAudio: '' @ e)
      | Inr h \<Rightarrow> (case resolve_pa_device h spec of Inl e \<Rightarrow> Some e | Inr _ \<Rightarrow> None))"

definition pa_capabilities :: "pa_host \<Rightarrow> string \<Rightarrow> sink_capabilities" where
  "pa_capabilities h spec =
     (case resolve_pa_device h spec of
        Inl _ \<Rightarrow> permissive
      | Inr dev \<Rightarrow>
          (case pa_probe_capabilities h dev of
             (status, caps) \<Rightarrow> if status \<noteq> PaProbeOk then permissive else caps))"

text \<open>The listing: \<^verbatim>\<open>printf\<close> fields are padded, and never cut.\<close>

definition pad_left :: "nat \<Rightarrow> string \<Rightarrow> string" where
  "pad_left n t = replicate (n - length t) CHR '' '' @ t"

definition pad_right :: "nat \<Rightarrow> string \<Rightarrow> string" where
  "pad_right n t = t @ replicate (n - length t) CHR '' ''"

definition print_device_capabilities :: "pa_host \<Rightarrow> nat \<Rightarrow> string" where
  "print_device_capabilities h dev =
     (case pa_probe_capabilities h dev of
        (PaProbeBusy, _) \<Rightarrow> ''      (in use -- capabilities unknown)'' @ [NL]
      | (PaProbeNoDevice, _) \<Rightarrow> ''      (cannot query: the device went away)'' @ [NL]
      | (PaProbeOk, caps) \<Rightarrow> print_sink_capabilities caps PA_FORMAT_NAMES)"

definition listing_header :: string where
  "listing_header = ''  idx  name                                   host API     out ch  default rate'' @ [NL]"

definition listing_line :: "pa_host \<Rightarrow> nat \<Rightarrow> pa_device \<Rightarrow> string" where
  "listing_line h i info =
     ''  '' @ pad_left 3 (to_string i) @ ''  '' @ pad_right 38 (case pd_name info of None \<Rightarrow> ''(null)'' | Some n \<Rightarrow> n)
     @ '' '' @ pad_right 12 (case pd_host_api info of None \<Rightarrow> ''(unknown host API)'' | Some n \<Rightarrow> n)
     @ '' '' @ pad_left 2 (to_string (nat (pd_outputs info))) @ '' ch  '' @ pad_left 6 (pd_rate_text info) @ '' Hz''
     @ (if Some i = pa_default h then ''  (system default)'' else []) @ [NL]"

fun list_loop :: "pa_host \<Rightarrow> nat list \<Rightarrow> nat \<Rightarrow> string \<times> nat" where
  "list_loop h [] listed = ([], listed)"
| "list_loop h (i # is) listed =
     (case pa_info h i of
        None \<Rightarrow> list_loop h is listed
      | Some info \<Rightarrow>
          if \<not> is_output_device (Some info) then list_loop h is listed
          else (case list_loop h is (listed + 1) of
                  (rest, count) \<Rightarrow>
                    ((if listed = 0 then listing_header else []) @ listing_line h i info
                       @ print_device_capabilities h i @ rest, count)))"

definition pa_list_devices :: "(string + pa_host) \<Rightarrow> string" where
  "pa_list_devices initialised =
     (case initialised of
        Inl e \<Rightarrow> ''  (cannot initialise PortAudio: '' @ e @ '')'' @ [NL]
      | Inr h \<Rightarrow>
          if pa_count h < 0 then ''  (cannot enumerate PortAudio devices: '' @ pa_error_text h @ '')'' @ [NL]
          else (case list_loop h [0..<nat (pa_count h)] 0 of
                  (shown, listed) \<Rightarrow>
                    shown @ (if listed = 0 then ''  (this host has no PortAudio output devices)'' @ [NL] else [])))"

section \<open>A device spec names one device\<close>

text \<open>The equality \<open>iequals\<close> decides: the same bytes up to the case of ASCII letters.\<close>

lemma iequals_lower: "iequals spec (Some name) \<longleftrightarrow> map to_lower spec = map to_lower name"
proof (cases "length spec = length name")
  case True
  then show ?thesis
    by (induction spec name rule: list_induct2) (auto simp: iequals_def)
next
  case False
  then have "map to_lower spec \<noteq> map to_lower name" by (metis length_map)
  then show ?thesis using False by (simp add: iequals_def)
qed

definition named :: "pa_host \<Rightarrow> string \<Rightarrow> nat \<Rightarrow> bool" where
  "named h spec i \<longleftrightarrow> i < nat (pa_count h) \<and>
     (case pa_info h i of None \<Rightarrow> False
      | Some d \<Rightarrow> pd_outputs d > 0 \<and> (case pd_name d of None \<Rightarrow> False | Some n \<Rightarrow> map to_lower spec = map to_lower n))"

lemma iequals_eq: "iequals spec other = (case other of None \<Rightarrow> False | Some n \<Rightarrow> map to_lower spec = map to_lower n)"
proof (cases other)
  case None
  then show ?thesis by (simp add: iequals_def)
qed (simp add: iequals_lower)

lemma set_name_matches: "set (name_matches h spec) = {i. named h spec i}"
proof -
  have "is_output_device (pa_info h i) \<and> iequals spec (Option.bind (pa_info h i) pd_name) \<and> i < nat (pa_count h)
      \<longleftrightarrow> named h spec i" for i
    by (cases "pa_info h i") (auto simp: named_def is_output_device_def iequals_eq)
  then show ?thesis by (auto simp: name_matches_def)
qed

lemma unique_match:
  assumes "distinct xs"
  shows "length xs = 1 \<and> hd xs = i \<longleftrightarrow> set xs = {i}"
proof
  assume "set xs = {i}"
  then have "xs \<noteq> [] \<and> length xs = 1" using assms by (metis distinct_card card_1_singleton_iff set_empty insert_not_empty One_nat_def)
  then show "length xs = 1 \<and> hd xs = i" using \<open>set xs = {i}\<close> by (metis hd_in_set singletonD)
next
  assume "length xs = 1 \<and> hd xs = i"
  then show "set xs = {i}" by (cases xs) auto
qed

lemma is_device_index_digits: "is_device_index spec = all_digits spec"
  by (simp add: is_device_index_def all_digits_def)

lemma distinct_name_matches: "distinct (name_matches h spec)"
  by (simp add: name_matches_def)

lemma resolve_by_name:
  assumes "0 < pa_count h" "spec \<noteq> []" "\<not> all_digits spec"
  shows "resolve_pa_device h spec = Inr i \<longleftrightarrow> (\<forall>j. named h spec j = (j = i))"
proof -
  have "resolve_pa_device h spec = Inr i \<longleftrightarrow> length (name_matches h spec) = 1 \<and> hd (name_matches h spec) = i"
    using assms by (cases "name_matches h spec" rule: remdups_adj.cases)
      (simp_all add: resolve_pa_device_def Let_def is_device_index_digits)
  also have "\<dots> \<longleftrightarrow> {j. named h spec j} = {i}"
    using unique_match [OF distinct_name_matches] by (simp add: set_name_matches)
  finally show ?thesis by auto
qed

lemma resolve_by_index:
  assumes "0 < pa_count h" "pa_count h < 2 ^ 31" "all_digits spec"
  shows "resolve_pa_device h spec = Inr i \<longleftrightarrow>
    i = dec_val spec \<and> int i < pa_count h \<and> is_output_device (pa_info h i)"
proof -
  have n: "spec \<noteq> []" using assms(3) by (auto simp: all_digits_def)
  have "nat (pa_count h) \<le> ULLONG_MAX" using assms(2) by (simp add: ULLONG_MAX_def)
  then have "nat (pa_count h) \<le> strtoull spec \<longleftrightarrow> nat (pa_count h) \<le> dec_val spec"
    "\<not> nat (pa_count h) \<le> dec_val spec \<Longrightarrow> strtoull spec = dec_val spec"
    by (simp_all add: strtoull_def)
  then show ?thesis using assms n
    by (cases "nat (pa_count h) \<le> dec_val spec"; cases "is_output_device (pa_info h (dec_val spec))")
       (auto simp: resolve_pa_device_def Let_def is_device_index_digits)
qed

lemma resolve_default: "0 < pa_count h \<Longrightarrow> resolve_pa_device h [] = Inr i \<longleftrightarrow> pa_default h = Some i"
  by (simp add: resolve_pa_device_def split: option.split)

lemma resolve_nothing: "\<not> 0 < pa_count h \<Longrightarrow> resolve_pa_device h spec \<noteq> Inr i"
  by (auto simp: resolve_pa_device_def Let_def)

text \<open>
  \<^verbatim>\<open>-o portaudio:\<close> plays on a device exactly when the spec names that one and no other. Without a
  spec that is the host's default; a run of digits is the index itself, however long it is, and only of a
  device that has outputs; anything else is the name, up to the case of its letters, of exactly one of the
  devices that have outputs. Everything else is an error.
\<close>

lemma pa_device_is_the_one_named:
  assumes "pa_count h < 2 ^ 31"
  shows "resolve_pa_device h spec = Inr i \<longleftrightarrow>
    0 < pa_count h \<and>
    (if spec = [] then pa_default h = Some i
     else if all_digits spec
     then i = dec_val spec \<and> int i < pa_count h
       \<and> (case pa_info h i of None \<Rightarrow> False | Some d \<Rightarrow> 0 < pd_outputs d)
     else \<forall>j. named h spec j = (j = i))"
proof (cases "0 < pa_count h")
  case True
  then show ?thesis
    using resolve_default [OF True, of i] resolve_by_index [OF True assms, of spec i] resolve_by_name [OF True, of spec i]
    by (cases "spec = []"; cases "all_digits spec") (simp_all add: is_output_device_def)
qed (simp add: resolve_nothing)

definition two_cards :: pa_host where
  "two_cards = \<lparr>pa_count = 2, pa_error_text = [], pa_default = Some 1,
     pa_info = (\<lambda>i. Some \<lparr>pd_name = Some (if i = 0 then ''DAC'' else ''Built-in''), pd_outputs = 2, pd_rate = 48000,
                            pd_rate_text = ''48000'', pd_host_api = None\<rparr>),
     pa_accepts = (\<lambda>_ _ _ _. PaSupported)\<rparr>"

end
