(* ===== verification/PullSink.thy ===== *)
theory PullSink
  imports PcmRing RampStream SinkRecovery SinkContract AudioTypes
begin

text \<open>
  What \<^verbatim>\<open>src/src/portaudio_sink.cpp\<close> and \<^verbatim>\<open>src/src/pipewire_sink.cpp\<close> do alike: both keep the stream's
  audio in a \<^verbatim>\<open>PcmRingBuffer\<close> that a callback empties, and both let \<^verbatim>\<open>write()\<close> wait for room with the
  mutex released. The members the two classes share are the record \<open>pull_sink\<close>; each backend extends it (the PulseAudio sink
  has no ring, and extends what is left of it without one).
  A write is a machine that takes a turn of its loop at a time; between the turns it holds the mutex, and
  while it waits it does not. The locale \<open>ring_stream\<close> states what the operations of a backend must keep,
  and its lemma that the sink is then the abstract queue of \<open>sink_spec\<close>, whatever interleaves.
\<close>

section \<open>Definitions\<close>

record sink_core =
  sk_device :: string
  sk_buffer_ms :: u32
  sk_stream :: bool
  sk_rate :: u32
  sk_channels :: u8
  sk_bits :: u8
  sk_frame :: nat
  sk_step :: u64
  sk_generation :: nat
  sk_stopping :: bool
  sk_failed :: bool
  sk_format :: stream_format
  sk_recovery :: sink_recovery
  sk_volume :: u8
  sk_muted :: bool
  sk_target :: u64
  sk_current :: u64

record pull_sink = sink_core +
  sk_ring :: pcm_ring

definition no_format :: stream_format where
  "no_format = \<lparr>sample_rate = 0, channel_count = 0, bit_depth = 0\<rparr>"

definition frame_bytes :: "u8 \<Rightarrow> u8 \<Rightarrow> nat" where
  "frame_bytes channels bits = unat channels * (unat bits div 8)"

lemma frame_parts:
  assumes "unat bits div 8 \<in> {1, 2, 3, 4}" "channels \<noteq> 0"
  shows "unat (bits div 8) * unat channels = frame_bytes channels bits" "bits div 8 \<noteq> 0" "0 < frame_bytes channels bits"
proof -
  have w: "unat (bits div 8) = unat bits div 8" by (simp add: unat_div)
  then show "unat (bits div 8) * unat channels = frame_bytes channels bits" by (simp add: frame_bytes_def)
  have "unat (bits div 8) \<noteq> 0" using assms(1) w by auto
  then show "bits div 8 \<noteq> 0" by auto
  show "0 < frame_bytes channels bits" using assms by (auto simp: frame_bytes_def unat_gt_0)
qed

text \<open>What a write answers when there is no stream to feed, and none to be had.\<close>

definition discarded :: "nat \<Rightarrow> 'a sink_core_scheme \<Rightarrow> nat" where
  "discarded len s =
     (let frame = (if sk_frame s \<noteq> 0 then sk_frame s
                   else frame_bytes (channel_count (sk_format s)) (bit_depth (sk_format s)))
      in if frame = 0 then len else len - len mod frame)"

text \<open>A write in its loop: its bytes, how many of them are whole frames, and what it captured at the start.\<close>

record parked =
  pk_source :: "u8 list"
  pk_usable :: nat
  pk_frame :: nat
  pk_generation :: nat
  pk_done :: nat

datatype fill_turn = FillEnds | FillFeeds nat pcm_ring | FillWaits

definition fill_turn :: "'p parked_scheme \<Rightarrow> 'a pull_sink_scheme \<Rightarrow> fill_turn" where
  "fill_turn p s =
     (if \<not> pk_done p < pk_usable p then FillEnds
      else if sk_stopping s then FillEnds
      else
        (let remaining = pk_usable p - pk_done p;
             free = ring_free_space (sk_ring s);
             room = (if free < remaining then free - free mod pk_frame p else free)
         in if room > 0
            then (case ring_write (take (min remaining room) (drop (pk_done p) (pk_source p))) (sk_ring s) of
                    (written, ring) \<Rightarrow> if written = 0 then FillEnds else FillFeeds written ring)
            else FillWaits))"

text \<open>The condition a waiting write wakes on, and what it then does.\<close>

definition woken :: "'p parked_scheme \<Rightarrow> 'a pull_sink_scheme \<Rightarrow> bool" where
  "woken p s \<longleftrightarrow> ring_free_space (sk_ring s) \<ge> pk_frame p \<or> sk_stopping s
     \<or> \<not> sk_stream s \<or> sk_generation s \<noteq> pk_generation p"

datatype wait_turn = WaitEnds | WaitFills | WaitSleeps

definition wait_turn :: "bool \<Rightarrow> 'p parked_scheme \<Rightarrow> 'a pull_sink_scheme \<Rightarrow> wait_turn" where
  "wait_turn late p s =
     (if woken p s
      then (if \<not> sk_stream s \<or> sk_generation s \<noteq> pk_generation p then WaitEnds else WaitFills)
      else if late then WaitEnds else WaitSleeps)"

section \<open>The machine\<close>

text \<open>
  What a run shows from outside: the frame size and generation of a chunk put into the ring, with the
  generation its write began in; what the callback took; what a write returned, from its loop or (\<open>Unfed\<close>)
  before it; a flush, carried out at once or asked of the callback.
\<close>

datatype sink_log =
  Flushed
| FlushAsked
| Fed nat nat nat "u8 list"
| Played nat "u8 list"
| Returned nat nat
| Unfed nat nat

datatype 'p writer = NoWriter | Filling 'p | Waiting 'p

record ('s, 'p) pull_config =
  pc_sink :: 's
  pc_writer :: "'p writer"
  pc_log :: "sink_log list"

text \<open>
  An operation under the mutex, one that takes no lock, a write that begins, a turn of its loop, a
  look at its condition (and whether the deadline has passed), and the callback asking for frames.
\<close>

datatype ('o, 'b) pull_event =
  Locked 'o
| Unlocked 'o
| Begins 'b "u8 list"
| Turns
| Wakes bool
| Pulls nat

definition flush_log :: "'a pull_sink_scheme \<Rightarrow> 'a pull_sink_scheme \<Rightarrow> sink_log list" where
  "flush_log s s' =
     (if sk_generation s' = sk_generation s then []
      else if clear_requested (sk_ring s') then [FlushAsked] else [Flushed])"

text \<open>
  A backend: its operations and those of them that take no lock, the head of its write up to the loop, the
  tail after it, and its callback, when the stream is one the callback runs for.
\<close>

record ('o, 'b, 's, 'p) backend =
  bk_op :: "'o \<Rightarrow> 's \<Rightarrow> 's"
  bk_free :: "'o \<Rightarrow> bool"
  bk_begin :: "'b \<Rightarrow> u8 list \<Rightarrow> 's \<Rightarrow> (nat + 'p) \<times> 's"
  bk_end :: "'p \<Rightarrow> 's \<Rightarrow> 's"
  bk_pull :: "nat \<Rightarrow> 's \<Rightarrow> (u8 list \<times> 's) option"

definition returns ::
  "('o, 'b, 'a pull_sink_scheme, 'p parked_scheme) backend \<Rightarrow> 'p parked_scheme
     \<Rightarrow> ('a pull_sink_scheme, 'p parked_scheme) pull_config \<Rightarrow> ('a pull_sink_scheme, 'p parked_scheme) pull_config"
where
  "returns b p c = c\<lparr>pc_sink := bk_end b p (pc_sink c), pc_writer := NoWriter,
     pc_log := pc_log c @ [Returned (length (pk_source p)) (pk_done p)]\<rparr>"

fun pull_step ::
  "('o, 'b, 'a pull_sink_scheme, 'p parked_scheme) backend \<Rightarrow> ('o, 'b) pull_event
     \<Rightarrow> ('a pull_sink_scheme, 'p parked_scheme) pull_config \<Rightarrow> ('a pull_sink_scheme, 'p parked_scheme) pull_config"
where
  "pull_step b (Locked op) c =
     (case pc_writer c of
        Filling p \<Rightarrow> c
      | _ \<Rightarrow> (let s' = bk_op b op (pc_sink c)
             in c\<lparr>pc_sink := s', pc_log := pc_log c @ flush_log (pc_sink c) s'\<rparr>))"
| "pull_step b (Unlocked op) c =
     (if bk_free b op then c\<lparr>pc_sink := bk_op b op (pc_sink c)\<rparr> else c)"
| "pull_step b (Begins e data) c =
     (case pc_writer c of
        NoWriter \<Rightarrow>
          (case bk_begin b e data (pc_sink c) of
             (answer, s') \<Rightarrow>
               (let c' = c\<lparr>pc_sink := s', pc_log := pc_log c @ flush_log (pc_sink c) s'\<rparr>
                in case answer of
                     Inl n \<Rightarrow> c'\<lparr>pc_log := pc_log c' @ [Unfed (length data) n]\<rparr>
                   | Inr p \<Rightarrow> c'\<lparr>pc_writer := Filling p\<rparr>))
      | _ \<Rightarrow> c)"
| "pull_step b Turns c =
     (case pc_writer c of
        Filling p \<Rightarrow>
          (case fill_turn p (pc_sink c) of
             FillEnds \<Rightarrow> returns b p c
           | FillWaits \<Rightarrow> c\<lparr>pc_writer := Waiting p\<rparr>
           | FillFeeds n ring \<Rightarrow>
               c\<lparr>pc_sink := (pc_sink c)\<lparr>sk_ring := ring\<rparr>, pc_writer := Filling (p\<lparr>pk_done := pk_done p + n\<rparr>),
                 pc_log := pc_log c @ [Fed (pk_generation p) (sk_generation (pc_sink c)) (sk_frame (pc_sink c))
                                         (take n (drop (pk_done p) (pk_source p)))]\<rparr>)
      | _ \<Rightarrow> c)"
| "pull_step b (Wakes late) c =
     (case pc_writer c of
        Waiting p \<Rightarrow>
          (case wait_turn late p (pc_sink c) of
             WaitEnds \<Rightarrow> returns b p c
           | WaitFills \<Rightarrow> c\<lparr>pc_writer := Filling p\<rparr>
           | WaitSleeps \<Rightarrow> c)
      | _ \<Rightarrow> c)"
| "pull_step b (Pulls n) c =
     (case bk_pull b n (pc_sink c) of
        None \<Rightarrow> c
      | Some (bytes, s') \<Rightarrow> c\<lparr>pc_sink := s', pc_log := pc_log c @ [Played (sk_frame (pc_sink c)) bytes]\<rparr>)"

definition pull_run ::
  "('o, 'b, 'a pull_sink_scheme, 'p parked_scheme) backend \<Rightarrow> ('o, 'b) pull_event list
     \<Rightarrow> 'a pull_sink_scheme \<Rightarrow> ('a pull_sink_scheme, 'p parked_scheme) pull_config"
where
  "pull_run b evs s = fold (pull_step b) evs \<lparr>pc_sink = s, pc_writer = NoWriter, pc_log = []\<rparr>"

section \<open>The abstract sink\<close>

text \<open>
  A queue of bytes. Every chunk fed goes to its end and every chunk played comes from its front, in
  whole frames; a write feeds the stream it began in and no other, and returns exactly what it fed; a
  flush empties the queue, at once or when the callback next asks. \<open>None\<close>: the log breaks a rule.
\<close>

record sink_spec =
  sp_queue :: "u8 list"
  sp_asked :: bool
  sp_fed :: nat

fun spec_step :: "sink_log \<Rightarrow> sink_spec \<Rightarrow> sink_spec option" where
  "spec_step Flushed a = Some (a\<lparr>sp_queue := [], sp_asked := False\<rparr>)"
| "spec_step FlushAsked a = Some (a\<lparr>sp_asked := True\<rparr>)"
| "spec_step (Fed began now frame bytes) a =
     (if began = now \<and> frame dvd length bytes
      then Some (a\<lparr>sp_queue := sp_queue a @ bytes, sp_fed := sp_fed a + length bytes\<rparr>) else None)"
| "spec_step (Played frame bytes) a =
     (if sp_asked a
      then (if bytes = [] then Some (a\<lparr>sp_queue := [], sp_asked := False\<rparr>) else None)
      else if bytes = take (length bytes) (sp_queue a) \<and> frame dvd length bytes
      then Some (a\<lparr>sp_queue := drop (length bytes) (sp_queue a)\<rparr>) else None)"
| "spec_step (Returned offered n) a =
     (if n = sp_fed a \<and> n \<le> offered then Some (a\<lparr>sp_fed := 0\<rparr>) else None)"
| "spec_step (Unfed offered n) a =
     (if sp_fed a = 0 \<and> n \<le> offered then Some a else None)"

fun spec_run :: "sink_log list \<Rightarrow> sink_spec \<Rightarrow> sink_spec option" where
  "spec_run [] a = Some a"
| "spec_run (l # ls) a = Option.bind (spec_step l a) (spec_run ls)"

definition empty_spec :: sink_spec where
  "empty_spec = \<lparr>sp_queue = [], sp_asked = False, sp_fed = 0\<rparr>"

lemma spec_run_append: "spec_run (xs @ ys) a = Option.bind (spec_run xs a) (spec_run ys)"
  by (induction xs arbitrary: a) (simp_all split: bind_split)

section \<open>What a backend keeps\<close>

text \<open>The stream's buffer: a ring in order, holding whole frames of the stream that is configured.\<close>

definition buffer_ok :: "'a pull_sink_scheme \<Rightarrow> bool" where
  "buffer_ok s \<longleftrightarrow> ring_ok (sk_ring s) \<and> sk_frame s dvd length (ring_contents (sk_ring s))
     \<and> (clear_requested (sk_ring s) \<longrightarrow> 0 < capacity (sk_ring s))"

text \<open>
  The step of an operation: the stream is as it was, or its generation is a later one and the buffer is
  empty or will be emptied by the callback.
\<close>

definition stream_step :: "'a pull_sink_scheme \<Rightarrow> 'a pull_sink_scheme \<Rightarrow> bool" where
  "stream_step s s' \<longleftrightarrow>
     (if sk_generation s' = sk_generation s
      then sk_ring s' = sk_ring s \<and> sk_frame s' = sk_frame s \<and> sk_stream s' = sk_stream s
      else sk_generation s < sk_generation s'
        \<and> (if clear_requested (sk_ring s')
           then sk_ring s' = ring_request_clear (sk_ring s) \<and> sk_frame s' = sk_frame s
           else ring_contents (sk_ring s') = []))"

lemma stream_step_refl [simp]: "stream_step s s"
  by (simp add: stream_step_def)

text \<open>What every operation but a flush does: nothing to the stream, or a new one with an empty buffer.\<close>

definition fresh_stream :: "nat \<Rightarrow> 'a pull_sink_scheme \<Rightarrow> bool" where
  "fresh_stream g s' \<longleftrightarrow> g < sk_generation s' \<and> \<not> clear_requested (sk_ring s') \<and> ring_contents (sk_ring s') = []"

definition kept_or_fresh :: "'a pull_sink_scheme \<Rightarrow> 'a pull_sink_scheme \<Rightarrow> bool" where
  "kept_or_fresh s s' \<longleftrightarrow>
     sk_generation s' = sk_generation s \<and> sk_ring s' = sk_ring s \<and> sk_frame s' = sk_frame s \<and> sk_stream s' = sk_stream s
     \<or> fresh_stream (sk_generation s) s'"

lemma kept_or_fresh_refl [simp]: "kept_or_fresh s s"
  by (simp add: kept_or_fresh_def)

lemma kept_or_fresh_trans: "kept_or_fresh s t \<Longrightarrow> kept_or_fresh t u \<Longrightarrow> kept_or_fresh s u"
  by (auto simp: kept_or_fresh_def fresh_stream_def)

lemma fresh_stream_less: "fresh_stream g s \<Longrightarrow> h \<le> g \<Longrightarrow> fresh_stream h s"
  by (simp add: fresh_stream_def)

lemma fresh_is_fresh: "fresh_stream (sk_generation s) s' \<Longrightarrow> kept_or_fresh s s'"
  by (simp add: kept_or_fresh_def)

lemma dropped_ring:
  "ring_ok r \<Longrightarrow> ring_ok (ring_drop r) \<and> ring_contents (ring_drop r) = [] \<and> \<not> clear_requested (ring_drop r)
     \<and> capacity (ring_drop r) = capacity r \<and> ring_available (ring_drop r) = 0"
  by (auto simp: ring_drop_def ring_contents_def ring_available_def ring_distance_0 ring_ok_def)

lemma ring_read_whole:
  assumes "ring_ok r" "frame dvd length (ring_contents r)" "clear_requested r \<Longrightarrow> 0 < capacity r"
    and "ring_read (n * frame) r = (k, dest, r')"
  shows "ring_ok r' \<and> capacity r' = capacity r \<and> k \<le> length dest \<and> frame dvd length (ring_contents r')
    \<and> \<not> clear_requested r'"
proof (cases "clear_requested r")
  case True
  then show ?thesis using ring_read_clear [OF assms(1) True assms(4)] assms(3) by auto
next
  case False
  have "frame dvd length (drop k (ring_contents r))" if "k = min (n * frame) (ring_available r)"
    using that assms(2) by (auto simp: min_def dvd_diff_nat)
  then show ?thesis using ring_read_law [OF assms(1) False assms(4)] by auto
qed

lemma available_reset [simp]: "c \<le> 2 ^ 63 \<Longrightarrow> ring_available (ring_reset c r) = 0"
  by (metis ring_ok_reset(3) length_ring_contents list.size(3))

lemma kept_or_fresh_step: "kept_or_fresh s s' \<Longrightarrow> stream_step s s'"
  by (auto simp: kept_or_fresh_def fresh_stream_def stream_step_def)

text \<open>A write that has captured the stream it feeds.\<close>

definition parked_ok :: "'p parked_scheme \<Rightarrow> bool" where
  "parked_ok p \<longleftrightarrow> 0 < pk_frame p \<and> pk_frame p dvd pk_usable p \<and> pk_usable p \<le> length (pk_source p)
     \<and> pk_frame p dvd pk_done p \<and> pk_done p \<le> pk_usable p"

definition belongs :: "'p parked_scheme \<Rightarrow> 'a pull_sink_scheme \<Rightarrow> bool" where
  "belongs p s \<longleftrightarrow> pk_generation p = sk_generation s \<and> pk_frame p = sk_frame s"

lemma contents_request_clear [simp]: "ring_contents (ring_request_clear r) = ring_contents r"
  by (simp add: ring_request_clear_def ring_contents_def ring_available_def)

lemma fill_turn_feeds:
  assumes "fill_turn p s = FillFeeds n ring" "parked_ok p" "pk_frame p = sk_frame s" "buffer_ok s"
  defines "chunk \<equiv> take n (drop (pk_done p) (pk_source p))"
  shows "length chunk = n \<and> pk_frame p dvd n \<and> pk_done p + n \<le> pk_usable p \<and> 0 < n
    \<and> ring_ok ring \<and> ring_contents ring = ring_contents (sk_ring s) @ chunk
    \<and> clear_requested ring = clear_requested (sk_ring s) \<and> capacity ring = capacity (sk_ring s)"
proof -
  let ?rem = "pk_usable p - pk_done p" and ?free = "ring_free_space (sk_ring s)" and ?f = "pk_frame p"
  define room where "room = (if ?free < ?rem then ?free - ?free mod ?f else ?free)"
  have less: "pk_done p < pk_usable p" and "0 < room" and n: "0 < n"
    and w: "ring_write (take (min ?rem room) (drop (pk_done p) (pk_source p))) (sk_ring s) = (n, ring)"
    using assms(1) by (auto simp: fill_turn_def Let_def room_def [symmetric] split: if_splits prod.splits)
  have ok: "ring_ok (sk_ring s)" using assms(4) by (simp add: buffer_ok_def)
  have rem: "?f dvd ?rem" "?rem \<le> length (drop (pk_done p) (pk_source p))"
    using assms(2) less by (auto simp: parked_ok_def dvd_diff_nat)
  have "room \<le> ?free" by (simp add: room_def)
  moreover have "(if ?free < ?rem then ?f dvd room else room = ?free)"
    by (simp add: room_def minus_mod_eq_div_mult)
  ultimately have "?f dvd room \<or> ?rem \<le> room" by (cases "?free < ?rem") simp_all
  then have m: "?f dvd min ?rem room" using rem(1) unfolding min_def by (metis (full_types))
  have m2: "min ?rem room \<le> ?free" using \<open>room \<le> ?free\<close> by (metis min.coboundedI2)
  have l: "length (take (min ?rem room) (drop (pk_done p) (pk_source p))) = min ?rem room" using rem(2) by simp
  note law = ring_write_law [OF ok w]
  have "?free = capacity (sk_ring s) - 1 - ring_available (sk_ring s)"
    by (simp add: ring_free_space_def)
  moreover have "n = min (min ?rem room) (capacity (sk_ring s) - 1 - ring_available (sk_ring s))"
    using law l by metis
  ultimately have nn: "n = min ?rem room" using m2 by (metis min.absorb1)
  have d: "?f dvd n" using m nn by (simp only:)
  have le: "n \<le> ?rem" unfolding nn by (rule min.cobounded1)
  have len: "length chunk = n" using rem(2) le by (simp add: chunk_def)
  have "take (min ?rem room) (drop (pk_done p) (pk_source p)) = chunk" by (simp only: chunk_def nn)
  then have "ring_contents ring = ring_contents (sk_ring s) @ chunk" using law by (metis len order_refl take_all)
  moreover have "pk_done p + n \<le> pk_usable p" using le less by linarith
  ultimately show ?thesis using law d len n by blast
qed

text \<open>
  What the world may answer: an event is lawful when the answers it carries are, and a buffer offered fits
  the address space.
\<close>

fun lawful_event :: "('o \<Rightarrow> bool) \<Rightarrow> ('b \<Rightarrow> bool) \<Rightarrow> ('o, 'b) pull_event \<Rightarrow> bool" where
  "lawful_event lo lb (Locked op) = lo op"
| "lawful_event lo lb (Unlocked op) = lo op"
| "lawful_event lo lb (Begins e data) \<longleftrightarrow> lb e \<and> length data < 2 ^ 64"
| "lawful_event lo lb _ = True"

locale ring_stream =
  fixes b :: "('o, 'b, 'a pull_sink_scheme, 'p parked_scheme) backend"
    and inv_sink :: "'a pull_sink_scheme \<Rightarrow> bool"
    and lo :: "'o \<Rightarrow> bool"
    and lb :: "'b \<Rightarrow> bool"
  assumes op_law: "inv_sink s \<Longrightarrow> lo op \<Longrightarrow> inv_sink (bk_op b op s) \<and> stream_step s (bk_op b op s)"
    and free_law: "inv_sink s \<Longrightarrow> bk_free b op \<Longrightarrow> sk_generation (bk_op b op s) = sk_generation s"
    and begin_law: "inv_sink s \<Longrightarrow> lb e \<Longrightarrow> length data < 2 ^ 64 \<Longrightarrow> bk_begin b e data s = (answer, s') \<Longrightarrow>
      inv_sink s' \<and> stream_step s s' \<and>
      (case answer of Inl n \<Rightarrow> n \<le> length data
       | Inr p \<Rightarrow> parked_ok p \<and> belongs p s' \<and> pk_done p = 0)"
    and end_law: "inv_sink s \<Longrightarrow> inv_sink (bk_end b p s) \<and> sk_ring (bk_end b p s) = sk_ring s
      \<and> sk_generation (bk_end b p s) = sk_generation s \<and> sk_frame (bk_end b p s) = sk_frame s"
    and pull_law: "inv_sink s \<Longrightarrow> bk_pull b n s = Some (bytes, s') \<Longrightarrow>
      inv_sink s' \<and> sk_generation s' = sk_generation s \<and> sk_frame s' = sk_frame s
      \<and> (\<exists>dest. ring_read (n * sk_frame s) (sk_ring s) = (length bytes, dest, sk_ring s') \<and> bytes = take (length bytes) dest)"
    and fed_law: "inv_sink s \<Longrightarrow> ring_ok ring \<Longrightarrow> clear_requested ring = clear_requested (sk_ring s) \<Longrightarrow>
      capacity ring = capacity (sk_ring s) \<Longrightarrow> sk_frame s dvd length (ring_contents ring) \<Longrightarrow>
      inv_sink (s\<lparr>sk_ring := ring\<rparr>)"
    and inv_stream: "inv_sink s \<Longrightarrow> buffer_ok s"
begin

definition config_ok :: "('a pull_sink_scheme, 'p parked_scheme) pull_config \<Rightarrow> bool" where
  "config_ok c \<longleftrightarrow> inv_sink (pc_sink c)
     \<and> (case pc_writer c of
          NoWriter \<Rightarrow> True
        | Filling p \<Rightarrow> parked_ok p \<and> belongs p (pc_sink c)
        | Waiting p \<Rightarrow> parked_ok p
            \<and> (pk_generation p = sk_generation (pc_sink c) \<longrightarrow> pk_frame p = sk_frame (pc_sink c))
            \<and> pk_generation p \<le> sk_generation (pc_sink c))
     \<and> spec_run (pc_log c) empty_spec =
         Some \<lparr>sp_queue = ring_contents (sk_ring (pc_sink c)), sp_asked = clear_requested (sk_ring (pc_sink c)),
               sp_fed = (case pc_writer c of NoWriter \<Rightarrow> 0 | Filling p \<Rightarrow> pk_done p | Waiting p \<Rightarrow> pk_done p)\<rparr>"

lemma flush_spec:
  assumes "stream_step s s'"
  shows "spec_run (flush_log s s') \<lparr>sp_queue = ring_contents (sk_ring s), sp_asked = clear_requested (sk_ring s), sp_fed = n\<rparr>
    = Some \<lparr>sp_queue = ring_contents (sk_ring s'), sp_asked = clear_requested (sk_ring s'), sp_fed = n\<rparr>"
  using assms by (auto simp: stream_step_def flush_log_def split: if_splits)

lemma config_ok_returns:
  assumes "config_ok c" "pc_writer c = Filling p \<or> pc_writer c = Waiting p"
  shows "config_ok (returns b p c)"
  using assms end_law [of "pc_sink c" p]
  by (auto simp: config_ok_def returns_def spec_run_append parked_ok_def)

lemma config_ok_locked:
  assumes "config_ok c" "lo op"
  shows "config_ok (pull_step b (Locked op) c)"
proof -
  let ?s = "pc_sink c" and ?t = "bk_op b op (pc_sink c)"
  have law: "inv_sink ?t" "stream_step ?s ?t" using assms op_law by (auto simp: config_ok_def)
  show ?thesis using assms law flush_spec [OF law(2)]
    by (cases "pc_writer c") (auto simp: config_ok_def Let_def spec_run_append stream_step_def split: if_splits)
qed

lemma config_ok_unlocked:
  assumes "config_ok c" "lo op"
  shows "config_ok (pull_step b (Unlocked op) c)"
  using assms op_law [of "pc_sink c" op] free_law [of "pc_sink c" op]
  by (cases "pc_writer c") (auto simp: config_ok_def stream_step_def belongs_def split: if_splits)

lemma config_ok_begins:
  assumes "config_ok c" "lb e" "length data < 2 ^ 64"
  shows "config_ok (pull_step b (Begins e data) c)"
proof (cases "pc_writer c")
  case NoWriter
  obtain answer s' where w: "bk_begin b e data (pc_sink c) = (answer, s')" by fastforce
  have law: "inv_sink s'" "stream_step (pc_sink c) s'"
    and ans: "case answer of Inl n \<Rightarrow> n \<le> length data | Inr p \<Rightarrow> parked_ok p \<and> belongs p s' \<and> pk_done p = 0"
    using assms begin_law [OF _ _ _ w] by (auto simp: config_ok_def)
  show ?thesis using assms NoWriter w law ans flush_spec [OF law(2), of 0]
    by (cases answer) (auto simp: config_ok_def Let_def spec_run_append)
qed (use assms in auto)

lemma config_ok_turns:
  assumes "config_ok c"
  shows "config_ok (pull_step b Turns c)"
proof (cases "pc_writer c")
  case (Filling p)
  let ?s = "pc_sink c"
  have ok: "inv_sink ?s" "parked_ok p" "belongs p ?s" using assms Filling by (auto simp: config_ok_def)
  show ?thesis
  proof (cases "fill_turn p ?s")
    case FillEnds
    then show ?thesis using assms Filling config_ok_returns by simp
  next
    case FillWaits
    then show ?thesis using assms Filling by (simp add: config_ok_def belongs_def)
  next
    case (FillFeeds n ring)
    have eq: "pk_frame p = sk_frame ?s" using ok(3) by (simp add: belongs_def)
    note feeds = fill_turn_feeds [OF FillFeeds ok(2) eq inv_stream [OF ok(1)]]
    have "sk_frame ?s dvd length (ring_contents (sk_ring ?s))" using inv_stream [OF ok(1)] by (simp add: buffer_ok_def)
    then have dvd: "sk_frame ?s dvd length (ring_contents ring)" using feeds eq by (metis dvd_add length_append)
    have "inv_sink (?s\<lparr>sk_ring := ring\<rparr>)" using fed_law [OF ok(1) _ _ _ dvd] feeds by blast
    then show ?thesis using assms Filling FillFeeds feeds ok eq
      by (simp add: config_ok_def spec_run_append parked_ok_def belongs_def)
  qed
qed (use assms in auto)

lemma config_ok_wakes:
  assumes "config_ok c"
  shows "config_ok (pull_step b (Wakes late) c)"
proof (cases "pc_writer c")
  case (Waiting p)
  show ?thesis
  proof (cases "wait_turn late p (pc_sink c)")
    case WaitEnds
    then show ?thesis using assms Waiting config_ok_returns by simp
  next
    case WaitFills
    then have "pk_generation p = sk_generation (pc_sink c)"
      by (auto simp: wait_turn_def split: if_splits)
    then show ?thesis using assms Waiting WaitFills by (simp add: config_ok_def belongs_def)
  qed (use assms Waiting in simp)
qed (use assms in auto)

lemma config_ok_pulls:
  assumes "config_ok c"
  shows "config_ok (pull_step b (Pulls n) c)"
proof (cases "bk_pull b n (pc_sink c)")
  case (Some answer)
  let ?s = "pc_sink c"
  obtain bytes s' where p: "bk_pull b n ?s = Some (bytes, s')" using Some by (cases answer) auto
  have inv: "inv_sink ?s" using assms by (simp add: config_ok_def)
  obtain dest where rd: "ring_read (n * sk_frame ?s) (sk_ring ?s) = (length bytes, dest, sk_ring s')"
    and bytes: "bytes = take (length bytes) dest"
    and keep: "inv_sink s'" "sk_generation s' = sk_generation ?s" "sk_frame s' = sk_frame ?s"
    using pull_law [OF inv p] by blast
  have ok: "ring_ok (sk_ring ?s)" "sk_frame ?s dvd length (ring_contents (sk_ring ?s))"
    and cap: "clear_requested (sk_ring ?s) \<Longrightarrow> 0 < capacity (sk_ring ?s)"
    using inv_stream [OF inv] by (auto simp: buffer_ok_def)
  have "spec_step (Played (sk_frame ?s) bytes)
      \<lparr>sp_queue = ring_contents (sk_ring ?s), sp_asked = clear_requested (sk_ring ?s), sp_fed = k\<rparr>
    = Some \<lparr>sp_queue = ring_contents (sk_ring s'), sp_asked = clear_requested (sk_ring s'), sp_fed = k\<rparr>" for k
  proof (cases "clear_requested (sk_ring ?s)")
    case True
    then show ?thesis using ring_read_clear [OF ok(1) True rd] cap by simp
  next
    case False
    note law = ring_read_law [OF ok(1) False rd]
    then have "length (take (length bytes) (ring_contents (sk_ring ?s))) = length bytes" by simp
    then have "bytes = take (length bytes) (ring_contents (sk_ring ?s))"
      using law bytes by (metis append_eq_conv_conj)
    moreover have "sk_frame ?s dvd length bytes" using law ok(2) by (auto simp: min_def split: if_splits)
    ultimately show ?thesis using law False by simp
  qed
  then show ?thesis using assms p keep
    by (cases "pc_writer c") (auto simp: config_ok_def spec_run_append belongs_def)
qed (use assms in auto)

lemma config_ok_step: "config_ok c \<Longrightarrow> lawful_event lo lb ev \<Longrightarrow> config_ok (pull_step b ev c)"
  by (cases ev)
     (simp_all only: config_ok_locked config_ok_unlocked config_ok_begins config_ok_turns config_ok_wakes
       config_ok_pulls lawful_event.simps)

lemma config_ok_fold: "config_ok c \<Longrightarrow> list_all (lawful_event lo lb) evs \<Longrightarrow> config_ok (fold (pull_step b) evs c)"
  by (induction evs arbitrary: c) (simp_all add: config_ok_step del: pull_step.simps)

lemma sink_is_queue:
  assumes "inv_sink s" "ring_contents (sk_ring s) = []" "\<not> clear_requested (sk_ring s)"
    "list_all (lawful_event lo lb) evs" "pull_run b evs s = c"
  shows "inv_sink (pc_sink c) \<and> (\<exists>n. spec_run (pc_log c) empty_spec =
    Some \<lparr>sp_queue = ring_contents (sk_ring (pc_sink c)), sp_asked = clear_requested (sk_ring (pc_sink c)), sp_fed = n\<rparr>)"
proof -
  have "config_ok \<lparr>pc_sink = s, pc_writer = NoWriter, pc_log = []\<rparr>"
    using assms by (simp add: config_ok_def empty_spec_def)
  from config_ok_fold [OF this assms(4)] show ?thesis using assms(5) by (auto simp: pull_run_def config_ok_def)
qed

end

end
