(* ===== verification/PortAudioSink.thy ===== *)
theory PortAudioSink
  imports PortAudioDevice PullSink
begin

text \<open>
  \<^verbatim>\<open>src/src/portaudio_sink.{h,cpp}\<close>: the guard around \<^verbatim>\<open>Pa_Initialize\<close>/\<^verbatim>\<open>Pa_Terminate\<close> and the sink over
  one PortAudio stream. What PortAudio answers to an opening is an input; what it was asked is a result,
  as a list of \<open>pa_call\<close>. \<open>pa_active\<close> is what \<^verbatim>\<open>Pa_IsStreamActive\<close> says of the stream: true from a start
  that succeeded until the stream is aborted or closed, or its device goes away. The stop flag can be set
  while a stream is being opened, and each opening says whether it was.
\<close>

section \<open>Definitions\<close>

definition MIN_RING_FRAMES :: nat where "MIN_RING_FRAMES = 1024"

record portaudio_sink = pull_sink +
  pa_up :: bool
  pa_index :: "nat option"
  pa_active :: bool

text \<open>What PortAudio was asked, with whether it worked where that matters.\<close>

datatype pa_call = PaInitialize bool | PaTerminate | PaOpen bool | PaStart bool | PaAbort bool | PaClose

text \<open>
  The answers to one opening: the devices there are (when PortAudio is up: otherwise it says that it is
  not), the stream's latency as \<^verbatim>\<open>device_latency_s * stream_rate_ * RING_LATENCY_MULTIPLE\<close> frames, and
  whether shutdown began meanwhile.
\<close>

record pa_world =
  pw_host :: pa_host
  pw_open :: bool
  pw_latency_frames :: nat
  pw_start :: bool
  pw_abort :: bool
  pw_stopped :: bool

definition pa_devices :: "pa_world \<Rightarrow> portaudio_sink \<Rightarrow> pa_host" where
  "pa_devices w s =
     (if pa_up s then pw_host w
      else (pw_host w)\<lparr>pa_count := - 10000, pa_error_text := ''PortAudio not initialized'', pa_info := (\<lambda>_. None)\<rparr>)"

text \<open>The guard: its construction, its destruction and its restart.\<close>

definition guard_open :: "bool \<Rightarrow> bool \<times> pa_call list" where
  "guard_open ok = (ok, [PaInitialize ok])"

definition guard_close :: "bool \<Rightarrow> pa_call list" where
  "guard_close up = (if up then [PaTerminate] else [])"

definition guard_reinitialize :: "bool \<Rightarrow> bool \<Rightarrow> bool \<times> pa_call list" where
  "guard_reinitialize ok up = (ok, (if up then [PaTerminate] else []) @ [PaInitialize ok])"

definition new_portaudio_sink :: "bool \<Rightarrow> string \<Rightarrow> u32 \<Rightarrow> portaudio_sink" where
  "new_portaudio_sink up spec buffer_ms =
     \<lparr>sk_device = spec, sk_buffer_ms = buffer_ms, sk_stream = False, sk_rate = 0,
      sk_channels = 0, sk_bits = 0, sk_frame = 0, sk_step = 0, sk_generation = 0, sk_stopping = False,
      sk_failed = False, sk_format = no_format, sk_recovery = fresh_recovery,
      sk_volume = DEFAULT_SINK_VOLUME, sk_muted = False, sk_target = Q32_ONE, sk_current = Q32_ONE, sk_ring = new_ring,
      pa_up = up, pa_index = None, pa_active = False\<rparr>"

definition portaudio_name :: "portaudio_sink \<Rightarrow> string" where
  "portaudio_name s = (if sk_device s = [] then ''portaudio'' else ''portaudio:'' @ sk_device s)"

definition pa_ring_capacity :: "nat \<Rightarrow> portaudio_sink \<Rightarrow> nat" where
  "pa_ring_capacity frames_by_latency s =
     (let frames_by_time = unat (sk_rate s) * unat (sk_buffer_ms s) div 1000;
          frames = max (max frames_by_time frames_by_latency) MIN_RING_FRAMES
      in frames * sk_frame s + 1)"

definition pa_close_stream :: "portaudio_sink \<Rightarrow> portaudio_sink \<times> pa_call list" where
  "pa_close_stream s =
     (s\<lparr>sk_stream := False, pa_active := False, sk_generation := sk_generation s + 1, pa_index := None,
        sk_rate := 0, sk_channels := 0, sk_bits := 0, sk_frame := 0, sk_step := 0,
        sk_ring := ring_reset 0 (sk_ring s)\<rparr>,
      if sk_stream s then [PaAbort True, PaClose] else [])"

text \<open>What an opening writes before the stream exists, for the callback to read.\<close>

definition pa_set_format :: "nat \<Rightarrow> u32 \<Rightarrow> u8 \<Rightarrow> u8 \<Rightarrow> portaudio_sink \<Rightarrow> portaudio_sink" where
  "pa_set_format dev rate channels bits s =
     s\<lparr>sk_generation := sk_generation s + 1, pa_index := Some dev, sk_rate := rate, sk_channels := channels,
       sk_bits := bits, sk_frame := frame_bytes channels bits, sk_step := volume_ramp_step rate,
       sk_current := sk_target s\<rparr>"

definition pa_open_stream ::
  "pa_world \<Rightarrow> nat \<Rightarrow> u32 \<Rightarrow> u8 \<Rightarrow> u8 \<Rightarrow> portaudio_sink \<Rightarrow> bool \<times> portaudio_sink \<times> pa_call list"
where
  "pa_open_stream w dev rate channels bits s =
     (case pa_format_for bits of
        None \<Rightarrow> (False, s, [])
      | Some format \<Rightarrow>
          if channels = 0 \<or> rate = 0 then (False, s, [])
          else case pa_info (pa_devices w s) dev of
            None \<Rightarrow> (False, s, [])
          | Some info \<Rightarrow>
              if int (unat channels) > pd_outputs info then (False, s, [])
              else
                (let s1 = pa_set_format dev rate channels bits s in
                 if \<not> pw_open w
                 then (case pa_close_stream (s1\<lparr>sk_stream := False\<rparr>) of (s', t) \<Rightarrow> (False, s', PaOpen False # t))
                 else
                   (let s2 = s1\<lparr>sk_stream := True,
                          sk_ring := ring_reset (pa_ring_capacity (pw_latency_frames w) s1) (sk_ring s1)\<rparr>
                    in if \<not> pw_start w
                       then (case pa_close_stream s2 of (s', t) \<Rightarrow> (False, s', [PaOpen True, PaStart False] @ t))
                       else (True, s2\<lparr>pa_active := True, sk_failed := False\<rparr>, [PaOpen True, PaStart True]))))"

definition pa_restart_stream :: "pa_world \<Rightarrow> portaudio_sink \<Rightarrow> bool \<times> portaudio_sink \<times> pa_call list" where
  "pa_restart_stream w s =
     (if \<not> pw_abort w then (False, s, [PaAbort False])
      else
        (let s1 = s\<lparr>pa_active := False, sk_generation := sk_generation s + 1, sk_ring := ring_drop (sk_ring s),
               sk_current := sk_target s\<rparr>
         in if \<not> pw_start w then (False, s1, [PaAbort True, PaStart False])
            else (True, s1\<lparr>pa_active := True, sk_failed := False\<rparr>, [PaAbort True, PaStart True])))"

definition pa_stream_alive :: "portaudio_sink \<Rightarrow> bool" where
  "pa_stream_alive s = (if \<not> sk_stream s then False else pa_active s)"

text \<open>The stop flag, when shutdown began during the opening.\<close>

definition pa_latch :: "pa_world \<Rightarrow> portaudio_sink \<Rightarrow> portaudio_sink" where
  "pa_latch w s = (if pw_stopped w then s\<lparr>sk_stopping := True\<rparr> else s)"

definition pa_reopen_in_place :: "pa_world \<Rightarrow> portaudio_sink \<Rightarrow> bool \<times> portaudio_sink \<times> pa_call list" where
  "pa_reopen_in_place w s =
     (if \<not> sk_stream s \<or> sk_stopping s \<or> sample_rate (sk_format s) = 0 then (False, s, [])
      else case reopen_due (sk_recovery s) of
        (False, r) \<Rightarrow> (False, s\<lparr>sk_recovery := r\<rparr>, [])
      | (True, r) \<Rightarrow>
          (let s1 = s\<lparr>sk_recovery := r\<rparr> in
           case resolve_pa_device (pa_devices w s1) (sk_device s1) of
             Inl _ \<Rightarrow> (False, s1\<lparr>sk_recovery := reopen_done False r\<rparr>, [])
           | Inr dev \<Rightarrow>
               (let f = sk_format s1; (s2, t) = pa_close_stream s1;
                    (ok, s3, t') = pa_open_stream w dev (sample_rate f) (channel_count f) (bit_depth f) s2
                in if \<not> ok then (False, s3\<lparr>sk_recovery := reopen_done False (sk_recovery s3)\<rparr>, t @ t')
                   else
                     (let s4 = pa_latch w (s3\<lparr>sk_recovery := reopen_done True (sk_recovery s3)\<rparr>) in
                      if sk_stopping s4
                      then (case pa_close_stream s4 of (s5, t'') \<Rightarrow> (False, s5, t @ t' @ t''))
                      else (True, s4, t @ t')))))"

text \<open>The stream that just ended has this device and format.\<close>

definition pa_same_stream :: "nat \<Rightarrow> u32 \<Rightarrow> u8 \<Rightarrow> u8 \<Rightarrow> portaudio_sink \<Rightarrow> bool" where
  "pa_same_stream dev rate channels bits s \<longleftrightarrow>
     sk_stream s \<and> pa_index s = Some dev \<and> sk_rate s = rate \<and> sk_channels s = channels \<and> sk_bits s = bits"

definition pa_configure ::
  "pa_world \<Rightarrow> u32 \<Rightarrow> u8 \<Rightarrow> u8 \<Rightarrow> portaudio_sink \<Rightarrow> bool \<times> portaudio_sink \<times> pa_call list"
where
  "pa_configure w rate channels bits s =
     (if sk_stopping s then (False, s, [])
      else
        (let s1 = s\<lparr>sk_format := \<lparr>sample_rate = rate, channel_count = channels, bit_depth = bits\<rparr>\<rparr> in
         case resolve_pa_device (pa_devices w s1) (sk_device s1) of
           Inl _ \<Rightarrow> (False, s1\<lparr>sk_failed := True\<rparr>, [])
         | Inr dev \<Rightarrow>
             (let (reused, s2, t) = (if pa_same_stream dev rate channels bits s1 then pa_restart_stream w s1 else (False, s1, []))
              in if reused then (True, s2\<lparr>sk_recovery := reset_recovery (sk_recovery s2)\<rparr>, t)
                 else
                   (let (s3, t') = pa_close_stream s2;
                        (ok, s4, t'') = pa_open_stream w dev rate channels bits s3
                    in if \<not> ok then (False, s4\<lparr>sk_failed := True\<rparr>, t @ t' @ t'')
                       else (True, s4\<lparr>sk_recovery := reset_recovery (sk_recovery s4)\<rparr>, t @ t' @ t'')))))"

text \<open>
  A write up to its loop: the answer when there is nothing to feed, or the write that starts filling
  (with no whole frame to feed it ends at once, having fed nothing), and what PortAudio was asked.
\<close>

definition pa_write_begins ::
  "pa_world \<Rightarrow> u8 list \<Rightarrow> portaudio_sink \<Rightarrow> (nat + parked) \<times> portaudio_sink \<times> pa_call list"
where
  "pa_write_begins w data s =
     (if data = [] then (Inl 0, s, [])
      else
        (let usable_now = pa_stream_alive s \<and> sk_frame s \<noteq> 0;
             (ready, s1, t) = (if usable_now then (True, s, []) else pa_reopen_in_place w s)
         in if \<not> ready
            then (Inl (discarded (length data) s1), s1\<lparr>sk_failed := True\<rparr>, t)
            else
              (let usable = length data - length data mod sk_frame s1 in
               if usable = 0 then (Inl 0, s1, t)
               else (Inr \<lparr>pk_source = data, pk_usable = usable, pk_frame = sk_frame s1,
                           pk_generation = sk_generation s1, pk_done = 0\<rparr>, s1, t))))"

definition pa_clear :: "portaudio_sink \<Rightarrow> portaudio_sink" where
  "pa_clear s =
     (let s1 = s\<lparr>sk_generation := sk_generation s + 1\<rparr> in
      if pa_stream_alive s1 then s1\<lparr>sk_ring := ring_request_clear (sk_ring s1)\<rparr>
      else s1\<lparr>sk_ring := ring_drop (sk_ring s1)\<rparr>)"

text \<open>\<^verbatim>\<open>stop()\<close>: the latch, which takes no lock, and the rest, which does.\<close>

definition pa_stop_latch :: "portaudio_sink \<Rightarrow> portaudio_sink" where
  "pa_stop_latch s = s\<lparr>sk_stopping := True\<rparr>"

definition pa_stop :: "portaudio_sink \<Rightarrow> portaudio_sink \<times> pa_call list" where
  "pa_stop s =
     (let s1 = (pa_stop_latch s)\<lparr>sk_format := no_format\<rparr> in
      if \<not> sk_stream s1 then (s1, []) else pa_close_stream s1)"

definition pa_destroy :: "portaudio_sink \<Rightarrow> portaudio_sink \<times> pa_call list" where
  "pa_destroy s =
     (case pa_close_stream (pa_stop_latch s) of (s', t) \<Rightarrow> (s', t @ guard_close (pa_up s')))"

definition pa_poll :: "pa_world \<Rightarrow> bool \<Rightarrow> int \<Rightarrow> portaudio_sink \<Rightarrow> portaudio_sink \<times> pa_call list" where
  "pa_poll w up now s =
     (if \<not> pending (sk_recovery s) \<or> sk_stopping s then (s, [])
      else if sample_rate (sk_format s) = 0 then (s, [])
      else case rescan_due now (sk_recovery s) of
        (False, r) \<Rightarrow> (s\<lparr>sk_recovery := r\<rparr>, [])
      | (True, r) \<Rightarrow>
          (let f = sk_format s;
               (s1, t) = pa_close_stream (s\<lparr>sk_recovery := rescan_done True r\<rparr>);
               (ok, t') = guard_reinitialize up (pa_up s1);
               s2 = s1\<lparr>pa_up := ok\<rparr>
           in if \<not> ok then (s2, t @ t')
              else case resolve_pa_device (pa_devices w s2) (sk_device s2) of
                Inl _ \<Rightarrow> (s2, t @ t')
              | Inr dev \<Rightarrow>
                  (let (opened, s3, t'') = pa_open_stream w dev (sample_rate f) (channel_count f) (bit_depth f) s2
                   in if \<not> opened then (s3, t @ t' @ t'')
                      else if sk_stopping (pa_latch w s3)
                      then (case pa_close_stream (pa_latch w s3) of (s4, t''') \<Rightarrow> (s4, t @ t' @ t'' @ t'''))
                      else (s3, t @ t' @ t''))))"

definition pa_update_target :: "(u8 \<Rightarrow> u64) \<Rightarrow> 'a pull_sink_scheme \<Rightarrow> 'a pull_sink_scheme" where
  "pa_update_target curve s = s\<lparr>sk_target := q32_gain_for curve (sk_volume s) (sk_muted s)\<rparr>"

definition pa_set_volume :: "(u8 \<Rightarrow> u64) \<Rightarrow> u8 \<Rightarrow> portaudio_sink \<Rightarrow> portaudio_sink" where
  "pa_set_volume curve volume s = pa_update_target curve (s\<lparr>sk_volume := (if volume > 100 then 100 else volume)\<rparr>)"

definition pa_set_muted :: "(u8 \<Rightarrow> u64) \<Rightarrow> bool \<Rightarrow> portaudio_sink \<Rightarrow> portaudio_sink" where
  "pa_set_muted curve muted s = pa_update_target curve (s\<lparr>sk_muted := muted\<rparr>)"

text \<open>
  The callback for so many frames: the real audio it took from the ring, what it leaves in PortAudio's
  buffer, the frames it reports as played (if any), and the sink after it.
\<close>

record callback_result =
  cb_read :: "u8 list"
  cb_output :: "u8 list"
  cb_reported :: "u32 option"
  cb_sink :: portaudio_sink

definition pa_callback :: "nat \<Rightarrow> portaudio_sink \<Rightarrow> callback_result" where
  "pa_callback frame_count s =
     (let bytes_requested = frame_count * sk_frame s;
          (bytes_read, out, ring) = ring_read bytes_requested (sk_ring s);
          s1 = s\<lparr>sk_ring := ring\<rparr>;
          target = sk_target s1; current = sk_current s1;
          (out', s2) = (if current \<noteq> target \<or> target \<noteq> Q32_ONE
                        then (case apply_volume_ramp out (sk_bits s1 div 8) (sk_channels s1) current target (sk_step s1) of
                                (scaled, gain) \<Rightarrow> (scaled, s1\<lparr>sk_current := gain\<rparr>))
                        else (out, s1))
      in \<lparr>cb_read = take bytes_read out, cb_output = out',
          cb_reported = (if bytes_read > 0 then Some (of_nat (bytes_read div sk_frame s)) else None),
          cb_sink = s2\<rparr>)"

section \<open>The stream and its buffer\<close>

text \<open>What is done to the sink other than writing; \<open>PaDies\<close> is the stream's device going away.\<close>

datatype pa_op =
  PaConfigure pa_world u32 u8 u8
| PaClear
| PaStopLatch
| PaStop
| PaPoll pa_world bool int
| PaVolume u8
| PaMute bool
| PaDies

fun portaudio_op :: "(u8 \<Rightarrow> u64) \<Rightarrow> pa_op \<Rightarrow> portaudio_sink \<Rightarrow> portaudio_sink \<times> pa_call list" where
  "portaudio_op curve (PaConfigure w rate channels bits) s = snd (pa_configure w rate channels bits s)"
| "portaudio_op curve PaClear s = (pa_clear s, [])"
| "portaudio_op curve PaStopLatch s = (pa_stop_latch s, [])"
| "portaudio_op curve PaStop s = pa_stop s"
| "portaudio_op curve (PaPoll w up now) s = pa_poll w up now s"
| "portaudio_op curve (PaVolume v) s = (pa_set_volume curve v s, [])"
| "portaudio_op curve (PaMute m) s = (pa_set_muted curve m s, [])"
| "portaudio_op curve PaDies s = (s\<lparr>pa_active := False\<rparr>, [])"

definition takes_no_lock :: "pa_op \<Rightarrow> bool" where
  "takes_no_lock op = (case op of PaStopLatch \<Rightarrow> True | PaVolume _ \<Rightarrow> True | PaMute _ \<Rightarrow> True | PaDies \<Rightarrow> True | _ \<Rightarrow> False)"

definition portaudio_backend :: "(u8 \<Rightarrow> u64) \<Rightarrow> (pa_op, pa_world, portaudio_sink, parked) backend" where
  "portaudio_backend curve =
     \<lparr>bk_op = (\<lambda>op s. fst (portaudio_op curve op s)), bk_free = takes_no_lock,
      bk_begin = (\<lambda>w data s. case pa_write_begins w data s of (answer, s', _) \<Rightarrow> (answer, s')),
      bk_end = (\<lambda>p s. s),
      bk_pull = (\<lambda>n s. if pa_active s then Some (cb_read (pa_callback n s), cb_sink (pa_callback n s)) else None)\<rparr>"

text \<open>The latency of a device is within an hour at any rate; the buffer is the parser's two seconds at most.\<close>

definition lawful_world :: "pa_world \<Rightarrow> bool" where
  "lawful_world w \<longleftrightarrow> pw_latency_frames w \<le> 2 ^ 45"

definition lawful_pa_op :: "pa_op \<Rightarrow> bool" where
  "lawful_pa_op op = (case op of PaConfigure w _ _ _ \<Rightarrow> lawful_world w | PaPoll w _ _ \<Rightarrow> lawful_world w | _ \<Rightarrow> True)"

definition pa_stream_inv :: "portaudio_sink \<Rightarrow> bool" where
  "pa_stream_inv s \<longleftrightarrow> buffer_ok s \<and> unat (sk_buffer_ms s) \<le> 2000
     \<and> (if sk_stream s
        then pa_format_for (sk_bits s) \<noteq> None \<and> sk_channels s \<noteq> 0 \<and> sk_rate s \<noteq> 0
          \<and> sk_frame s = frame_bytes (sk_channels s) (sk_bits s) \<and> sk_step s = volume_ramp_step (sk_rate s)
          \<and> 0 < capacity (sk_ring s)
        else sk_frame s = 0 \<and> capacity (sk_ring s) = 0 \<and> \<not> pa_active s)"

lemma pa_format_width: "pa_format_for bits \<noteq> None \<Longrightarrow> unat bits div 8 \<in> {1, 2, 3, 4}"
  by (auto simp: pa_format_for_def PROBE_BIT_DEPTHS_def PA_PROBE_FORMATS_def split: if_splits)

lemma frame_bytes_pos: "pa_format_for bits \<noteq> None \<Longrightarrow> channels \<noteq> 0 \<Longrightarrow> 0 < frame_bytes channels bits"
  using pa_format_width [of bits] by (auto simp: frame_bytes_def unat_gt_0)

lemma frame_bytes_less: "frame_bytes channels bits \<le> 255 * 31"
proof -
  have "unat channels \<le> 255" "unat bits div 8 \<le> 31" using unat_u8_less [of channels] unat_u8_less [of bits] by linarith+
  then show ?thesis unfolding frame_bytes_def by (rule mult_le_mono)
qed

lemma pa_ring_capacity_bound:
  assumes "lawful_world w" "unat (sk_buffer_ms s) \<le> 2000" "sk_frame s = frame_bytes channels bits"
  shows "pa_ring_capacity (pw_latency_frames w) s \<le> 2 ^ 63"
proof -
  have "unat (sk_rate s) * unat (sk_buffer_ms s) div 1000 \<le> 2 ^ 33"
  proof -
    have "unat (sk_rate s) * unat (sk_buffer_ms s) \<le> 4294967296 * 2000"
      using unat_u32_less [of "sk_rate s"] assms(2) by (intro mult_le_mono) linarith+
    then have "unat (sk_rate s) * unat (sk_buffer_ms s) div 1000 \<le> 4294967296 * 2000 div 1000" by (rule div_le_mono)
    then show ?thesis by simp
  qed
  then have "max (max (unat (sk_rate s) * unat (sk_buffer_ms s) div 1000) (pw_latency_frames w)) MIN_RING_FRAMES \<le> 2 ^ 45"
    using assms(1) by (simp add: lawful_world_def MIN_RING_FRAMES_def)
  then have "pa_ring_capacity (pw_latency_frames w) s \<le> 2 ^ 45 * (255 * 31) + 1"
    using frame_bytes_less [of channels bits] assms(3) unfolding pa_ring_capacity_def Let_def
    by (intro add_mono mult_le_mono) simp_all
  then show ?thesis by simp
qed

lemma closed_stream:
  assumes "unat (sk_buffer_ms s) \<le> 2000" "pa_close_stream s = (s', t)"
  shows "pa_stream_inv s' \<and> fresh_stream (sk_generation s) s' \<and> \<not> sk_stream s' \<and> sk_buffer_ms s' = sk_buffer_ms s"
  using assms ring_ok_reset [of 0 "sk_ring s"]
  by (auto simp: pa_close_stream_def pa_stream_inv_def buffer_ok_def fresh_stream_def)

lemma opened_stream:
  assumes "pa_stream_inv s" "\<not> sk_stream s" "lawful_world w" "pa_open_stream w dev rate channels bits s = (ok, s', t)"
  shows "pa_stream_inv s' \<and> kept_or_fresh s s' \<and> sk_stream s' = ok \<and> sk_buffer_ms s' = sk_buffer_ms s"
proof (cases "pa_format_for bits = None \<or> channels = 0 \<or> rate = 0 \<or> (case pa_info (pa_devices w s) dev of None \<Rightarrow> True
    | Some info \<Rightarrow> int (unat channels) > pd_outputs info)")
  case True
  then have "\<not> ok" "s' = s" using assms(4) by (auto simp: pa_open_stream_def split: option.splits if_splits)
  then show ?thesis using assms(1,2) by simp
next
  case False
  let ?s1 = "pa_set_format dev rate channels bits s"
  let ?cap = "pa_ring_capacity (pw_latency_frames w) ?s1"
  let ?s2 = "?s1\<lparr>sk_stream := True, sk_ring := ring_reset ?cap (sk_ring ?s1)\<rparr>"
  have b: "unat (sk_buffer_ms s) \<le> 2000" using assms(1) by (simp add: pa_stream_inv_def)
  have cap: "?cap \<le> 2 ^ 63" "0 < ?cap"
    using pa_ring_capacity_bound [OF assms(3), of ?s1 channels bits] b
    by (auto simp: pa_set_format_def pa_ring_capacity_def Let_def)
  note reset = ring_ok_reset [of ?cap "sk_ring ?s1"]
  have gen: "sk_generation s < sk_generation ?s1" "sk_buffer_ms ?s1 = sk_buffer_ms s"
    by (simp_all add: pa_set_format_def)
  consider (refused) "\<not> pw_open w" | (dead) "pw_open w" "\<not> pw_start w" | (runs) "pw_open w" "pw_start w" by blast
  then show ?thesis
  proof cases
    case refused
    then have "\<not> ok" "s' = fst (pa_close_stream (?s1\<lparr>sk_stream := False\<rparr>))"
      using assms(4) False by (auto simp: pa_open_stream_def Let_def split: option.splits if_splits prod.splits)
    moreover obtain u t' where "pa_close_stream (?s1\<lparr>sk_stream := False\<rparr>) = (u, t')" by fastforce
    ultimately show ?thesis using closed_stream [of "?s1\<lparr>sk_stream := False\<rparr>" u t'] b gen
      by (auto intro!: fresh_is_fresh intro: fresh_stream_less less_imp_le)
  next
    case dead
    then have "\<not> ok" "s' = fst (pa_close_stream ?s2)"
      using assms(4) False by (auto simp: pa_open_stream_def Let_def split: option.splits if_splits prod.splits)
    moreover obtain u t' where "pa_close_stream ?s2 = (u, t')" by fastforce
    ultimately show ?thesis using closed_stream [of ?s2 u t'] b gen
      by (auto intro!: fresh_is_fresh intro: fresh_stream_less less_imp_le)
  next
    case runs
    then have s': "ok" "s' = ?s2\<lparr>pa_active := True, sk_failed := False\<rparr>"
      using assms(4) False by (auto simp: pa_open_stream_def Let_def split: option.splits if_splits prod.splits)
    have "pa_stream_inv s'" using False b cap reset unfolding s'(2)
      by (simp add: pa_stream_inv_def buffer_ok_def pa_set_format_def)
    then show ?thesis using s' gen cap reset by (simp add: fresh_is_fresh fresh_stream_def)
  qed
qed

lemma restarted_stream:
  assumes "pa_stream_inv s" "sk_stream s" "pa_restart_stream w s = (ok, s', t)"
  shows "pa_stream_inv s' \<and> kept_or_fresh s s' \<and> sk_stream s' \<and> sk_buffer_ms s' = sk_buffer_ms s"
proof -
  have ok: "ring_ok (sk_ring s)" "0 < capacity (sk_ring s)" using assms(1,2) by (auto simp: pa_stream_inv_def buffer_ok_def)
  show ?thesis using assms ok dropped_ring [OF ok(1)]
    by (auto simp: pa_restart_stream_def pa_stream_inv_def buffer_ok_def fresh_stream_def Let_def split: if_splits
        intro!: fresh_is_fresh)
qed

text \<open>The members no stream depends on.\<close>

lemma pa_inv_other [simp]:
  "pa_stream_inv (s\<lparr>sk_recovery := r\<rparr>) = pa_stream_inv s"
  "pa_stream_inv (s\<lparr>sk_format := f\<rparr>) = pa_stream_inv s"
  "pa_stream_inv (s\<lparr>sk_failed := b\<rparr>) = pa_stream_inv s"
  "pa_stream_inv (s\<lparr>sk_stopping := b\<rparr>) = pa_stream_inv s"
  "pa_stream_inv (s\<lparr>sk_target := g\<rparr>) = pa_stream_inv s"
  "pa_stream_inv (s\<lparr>sk_current := g\<rparr>) = pa_stream_inv s"
  "pa_stream_inv (s\<lparr>sk_volume := v\<rparr>) = pa_stream_inv s"
  "pa_stream_inv (s\<lparr>sk_muted := b\<rparr>) = pa_stream_inv s"
  "pa_stream_inv (s\<lparr>pa_up := b\<rparr>) = pa_stream_inv s"
  by (simp_all add: pa_stream_inv_def buffer_ok_def)

lemma kept_other [simp]:
  fixes s :: portaudio_sink
  shows "kept_or_fresh s (s'\<lparr>sk_recovery := r\<rparr>) = kept_or_fresh s s'"
  "kept_or_fresh s (s'\<lparr>sk_format := f\<rparr>) = kept_or_fresh s s'"
  "kept_or_fresh s (s'\<lparr>sk_failed := b\<rparr>) = kept_or_fresh s s'"
  "kept_or_fresh s (s'\<lparr>sk_stopping := b\<rparr>) = kept_or_fresh s s'"
  "kept_or_fresh s (s'\<lparr>pa_up := b\<rparr>) = kept_or_fresh s s'"
  "kept_or_fresh (s\<lparr>sk_recovery := r\<rparr>) s' = kept_or_fresh s s'"
  "kept_or_fresh (s\<lparr>sk_format := f\<rparr>) s' = kept_or_fresh s s'"
  "kept_or_fresh (s\<lparr>sk_failed := b\<rparr>) s' = kept_or_fresh s s'"
  "kept_or_fresh (s\<lparr>sk_stopping := b\<rparr>) s' = kept_or_fresh s s'"
  "kept_or_fresh (s\<lparr>pa_up := b\<rparr>) s' = kept_or_fresh s s'"
  by (simp_all add: kept_or_fresh_def fresh_stream_def)

text \<open>One stream closed and the next opened, as every caller of the two does.\<close>

lemma reopened_stream:
  assumes "pa_stream_inv s" "lawful_world w" "pa_close_stream s = (s1, t)"
    and "pa_open_stream w dev rate channels bits s2 = (ok, s', t')"
    and "s2 = s1 \<or> s2 = s1\<lparr>pa_up := up\<rparr>"
  shows "pa_stream_inv s' \<and> kept_or_fresh s s' \<and> sk_stream s' = ok \<and> unat (sk_buffer_ms s') \<le> 2000"
proof -
  have b: "unat (sk_buffer_ms s) \<le> 2000" using assms(1) by (simp add: pa_stream_inv_def)
  note c = closed_stream [OF b assms(3)]
  have s2: "pa_stream_inv s2" "\<not> sk_stream s2" "kept_or_fresh s s2" using c assms(5) by (auto intro: fresh_is_fresh)
  note op = opened_stream [OF s2(1,2) assms(2,4)]
  then have "pa_stream_inv s'" by blast
  then have "unat (sk_buffer_ms s') \<le> 2000" by (simp add: pa_stream_inv_def)
  then show ?thesis using op s2(3) kept_or_fresh_trans by blast
qed

lemma reclosed_stream:
  assumes "pa_stream_inv s" "kept_or_fresh r s" "pa_close_stream s = (s', t)"
  shows "pa_stream_inv s' \<and> kept_or_fresh r s'"
proof -
  have b: "unat (sk_buffer_ms s) \<le> 2000" using assms(1) by (simp add: pa_stream_inv_def)
  show ?thesis using closed_stream [OF b assms(3)] assms(2) kept_or_fresh_trans fresh_is_fresh by metis
qed

lemma configure_stream:
  assumes "pa_stream_inv s" "lawful_world w" "pa_configure w rate channels bits s = (ok, s', t)"
  shows "pa_stream_inv s' \<and> kept_or_fresh s s'"
proof -
  let ?s1 = "s\<lparr>sk_format := \<lparr>sample_rate = rate, channel_count = channels, bit_depth = bits\<rparr>\<rparr>"
  consider (early) "pa_stream_inv s'" "kept_or_fresh s s'"
    | (tries) dev where "resolve_pa_device (pa_devices w ?s1) (sk_device s) = Inr dev" "\<not> sk_stopping s"
    using assms by (cases "resolve_pa_device (pa_devices w ?s1) (sk_device s)"; cases "sk_stopping s")
      (auto simp: pa_configure_def Let_def)
  then show ?thesis
  proof cases
    case tries
    obtain reused s2 t2 where re: "(if pa_same_stream dev rate channels bits ?s1 then pa_restart_stream w ?s1 else (False, ?s1, [])) = (reused, s2, t2)"
      by (metis prod_cases3)
    have s1: "pa_stream_inv ?s1" "kept_or_fresh s ?s1" using assms(1) by simp_all
    have s2: "pa_stream_inv s2" "kept_or_fresh s s2"
      using re s1 restarted_stream [OF s1(1), of w reused s2 t2] kept_or_fresh_trans [OF s1(2), of s2]
      by (auto simp: pa_same_stream_def split: if_splits)
    show ?thesis
    proof (cases reused)
      case True
      then show ?thesis using assms(3) tries re s2
        by (auto simp: pa_configure_def Let_def split: prod.splits)
    next
      case False
      obtain s3 t3 ok4 s4 t4 where c: "pa_close_stream s2 = (s3, t3)" "pa_open_stream w dev rate channels bits s3 = (ok4, s4, t4)"
        by (metis prod_cases3 surj_pair)
      have "pa_stream_inv s4" "kept_or_fresh s s4"
        using reopened_stream [OF s2(1) assms(2) c disjI1 [OF refl]] kept_or_fresh_trans [OF s2(2)] by simp_all
      moreover have "s' = s4\<lparr>sk_failed := True\<rparr> \<or> s' = s4\<lparr>sk_recovery := reset_recovery (sk_recovery s4)\<rparr>"
        using assms(3) tries re False c
        by (auto simp: pa_configure_def Let_def split: prod.splits if_splits)
      ultimately show ?thesis by auto
    qed
  qed simp
qed

lemma latch_other [simp]:
  "pa_stream_inv (pa_latch w s) = pa_stream_inv s" "kept_or_fresh r (pa_latch w s) = kept_or_fresh r s"
  "sk_stream (pa_latch w s) = sk_stream s"
  by (simp_all add: pa_latch_def)

lemma reopen_stream:
  assumes "pa_stream_inv s" "lawful_world w" "pa_reopen_in_place w s = (ok, s', t)"
  shows "pa_stream_inv s' \<and> kept_or_fresh s s' \<and> (ok \<longrightarrow> sk_stream s')"
proof (cases "\<not> sk_stream s \<or> sk_stopping s \<or> sample_rate (sk_format s) = 0")
  case True
  then show ?thesis using assms(1,3) by (auto simp: pa_reopen_in_place_def)
next
  case False
  obtain yes r where due: "reopen_due (sk_recovery s) = (yes, r)" by fastforce
  let ?s1 = "s\<lparr>sk_recovery := r\<rparr>" and ?f = "sk_format s"
  consider (no) "\<not> yes" | (gone) e where yes "resolve_pa_device (pa_devices w ?s1) (sk_device s) = Inl e"
    | (tries) dev where yes "resolve_pa_device (pa_devices w ?s1) (sk_device s) = Inr dev"
    by (cases yes; cases "resolve_pa_device (pa_devices w ?s1) (sk_device s)") auto
  then show ?thesis
  proof cases
    case no
    then have "(ok, s', t) = (False, ?s1, [])" unfolding assms(3) [symmetric] using False due by (simp add: pa_reopen_in_place_def)
    then show ?thesis using assms(1) by simp
  next
    case gone
    then have "(ok, s', t) = (False, ?s1\<lparr>sk_recovery := reopen_done False r\<rparr>, [])"
      unfolding assms(3) [symmetric] using False due by (simp add: pa_reopen_in_place_def)
    then show ?thesis using assms(1) by simp
  next
    case (tries dev)
    note dev = tries(2)
    obtain s2 t2 where c: "pa_close_stream ?s1 = (s2, t2)" by fastforce
    obtain ok3 s3 t3 where op: "pa_open_stream w dev (sample_rate ?f) (channel_count ?f) (bit_depth ?f) s2 = (ok3, s3, t3)"
      by (metis prod_cases3)
    have "pa_stream_inv ?s1" using assms(1) by simp
    from reopened_stream [OF this assms(2) c op disjI1 [OF refl]]
    have s3: "pa_stream_inv s3" "kept_or_fresh s s3" "sk_stream s3 = ok3" by simp_all
    let ?s4 = "pa_latch w (s3\<lparr>sk_recovery := reopen_done True (sk_recovery s3)\<rparr>)"
    obtain s5 t5 where c5: "pa_close_stream ?s4 = (s5, t5)" by fastforce
    have s5: "pa_stream_inv s5" "kept_or_fresh s s5" using reclosed_stream [OF _ _ c5, of s] s3 by simp_all
    have "(ok, s', t) = (if \<not> ok3 then (False, s3\<lparr>sk_recovery := reopen_done False (sk_recovery s3)\<rparr>, t2 @ t3)
        else if sk_stopping ?s4 then (False, s5, t2 @ t3 @ t5) else (True, ?s4, t2 @ t3))"
      unfolding assms(3) [symmetric] using False due tries(1)
      by (simp add: pa_reopen_in_place_def Let_def dev c op c5)
    then consider "ok = False" "s' = s3\<lparr>sk_recovery := reopen_done False (sk_recovery s3)\<rparr>" | "ok = False" "s' = s5"
      | "ok = True" "s' = ?s4" ok3
      by (cases ok3; cases "sk_stopping ?s4") (simp_all only: if_True if_False not_False_eq_True not_True_eq_False prod.inject)
    then show ?thesis using s3 s5 by cases simp_all
  qed
qed

lemma poll_stream:
  assumes "pa_stream_inv s" "lawful_world w" "pa_poll w up now s = (s', t)"
  shows "pa_stream_inv s' \<and> kept_or_fresh s s'"
proof (cases "\<not> pending (sk_recovery s) \<or> sk_stopping s \<or> sample_rate (sk_format s) = 0")
  case True
  then show ?thesis using assms(1,3) by (auto simp: pa_poll_def split: if_splits)
next
  case False
  obtain yes r where due: "rescan_due now (sk_recovery s) = (yes, r)" by fastforce
  let ?s0 = "s\<lparr>sk_recovery := rescan_done True r\<rparr>" and ?f = "sk_format s"
  obtain s1 t1 where c: "pa_close_stream ?s0 = (s1, t1)" by fastforce
  let ?s2 = "s1\<lparr>pa_up := up\<rparr>"
  have b: "unat (sk_buffer_ms ?s0) \<le> 2000" using assms(1) by (simp add: pa_stream_inv_def)
  have s2: "pa_stream_inv ?s2" "kept_or_fresh s ?s2" "kept_or_fresh ?s0 s1"
    using closed_stream [OF b c] by (auto dest: fresh_is_fresh)
  consider (no) "\<not> yes" | (down) yes "\<not> up \<or> (\<exists>e. resolve_pa_device (pa_devices w ?s2) (sk_device s1) = Inl e)"
    | (tries) dev where yes up "resolve_pa_device (pa_devices w ?s2) (sk_device s1) = Inr dev"
    by (cases yes; cases up; cases "resolve_pa_device (pa_devices w ?s2) (sk_device s1)") auto
  then show ?thesis
  proof cases
    case no
    then have "s' = s\<lparr>sk_recovery := r\<rparr>" using assms(3) False due by (simp add: pa_poll_def)
    then show ?thesis using assms(1) by simp
  next
    case down
    then have "s' = ?s2" using assms(3) False due c
      by (cases up) (auto simp: pa_poll_def guard_reinitialize_def Let_def)
    then show ?thesis using s2 by simp
  next
    case tries
    obtain ok3 s3 t3 where op: "pa_open_stream w dev (sample_rate ?f) (channel_count ?f) (bit_depth ?f) ?s2 = (ok3, s3, t3)"
      by (metis prod_cases3)
    have "pa_stream_inv ?s0" using assms(1) by simp
    from reopened_stream [OF this assms(2) c op disjI2 [OF refl]]
    have s3: "pa_stream_inv s3" "kept_or_fresh s s3" by simp_all
    obtain s4 t4 where c4: "pa_close_stream (pa_latch w s3) = (s4, t4)" by fastforce
    have s4: "pa_stream_inv s4" "kept_or_fresh s s4" using reclosed_stream [OF _ _ c4, of s] s3 by simp_all
    have op': "pa_open_stream w dev (sample_rate ?f) (channel_count ?f) (bit_depth ?f) (s1\<lparr>pa_up := True\<rparr>) = (ok3, s3, t3)"
      using op tries(2) by simp
    have "s' = fst (pa_poll w up now s)" using assms(3) by simp
    also have "\<dots> = (if \<not> ok3 then s3 else if sk_stopping (pa_latch w s3) then s4 else s3)"
      using False due tries by (simp add: pa_poll_def guard_reinitialize_def Let_def c op' c4)
    finally have "s' = (if \<not> ok3 then s3 else if sk_stopping (pa_latch w s3) then s4 else s3)" .
    then consider "s' = s3" | "s' = s4" by (cases ok3; cases "sk_stopping (pa_latch w s3)") (simp_all only: if_True if_False not_False_eq_True not_True_eq_False)
    then show ?thesis using s3 s4 by cases simp_all
  qed
qed

lemma clear_stream:
  assumes "pa_stream_inv s"
  shows "pa_stream_inv (pa_clear s) \<and> stream_step s (pa_clear s)"
proof -
  have ok: "ring_ok (sk_ring s)" using assms by (simp add: pa_stream_inv_def buffer_ok_def)
  have "ring_ok (ring_request_clear (sk_ring s))" "capacity (ring_request_clear (sk_ring s)) = capacity (sk_ring s)"
    "clear_requested (ring_request_clear (sk_ring s))" "ring_available (ring_request_clear (sk_ring s)) = ring_available (sk_ring s)"
    using ok by (simp_all add: ring_request_clear_def ring_ok_def ring_available_def)
  then show ?thesis using assms dropped_ring [OF ok]
    by (auto simp: pa_clear_def pa_stream_alive_def pa_stream_inv_def buffer_ok_def stream_step_def Let_def)
qed

lemma op_stream:
  assumes "pa_stream_inv s" "lawful_pa_op op"
  shows "pa_stream_inv (fst (portaudio_op curve op s)) \<and> stream_step s (fst (portaudio_op curve op s))"
proof (cases op)
  case (PaConfigure w rate channels bits)
  obtain ok s' t where c: "pa_configure w rate channels bits s = (ok, s', t)" by (metis prod_cases3)
  show ?thesis using configure_stream [OF assms(1) _ c] assms(2) PaConfigure c
    by (auto simp: lawful_pa_op_def dest: kept_or_fresh_step)
next
  case (PaPoll w up now)
  obtain s' t where c: "pa_poll w up now s = (s', t)" by fastforce
  show ?thesis using poll_stream [OF assms(1) _ c] assms(2) PaPoll c
    by (auto simp: lawful_pa_op_def dest: kept_or_fresh_step)
next
  case PaStop
  let ?s1 = "(pa_stop_latch s)\<lparr>sk_format := no_format\<rparr>"
  obtain s' t where c: "pa_close_stream ?s1 = (s', t)" by fastforce
  have "pa_stream_inv ?s1" "kept_or_fresh s ?s1" using assms(1) by (simp_all add: pa_stop_latch_def)
  then show ?thesis using reclosed_stream [OF _ _ c, of s] PaStop c
    by (auto simp: pa_stop_def Let_def intro: kept_or_fresh_step)
next
  case PaDies
  then show ?thesis using assms(1) by (auto simp: pa_stream_inv_def buffer_ok_def stream_step_def)
qed (use assms clear_stream in \<open>simp_all add: pa_stop_latch_def pa_set_volume_def pa_set_muted_def pa_update_target_def stream_step_def\<close>)

lemma pa_inv_frame: "pa_stream_inv s \<Longrightarrow> sk_stream s \<Longrightarrow> 0 < sk_frame s"
  using frame_bytes_pos by (auto simp: pa_stream_inv_def)

lemma write_begins_stream:
  assumes "pa_stream_inv s" "lawful_world w" "pa_write_begins w data s = (answer, s', t)"
  shows "pa_stream_inv s' \<and> kept_or_fresh s s' \<and>
    (case answer of Inl n \<Rightarrow> n \<le> length data | Inr p \<Rightarrow> parked_ok p \<and> belongs p s' \<and> pk_done p = 0)"
proof (cases "data = []")
  case True
  then show ?thesis using assms by (auto simp: pa_write_begins_def)
next
  case False
  obtain ready s1 t1 where re: "(if pa_stream_alive s \<and> sk_frame s \<noteq> 0 then (True, s, []) else pa_reopen_in_place w s) = (ready, s1, t1)"
    by (metis prod_cases3)
  have s1: "pa_stream_inv s1" "kept_or_fresh s s1" "ready \<Longrightarrow> sk_stream s1"
    using re reopen_stream [OF assms(1,2), of ready s1 t1] assms(1) by (auto simp: pa_stream_alive_def split: if_splits)
  let ?u = "length data - length data mod sk_frame s1"
  have n: "discarded (length data) s1 \<le> length data" by (simp add: discarded_def Let_def)
  have "(answer, s') = (if \<not> ready then (Inl (discarded (length data) s1), s1\<lparr>sk_failed := True\<rparr>)
      else if ?u = 0 then (Inl 0, s1)
      else (Inr \<lparr>pk_source = data, pk_usable = ?u, pk_frame = sk_frame s1, pk_generation = sk_generation s1, pk_done = 0\<rparr>, s1))"
    using assms(3) False re by (auto simp: pa_write_begins_def Let_def split: if_splits)
  moreover have "ready \<Longrightarrow> sk_frame s1 dvd ?u \<and> 0 < sk_frame s1"
    using pa_inv_frame [OF s1(1,3)] by (simp add: minus_mod_eq_div_mult)
  ultimately show ?thesis using s1 n by (cases ready; cases "?u = 0") (auto simp: parked_ok_def belongs_def)
qed

lemma callback_stream:
  assumes "pa_stream_inv s"
  shows "pa_stream_inv (cb_sink (pa_callback n s)) \<and> sk_generation (cb_sink (pa_callback n s)) = sk_generation s
    \<and> sk_frame (cb_sink (pa_callback n s)) = sk_frame s
    \<and> (\<exists>dest. ring_read (n * sk_frame s) (sk_ring s)
           = (length (cb_read (pa_callback n s)), dest, sk_ring (cb_sink (pa_callback n s)))
         \<and> cb_read (pa_callback n s) = take (length (cb_read (pa_callback n s))) dest)"
proof -
  obtain k dest ring where rd: "ring_read (n * sk_frame s) (sk_ring s) = (k, dest, ring)" by (metis prod_cases3)
  have ok: "ring_ok (sk_ring s)" "sk_frame s dvd length (ring_contents (sk_ring s))"
    and c: "clear_requested (sk_ring s) \<Longrightarrow> 0 < capacity (sk_ring s)"
    using assms by (auto simp: pa_stream_inv_def buffer_ok_def)
  have law: "ring_ok ring \<and> capacity ring = capacity (sk_ring s) \<and> k \<le> length dest
      \<and> sk_frame s dvd length (ring_contents ring) \<and> \<not> clear_requested ring"
    by (rule ring_read_whole [OF ok c rd])
  have read: "cb_read (pa_callback n s) = take k dest"
    by (simp add: pa_callback_def Let_def rd split_beta)
  have g: "cb_sink (pa_callback n s) = s\<lparr>sk_ring := ring, sk_current := sk_current (cb_sink (pa_callback n s))\<rparr>"
    by (simp add: pa_callback_def Let_def rd split_beta)
  define g' where "g' = sk_current (cb_sink (pa_callback n s))"
  note g = g [folded g'_def]
  have "pa_stream_inv (s\<lparr>sk_ring := ring, sk_current := g'\<rparr>)" using assms law by (auto simp: pa_stream_inv_def buffer_ok_def)
  moreover have len: "length (take k dest) = k" using law by simp
  moreover have "ring_read (n * sk_frame s) (sk_ring s) = (length (take k dest), dest, ring)" using rd len by simp
  ultimately show ?thesis unfolding g read by (intro conjI exI [of _ dest]) simp_all
qed

interpretation portaudio: ring_stream "portaudio_backend curve" pa_stream_inv lawful_pa_op lawful_world
proof
  fix s op assume s: "pa_stream_inv s"
  show "lawful_pa_op op \<Longrightarrow> pa_stream_inv (bk_op (portaudio_backend curve) op s) \<and> stream_step s (bk_op (portaudio_backend curve) op s)"
    using op_stream [OF s] by (simp add: portaudio_backend_def)
  show "bk_free (portaudio_backend curve) op \<Longrightarrow> sk_generation (bk_op (portaudio_backend curve) op s) = sk_generation s"
    by (cases op) (simp_all add: portaudio_backend_def takes_no_lock_def pa_stop_latch_def pa_set_volume_def
        pa_set_muted_def pa_update_target_def)
next
  fix s w data answer s'
  assume s: "pa_stream_inv s" "lawful_world w" and "length data < 2 ^ 64" and w: "bk_begin (portaudio_backend curve) w data s = (answer, s')"
  obtain t where "pa_write_begins w data s = (answer, s', t)"
    using w by (auto simp: portaudio_backend_def split: prod.splits)
  from write_begins_stream [OF s(1,2) this]
  show "pa_stream_inv s' \<and> stream_step s s' \<and>
      (case answer of Inl n \<Rightarrow> n \<le> length data | Inr p \<Rightarrow> parked_ok p \<and> belongs p s' \<and> pk_done p = 0)"
    using kept_or_fresh_step by blast
next
  fix s n bytes s'
  assume s: "pa_stream_inv s" "bk_pull (portaudio_backend curve) n s = Some (bytes, s')"
  then show "pa_stream_inv s' \<and> sk_generation s' = sk_generation s \<and> sk_frame s' = sk_frame s \<and>
      (\<exists>dest. ring_read (n * sk_frame s) (sk_ring s) = (length bytes, dest, sk_ring s') \<and> bytes = take (length bytes) dest)"
    using callback_stream [OF s(1), of n] by (auto simp: portaudio_backend_def split: if_splits)
next
  fix s :: portaudio_sink and ring
  assume s: "pa_stream_inv s" "ring_ok ring" "clear_requested ring = clear_requested (sk_ring s)"
    "capacity ring = capacity (sk_ring s)" "sk_frame s dvd length (ring_contents ring)"
  then show "pa_stream_inv (s\<lparr>sk_ring := ring\<rparr>)" by (auto simp: pa_stream_inv_def buffer_ok_def)
qed (auto simp: portaudio_backend_def pa_stream_inv_def)

lemma new_sink_inv: "unat buffer_ms \<le> 2000 \<Longrightarrow> pa_stream_inv (new_portaudio_sink up spec buffer_ms)"
  by (simp add: pa_stream_inv_def buffer_ok_def new_portaudio_sink_def new_ring_def ring_ok_def ring_contents_def ring_available_def)

section \<open>Properties\<close>

text \<open>
  C9. What PortAudio plays is what the player handed over. Whatever interleaves - writes waiting for room,
  the callback, flushes, stream starts, devices dying and coming back, shutdown - the sink is one queue of
  bytes: chunks go in at its end and come out at its front, each once, in order and in whole frames of the
  open stream; a write puts nothing into a stream other than the one it began in, and returns exactly the
  bytes it put in; a flush drops what is queued, at once or at the next callback.
\<close>

theorem portaudio_sink_is_a_queue:
  assumes "unat buffer_ms \<le> 2000" "list_all (lawful_event lawful_pa_op lawful_world) evs"
    and "pull_run (portaudio_backend curve) evs (new_portaudio_sink up spec buffer_ms) = c"
  shows "\<exists>n. spec_run (pc_log c) empty_spec = Some \<lparr>sp_queue = ring_contents (sk_ring (pc_sink c)),
    sp_asked = clear_requested (sk_ring (pc_sink c)), sp_fed = n\<rparr>"
proof -
  have "ring_contents (sk_ring (new_portaudio_sink up spec buffer_ms)) = []"
    "\<not> clear_requested (sk_ring (new_portaudio_sink up spec buffer_ms))"
    by (simp_all add: new_portaudio_sink_def new_ring_def ring_contents_def ring_available_def)
  from portaudio.sink_is_queue [OF new_sink_inv [OF assms(1)] this assms(2,3)] show ?thesis by blast
qed

text \<open>Two cards that take anything, at no latency.\<close>

definition easy_world :: pa_world where
  "easy_world = \<lparr>pw_host = two_cards, pw_open = True, pw_latency_frames = 0, pw_start = True, pw_abort = True,
     pw_stopped = False\<rparr>"

definition demo_events :: "(pa_op, pa_world) pull_event list" where
  "demo_events = [Locked (PaConfigure easy_world 48000 1 8), Begins easy_world [1, 2, 3], Turns, Pulls 2,
     Locked PaClear, Turns, Pulls 1]"

theorem portaudio_sink_is_a_queue_witness:
  "spec_run (pc_log (pull_run (portaudio_backend (\<lambda>_. 0)) demo_events (new_portaudio_sink True [] 100))) empty_spec \<noteq> None"
proof -
  have "list_all (lawful_event lawful_pa_op lawful_world) demo_events"
    by (simp add: demo_events_def lawful_pa_op_def lawful_world_def easy_world_def)
  from portaudio_sink_is_a_queue [OF _ this refl, of 100 "\<lambda>_. 0" True "[]"] show ?thesis by auto
qed

section \<open>The library's handles\<close>

text \<open>PortAudio's own rules: up or not, a stream open or not, started or not; \<open>None\<close> when one is broken.\<close>

fun pa_lib :: "bool \<times> bool \<times> bool \<Rightarrow> pa_call list \<Rightarrow> (bool \<times> bool \<times> bool) option" where
  "pa_lib q [] = Some q"
| "pa_lib (up, opened, started) (PaInitialize ok # cs) = (if up then None else pa_lib (ok, False, False) cs)"
| "pa_lib (up, opened, started) (PaTerminate # cs) = (if up \<and> \<not> opened then pa_lib (False, False, False) cs else None)"
| "pa_lib (up, opened, started) (PaOpen ok # cs) = (if up \<and> \<not> opened then pa_lib (up, ok, False) cs else None)"
| "pa_lib (up, opened, started) (PaStart ok # cs) = (if opened \<and> \<not> started then pa_lib (up, opened, ok) cs else None)"
| "pa_lib (up, opened, started) (PaAbort ok # cs) = (if opened then pa_lib (up, opened, started \<and> \<not> ok) cs else None)"
| "pa_lib (up, opened, started) (PaClose # cs) = (if opened then pa_lib (up, False, False) cs else None)"

lemma pa_lib_append: "pa_lib q (xs @ ys) = Option.bind (pa_lib q xs) (\<lambda>q'. pa_lib q' ys)"
  by (induction q xs rule: pa_lib.induct) simp_all

fun is_open :: "pa_call \<Rightarrow> bool" where
  "is_open (PaOpen _) = True"
| "is_open _ = False"

definition opens :: "pa_call list \<Rightarrow> nat" where
  "opens t = length (filter is_open t)"

lemma opens_simps [simp]:
  "opens [] = 0" "opens (c # t) = (if is_open c then 1 else 0) + opens t" "opens (t @ u) = opens t + opens u"
  by (simp_all add: opens_def)

text \<open>The attempts recovery has in hand.\<close>

definition in_hand :: "sink_recovery \<Rightarrow> nat" where
  "in_hand r = (if reopen_spent r then 0 else 1) + (if rescan_spent r then 0 else 1)"

definition settled :: "sink_recovery \<Rightarrow> bool" where
  "settled r \<longleftrightarrow> recovery_ok r \<and> \<not> rescan_in_flight r"

lemma settled_steps:
  "settled r \<Longrightarrow> reopen_due r = (True, r') \<Longrightarrow> settled r' \<and> in_hand r' + 1 = in_hand r"
  "settled r \<Longrightarrow> reopen_due r = (False, r') \<Longrightarrow> settled r' \<and> in_hand r' = in_hand r"
  "settled r \<Longrightarrow> settled (reopen_done ok r) \<and> in_hand (reopen_done ok r) = in_hand r"
  "settled r \<Longrightarrow> rescan_due now r = (False, r') \<Longrightarrow> settled r' \<and> in_hand r' = in_hand r"
  "settled r \<Longrightarrow> rescan_due now r = (True, r') \<Longrightarrow> settled (rescan_done True r') \<and> in_hand (rescan_done True r') + 1 = in_hand r"
  "settled r \<Longrightarrow> settled (reset_recovery r) \<and> in_hand (reset_recovery r) = 2"
  by (auto simp: settled_def in_hand_def recovery_ok_def recovery_defs SINK_RESCAN_ATTEMPTS_def Let_def split: if_splits)

lemma in_hand_le: "in_hand r \<le> 2"
  by (simp add: in_hand_def)

text \<open>Steps that keep PortAudio's rules, and what they cost.\<close>

definition keeps_rules :: "portaudio_sink \<Rightarrow> pa_call list \<Rightarrow> portaudio_sink \<Rightarrow> bool" where
  "keeps_rules s t s' \<longleftrightarrow>
     pa_lib (pa_up s, sk_stream s, sk_stream s) t = Some (pa_up s', sk_stream s', sk_stream s')
     \<and> (sk_stopping s \<longrightarrow> sk_stopping s')"

lemma close_calls_ok:
  "pa_close_stream s = (s', t) \<Longrightarrow> pa_lib (pa_up s, sk_stream s, b) t = Some (pa_up s, False, if sk_stream s then False else b)
    \<and> opens t = 0 \<and> \<not> sk_stream s' \<and> pa_up s' = pa_up s \<and> sk_stopping s' = sk_stopping s
    \<and> sk_recovery s' = sk_recovery s \<and> sk_format s' = sk_format s"
  by (auto simp: pa_close_stream_def)

lemma open_calls_ok:
  assumes "\<not> sk_stream s" "pa_open_stream w dev rate channels bits s = (ok, s', t)"
  shows "pa_lib (pa_up s, False, False) t = Some (pa_up s, ok, ok) \<and> opens t \<le> 1 \<and> sk_stream s' = ok
    \<and> pa_up s' = pa_up s \<and> sk_stopping s' = sk_stopping s \<and> sk_recovery s' = sk_recovery s \<and> sk_format s' = sk_format s"
proof (cases "pa_up s")
  case True
  then show ?thesis using assms
    by (auto simp: pa_open_stream_def pa_close_stream_def pa_set_format_def Let_def split: option.splits if_splits)
next
  case False
  then show ?thesis using assms by (auto simp: pa_open_stream_def pa_devices_def split: option.splits if_splits)
qed

lemma restart_calls_ok:
  assumes "sk_stream s" "pa_restart_stream w s = (ok, s', t)"
  shows "\<exists>b. pa_lib (pa_up s, True, True) t = Some (pa_up s, True, if ok then True else b) \<and> opens t = 0 \<and> sk_stream s'
    \<and> pa_up s' = pa_up s \<and> sk_stopping s' = sk_stopping s \<and> sk_recovery s' = sk_recovery s \<and> sk_format s' = sk_format s"
  using assms by (auto simp: pa_restart_stream_def Let_def split: if_splits)

text \<open>What an operation costs: openings against attempts in hand, and a stream start at most three.\<close>

definition affordable :: "nat \<Rightarrow> portaudio_sink \<Rightarrow> pa_call list \<Rightarrow> portaudio_sink \<Rightarrow> bool" where
  "affordable starts s t s' \<longleftrightarrow>
     (settled (sk_recovery s) \<longrightarrow> settled (sk_recovery s')
        \<and> opens t + in_hand (sk_recovery s') \<le> 3 * starts
             + (if 0 < starts \<and> sample_rate (sk_format s) = 0 then 0 else in_hand (sk_recovery s)))
     \<and> (starts = 0 \<and> (sk_stopping s \<or> sample_rate (sk_format s) = 0) \<longrightarrow> opens t = 0)
     \<and> (starts = 0 \<and> sample_rate (sk_format s) = 0 \<longrightarrow> sample_rate (sk_format s') = 0)
     \<and> (sk_stopping s \<longrightarrow> opens t = 0)"

lemma reopen_calls_ok:
  assumes "pa_reopen_in_place w s = (ok, s', t)"
  shows "keeps_rules s t s' \<and> affordable 0 s t s' \<and> sk_format s' = sk_format s"
proof (cases "\<not> sk_stream s \<or> sk_stopping s \<or> sample_rate (sk_format s) = 0")
  case True
  then show ?thesis using assms by (auto simp: pa_reopen_in_place_def keeps_rules_def affordable_def)
next
  case False
  obtain yes r where due: "reopen_due (sk_recovery s) = (yes, r)" by fastforce
  let ?s1 = "s\<lparr>sk_recovery := r\<rparr>" and ?f = "sk_format s"
  consider (no) "\<not> yes" | (gone) e where yes "resolve_pa_device (pa_devices w ?s1) (sk_device s) = Inl e"
    | (tries) dev where yes "resolve_pa_device (pa_devices w ?s1) (sk_device s) = Inr dev"
    by (cases yes; cases "resolve_pa_device (pa_devices w ?s1) (sk_device s)") auto
  then show ?thesis
  proof cases
    case no
    then have "(ok, s', t) = (False, ?s1, [])" unfolding assms [symmetric] using False due by (simp add: pa_reopen_in_place_def)
    then show ?thesis using False no due settled_steps(2) [of "sk_recovery s" r] by (auto simp: keeps_rules_def affordable_def)
  next
    case gone
    then have "(ok, s', t) = (False, ?s1\<lparr>sk_recovery := reopen_done False r\<rparr>, [])"
      unfolding assms [symmetric] using False due by (simp add: pa_reopen_in_place_def)
    then show ?thesis using False gone due settled_steps(1) [of "sk_recovery s" r] settled_steps(3) [of r False]
      by (auto simp: keeps_rules_def affordable_def)
  next
    case (tries dev)
    obtain s2 t2 where c: "pa_close_stream ?s1 = (s2, t2)" by fastforce
    obtain ok3 s3 t3 where op: "pa_open_stream w dev (sample_rate ?f) (channel_count ?f) (bit_depth ?f) s2 = (ok3, s3, t3)"
      by (metis prod_cases3)
    let ?s4 = "pa_latch w (s3\<lparr>sk_recovery := reopen_done True (sk_recovery s3)\<rparr>)"
    obtain s5 t5 where c5: "pa_close_stream ?s4 = (s5, t5)" by fastforce
    note cc = close_calls_ok [OF c, of True] and c5' = close_calls_ok [OF c5, of True]
    have closed: "\<not> sk_stream s2" using cc by blast
    note oo = open_calls_ok [OF closed op]
    have "(ok, s', t) = (if \<not> ok3 then (False, s3\<lparr>sk_recovery := reopen_done False (sk_recovery s3)\<rparr>, t2 @ t3)
        else if sk_stopping ?s4 then (False, s5, t2 @ t3 @ t5) else (True, ?s4, t2 @ t3))"
      unfolding assms [symmetric] using False due tries
      by (simp add: pa_reopen_in_place_def Let_def c op c5)
    then consider "\<not> ok3" "s' = s3\<lparr>sk_recovery := reopen_done False (sk_recovery s3)\<rparr>" "t = t2 @ t3"
      | ok3 "s' = s5" "t = t2 @ t3 @ t5" | ok3 "s' = ?s4" "t = t2 @ t3"
      by (cases ok3; cases "sk_stopping ?s4") (simp_all only: if_True if_False not_False_eq_True not_True_eq_False prod.inject)
    moreover have "settled (sk_recovery s) \<Longrightarrow> settled (reopen_done True r) \<and> in_hand (reopen_done True r) + 1 = in_hand (sk_recovery s)"
      "settled (sk_recovery s) \<Longrightarrow> settled (reopen_done False r) \<and> in_hand (reopen_done False r) + 1 = in_hand (sk_recovery s)"
      using settled_steps(1) [of "sk_recovery s" r] settled_steps(3) [of r] due tries(1) by simp_all
    ultimately show ?thesis using False cc oo c5'
      by cases (auto simp: keeps_rules_def affordable_def pa_lib_append pa_latch_def split: if_splits)
  qed
qed

lemma poll_calls_ok:
  assumes "pa_poll w up now s = (s', t)"
  shows "keeps_rules s t s' \<and> affordable 0 s t s'"
proof (cases "\<not> pending (sk_recovery s) \<or> sk_stopping s \<or> sample_rate (sk_format s) = 0")
  case True
  then show ?thesis using assms by (auto simp: pa_poll_def keeps_rules_def affordable_def split: if_splits)
next
  case False
  obtain yes r where due: "rescan_due now (sk_recovery s) = (yes, r)" by fastforce
  let ?s0 = "s\<lparr>sk_recovery := rescan_done True r\<rparr>" and ?f = "sk_format s"
  obtain s1 t1 where c: "pa_close_stream ?s0 = (s1, t1)" by fastforce
  let ?s2 = "s1\<lparr>pa_up := up\<rparr>" and ?g = "(if pa_up s1 then [PaTerminate] else []) @ [PaInitialize up]"
  note cc = close_calls_ok [OF c, of "sk_stream s"]
  have b: "settled (sk_recovery s) \<Longrightarrow> yes \<Longrightarrow> settled (rescan_done True r) \<and> in_hand (rescan_done True r) + 1 = in_hand (sk_recovery s)"
    using settled_steps(5) [of "sk_recovery s" now r] due by auto
  have g: "pa_lib (pa_up s, sk_stream s, sk_stream s) (t1 @ ?g) = Some (up, False, False)"
    using cc by (auto simp: pa_lib_append)
  consider (no) "\<not> yes" | (down) yes "\<not> up \<or> (\<exists>e. resolve_pa_device (pa_devices w ?s2) (sk_device s1) = Inl e)"
    | (tries) dev where yes "up = True" "resolve_pa_device (pa_devices w ?s2) (sk_device s1) = Inr dev"
    by (cases yes; cases up; cases "resolve_pa_device (pa_devices w ?s2) (sk_device s1)") auto
  then show ?thesis
  proof cases
    case no
    then have "(s', t) = (s\<lparr>sk_recovery := r\<rparr>, [])" unfolding assms [symmetric] using False due by (simp add: pa_poll_def)
    then show ?thesis using no due settled_steps(4) [of "sk_recovery s" now r] by (auto simp: keeps_rules_def affordable_def)
  next
    case down
    then have "(s', t) = (?s2, t1 @ ?g)" unfolding assms [symmetric] using False due c
      by (cases up) (auto simp: pa_poll_def guard_reinitialize_def Let_def)
    then show ?thesis using False cc g b down(1) by (auto simp: keeps_rules_def affordable_def)
  next
    case (tries dev)
    obtain ok3 s3 t3 where op: "pa_open_stream w dev (sample_rate ?f) (channel_count ?f) (bit_depth ?f) (s1\<lparr>pa_up := True\<rparr>) = (ok3, s3, t3)"
      by (metis prod_cases3)
    obtain s4 t4 where c4: "pa_close_stream (pa_latch w s3) = (s4, t4)" by fastforce
    have closed: "\<not> sk_stream (s1\<lparr>pa_up := True\<rparr>)" using cc by simp
    note oo = open_calls_ok [OF closed op] and cc4 = close_calls_ok [OF c4, of True]
    have "(s', t) = (if \<not> ok3 then (s3, t1 @ ?g @ t3) else if sk_stopping (pa_latch w s3) then (s4, t1 @ ?g @ t3 @ t4)
        else (s3, t1 @ ?g @ t3))"
      unfolding assms [symmetric] using False due tries
      by (simp add: pa_poll_def guard_reinitialize_def Let_def c op c4)
    then consider "\<not> ok3" "s' = s3" "t = (t1 @ ?g) @ t3" | ok3 "s' = s4" "t = (t1 @ ?g) @ t3 @ t4" | ok3 "s' = s3" "t = (t1 @ ?g) @ t3"
      by (cases ok3; cases "sk_stopping (pa_latch w s3)")
         (simp_all only: if_True if_False not_False_eq_True not_True_eq_False prod.inject append_assoc)
    then show ?thesis using False cc oo cc4 g b tries(1,2)
      by cases (auto simp: keeps_rules_def affordable_def pa_lib_append [of _ "t1 @ _"] pa_lib_append [of _ t3] pa_latch_def
          simp del: append_assoc split: if_splits)
  qed
qed

lemma write_begins_calls_ok:
  assumes "pa_write_begins w data s = (answer, s', t)"
  shows "keeps_rules s t s' \<and> affordable 0 s t s'"
proof (cases "data = [] \<or> pa_stream_alive s \<and> sk_frame s \<noteq> 0")
  case True
  then have "s' = s" "t = []" using assms by (auto simp: pa_write_begins_def Let_def split: if_splits)
  then show ?thesis by (simp add: keeps_rules_def affordable_def)
next
  case False
  obtain ok s1 t1 where re: "pa_reopen_in_place w s = (ok, s1, t1)" by (metis prod_cases3)
  then have "(s' = s1 \<or> s' = s1\<lparr>sk_failed := True\<rparr>) \<and> t = t1"
    using assms False by (auto simp: pa_write_begins_def Let_def split: if_splits)
  then show ?thesis using reopen_calls_ok [OF re] by (auto simp: keeps_rules_def affordable_def)
qed

lemma configure_calls_ok:
  assumes "pa_configure w rate channels bits s = (ok, s', t)"
  shows "keeps_rules s t s' \<and> affordable 1 s t s'"
proof -
  let ?s1 = "s\<lparr>sk_format := \<lparr>sample_rate = rate, channel_count = channels, bit_depth = bits\<rparr>\<rparr>"
  consider (stop) "sk_stopping s" | (gone) e where "resolve_pa_device (pa_devices w ?s1) (sk_device s) = Inl e" "\<not> sk_stopping s"
    | (tries) dev where "resolve_pa_device (pa_devices w ?s1) (sk_device s) = Inr dev" "\<not> sk_stopping s"
    by (cases "resolve_pa_device (pa_devices w ?s1) (sk_device s)"; cases "sk_stopping s") auto
  then show ?thesis
  proof cases
    case stop
    then show ?thesis using assms in_hand_le [of "sk_recovery s"]
      by (auto simp: pa_configure_def keeps_rules_def affordable_def)
  next
    case gone
    then show ?thesis using assms in_hand_le [of "sk_recovery s"]
      by (auto simp: pa_configure_def Let_def keeps_rules_def affordable_def)
  next
    case tries
    obtain reused s2 t2 where re: "(if pa_same_stream dev rate channels bits ?s1 then pa_restart_stream w ?s1 else (False, ?s1, []))
        = (reused, s2, t2)"
      by (metis prod_cases3)
    have s2: "\<exists>b. pa_lib (pa_up s, sk_stream s, sk_stream s) t2 = Some (pa_up s, sk_stream s, if reused then True else b)
        \<and> (sk_stream s \<longrightarrow> sk_stream s2) \<and> (reused \<longrightarrow> sk_stream s) \<and> (\<not> sk_stream s \<longrightarrow> \<not> b \<and> \<not> sk_stream s2)"
      "opens t2 = 0" "pa_up s2 = pa_up s" "sk_stopping s2 = sk_stopping s" "sk_recovery s2 = sk_recovery s"
      using re restart_calls_ok [of ?s1 w reused s2 t2] by (auto simp: pa_same_stream_def split: if_splits)
    show ?thesis
    proof (cases reused)
      case True
      then have "s' = s2\<lparr>sk_recovery := reset_recovery (sk_recovery s2)\<rparr>" "t = t2"
        using assms tries re by (auto simp: pa_configure_def Let_def split: prod.splits)
      then show ?thesis using True s2 tries(2) settled_steps(6) [of "sk_recovery s"] in_hand_le
        by (auto simp: keeps_rules_def affordable_def)
    next
      case False
      obtain s3 t3 ok4 s4 t4 where c: "pa_close_stream s2 = (s3, t3)" and op: "pa_open_stream w dev rate channels bits s3 = (ok4, s4, t4)"
        by (metis prod_cases3 surj_pair)
      have st: "(s' = s4\<lparr>sk_failed := True\<rparr> \<or> s' = s4\<lparr>sk_recovery := reset_recovery (sk_recovery s4)\<rparr>) \<and> t = t2 @ t3 @ t4"
        using assms tries re False c op by (auto simp: pa_configure_def Let_def split: prod.splits if_splits)
      obtain b where b: "pa_lib (pa_up s, sk_stream s, sk_stream s) t2 = Some (pa_up s, sk_stream s, b)"
        "sk_stream s2 = sk_stream s" "\<not> sk_stream s \<Longrightarrow> \<not> b"
        using s2(1) False by (cases "sk_stream s") auto
      note cc = close_calls_ok [OF c, of b]
      have closed: "\<not> sk_stream s3" using cc by blast
      note oo = open_calls_ok [OF closed op]
      have "pa_lib (pa_up s, sk_stream s, sk_stream s) t = Some (pa_up s', sk_stream s', sk_stream s')"
        using st b cc oo s2(3) by (cases "sk_stream s") (auto simp: pa_lib_append)
      moreover have "opens t \<le> 1" using st s2(2) cc oo by simp
      moreover have "sk_stopping s' = sk_stopping s" using st cc oo s2(4) by auto
      moreover have "settled (sk_recovery s) \<Longrightarrow> settled (sk_recovery s') \<and> in_hand (sk_recovery s') \<le> 2"
        using st cc oo s2(5) settled_steps(6) [of "sk_recovery s"] in_hand_le by auto
      ultimately show ?thesis using tries(2) by (auto simp: keeps_rules_def affordable_def)
    qed
  qed
qed

lemma op_calls_ok:
  assumes "portaudio_op curve op s = (s', t)"
  shows "keeps_rules s t s' \<and> affordable (case op of PaConfigure _ _ _ _ \<Rightarrow> 1 | _ \<Rightarrow> 0) s t s'"
proof (cases op)
  case (PaConfigure w rate channels bits)
  obtain ok s1 t1 where c: "pa_configure w rate channels bits s = (ok, s1, t1)" by (metis prod_cases3)
  show ?thesis using configure_calls_ok [OF c] assms PaConfigure c by simp
next
  case (PaPoll w up now)
  then show ?thesis using poll_calls_ok [of w up now s s' t] assms by simp
next
  case PaClear
  then show ?thesis using assms by (auto simp: pa_clear_def keeps_rules_def affordable_def Let_def split: if_splits)
next
  case PaStop
  obtain s1 t1 where c: "pa_close_stream ((pa_stop_latch s)\<lparr>sk_format := no_format\<rparr>) = (s1, t1)" by fastforce
  show ?thesis using close_calls_ok [OF c, of True] assms PaStop c
    by (auto simp: pa_stop_def pa_stop_latch_def keeps_rules_def affordable_def no_format_def Let_def split: if_splits)
qed (use assms in \<open>auto simp: keeps_rules_def affordable_def pa_stop_latch_def pa_set_volume_def pa_set_muted_def
      pa_update_target_def Let_def\<close>)

text \<open>A life of the sink: operations, and the heads of its writes.\<close>

datatype pa_act = PaDoes pa_op | PaWrites pa_world "u8 list"

fun pa_acts :: "(u8 \<Rightarrow> u64) \<Rightarrow> pa_act list \<Rightarrow> portaudio_sink \<Rightarrow> portaudio_sink \<times> pa_call list" where
  "pa_acts curve [] s = (s, [])"
| "pa_acts curve (PaDoes op # acts) s =
     (case portaudio_op curve op s of (s', t) \<Rightarrow> (case pa_acts curve acts s' of (s'', t') \<Rightarrow> (s'', t @ t')))"
| "pa_acts curve (PaWrites w data # acts) s =
     (case pa_write_begins w data s of (_, s', t) \<Rightarrow> (case pa_acts curve acts s' of (s'', t') \<Rightarrow> (s'', t @ t')))"

definition configures :: "pa_act list \<Rightarrow> nat" where
  "configures acts = length (filter (\<lambda>a. case a of PaDoes (PaConfigure _ _ _ _) \<Rightarrow> True | _ \<Rightarrow> False) acts)"

lemma keeps_rules_trans: "keeps_rules s t u \<Longrightarrow> keeps_rules u t' v \<Longrightarrow> keeps_rules s (t @ t') v"
  by (simp add: keeps_rules_def pa_lib_append)

lemma affordable_trans:
  assumes a: "affordable n s t u" and b: "affordable m u t' v" and k: "keeps_rules s t u"
  shows "affordable (n + m) s (t @ t') v"
proof -
  let ?h = "\<lambda>n s. if 0 < n \<and> sample_rate (sk_format s) = 0 then 0 else in_hand (sk_recovery s)"
  have zero: "opens t = 0 \<and> sample_rate (sk_format u) = 0" if "n = 0" "sample_rate (sk_format s) = 0"
    using a that by (simp add: affordable_def)
  have cost: "opens (t @ t') + in_hand (sk_recovery v) \<le> 3 * (n + m) + ?h (n + m) s" if "settled (sk_recovery s)"
  proof -
    have "opens t + in_hand (sk_recovery u) \<le> 3 * n + ?h n s" "opens t' + in_hand (sk_recovery v) \<le> 3 * m + ?h m u"
      using a b that by (simp_all add: affordable_def)
    moreover have "?h m u \<le> in_hand (sk_recovery u)" "?h n s \<le> in_hand (sk_recovery s)" by simp_all
    ultimately show ?thesis using zero by (cases "n = 0"; cases "m = 0"; cases "sample_rate (sk_format s) = 0") simp_all
  qed
  have "settled (sk_recovery s) \<Longrightarrow> settled (sk_recovery v)" using a b by (simp add: affordable_def)
  moreover have "sk_stopping s \<Longrightarrow> opens (t @ t') = 0" using a b k by (simp add: affordable_def keeps_rules_def)
  moreover have "opens (t @ t') = 0 \<and> sample_rate (sk_format v) = 0" if "n + m = 0" "sample_rate (sk_format s) = 0"
    using a b that by (simp add: affordable_def)
  ultimately show ?thesis unfolding affordable_def using cost by blast
qed

lemma acts_calls_ok: "pa_acts curve acts s = (s', t) \<Longrightarrow> keeps_rules s t s' \<and> affordable (configures acts) s t s'"
proof (induction curve acts s arbitrary: t rule: pa_acts.induct)
  case (1 curve s)
  then show ?case by (simp add: keeps_rules_def affordable_def configures_def)
next
  case (2 curve op acts s)
  obtain u t1 where o1: "portaudio_op curve op s = (u, t1)" by fastforce
  obtain t2 where r: "pa_acts curve acts u = (s', t2)" "t = t1 @ t2" using 2(2) o1 by (auto split: prod.splits)
  have n: "configures (PaDoes op # acts) = (case op of PaConfigure _ _ _ _ \<Rightarrow> 1 | _ \<Rightarrow> 0) + configures acts"
    by (cases op) (simp_all add: configures_def)
  show ?case unfolding n r(2)
    using op_calls_ok [OF o1] 2(1) [OF o1 [symmetric] r(1)] keeps_rules_trans affordable_trans by blast
next
  case (3 curve w data acts s)
  obtain a u t1 where o1: "pa_write_begins w data s = (a, u, t1)" by (metis prod_cases3)
  obtain t2 where r: "pa_acts curve acts u = (s', t2)" "t = t1 @ t2" using 3(2) o1 by (auto split: prod.splits)
  have n: "configures (PaWrites w data # acts) = 0 + configures acts" by (simp add: configures_def)
  show ?case unfolding n r(2)
    using write_begins_calls_ok [OF o1] 3(1) [OF o1 [symmetric] refl r(1)] keeps_rules_trans affordable_trans by blast
qed

text \<open>
  C18. PortAudio is used by its rules and left as it was found. Over any life of the sink, from its guard to
  its destructor: no stream is opened while PortAudio is down or another stream is open, started twice,
  touched once closed, or left open when PortAudio is terminated; at the end everything is closed. And once
  shutdown has begun no stream is ever opened again.
\<close>

theorem portaudio_is_left_as_found:
  shows "let (s, t) = pa_acts curve acts (new_portaudio_sink (fst (guard_open ok)) spec buffer_ms);
           (s1, t1) = pa_stop s;
           (s2, t2) = pa_acts curve later s1;
           (_, t3) = pa_destroy s2
       in pa_lib (False, False, False) (snd (guard_open ok) @ t @ t1 @ t2 @ t3) = Some (False, False, False)
          \<and> opens (t1 @ t2 @ t3) = 0"
proof -
  let ?n = "new_portaudio_sink ok spec buffer_ms"
  obtain s t where a: "pa_acts curve acts ?n = (s, t)" by fastforce
  obtain s1 t1 where st: "pa_stop s = (s1, t1)" by fastforce
  obtain s2 t2 where l: "pa_acts curve later s1 = (s2, t2)" by fastforce
  obtain s3 t3 where d: "pa_close_stream (pa_stop_latch s2) = (s3, t3)" by fastforce
  have stop: "sk_stopping s1" "opens t1 = 0"
    using st close_calls_ok [of "(pa_stop_latch s)\<lparr>sk_format := no_format\<rparr>" s1 t1 True]
    by (auto simp: pa_stop_def pa_stop_latch_def Let_def split: if_splits)
  have k: "keeps_rules ?n t s" "keeps_rules s t1 s1" "keeps_rules s1 t2 s2"
    using acts_calls_ok [OF a] op_calls_ok [of curve PaStop s s1 t1] acts_calls_ok [OF l] st by simp_all
  have "opens t2 = 0" using acts_calls_ok [OF l] stop(1) by (simp add: affordable_def)
  note k = k stop this
  define mid where "mid = t @ t1 @ t2"
  define tail where "tail = t3 @ guard_close (pa_up s3)"
  have "keeps_rules ?n mid s2" unfolding mid_def using k keeps_rules_trans by blast
  moreover have "pa_lib (False, False, False) [PaInitialize ok] = Some (pa_up ?n, sk_stream ?n, sk_stream ?n)"
    by (simp add: new_portaudio_sink_def)
  moreover have "pa_lib (pa_up s2, sk_stream s2, sk_stream s2) tail = Some (False, False, False)"
    using close_calls_ok [OF d, of "sk_stream s2"] by (auto simp: tail_def pa_lib_append guard_close_def pa_stop_latch_def split: if_splits)
  ultimately have "pa_lib (False, False, False) ([PaInitialize ok] @ mid @ tail) = Some (False, False, False)"
    by (simp only: pa_lib_append keeps_rules_def bind.bind_lunit)
  moreover have "opens t3 = 0" using close_calls_ok [OF d, of True] by simp
  ultimately show ?thesis using a st l d k(5,6) \<open>opens t3 = 0\<close> by (auto simp: guard_open_def guard_close_def pa_destroy_def Let_def mid_def tail_def)
qed

text \<open>
  C23. An outage costs a bounded number of openings. However often the device dies and comes back, PortAudio
  is asked for at most three streams for every stream the player asked the sink for: that one, one reopened
  in place and one after a rescan of the devices.
\<close>

theorem portaudio_openings_are_bounded:
  "opens (snd (pa_acts curve acts (new_portaudio_sink up spec buffer_ms))) \<le> 3 * configures acts"
proof -
  let ?n = "new_portaudio_sink up spec buffer_ms"
  obtain s t where a: "pa_acts curve acts ?n = (s, t)" by fastforce
  show ?thesis
  proof (cases "configures acts = 0")
    case True
    then show ?thesis using acts_calls_ok [OF a] a by (simp add: affordable_def new_portaudio_sink_def no_format_def)
  next
    case False
    moreover have "settled (sk_recovery ?n)" by (simp add: settled_def new_portaudio_sink_def) (simp add: fresh_recovery_def)
    ultimately show ?thesis using acts_calls_ok [OF a] a
      by (simp add: affordable_def new_portaudio_sink_def no_format_def)
  qed
qed

end
