(* ===== verification/PipeWireGraph.thy ===== *)
theory PipeWireGraph
  imports DeviceSpec
begin

text \<open>
  The free functions of \<^verbatim>\<open>src/src/pipewire_sink.cpp\<close> and its static methods: the registry walk that
  finds the nodes, the startup probe, the listing of \<^verbatim>\<open>-l\<close>, and the arithmetic of the graph's quantum.
  What libpipewire answers is an input: which of the objects it hands out, and what it reports in the walk.
\<close>

section \<open>Definitions\<close>

definition PIPEWIRE_TIMEOUT_S :: nat where "PIPEWIRE_TIMEOUT_S = 3"
definition PIPEWIRE_STREAM_TIMEOUT_MS :: nat where "PIPEWIRE_STREAM_TIMEOUT_MS = PIPEWIRE_TIMEOUT_S * 1000"
definition PIPEWIRE_RECOVERY_TIMEOUT_MS :: nat where "PIPEWIRE_RECOVERY_TIMEOUT_MS = 500"
definition RING_QUANTUM_MULTIPLE :: nat where "RING_QUANTUM_MULTIPLE = 3"
definition MIN_RING_FRAMES :: nat where "MIN_RING_FRAMES = 1024"

datatype spa_format = SpaS8 | SpaS16 | SpaS24 | SpaS32

definition SPA_PROBE_FORMATS :: "spa_format list" where
  "SPA_PROBE_FORMATS = [SpaS8, SpaS16, SpaS24, SpaS32]"

definition SPA_FORMAT_NAMES :: "string list" where
  "SPA_FORMAT_NAMES = [''S8'', ''S16_LE'', ''S24_LE'', ''S32_LE'']"

definition spa_format_for :: "u8 \<Rightarrow> spa_format option" where
  "spa_format_for bits_per_sample = map_of (zip PROBE_BIT_DEPTHS SPA_PROBE_FORMATS) bits_per_sample"

text \<open>A global as the registry reports it: its type and its properties, each possibly missing.\<close>

record pw_node =
  nd_name :: string
  nd_description :: string

record registry_walk =
  rw_nodes :: "pw_node list"
  rw_done :: bool
  rw_failed :: bool
  rw_error :: string

definition PW_NODE_TYPE :: string where "PW_NODE_TYPE = ''PipeWire:Interface:Node''"

definition registry_global ::
  "string option \<Rightarrow> (string \<rightharpoonup> string) option \<Rightarrow> registry_walk \<Rightarrow> registry_walk"
where
  "registry_global type props walk =
     (case props of
        None \<Rightarrow> walk
      | Some dict \<Rightarrow>
          if type \<noteq> Some PW_NODE_TYPE then walk
          else if dict ''media.class'' \<noteq> Some ''Audio/Sink'' then walk
          else case dict ''node.name'' of
            None \<Rightarrow> walk
          | Some name \<Rightarrow>
              (let description = (case dict ''node.description'' of None \<Rightarrow> dict ''node.nick'' | Some d \<Rightarrow> Some d)
               in walk\<lparr>rw_nodes := rw_nodes walk @
                    [\<lparr>nd_name = name, nd_description = (case description of None \<Rightarrow> [] | Some d \<Rightarrow> d)\<rparr>]\<rparr>))"

datatype registry_event =
  RegistryGlobal "string option" "string \<rightharpoonup> string"
| CoreDone bool bool
| CoreError bool "string option" string

text \<open>A done is about the core and of the round trip asked for; an error is about the core, has a message or a code.\<close>

fun on_registry :: "registry_event \<Rightarrow> registry_walk \<Rightarrow> registry_walk" where
  "on_registry (RegistryGlobal type props) walk = registry_global type (Some props) walk"
| "on_registry (CoreDone of_core of_sync) walk =
     (if of_core \<and> of_sync then walk\<lparr>rw_done := True\<rparr> else walk)"
| "on_registry (CoreError of_core message code_text) walk =
     (if of_core
      then walk\<lparr>rw_error := (case message of None \<Rightarrow> code_text | Some m \<Rightarrow> if m = [] then code_text else m),
                rw_failed := True, rw_done := True\<rparr>
      else walk)"

definition new_walk :: registry_walk where
  "new_walk = \<lparr>rw_nodes = [], rw_done = False, rw_failed = False, rw_error = []\<rparr>"

text \<open>The wait: it ends at the first event that ends the walk, or when its time is up.\<close>

fun await_walk :: "registry_event list \<Rightarrow> registry_walk \<Rightarrow> registry_walk" where
  "await_walk [] walk = walk"
| "await_walk (e # es) walk = (if rw_done walk then walk else await_walk es (on_registry e walk))"

record pw_objects =
  po_loop :: bool
  po_loop_start :: bool
  po_context :: bool
  po_core :: bool
  po_registry :: bool

datatype walk_call = LoopNew bool | LoopDestroy | ContextNew bool | ContextDestroy | CoreConnect bool | CoreDisconnect
  | RegistryGet bool | RegistryDestroy

definition walk_registry :: "pw_objects \<Rightarrow> registry_event list \<Rightarrow> (string + pw_node list) \<times> walk_call list" where
  "walk_registry answers events =
     (if \<not> po_loop answers then (Inl ''cannot create a PipeWire loop'', [LoopNew False])
      else if \<not> po_loop_start answers then (Inl ''cannot start the PipeWire loop thread'', [LoopNew True, LoopDestroy])
      else
        (let context = po_context answers; core = context \<and> po_core answers; registry = core \<and> po_registry answers;
             walk = (if registry then await_walk events new_walk else new_walk);
             answered = registry \<and> rw_done walk \<and> \<not> rw_failed walk;
             refused = registry \<and> rw_failed walk;
             made = [LoopNew True, ContextNew context] @ (if context then [CoreConnect core] else [])
               @ (if core then [RegistryGet registry] else []);
             undone = (if registry then [RegistryDestroy] else []) @ (if core then [CoreDisconnect] else [])
               @ (if context then [ContextDestroy] else []) @ [LoopDestroy]
         in (if answered then Inr (rw_nodes walk)
             else Inl (if \<not> context then ''cannot create a PipeWire context''
                       else if \<not> core then ''cannot reach a PipeWire daemon''
                       else if \<not> registry then ''the PipeWire daemon would not open its registry''
                       else if refused then ''the PipeWire daemon refused the registry walk: '' @ rw_error walk
                       else ''the PipeWire daemon did not finish listing its nodes within '' @ to_string PIPEWIRE_TIMEOUT_S @ '' s''),
             made @ undone)))"

definition pw_probe :: "(string + pw_node list) \<Rightarrow> string \<Rightarrow> string option" where
  "pw_probe walked spec =
     (case walked of
        Inl e \<Rightarrow> Some (e @ '' -- run with -l to see what this host has, or -o alsa:pipewire to reach the same '' @
                    ''graph through ALSA's plugin PCM'')
      | Inr nodes \<Rightarrow>
          if spec = [] then None
          else if list_ex (\<lambda>n. nd_name n = spec) nodes then None
          else Some (''-o pipewire:'' @ spec @ '': this graph has no audio sink node by that name -- run with -l to list them''))"

definition pw_list_devices :: "(string + pw_node list) \<Rightarrow> string" where
  "pw_list_devices walked =
     (case walked of
        Inl e \<Rightarrow> ''  ('' @ e @ '')'' @ [NL]
      | Inr [] \<Rightarrow> ''  (this graph has no audio sink nodes)'' @ [NL]
      | Inr nodes \<Rightarrow>
          concat (map (\<lambda>n. ''  '' @ nd_name n @ [NL]
            @ (if nd_description n \<noteq> [] then ''      '' @ nd_description n @ [NL] else [])) nodes)
          @ [NL] @ ''  Every node above accepts all of:'' @ [NL] @ print_sink_capabilities permissive SPA_FORMAT_NAMES)"

definition pw_capabilities :: sink_capabilities where "pw_capabilities = permissive"

definition pipewire_ring_frames :: "u32 \<Rightarrow> u32 \<Rightarrow> nat" where
  "pipewire_ring_frames rate buffer_ms =
     (let by_time = unat (ucast rate * ucast buffer_ms :: u64) div 1000 in max by_time MIN_RING_FRAMES)"

record quantum_fit =
  qf_starves :: bool
  qf_tight :: bool
  qf_recommended_ms :: u32

definition pipewire_quantum_fit :: "nat \<Rightarrow> u32 \<Rightarrow> u32 \<Rightarrow> quantum_fit" where
  "pipewire_quantum_fit ring_frames quantum rate =
     (if quantum = 0 \<or> rate = 0 then \<lparr>qf_starves = False, qf_tight = False, qf_recommended_ms = 0\<rparr>
      else
        (let floor_frames = unat quantum * RING_QUANTUM_MULTIPLE; starves = ring_frames < unat quantum
         in \<lparr>qf_starves = starves, qf_tight = \<not> starves \<and> ring_frames < floor_frames,
             qf_recommended_ms = of_nat ((floor_frames * 1000 + unat rate - 1) div unat rate)\<rparr>))"

section \<open>The walk gives back what it took, and the advice on the buffer is good\<close>

fun walk_lib :: "nat \<Rightarrow> walk_call list \<Rightarrow> nat option" where
  "walk_lib n [] = Some n"
| "walk_lib n (LoopNew ok # cs) = (if n = 0 then walk_lib (if ok then 1 else 0) cs else None)"
| "walk_lib n (ContextNew ok # cs) = (if n = 1 then walk_lib (if ok then 2 else 1) cs else None)"
| "walk_lib n (CoreConnect ok # cs) = (if n = 2 then walk_lib (if ok then 3 else 2) cs else None)"
| "walk_lib n (RegistryGet ok # cs) = (if n = 3 then walk_lib (if ok then 4 else 3) cs else None)"
| "walk_lib n (RegistryDestroy # cs) = (if n = 4 then walk_lib 3 cs else None)"
| "walk_lib n (CoreDisconnect # cs) = (if n = 3 then walk_lib 2 cs else None)"
| "walk_lib n (ContextDestroy # cs) = (if n = 2 then walk_lib 1 cs else None)"
| "walk_lib n (LoopDestroy # cs) = (if n = 1 then walk_lib 0 cs else None)"

text \<open>Whatever is refused along the way, the walk undoes what it did in the opposite order.\<close>

lemma walk_releases: "walk_lib 0 (snd (walk_registry answers events)) = Some 0"
  by (cases "po_loop answers"; cases "po_loop_start answers"; cases "po_context answers"; cases "po_core answers";
      cases "po_registry answers") (simp_all add: walk_registry_def Let_def)

text \<open>A walk that is answered has every audio sink reported before the round trip came back, in order.\<close>

definition sink_node :: "registry_event \<Rightarrow> pw_node list" where
  "sink_node e = rw_nodes (on_registry e new_walk)"

lemma registry_global_nodes:
  "rw_nodes (registry_global t ps w) = rw_nodes w @ rw_nodes (registry_global t ps new_walk)"
  by (simp add: registry_global_def new_walk_def split: option.split)

lemma registry_global_done [simp]: "rw_done (registry_global t ps w) = rw_done w"
  by (simp add: registry_global_def split: option.split)

lemma on_registry_nodes: "rw_nodes (on_registry e w) = rw_nodes w @ sink_node e"
proof (cases e)
  case (RegistryGlobal t ps)
  then show ?thesis using registry_global_nodes [of t "Some ps" w] by (simp add: sink_node_def)
qed (simp_all add: sink_node_def new_walk_def)

lemma on_registry_done: "rw_done (on_registry e w) \<longleftrightarrow> rw_done w \<or> rw_done (on_registry e new_walk)"
  by (cases e) (simp_all add: new_walk_def)

lemma await_walk_nodes:
  "\<not> rw_done w \<Longrightarrow> list_all (\<lambda>e. \<not> rw_done (on_registry e new_walk)) es \<Longrightarrow> rw_done (on_registry e new_walk) \<Longrightarrow>
     rw_nodes (await_walk (es @ [e] @ rest) w) = rw_nodes w @ concat (map sink_node (es @ [e]))"
proof (induction es arbitrary: w)
  case Nil
  then have "rw_done (on_registry e w)" by (simp add: on_registry_done [of e w])
  then show ?case using Nil by (cases rest) (simp_all add: on_registry_nodes)
next
  case (Cons x xs)
  then have "\<not> rw_done (on_registry x w)" by (simp add: on_registry_done [of x w])
  then show ?case using Cons by (simp add: on_registry_nodes)
qed

lemma recommended_clears_floor:
  assumes "quantum \<noteq> 0" "rate \<noteq> 0" "(unat quantum * 3000 + unat rate - 1) div unat rate < 2 ^ 32"
  shows "unat quantum * RING_QUANTUM_MULTIPLE
    \<le> pipewire_ring_frames rate (qf_recommended_ms (pipewire_quantum_fit frames quantum rate))"
proof -
  let ?q = "unat quantum * RING_QUANTUM_MULTIPLE" and ?r = "unat rate"
  let ?ms = "(?q * 1000 + ?r - 1) div ?r"
  have r: "0 < ?r" using assms(2) by (simp add: unat_gt_0)
  have "?q * 1000 \<le> ?r * ?ms"
  proof -
    have "?q * 1000 + ?r - 1 = ?r * ?ms + (?q * 1000 + ?r - 1) mod ?r" by simp
    moreover have "(?q * 1000 + ?r - 1) mod ?r < ?r" using r by simp
    ultimately show ?thesis using r by linarith
  qed
  then have "?q * 1000 div 1000 \<le> ?r * ?ms div 1000" by (rule div_le_mono)
  then have q: "?q \<le> ?r * ?ms div 1000" by simp
  have ms: "?ms < 2 ^ 32" using assms(3) by (simp add: RING_QUANTUM_MULTIPLE_def mult.commute)
  have "unat (qf_recommended_ms (pipewire_quantum_fit frames quantum rate)) = ?ms"
    using assms(1,2) ms by (simp add: pipewire_quantum_fit_def Let_def)
  moreover have "?r * ?ms < 2 ^ 32 * 2 ^ 32" using ms unat_u32_less [of rate] by (intro mult_strict_mono) simp_all
  ultimately have "unat (ucast rate * ucast (qf_recommended_ms (pipewire_quantum_fit frames quantum rate)) :: u64) = ?r * ?ms"
    by (subst unat_mult_lem [THEN iffD1]) simp_all
  then show ?thesis using q by (simp add: pipewire_ring_frames_def Let_def)
qed

end
