(* ===== verification/PipeWireSink.thy ===== *)
theory PipeWireSink
  imports PipeWireGraph PullSink
begin

text \<open>
  \<^verbatim>\<open>src/src/pipewire_sink.{h,cpp}\<close>: the sink over one PipeWire stream and the thread loop it runs on. It
  shares the ring, the write and its waiting with the PortAudio sink (\<open>PullSink\<close>), and differs in that
  the volume is applied on the way into the ring, so that a write carries its ramp from its start to its
  end. What libpipewire answers an opening is an input, what it was asked a result.
\<close>

section \<open>Definitions\<close>

datatype pw_state = PwError | PwUnconnected | PwConnecting | PwPaused | PwStreaming

record pipewire_sink = pull_sink +
  ps_loop :: bool
  ps_stream_failed :: bool
  ps_state :: pw_state
  ps_quantum :: u32
  ps_quantum_logged :: bool

record pw_parked = parked +
  pk_start :: u64
  pk_target :: u64

datatype pw_call =
  PwLoopNew bool
| PwLoopDestroy
| PwStreamNew bool "(string \<times> string) list"
| PwStreamConnect bool spa_format u32 u8 "string list"
| PwStreamDisconnect
| PwStreamDestroy

text \<open>
  The answers to one opening: a loop and its thread, the properties, the stream, its connection, the
  states reported until the wait ends, and whether shutdown began meanwhile.
\<close>

record pw_graph =
  pg_loop :: bool
  pg_loop_start :: bool
  pg_properties :: bool
  pg_stream :: bool
  pg_connect :: bool
  pg_states :: "pw_state list"
  pg_stopped :: bool

definition new_pipewire_sink :: "string \<Rightarrow> u32 \<Rightarrow> pipewire_sink" where
  "new_pipewire_sink spec buffer_ms =
     \<lparr>sk_device = spec, sk_buffer_ms = buffer_ms, sk_stream = False, sk_rate = 0,
      sk_channels = 0, sk_bits = 0, sk_frame = 0, sk_step = 0, sk_generation = 0, sk_stopping = False,
      sk_failed = False, sk_format = no_format, sk_recovery = fresh_recovery,
      sk_volume = DEFAULT_SINK_VOLUME, sk_muted = False, sk_target = Q32_ONE, sk_current = Q32_ONE, sk_ring = new_ring,
      ps_loop = False, ps_stream_failed = False, ps_state = PwUnconnected, ps_quantum = 0, ps_quantum_logged = False\<rparr>"

definition pipewire_name :: "pipewire_sink \<Rightarrow> string" where
  "pipewire_name s = (if sk_device s = [] then ''pipewire'' else ''pipewire:'' @ sk_device s)"

definition pw_start_loop :: "pw_graph \<Rightarrow> pipewire_sink \<Rightarrow> bool \<times> pipewire_sink \<times> pw_call list" where
  "pw_start_loop g s =
     (if ps_loop s then (True, s, [])
      else if \<not> pg_loop g then (False, s\<lparr>ps_loop := False\<rparr>, [PwLoopNew False])
      else if \<not> pg_loop_start g then (False, s\<lparr>ps_loop := False\<rparr>, [PwLoopNew True, PwLoopDestroy])
      else (True, s\<lparr>ps_loop := True\<rparr>, [PwLoopNew True]))"

definition pw_stop_loop :: "pipewire_sink \<Rightarrow> pipewire_sink \<times> pw_call list" where
  "pw_stop_loop s = (if \<not> ps_loop s then (s, []) else (s\<lparr>ps_loop := False\<rparr>, [PwLoopDestroy]))"

definition pw_ring_capacity :: "pipewire_sink \<Rightarrow> nat" where
  "pw_ring_capacity s = pipewire_ring_frames (sk_rate s) (sk_buffer_ms s) * sk_frame s + 1"

definition pw_stream_state :: "pw_state \<Rightarrow> pipewire_sink \<Rightarrow> pipewire_sink" where
  "pw_stream_state st s =
     (let s1 = s\<lparr>ps_state := st\<rparr> in
      if st = PwError \<or> st = PwUnconnected then s1\<lparr>ps_stream_failed := True\<rparr> else s1)"

text \<open>The wait for the graph to accept the stream: until a state that settles it, or the deadline.\<close>

fun pw_await_state :: "pw_state list \<Rightarrow> pipewire_sink \<Rightarrow> pipewire_sink" where
  "pw_await_state [] s = s"
| "pw_await_state (st # sts) s =
     (if ps_state s = PwStreaming \<or> ps_state s = PwPaused \<or> ps_state s = PwError then s
      else pw_await_state sts (pw_stream_state st s))"

definition pw_close_stream :: "pipewire_sink \<Rightarrow> pipewire_sink \<times> pw_call list" where
  "pw_close_stream s =
     (s\<lparr>sk_stream := False, sk_generation := sk_generation s + 1, sk_rate := 0, sk_channels := 0, sk_bits := 0,
        sk_frame := 0, sk_step := 0, sk_ring := ring_reset 0 (sk_ring s), ps_stream_failed := False,
        ps_state := PwUnconnected\<rparr>,
      if sk_stream s then [PwStreamDisconnect, PwStreamDestroy] else [])"

definition pw_set_format :: "u32 \<Rightarrow> u8 \<Rightarrow> u8 \<Rightarrow> pipewire_sink \<Rightarrow> pipewire_sink" where
  "pw_set_format rate channels bits s =
     (let s1 = s\<lparr>sk_generation := sk_generation s + 1, sk_rate := rate, sk_channels := channels, sk_bits := bits,
            sk_frame := frame_bytes channels bits, sk_step := volume_ramp_step rate, sk_current := sk_target s\<rparr>
      in s1\<lparr>sk_ring := ring_reset (pw_ring_capacity s1) (sk_ring s1), ps_stream_failed := False,
            ps_state := PwUnconnected, ps_quantum := 0, ps_quantum_logged := False\<rparr>)"

text \<open>What the stream tells the graph: what it is, where it wants to go, and the quantum it can hold.\<close>

definition pw_stream_properties :: "u32 \<Rightarrow> pipewire_sink \<Rightarrow> (string \<times> string) list" where
  "pw_stream_properties rate s =
     [(''media.type'', ''Audio''), (''media.category'', ''Playback''), (''media.role'', ''Music''),
      (''application.name'', ''sendspin-cli''), (''node.name'', ''sendspin-cli'')]
     @ (if sk_device s \<noteq> [] then [(''target.object'', sk_device s)] else [])
     @ [(''node.latency'',
         to_string (pipewire_ring_frames rate (sk_buffer_ms s) div RING_QUANTUM_MULTIPLE) @ ''/'' @ to_string (unat rate))]"

definition channel_positions :: "u8 \<Rightarrow> string list" where
  "channel_positions channels = (if channels = 1 then [''MONO''] else if channels = 2 then [''FL'', ''FR''] else [])"

definition pw_open_stream ::
  "pw_graph \<Rightarrow> u32 \<Rightarrow> u8 \<Rightarrow> u8 \<Rightarrow> pipewire_sink \<Rightarrow> bool \<times> pipewire_sink \<times> pw_call list"
where
  "pw_open_stream g rate channels bits s =
     (case spa_format_for bits of
        None \<Rightarrow> (False, s, [])
      | Some format \<Rightarrow>
          if channels = 0 \<or> rate = 0 then (False, s, [])
          else case pw_start_loop g s of (looped, s0, t0) \<Rightarrow>
            if \<not> looped then (False, s0, t0)
            else
              (let s1 = pw_set_format rate channels bits s0; props = pw_stream_properties rate s1;
                   conn = (\<lambda>ok. PwStreamConnect ok format rate channels (channel_positions channels))
               in if \<not> pg_properties g then (False, s1, t0)
                  else if \<not> pg_stream g then (False, s1\<lparr>sk_stream := False\<rparr>, t0 @ [PwStreamNew False props])
                  else if \<not> pg_connect g
                  then (False, s1\<lparr>sk_stream := False\<rparr>, t0 @ [PwStreamNew True props, conn False, PwStreamDestroy])
                  else
                    (let s2 = pw_await_state (pg_states g) (s1\<lparr>sk_stream := True\<rparr>);
                         t = t0 @ [PwStreamNew True props, conn True]
                     in if ps_state s2 \<noteq> PwStreaming \<and> ps_state s2 \<noteq> PwPaused
                        then (case pw_close_stream s2 of (s3, t') \<Rightarrow> (False, s3, t @ t'))
                        else (True, s2\<lparr>sk_failed := False\<rparr>, t))))"

definition pw_stream_alive :: "pipewire_sink \<Rightarrow> bool" where
  "pw_stream_alive s \<longleftrightarrow> sk_stream s \<and> sk_frame s \<noteq> 0 \<and> \<not> ps_stream_failed s"

definition pw_latch :: "pw_graph \<Rightarrow> pipewire_sink \<Rightarrow> pipewire_sink" where
  "pw_latch g s = (if pg_stopped g then s\<lparr>sk_stopping := True\<rparr> else s)"

definition pw_reopen_in_place :: "pw_graph \<Rightarrow> pipewire_sink \<Rightarrow> bool \<times> pipewire_sink \<times> pw_call list" where
  "pw_reopen_in_place g s =
     (if sk_stopping s \<or> sample_rate (sk_format s) = 0 then (False, s, [])
      else case reopen_due (sk_recovery s) of
        (False, r) \<Rightarrow> (False, s\<lparr>sk_recovery := r\<rparr>, [])
      | (True, r) \<Rightarrow>
          (let f = sk_format s; (s2, t) = pw_close_stream (s\<lparr>sk_recovery := r\<rparr>);
               (ok, s3, t') = pw_open_stream g (sample_rate f) (channel_count f) (bit_depth f) s2
           in if \<not> ok then (False, s3\<lparr>sk_recovery := reopen_done False (sk_recovery s3)\<rparr>, t @ t')
              else
                (let s4 = pw_latch g (s3\<lparr>sk_recovery := reopen_done True (sk_recovery s3)\<rparr>) in
                 if sk_stopping s4
                 then (case pw_close_stream s4 of (s5, t'') \<Rightarrow> (False, s5, t @ t' @ t''))
                 else (True, s4, t @ t'))))"

definition pw_configure ::
  "pw_graph \<Rightarrow> u32 \<Rightarrow> u8 \<Rightarrow> u8 \<Rightarrow> pipewire_sink \<Rightarrow> bool \<times> pipewire_sink \<times> pw_call list"
where
  "pw_configure g rate channels bits s =
     (if sk_stopping s then (False, s, [])
      else
        (let s1 = s\<lparr>sk_format := \<lparr>sample_rate = rate, channel_count = channels, bit_depth = bits\<rparr>\<rparr>;
             (s2, t) = pw_close_stream s1;
             (ok, s3, t') = pw_open_stream g rate channels bits s2
         in if \<not> ok then (False, s3\<lparr>sk_failed := True\<rparr>, t @ t')
            else (True, s3\<lparr>sk_recovery := reset_recovery (sk_recovery s3)\<rparr>, t @ t')))"

text \<open>The bytes a write hands to the ring: the caller's own at unity, a scaled copy otherwise.\<close>

definition pw_stage :: "u8 list \<Rightarrow> nat \<Rightarrow> u64 \<Rightarrow> u64 \<Rightarrow> pipewire_sink \<Rightarrow> u8 list" where
  "pw_stage data frames start target s =
     (if start = target \<and> target = Q32_ONE then data
      else fst (apply_volume_ramp (take (frames * sk_frame s) data) (sk_bits s div 8) (sk_channels s) start target (sk_step s)))"

definition pw_write_begins ::
  "pw_graph \<Rightarrow> u8 list \<Rightarrow> pipewire_sink \<Rightarrow> (nat + pw_parked) \<times> pipewire_sink \<times> pw_call list"
where
  "pw_write_begins g data s =
     (if data = [] then (Inl 0, s, [])
      else
        (let (ready, s1, t) = (if pw_stream_alive s then (True, s, []) else pw_reopen_in_place g s)
         in if \<not> ready
            then (Inl (discarded (length data) s1), s1\<lparr>sk_failed := True\<rparr>, t)
            else
              (let usable = length data - length data mod sk_frame s1 in
               if usable = 0 then (Inl 0, s1, t)
               else
                 (let frames_total = usable div sk_frame s1; start = sk_current s1; target = sk_target s1
                  in (Inr \<lparr>pk_source = pw_stage data frames_total start target s1, pk_usable = usable,
                        pk_frame = sk_frame s1, pk_generation = sk_generation s1, pk_done = 0,
                        pk_start = start, pk_target = target\<rparr>, s1, t)))))"

text \<open>The end of a write: the gain it commits for the frames it fed.\<close>

definition pw_write_ends :: "pw_parked \<Rightarrow> pipewire_sink \<Rightarrow> pipewire_sink" where
  "pw_write_ends p s =
     s\<lparr>sk_current := ramped_gain (pk_start p) (pk_target p) (sk_step s) (of_nat (pk_done p div pk_frame p))\<rparr>"

definition pw_clear :: "pipewire_sink \<Rightarrow> pipewire_sink" where
  "pw_clear s =
     (let s1 = s\<lparr>sk_generation := sk_generation s + 1\<rparr> in
      if pw_stream_alive s1 then s1\<lparr>sk_ring := ring_request_clear (sk_ring s1)\<rparr>
      else s1\<lparr>sk_ring := ring_drop (sk_ring s1)\<rparr>)"

definition pw_stop_latch :: "pipewire_sink \<Rightarrow> pipewire_sink" where
  "pw_stop_latch s = s\<lparr>sk_stopping := True\<rparr>"

definition pw_stop :: "pipewire_sink \<Rightarrow> pipewire_sink \<times> pw_call list" where
  "pw_stop s =
     (let s1 = (pw_stop_latch s)\<lparr>sk_format := no_format\<rparr>;
          (s2, t) = pw_close_stream s1; (s3, t') = pw_stop_loop s2
      in (s3, t @ t'))"

definition pw_destroy :: "pipewire_sink \<Rightarrow> pipewire_sink \<times> pw_call list" where
  "pw_destroy s =
     (let (s1, t) = pw_close_stream (pw_stop_latch s); (s2, t') = pw_stop_loop s1 in (s2, t @ t'))"

text \<open>The main loop's tick: the report on the graph's quantum, once per stream, and the delayed reconnect.\<close>

definition pw_quantum_report :: "pipewire_sink \<Rightarrow> quantum_fit option \<times> pipewire_sink" where
  "pw_quantum_report s =
     (if ps_quantum s \<noteq> 0 \<and> \<not> ps_quantum_logged s
      then (if sk_rate s \<noteq> 0
            then Some (pipewire_quantum_fit (pipewire_ring_frames (sk_rate s) (sk_buffer_ms s)) (ps_quantum s) (sk_rate s))
            else None, s\<lparr>ps_quantum_logged := True\<rparr>)
      else (None, s))"

definition pw_reconnect :: "pw_graph \<Rightarrow> int \<Rightarrow> pipewire_sink \<Rightarrow> pipewire_sink \<times> pw_call list" where
  "pw_reconnect g now s =
     (if \<not> pending (sk_recovery s) \<or> sk_stopping s then (s, [])
      else if sample_rate (sk_format s) = 0 then (s, [])
      else case rescan_due now (sk_recovery s) of
        (False, r) \<Rightarrow> (s\<lparr>sk_recovery := r\<rparr>, [])
      | (True, r) \<Rightarrow>
          (let f = sk_format s;
               (s1, t1) = pw_close_stream (s\<lparr>sk_recovery := r\<rparr>);
               (s2, t2) = pw_stop_loop s1;
               (ok, s3, t3) = pw_open_stream g (sample_rate f) (channel_count f) (bit_depth f) s2
           in if \<not> ok then (s3\<lparr>sk_recovery := rescan_done False (sk_recovery s3)\<rparr>, t1 @ t2 @ t3)
              else
                (let s4 = pw_latch g (s3\<lparr>sk_recovery := rescan_done True (sk_recovery s3)\<rparr>) in
                 if sk_stopping s4
                 then (let (s5, t4) = pw_close_stream s4; (s6, t5) = pw_stop_loop s5 in (s6, t1 @ t2 @ t3 @ t4 @ t5))
                 else (s4, t1 @ t2 @ t3))))"

definition pw_poll :: "pw_graph \<Rightarrow> int \<Rightarrow> pipewire_sink \<Rightarrow> pipewire_sink \<times> pw_call list" where
  "pw_poll g now s = pw_reconnect g now (snd (pw_quantum_report s))"

definition pw_update_target :: "(u8 \<Rightarrow> u64) \<Rightarrow> pipewire_sink \<Rightarrow> pipewire_sink" where
  "pw_update_target curve s = s\<lparr>sk_target := q32_gain_for curve (sk_volume s) (sk_muted s)\<rparr>"

definition pw_set_volume :: "(u8 \<Rightarrow> u64) \<Rightarrow> u8 \<Rightarrow> pipewire_sink \<Rightarrow> pipewire_sink" where
  "pw_set_volume curve volume s = pw_update_target curve (s\<lparr>sk_volume := (if volume > 100 then 100 else volume)\<rparr>)"

definition pw_set_muted :: "(u8 \<Rightarrow> u64) \<Rightarrow> bool \<Rightarrow> pipewire_sink \<Rightarrow> pipewire_sink" where
  "pw_set_muted curve muted s = pw_update_target curve (s\<lparr>sk_muted := muted\<rparr>)"

text \<open>
  The process callback, when the graph offers a buffer: its memory, its size in bytes and the frames it
  asks for (none: as many as fit). The result is the real audio copied, what the buffer then holds (\<open>None\<close>:
  given back as it was), and the frames reported when the graph's timing could be read.
\<close>

record pw_buffer =
  pb_mapped :: bool
  pb_maxsize :: nat
  pb_requested :: nat
  pb_timing :: bool

record process_result =
  pr_read :: "u8 list"
  pr_output :: "u8 list option"
  pr_reported :: "u32 option"
  pr_sink :: pipewire_sink

definition pw_process :: "pw_buffer \<Rightarrow> pipewire_sink \<Rightarrow> process_result" where
  "pw_process buf s =
     (let stride = sk_frame s in
      if \<not> pb_mapped buf \<or> stride = 0
      then \<lparr>pr_read = [], pr_output = None, pr_reported = None, pr_sink = s\<rparr>
      else
        (let frames0 = pb_maxsize buf div stride;
             frames = (if pb_requested buf \<noteq> 0 then min frames0 (pb_requested buf) else frames0);
             (real_bytes, dest, ring) = ring_read (frames * stride) (sk_ring s)
         in \<lparr>pr_read = take real_bytes dest, pr_output = Some dest,
             pr_reported = (if real_bytes > 0 \<and> pb_timing buf then Some (of_nat (real_bytes div stride)) else None),
             pr_sink = s\<lparr>sk_ring := ring, ps_quantum := of_nat frames\<rparr>\<rparr>))"

section \<open>The stream and its buffer\<close>

text \<open>What is done to the sink other than writing; \<open>PwState\<close> is the graph reporting a state of the open stream.\<close>

datatype pw_op =
  PwConfigure pw_graph u32 u8 u8
| PwClear
| PwStopLatch
| PwStop
| PwPoll pw_graph int
| PwVolume u8
| PwMute bool
| PwState pw_state

fun pipewire_op :: "(u8 \<Rightarrow> u64) \<Rightarrow> pw_op \<Rightarrow> pipewire_sink \<Rightarrow> pipewire_sink \<times> pw_call list" where
  "pipewire_op curve (PwConfigure g rate channels bits) s = snd (pw_configure g rate channels bits s)"
| "pipewire_op curve PwClear s = (pw_clear s, [])"
| "pipewire_op curve PwStopLatch s = (pw_stop_latch s, [])"
| "pipewire_op curve PwStop s = pw_stop s"
| "pipewire_op curve (PwPoll g now) s = pw_poll g now s"
| "pipewire_op curve (PwVolume v) s = (pw_set_volume curve v s, [])"
| "pipewire_op curve (PwMute m) s = (pw_set_muted curve m s, [])"
| "pipewire_op curve (PwState st) s = (if sk_stream s then pw_stream_state st s else s, [])"

definition pw_takes_no_lock :: "pw_op \<Rightarrow> bool" where
  "pw_takes_no_lock op = (case op of PwStopLatch \<Rightarrow> True | PwVolume _ \<Rightarrow> True | PwMute _ \<Rightarrow> True | PwState _ \<Rightarrow> True | _ \<Rightarrow> False)"

text \<open>A buffer of the graph with room for so many frames.\<close>

definition graph_buffer :: "nat \<Rightarrow> pipewire_sink \<Rightarrow> pw_buffer" where
  "graph_buffer n s = \<lparr>pb_mapped = True, pb_maxsize = n * sk_frame s, pb_requested = 0, pb_timing = True\<rparr>"

definition pipewire_backend :: "(u8 \<Rightarrow> u64) \<Rightarrow> (pw_op, pw_graph, pipewire_sink, pw_parked) backend" where
  "pipewire_backend curve =
     \<lparr>bk_op = (\<lambda>op s. fst (pipewire_op curve op s)), bk_free = pw_takes_no_lock,
      bk_begin = (\<lambda>g data s. case pw_write_begins g data s of (answer, s', _) \<Rightarrow> (answer, s')),
      bk_end = pw_write_ends,
      bk_pull = (\<lambda>n s. if sk_stream s \<and> sk_frame s \<noteq> 0
                      then Some (pr_read (pw_process (graph_buffer n s) s), pr_sink (pw_process (graph_buffer n s) s))
                      else None)\<rparr>"

definition pw_stream_inv :: "pipewire_sink \<Rightarrow> bool" where
  "pw_stream_inv s \<longleftrightarrow> buffer_ok s \<and> unat (sk_buffer_ms s) \<le> 2000
     \<and> (sk_stream s \<longrightarrow> spa_format_for (sk_bits s) \<noteq> None \<and> sk_channels s \<noteq> 0
          \<and> sk_frame s = frame_bytes (sk_channels s) (sk_bits s) \<and> 0 < capacity (sk_ring s))"

lemma spa_format_width: "spa_format_for bits \<noteq> None \<Longrightarrow> unat bits div 8 \<in> {1, 2, 3, 4}"
  by (auto simp: spa_format_for_def PROBE_BIT_DEPTHS_def SPA_PROBE_FORMATS_def split: if_splits)

lemma pw_frame_pos: "pw_stream_inv s \<Longrightarrow> sk_stream s \<Longrightarrow> 0 < sk_frame s"
  using spa_format_width [of "sk_bits s"] by (auto simp: pw_stream_inv_def frame_bytes_def unat_gt_0)

lemma pw_ring_capacity_bound:
  assumes "unat (sk_buffer_ms s) \<le> 2000" "sk_frame s = frame_bytes channels bits"
  shows "pw_ring_capacity s \<le> 2 ^ 63"
proof -
  have m: "unat (sk_rate s) * unat (sk_buffer_ms s) \<le> 4294967296 * 2000"
    using unat_u32_less [of "sk_rate s"] assms(1) by (intro mult_le_mono) linarith+
  then have "unat (ucast (sk_rate s) * ucast (sk_buffer_ms s) :: u64) = unat (sk_rate s) * unat (sk_buffer_ms s)"
    by (subst unat_mult_lem [THEN iffD1]) simp_all
  moreover have "unat (sk_rate s) * unat (sk_buffer_ms s) div 1000 \<le> 4294967296 * 2000 div 1000"
    using m by (rule div_le_mono)
  ultimately have "pipewire_ring_frames (sk_rate s) (sk_buffer_ms s) \<le> 2 ^ 34"
    by (simp add: pipewire_ring_frames_def MIN_RING_FRAMES_def Let_def)
  moreover have "sk_frame s \<le> 255 * 31"
    using assms(2) unat_u8_less [of channels] unat_u8_less [of bits] unfolding frame_bytes_def
    by (simp only:) (rule mult_le_mono, linarith+)
  ultimately have "pw_ring_capacity s \<le> 2 ^ 34 * (255 * 31) + 1"
    unfolding pw_ring_capacity_def by (intro add_mono mult_le_mono) simp_all
  then show ?thesis by simp
qed

lemma pw_inv_other [simp]:
  "pw_stream_inv (s\<lparr>sk_recovery := r\<rparr>) = pw_stream_inv s"
  "pw_stream_inv (s\<lparr>sk_format := f\<rparr>) = pw_stream_inv s"
  "pw_stream_inv (s\<lparr>sk_failed := b\<rparr>) = pw_stream_inv s"
  "pw_stream_inv (s\<lparr>sk_stopping := b\<rparr>) = pw_stream_inv s"
  "pw_stream_inv (s\<lparr>sk_target := g\<rparr>) = pw_stream_inv s"
  "pw_stream_inv (s\<lparr>sk_current := g\<rparr>) = pw_stream_inv s"
  "pw_stream_inv (s\<lparr>sk_volume := v\<rparr>) = pw_stream_inv s"
  "pw_stream_inv (s\<lparr>sk_muted := b\<rparr>) = pw_stream_inv s"
  "pw_stream_inv (s\<lparr>ps_loop := b\<rparr>) = pw_stream_inv s"
  "pw_stream_inv (s\<lparr>ps_state := st\<rparr>) = pw_stream_inv s"
  "pw_stream_inv (s\<lparr>ps_stream_failed := b\<rparr>) = pw_stream_inv s"
  "pw_stream_inv (s\<lparr>ps_quantum := q\<rparr>) = pw_stream_inv s"
  "pw_stream_inv (s\<lparr>ps_quantum_logged := b\<rparr>) = pw_stream_inv s"
  by (simp_all add: pw_stream_inv_def buffer_ok_def)

lemma pw_kept_other [simp]:
  fixes s :: pipewire_sink
  shows "kept_or_fresh s (s'\<lparr>sk_recovery := r\<rparr>) = kept_or_fresh s s'"
  "kept_or_fresh s (s'\<lparr>sk_format := f\<rparr>) = kept_or_fresh s s'"
  "kept_or_fresh s (s'\<lparr>sk_failed := b\<rparr>) = kept_or_fresh s s'"
  "kept_or_fresh s (s'\<lparr>sk_stopping := b\<rparr>) = kept_or_fresh s s'"
  "kept_or_fresh s (s'\<lparr>ps_loop := b\<rparr>) = kept_or_fresh s s'"
  "kept_or_fresh s (s'\<lparr>ps_quantum_logged := b\<rparr>) = kept_or_fresh s s'"
  "kept_or_fresh (s\<lparr>sk_recovery := r\<rparr>) s' = kept_or_fresh s s'"
  "kept_or_fresh (s\<lparr>sk_format := f\<rparr>) s' = kept_or_fresh s s'"
  "kept_or_fresh (s\<lparr>sk_stopping := b\<rparr>) s' = kept_or_fresh s s'"
  by (simp_all add: kept_or_fresh_def fresh_stream_def)

lemma pw_latch_other [simp]:
  "pw_stream_inv (pw_latch g s) = pw_stream_inv s" "kept_or_fresh r (pw_latch g s) = kept_or_fresh r s"
  "sk_stream (pw_latch g s) = sk_stream s"
  by (simp_all add: pw_latch_def)

lemma await_state_keeps: "\<exists>st f. pw_await_state sts s = s\<lparr>ps_state := st, ps_stream_failed := f\<rparr>"
proof (induction sts arbitrary: s)
  case Nil
  show ?case by (intro exI [of _ "ps_state s"] exI [of _ "ps_stream_failed s"]) simp
next
  case (Cons st sts)
  have step: "\<exists>f. pw_stream_state st s = s\<lparr>ps_state := st, ps_stream_failed := f\<rparr>"
    by (auto simp: pw_stream_state_def Let_def intro: exI [of _ "ps_stream_failed s"])
  show ?case
  proof (cases "ps_state s = PwStreaming \<or> ps_state s = PwPaused \<or> ps_state s = PwError")
    case True
    then show ?thesis by (auto intro!: exI [of _ "ps_state s"] exI [of _ "ps_stream_failed s"])
  next
    case False
    obtain f where f: "pw_stream_state st s = s\<lparr>ps_state := st, ps_stream_failed := f\<rparr>" using step by blast
    obtain st' f' where "pw_await_state sts (pw_stream_state st s) = (pw_stream_state st s)\<lparr>ps_state := st', ps_stream_failed := f'\<rparr>"
      using Cons [of "pw_stream_state st s"] by blast
    then have "pw_await_state (st # sts) s = s\<lparr>ps_state := st', ps_stream_failed := f'\<rparr>" using False f by simp
    then show ?thesis by blast
  qed
qed

lemma pw_closed_stream:
  assumes "unat (sk_buffer_ms s) \<le> 2000" "pw_close_stream s = (s', t)"
  shows "pw_stream_inv s' \<and> fresh_stream (sk_generation s) s' \<and> \<not> sk_stream s' \<and> sk_buffer_ms s' = sk_buffer_ms s"
  using assms ring_ok_reset [of 0 "sk_ring s"]
  by (auto simp: pw_close_stream_def pw_stream_inv_def buffer_ok_def fresh_stream_def)

lemma start_loop_keeps: "pw_start_loop g s = (ok, s', t) \<Longrightarrow> \<exists>b. s' = s\<lparr>ps_loop := b\<rparr>"
  by (auto simp: pw_start_loop_def split: if_splits intro: exI [of _ True])

lemma pw_set_format_stream:
  assumes "unat (sk_buffer_ms s) \<le> 2000"
  shows "buffer_ok (pw_set_format rate channels bits s)" "fresh_stream (sk_generation s) (pw_set_format rate channels bits s)"
    "capacity (sk_ring (pw_set_format rate channels bits s)) > 0"
    "sk_frame (pw_set_format rate channels bits s) = frame_bytes channels bits"
    "sk_channels (pw_set_format rate channels bits s) = channels" "sk_bits (pw_set_format rate channels bits s) = bits"
    "sk_buffer_ms (pw_set_format rate channels bits s) = sk_buffer_ms s"
    "sk_stream (pw_set_format rate channels bits s) = sk_stream s"
proof -
  let ?s1 = "s\<lparr>sk_generation := sk_generation s + 1, sk_rate := rate, sk_channels := channels, sk_bits := bits,
            sk_frame := frame_bytes channels bits, sk_step := volume_ramp_step rate, sk_current := sk_target s\<rparr>"
  have cap: "pw_ring_capacity ?s1 \<le> 2 ^ 63" "0 < pw_ring_capacity ?s1"
    using pw_ring_capacity_bound [of ?s1 channels bits] assms by (simp_all add: pw_ring_capacity_def)
  note reset = ring_ok_reset [of "pw_ring_capacity ?s1" "sk_ring s"]
  show "buffer_ok (pw_set_format rate channels bits s)" "fresh_stream (sk_generation s) (pw_set_format rate channels bits s)"
    "capacity (sk_ring (pw_set_format rate channels bits s)) > 0"
    using reset cap by (simp_all add: pw_set_format_def Let_def buffer_ok_def fresh_stream_def)
qed (simp_all add: pw_set_format_def Let_def)

lemma pw_opened_stream:
  assumes "pw_stream_inv s" "\<not> sk_stream s" "pw_open_stream g rate channels bits s = (ok, s', t)"
  shows "pw_stream_inv s' \<and> kept_or_fresh s s' \<and> sk_stream s' = ok"
proof -
  obtain looped s0 t0 where l: "pw_start_loop g s = (looped, s0, t0)" by (metis prod_cases3)
  obtain b where s0: "s0 = s\<lparr>ps_loop := b\<rparr>" using start_loop_keeps [OF l] by blast
  let ?s1 = "pw_set_format rate channels bits s0"
  have b: "unat (sk_buffer_ms s0) \<le> 2000" using assms(1) s0 by (simp add: pw_stream_inv_def)
  note f = pw_set_format_stream [OF b, of rate channels bits]
  have fresh: "fresh_stream (sk_generation s) u" if "sk_generation u = sk_generation ?s1" "sk_ring u = sk_ring ?s1" for u :: pipewire_sink
    using that f(2) s0 by (simp add: fresh_stream_def)
  have inv1: "pw_stream_inv (?s1\<lparr>sk_stream := False\<rparr>)" "pw_stream_inv ?s1" "\<not> sk_stream ?s1"
    using f b assms(2) s0 by (auto simp: pw_stream_inv_def buffer_ok_def)
  consider (early) "\<not> ok" "s' = s \<or> s' = s0"
    | (half) "\<not> ok" "s' = ?s1 \<or> s' = ?s1\<lparr>sk_stream := False\<rparr>"
    | (full) "spa_format_for bits \<noteq> None" "channels \<noteq> 0" "pg_properties g" "pg_stream g" "pg_connect g" "rate \<noteq> 0" looped
    using assms(3) l by (auto simp: pw_open_stream_def Let_def split: option.splits if_splits)
  then show ?thesis
  proof cases
    case early
    then show ?thesis using assms(1,2) s0 by auto
  next
    case half
    then show ?thesis using inv1 fresh [of s'] by (auto intro!: fresh_is_fresh)
  next
    case full
    let ?s2 = "pw_await_state (pg_states g) (?s1\<lparr>sk_stream := True\<rparr>)"
    obtain st fl where s2: "?s2 = ?s1\<lparr>sk_stream := True, ps_state := st, ps_stream_failed := fl\<rparr>"
      using await_state_keeps [of "pg_states g" "?s1\<lparr>sk_stream := True\<rparr>"] by auto
    have inv2: "pw_stream_inv ?s2" using f b full unfolding s2 by (simp add: pw_stream_inv_def buffer_ok_def)
    have fresh2: "fresh_stream (sk_generation s) ?s2" unfolding s2 by (rule fresh) simp_all
    obtain u t' where c: "pw_close_stream ?s2 = (u, t')" by fastforce
    have "unat (sk_buffer_ms ?s2) \<le> 2000" using inv2 by (simp add: pw_stream_inv_def)
    note cc = pw_closed_stream [OF this c]
    have u: "pw_stream_inv u" "fresh_stream (sk_generation s) u" "\<not> sk_stream u"
      using cc fresh2 by (auto simp: fresh_stream_def)
    have "(ok, s') = (if ps_state ?s2 \<noteq> PwStreaming \<and> ps_state ?s2 \<noteq> PwPaused then (False, u) else (True, ?s2\<lparr>sk_failed := False\<rparr>))"
      using assms(3) full l c by (auto simp: pw_open_stream_def Let_def split: if_splits)
    then consider "ok = False" "s' = u" | "ok = True" "s' = ?s2\<lparr>sk_failed := False\<rparr>"
      by (cases "ps_state ?s2 \<noteq> PwStreaming \<and> ps_state ?s2 \<noteq> PwPaused") (simp_all only: if_True if_False prod.inject simp_thms)
    then show ?thesis
    proof cases
      case 1
      then show ?thesis using u by (simp add: fresh_is_fresh)
    next
      case 2
      have "sk_stream ?s2" unfolding s2 by simp
      then show ?thesis using 2 inv2 fresh2 by (simp add: fresh_is_fresh)
    qed
  qed
qed

lemma pw_reclosed_stream:
  assumes "pw_stream_inv s" "kept_or_fresh r s" "pw_close_stream s = (s', t)"
  shows "pw_stream_inv s' \<and> kept_or_fresh r s' \<and> \<not> sk_stream s'"
proof -
  have b: "unat (sk_buffer_ms s) \<le> 2000" using assms(1) by (simp add: pw_stream_inv_def)
  show ?thesis using pw_closed_stream [OF b assms(3)] assms(2) kept_or_fresh_trans fresh_is_fresh by metis
qed

lemma pw_stop_loop_keeps:
  "pw_stop_loop s = (s', t) \<Longrightarrow> s' = s\<lparr>ps_loop := False\<rparr>"
  by (auto simp: pw_stop_loop_def split: if_splits)

lemma pw_reopened_stream:
  assumes "pw_stream_inv s" "kept_or_fresh r s" "\<not> sk_stream s" "pw_open_stream g rate channels bits s = (ok, s', t)"
  shows "pw_stream_inv s' \<and> kept_or_fresh r s' \<and> sk_stream s' = ok"
  using pw_opened_stream [OF assms(1,3,4)] assms(2) kept_or_fresh_trans by blast

lemma pw_configure_stream:
  assumes "pw_stream_inv s" "pw_configure g rate channels bits s = (ok, s', t)"
  shows "pw_stream_inv s' \<and> kept_or_fresh s s'"
proof (cases "sk_stopping s")
  case True
  then show ?thesis using assms by (auto simp: pw_configure_def)
next
  case False
  let ?s1 = "s\<lparr>sk_format := \<lparr>sample_rate = rate, channel_count = channels, bit_depth = bits\<rparr>\<rparr>"
  obtain s2 t2 where c: "pw_close_stream ?s1 = (s2, t2)" by fastforce
  obtain ok3 s3 t3 where op: "pw_open_stream g rate channels bits s2 = (ok3, s3, t3)" by (metis prod_cases3)
  have s1: "pw_stream_inv ?s1" "kept_or_fresh s ?s1" using assms(1) by simp_all
  note s2 = pw_reclosed_stream [OF s1 c]
  note s3 = pw_reopened_stream [OF conjunct1 [OF s2] conjunct1 [OF conjunct2 [OF s2]] conjunct2 [OF conjunct2 [OF s2]] op]
  have "s' = s3\<lparr>sk_failed := True\<rparr> \<or> s' = s3\<lparr>sk_recovery := reset_recovery (sk_recovery s3)\<rparr>"
    using assms(2) False c op by (auto simp: pw_configure_def Let_def split: if_splits)
  then show ?thesis using s3 by auto
qed

lemma pw_reopen_stream:
  assumes "pw_stream_inv s" "pw_reopen_in_place g s = (ok, s', t)"
  shows "pw_stream_inv s' \<and> kept_or_fresh s s' \<and> (ok \<longrightarrow> sk_stream s')"
proof (cases "sk_stopping s \<or> sample_rate (sk_format s) = 0")
  case True
  then show ?thesis using assms by (auto simp: pw_reopen_in_place_def)
next
  case False
  obtain yes r where due: "reopen_due (sk_recovery s) = (yes, r)" by fastforce
  let ?s1 = "s\<lparr>sk_recovery := r\<rparr>" and ?f = "sk_format s"
  show ?thesis
  proof (cases yes)
    case no: False
    then have "(ok, s', t) = (False, ?s1, [])" unfolding assms(2) [symmetric] using False due by (simp add: pw_reopen_in_place_def)
    then show ?thesis using assms(1) by simp
  next
    case True
    obtain s2 t2 where c: "pw_close_stream ?s1 = (s2, t2)" by fastforce
    obtain ok3 s3 t3 where op: "pw_open_stream g (sample_rate ?f) (channel_count ?f) (bit_depth ?f) s2 = (ok3, s3, t3)"
      by (metis prod_cases3)
    have s1: "pw_stream_inv ?s1" "kept_or_fresh s ?s1" using assms(1) by simp_all
    note s2 = pw_reclosed_stream [OF s1 c]
    note s3 = pw_reopened_stream [OF conjunct1 [OF s2] conjunct1 [OF conjunct2 [OF s2]] conjunct2 [OF conjunct2 [OF s2]] op]
    let ?s4 = "pw_latch g (s3\<lparr>sk_recovery := reopen_done True (sk_recovery s3)\<rparr>)"
    obtain s5 t5 where c5: "pw_close_stream ?s4 = (s5, t5)" by fastforce
    have s4: "pw_stream_inv ?s4" "kept_or_fresh s ?s4" using s3 by simp_all
    note s5 = pw_reclosed_stream [OF s4 c5]
    have "(ok, s', t) = (if \<not> ok3 then (False, s3\<lparr>sk_recovery := reopen_done False (sk_recovery s3)\<rparr>, t2 @ t3)
        else if sk_stopping ?s4 then (False, s5, t2 @ t3 @ t5) else (True, ?s4, t2 @ t3))"
      unfolding assms(2) [symmetric] using False due True
      by (simp add: pw_reopen_in_place_def Let_def c op c5)
    then consider "ok = False" "s' = s3\<lparr>sk_recovery := reopen_done False (sk_recovery s3)\<rparr>" | "ok = False" "s' = s5"
      | "ok = True" "s' = ?s4" ok3
      by (cases ok3; cases "sk_stopping ?s4") (simp_all only: if_True if_False not_False_eq_True not_True_eq_False prod.inject)
    then show ?thesis using s3 s4 s5 by cases simp_all
  qed
qed

lemma pw_poll_stream:
  assumes "pw_stream_inv s" "pw_poll g now s = (s', t)"
  shows "pw_stream_inv s' \<and> kept_or_fresh s s'"
proof -
  let ?q = "snd (pw_quantum_report s)"
  have q: "?q = s \<or> ?q = s\<lparr>ps_quantum_logged := True\<rparr>" by (simp add: pw_quantum_report_def)
  then have qi: "pw_stream_inv ?q" "kept_or_fresh s ?q" using assms(1) by auto
  show ?thesis
  proof (cases "\<not> pending (sk_recovery ?q) \<or> sk_stopping ?q \<or> sample_rate (sk_format ?q) = 0")
    case True
    then show ?thesis using assms(2) qi by (auto simp: pw_poll_def pw_reconnect_def split: if_splits)
  next
    case False
    obtain yes r where due: "rescan_due now (sk_recovery ?q) = (yes, r)" by fastforce
    let ?s0 = "?q\<lparr>sk_recovery := r\<rparr>" and ?f = "sk_format ?q"
    have s0: "pw_stream_inv ?s0" "kept_or_fresh s ?s0" using qi by simp_all
    show ?thesis
    proof (cases yes)
      case no: False
      then have "s' = ?s0" using assms(2) False due by (simp add: pw_poll_def pw_reconnect_def)
      then show ?thesis using s0 by simp
    next
      case True
      obtain s1 t1 where c: "pw_close_stream ?s0 = (s1, t1)" by fastforce
      obtain s2 t2 where l: "pw_stop_loop s1 = (s2, t2)" by fastforce
      obtain ok3 s3 t3 where op: "pw_open_stream g (sample_rate ?f) (channel_count ?f) (bit_depth ?f) s2 = (ok3, s3, t3)"
        by (metis prod_cases3)
      note s1 = pw_reclosed_stream [OF s0 c]
      have s2: "pw_stream_inv s2" "kept_or_fresh s s2" "\<not> sk_stream s2" using s1 pw_stop_loop_keeps [OF l] by simp_all
      note s3 = pw_reopened_stream [OF s2 op]
      let ?s4 = "pw_latch g (s3\<lparr>sk_recovery := rescan_done True (sk_recovery s3)\<rparr>)"
      obtain s5 t5 where c5: "pw_close_stream ?s4 = (s5, t5)" by fastforce
      obtain s6 t6 where l6: "pw_stop_loop s5 = (s6, t6)" by fastforce
      have s4: "pw_stream_inv ?s4" "kept_or_fresh s ?s4" using s3 by simp_all
      have s6: "pw_stream_inv s6" "kept_or_fresh s s6" using pw_reclosed_stream [OF s4 c5] pw_stop_loop_keeps [OF l6] by simp_all
      have "s' = fst (pw_poll g now s)" using assms(2) by simp
      also have "\<dots> = (if \<not> ok3 then s3\<lparr>sk_recovery := rescan_done False (sk_recovery s3)\<rparr>
          else if sk_stopping ?s4 then s6 else ?s4)"
        using False due True by (simp add: pw_poll_def pw_reconnect_def Let_def c l op c5 l6)
      finally consider "s' = s3\<lparr>sk_recovery := rescan_done False (sk_recovery s3)\<rparr>" | "s' = s6" | "s' = ?s4"
        by (cases ok3; cases "sk_stopping ?s4") (simp_all only: if_True if_False not_False_eq_True not_True_eq_False)
      then show ?thesis using s3 s4 s6 by cases simp_all
    qed
  qed
qed

lemma pw_clear_stream:
  assumes "pw_stream_inv s"
  shows "pw_stream_inv (pw_clear s) \<and> stream_step s (pw_clear s)"
proof -
  have ok: "ring_ok (sk_ring s)" using assms by (simp add: pw_stream_inv_def buffer_ok_def)
  have "ring_ok (ring_request_clear (sk_ring s))" "capacity (ring_request_clear (sk_ring s)) = capacity (sk_ring s)"
    "clear_requested (ring_request_clear (sk_ring s))" "ring_available (ring_request_clear (sk_ring s)) = ring_available (sk_ring s)"
    using ok by (simp_all add: ring_request_clear_def ring_ok_def ring_available_def)
  then show ?thesis using assms dropped_ring [OF ok]
    by (auto simp: pw_clear_def pw_stream_alive_def pw_stream_inv_def buffer_ok_def stream_step_def Let_def)
qed

lemma pw_op_stream:
  assumes "pw_stream_inv s"
  shows "pw_stream_inv (fst (pipewire_op curve op s)) \<and> stream_step s (fst (pipewire_op curve op s))"
proof (cases op)
  case (PwConfigure g rate channels bits)
  obtain ok s' t where c: "pw_configure g rate channels bits s = (ok, s', t)" by (metis prod_cases3)
  show ?thesis using pw_configure_stream [OF assms c] PwConfigure c by (auto dest: kept_or_fresh_step)
next
  case (PwPoll g now)
  obtain s' t where c: "pw_poll g now s = (s', t)" by fastforce
  show ?thesis using pw_poll_stream [OF assms c] PwPoll c by (auto dest: kept_or_fresh_step)
next
  case PwStop
  let ?s1 = "(pw_stop_latch s)\<lparr>sk_format := no_format\<rparr>"
  obtain s2 t2 where c: "pw_close_stream ?s1 = (s2, t2)" by fastforce
  obtain s3 t3 where l: "pw_stop_loop s2 = (s3, t3)" by fastforce
  have "pw_stream_inv ?s1" "kept_or_fresh s ?s1" using assms by (simp_all add: pw_stop_latch_def)
  from pw_reclosed_stream [OF this c] show ?thesis using PwStop c l pw_stop_loop_keeps [OF l]
    by (auto simp: pw_stop_def Let_def intro: kept_or_fresh_step)
next
  case (PwState st)
  then show ?thesis using assms by (auto simp: pw_stream_state_def stream_step_def Let_def)
qed (use assms pw_clear_stream in \<open>simp_all add: pw_stop_latch_def pw_set_volume_def pw_set_muted_def pw_update_target_def stream_step_def\<close>)

lemma length_stage:
  assumes "unat (sk_bits s div 8) * unat (sk_channels s) = sk_frame s" "frames * sk_frame s \<le> length data"
    "length data < 2 ^ 64" "sk_bits s div 8 \<noteq> 0" "sk_channels s \<noteq> 0"
  shows "frames * sk_frame s \<le> length (pw_stage data frames start target s)"
  using assms ramp_is_frame_gains [OF assms(4,5), of "take (frames * sk_frame s) data" start target "sk_step s"]
  by (simp add: pw_stage_def)

lemma pw_frame_parts:
  assumes "pw_stream_inv s" "sk_stream s"
  shows "unat (sk_bits s div 8) * unat (sk_channels s) = sk_frame s" "sk_bits s div 8 \<noteq> 0" "sk_channels s \<noteq> 0"
proof -
  have b: "unat (sk_bits s) div 8 \<in> {1, 2, 3, 4}" and c: "sk_channels s \<noteq> 0"
    and f: "sk_frame s = frame_bytes (sk_channels s) (sk_bits s)"
    using assms spa_format_width by (auto simp: pw_stream_inv_def)
  from frame_parts [OF b c] show "unat (sk_bits s div 8) * unat (sk_channels s) = sk_frame s" "sk_bits s div 8 \<noteq> 0"
    by (simp_all add: f)
  show "sk_channels s \<noteq> 0" by (rule c)
qed

lemma pw_write_begins_stream:
  assumes "pw_stream_inv s" "pw_write_begins g data s = (answer, s', t)" "length data < 2 ^ 64"
  shows "pw_stream_inv s' \<and> kept_or_fresh s s' \<and>
    (case answer of Inl n \<Rightarrow> n \<le> length data | Inr p \<Rightarrow> parked_ok p \<and> belongs p s' \<and> pk_done p = 0)"
proof (cases "data = []")
  case True
  then show ?thesis using assms by (auto simp: pw_write_begins_def)
next
  case False
  obtain ready s1 t1 where re: "(if pw_stream_alive s then (True, s, []) else pw_reopen_in_place g s) = (ready, s1, t1)"
    by (metis prod_cases3)
  have s1: "pw_stream_inv s1" "kept_or_fresh s s1" "ready \<Longrightarrow> sk_stream s1"
    using re pw_reopen_stream [OF assms(1), of g ready s1 t1] assms(1) by (auto simp: pw_stream_alive_def split: if_splits)
  let ?u = "length data - length data mod sk_frame s1" and ?f = "sk_frame s1"
  let ?p = "\<lparr>pk_source = pw_stage data (?u div ?f) (sk_current s1) (sk_target s1) s1, pk_usable = ?u, pk_frame = ?f,
    pk_generation = sk_generation s1, pk_done = 0, pk_start = sk_current s1, pk_target = sk_target s1\<rparr>"
  have n: "discarded (length data) s1 \<le> length data" by (simp add: discarded_def Let_def)
  have "(answer, s') = (if \<not> ready then (Inl (discarded (length data) s1), s1\<lparr>sk_failed := True\<rparr>)
      else if ?u = 0 then (Inl 0, s1) else (Inr ?p, s1))"
    using assms(2) False re by (auto simp: pw_write_begins_def Let_def split: if_splits)
  moreover have "ready \<Longrightarrow> parked_ok ?p"
  proof -
    assume ready
    then have st: "sk_stream s1" by (rule s1(3))
    have u: "?u div ?f * ?f = ?u" by (simp add: minus_mod_eq_div_mult)
    have "?u \<le> length (pw_stage data (?u div ?f) (sk_current s1) (sk_target s1) s1)"
      using length_stage [OF pw_frame_parts(1) [OF s1(1) st], of "?u div ?f" data] pw_frame_parts(2,3) [OF s1(1) st]
        assms(3) u by simp
    then show "parked_ok ?p" using pw_frame_pos [OF s1(1) st] by (simp add: parked_ok_def minus_mod_eq_div_mult)
  qed
  ultimately consider "answer = Inl (discarded (length data) s1)" "s' = s1\<lparr>sk_failed := True\<rparr>" | "answer = Inl 0" "s' = s1"
    | "answer = Inr ?p" "s' = s1" "parked_ok ?p"
    by (cases ready; cases "?u = 0") (simp_all only: if_True if_False not_False_eq_True not_True_eq_False prod.inject simp_thms)
  then show ?thesis using s1 n by cases (simp_all add: belongs_def)
qed

lemma pw_process_stream:
  assumes "pw_stream_inv s" "sk_frame s \<noteq> 0"
    and r_def: "r = pw_process (graph_buffer n s) s"
  shows "pw_stream_inv (pr_sink r) \<and> sk_generation (pr_sink r) = sk_generation s \<and> sk_frame (pr_sink r) = sk_frame s
    \<and> (\<exists>dest. ring_read (n * sk_frame s) (sk_ring s) = (length (pr_read r), dest, sk_ring (pr_sink r))
         \<and> pr_read r = take (length (pr_read r)) dest)"
proof -
  obtain k dest ring where rd: "ring_read (n * sk_frame s) (sk_ring s) = (k, dest, ring)" by (metis prod_cases3)
  have ok: "ring_ok (sk_ring s)" "sk_frame s dvd length (ring_contents (sk_ring s))"
    and c: "clear_requested (sk_ring s) \<Longrightarrow> 0 < capacity (sk_ring s)"
    using assms(1) by (auto simp: pw_stream_inv_def buffer_ok_def)
  have law: "ring_ok ring \<and> capacity ring = capacity (sk_ring s) \<and> k \<le> length dest
      \<and> sk_frame s dvd length (ring_contents ring) \<and> \<not> clear_requested ring"
    by (rule ring_read_whole [OF ok c rd])
  have r: "r = \<lparr>pr_read = take k dest, pr_output = Some dest,
      pr_reported = (if k > 0 then Some (of_nat (k div sk_frame s)) else None),
      pr_sink = s\<lparr>sk_ring := ring, ps_quantum := of_nat n\<rparr>\<rparr>"
    using rd assms(2) by (simp add: r_def pw_process_def graph_buffer_def Let_def)
  have "pw_stream_inv (s\<lparr>sk_ring := ring\<rparr>)" using assms(1) law by (auto simp: pw_stream_inv_def buffer_ok_def)
  then show ?thesis using rd law unfolding r by (simp add: min_def)
qed

lemma pw_new_inv: "unat buffer_ms \<le> 2000 \<Longrightarrow> pw_stream_inv (new_pipewire_sink spec buffer_ms)"
  by (simp add: pw_stream_inv_def buffer_ok_def new_pipewire_sink_def new_ring_def ring_ok_def ring_contents_def ring_available_def)

interpretation pipewire: ring_stream "pipewire_backend curve" pw_stream_inv "\<lambda>_. True" "\<lambda>_. True"
proof
  fix s op assume s: "pw_stream_inv s"
  show "pw_stream_inv (bk_op (pipewire_backend curve) op s) \<and> stream_step s (bk_op (pipewire_backend curve) op s)"
    using pw_op_stream [OF s] by (simp add: pipewire_backend_def)
  show "bk_free (pipewire_backend curve) op \<Longrightarrow> sk_generation (bk_op (pipewire_backend curve) op s) = sk_generation s"
    by (cases op) (simp_all add: pipewire_backend_def pw_takes_no_lock_def pw_stop_latch_def pw_set_volume_def
        pw_set_muted_def pw_update_target_def pw_stream_state_def Let_def)
next
  fix s g data answer s'
  assume s: "pw_stream_inv s" and len: "length data < 2 ^ 64" and w: "bk_begin (pipewire_backend curve) g data s = (answer, s')"
  obtain t where "pw_write_begins g data s = (answer, s', t)"
    using w by (auto simp: pipewire_backend_def split: prod.splits)
  from pw_write_begins_stream [OF s this len]
  show "pw_stream_inv s' \<and> stream_step s s' \<and>
      (case answer of Inl n \<Rightarrow> n \<le> length data | Inr p \<Rightarrow> parked_ok p \<and> belongs p s' \<and> pk_done p = 0)"
    using kept_or_fresh_step by blast
next
  fix s n bytes s'
  assume s: "pw_stream_inv s" "bk_pull (pipewire_backend curve) n s = Some (bytes, s')"
  then have "sk_frame s \<noteq> 0" "bytes = pr_read (pw_process (graph_buffer n s) s)" "s' = pr_sink (pw_process (graph_buffer n s) s)"
    by (auto simp: pipewire_backend_def split: if_splits)
  then show "pw_stream_inv s' \<and> sk_generation s' = sk_generation s \<and> sk_frame s' = sk_frame s \<and>
      (\<exists>dest. ring_read (n * sk_frame s) (sk_ring s) = (length bytes, dest, sk_ring s') \<and> bytes = take (length bytes) dest)"
    using pw_process_stream [OF s(1) _ refl, of n] by simp
next
  fix s :: pipewire_sink and ring
  assume s: "pw_stream_inv s" "ring_ok ring" "clear_requested ring = clear_requested (sk_ring s)"
    "capacity ring = capacity (sk_ring s)" "sk_frame s dvd length (ring_contents ring)"
  then show "pw_stream_inv (s\<lparr>sk_ring := ring\<rparr>)" by (auto simp: pw_stream_inv_def buffer_ok_def)
qed (auto simp: pipewire_backend_def pw_stream_inv_def pw_write_ends_def buffer_ok_def)

section \<open>Properties\<close>

text \<open>
  C10. What the graph plays is what the player handed over, scaled. For every interleaving of writes, waits,
  process callbacks, flushes, stream starts, states the graph reports, reconnects and shutdown, the sink is
  one queue of bytes in whole frames: a write puts nothing into a stream other than the one it began in and
  returns exactly the bytes it put in, every byte is played once and in order, and a flush drops the rest.
\<close>

theorem pipewire_sink_is_a_queue:
  assumes "unat buffer_ms \<le> 2000" "list_all (lawful_event (\<lambda>_. True) (\<lambda>_. True)) evs"
    and "pull_run (pipewire_backend curve) evs (new_pipewire_sink spec buffer_ms) = c"
  shows "\<exists>n. spec_run (pc_log c) empty_spec = Some \<lparr>sp_queue = ring_contents (sk_ring (pc_sink c)),
    sp_asked = clear_requested (sk_ring (pc_sink c)), sp_fed = n\<rparr>"
proof -
  have "ring_contents (sk_ring (new_pipewire_sink spec buffer_ms)) = []"
    "\<not> clear_requested (sk_ring (new_pipewire_sink spec buffer_ms))"
    by (simp_all add: new_pipewire_sink_def new_ring_def ring_contents_def ring_available_def)
  from pipewire.sink_is_queue [OF pw_new_inv [OF assms(1)] this assms(2,3)] show ?thesis by blast
qed

text \<open>A graph that takes any stream at once.\<close>

definition easy_graph :: pw_graph where
  "easy_graph = \<lparr>pg_loop = True, pg_loop_start = True, pg_properties = True, pg_stream = True, pg_connect = True,
     pg_states = [PwPaused], pg_stopped = False\<rparr>"

definition pw_demo_events :: "(pw_op, pw_graph) pull_event list" where
  "pw_demo_events = [Locked (PwConfigure easy_graph 48000 1 8), Begins easy_graph [1, 2, 3], Turns, Pulls 2,
     Locked PwClear, Turns, Pulls 1]"

theorem pipewire_sink_is_a_queue_witness:
  "spec_run (pc_log (pull_run (pipewire_backend (\<lambda>_. 0)) pw_demo_events (new_pipewire_sink [] 100))) empty_spec \<noteq> None"
proof -
  have "list_all (lawful_event (\<lambda>_. True) (\<lambda>_. True)) pw_demo_events" by (simp add: pw_demo_events_def)
  from pipewire_sink_is_a_queue [OF _ this refl, of 100 "\<lambda>_. 0" "[]"] show ?thesis by auto
qed

section \<open>A stream start under a waiting write\<close>

lemma pw_configured:
  assumes "pw_configure g rate channels bits s = (True, s', t)"
  shows "sk_generation s < sk_generation s' \<and> sk_step s' = volume_ramp_step rate \<and> sk_current s' = sk_target s'
    \<and> sk_target s' = sk_target s"
proof -
  let ?s1 = "s\<lparr>sk_format := \<lparr>sample_rate = rate, channel_count = channels, bit_depth = bits\<rparr>\<rparr>"
  obtain s2 t2 where c: "pw_close_stream ?s1 = (s2, t2)" by fastforce
  obtain ok3 s3 t3 where op: "pw_open_stream g rate channels bits s2 = (ok3, s3, t3)" by (metis prod_cases3)
  have "\<not> sk_stopping s" using assms by (auto simp: pw_configure_def)
  then have s3: "ok3" "s' = s3\<lparr>sk_recovery := reset_recovery (sk_recovery s3)\<rparr>"
    using assms c op by (auto simp: pw_configure_def Let_def split: if_splits)
  obtain looped s0 t0 where l: "pw_start_loop g s2 = (looped, s0, t0)" by (metis prod_cases3)
  obtain b where s0: "s0 = s2\<lparr>ps_loop := b\<rparr>" using start_loop_keeps [OF l] by blast
  let ?f = "pw_set_format rate channels bits s0"
  obtain st fl where aw: "pw_await_state (pg_states g) (?f\<lparr>sk_stream := True\<rparr>)
      = ?f\<lparr>sk_stream := True, ps_state := st, ps_stream_failed := fl\<rparr>"
    using await_state_keeps [of "pg_states g" "?f\<lparr>sk_stream := True\<rparr>"] by auto
  have "s3 = ?f\<lparr>sk_stream := True, ps_state := st, ps_stream_failed := fl, sk_failed := False\<rparr>"
    using op s3(1) l aw by (auto simp: pw_open_stream_def Let_def split: option.splits if_splits prod.splits)
  then show ?thesis using s3(2) s0 c by (auto simp: pw_set_format_def pw_close_stream_def Let_def)
qed

text \<open>
  C21. A stream does not always open at the gain it is meant to be at. \<^verbatim>\<open>open_stream_()\<close> sets the gain of a
  new stream to its target, so that nothing fades in; but a write still waiting on the stream before it
  then returns and commits the end of its own ramp, from the gain and target it captured, over the new
  stream's gain. The next bytes of the new stream start from there.
\<close>

theorem waiting_write_sets_new_streams_gain:
  assumes "pc_writer c = Waiting p" "pk_generation p \<le> sk_generation (pc_sink c)"
    and "pw_configure g rate channels bits (pc_sink c) = (True, s', t)"
    and "c' = fold (pull_step (pipewire_backend curve)) [Locked (PwConfigure g rate channels bits), Wakes late] c"
  shows "sk_current s' = sk_target s' \<and> pc_writer c' = NoWriter \<and> sk_target (pc_sink c') = sk_target s'
    \<and> sk_current (pc_sink c') = ramped_gain (pk_start p) (pk_target p) (volume_ramp_step rate) (of_nat (pk_done p div pk_frame p))"
proof -
  note n = pw_configured [OF assms(3)]
  have ends: "wait_turn late p s' = WaitEnds"
    using n assms(2) by (simp add: wait_turn_def woken_def)
  have "pc_sink c' = pw_write_ends p s'" "pc_writer c' = NoWriter"
    using assms(1,3) ends unfolding assms(4) by (simp_all add: pipewire_backend_def Let_def returns_def)
  then show ?thesis using n by (simp add: pw_write_ends_def)
qed

text \<open>A write begun at full volume and waiting on a full ring; the sink is muted, and a stream starts.\<close>

definition full_ring_write :: pw_parked where
  "full_ring_write = \<lparr>pk_source = replicate 6000 1, pk_usable = 6000, pk_frame = 1, pk_generation = 2, pk_done = 4800,
     pk_start = Q32_ONE, pk_target = Q32_ONE\<rparr>"

definition muted_meanwhile :: "(pipewire_sink, pw_parked) pull_config" where
  "muted_meanwhile = \<lparr>pc_sink = pw_set_muted (\<lambda>_. Q32_ONE) True
       (fst (snd (pw_configure easy_graph 48000 1 8 (new_pipewire_sink [] 100)))),
     pc_writer = Waiting full_ring_write, pc_log = []\<rparr>"

theorem waiting_write_sets_new_streams_gain_witness:
  "let c = fold (pull_step (pipewire_backend (\<lambda>_. Q32_ONE))) [Locked (PwConfigure easy_graph 44100 1 8), Wakes False] muted_meanwhile
   in sk_target (pc_sink c) = 0 \<and> sk_current (pc_sink c) = Q32_ONE \<and> pc_writer c = NoWriter"
proof -
  let ?c = "fold (pull_step (pipewire_backend (\<lambda>_. Q32_ONE))) [Locked (PwConfigure easy_graph 44100 1 8), Wakes False] muted_meanwhile"
  have opens: "fst (pw_configure easy_graph rate 1 8 s) = (\<not> sk_stopping s)" if "rate \<noteq> 0" for rate s
    using that by (simp add: pw_configure_def pw_open_stream_def pw_start_loop_def easy_graph_def spa_format_for_def
        PROBE_BIT_DEPTHS_def SPA_PROBE_FORMATS_def pw_close_stream_def pw_set_format_def pw_stream_state_def Let_def)
  obtain s1 t1 where first: "pw_configure easy_graph 48000 1 8 (new_pipewire_sink [] 100) = (True, s1, t1)"
    using opens [of 48000 "new_pipewire_sink [] 100"]
    by (cases "pw_configure easy_graph 48000 1 8 (new_pipewire_sink [] 100)") (simp add: new_pipewire_sink_def)
  have gen: "sk_generation s1 = 2" "sk_stopping s1 = False"
    using first by (auto simp: pw_configure_def pw_open_stream_def pw_start_loop_def easy_graph_def spa_format_for_def
        PROBE_BIT_DEPTHS_def SPA_PROBE_FORMATS_def pw_close_stream_def pw_set_format_def pw_stream_state_def Let_def
        new_pipewire_sink_def)
  have sink: "pc_sink muted_meanwhile = pw_set_muted (\<lambda>_. Q32_ONE) True s1" using first by (simp add: muted_meanwhile_def)
  obtain s2 t2 where again: "pw_configure easy_graph 44100 1 8 (pc_sink muted_meanwhile) = (True, s2, t2)"
    using opens [of 44100 "pc_sink muted_meanwhile"] gen sink
    by (cases "pw_configure easy_graph 44100 1 8 (pc_sink muted_meanwhile)") (simp add: pw_set_muted_def pw_update_target_def)
  have w: "pc_writer muted_meanwhile = Waiting full_ring_write" by (simp add: muted_meanwhile_def)
  have g: "pk_generation full_ring_write \<le> sk_generation (pc_sink muted_meanwhile)"
    using gen sink by (simp add: full_ring_write_def pw_set_muted_def pw_update_target_def)
  have "sk_target s2 = 0" using pw_configured [OF again] sink by (simp add: pw_set_muted_def pw_update_target_def q32_gain_for_def)
  then show ?thesis
    using waiting_write_sets_new_streams_gain [OF w g again refl, of "\<lambda>_. Q32_ONE" False]
    by (simp add: full_ring_write_def Let_def)
qed

section \<open>The loop and the stream\<close>

text \<open>
  libpipewire's own rules: a loop or none, and on it no stream (0), one that was created (1) or one that is
  connected (2); \<open>None\<close> when a rule is broken.
\<close>

fun pw_lib :: "bool \<times> nat \<Rightarrow> pw_call list \<Rightarrow> (bool \<times> nat) option" where
  "pw_lib q [] = Some q"
| "pw_lib (l, n) (PwLoopNew ok # cs) = (if l then None else pw_lib (ok, 0) cs)"
| "pw_lib (l, n) (PwLoopDestroy # cs) = (if l \<and> n = 0 then pw_lib (False, 0) cs else None)"
| "pw_lib (l, n) (PwStreamNew ok _ # cs) = (if l \<and> n = 0 then pw_lib (l, if ok then 1 else 0) cs else None)"
| "pw_lib (l, n) (PwStreamConnect ok _ _ _ _ # cs) = (if n = 1 then pw_lib (l, if ok then 2 else 1) cs else None)"
| "pw_lib (l, n) (PwStreamDisconnect # cs) = (if n = 2 then pw_lib (l, 1) cs else None)"
| "pw_lib (l, n) (PwStreamDestroy # cs) = (if n = 1 then pw_lib (l, 0) cs else None)"

lemma pw_lib_append: "pw_lib q (xs @ ys) = Option.bind (pw_lib q xs) (\<lambda>q'. pw_lib q' ys)"
  by (induction q xs rule: pw_lib.induct) simp_all

fun makes :: "pw_call \<Rightarrow> bool" where
  "makes (PwLoopNew _) = True"
| "makes (PwStreamNew _ _) = True"
| "makes _ = False"

definition pw_held :: "pipewire_sink \<Rightarrow> bool \<times> nat" where
  "pw_held s = (ps_loop s, if sk_stream s then 2 else 0)"

lemma pw_held_other [simp]:
  "pw_held (s\<lparr>sk_recovery := r\<rparr>) = pw_held s" "pw_held (s\<lparr>sk_format := f\<rparr>) = pw_held s"
  "pw_held (s\<lparr>sk_failed := b\<rparr>) = pw_held s" "pw_held (s\<lparr>sk_stopping := b\<rparr>) = pw_held s"
  "pw_held (pw_latch g s) = pw_held s" "pw_held (pw_stop_latch s) = pw_held s"
  by (simp_all add: pw_held_def pw_latch_def pw_stop_latch_def)

definition pw_keeps_rules :: "pipewire_sink \<Rightarrow> pw_call list \<Rightarrow> pipewire_sink \<Rightarrow> bool" where
  "pw_keeps_rules s t s' \<longleftrightarrow> pw_lib (pw_held s) t = Some (pw_held s')
     \<and> (sk_stopping s \<longrightarrow> sk_stopping s' \<and> \<not> list_ex makes t)"

lemma pw_keeps_rules_trans: "pw_keeps_rules s t u \<Longrightarrow> pw_keeps_rules u t' v \<Longrightarrow> pw_keeps_rules s (t @ t') v"
  by (auto simp: pw_keeps_rules_def pw_lib_append)

text \<open>Closing and stopping, which keep the rules whatever comes before.\<close>

lemma pw_close_calls:
  "pw_close_stream s = (s', t) \<Longrightarrow> pw_lib (pw_held s) t = Some (pw_held s') \<and> \<not> list_ex makes t \<and> \<not> sk_stream s'
    \<and> ps_loop s' = ps_loop s \<and> sk_stopping s' = sk_stopping s"
  by (auto simp: pw_close_stream_def pw_held_def)

lemma pw_stop_loop_calls:
  "pw_stop_loop s = (s', t) \<Longrightarrow> \<not> sk_stream s \<Longrightarrow> pw_lib (pw_held s) t = Some (pw_held s') \<and> \<not> list_ex makes t
    \<and> \<not> sk_stream s' \<and> \<not> ps_loop s' \<and> sk_stopping s' = sk_stopping s"
  by (auto simp: pw_stop_loop_def pw_held_def split: if_splits)

lemma pw_open_calls:
  assumes "\<not> sk_stream s" "pw_open_stream g rate channels bits s = (ok, s', t)"
  shows "pw_lib (pw_held s) t = Some (pw_held s') \<and> sk_stopping s' = sk_stopping s"
proof -
  obtain looped s0 t0 where l: "pw_start_loop g s = (looped, s0, t0)" by (metis prod_cases3)
  have lib0: "pw_lib (pw_held s) t0 = Some (pw_held s0)" "looped \<Longrightarrow> ps_loop s0" "\<not> sk_stream s0" "sk_stopping s0 = sk_stopping s"
    using l assms(1) by (auto simp: pw_start_loop_def pw_held_def split: if_splits)
  let ?s1 = "pw_set_format rate channels bits s0"
  have s1: "ps_loop ?s1 = ps_loop s0" "sk_stream ?s1 = sk_stream s0" "sk_stopping ?s1 = sk_stopping s0"
    by (simp_all add: pw_set_format_def Let_def)
  obtain st fl where aw: "pw_await_state (pg_states g) (?s1\<lparr>sk_stream := True\<rparr>)
      = ?s1\<lparr>sk_stream := True, ps_state := st, ps_stream_failed := fl\<rparr>"
    using await_state_keeps [of "pg_states g" "?s1\<lparr>sk_stream := True\<rparr>"] by auto
  show ?thesis
  proof (cases "spa_format_for bits = None \<or> channels = 0 \<or> rate = 0 \<or> \<not> looped")
    case True
    then have "(s', t) = (s, []) \<or> (s', t) = (s0, t0)"
      using assms(2) l by (auto simp: pw_open_stream_def split: option.splits if_splits)
    then show ?thesis using lib0 by auto
  next
    case False
    then obtain format where fm: "spa_format_for bits = Some format" and run: "channels \<noteq> 0" "rate \<noteq> 0" looped by auto
    have held: "pw_held s0 = (True, 0)" using lib0 run by (simp add: pw_held_def)
    show ?thesis
      using assms(2) fm run l aw lib0 held s1
      by (simp add: pw_open_stream_def Let_def pw_lib_append pw_close_stream_def split: if_splits)
         (auto simp: pw_held_def pw_lib_append)
  qed
qed

lemma pw_configure_calls:
  assumes "pw_configure g rate channels bits s = (ok, s', t)"
  shows "pw_keeps_rules s t s'"
proof (cases "sk_stopping s")
  case True
  then show ?thesis using assms by (auto simp: pw_configure_def pw_keeps_rules_def)
next
  case False
  let ?s1 = "s\<lparr>sk_format := \<lparr>sample_rate = rate, channel_count = channels, bit_depth = bits\<rparr>\<rparr>"
  obtain s2 t2 where c: "pw_close_stream ?s1 = (s2, t2)" by fastforce
  obtain ok3 s3 t3 where op: "pw_open_stream g rate channels bits s2 = (ok3, s3, t3)" by (metis prod_cases3)
  have closed: "\<not> sk_stream s2" using pw_close_calls [OF c] by blast
  have "pw_held s' = pw_held s3 \<and> t = t2 @ t3"
    using assms False c op by (auto simp: pw_configure_def pw_held_def Let_def split: if_splits)
  then show ?thesis using pw_close_calls [OF c] pw_open_calls [OF closed op] False
    by (simp add: pw_keeps_rules_def pw_lib_append pw_held_def)
qed

lemma pw_reopen_calls:
  assumes "pw_reopen_in_place g s = (ok, s', t)"
  shows "pw_keeps_rules s t s'"
proof (cases "sk_stopping s \<or> sample_rate (sk_format s) = 0 \<or> \<not> fst (reopen_due (sk_recovery s))")
  case True
  then show ?thesis using assms
    by (cases "reopen_due (sk_recovery s)") (auto simp: pw_reopen_in_place_def pw_keeps_rules_def pw_held_def split: if_splits bool.splits)
next
  case False
  obtain r where due: "reopen_due (sk_recovery s) = (True, r)" using False by (cases "reopen_due (sk_recovery s)") auto
  let ?s1 = "s\<lparr>sk_recovery := r\<rparr>" and ?f = "sk_format s"
  obtain s2 t2 where c: "pw_close_stream ?s1 = (s2, t2)" by fastforce
  obtain ok3 s3 t3 where op: "pw_open_stream g (sample_rate ?f) (channel_count ?f) (bit_depth ?f) s2 = (ok3, s3, t3)"
    by (metis prod_cases3)
  have closed: "\<not> sk_stream s2" using pw_close_calls [OF c] by blast
  let ?s4 = "pw_latch g (s3\<lparr>sk_recovery := reopen_done True (sk_recovery s3)\<rparr>)"
  obtain s5 t5 where c5: "pw_close_stream ?s4 = (s5, t5)" by fastforce
  have "(ok, s', t) = (if \<not> ok3 then (False, s3\<lparr>sk_recovery := reopen_done False (sk_recovery s3)\<rparr>, t2 @ t3)
      else if sk_stopping ?s4 then (False, s5, t2 @ t3 @ t5) else (True, ?s4, t2 @ t3))"
    unfolding assms [symmetric] using False due
    by (simp add: pw_reopen_in_place_def Let_def c op c5)
  then consider "s' = s3\<lparr>sk_recovery := reopen_done False (sk_recovery s3)\<rparr>" "t = t2 @ t3" | "s' = s5" "t = t2 @ t3 @ t5"
    | "s' = ?s4" "t = t2 @ t3"
    by (cases ok3; cases "sk_stopping ?s4") (simp_all only: if_True if_False not_False_eq_True not_True_eq_False prod.inject)
  then show ?thesis using pw_close_calls [OF c] pw_open_calls [OF closed op] pw_close_calls [OF c5] False
    by cases (simp_all add: pw_keeps_rules_def pw_lib_append)
qed

lemma pw_poll_calls:
  assumes "pw_poll g now s = (s', t)"
  shows "pw_keeps_rules s t s'"
proof -
  let ?q = "snd (pw_quantum_report s)"
  have q: "pw_held ?q = pw_held s" "sk_stopping ?q = sk_stopping s"
    by (auto simp: pw_quantum_report_def pw_held_def)
  show ?thesis
  proof (cases "\<not> pending (sk_recovery ?q) \<or> sk_stopping ?q \<or> sample_rate (sk_format ?q) = 0 \<or> \<not> fst (rescan_due now (sk_recovery ?q))")
    case True
    then have "t = [] \<and> pw_held s' = pw_held ?q \<and> sk_stopping s' = sk_stopping ?q"
      using assms by (cases "rescan_due now (sk_recovery ?q)")
        (auto simp: pw_poll_def pw_reconnect_def pw_held_def split: if_splits bool.splits)
    then show ?thesis using q by (simp add: pw_keeps_rules_def)
  next
    case False
    obtain r where due: "rescan_due now (sk_recovery ?q) = (True, r)" using False by (cases "rescan_due now (sk_recovery ?q)") auto
    let ?s0 = "?q\<lparr>sk_recovery := r\<rparr>" and ?f = "sk_format ?q"
    obtain s1 t1 where c: "pw_close_stream ?s0 = (s1, t1)" by fastforce
    obtain s2 t2 where l: "pw_stop_loop s1 = (s2, t2)" by fastforce
    obtain ok3 s3 t3 where op: "pw_open_stream g (sample_rate ?f) (channel_count ?f) (bit_depth ?f) s2 = (ok3, s3, t3)"
      by (metis prod_cases3)
    let ?s4 = "pw_latch g (s3\<lparr>sk_recovery := rescan_done True (sk_recovery s3)\<rparr>)"
    obtain s5 t5 where c5: "pw_close_stream ?s4 = (s5, t5)" by fastforce
    obtain s6 t6 where l6: "pw_stop_loop s5 = (s6, t6)" by fastforce
    note cc = pw_close_calls [OF c] and cc5 = pw_close_calls [OF c5]
    note ll = pw_stop_loop_calls [OF l conjunct1 [OF conjunct2 [OF conjunct2 [OF cc]]]]
      and ll6 = pw_stop_loop_calls [OF l6 conjunct1 [OF conjunct2 [OF conjunct2 [OF cc5]]]]
    have closed: "\<not> sk_stream s2" using ll by blast
    have "pw_poll g now s = (if \<not> ok3 then (s3\<lparr>sk_recovery := rescan_done False (sk_recovery s3)\<rparr>, t1 @ t2 @ t3)
        else if sk_stopping ?s4 then (s6, t1 @ t2 @ t3 @ t5 @ t6) else (?s4, t1 @ t2 @ t3))"
      using False due by (simp add: pw_poll_def pw_reconnect_def Let_def c l op c5 l6)
    then consider "s' = s3\<lparr>sk_recovery := rescan_done False (sk_recovery s3)\<rparr>" "t = t1 @ t2 @ t3"
      | "s' = s6" "t = t1 @ t2 @ t3 @ t5 @ t6" | "s' = ?s4" "t = t1 @ t2 @ t3"
      unfolding assms
      by (cases ok3; cases "sk_stopping ?s4") (simp_all only: if_True if_False not_False_eq_True not_True_eq_False prod.inject)
    moreover have "pw_held ?s0 = pw_held s" "\<not> sk_stopping s" using q False by simp_all
    ultimately show ?thesis using cc ll pw_open_calls [OF closed op] cc5 ll6
      by cases (simp_all add: pw_keeps_rules_def pw_lib_append)
  qed
qed

lemma pw_write_begins_calls:
  assumes "pw_write_begins g data s = (answer, s', t)"
  shows "pw_keeps_rules s t s'"
proof (cases "data = [] \<or> pw_stream_alive s")
  case True
  then have "s' = s" "t = []" using assms by (auto simp: pw_write_begins_def Let_def split: if_splits)
  then show ?thesis by (simp add: pw_keeps_rules_def)
next
  case False
  obtain ok s1 t1 where re: "pw_reopen_in_place g s = (ok, s1, t1)" by (metis prod_cases3)
  then have "(s' = s1 \<or> s' = s1\<lparr>sk_failed := True\<rparr>) \<and> t = t1"
    using assms False by (auto simp: pw_write_begins_def Let_def split: if_splits)
  then show ?thesis using pw_reopen_calls [OF re] by (auto simp: pw_keeps_rules_def pw_held_def)
qed

lemma pw_stop_calls:
  assumes "pw_stop s = (s', t)"
  shows "pw_keeps_rules s t s' \<and> \<not> list_ex makes t \<and> sk_stopping s' \<and> pw_held s' = (False, 0)"
proof -
  obtain s2 t2 where c: "pw_close_stream ((pw_stop_latch s)\<lparr>sk_format := no_format\<rparr>) = (s2, t2)" by fastforce
  obtain s3 t3 where l: "pw_stop_loop s2 = (s3, t3)" by fastforce
  note cc = pw_close_calls [OF c]
  note ll = pw_stop_loop_calls [OF l conjunct1 [OF conjunct2 [OF conjunct2 [OF cc]]]]
  have "s' = s3" "t = t2 @ t3" using assms c l by (simp_all add: pw_stop_def Let_def)
  then show ?thesis using cc ll by (simp add: pw_keeps_rules_def pw_lib_append pw_held_def [of s3] pw_stop_latch_def)
qed

lemma pw_op_calls:
  assumes "pipewire_op curve op s = (s', t)"
  shows "pw_keeps_rules s t s'"
proof (cases op)
  case (PwConfigure g rate channels bits)
  obtain ok s1 t1 where c: "pw_configure g rate channels bits s = (ok, s1, t1)" by (metis prod_cases3)
  show ?thesis using pw_configure_calls [OF c] assms PwConfigure c by simp
next
  case (PwPoll g now)
  then show ?thesis using pw_poll_calls [of g now s s' t] assms by simp
next
  case PwStop
  then show ?thesis using pw_stop_calls [of s s' t] assms by simp
next
  case PwClear
  then show ?thesis using assms by (auto simp: pw_clear_def pw_keeps_rules_def pw_held_def Let_def split: if_splits)
next
  case (PwState st)
  then show ?thesis using assms by (auto simp: pw_stream_state_def pw_keeps_rules_def pw_held_def Let_def split: if_splits)
qed (use assms in \<open>auto simp: pw_keeps_rules_def pw_held_def pw_stop_latch_def pw_set_volume_def pw_set_muted_def
      pw_update_target_def\<close>)

datatype pw_act = PwDoes pw_op | PwWrites pw_graph "u8 list"

fun pw_acts :: "(u8 \<Rightarrow> u64) \<Rightarrow> pw_act list \<Rightarrow> pipewire_sink \<Rightarrow> pipewire_sink \<times> pw_call list" where
  "pw_acts curve [] s = (s, [])"
| "pw_acts curve (PwDoes op # acts) s =
     (case pipewire_op curve op s of (s', t) \<Rightarrow> (case pw_acts curve acts s' of (s'', t') \<Rightarrow> (s'', t @ t')))"
| "pw_acts curve (PwWrites g data # acts) s =
     (case pw_write_begins g data s of (_, s', t) \<Rightarrow> (case pw_acts curve acts s' of (s'', t') \<Rightarrow> (s'', t @ t')))"

lemma pw_acts_calls: "pw_acts curve acts s = (s', t) \<Longrightarrow> pw_keeps_rules s t s'"
proof (induction curve acts s arbitrary: t rule: pw_acts.induct)
  case (1 curve s)
  then show ?case by (simp add: pw_keeps_rules_def)
next
  case (2 curve op acts s)
  obtain u t1 where o1: "pipewire_op curve op s = (u, t1)" by fastforce
  obtain t2 where r: "pw_acts curve acts u = (s', t2)" "t = t1 @ t2" using 2(2) o1 by (auto split: prod.splits)
  show ?case unfolding r(2)
    using pw_op_calls [OF o1] 2(1) [OF o1 [symmetric] r(1)] pw_keeps_rules_trans by blast
next
  case (3 curve g data acts s)
  obtain a u t1 where o1: "pw_write_begins g data s = (a, u, t1)" by (metis prod_cases3)
  obtain t2 where r: "pw_acts curve acts u = (s', t2)" "t = t1 @ t2" using 3(2) o1 by (auto split: prod.splits)
  show ?case unfolding r(2)
    using pw_write_begins_calls [OF o1] 3(1) [OF o1 [symmetric] refl r(1)] pw_keeps_rules_trans by blast
qed

text \<open>
  C19. The graph is left as it was found. Over any life of the sink a stream is only made on a running loop
  and beside no other, connected once, and disconnected before it is destroyed; the loop outlives its
  stream and goes when the sink stops; and once shutdown has begun neither is ever made again.
\<close>

theorem pipewire_is_left_as_found:
  "let (s, t) = pw_acts curve acts (new_pipewire_sink spec buffer_ms);
       (s1, t1) = pw_stop s;
       (s2, t2) = pw_acts curve later s1;
       (_, t3) = pw_destroy s2
   in pw_lib (False, 0) (t @ t1) = Some (False, 0) \<and> pw_lib (False, 0) (t2 @ t3) = Some (False, 0)
      \<and> \<not> list_ex makes (t1 @ t2 @ t3)"
proof -
  let ?n = "new_pipewire_sink spec buffer_ms"
  obtain s t where a: "pw_acts curve acts ?n = (s, t)" by fastforce
  obtain s1 t1 where st: "pw_stop s = (s1, t1)" by fastforce
  obtain s2 t2 where l: "pw_acts curve later s1 = (s2, t2)" by fastforce
  obtain s3 t3 where c: "pw_close_stream (pw_stop_latch s2) = (s3, t3)" by fastforce
  obtain s4 t4 where e: "pw_stop_loop s3 = (s4, t4)" by fastforce
  have n: "pw_held ?n = (False, 0)" by (simp add: pw_held_def new_pipewire_sink_def)
  note k = pw_acts_calls [OF a] pw_stop_calls [OF st] pw_acts_calls [OF l] and cc = pw_close_calls [OF c]
  note ee = pw_stop_loop_calls [OF e conjunct1 [OF conjunct2 [OF conjunct2 [OF cc]]]]
  have d: "pw_destroy s2 = (s4, t3 @ t4)" by (simp add: pw_destroy_def c e)
  have "pw_lib (False, 0) (t @ t1) = Some (False, 0)"
    using k(1,2) n by (simp add: pw_lib_append pw_keeps_rules_def)
  moreover have "pw_lib (False, 0) (t2 @ t3 @ t4) = Some (False, 0)"
    using k(2,3) cc ee by (simp add: pw_lib_append pw_keeps_rules_def pw_held_def [of s4])
  moreover have "\<not> list_ex makes (t1 @ t2 @ t3 @ t4)"
    using k(2,3) cc ee by (simp add: pw_keeps_rules_def)
  ultimately show ?thesis by (simp add: a st l d)
qed

end
