(* ===== verification/PulseServer.thy ===== *)
theory PulseServer
  imports PullSink DeviceSpec
begin

text \<open>
  \<^verbatim>\<open>src/src/pulse_sink.{h,cpp}\<close>, the part that talks to a PulseAudio server: \<^verbatim>\<open>PulseConnection\<close> (a threaded
  mainloop and the context on it, as one lifetime), the two queries and their cancelling, and what
  \<^verbatim>\<open>probe()\<close> and \<^verbatim>\<open>list_devices()\<close> make of the answers. What libpulse answers is an input; the calls made to
  it are a result, and \<open>pulse_lib\<close> states the rules they follow.
\<close>

section \<open>Definitions\<close>

definition PULSE_TIMEOUT_MS :: nat where "PULSE_TIMEOUT_MS = 3000"
definition PULSE_RECOVERY_TIMEOUT_MS :: nat where "PULSE_RECOVERY_TIMEOUT_MS = 500"

datatype pulse_format = PaU8 | PaS16LE | PaS24LE | PaS32LE

definition PULSE_PROBE_FORMATS :: "pulse_format list" where
  "PULSE_PROBE_FORMATS = [PaU8, PaS16LE, PaS24LE, PaS32LE]"

definition PULSE_FORMAT_NAMES :: "string list" where
  "PULSE_FORMAT_NAMES = [''u8'', ''s16le'', ''s24le'', ''s32le'']"

definition pulse_format_for :: "u8 \<Rightarrow> pulse_format option" where
  "pulse_format_for bits_per_sample = map_of (zip PROBE_BIT_DEPTHS PULSE_PROBE_FORMATS) bits_per_sample"

record pulse_spec =
  pf_format :: pulse_format
  pf_rate :: u32
  pf_channels :: u8

text \<open>The states of a context; \<^verbatim>\<open>PA_CONTEXT_IS_GOOD\<close> is false of an unconnected one.\<close>

datatype context_state = CxUnconnected | CxConnecting | CxAuthorizing | CxSettingName | CxReady | CxFailed | CxTerminated

definition context_is_good :: "context_state \<Rightarrow> bool" where
  "context_is_good st \<longleftrightarrow> st = CxConnecting \<or> st = CxAuthorizing \<or> st = CxSettingName \<or> st = CxReady"

datatype pulse_call =
  PlLoopNew bool
| PlLoopStart bool
| PlLoopStop
| PlLoopFree
| PlContextNew bool
| PlContextCallback bool
| PlContextConnect bool
| PlContextDisconnect
| PlContextUnref
| PlStreamNew bool pulse_spec
| PlStreamCallbacks bool
| PlStreamConnect bool "string option" u32
| PlStreamDisconnect
| PlStreamUnref
| PlStreamWrite bool "u8 list"
| PlStreamFlush bool
| PlQuery bool
| PlOperationCancel
| PlOperationUnref

record pulse_conn =
  pn_loop :: bool
  pn_context :: bool
  pn_state :: context_state

definition new_pulse_conn :: pulse_conn where
  "new_pulse_conn = \<lparr>pn_loop = False, pn_context = False, pn_state = CxUnconnected\<rparr>"

text \<open>
  The answers to one attempt to connect: the mainloop, the context, the states the context reports from
  within \<^verbatim>\<open>pa_context_connect()\<close> (none: it refused), the mainloop's thread, the states reported until the wait
  ends, and libpulse's text for the error.
\<close>

record pulse_server =
  pv_loop :: bool
  pv_context :: bool
  pv_connect :: "context_state list option"
  pv_start :: bool
  pv_states :: "context_state list"
  pv_error :: string

definition pulse_state_cb :: "context_state \<Rightarrow> pulse_conn \<Rightarrow> pulse_conn" where
  "pulse_state_cb st conn = conn\<lparr>pn_state := st\<rparr>"

definition pulse_ready :: "pulse_conn \<Rightarrow> bool" where
  "pulse_ready conn \<longleftrightarrow> pn_state conn = CxReady"

definition context_settled :: "pulse_conn \<Rightarrow> bool" where
  "context_settled conn \<longleftrightarrow> pn_state conn = CxReady \<or> \<not> context_is_good (pn_state conn)"

text \<open>The wait: the states as they are reported, until one settles it or the time is up.\<close>

fun await_context :: "context_state list \<Rightarrow> pulse_conn \<Rightarrow> pulse_conn" where
  "await_context [] conn = conn"
| "await_context (st # sts) conn =
     (if context_settled conn then conn else await_context sts (pulse_state_cb st conn))"

definition pulse_disconnect :: "pulse_conn \<Rightarrow> pulse_conn \<times> pulse_call list" where
  "pulse_disconnect conn =
     (\<lparr>pn_loop = False, pn_context = False, pn_state = CxUnconnected\<rparr>,
      (if pn_loop conn then [PlLoopStop] else [])
      @ (if pn_context conn then [PlContextCallback False, PlContextDisconnect, PlContextUnref] else [])
      @ (if pn_loop conn then [PlLoopFree] else []))"

text \<open>A failed attempt gives its reason and leaves nothing behind.\<close>

definition pulse_connect ::
  "pulse_server \<Rightarrow> nat \<Rightarrow> pulse_conn \<Rightarrow> string option \<times> pulse_conn \<times> pulse_call list"
where
  "pulse_connect v timeout_ms conn =
     (let (c0, t0) = pulse_disconnect conn;
          gives_up = (\<lambda>error c t. (case pulse_disconnect c of (c', t') \<Rightarrow> (Some error, c', t0 @ t @ t')))
      in if \<not> pv_loop v
         then (Some ''cannot create a PulseAudio mainloop'', c0, t0 @ [PlLoopNew False])
         else if \<not> pv_context v
         then gives_up ''cannot create a PulseAudio context'' (c0\<lparr>pn_loop := True\<rparr>) [PlLoopNew True, PlContextNew False]
         else
           (let c1 = c0\<lparr>pn_loop := True, pn_context := True, pn_state := CxUnconnected\<rparr>;
                t1 = [PlLoopNew True, PlContextNew True, PlContextCallback True]
            in case pv_connect v of
                 None \<Rightarrow> gives_up (''cannot reach a PulseAudio server: '' @ pv_error v) c1 (t1 @ [PlContextConnect False])
               | Some sts \<Rightarrow>
                   (let c2 = fold pulse_state_cb sts c1
                    in if \<not> pv_start v
                       then gives_up ''cannot start the PulseAudio mainloop thread'' c2
                              (t1 @ [PlContextConnect True, PlLoopStart False])
                       else
                         (let c3 = await_context (pv_states v) c2; t3 = t1 @ [PlContextConnect True, PlLoopStart True]
                          in if \<not> context_settled c3
                             then gives_up (''the PulseAudio server did not answer within '' @ to_string timeout_ms @ '' ms'') c3 t3
                             else if \<not> pulse_ready c3
                             then gives_up (''cannot reach a PulseAudio server: '' @ pv_error v) c3 t3
                             else (None, c3, t0 @ t3)))))"

definition server_name :: "string option \<Rightarrow> pulse_conn \<Rightarrow> string" where
  "server_name answer conn =
     (if \<not> pn_context conn \<or> \<not> pn_loop conn then ''(no server)''
      else case answer of Some server \<Rightarrow> server | None \<Rightarrow> ''(no server)'')"

subsection \<open>Queries\<close>

text \<open>A sink as the server describes it; its sample spec is kept as libpulse prints it.\<close>

record pulse_sink_info =
  si_name :: string
  si_description :: string
  si_spec :: string

datatype sink_info_event = SinkInfo "string option" "string option" string | SinkInfoEnd | SinkInfoError

record sink_list_query =
  sq_done :: bool
  sq_failed :: bool
  sq_sinks :: "pulse_sink_info list"

fun sink_info_cb :: "sink_info_event \<Rightarrow> sink_list_query \<Rightarrow> sink_list_query" where
  "sink_info_cb SinkInfoError q = q\<lparr>sq_failed := True, sq_done := True\<rparr>"
| "sink_info_cb SinkInfoEnd q = q\<lparr>sq_failed := False, sq_done := True\<rparr>"
| "sink_info_cb (SinkInfo nm description spec) q =
     q\<lparr>sq_sinks := sq_sinks q @ [\<lparr>si_name = (case nm of None \<Rightarrow> [] | Some n \<Rightarrow> n),
        si_description = (case description of None \<Rightarrow> [] | Some d \<Rightarrow> d), si_spec = spec\<rparr>]\<rparr>"

fun await_sinks :: "sink_info_event list \<Rightarrow> sink_list_query \<Rightarrow> sink_list_query" where
  "await_sinks [] q = q"
| "await_sinks (e # es) q = (if sq_done q then q else await_sinks es (sink_info_cb e q))"

text \<open>
  The operation, when libpulse made one, and whether it was answered in time: a query that was not is
  cancelled before its operation is given back.
\<close>

definition await_query :: "bool \<Rightarrow> bool \<Rightarrow> bool \<Rightarrow> bool \<times> pulse_call list" where
  "await_query op answered failed =
     (if \<not> op then (False, [])
      else (answered \<and> \<not> failed, (if \<not> answered then [PlOperationCancel] else []) @ [PlOperationUnref]))"

definition list_sinks :: "bool \<Rightarrow> sink_info_event list \<Rightarrow> pulse_sink_info list option \<times> pulse_call list" where
  "list_sinks op events =
     (let q = await_sinks (if op then events else []) \<lparr>sq_done = False, sq_failed = False, sq_sinks = []\<rparr>;
          (good, t) = await_query op (sq_done q) (sq_failed q)
      in (if good then Some (sq_sinks q) else None, PlQuery op # t))"

text \<open>The answer to the second query: none in time, no info, or the default sink it names.\<close>

definition default_sink_name :: "bool \<Rightarrow> string option option option \<Rightarrow> string \<times> pulse_call list" where
  "default_sink_name op info =
     (let (good, t) = await_query op (info \<noteq> None) (info = Some None)
      in (if good then (case info of Some (Some (Some sink)) \<Rightarrow> sink | _ \<Rightarrow> []) else [], PlQuery op # t))"

subsection \<open>Probing and listing\<close>

record pulse_answers =
  pr_server :: pulse_server
  pr_server_name :: "string option"
  pr_list_op :: bool
  pr_sinks :: "sink_info_event list"
  pr_info_op :: bool
  pr_info :: "string option option option"

definition pulse_probe :: "pulse_answers \<Rightarrow> string \<Rightarrow> string option \<times> pulse_call list" where
  "pulse_probe a spec =
     (case pulse_connect (pr_server a) PULSE_TIMEOUT_MS new_pulse_conn of
        (Some error, conn, t) \<Rightarrow>
          (Some (error @ '' -- run with -l to see what this host has, or -o alsa:pulse to reach the same ''
                 @ ''server through ALSA's plugin PCM''), t @ snd (pulse_disconnect conn))
      | (None, conn, t) \<Rightarrow>
          (let undone = snd (pulse_disconnect conn); server = server_name (pr_server_name a) conn
           in if spec = [] then (None, t @ undone)
              else case list_sinks (pr_list_op a) (pr_sinks a) of
                (None, t') \<Rightarrow> (Some (''cannot list the sinks on '' @ server), t @ t' @ undone)
              | (Some sinks, t') \<Rightarrow>
                  (if list_ex (\<lambda>k. si_name k = spec) sinks then None
                   else Some (''-o pulse:'' @ spec @ '': '' @ server @ '' has no sink by that name -- run with -l to list them''),
                   t @ t' @ undone)))"

definition pulse_listing :: "string \<Rightarrow> pulse_sink_info \<Rightarrow> string" where
  "pulse_listing fallback k =
     ''  '' @ si_name k @ (if si_name k = fallback then ''  (server default)'' else []) @ [NL]
     @ ''      '' @ si_description k @ [NL] @ ''      running at '' @ si_spec k @ [NL]"

definition pulse_list_devices :: "pulse_answers \<Rightarrow> string \<times> pulse_call list" where
  "pulse_list_devices a =
     (case pulse_connect (pr_server a) PULSE_TIMEOUT_MS new_pulse_conn of
        (Some error, conn, t) \<Rightarrow> (''  ('' @ error @ '')'' @ [NL], t @ snd (pulse_disconnect conn))
      | (None, conn, t) \<Rightarrow>
          (let undone = snd (pulse_disconnect conn); server = server_name (pr_server_name a) conn
           in case list_sinks (pr_list_op a) (pr_sinks a) of
                (None, t') \<Rightarrow> (''  (cannot list the sinks on '' @ server @ '')'' @ [NL], t @ t' @ undone)
              | (Some [], t') \<Rightarrow> (''  ('' @ server @ '' has no sinks)'' @ [NL], t @ t' @ undone)
              | (Some sinks, t') \<Rightarrow>
                  (let (fallback, t'') = default_sink_name (pr_info_op a) (pr_info a)
                   in (concat (map (pulse_listing fallback) sinks)
                       @ [NL] @ ''  Every sink above accepts all of:'' @ [NL]
                       @ print_sink_capabilities permissive PULSE_FORMAT_NAMES, t @ t' @ t'' @ undone))))"

section \<open>What is made is given back\<close>

text \<open>
  libpulse's rules. A mainloop is none (0), made (1) or running (2), a stream none (0), made (1) or
  connected (2). A context is connected before its mainloop runs and watched by a callback; it is taken
  down with the callback gone, the mainloop stopped, and no stream or operation left on it. A stream is
  made on a running mainloop, and goes with its callbacks cleared.
\<close>

record pulse_holding =
  ph_loop :: nat
  ph_context :: bool
  ph_watched :: bool
  ph_stream :: nat
  ph_heard :: bool
  ph_operation :: bool

definition nothing_held :: pulse_holding where
  "nothing_held = \<lparr>ph_loop = 0, ph_context = False, ph_watched = False, ph_stream = 0, ph_heard = False,
     ph_operation = False\<rparr>"

fun pulse_rule :: "pulse_call \<Rightarrow> pulse_holding \<Rightarrow> pulse_holding option" where
  "pulse_rule (PlLoopNew ok) h = (if ph_loop h = 0 then Some (h\<lparr>ph_loop := if ok then 1 else 0\<rparr>) else None)"
| "pulse_rule (PlLoopStart ok) h = (if ph_loop h = 1 then Some (h\<lparr>ph_loop := if ok then 2 else 1\<rparr>) else None)"
| "pulse_rule PlLoopStop h = (if 0 < ph_loop h then Some (h\<lparr>ph_loop := 1\<rparr>) else None)"
| "pulse_rule PlLoopFree h = (if ph_loop h = 1 \<and> \<not> ph_context h then Some (h\<lparr>ph_loop := 0\<rparr>) else None)"
| "pulse_rule (PlContextNew ok) h =
     (if 0 < ph_loop h \<and> \<not> ph_context h then Some (h\<lparr>ph_context := ok, ph_watched := False\<rparr>) else None)"
| "pulse_rule (PlContextCallback on) h = (if ph_context h then Some (h\<lparr>ph_watched := on\<rparr>) else None)"
| "pulse_rule (PlContextConnect ok) h = (if ph_context h \<and> ph_watched h \<and> ph_loop h = 1 then Some h else None)"
| "pulse_rule PlContextDisconnect h =
     (if ph_context h \<and> \<not> ph_watched h \<and> ph_loop h = 1 \<and> ph_stream h = 0 then Some h else None)"
| "pulse_rule PlContextUnref h =
     (if ph_context h \<and> \<not> ph_watched h \<and> ph_stream h = 0 \<and> \<not> ph_operation h then Some (h\<lparr>ph_context := False\<rparr>) else None)"
| "pulse_rule (PlStreamNew ok _) h =
     (if ph_loop h = 2 \<and> ph_context h \<and> ph_stream h = 0
      then Some (h\<lparr>ph_stream := if ok then 1 else 0, ph_heard := False\<rparr>) else None)"
| "pulse_rule (PlStreamCallbacks on) h = (if 0 < ph_stream h then Some (h\<lparr>ph_heard := on\<rparr>) else None)"
| "pulse_rule (PlStreamConnect ok _ _) h =
     (if ph_stream h = 1 \<and> ph_heard h then Some (h\<lparr>ph_stream := if ok then 2 else 1\<rparr>) else None)"
| "pulse_rule PlStreamDisconnect h = (if ph_stream h = 2 \<and> \<not> ph_heard h then Some (h\<lparr>ph_stream := 1\<rparr>) else None)"
| "pulse_rule PlStreamUnref h = (if ph_stream h = 1 \<and> \<not> ph_heard h then Some (h\<lparr>ph_stream := 0\<rparr>) else None)"
| "pulse_rule (PlStreamWrite ok _) h = (if ph_stream h = 2 then Some h else None)"
| "pulse_rule (PlStreamFlush op) h =
     (if ph_stream h = 2 \<and> \<not> ph_operation h then Some (h\<lparr>ph_operation := op\<rparr>) else None)"
| "pulse_rule (PlQuery op) h =
     (if ph_loop h = 2 \<and> ph_context h \<and> \<not> ph_operation h then Some (h\<lparr>ph_operation := op\<rparr>) else None)"
| "pulse_rule PlOperationCancel h = (if ph_operation h then Some h else None)"
| "pulse_rule PlOperationUnref h = (if ph_operation h then Some (h\<lparr>ph_operation := False\<rparr>) else None)"

fun pulse_lib :: "pulse_call list \<Rightarrow> pulse_holding \<Rightarrow> pulse_holding option" where
  "pulse_lib [] h = Some h"
| "pulse_lib (c # cs) h = Option.bind (pulse_rule c h) (pulse_lib cs)"

lemma pulse_lib_append: "pulse_lib (xs @ ys) h = Option.bind (pulse_lib xs h) (pulse_lib ys)"
  by (induction xs arbitrary: h) (simp_all split: bind_split)

text \<open>A connection between its operations: connected, on a mainloop that runs, or gone with all it had.\<close>

definition conn_ok :: "pulse_conn \<Rightarrow> bool" where
  "conn_ok conn \<longleftrightarrow> pn_context conn = pn_loop conn \<and> (pulse_ready conn \<longrightarrow> pn_loop conn)"

definition conn_held :: "pulse_conn \<Rightarrow> pulse_holding" where
  "conn_held conn = nothing_held\<lparr>ph_loop := if pn_loop conn then 2 else 0, ph_context := pn_context conn,
     ph_watched := pn_context conn\<rparr>"

lemma state_cb_keeps [simp]:
  "pn_loop (pulse_state_cb st conn) = pn_loop conn" "pn_context (pulse_state_cb st conn) = pn_context conn"
  by (simp_all add: pulse_state_cb_def)

lemma state_cbs_keep [simp]:
  "pn_loop (fold pulse_state_cb sts conn) = pn_loop conn" "pn_context (fold pulse_state_cb sts conn) = pn_context conn"
  by (induction sts arbitrary: conn) simp_all

lemma await_context_keeps [simp]:
  "pn_loop (await_context sts conn) = pn_loop conn" "pn_context (await_context sts conn) = pn_context conn"
  by (induction sts arbitrary: conn) simp_all

lemma pulse_disconnect_calls:
  assumes "conn_ok conn" "pulse_disconnect conn = (conn', t)"
  shows "conn_ok conn' \<and> \<not> pn_loop conn' \<and> pulse_lib t (conn_held conn) = Some nothing_held"
  using assms by (auto simp: pulse_disconnect_def conn_ok_def conn_held_def nothing_held_def pulse_ready_def)

lemma pulse_connect_calls:
  assumes "conn_ok conn" "pulse_connect v ms conn = (error, conn', t)"
  shows "conn_ok conn' \<and> pn_loop conn' = (error = None) \<and> (error = None \<longrightarrow> pulse_ready conn')
    \<and> pulse_lib t (conn_held conn) = Some (conn_held conn')"
proof -
  obtain c0 t0 where d: "pulse_disconnect conn = (c0, t0)" by fastforce
  note c0 = pulse_disconnect_calls [OF assms(1) d]
  have eq: "c0 = \<lparr>pn_loop = False, pn_context = False, pn_state = CxUnconnected\<rparr>"
    using d by (simp add: pulse_disconnect_def)
  consider "\<not> pv_loop v" | "pv_loop v" "\<not> pv_context v" | "pv_loop v" "pv_context v" "pv_connect v = None"
    | sts where "pv_loop v" "pv_context v" "pv_connect v = Some sts" "\<not> pv_start v"
    | sts where "pv_loop v" "pv_context v" "pv_connect v = Some sts" "pv_start v"
    by (cases "pv_connect v") auto
  then show ?thesis
  proof cases
    case (5 sts)
    then show ?thesis using assms(2) d c0 unfolding pulse_connect_def Let_def
      by (auto simp: pulse_lib_append eq pulse_disconnect_def conn_ok_def conn_held_def nothing_held_def pulse_ready_def
          split: if_splits)
  qed (use assms(2) d c0 in \<open>auto simp: pulse_connect_def pulse_lib_append eq pulse_disconnect_def conn_ok_def
        conn_held_def nothing_held_def pulse_ready_def\<close>)
qed

lemma query_calls:
  assumes "await_query op answered failed = (good, t)" "ph_loop h = 2" "ph_context h" "\<not> ph_operation h"
  shows "pulse_lib (PlQuery op # t) h = Some h"
  using assms by (cases h; cases op; cases answered) (auto simp: await_query_def)

lemma ready_held: "pulse_ready conn \<Longrightarrow> conn_ok conn \<Longrightarrow>
  ph_loop (conn_held conn) = 2 \<and> ph_context (conn_held conn) \<and> \<not> ph_operation (conn_held conn)"
  by (simp add: conn_held_def conn_ok_def nothing_held_def)

lemma list_sinks_calls:
  assumes "list_sinks op events = (answer, t)" "pulse_ready conn" "conn_ok conn"
  shows "pulse_lib t (conn_held conn) = Some (conn_held conn)"
  using assms(1) query_calls ready_held [OF assms(2,3)]
  by (auto simp: list_sinks_def Let_def simp del: pulse_lib.simps split: prod.splits)

lemma default_sink_name_calls:
  assumes "default_sink_name op info = (answer, t)" "pulse_ready conn" "conn_ok conn"
  shows "pulse_lib t (conn_held conn) = Some (conn_held conn)"
  using assms(1) query_calls ready_held [OF assms(2,3)]
  by (auto simp: default_sink_name_def Let_def simp del: pulse_lib.simps split: prod.splits)

lemma new_conn_ok: "conn_ok new_pulse_conn" "conn_held new_pulse_conn = nothing_held"
  by (simp_all add: conn_ok_def new_pulse_conn_def conn_held_def pulse_ready_def nothing_held_def)

lemma conn_undone:
  "conn_ok conn \<Longrightarrow> pulse_lib (snd (pulse_disconnect conn)) (conn_held conn) = Some nothing_held"
  using pulse_disconnect_calls by (metis prod.collapse)

text \<open>A look at the server gives back all it took, whatever the server answers and whenever it stops answering.\<close>

lemma pulse_probe_releases: "pulse_lib (snd (pulse_probe a spec)) nothing_held = Some nothing_held"
proof -
  obtain error conn t where c: "pulse_connect (pr_server a) PULSE_TIMEOUT_MS new_pulse_conn = (error, conn, t)"
    by (metis prod_cases3)
  note k = pulse_connect_calls [OF new_conn_ok(1) c, unfolded new_conn_ok(2)]
  obtain sinks t' where l: "list_sinks (pr_list_op a) (pr_sinks a) = (sinks, t')" by fastforce
  show ?thesis using k c l conn_undone [of conn] list_sinks_calls [OF l, of conn]
    by (cases error; cases sinks) (auto simp: pulse_probe_def Let_def pulse_lib_append)
qed

lemma pulse_list_devices_releases: "pulse_lib (snd (pulse_list_devices a)) nothing_held = Some nothing_held"
proof -
  obtain error conn t where c: "pulse_connect (pr_server a) PULSE_TIMEOUT_MS new_pulse_conn = (error, conn, t)"
    by (metis prod_cases3)
  note k = pulse_connect_calls [OF new_conn_ok(1) c, unfolded new_conn_ok(2)]
  obtain sinks t' where l: "list_sinks (pr_list_op a) (pr_sinks a) = (sinks, t')" by fastforce
  obtain fallback t'' where d: "default_sink_name (pr_info_op a) (pr_info a) = (fallback, t'')" by fastforce
  show ?thesis
    using k c l d conn_undone [of conn] list_sinks_calls [OF l, of conn] default_sink_name_calls [OF d, of conn]
    by (cases error; cases sinks) (auto simp: pulse_list_devices_def Let_def pulse_lib_append split: list.splits)
qed

end
