(* ===== verification/PulseSink.thy ===== *)
theory PulseSink
  imports PulseServer
begin

text \<open>
  \<^verbatim>\<open>src/src/pulse_sink.{h,cpp}\<close>, the sink itself: one playback stream on a \<^verbatim>\<open>PulseConnection\<close>. The server's
  own queue is the buffer, so there is no ring and no callback to feed: a write asks the server for room,
  hands it whole frames, and waits for more room with the mutex released. The wait has no predicate, so
  the write looks at the stream again each time it wakes.
\<close>

section \<open>Definitions\<close>

text \<open>The states of a stream; \<^verbatim>\<open>PA_STREAM_IS_GOOD\<close> is true of one being created and of a ready one.\<close>

datatype stream_state = StUnconnected | StCreating | StReady | StFailed | StTerminated

definition stream_is_good :: "stream_state \<Rightarrow> bool" where
  "stream_is_good st \<longleftrightarrow> st = StCreating \<or> st = StReady"

record pulse_sink = sink_core +
  pu_conn :: pulse_conn
  pu_stream_failed :: bool
  pu_state :: stream_state

text \<open>
  The answers to one opening: whether the server can carry the spec, the bytes of a time at it, the stream,
  the states reported from within its connecting (none: refused), those reported until the wait ends, and
  whether shutdown began meanwhile.
\<close>

record pulse_opening =
  px_valid :: bool
  px_usec_to_bytes :: "u64 \<Rightarrow> pulse_spec \<Rightarrow> u64"
  px_stream :: bool
  px_connect :: "stream_state list option"
  px_states :: "stream_state list"
  px_stopped :: bool

definition pulse_name :: "pulse_sink \<Rightarrow> string" where
  "pulse_name s = (if sk_device s = [] then ''pulse'' else ''pulse:'' @ sk_device s)"

definition pulse_capabilities :: sink_capabilities where "pulse_capabilities = permissive"

text \<open>The sink connects as it is made; a server that has gone since the probe leaves it without one.\<close>

definition new_pulse_sink :: "pulse_server \<Rightarrow> string \<Rightarrow> u32 \<Rightarrow> pulse_sink \<times> pulse_call list" where
  "new_pulse_sink v spec buffer_ms =
     (case pulse_connect v PULSE_TIMEOUT_MS new_pulse_conn of
        (_, conn, t) \<Rightarrow>
          (\<lparr>sk_device = spec, sk_buffer_ms = buffer_ms, sk_stream = False, sk_rate = 0, sk_channels = 0, sk_bits = 0,
            sk_frame = 0, sk_step = 0, sk_generation = 0, sk_stopping = False, sk_failed = False,
            sk_format = no_format, sk_recovery = fresh_recovery, sk_volume = DEFAULT_SINK_VOLUME,
            sk_muted = False, sk_target = Q32_ONE, sk_current = Q32_ONE, pu_conn = conn,
            pu_stream_failed = False, pu_state = StUnconnected\<rparr>, t))"

definition pulse_stream_state_cb :: "stream_state \<Rightarrow> pulse_sink \<Rightarrow> pulse_sink" where
  "pulse_stream_state_cb st s =
     (let s1 = s\<lparr>pu_state := st\<rparr> in
      if st = StFailed \<or> st = StTerminated then s1\<lparr>pu_stream_failed := True\<rparr> else s1)"

definition stream_settled :: "pulse_sink \<Rightarrow> bool" where
  "stream_settled s \<longleftrightarrow> pu_state s = StReady \<or> \<not> stream_is_good (pu_state s)"

fun await_stream :: "stream_state list \<Rightarrow> pulse_sink \<Rightarrow> pulse_sink" where
  "await_stream [] s = s"
| "await_stream (st # sts) s = (if stream_settled s then s else await_stream sts (pulse_stream_state_cb st s))"

definition pulse_close_stream :: "pulse_sink \<Rightarrow> pulse_sink \<times> pulse_call list" where
  "pulse_close_stream s =
     (s\<lparr>sk_stream := False, sk_generation := sk_generation s + 1, sk_rate := 0, sk_channels := 0, sk_bits := 0,
        sk_frame := 0, sk_step := 0, pu_stream_failed := False, pu_state := StUnconnected\<rparr>,
      if sk_stream s \<and> pn_loop (pu_conn s) then [PlStreamCallbacks False, PlStreamDisconnect, PlStreamUnref] else [])"

definition pulse_set_format :: "u32 \<Rightarrow> u8 \<Rightarrow> u8 \<Rightarrow> pulse_sink \<Rightarrow> pulse_sink" where
  "pulse_set_format rate channels bits s =
     s\<lparr>sk_generation := sk_generation s + 1, sk_rate := rate, sk_channels := channels, sk_bits := bits,
       sk_frame := frame_bytes channels bits, sk_step := volume_ramp_step rate, sk_current := sk_target s,
       pu_stream_failed := False, pu_state := StUnconnected\<rparr>"

text \<open>The queue asked of the server: \<^verbatim>\<open>--buffer-ms\<close> in bytes of the stream.\<close>

definition pulse_tlength :: "pulse_opening \<Rightarrow> pulse_spec \<Rightarrow> pulse_sink \<Rightarrow> u32" where
  "pulse_tlength x spec s = ucast (px_usec_to_bytes x (ucast (sk_buffer_ms s) * 1000) spec)"

definition pulse_open_stream ::
  "pulse_opening \<Rightarrow> u32 \<Rightarrow> u8 \<Rightarrow> u8 \<Rightarrow> pulse_sink \<Rightarrow> bool \<times> pulse_sink \<times> pulse_call list"
where
  "pulse_open_stream x rate channels bits s =
     (case pulse_format_for bits of
        None \<Rightarrow> (False, s, [])
      | Some format \<Rightarrow>
          if channels = 0 \<or> rate = 0 then (False, s, [])
          else if \<not> pulse_ready (pu_conn s) then (False, s, [])
          else
            (let spec = \<lparr>pf_format = format, pf_rate = rate, pf_channels = channels\<rparr> in
             if \<not> px_valid x then (False, s, [])
             else
               (let s1 = pulse_set_format rate channels bits s;
                    conn = (\<lambda>ok. PlStreamConnect ok (if sk_device s1 = [] then None else Some (sk_device s1))
                              (pulse_tlength x spec s1))
                in if \<not> px_stream x then (False, s1\<lparr>sk_stream := False\<rparr>, [PlStreamNew False spec])
                   else case px_connect x of
                     None \<Rightarrow> (False, s1\<lparr>sk_stream := False\<rparr>,
                              [PlStreamNew True spec, PlStreamCallbacks True, conn False, PlStreamCallbacks False, PlStreamUnref])
                   | Some sts \<Rightarrow>
                       (let s2 = await_stream (px_states x) (fold pulse_stream_state_cb sts (s1\<lparr>sk_stream := True\<rparr>));
                            t = [PlStreamNew True spec, PlStreamCallbacks True, conn True]
                        in if pu_state s2 \<noteq> StReady
                           then (case pulse_close_stream s2 of (s3, t') \<Rightarrow> (False, s3, t @ t'))
                           else (True, s2\<lparr>sk_failed := False\<rparr>, t)))))"

definition pulse_stream_alive :: "pulse_sink \<Rightarrow> bool" where
  "pulse_stream_alive s \<longleftrightarrow> sk_stream s \<and> sk_frame s \<noteq> 0 \<and> pulse_ready (pu_conn s) \<and> \<not> pu_stream_failed s"

definition pulse_latch :: "pulse_opening \<Rightarrow> pulse_sink \<Rightarrow> pulse_sink" where
  "pulse_latch x s = (if px_stopped x then s\<lparr>sk_stopping := True\<rparr> else s)"

text \<open>The attempt a write makes: never a reconnect, which waits on the server and is \<^verbatim>\<open>poll()\<close>'s.\<close>

definition pulse_reopen_in_place :: "pulse_opening \<Rightarrow> pulse_sink \<Rightarrow> bool \<times> pulse_sink \<times> pulse_call list" where
  "pulse_reopen_in_place x s =
     (if sk_stopping s \<or> sample_rate (sk_format s) = 0 then (False, s, [])
      else case reopen_due (sk_recovery s) of
        (False, r) \<Rightarrow> (False, s\<lparr>sk_recovery := r\<rparr>, [])
      | (True, r) \<Rightarrow>
          if \<not> pulse_ready (pu_conn s) then (False, s\<lparr>sk_recovery := reopen_done False r\<rparr>, [])
          else
            (let f = sk_format s; (s2, t) = pulse_close_stream (s\<lparr>sk_recovery := r\<rparr>);
                 (ok, s3, t') = pulse_open_stream x (sample_rate f) (channel_count f) (bit_depth f) s2
             in if \<not> ok then (False, s3\<lparr>sk_recovery := reopen_done False (sk_recovery s3)\<rparr>, t @ t')
                else
                  (let s4 = pulse_latch x (s3\<lparr>sk_recovery := reopen_done True (sk_recovery s3)\<rparr>) in
                   if sk_stopping s4
                   then (case pulse_close_stream s4 of (s5, t'') \<Rightarrow> (False, s5, t @ t' @ t''))
                   else (True, s4, t @ t'))))"

definition pulse_configure ::
  "pulse_server \<Rightarrow> pulse_opening \<Rightarrow> u32 \<Rightarrow> u8 \<Rightarrow> u8 \<Rightarrow> pulse_sink \<Rightarrow> bool \<times> pulse_sink \<times> pulse_call list"
where
  "pulse_configure v x rate channels bits s =
     (if sk_stopping s then (False, s, [])
      else
        (let s1 = s\<lparr>sk_format := \<lparr>sample_rate = rate, channel_count = channels, bit_depth = bits\<rparr>\<rparr>;
             (s2, t) = pulse_close_stream s1;
             (error, conn, t') = (if pulse_ready (pu_conn s2) then (None, pu_conn s2, [])
                                  else pulse_connect v PULSE_TIMEOUT_MS (pu_conn s2));
             s3 = s2\<lparr>pu_conn := conn\<rparr>
         in if error \<noteq> None then (False, s3\<lparr>sk_failed := True\<rparr>, t @ t')
            else
              (let (ok, s4, t'') = pulse_open_stream x rate channels bits s3
               in if \<not> ok then (False, s4\<lparr>sk_failed := True\<rparr>, t @ t' @ t'')
                  else (True, s4\<lparr>sk_recovery := reset_recovery (sk_recovery s4)\<rparr>, t @ t' @ t''))))"

text \<open>
  The bytes a write hands to the server: scaled, and at 8 bits with the sign bit flipped, since the player
  emits signed samples and the server only has an unsigned format.
\<close>

definition pulse_stage :: "u8 list \<Rightarrow> nat \<Rightarrow> u64 \<Rightarrow> u64 \<Rightarrow> pulse_sink \<Rightarrow> u8 list" where
  "pulse_stage data frames start target s =
     (let scaling = (start \<noteq> target \<or> target \<noteq> Q32_ONE); converting = (sk_bits s = 8);
          scratch = take (frames * sk_frame s) data;
          scaled = (if scaling then fst (apply_volume_ramp scratch (sk_bits s div 8) (sk_channels s) start target (sk_step s))
                    else scratch)
      in if \<not> scaling \<and> \<not> converting then data
         else if converting then map (\<lambda>sample. xor sample 0x80) scaled else scaled)"

text \<open>A write in its loop, counted in frames.\<close>

record pulse_write =
  pq_source :: "u8 list"
  pq_offered :: nat
  pq_frames :: nat
  pq_frame :: nat
  pq_generation :: nat
  pq_done :: nat
  pq_start :: u64
  pq_target :: u64
  pq_first :: bool

definition pulse_write_begins ::
  "pulse_opening \<Rightarrow> u8 list \<Rightarrow> pulse_sink \<Rightarrow> (nat + pulse_write) \<times> pulse_sink \<times> pulse_call list"
where
  "pulse_write_begins x data s =
     (if data = [] then (Inl 0, s, [])
      else
        (let (ready, s1, t) = (if pulse_stream_alive s then (True, s, []) else pulse_reopen_in_place x s)
         in if \<not> ready
            then (Inl (discarded (length data) s1), s1\<lparr>sk_failed := True\<rparr>, t)
            else
              (let usable = length data - length data mod sk_frame s1 in
               if usable = 0 then (Inl 0, s1, t)
               else
                 (let frames_total = usable div sk_frame s1; start = sk_current s1; target = sk_target s1
                  in (Inr \<lparr>pq_source = pulse_stage data frames_total start target s1, pq_offered = length data,
                        pq_frames = frames_total, pq_frame = sk_frame s1, pq_generation = sk_generation s1,
                        pq_done = 0, pq_start = start, pq_target = target, pq_first = True\<rparr>, s1, t)))))"

text \<open>
  A turn of the write's loop, with the mutex held: whether the deadline has passed, how much the server will
  take (none: it has dropped the stream), and whether it takes what is written.
\<close>

datatype pulse_turn = TurnEnds pulse_sink | TurnFeeds pulse_write | TurnWaits pulse_write

definition pulse_write_turn ::
  "bool \<Rightarrow> nat option \<Rightarrow> bool \<Rightarrow> pulse_write \<Rightarrow> pulse_sink \<Rightarrow> pulse_turn \<times> pulse_call list"
where
  "pulse_write_turn late writable takes p s =
     (if \<not> pq_done p < pq_frames p then (TurnEnds s, [])
      else if sk_stopping s then (TurnEnds s, [])
      else if \<not> pq_first p \<and> late then (TurnEnds s, [])
      else
        (let p1 = p\<lparr>pq_first := False\<rparr> in
         case writable of
           None \<Rightarrow> (TurnEnds (s\<lparr>pu_stream_failed := True\<rparr>), [])
         | Some w \<Rightarrow>
             (let room = w - w mod pq_frame p; chunk = min room ((pq_frames p - pq_done p) * pq_frame p);
                  bytes = take chunk (drop (pq_done p * pq_frame p) (pq_source p))
              in if chunk > 0
                 then (if takes then (TurnFeeds (p1\<lparr>pq_done := pq_done p + chunk div pq_frame p\<rparr>), [PlStreamWrite True bytes])
                       else (TurnEnds (s\<lparr>pu_stream_failed := True\<rparr>), [PlStreamWrite False bytes]))
                 else (TurnWaits p1, []))))"

text \<open>After the wait, however it ended: a write whose stream is gone stops, any other takes another turn.\<close>

definition pulse_wake :: "pulse_write \<Rightarrow> pulse_sink \<Rightarrow> bool" where
  "pulse_wake p s \<longleftrightarrow> sk_stream s \<and> sk_generation s = pq_generation p"

text \<open>
  The end of a write: the gain it commits, and the frames it reports as played, with the time they finish at
  when the server will say what its latency is (and whether it is negative).
\<close>

definition pulse_write_ends ::
  "(u64 \<times> bool) option \<Rightarrow> int \<Rightarrow> pulse_write \<Rightarrow> pulse_sink \<Rightarrow> (u32 \<times> int) option \<times> pulse_sink"
where
  "pulse_write_ends latency now_us p s =
     (if pq_done p > 0 \<and> sk_stream s
      then (case latency of Some (latency_us, False) \<Rightarrow> Some (of_nat (pq_done p), now_us + sint latency_us) | _ \<Rightarrow> None)
      else None,
      s\<lparr>sk_current := ramped_gain (pq_start p) (pq_target p) (sk_step s) (of_nat (pq_done p))\<rparr>)"

definition pulse_clear :: "bool \<Rightarrow> pulse_sink \<Rightarrow> pulse_sink \<times> pulse_call list" where
  "pulse_clear op s =
     (s\<lparr>sk_current := sk_target s, sk_generation := sk_generation s + 1\<rparr>,
      if sk_stream s then PlStreamFlush op # (if op then [PlOperationUnref] else []) else [])"

definition pulse_stop_latch :: "pulse_sink \<Rightarrow> pulse_sink" where
  "pulse_stop_latch s = s\<lparr>sk_stopping := True\<rparr>"

definition pulse_stop :: "pulse_sink \<Rightarrow> pulse_sink \<times> pulse_call list" where
  "pulse_stop s =
     (let s1 = (pulse_stop_latch s)\<lparr>sk_format := no_format\<rparr>
      in if \<not> sk_stream s1 then (s1, []) else pulse_close_stream s1)"

text \<open>The sink goes first, its connection after it.\<close>

definition pulse_destroy :: "pulse_sink \<Rightarrow> pulse_sink \<times> pulse_call list" where
  "pulse_destroy s =
     (let (s1, t) = pulse_close_stream (pulse_stop_latch s); (conn, t') = pulse_disconnect (pu_conn s1)
      in (s1\<lparr>pu_conn := conn\<rparr>, t @ t'))"

definition report_failed_recovery :: "pulse_sink \<Rightarrow> pulse_sink" where
  "report_failed_recovery s = s\<lparr>sk_recovery := rescan_done False (sk_recovery s)\<rparr>"

definition pulse_poll :: "pulse_server \<Rightarrow> pulse_opening \<Rightarrow> int \<Rightarrow> pulse_sink \<Rightarrow> pulse_sink \<times> pulse_call list" where
  "pulse_poll v x now s =
     (if \<not> pending (sk_recovery s) \<or> sk_stopping s then (s, [])
      else if sample_rate (sk_format s) = 0 then (s, [])
      else case rescan_due now (sk_recovery s) of
        (False, r) \<Rightarrow> (s\<lparr>sk_recovery := r\<rparr>, [])
      | (True, r) \<Rightarrow>
          (let f = sk_format s;
               (s1, t1) = pulse_close_stream (s\<lparr>sk_recovery := r\<rparr>);
               (error, conn, t2) = pulse_connect v PULSE_RECOVERY_TIMEOUT_MS (pu_conn s1);
               s2 = s1\<lparr>pu_conn := conn\<rparr>
           in if error \<noteq> None then (report_failed_recovery s2, t1 @ t2)
              else
                (let (ok, s3, t3) = pulse_open_stream x (sample_rate f) (channel_count f) (bit_depth f) s2
                 in if \<not> ok then (report_failed_recovery s3, t1 @ t2 @ t3)
                    else
                      (let s4 = pulse_latch x (s3\<lparr>sk_recovery := rescan_done True (sk_recovery s3)\<rparr>) in
                       if sk_stopping s4
                       then (case pulse_close_stream s4 of (s5, t4) \<Rightarrow> (s5, t1 @ t2 @ t3 @ t4))
                       else (s4, t1 @ t2 @ t3)))))"

definition pulse_update_target :: "(u8 \<Rightarrow> u64) \<Rightarrow> pulse_sink \<Rightarrow> pulse_sink" where
  "pulse_update_target curve s = s\<lparr>sk_target := q32_gain_for curve (sk_volume s) (sk_muted s)\<rparr>"

definition pulse_set_volume :: "(u8 \<Rightarrow> u64) \<Rightarrow> u8 \<Rightarrow> pulse_sink \<Rightarrow> pulse_sink" where
  "pulse_set_volume curve volume s =
     pulse_update_target curve (s\<lparr>sk_volume := if volume > 100 then 100 else volume\<rparr>)"

definition pulse_set_muted :: "(u8 \<Rightarrow> u64) \<Rightarrow> bool \<Rightarrow> pulse_sink \<Rightarrow> pulse_sink" where
  "pulse_set_muted curve muted s = pulse_update_target curve (s\<lparr>sk_muted := muted\<rparr>)"

section \<open>The machine\<close>

text \<open>
  What is done to the sink other than writing; \<open>PuStream\<close> and \<open>PuContext\<close> are libpulse reporting a state of
  the open stream and of the context.
\<close>

datatype pulse_op =
  PuConfigure pulse_server pulse_opening u32 u8 u8
| PuClear bool
| PuStopLatch
| PuStop
| PuPoll pulse_server pulse_opening int
| PuVolume u8
| PuMute bool
| PuStream stream_state
| PuContext context_state

fun pulse_sink_op :: "(u8 \<Rightarrow> u64) \<Rightarrow> pulse_op \<Rightarrow> pulse_sink \<Rightarrow> pulse_sink \<times> pulse_call list" where
  "pulse_sink_op curve (PuConfigure v x rate channels bits) s = snd (pulse_configure v x rate channels bits s)"
| "pulse_sink_op curve (PuClear op) s = pulse_clear op s"
| "pulse_sink_op curve PuStopLatch s = (pulse_stop_latch s, [])"
| "pulse_sink_op curve PuStop s = pulse_stop s"
| "pulse_sink_op curve (PuPoll v x now) s = pulse_poll v x now s"
| "pulse_sink_op curve (PuVolume v) s = (pulse_set_volume curve v s, [])"
| "pulse_sink_op curve (PuMute m) s = (pulse_set_muted curve m s, [])"
| "pulse_sink_op curve (PuStream st) s = (if sk_stream s then pulse_stream_state_cb st s else s, [])"
| "pulse_sink_op curve (PuContext st) s =
     (if pn_context (pu_conn s) then s\<lparr>pu_conn := pulse_state_cb st (pu_conn s)\<rparr> else s, [])"

definition pulse_takes_no_lock :: "pulse_op \<Rightarrow> bool" where
  "pulse_takes_no_lock op = (case op of PuStopLatch \<Rightarrow> True | PuVolume _ \<Rightarrow> True | PuMute _ \<Rightarrow> True
     | PuStream _ \<Rightarrow> True | PuContext _ \<Rightarrow> True | _ \<Rightarrow> False)"

text \<open>
  As in \<open>PullSink\<close>: an operation under the mutex, one that takes none, a write that begins, a turn of its loop,
  and its waking. The run also keeps the calls made to libpulse and the frames reported as played.
\<close>

record pulse_config =
  gc_sink :: pulse_sink
  gc_writer :: "pulse_write writer"
  gc_log :: "sink_log list"
  gc_calls :: "pulse_call list"
  gc_reports :: "(u32 \<times> int) list"

datatype pulse_event =
  PuLocked pulse_op
| PuUnlocked pulse_op
| PuBegins pulse_opening "u8 list"
| PuTurns bool "nat option" bool "(u64 \<times> bool) option" int
| PuWakes "(u64 \<times> bool) option" int

definition pulse_flush_log :: "pulse_sink \<Rightarrow> pulse_sink \<Rightarrow> sink_log list" where
  "pulse_flush_log s s' = (if sk_generation s' = sk_generation s then [] else [Flushed])"

definition pulse_does :: "pulse_sink \<times> pulse_call list \<Rightarrow> pulse_config \<Rightarrow> pulse_config" where
  "pulse_does r c = (case r of (s', t) \<Rightarrow>
     c\<lparr>gc_sink := s', gc_log := gc_log c @ pulse_flush_log (gc_sink c) s', gc_calls := gc_calls c @ t\<rparr>)"

definition pulse_returns :: "(u64 \<times> bool) option \<Rightarrow> int \<Rightarrow> pulse_write \<Rightarrow> pulse_config \<Rightarrow> pulse_config" where
  "pulse_returns latency now p c =
     (case pulse_write_ends latency now p (gc_sink c) of
        (report, s') \<Rightarrow>
          c\<lparr>gc_sink := s', gc_writer := NoWriter,
            gc_log := gc_log c @ [Returned (pq_offered p) (pq_done p * pq_frame p)],
            gc_reports := gc_reports c @ (case report of None \<Rightarrow> [] | Some r \<Rightarrow> [r])\<rparr>)"

fun pulse_step :: "(u8 \<Rightarrow> u64) \<Rightarrow> pulse_event \<Rightarrow> pulse_config \<Rightarrow> pulse_config" where
  "pulse_step curve (PuLocked op) c =
     (case gc_writer c of Filling p \<Rightarrow> c | _ \<Rightarrow> pulse_does (pulse_sink_op curve op (gc_sink c)) c)"
| "pulse_step curve (PuUnlocked op) c =
     (if pulse_takes_no_lock op then pulse_does (pulse_sink_op curve op (gc_sink c)) c else c)"
| "pulse_step curve (PuBegins x data) c =
     (case gc_writer c of
        NoWriter \<Rightarrow>
          (case pulse_write_begins x data (gc_sink c) of
             (answer, r) \<Rightarrow>
               (let c' = pulse_does r c
                in case answer of
                     Inl n \<Rightarrow> c'\<lparr>gc_log := gc_log c' @ [Unfed (length data) n]\<rparr>
                   | Inr p \<Rightarrow> c'\<lparr>gc_writer := Filling p\<rparr>))
      | _ \<Rightarrow> c)"
| "pulse_step curve (PuTurns late writable takes latency now) c =
     (case gc_writer c of
        Filling p \<Rightarrow>
          (case pulse_write_turn late writable takes p (gc_sink c) of
             (turn, t) \<Rightarrow>
               (let c' = c\<lparr>gc_calls := gc_calls c @ t\<rparr>
                in case turn of
                     TurnEnds s' \<Rightarrow> pulse_returns latency now p (c'\<lparr>gc_sink := s'\<rparr>)
                   | TurnWaits p' \<Rightarrow> c'\<lparr>gc_writer := Waiting p'\<rparr>
                   | TurnFeeds p' \<Rightarrow>
                       c'\<lparr>gc_writer := Filling p',
                          gc_log := gc_log c @ [Fed (pq_generation p) (sk_generation (gc_sink c)) (sk_frame (gc_sink c))
                            (take ((pq_done p' - pq_done p) * pq_frame p) (drop (pq_done p * pq_frame p) (pq_source p)))]\<rparr>))
      | _ \<Rightarrow> c)"
| "pulse_step curve (PuWakes latency now) c =
     (case gc_writer c of
        Waiting p \<Rightarrow> if pulse_wake p (gc_sink c) then c\<lparr>gc_writer := Filling p\<rparr> else pulse_returns latency now p c
      | _ \<Rightarrow> c)"

definition pulse_run :: "(u8 \<Rightarrow> u64) \<Rightarrow> pulse_event list \<Rightarrow> pulse_sink \<times> pulse_call list \<Rightarrow> pulse_config" where
  "pulse_run curve evs made = fold (pulse_step curve) evs
     \<lparr>gc_sink = fst made, gc_writer = NoWriter, gc_log = [], gc_calls = snd made, gc_reports = []\<rparr>"

text \<open>What the server has been handed of the stream that is open, and has not been asked to drop.\<close>

fun hand :: "pulse_call \<Rightarrow> u8 list \<Rightarrow> u8 list" where
  "hand (PlStreamWrite True bytes) q = q @ bytes"
| "hand (PlStreamFlush _) q = []"
| "hand (PlStreamNew _ _) q = []"
| "hand PlStreamUnref q = []"
| "hand _ q = q"

definition handed :: "pulse_call list \<Rightarrow> u8 list \<Rightarrow> u8 list" where
  "handed cs q = fold hand cs q"

lemma handed_simps [simp]: "handed [] q = q" "handed (c # cs) q = handed cs (hand c q)"
  "handed (xs @ ys) q = handed ys (handed xs q)"
  by (simp_all add: handed_def)

section \<open>What every operation keeps\<close>

definition pulse_inv :: "pulse_sink \<Rightarrow> bool" where
  "pulse_inv s \<longleftrightarrow> conn_ok (pu_conn s)
     \<and> (sk_stream s \<longrightarrow> pn_loop (pu_conn s) \<and> pulse_format_for (sk_bits s) \<noteq> None \<and> sk_channels s \<noteq> 0
          \<and> sk_frame s = frame_bytes (sk_channels s) (sk_bits s))"

lemma pulse_format_width: "pulse_format_for bits \<noteq> None \<Longrightarrow> unat bits div 8 \<in> {1, 2, 3, 4}"
  by (auto simp: pulse_format_for_def PROBE_BIT_DEPTHS_def PULSE_PROBE_FORMATS_def split: if_splits)

definition pulse_held :: "pulse_sink \<Rightarrow> pulse_holding" where
  "pulse_held s = (conn_held (pu_conn s))\<lparr>ph_stream := if sk_stream s then 2 else 0, ph_heard := sk_stream s\<rparr>"

text \<open>
  A step keeps libpulse's rules and the invariant; and it leaves the stream and what the server was handed of
  it alone, or is of a later generation and leaves the server nothing of the one before.
\<close>

definition pulse_keeps :: "pulse_sink \<Rightarrow> pulse_call list \<Rightarrow> pulse_sink \<Rightarrow> bool" where
  "pulse_keeps s t s' \<longleftrightarrow> pulse_inv s' \<and> pulse_lib t (pulse_held s) = Some (pulse_held s')
     \<and> (if sk_generation s' = sk_generation s
        then sk_frame s' = sk_frame s \<and> sk_stream s' = sk_stream s \<and> (\<forall>q. handed t q = q)
        else sk_generation s < sk_generation s' \<and> (\<forall>q. sk_stream s \<or> q = [] \<longrightarrow> handed t q = []))"

lemma pulse_keeps_trans:
  assumes "pulse_keeps s t u" "pulse_keeps u t' v"
  shows "pulse_keeps s (t @ t') v"
  using assms by (auto simp: pulse_keeps_def pulse_lib_append split: if_splits)

lemma pulse_inv_other [simp]:
  "pulse_inv (s\<lparr>sk_recovery := r\<rparr>) = pulse_inv s" "pulse_inv (s\<lparr>sk_format := f\<rparr>) = pulse_inv s"
  "pulse_inv (s\<lparr>sk_failed := b\<rparr>) = pulse_inv s" "pulse_inv (s\<lparr>sk_stopping := b\<rparr>) = pulse_inv s"
  "pulse_inv (s\<lparr>sk_target := g\<rparr>) = pulse_inv s" "pulse_inv (s\<lparr>sk_current := g\<rparr>) = pulse_inv s"
  "pulse_inv (s\<lparr>sk_volume := v\<rparr>) = pulse_inv s" "pulse_inv (s\<lparr>sk_muted := b\<rparr>) = pulse_inv s"
  "pulse_inv (s\<lparr>pu_state := st\<rparr>) = pulse_inv s" "pulse_inv (s\<lparr>pu_stream_failed := b\<rparr>) = pulse_inv s"
  by (simp_all add: pulse_inv_def)

lemma pulse_held_other [simp]:
  "pulse_held (s\<lparr>sk_recovery := r\<rparr>) = pulse_held s" "pulse_held (s\<lparr>sk_format := f\<rparr>) = pulse_held s"
  "pulse_held (s\<lparr>sk_failed := b\<rparr>) = pulse_held s" "pulse_held (s\<lparr>sk_stopping := b\<rparr>) = pulse_held s"
  "pulse_held (s\<lparr>sk_target := g\<rparr>) = pulse_held s" "pulse_held (s\<lparr>sk_current := g\<rparr>) = pulse_held s"
  "pulse_held (s\<lparr>sk_volume := v\<rparr>) = pulse_held s" "pulse_held (s\<lparr>sk_muted := b\<rparr>) = pulse_held s"
  "pulse_held (s\<lparr>pu_state := st\<rparr>) = pulse_held s" "pulse_held (s\<lparr>pu_stream_failed := b\<rparr>) = pulse_held s"
  by (simp_all add: pulse_held_def)

lemma pulse_keeps_other [simp]:
  "pulse_keeps s t (s'\<lparr>sk_recovery := r\<rparr>) = pulse_keeps s t s'" "pulse_keeps s t (s'\<lparr>sk_format := f\<rparr>) = pulse_keeps s t s'"
  "pulse_keeps s t (s'\<lparr>sk_failed := b\<rparr>) = pulse_keeps s t s'" "pulse_keeps s t (s'\<lparr>sk_stopping := b\<rparr>) = pulse_keeps s t s'"
  "pulse_keeps s t (s'\<lparr>sk_target := g\<rparr>) = pulse_keeps s t s'" "pulse_keeps s t (s'\<lparr>sk_current := g\<rparr>) = pulse_keeps s t s'"
  "pulse_keeps s t (s'\<lparr>sk_volume := v\<rparr>) = pulse_keeps s t s'" "pulse_keeps s t (s'\<lparr>sk_muted := b\<rparr>) = pulse_keeps s t s'"
  "pulse_keeps s t (s'\<lparr>pu_state := st\<rparr>) = pulse_keeps s t s'"
  "pulse_keeps s t (s'\<lparr>pu_stream_failed := b\<rparr>) = pulse_keeps s t s'"
  "pulse_keeps (s\<lparr>sk_recovery := r\<rparr>) t s' = pulse_keeps s t s'" "pulse_keeps (s\<lparr>sk_format := f\<rparr>) t s' = pulse_keeps s t s'"
  "pulse_keeps (s\<lparr>sk_stopping := b\<rparr>) t s' = pulse_keeps s t s'"
  by (simp_all add: pulse_keeps_def)

lemma pulse_keeps_refl: "pulse_inv s \<Longrightarrow> pulse_keeps s [] s"
  by (simp add: pulse_keeps_def)

lemma pulse_keeps_inv: "pulse_keeps s t s' \<Longrightarrow> pulse_inv s'"
  by (simp add: pulse_keeps_def)

lemma pulse_latch_keeps [simp]: "pulse_keeps s t (pulse_latch x s') = pulse_keeps s t s'"
  by (simp add: pulse_latch_def)

lemma pulse_closed:
  assumes "pulse_inv s" "pulse_close_stream s = (s', t)"
  shows "pulse_keeps s t s' \<and> \<not> sk_stream s'"
  using assms by (auto simp: pulse_close_stream_def pulse_keeps_def pulse_inv_def pulse_held_def)

lemma stream_state_cb_keeps: "\<exists>f. pulse_stream_state_cb st s = s\<lparr>pu_state := st, pu_stream_failed := f\<rparr>"
  by (auto simp: pulse_stream_state_cb_def Let_def intro: exI [of _ "pu_stream_failed s"])

lemma await_stream_keeps: "\<exists>st f. await_stream sts s = s\<lparr>pu_state := st, pu_stream_failed := f\<rparr>"
proof (induction sts arbitrary: s)
  case Nil
  show ?case by (intro exI [of _ "pu_state s"] exI [of _ "pu_stream_failed s"]) simp
next
  case (Cons st sts)
  obtain f where f: "pulse_stream_state_cb st s = s\<lparr>pu_state := st, pu_stream_failed := f\<rparr>"
    using stream_state_cb_keeps by blast
  obtain st' f' where "await_stream sts (pulse_stream_state_cb st s)
      = (pulse_stream_state_cb st s)\<lparr>pu_state := st', pu_stream_failed := f'\<rparr>"
    using Cons [of "pulse_stream_state_cb st s"] by blast
  then have "\<exists>st'' f''. await_stream (st # sts) s = s\<lparr>pu_state := st'', pu_stream_failed := f''\<rparr> \<or> stream_settled s"
    using f by auto
  moreover have "stream_settled s \<Longrightarrow> await_stream (st # sts) s = s\<lparr>pu_state := pu_state s, pu_stream_failed := pu_stream_failed s\<rparr>"
    by simp
  ultimately show ?case by blast
qed

lemma stream_states_keep: "\<exists>st f. fold pulse_stream_state_cb sts s = s\<lparr>pu_state := st, pu_stream_failed := f\<rparr>"
proof (induction sts arbitrary: s)
  case Nil
  show ?case by (intro exI [of _ "pu_state s"] exI [of _ "pu_stream_failed s"]) simp
next
  case (Cons st sts)
  obtain f where f: "pulse_stream_state_cb st s = s\<lparr>pu_state := st, pu_stream_failed := f\<rparr>"
    using stream_state_cb_keeps by blast
  show ?case using Cons [of "pulse_stream_state_cb st s"] f by auto
qed

lemma pulse_open_settled:
  obtains st f where "await_stream sts' (fold pulse_stream_state_cb sts s) = s\<lparr>pu_state := st, pu_stream_failed := f\<rparr>"
proof -
  obtain st f where f: "fold pulse_stream_state_cb sts s = s\<lparr>pu_state := st, pu_stream_failed := f\<rparr>"
    using stream_states_keep by blast
  obtain st' f' where "await_stream sts' (fold pulse_stream_state_cb sts s)
      = (fold pulse_stream_state_cb sts s)\<lparr>pu_state := st', pu_stream_failed := f'\<rparr>"
    using await_stream_keeps by blast
  with f that show thesis by auto
qed

lemma pulse_opened:
  assumes "pulse_inv s" "\<not> sk_stream s" "pulse_open_stream x rate channels bits s = (ok, s', t)"
  shows "pulse_keeps s t s' \<and> sk_stream s' = ok \<and> pu_conn s' = pu_conn s"
proof -
  let ?f = "pulse_set_format rate channels bits s"
  consider "\<not> ok" "s' = s" "t = []"
    | spec where "\<not> ok" "s' = ?f\<lparr>sk_stream := False\<rparr>" "t = [PlStreamNew False spec]" "pulse_ready (pu_conn s)"
    | spec dev n where "\<not> ok" "s' = ?f\<lparr>sk_stream := False\<rparr>" "pulse_ready (pu_conn s)"
        "t = [PlStreamNew True spec, PlStreamCallbacks True, PlStreamConnect False dev n, PlStreamCallbacks False, PlStreamUnref]"
    | st f spec dev n where "\<not> ok" "pulse_ready (pu_conn s)"
        "s' = fst (pulse_close_stream (?f\<lparr>sk_stream := True, pu_state := st, pu_stream_failed := f\<rparr>))"
        "t = [PlStreamNew True spec, PlStreamCallbacks True, PlStreamConnect True dev n]
          @ snd (pulse_close_stream (?f\<lparr>sk_stream := True, pu_state := st, pu_stream_failed := f\<rparr>))"
    | st f spec dev n where "ok" "pulse_ready (pu_conn s)" "pulse_format_for bits \<noteq> None" "channels \<noteq> 0"
        "s' = ?f\<lparr>sk_stream := True, pu_state := st, pu_stream_failed := f, sk_failed := False\<rparr>"
        "t = [PlStreamNew True spec, PlStreamCallbacks True, PlStreamConnect True dev n]"
  proof (cases "pulse_format_for bits")
    case None
    then show thesis using assms(3) that(1) by (simp add: pulse_open_stream_def)
  next
    case (Some format)
    let ?spec = "\<lparr>pf_format = format, pf_rate = rate, pf_channels = channels\<rparr>"
    consider "channels = 0 \<or> rate = 0 \<or> \<not> pulse_ready (pu_conn s) \<or> \<not> px_valid x"
      | "channels \<noteq> 0" "rate \<noteq> 0" "pulse_ready (pu_conn s)" "px_valid x" "\<not> px_stream x"
      | "channels \<noteq> 0" "rate \<noteq> 0" "pulse_ready (pu_conn s)" "px_valid x" "px_stream x" "px_connect x = None"
      | sts where "channels \<noteq> 0" "rate \<noteq> 0" "pulse_ready (pu_conn s)" "px_valid x" "px_stream x" "px_connect x = Some sts"
      by (cases "px_connect x") auto
    then show thesis
    proof cases
      case 1
      then have "\<not> ok \<and> s' = s \<and> t = []" using assms(3) Some by (auto simp: pulse_open_stream_def Let_def split: if_splits)
      then show thesis using that(1) by blast
    next
      case 2
      then show thesis using assms(3) Some that(2) by (auto simp: pulse_open_stream_def Let_def)
    next
      case 3
      then show thesis using assms(3) Some that(3) by (auto simp: pulse_open_stream_def Let_def)
    next
      case (4 sts)
      obtain st f where aw: "await_stream (px_states x) (fold pulse_stream_state_cb sts (?f\<lparr>sk_stream := True\<rparr>))
          = ?f\<lparr>sk_stream := True, pu_state := st, pu_stream_failed := f\<rparr>"
        by (rule pulse_open_settled)
      show thesis
      proof (cases "st = StReady")
        case True
        then show thesis using assms(3) Some 4 aw by (intro that(5) [of f st]) (auto simp: pulse_open_stream_def Let_def)
      next
        case False
        then show thesis using assms(3) Some 4 aw
          by (intro that(4) [of f st]) (auto simp: pulse_open_stream_def Let_def split: prod.splits)
      qed
    qed
  qed
  note cs = this
  have "pulse_ready (pu_conn s) \<Longrightarrow> pn_loop (pu_conn s) \<and> pn_context (pu_conn s)" "conn_ok (pu_conn s)"
    using assms(1) by (auto simp: pulse_inv_def conn_ok_def)
  note d = pulse_set_format_def pulse_keeps_def pulse_inv_def pulse_held_def conn_held_def nothing_held_def
    pulse_close_stream_def and facts = this
  show ?thesis using cs
    by cases (use assms(1,2) facts in \<open>simp_all add: d\<close>)
qed

lemma quiet_disconnect [simp]: "handed (snd (pulse_disconnect conn)) q = q"
  by (simp add: pulse_disconnect_def)

lemma quiet_connect: "pulse_connect v ms conn = (error, conn', t) \<Longrightarrow> handed t q = q"
proof -
  assume c: "pulse_connect v ms conn = (error, conn', t)"
  obtain c0 t0 where d: "pulse_disconnect conn = (c0, t0)" by fastforce
  have q: "handed t0 q = q" using quiet_disconnect [of conn q] d by simp
  show ?thesis
    by (cases "pv_connect v")
       (use c d q in \<open>auto simp: pulse_connect_def Let_def pulse_disconnect_def split: if_splits\<close>)
qed

lemma pulse_connected:
  assumes "pulse_inv s" "\<not> sk_stream s" "pulse_connect v ms (pu_conn s) = (error, conn, t)"
  shows "pulse_keeps s t (s\<lparr>pu_conn := conn\<rparr>) \<and> (error = None \<longrightarrow> pulse_ready conn)"
proof -
  have "conn_ok (pu_conn s)" using assms(1) by (simp add: pulse_inv_def)
  note k = pulse_connect_calls [OF this assms(3)]
  have "pulse_held s = conn_held (pu_conn s)" "pulse_held (s\<lparr>pu_conn := conn\<rparr>) = conn_held conn"
    using assms(2) by (simp_all add: pulse_held_def conn_held_def nothing_held_def)
  then show ?thesis using k assms(2) quiet_connect [OF assms(3)] by (simp add: pulse_keeps_def pulse_inv_def)
qed

lemma pulse_reopened:
  assumes "pulse_inv s" "pulse_reopen_in_place x s = (ok, s', t)"
  shows "pulse_keeps s t s' \<and> (ok \<longrightarrow> sk_stream s')"
proof -
  obtain due r where due: "reopen_due (sk_recovery s) = (due, r)" by fastforce
  let ?f = "sk_format s" and ?r = "s\<lparr>sk_recovery := r\<rparr>"
  obtain s2 t2 where c: "pulse_close_stream ?r = (s2, t2)" by fastforce
  obtain ok3 s3 t3 where op: "pulse_open_stream x (sample_rate ?f) (channel_count ?f) (bit_depth ?f) s2 = (ok3, s3, t3)"
    by (metis prod_cases3)
  let ?s4 = "pulse_latch x (s3\<lparr>sk_recovery := reopen_done True (sk_recovery s3)\<rparr>)"
  obtain s5 t5 where c5: "pulse_close_stream ?s4 = (s5, t5)" by fastforce
  note k2 = pulse_closed [OF _ c, simplified, OF assms(1)]
  note k3 = pulse_opened [OF pulse_keeps_inv [OF conjunct1 [OF k2]] conjunct2 [OF k2] op]
  have inv4: "pulse_inv ?s4" using k3 by (simp add: pulse_latch_def pulse_keeps_def)
  note k5 = pulse_closed [OF inv4 c5]
  have k23: "pulse_keeps s (t2 @ t3) s3" using k2 k3 pulse_keeps_trans by blast
  have k235: "pulse_keeps s (t2 @ t3 @ t5) s5"
    using pulse_keeps_trans [of s "t2 @ t3" ?s4 t5 s5] k23 k5 by simp
  have eq: "(ok, s', t) = (if sk_stopping s \<or> sample_rate ?f = 0 then (False, s, [])
      else if \<not> due then (False, ?r, [])
      else if \<not> pulse_ready (pu_conn s) then (False, s\<lparr>sk_recovery := reopen_done False r\<rparr>, [])
      else if \<not> ok3 then (False, s3\<lparr>sk_recovery := reopen_done False (sk_recovery s3)\<rparr>, t2 @ t3)
      else if sk_stopping ?s4 then (False, s5, t2 @ t3 @ t5) else (True, ?s4, t2 @ t3))"
    unfolding assms(2) [symmetric] by (cases due) (simp_all add: pulse_reopen_in_place_def due Let_def c op c5)
  consider "(ok, s', t) = (False, s, [])" | "(ok, s', t) = (False, ?r, [])"
    | "(ok, s', t) = (False, s\<lparr>sk_recovery := reopen_done False r\<rparr>, [])"
    | "(ok, s', t) = (False, s3\<lparr>sk_recovery := reopen_done False (sk_recovery s3)\<rparr>, t2 @ t3)"
    | "(ok, s', t) = (False, s5, t2 @ t3 @ t5)" | "ok3" "(ok, s', t) = (True, ?s4, t2 @ t3)"
    using eq by (cases "sk_stopping s \<or> sample_rate ?f = 0"; cases due; cases "pulse_ready (pu_conn s)"; cases ok3;
        cases "sk_stopping ?s4")
      (simp_all only: if_True if_False not_False_eq_True not_True_eq_False simp_thms)
  then show ?thesis
  proof cases
    case 6
    then show ?thesis using k23 k3 by (simp add: pulse_latch_def)
  qed (use k23 k235 assms(1) pulse_keeps_refl in simp_all)
qed

lemma pulse_configured:
  assumes "pulse_inv s" "pulse_configure v x rate channels bits s = (ok, s', t)"
  shows "pulse_keeps s t s'"
proof (cases "sk_stopping s")
  case True
  then show ?thesis using assms pulse_keeps_refl by (simp add: pulse_configure_def)
next
  case False
  let ?s1 = "s\<lparr>sk_format := \<lparr>sample_rate = rate, channel_count = channels, bit_depth = bits\<rparr>\<rparr>"
  obtain s2 t2 where c: "pulse_close_stream ?s1 = (s2, t2)" by fastforce
  note k2 = pulse_closed [OF _ c, simplified, OF assms(1)]
  obtain error conn t3 where cn: "(if pulse_ready (pu_conn s2) then (None, pu_conn s2, [])
      else pulse_connect v PULSE_TIMEOUT_MS (pu_conn s2)) = (error, conn, t3)" by (metis prod_cases3)
  have k3: "pulse_keeps s2 t3 (s2\<lparr>pu_conn := conn\<rparr>)"
    using cn k2 pulse_connected [of s2 v PULSE_TIMEOUT_MS error conn t3] pulse_keeps_refl [of s2]
    by (auto simp: pulse_keeps_inv split: if_splits)
  obtain ok4 s4 t4 where op: "pulse_open_stream x rate channels bits (s2\<lparr>pu_conn := conn\<rparr>) = (ok4, s4, t4)"
    by (metis prod_cases3)
  have k4: "pulse_keeps (s2\<lparr>pu_conn := conn\<rparr>) t4 s4"
    using pulse_opened [OF pulse_keeps_inv [OF k3] _ op] k2 by simp
  have k23: "pulse_keeps s (t2 @ t3) (s2\<lparr>pu_conn := conn\<rparr>)" using k2 k3 pulse_keeps_trans by blast
  have k234: "pulse_keeps s (t2 @ t3 @ t4) s4" using pulse_keeps_trans [OF k23 k4] by simp
  consider "s' = s2\<lparr>pu_conn := conn, sk_failed := True\<rparr>" "t = t2 @ t3" | "s' = s4\<lparr>sk_failed := True\<rparr>" "t = t2 @ t3 @ t4"
    | "s' = s4\<lparr>sk_recovery := reset_recovery (sk_recovery s4)\<rparr>" "t = t2 @ t3 @ t4"
    using assms(2) False cn by (auto simp: pulse_configure_def Let_def c op split: if_splits prod.splits)
  then show ?thesis by cases (use k23 k234 in \<open>simp_all\<close>)
qed

lemma pulse_polled:
  assumes "pulse_inv s" "pulse_poll v x now s = (s', t)"
  shows "pulse_keeps s t s'"
proof -
  obtain due r where due: "rescan_due now (sk_recovery s) = (due, r)" by fastforce
  let ?f = "sk_format s" and ?r = "s\<lparr>sk_recovery := r\<rparr>"
  obtain s1 t1 where c: "pulse_close_stream ?r = (s1, t1)" by fastforce
  note k1 = pulse_closed [OF _ c, simplified, OF assms(1)]
  obtain error conn t2 where cn: "pulse_connect v PULSE_RECOVERY_TIMEOUT_MS (pu_conn s1) = (error, conn, t2)"
    by (metis prod_cases3)
  let ?s2 = "s1\<lparr>pu_conn := conn\<rparr>"
  note k2 = pulse_connected [OF pulse_keeps_inv [OF conjunct1 [OF k1]] conjunct2 [OF k1] cn]
  obtain ok s3 t3 where op: "pulse_open_stream x (sample_rate ?f) (channel_count ?f) (bit_depth ?f) ?s2 = (ok, s3, t3)"
    by (metis prod_cases3)
  have k3: "pulse_keeps ?s2 t3 s3"
    using pulse_opened [OF pulse_keeps_inv [OF conjunct1 [OF k2]] _ op] k1 by simp
  let ?s4 = "pulse_latch x (s3\<lparr>sk_recovery := rescan_done True (sk_recovery s3)\<rparr>)"
  obtain s5 t4 where c5: "pulse_close_stream ?s4 = (s5, t4)" by fastforce
  have inv4: "pulse_inv ?s4" using k3 by (simp add: pulse_latch_def pulse_keeps_def)
  note k5 = pulse_closed [OF inv4 c5]
  have k12: "pulse_keeps s (t1 @ t2) ?s2" using k1 k2 pulse_keeps_trans by blast
  have k123: "pulse_keeps s (t1 @ t2 @ t3) s3" using pulse_keeps_trans [OF k12 k3] by simp
  have k1235: "pulse_keeps s (t1 @ t2 @ t3 @ t4) s5"
    using pulse_keeps_trans [of s "t1 @ t2 @ t3" ?s4 t4 s5] k123 k5 by simp
  have eq: "(s', t) = (if \<not> pending (sk_recovery s) \<or> sk_stopping s \<or> sample_rate ?f = 0 then (s, [])
      else if \<not> due then (?r, []) else if error \<noteq> None then (report_failed_recovery ?s2, t1 @ t2)
      else if \<not> ok then (report_failed_recovery s3, t1 @ t2 @ t3)
      else if sk_stopping ?s4 then (s5, t1 @ t2 @ t3 @ t4) else (?s4, t1 @ t2 @ t3))"
    unfolding assms(2) [symmetric] by (cases due) (simp_all add: pulse_poll_def due Let_def c cn op c5)
  consider "(s', t) = (s, [])" | "(s', t) = (?r, [])" | "(s', t) = (report_failed_recovery ?s2, t1 @ t2)"
    | "(s', t) = (report_failed_recovery s3, t1 @ t2 @ t3)" | "(s', t) = (s5, t1 @ t2 @ t3 @ t4)"
    | "(s', t) = (?s4, t1 @ t2 @ t3)"
    using eq by (cases "\<not> pending (sk_recovery s) \<or> sk_stopping s \<or> sample_rate ?f = 0"; cases due; cases "error = None";
        cases ok; cases "sk_stopping ?s4")
      (simp_all only: if_True if_False not_False_eq_True not_True_eq_False simp_thms)
  then show ?thesis
    by cases (use k12 k123 k1235 assms(1) pulse_keeps_refl in \<open>simp_all add: report_failed_recovery_def\<close>)
qed

lemma pulse_cleared:
  assumes "pulse_inv s" "pulse_clear op s = (s', t)"
  shows "pulse_keeps s t s'"
  using assms by (auto simp: pulse_clear_def pulse_keeps_def pulse_inv_def pulse_held_def conn_held_def nothing_held_def)

lemma pulse_stopped:
  assumes "pulse_inv s" "pulse_stop s = (s', t)"
  shows "pulse_keeps s t s'"
  using assms pulse_closed [of "(pulse_stop_latch s)\<lparr>sk_format := no_format\<rparr>" s' t]
  by (auto simp: pulse_stop_def pulse_stop_latch_def pulse_keeps_refl Let_def split: if_splits)

lemma pulse_op_keeps:
  assumes "pulse_inv s" "pulse_sink_op curve op s = (s', t)"
  shows "pulse_keeps s t s'"
proof (cases op)
  case (PuConfigure v x rate channels bits)
  then show ?thesis using assms pulse_configured [OF assms(1)] by (metis prod.collapse pulse_sink_op.simps(1))
next
  case (PuContext st)
  then show ?thesis using assms
    by (auto simp: pulse_keeps_def pulse_inv_def pulse_held_def conn_held_def conn_ok_def pulse_state_cb_def
        pulse_ready_def split: if_splits)
next
  case (PuStream st)
  then show ?thesis using assms pulse_keeps_refl by (auto simp: pulse_stream_state_cb_def Let_def split: if_splits)
qed (use assms pulse_cleared pulse_stopped pulse_polled pulse_keeps_refl in
  \<open>auto simp: pulse_stop_latch_def pulse_set_volume_def pulse_set_muted_def pulse_update_target_def\<close>)

lemma pulse_free_op:
  "pulse_takes_no_lock op \<Longrightarrow> pulse_sink_op curve op s = (s', t) \<Longrightarrow>
     t = [] \<and> sk_generation s' = sk_generation s"
  by (cases op) (auto simp: pulse_takes_no_lock_def pulse_stop_latch_def pulse_set_volume_def pulse_set_muted_def
      pulse_update_target_def pulse_stream_state_cb_def Let_def split: if_splits)

section \<open>The stream and the server's queue\<close>

definition pulse_write_ok :: "pulse_write \<Rightarrow> bool" where
  "pulse_write_ok p \<longleftrightarrow> 0 < pq_frame p \<and> pq_done p \<le> pq_frames p
     \<and> pq_frames p * pq_frame p \<le> length (pq_source p) \<and> pq_frames p * pq_frame p \<le> pq_offered p"

lemma length_pulse_stage:
  assumes "pulse_inv s" "sk_stream s" "frames * sk_frame s \<le> length data" "length data < 2 ^ 64"
  shows "frames * sk_frame s \<le> length (pulse_stage data frames start target s)"
proof -
  have f: "sk_frame s = frame_bytes (sk_channels s) (sk_bits s)" "sk_channels s \<noteq> 0"
    and w: "unat (sk_bits s) div 8 \<in> {1, 2, 3, 4}"
    using assms(1,2) pulse_format_width by (auto simp: pulse_inv_def)
  define scaled where "scaled = fst (apply_volume_ramp (take (frames * sk_frame s) data) (sk_bits s div 8) (sk_channels s)
      start target (sk_step s))"
  have "frames * sk_frame s \<le> length scaled" using assms(3,4) frame_parts [OF w f(2)]
      ramp_is_frame_gains [OF frame_parts(2) [OF w f(2)] f(2), of "take (frames * sk_frame s) data" start target "sk_step s"]
    by (simp add: scaled_def f(1))
  moreover have "pulse_stage data frames start target s \<in>
      {data, scaled, map (\<lambda>x. xor x 0x80) scaled, map (\<lambda>x. xor x 0x80) (take (frames * sk_frame s) data)}"
    unfolding pulse_stage_def Let_def scaled_def [symmetric] by auto
  ultimately show ?thesis using assms(3) by auto
qed

lemma pulse_write_begun:
  assumes "pulse_inv s" "pulse_write_begins x data s = (answer, s', t)" "length data < 2 ^ 64"
  shows "pulse_keeps s t s' \<and>
    (case answer of Inl n \<Rightarrow> n \<le> length data
     | Inr p \<Rightarrow> pulse_write_ok p \<and> pq_done p = 0 \<and> sk_stream s' \<and> pq_generation p = sk_generation s' \<and> pq_frame p = sk_frame s')"
proof (cases "data = []")
  case True
  then show ?thesis using assms by (auto simp: pulse_write_begins_def pulse_keeps_refl)
next
  case False
  obtain ready s1 t1 where re: "(if pulse_stream_alive s then (True, s, []) else pulse_reopen_in_place x s) = (ready, s1, t1)"
    by (metis prod_cases3)
  have s1: "pulse_keeps s t1 s1" "ready \<Longrightarrow> sk_stream s1"
    using re pulse_reopened [OF assms(1), of x ready s1 t1] pulse_keeps_refl [OF assms(1)]
    by (auto simp: pulse_stream_alive_def split: if_splits)
  let ?u = "length data - length data mod sk_frame s1" and ?f = "sk_frame s1"
  let ?p = "\<lparr>pq_source = pulse_stage data (?u div ?f) (sk_current s1) (sk_target s1) s1, pq_offered = length data,
    pq_frames = ?u div ?f, pq_frame = ?f, pq_generation = sk_generation s1, pq_done = 0, pq_start = sk_current s1,
    pq_target = sk_target s1, pq_first = True\<rparr>"
  have n: "discarded (length data) s1 \<le> length data" by (simp add: discarded_def Let_def)
  have eq: "(answer, s', t) = (if \<not> ready then (Inl (discarded (length data) s1), s1\<lparr>sk_failed := True\<rparr>, t1)
      else if ?u = 0 then (Inl 0, s1, t1) else (Inr ?p, s1, t1))"
    using assms(2) False re by (auto simp: pulse_write_begins_def Let_def split: if_splits)
  have ok: "pulse_write_ok ?p" if ready
  proof -
    have inv: "pulse_inv s1" and st: "sk_stream s1" using s1 that by (simp_all add: pulse_keeps_def)
    have pos: "0 < ?f" using inv st frame_parts(3) [OF pulse_format_width] by (auto simp: pulse_inv_def)
    have u: "?u div ?f * ?f = ?u" by (simp add: minus_mod_eq_div_mult)
    have "?u \<le> length (pulse_stage data (?u div ?f) (sk_current s1) (sk_target s1) s1)"
      using length_pulse_stage [OF inv st, of "?u div ?f" data] assms(3) u by simp
    then show ?thesis using pos u by (simp add: pulse_write_ok_def)
  qed
  from eq consider "answer = Inl (discarded (length data) s1)" "s' = s1\<lparr>sk_failed := True\<rparr>" "t = t1"
    | "answer = Inl 0" "s' = s1" "t = t1" | "answer = Inr ?p" "s' = s1" "t = t1" ready
    by (cases ready; cases "?u = 0") (simp_all only: if_True if_False not_False_eq_True not_True_eq_False prod.inject simp_thms)
  then show ?thesis using s1 n ok by cases simp_all
qed

text \<open>A turn that feeds hands over whole frames, the next of the write's.\<close>

lemma pulse_turn_feeds:
  assumes "pulse_write_turn late writable takes p s = (TurnFeeds p', t)" "pulse_write_ok p"
  defines "chunk \<equiv> take ((pq_done p' - pq_done p) * pq_frame p) (drop (pq_done p * pq_frame p) (pq_source p))"
  shows "t = [PlStreamWrite True chunk] \<and> pulse_write_ok p' \<and> pq_done p < pq_done p'
    \<and> length chunk = (pq_done p' - pq_done p) * pq_frame p
    \<and> pq_generation p' = pq_generation p \<and> pq_frame p' = pq_frame p \<and> pq_offered p' = pq_offered p"
proof -
  let ?f = "pq_frame p" and ?rem = "(pq_frames p - pq_done p) * pq_frame p"
  obtain w where less: "pq_done p < pq_frames p" and wr: "writable = Some w"
    using assms(1) by (auto simp: pulse_write_turn_def Let_def split: if_splits option.splits)
  define c where "c = min (w - w mod ?f) ?rem"
  have c: "0 < c" using assms(1) less by (auto simp: pulse_write_turn_def Let_def wr c_def split: if_splits)
  have t: "p' = p\<lparr>pq_first := False, pq_done := pq_done p + c div ?f\<rparr>"
      "t = [PlStreamWrite True (take c (drop (pq_done p * ?f) (pq_source p)))]"
    using assms(1) less c by (auto simp: pulse_write_turn_def Let_def wr c_def [symmetric] split: if_splits)
  have d: "?f dvd w - w mod ?f" "?f dvd ?rem" by (simp_all add: minus_mod_eq_div_mult)
  then have dvd: "?f dvd c" unfolding c_def min_def by (cases "w - w mod ?f \<le> ?rem") simp_all
  then have cf: "c div ?f * ?f = c" by simp
  have pos: "0 < ?f" using assms(2) by (simp add: pulse_write_ok_def)
  have "c \<le> ?rem" by (simp add: c_def)
  then have n: "c div ?f \<le> pq_frames p - pq_done p" using pos by (metis div_le_mono nonzero_mult_div_cancel_right less_numeral_extra(3))
  have done': "pq_done p' = pq_done p + c div ?f" using t by simp
  have "0 < c div ?f" using cf c by (metis gr0I mult_0 less_irrefl)
  moreover have ch: "chunk = take c (drop (pq_done p * ?f) (pq_source p))" by (simp add: chunk_def done' cf)
  moreover have "length chunk = c"
  proof -
    have "pq_done p * ?f + c \<le> pq_done p * ?f + ?rem" using \<open>c \<le> ?rem\<close> by simp
    also have "\<dots> = pq_frames p * ?f" using less by (simp add: add_mult_distrib [symmetric])
    also have "\<dots> \<le> length (pq_source p)" using assms(2) by (simp add: pulse_write_ok_def)
    finally show ?thesis by (simp add: ch)
  qed
  ultimately show ?thesis using t assms(2) n less cf by (simp add: pulse_write_ok_def)
qed

lemma pulse_turn_other:
  assumes "pulse_write_turn late writable takes p s = (turn, t)"
  shows "case turn of TurnFeeds _ \<Rightarrow> True
    | TurnEnds s' \<Rightarrow> (s' = s \<or> s' = s\<lparr>pu_stream_failed := True\<rparr>) \<and> (t = [] \<or> (\<exists>b. t = [PlStreamWrite False b]))
    | TurnWaits p' \<Rightarrow> p' = p\<lparr>pq_first := False\<rparr> \<and> t = []"
  using assms by (auto simp: pulse_write_turn_def Let_def split: if_splits option.splits)

text \<open>What holds between the events of a run.\<close>

definition pulse_config_ok :: "pulse_config \<Rightarrow> bool" where
  "pulse_config_ok c \<longleftrightarrow> pulse_inv (gc_sink c)
     \<and> pulse_lib (gc_calls c) nothing_held = Some (pulse_held (gc_sink c))
     \<and> (\<not> sk_stream (gc_sink c) \<longrightarrow> handed (gc_calls c) [] = [])
     \<and> (case gc_writer c of
          NoWriter \<Rightarrow> True
        | Filling p \<Rightarrow> pulse_write_ok p \<and> sk_stream (gc_sink c) \<and> pq_generation p = sk_generation (gc_sink c)
            \<and> pq_frame p = sk_frame (gc_sink c)
        | Waiting p \<Rightarrow> pulse_write_ok p \<and> pq_generation p \<le> sk_generation (gc_sink c)
            \<and> (pq_generation p = sk_generation (gc_sink c) \<longrightarrow> pq_frame p = sk_frame (gc_sink c)))
     \<and> spec_run (gc_log c) empty_spec = Some \<lparr>sp_queue = handed (gc_calls c) [], sp_asked = False,
         sp_fed = (case gc_writer c of NoWriter \<Rightarrow> 0 | Filling p \<Rightarrow> pq_done p * pq_frame p | Waiting p \<Rightarrow> pq_done p * pq_frame p)\<rparr>"

lemma pulse_keeps_handed:
  assumes "pulse_keeps s t s'" "\<not> sk_stream s \<longrightarrow> q = []"
  shows "handed t q = (if sk_generation s' = sk_generation s then q else []) \<and> (\<not> sk_stream s' \<longrightarrow> handed t q = [])"
  using assms by (auto simp: pulse_keeps_def split: if_splits)

lemma pulse_does_ok:
  assumes "pulse_config_ok c" "pulse_keeps (gc_sink c) t s'"
    and "sk_generation s' = sk_generation (gc_sink c) \<or> (\<forall>p. gc_writer c \<noteq> Filling p)"
  shows "pulse_config_ok (pulse_does (s', t) c)"
proof -
  have q: "\<not> sk_stream (gc_sink c) \<longrightarrow> handed (gc_calls c) [] = []" using assms(1) by (simp add: pulse_config_ok_def)
  note h = pulse_keeps_handed [OF assms(2) q]
  have g: "sk_generation (gc_sink c) \<le> sk_generation s'" "sk_generation s' = sk_generation (gc_sink c) \<Longrightarrow>
      sk_frame s' = sk_frame (gc_sink c) \<and> sk_stream s' = sk_stream (gc_sink c)"
    using assms(2) by (auto simp: pulse_keeps_def split: if_splits)
  have k: "pulse_inv s'" "pulse_lib t (pulse_held (gc_sink c)) = Some (pulse_held s')"
    using assms(2) by (simp_all add: pulse_keeps_def)
  show ?thesis
  proof (cases "sk_generation s' = sk_generation (gc_sink c)")
    case True
    then have "handed (gc_calls c @ t) [] = handed (gc_calls c) []" "sk_frame s' = sk_frame (gc_sink c)"
        "sk_stream s' = sk_stream (gc_sink c)" using h g by simp_all
    then show ?thesis using assms(1) k True
      unfolding pulse_config_ok_def pulse_does_def pulse_flush_log_def
      by (cases "gc_writer c") (simp_all add: pulse_lib_append spec_run_append del: handed_simps(3))
  next
    case False
    then have "handed (gc_calls c @ t) [] = []" "sk_generation (gc_sink c) < sk_generation s'"
        "\<forall>p. gc_writer c \<noteq> Filling p" using h g(1) assms(3) by simp_all
    then show ?thesis using assms(1) k False
      unfolding pulse_config_ok_def pulse_does_def pulse_flush_log_def
      by (cases "gc_writer c") (simp_all add: pulse_lib_append spec_run_append)
  qed
qed

lemma pulse_returns_ok:
  assumes "pulse_config_ok c" "gc_writer c = Filling p \<or> gc_writer c = Waiting p"
  shows "pulse_config_ok (pulse_returns latency now p c)"
proof -
  obtain report s' where e: "pulse_write_ends latency now p (gc_sink c) = (report, s')" by fastforce
  then obtain g where s': "s' = (gc_sink c)\<lparr>sk_current := g\<rparr>" by (auto simp: pulse_write_ends_def)
  have "pulse_write_ok p" using assms by (auto simp: pulse_config_ok_def)
  then have le: "pq_done p * pq_frame p \<le> pq_offered p" unfolding pulse_write_ok_def by (metis mult_le_mono1 order_trans)
  have "spec_run (gc_log c) empty_spec = Some \<lparr>sp_queue = handed (gc_calls c) [], sp_asked = False, sp_fed = pq_done p * pq_frame p\<rparr>"
    using assms by (auto simp: pulse_config_ok_def)
  then show ?thesis using assms(1) le
    by (simp add: pulse_config_ok_def pulse_returns_def e spec_run_append s')
qed

lemma pulse_turns_ok:
  assumes "pulse_config_ok c"
  shows "pulse_config_ok (pulse_step curve (PuTurns late writable takes latency now) c)"
proof (cases "gc_writer c")
  case (Filling p)
  obtain turn t where w: "pulse_write_turn late writable takes p (gc_sink c) = (turn, t)" by fastforce
  note other = pulse_turn_other [OF w]
  have ok: "pulse_write_ok p" and st: "sk_stream (gc_sink c)" and eq: "pq_frame p = sk_frame (gc_sink c)"
    and gen: "pq_generation p = sk_generation (gc_sink c)" and inv: "pulse_inv (gc_sink c)"
    using assms Filling by (simp_all add: pulse_config_ok_def)
  show ?thesis
  proof (cases turn)
    case (TurnEnds s')
    have "pulse_config_ok (c\<lparr>gc_calls := gc_calls c @ t, gc_sink := s'\<rparr>)"
      using assms other TurnEnds Filling st
      by (auto simp: pulse_config_ok_def pulse_lib_append pulse_held_def)
    then show ?thesis using Filling w TurnEnds pulse_returns_ok by simp
  next
    case (TurnWaits p')
    then show ?thesis using assms other Filling w by (auto simp: pulse_config_ok_def pulse_write_ok_def)
  next
    case (TurnFeeds p')
    note f = pulse_turn_feeds [OF w [unfolded TurnFeeds] ok]
    have "pq_done p * pq_frame p + (pq_done p' - pq_done p) * pq_frame p = pq_done p' * pq_frame p"
      using f by (simp add: add_mult_distrib [symmetric])
    then show ?thesis using assms Filling w TurnFeeds f st eq gen
      by (simp add: pulse_config_ok_def pulse_lib_append pulse_held_def spec_run_append)
  qed
qed (use assms in auto)

lemma pulse_config_ok_step:
  assumes "pulse_config_ok c" "\<And>x data. ev = PuBegins x data \<Longrightarrow> length data < 2 ^ 64"
  shows "pulse_config_ok (pulse_step curve ev c)"
proof -
  have inv: "pulse_inv (gc_sink c)" using assms(1) by (simp add: pulse_config_ok_def)
  show ?thesis
  proof (cases ev)
    case (PuLocked op)
    obtain s' t where o1: "pulse_sink_op curve op (gc_sink c) = (s', t)" by fastforce
    show ?thesis using PuLocked assms(1) pulse_does_ok [OF assms(1) pulse_op_keeps [OF inv o1]] o1
      by (cases "gc_writer c") simp_all
  next
    case (PuUnlocked op)
    obtain s' t where o1: "pulse_sink_op curve op (gc_sink c) = (s', t)" by fastforce
    show ?thesis using PuUnlocked assms(1) pulse_does_ok [OF assms(1) pulse_op_keeps [OF inv o1]] o1 pulse_free_op [OF _ o1]
      by auto
  next
    case (PuBegins x data)
    show ?thesis
    proof (cases "gc_writer c")
      case NoWriter
      obtain answer s' t where b: "pulse_write_begins x data (gc_sink c) = (answer, s', t)" by (metis prod_cases3)
      note k = pulse_write_begun [OF inv b assms(2) [OF PuBegins]]
      have ok: "pulse_config_ok (pulse_does (s', t) c)" using pulse_does_ok [OF assms(1)] k NoWriter by simp
      have d: "gc_writer (pulse_does (s', t) c) = NoWriter" "gc_sink (pulse_does (s', t) c) = s'"
        using NoWriter by (simp_all add: pulse_does_def)
      show ?thesis using PuBegins NoWriter b k ok d
        by (cases answer) (simp_all add: pulse_config_ok_def spec_run_append Let_def)
    qed (use PuBegins assms in simp_all)
  next
    case (PuTurns late writable takes latency now)
    then show ?thesis using pulse_turns_ok [OF assms(1)] by simp
  next
    case (PuWakes latency now)
    then show ?thesis using assms(1) pulse_returns_ok [OF assms(1)]
      by (cases "gc_writer c") (auto simp: pulse_config_ok_def pulse_wake_def)
  qed
qed

text \<open>A buffer offered fits the address space.\<close>

fun pulse_lawful :: "pulse_event \<Rightarrow> bool" where
  "pulse_lawful (PuBegins x data) \<longleftrightarrow> length data < 2 ^ 64"
| "pulse_lawful _ \<longleftrightarrow> True"

lemma pulse_steps_ok:
  "pulse_config_ok c \<Longrightarrow> list_all pulse_lawful evs \<Longrightarrow> pulse_config_ok (fold (pulse_step curve) evs c)"
proof (induction evs arbitrary: c)
  case (Cons ev evs)
  have "pulse_config_ok (pulse_step curve ev c)" using Cons.prems by (intro pulse_config_ok_step) auto
  then show ?case using Cons by simp
qed simp

lemma pulse_run_ok:
  assumes "list_all pulse_lawful evs"
  shows "pulse_config_ok (pulse_run curve evs (new_pulse_sink v spec buffer_ms))"
proof -
  obtain error conn t where c: "pulse_connect v PULSE_TIMEOUT_MS new_pulse_conn = (error, conn, t)" by (metis prod_cases3)
  note k = pulse_connect_calls [OF new_conn_ok(1) c, unfolded new_conn_ok(2)]
  show ?thesis unfolding pulse_run_def using k quiet_connect [OF c, of "[]"]
    by (intro pulse_steps_ok [OF _ assms])
       (simp add: pulse_config_ok_def new_pulse_sink_def c pulse_inv_def pulse_held_def conn_held_def nothing_held_def empty_spec_def)
qed

text \<open>
  C11. What the server gets is what the player handed over. For every interleaving of writes, their waits,
  flushes, stream starts, states libpulse reports, reconnects and shutdown, the bytes handed to the server
  since it was last asked to drop any are, in order, the whole frames the writes of this stream put in: a
  write puts nothing into a stream other than the one it began in and returns exactly what it put in.
\<close>

theorem pulse_sink_is_a_queue:
  assumes "list_all pulse_lawful evs" "pulse_run curve evs (new_pulse_sink v spec buffer_ms) = c"
  shows "\<exists>n. spec_run (gc_log c) empty_spec = Some \<lparr>sp_queue = handed (gc_calls c) [], sp_asked = False, sp_fed = n\<rparr>"
  using pulse_run_ok [OF assms(1), of curve v spec buffer_ms] assms(2) by (auto simp: pulse_config_ok_def)

text \<open>A server and an opening that take whatever is asked.\<close>

definition easy_server :: pulse_server where
  "easy_server = \<lparr>pv_loop = True, pv_context = True, pv_connect = Some [CxConnecting], pv_start = True,
     pv_states = [CxAuthorizing, CxReady], pv_error = []\<rparr>"

definition easy_opening :: pulse_opening where
  "easy_opening = \<lparr>px_valid = True, px_usec_to_bytes = (\<lambda>us _. us), px_stream = True, px_connect = Some [StCreating],
     px_states = [StReady], px_stopped = False\<rparr>"

definition pulse_demo_events :: "pulse_event list" where
  "pulse_demo_events = [PuLocked (PuConfigure easy_server easy_opening 48000 1 8), PuBegins easy_opening [1, 2, 3],
     PuTurns False (Some 2) True None 0, PuTurns False (Some 0) True None 0, PuLocked (PuClear True), PuWakes None 0]"

lemma pulse_demo_lawful: "list_all pulse_lawful pulse_demo_events"
  by (simp add: pulse_demo_events_def)

theorem pulse_sink_is_a_queue_witness:
  "spec_run (gc_log (pulse_run (\<lambda>_. 0) pulse_demo_events (new_pulse_sink easy_server [] 100))) empty_spec \<noteq> None"
  using pulse_sink_is_a_queue [OF pulse_demo_lawful refl, of "\<lambda>_. 0" easy_server "[]" 100] by auto

section \<open>A stream start under a waiting write\<close>

lemma pulse_configured_gain:
  assumes "pulse_configure v x rate channels bits s = (True, s', t)"
  shows "sk_generation s < sk_generation s' \<and> sk_step s' = volume_ramp_step rate \<and> sk_current s' = sk_target s'
    \<and> sk_stream s'"
proof -
  let ?s1 = "s\<lparr>sk_format := \<lparr>sample_rate = rate, channel_count = channels, bit_depth = bits\<rparr>\<rparr>"
  obtain s2 t2 where c: "pulse_close_stream ?s1 = (s2, t2)" by fastforce
  obtain error conn t3 where cn: "(if pulse_ready (pu_conn s2) then (None, pu_conn s2, [])
      else pulse_connect v PULSE_TIMEOUT_MS (pu_conn s2)) = (error, conn, t3)" by (metis prod_cases3)
  obtain ok4 s4 t4 where op: "pulse_open_stream x rate channels bits (s2\<lparr>pu_conn := conn\<rparr>) = (ok4, s4, t4)"
    by (metis prod_cases3)
  have s': "ok4" "s' = s4\<lparr>sk_recovery := reset_recovery (sk_recovery s4)\<rparr>"
    using assms cn by (auto simp: pulse_configure_def Let_def c op split: if_splits prod.splits)
  let ?f = "pulse_set_format rate channels bits (s2\<lparr>pu_conn := conn\<rparr>)"
  obtain sts where sts: "px_connect x = Some sts"
    using op s'(1) by (cases "px_connect x") (auto simp: pulse_open_stream_def Let_def split: option.splits if_splits)
  obtain st fl where aw: "await_stream (px_states x) (fold pulse_stream_state_cb sts (?f\<lparr>sk_stream := True\<rparr>))
      = ?f\<lparr>sk_stream := True, pu_state := st, pu_stream_failed := fl\<rparr>"
    by (rule pulse_open_settled)
  have "s4 = ?f\<lparr>sk_stream := True, pu_state := st, pu_stream_failed := fl, sk_failed := False\<rparr>"
    using op s'(1) sts aw by (auto simp: pulse_open_stream_def Let_def split: option.splits if_splits prod.splits)
  then show ?thesis using s'(2) c by (auto simp: pulse_set_format_def pulse_close_stream_def)
qed

text \<open>
  C22. A stream start under a waiting write is not clean. \<^verbatim>\<open>clear()\<close> says that a write waking late does no harm,
  because the next opening sets the gain again; but a write still waiting when the next stream opens wakes
  after it. It commits the end of its own ramp over the new stream's gain, and it reports the frames it had
  put into the old stream as played, at a time worked out from the latency of the new one.
\<close>

theorem waiting_write_disturbs_the_new_stream:
  assumes "gc_writer c = Waiting p" "pq_generation p \<le> sk_generation (gc_sink c)" "0 < pq_done p"
    and "pulse_configure v x rate channels bits (gc_sink c) = (True, s', t)"
    and "c' = fold (pulse_step curve) [PuLocked (PuConfigure v x rate channels bits), PuWakes (Some (latency_us, False)) now] c"
  shows "sk_current s' = sk_target s' \<and> gc_writer c' = NoWriter
    \<and> sk_current (gc_sink c') = ramped_gain (pq_start p) (pq_target p) (volume_ramp_step rate) (of_nat (pq_done p))
    \<and> gc_reports c' = gc_reports c @ [(of_nat (pq_done p), now + sint latency_us)]"
proof -
  note n = pulse_configured_gain [OF assms(4)]
  have gone: "\<not> pulse_wake p s'" using n assms(2) by (simp add: pulse_wake_def)
  let ?c1 = "pulse_step curve (PuLocked (PuConfigure v x rate channels bits)) c"
  have one: "gc_sink ?c1 = s'" "gc_writer ?c1 = Waiting p" "gc_reports ?c1 = gc_reports c"
    using assms(1,4) by (simp_all add: pulse_does_def)
  have "c' = pulse_returns (Some (latency_us, False)) now p ?c1"
    using assms(5) one gone by simp
  then show ?thesis using one n assms(3) by (simp add: pulse_returns_def pulse_write_ends_def)
qed

definition pulse_waiting :: pulse_write where
  "pulse_waiting = \<lparr>pq_source = [1, 2, 3], pq_offered = 3, pq_frames = 3, pq_frame = 1, pq_generation = 0, pq_done = 2,
     pq_start = Q32_ONE, pq_target = Q32_ONE, pq_first = False\<rparr>"

definition pulse_muted_meanwhile :: pulse_config where
  "pulse_muted_meanwhile =
     \<lparr>gc_sink = (fst (new_pulse_sink easy_server [] 100))\<lparr>sk_muted := True, sk_target := 0\<rparr>,
      gc_writer = Waiting pulse_waiting, gc_log = [], gc_calls = [], gc_reports = []\<rparr>"

theorem waiting_write_disturbs_the_new_stream_witness:
  "let c = fold (pulse_step (\<lambda>_. 0)) [PuLocked (PuConfigure easy_server easy_opening 48000 1 8), PuWakes (Some (5000, False)) 7]
       pulse_muted_meanwhile
   in sk_current (gc_sink c) = Q32_ONE \<and> gc_reports c = [(2, 5007)]"
proof -
  have "fst (pulse_configure easy_server easy_opening 48000 1 8 (gc_sink pulse_muted_meanwhile))" by code_simp
  then obtain s' t where conf: "pulse_configure easy_server easy_opening 48000 1 8 (gc_sink pulse_muted_meanwhile) = (True, s', t)"
    by (cases "pulse_configure easy_server easy_opening 48000 1 8 (gc_sink pulse_muted_meanwhile)") simp
  have w: "gc_writer pulse_muted_meanwhile = Waiting pulse_waiting" by (simp add: pulse_muted_meanwhile_def)
  have g: "pq_generation pulse_waiting \<le> sk_generation (gc_sink pulse_muted_meanwhile)" "0 < pq_done pulse_waiting"
    by (simp_all add: pulse_waiting_def)
  show ?thesis
    using waiting_write_disturbs_the_new_stream [OF w g conf refl, of "\<lambda>_. 0" 5000 7]
    by (simp add: pulse_waiting_def pulse_muted_meanwhile_def Let_def)
qed

section \<open>The connection and the stream\<close>

fun pulse_makes :: "pulse_call \<Rightarrow> bool" where
  "pulse_makes (PlLoopNew _) = True"
| "pulse_makes (PlContextNew _) = True"
| "pulse_makes (PlStreamNew _ _) = True"
| "pulse_makes _ = False"

text \<open>Once shutdown has begun.\<close>

lemma pulse_close_makes: "pulse_close_stream s = (s', t) \<Longrightarrow> sk_stopping s' = sk_stopping s \<and> \<not> list_ex pulse_makes t"
  by (auto simp: pulse_close_stream_def split: if_splits)

lemma pulse_op_stopping:
  assumes "sk_stopping s" "pulse_sink_op curve op s = (s', t)"
  shows "sk_stopping s' \<and> \<not> list_ex pulse_makes t"
  using assms
  by (cases op) (auto simp: pulse_configure_def pulse_clear_def pulse_stop_latch_def pulse_stop_def pulse_poll_def
      pulse_set_volume_def pulse_set_muted_def pulse_update_target_def pulse_stream_state_cb_def Let_def
      dest!: pulse_close_makes split: if_splits)

lemma pulse_begins_stopping:
  "sk_stopping s \<Longrightarrow> pulse_write_begins x data s = (answer, s', t) \<Longrightarrow> sk_stopping s' \<and> \<not> list_ex pulse_makes t"
  by (auto simp: pulse_write_begins_def pulse_reopen_in_place_def Let_def split: if_splits)

lemma pulse_step_stopping:
  assumes "sk_stopping (gc_sink c)"
  shows "sk_stopping (gc_sink (pulse_step curve ev c))
    \<and> (\<exists>t. gc_calls (pulse_step curve ev c) = gc_calls c @ t \<and> \<not> list_ex pulse_makes t)"
proof (cases ev)
  case (PuLocked op)
  obtain s' t where "pulse_sink_op curve op (gc_sink c) = (s', t)" by fastforce
  with pulse_op_stopping [OF assms this] show ?thesis using assms PuLocked
    by (cases "gc_writer c") (auto simp: pulse_does_def)
next
  case (PuUnlocked op)
  obtain s' t where "pulse_sink_op curve op (gc_sink c) = (s', t)" by fastforce
  with pulse_op_stopping [OF assms this] show ?thesis using assms PuUnlocked by (auto simp: pulse_does_def)
next
  case (PuBegins x data)
  obtain answer s' t where b: "pulse_write_begins x data (gc_sink c) = (answer, s', t)" by (metis prod_cases3)
  with pulse_begins_stopping [OF assms this] show ?thesis using assms PuBegins
    by (cases "gc_writer c"; cases answer) (auto simp: pulse_does_def Let_def)
next
  case (PuTurns late writable takes latency now)
  then show ?thesis using assms
    by (cases "gc_writer c")
       (auto simp: pulse_write_turn_def pulse_returns_def pulse_write_ends_def Let_def split: if_splits option.splits)
next
  case (PuWakes latency now)
  then show ?thesis using assms by (cases "gc_writer c") (auto simp: pulse_returns_def pulse_write_ends_def)
qed

lemma pulse_steps_stopping:
  "sk_stopping (gc_sink c) \<Longrightarrow> \<exists>t. gc_calls (fold (pulse_step curve) evs c) = gc_calls c @ t \<and> \<not> list_ex pulse_makes t"
proof (induction evs arbitrary: c)
  case (Cons ev evs)
  note step = pulse_step_stopping [OF Cons.prems, of curve ev]
  from Cons.IH [of "pulse_step curve ev c"] step show ?case by fastforce
qed simp

lemma pulse_destroyed:
  assumes "pulse_inv s"
  shows "pulse_lib (snd (pulse_destroy s)) (pulse_held s) = Some nothing_held"
proof -
  obtain s1 t where c: "pulse_close_stream (pulse_stop_latch s) = (s1, t)" by fastforce
  have "pulse_keeps s t s1 \<and> \<not> sk_stream s1" using pulse_closed [OF _ c] assms by (simp add: pulse_stop_latch_def)
  moreover obtain conn t' where d: "pulse_disconnect (pu_conn s1) = (conn, t')" by fastforce
  ultimately show ?thesis using conn_undone [of "pu_conn s1"]
    by (simp add: pulse_destroy_def c pulse_keeps_def pulse_lib_append pulse_inv_def pulse_held_def conn_held_def nothing_held_def)
qed

text \<open>
  C20. The server is left as it was found. Over any life of the sink libpulse is called by its rules - a context
  watched before it connects and taken down with its mainloop stopped, a stream only on a running mainloop
  and its callbacks cleared before it goes, every operation given back - and the end of the sink gives back
  everything; once shutdown has begun no mainloop, context or stream is ever made again.
\<close>

theorem pulse_is_left_as_found:
  assumes "list_all pulse_lawful evs" "list_all pulse_lawful later"
    and "c = pulse_run curve evs (new_pulse_sink v spec buffer_ms)"
    and "c' = fold (pulse_step curve) (PuUnlocked PuStopLatch # later) c"
  shows "pulse_lib (gc_calls c' @ snd (pulse_destroy (gc_sink c'))) nothing_held = Some nothing_held
    \<and> (\<exists>t. gc_calls c' = gc_calls c @ t \<and> \<not> list_ex pulse_makes t)"
proof -
  have "pulse_config_ok c" unfolding assms(3) by (rule pulse_run_ok [OF assms(1)])
  then have ok: "pulse_config_ok c'" unfolding assms(4) using assms(2) by (intro pulse_steps_ok) simp_all
  let ?c1 = "pulse_step curve (PuUnlocked PuStopLatch) c"
  have stop: "sk_stopping (gc_sink ?c1)" "gc_calls ?c1 = gc_calls c"
    by (simp_all add: pulse_takes_no_lock_def pulse_does_def pulse_stop_latch_def)
  have "c' = fold (pulse_step curve) later ?c1" using assms(4) by simp
  then show ?thesis using pulse_steps_stopping [OF stop(1), of curve later] stop(2) ok pulse_destroyed [of "gc_sink c'"]
    by (simp add: pulse_lib_append pulse_config_ok_def)
qed

theorem pulse_is_left_as_found_witness:
  "let c = fold (pulse_step (\<lambda>_. 0)) [PuUnlocked PuStopLatch, PuLocked PuStop]
       (pulse_run (\<lambda>_. 0) pulse_demo_events (new_pulse_sink easy_server [] 100))
   in pulse_lib (gc_calls c @ snd (pulse_destroy (gc_sink c))) nothing_held = Some nothing_held"
  using pulse_is_left_as_found [OF pulse_demo_lawful _ refl refl, of "[PuLocked PuStop]" "\<lambda>_. 0" easy_server "[]" 100]
  by (simp add: Let_def del: fold.simps fold_Cons)

end
