(* ===== verification/LogFile.thy ===== *)
theory LogFile
  imports CliOptions
begin

text \<open>
  \<^verbatim>\<open>src/src/log.cpp\<close>: the lines of the log, the level that gates them, and the file \<^verbatim>\<open>-f\<close> points descriptor 2
  at. The file system is a set of names for files, so that a rotation can move the file under its name;
  what the system calls answer, the time and the formatted message are inputs.
\<close>

section \<open>Definitions\<close>

text \<open>The levels, from the quietest setting up.\<close>

instantiation log_level :: linorder
begin

definition level_rank :: "log_level \<Rightarrow> nat" where
  "level_rank l = (case l of LogNone \<Rightarrow> 0 | LogError \<Rightarrow> 1 | LogWarn \<Rightarrow> 2 | LogInfo \<Rightarrow> 3 | LogDebug \<Rightarrow> 4 | LogVerbose \<Rightarrow> 5)"

definition less_eq_log_level :: "log_level \<Rightarrow> log_level \<Rightarrow> bool" where
  "less_eq_log_level a b \<longleftrightarrow> level_rank a \<le> level_rank b"

definition less_log_level :: "log_level \<Rightarrow> log_level \<Rightarrow> bool" where
  "less_log_level a b \<longleftrightarrow> level_rank a < level_rank b"

instance
  by standard (auto simp: less_eq_log_level_def less_log_level_def level_rank_def split: log_level.splits)

end

definition INLINE_MESSAGE_BYTES :: nat where "INLINE_MESSAGE_BYTES = 512"

definition STAMP_BYTES :: nat where "STAMP_BYTES = 32"

definition level_letter :: "log_level \<Rightarrow> char" where
  "level_letter l = (case l of LogError \<Rightarrow> CHR ''E'' | LogWarn \<Rightarrow> CHR ''W'' | LogInfo \<Rightarrow> CHR ''I''
     | LogDebug \<Rightarrow> CHR ''D'' | LogVerbose \<Rightarrow> CHR ''V'' | LogNone \<Rightarrow> CHR ''?'')"

record utc_time =
  ut_year :: nat
  ut_month :: nat
  ut_day :: nat
  ut_hour :: nat
  ut_minute :: nat
  ut_second :: nat

definition two :: "nat \<Rightarrow> string" where
  "two n = (if n < 10 then ''0'' @ to_string n else to_string n)"

text \<open>The logger's own variables: the path \<^verbatim>\<open>-f\<close> named, the request a SIGHUP leaves, and the level.\<close>

record logger =
  lr_logfile :: string
  lr_requested :: bool
  lr_level :: log_level

text \<open>\<^verbatim>\<open>strftime\<close> fails, and the stamp stays empty, when the text and its end do not fit.\<close>

definition write_timestamp :: "utc_time option \<Rightarrow> logger \<Rightarrow> string" where
  "write_timestamp now r =
     (if lr_logfile r = [] then []
      else case now of
        None \<Rightarrow> []
      | Some u \<Rightarrow>
          (let t = to_string (ut_year u) @ ''-'' @ two (ut_month u) @ ''-'' @ two (ut_day u) @ ''T'' @ two (ut_hour u)
               @ '':'' @ two (ut_minute u) @ '':'' @ two (ut_second u) @ ''Z ''
           in if length t + 1 \<le> STAMP_BYTES then t else []))"

text \<open>\<^verbatim>\<open>vsnprintf\<close> into so many bytes, its end included.\<close>

definition bounded_print :: "nat \<Rightarrow> string \<Rightarrow> string" where
  "bounded_print room m = take (room - 1) m"

text \<open>The message: formatted in place when it fits, again in a buffer of its own size when it does not.\<close>

definition log_message :: "string option \<Rightarrow> string" where
  "log_message formatted =
     (case formatted of
        None \<Rightarrow> ''(this log line could not be formatted)''
      | Some m \<Rightarrow>
          (let needed = length m
           in if INLINE_MESSAGE_BYTES \<le> needed then bounded_print (needed + 1) m else bounded_print INLINE_MESSAGE_BYTES m))"

text \<open>A place descriptor 2 points at: where it pointed at the start, or a file.\<close>

datatype log_dest = OldStderr | LogTo nat

record log_world =
  lw_names :: "string \<rightharpoonup> nat"
  lw_next :: nat
  lw_texts :: "log_dest \<Rightarrow> string"
  lw_fd2 :: log_dest
  lw_descriptors :: nat

type_synonym log_out = "(log_dest \<times> string) list"

definition put_line :: "string \<Rightarrow> log_world \<Rightarrow> log_world \<times> log_out" where
  "put_line line w = (w\<lparr>lw_texts := (lw_texts w)(lw_fd2 w := lw_texts w (lw_fd2 w) @ line)\<rparr>, [(lw_fd2 w, line)])"

definition log_text :: "log_level \<Rightarrow> string \<Rightarrow> string option \<Rightarrow> utc_time option \<Rightarrow> logger \<Rightarrow> string" where
  "log_text level tag formatted now r =
     write_timestamp now r @ [level_letter level] @ '' '' @ tag @ '': '' @ log_message formatted @ [NL]"

definition log_emit ::
  "log_level \<Rightarrow> string \<Rightarrow> string option \<Rightarrow> utc_time option \<Rightarrow> logger \<Rightarrow> log_world \<Rightarrow> log_world \<times> log_out"
where
  "log_emit level tag formatted now r w = put_line (log_text level tag formatted now r) w"

definition log_line ::
  "log_level \<Rightarrow> string \<Rightarrow> string option \<Rightarrow> utc_time option \<Rightarrow> logger \<Rightarrow> log_world \<Rightarrow> log_world \<times> log_out"
where
  "log_line level tag formatted now r w =
     (if lr_level r < level then (w, []) else log_emit level tag formatted now r w)"

definition log_fatal ::
  "string \<Rightarrow> string option \<Rightarrow> utc_time option \<Rightarrow> logger \<Rightarrow> log_world \<Rightarrow> log_world \<times> log_out"
where
  "log_fatal tag formatted now r w = log_emit LogError tag formatted now r w"

text \<open>\<^verbatim>\<open>open()\<close> for appending, which makes the file when the name has none.\<close>

definition open_append :: "string \<Rightarrow> log_world \<Rightarrow> nat \<times> log_world" where
  "open_append path w =
     (case lw_names w path of
        Some i \<Rightarrow> (i, w\<lparr>lw_descriptors := lw_descriptors w + 1\<rparr>)
      | None \<Rightarrow> (lw_next w, w\<lparr>lw_names := (lw_names w)(path \<mapsto> lw_next w), lw_next := lw_next w + 1,
                        lw_descriptors := lw_descriptors w + 1\<rparr>))"

definition close_fd :: "log_world \<Rightarrow> log_world" where
  "close_fd w = w\<lparr>lw_descriptors := lw_descriptors w - 1\<rparr>"

definition point_stderr_at :: "bool \<Rightarrow> bool \<Rightarrow> string \<Rightarrow> log_world \<Rightarrow> bool \<times> log_world" where
  "point_stderr_at opens dups path w =
     (if \<not> opens then (False, w)
      else
        (let (fd, w1) = open_append path w;
             w2 = (if dups then w1\<lparr>lw_fd2 := LogTo fd\<rparr> else w1)
         in (dups, close_fd w2)))"

definition log_to_file :: "bool \<Rightarrow> bool \<Rightarrow> string \<Rightarrow> string \<Rightarrow> logger \<Rightarrow> log_world \<Rightarrow> bool \<times> logger \<times> log_world \<times> log_out" where
  "log_to_file opens dups reason path r w =
     (case point_stderr_at opens dups path w of
        (True, w1) \<Rightarrow> (True, r\<lparr>lr_logfile := path\<rparr>, w1, [])
      | (False, w1) \<Rightarrow>
          (case put_line (''error: cannot open logfile '' @ path @ '': '' @ reason @ [NL]) w1 of
             (w2, out) \<Rightarrow> (False, r, w2, out)))"

definition log_handle_sighup :: "logger \<Rightarrow> logger" where
  "log_handle_sighup r = r\<lparr>lr_requested := True\<rparr>"

definition reopened_message :: "logger \<Rightarrow> string" where
  "reopened_message r = ''Reopened '' @ lr_logfile r @ '' on SIGHUP''"

definition not_reopened_message :: "string \<Rightarrow> logger \<Rightarrow> string" where
  "not_reopened_message reason r =
     ''cannot reopen '' @ lr_logfile r @ '' on SIGHUP, still logging to the previous file: '' @ reason"

definition log_reopen_if_requested ::
  "bool \<Rightarrow> bool \<Rightarrow> string \<Rightarrow> utc_time option \<Rightarrow> logger \<Rightarrow> log_world \<Rightarrow> logger \<times> log_world \<times> log_out"
where
  "log_reopen_if_requested opens dups reason now r w =
     (if \<not> lr_requested r then (r, w, [])
      else
        (let r1 = r\<lparr>lr_requested := False\<rparr> in
         if lr_logfile r1 = [] then (r1, w, [])
         else case point_stderr_at opens dups (lr_logfile r1) w of
           (True, w1) \<Rightarrow> (r1, log_line LogInfo ''cli'' (Some (reopened_message r1)) now r1 w1)
         | (False, w1) \<Rightarrow> (r1, log_fatal ''cli'' (Some (not_reopened_message reason r1)) now r1 w1)))"

section \<open>A run of the log\<close>

text \<open>
  A line of the player, a fatal one, a SIGHUP, a turn of the main loop (what the reopening meets), and what
  the host does to the names: a rename, which takes the file along.
\<close>

datatype log_event =
  LogLine log_level string "string option" "utc_time option"
| LogFatal string "string option" "utc_time option"
| Sighup
| LoopTurn bool bool string "utc_time option"
| Renamed string string

definition rename_file :: "string \<Rightarrow> string \<Rightarrow> log_world \<Rightarrow> log_world" where
  "rename_file a b w = (if lw_names w a = None \<or> a = b then w
     else w\<lparr>lw_names := (lw_names w)(b := lw_names w a, a := None)\<rparr>)"

fun log_step :: "log_event \<Rightarrow> logger \<times> log_world \<Rightarrow> (logger \<times> log_world) \<times> log_out" where
  "log_step (LogLine level tag m now) (r, w) = (case log_line level tag m now r w of (w', out) \<Rightarrow> ((r, w'), out))"
| "log_step (LogFatal tag m now) (r, w) = (case log_fatal tag m now r w of (w', out) \<Rightarrow> ((r, w'), out))"
| "log_step Sighup (r, w) = ((log_handle_sighup r, w), [])"
| "log_step (LoopTurn opens dups reason now) (r, w) =
     (case log_reopen_if_requested opens dups reason now r w of (r', w', out) \<Rightarrow> ((r', w'), out))"
| "log_step (Renamed a b) (r, w) = ((r, rename_file a b w), [])"

fun log_run :: "log_event list \<Rightarrow> logger \<times> log_world \<Rightarrow> (logger \<times> log_world) \<times> log_out" where
  "log_run [] s = (s, [])"
| "log_run (e # es) s =
     (case log_step e s of (s1, out) \<Rightarrow> (case log_run es s1 of (s2, out') \<Rightarrow> (s2, out @ out')))"

section \<open>No line is lost\<close>

text \<open>The lines the events call for, wherever they go.\<close>

fun lines_due :: "log_event list \<Rightarrow> logger \<Rightarrow> string list" where
  "lines_due [] r = []"
| "lines_due (LogLine level tag m now # es) r =
     (if level \<le> lr_level r then [log_text level tag m now r] else []) @ lines_due es r"
| "lines_due (LogFatal tag m now # es) r = log_text LogError tag m now r # lines_due es r"
| "lines_due (Sighup # es) r = lines_due es (r\<lparr>lr_requested := True\<rparr>)"
| "lines_due (LoopTurn opens dups reason now # es) r =
     (if lr_requested r \<and> lr_logfile r \<noteq> []
      then (if opens \<and> dups
            then (if LogInfo \<le> lr_level r then [log_text LogInfo ''cli'' (Some (reopened_message r)) now r] else [])
            else [log_text LogError ''cli'' (Some (not_reopened_message reason r)) now r])
      else []) @ lines_due es (r\<lparr>lr_requested := False\<rparr>)"
| "lines_due (Renamed a b # es) r = lines_due es r"

lemma log_message_whole [simp]: "log_message (Some m) = m"
  by (simp add: log_message_def bounded_print_def INLINE_MESSAGE_BYTES_def Let_def)

text \<open>What a step leaves: each place has what it had and the lines sent to it, and no descriptor is left open.\<close>

definition accounted :: "log_world \<Rightarrow> log_out \<Rightarrow> log_world \<Rightarrow> bool" where
  "accounted w out w' \<longleftrightarrow> lw_descriptors w' = lw_descriptors w
     \<and> (\<forall>d. lw_texts w' d = lw_texts w d @ concat (map snd (filter (\<lambda>x. fst x = d) out)))"

lemma accounted_refl [simp]: "accounted w [] w"
  by (simp add: accounted_def)

lemma accounted_trans: "accounted w xs u \<Longrightarrow> accounted u ys v \<Longrightarrow> accounted w (xs @ ys) v"
  by (simp add: accounted_def)

lemma put_line_accounted:
  "put_line line w = (w', out) \<Longrightarrow> accounted w out w' \<and> map snd out = [line] \<and> lw_names w' = lw_names w
     \<and> lw_fd2 w' = lw_fd2 w \<and> out = [(lw_fd2 w, line)]"
  by (auto simp: put_line_def accounted_def)

lemma point_accounted:
  "point_stderr_at opens dups path w = (ok, w') \<Longrightarrow> accounted w [] w' \<and> ok = (opens \<and> dups)
     \<and> (if ok then \<exists>i. lw_fd2 w' = LogTo i \<and> lw_names w' path = Some i else lw_fd2 w' = lw_fd2 w)"
  by (auto simp: point_stderr_at_def open_append_def close_fd_def accounted_def Let_def split: if_splits option.splits)

lemma log_line_accounted:
  "log_line level tag m now r w = (w', out) \<Longrightarrow> accounted w out w' \<and> lw_fd2 w' = lw_fd2 w \<and> lw_names w' = lw_names w
     \<and> map snd out = (if level \<le> lr_level r then [log_text level tag m now r] else [])"
  using put_line_accounted by (fastforce simp: log_line_def log_emit_def split: if_splits)

lemma log_fatal_accounted:
  "log_fatal tag m now r w = (w', out) \<Longrightarrow> accounted w out w' \<and> lw_fd2 w' = lw_fd2 w \<and> lw_names w' = lw_names w
     \<and> out = [(lw_fd2 w, log_text LogError tag m now r)]"
  using put_line_accounted by (fastforce simp: log_fatal_def log_emit_def)

lemma log_step_accounted:
  assumes "log_step e (r, w) = ((r', w'), out)"
  shows "accounted w out w' \<and> lines_due (e # es) r = map snd out @ lines_due es r'"
proof (cases e)
  case (LogLine level tag m now)
  then show ?thesis using assms log_line_accounted [of level tag m now r w] by (auto split: prod.splits)
next
  case (LogFatal tag m now)
  then show ?thesis using assms log_fatal_accounted [of tag m now r w] by (fastforce split: prod.splits)
next
  case Sighup
  then show ?thesis using assms by (auto simp: log_handle_sighup_def)
next
  case (Renamed a b)
  then show ?thesis using assms by (auto simp: rename_file_def accounted_def)
next
  case (LoopTurn opens dups reason now)
  let ?r = "r\<lparr>lr_requested := False\<rparr>"
  obtain ok w1 where p: "point_stderr_at opens dups (lr_logfile r) w = (ok, w1)" by fastforce
  note pa = point_accounted [OF p]
  obtain w2 o2 where l: "log_line LogInfo ''cli'' (Some (reopened_message ?r)) now ?r w1 = (w2, o2)" by fastforce
  obtain w3 o3 where f: "log_fatal ''cli'' (Some (not_reopened_message reason ?r)) now ?r w1 = (w3, o3)" by fastforce
  have t: "log_text lv tg m n ?r = log_text lv tg m n r" for lv tg m n by (simp add: log_text_def write_timestamp_def)
  have m: "reopened_message ?r = reopened_message r" "not_reopened_message reason ?r = not_reopened_message reason r"
    by (simp_all add: reopened_message_def not_reopened_message_def)
  note la = log_line_accounted [OF l] and fa = log_fatal_accounted [OF f]
  have one: "accounted w o2 w2" "accounted w o3 w3"
    using accounted_trans [OF conjunct1 [OF pa] conjunct1 [OF la]] accounted_trans [OF conjunct1 [OF pa] conjunct1 [OF fa]]
    by simp_all
  show ?thesis
  proof (cases "lr_requested r \<and> lr_logfile r \<noteq> []")
    case True
    then have "(r', w', out) = (if ok then (?r, w2, o2) else (?r, w3, o3))"
      using assms LoopTurn p l f by (auto simp: log_reopen_if_requested_def split: if_splits)
    then show ?thesis using LoopTurn True one pa la fa
      by (cases opens; cases dups) (simp_all add: t m)
  next
    case False
    have same: "\<not> lr_requested q \<Longrightarrow> q\<lparr>lr_requested := False\<rparr> = q" for q :: logger by (cases q) simp
    from False show ?thesis using assms LoopTurn
      by (auto simp: log_reopen_if_requested_def same split: if_splits)
  qed
qed

lemma log_run_accounted:
  "log_run es (r, w) = ((r', w'), out) \<Longrightarrow> accounted w out w' \<and> map snd out = lines_due es r"
proof (induction es arbitrary: r w out)
  case (Cons e es)
  obtain r1 w1 o1 where s1: "log_step e (r, w) = ((r1, w1), o1)" by (metis prod_cases3 surj_pair)
  obtain o2 where s2: "log_run es (r1, w1) = ((r', w'), o2)" "out = o1 @ o2"
    using Cons.prems s1 by (auto split: prod.splits)
  show ?case using Cons.IH [OF s2(1)] log_step_accounted [OF s1, of es] s2(2) accounted_trans by fastforce
qed simp

text \<open>
  C32. Rotation loses no line. Whatever the order of lines, renames of the log under its name, SIGHUPs and turns
  of the main loop, and whatever the reopening meets, every line due is written once, whole, and in order,
  each place holding what it held and the lines sent to it; and no descriptor is left over. The turn after a
  SIGHUP moves the log to the file its path then names, or says in the old file that it could not.
\<close>

theorem rotation_loses_no_line:
  assumes "log_run evs (r, w) = ((r1, w1), out)"
  shows "lw_descriptors w1 = lw_descriptors w \<and> map snd out = lines_due evs r
    \<and> (\<forall>d. lw_texts w1 d = lw_texts w d @ concat (map snd (filter (\<lambda>x. fst x = d) out)))
    \<and> (lr_requested r1 \<and> lr_logfile r1 \<noteq> [] \<longrightarrow>
        (case log_step (LoopTurn opens dups reason now) (r1, w1) of
           ((r2, w2), out2) \<Rightarrow> \<not> lr_requested r2 \<and>
             (if opens \<and> dups then \<exists>i. lw_fd2 w2 = LogTo i \<and> lw_names w2 (lr_logfile r1) = Some i
              else lw_fd2 w2 = lw_fd2 w1
                \<and> out2 = [(lw_fd2 w1, log_text LogError ''cli'' (Some (not_reopened_message reason r1)) now r1)])))"
proof -
  let ?r = "r1\<lparr>lr_requested := False\<rparr>"
  obtain ok u where p: "point_stderr_at opens dups (lr_logfile r1) w1 = (ok, u)" by fastforce
  note pa = point_accounted [OF p]
  obtain w2 o2 where l: "log_line LogInfo ''cli'' (Some (reopened_message ?r)) now ?r u = (w2, o2)" by fastforce
  obtain w3 o3 where f: "log_fatal ''cli'' (Some (not_reopened_message reason ?r)) now ?r u = (w3, o3)" by fastforce
  have t: "log_text LogError ''cli'' (Some (not_reopened_message reason ?r)) now ?r
      = log_text LogError ''cli'' (Some (not_reopened_message reason r1)) now r1"
    by (simp add: log_text_def write_timestamp_def not_reopened_message_def)
  note la = log_line_accounted [OF l] and fa = log_fatal_accounted [OF f]
  have "lr_requested r1 \<Longrightarrow> lr_logfile r1 \<noteq> [] \<Longrightarrow>
      log_step (LoopTurn opens dups reason now) (r1, w1) = (if ok then ((?r, w2), o2) else ((?r, w3), o3))"
    by (simp add: log_reopen_if_requested_def p l f)
  then show ?thesis using log_run_accounted [OF assms] pa la fa t by (auto simp: accounted_def)
qed

definition fresh_log_world :: log_world where
  "fresh_log_world = \<lparr>lw_names = Map.empty, lw_next = 0, lw_texts = (\<lambda>_. []), lw_fd2 = OldStderr, lw_descriptors = 3\<rparr>"

theorem rotation_loses_no_line_witness:
  "\<exists>r w out. log_run [LogLine LogInfo ''cli'' (Some ''one'') None, Renamed ''log'' ''log.1'', Sighup]
      (fst (snd (log_to_file True True [] ''log'' \<lparr>lr_logfile = [], lr_requested = False, lr_level = LogInfo\<rparr> fresh_log_world)),
       fst (snd (snd (log_to_file True True [] ''log'' \<lparr>lr_logfile = [], lr_requested = False, lr_level = LogInfo\<rparr> fresh_log_world))))
      = ((r, w), out) \<and> lr_requested r \<and> length out = 1
    \<and> (\<exists>i. lw_fd2 (snd (fst (log_step (LoopTurn True True [] None) (r, w)))) = LogTo i)"
proof -
  let ?s = "log_to_file True True [] ''log'' \<lparr>lr_logfile = [], lr_requested = False, lr_level = LogInfo\<rparr> fresh_log_world"
  let ?evs = "[LogLine LogInfo ''cli'' (Some ''one'') None, Renamed ''log'' ''log.1'', Sighup]"
  obtain r w out where run: "log_run ?evs (fst (snd ?s), fst (snd (snd ?s))) = ((r, w), out)"
    by (metis prod_cases3 surj_pair)
  have r: "lr_requested r" "lr_logfile r = ''log''" "length out = 1"
    using run by (auto simp: log_to_file_def point_stderr_at_def open_append_def close_fd_def fresh_log_world_def
        log_handle_sighup_def log_line_def log_emit_def put_line_def less_log_level_def level_rank_def Let_def
        split: if_splits)
  show ?thesis using rotation_loses_no_line [OF run, of True True "[]" None] run r
    by (fastforce split: prod.splits)
qed

end
