(* ===== verification/MainTypes.thy ===== *)
theory MainTypes
  imports CliParse LogFile ControlOpen Listener OutboundMode StreamHooks MdnsService SupportedFormats AlsaSource
begin

text \<open>
  The types of the run of \<^verbatim>\<open>main()\<close> (\<^verbatim>\<open>src/src/main.cpp\<close>, theory \<open>MainRun\<close>): what the library is configured
  with, what main does - its acts, its locals - and what the host and the libraries answer it.
\<close>

section \<open>Definitions\<close>

definition MDNS_SERVER_SERVICE :: string where "MDNS_SERVER_SERVICE = ''_sendspin-server._tcp''"

definition dquoted :: "string \<Rightarrow> string" where
  "dquoted s = [CHR 0x22] @ s @ [CHR 0x22]"

fun control_status_code :: "control_status \<Rightarrow> int" where
  "control_status_code StatusOk = 0"
| "control_status_code Usage = 2"
| "control_status_code NoDaemon = 3"
| "control_status_code NotConnected = 4"
| "control_status_code Unsupported = 5"
| "control_status_code Failed = 6"

text \<open>What the library is configured with.\<close>

record client_config =
  cf_client_id :: string
  cf_name :: string
  cf_product_name :: string
  cf_manufacturer :: string
  cf_software_version :: string
  cf_server_port :: u16
  cf_enable_security :: bool
  cf_unpaired_access :: bool

record source_config =
  sf_format :: supported_format
  sf_line_sense :: bool
  sf_spec_hyphen :: bool

record player_config =
  pf_formats :: "supported_format list"
  pf_fixed_delay_us :: int
  pf_initial_static_delay_ms :: u16

definition client_config_of :: "string \<Rightarrow> options \<Rightarrow> client_config" where
  "client_config_of version opts =
     \<lparr>cf_client_id = op_client_id opts, cf_name = op_name opts, cf_product_name = op_product_name opts,
      cf_manufacturer = op_manufacturer opts, cf_software_version = version, cf_server_port = op_port opts,
      cf_enable_security = True, cf_unpaired_access = op_player_enabled opts\<rparr>"

definition source_config_of :: "options \<Rightarrow> source_config" where
  "source_config_of opts =
     \<lparr>sf_format = \<lparr>fmt_codec = PCM, fmt_channels = 2, fmt_rate = 48000, fmt_depth = 16\<rparr>,
      sf_line_sense = op_line_sense opts, sf_spec_hyphen = (op_source_stream_style opts = ''spec'')\<rparr>"

definition player_config_of :: "supported_format list \<Rightarrow> options \<Rightarrow> player_config" where
  "player_config_of formats opts =
     \<lparr>pf_formats = formats, pf_fixed_delay_us = 0, pf_initial_static_delay_ms = op_static_delay_ms opts\<rparr>"

text \<open>The locals of \<^verbatim>\<open>main\<close> with a destructor, and what \<^verbatim>\<open>main\<close> does.\<close>

datatype main_object =
  ThePidFile | TheControlSocket | TheSink | TheStore | ThePersistence | TheClient | TheCapture
| TheListener | TheMetadataLogger | TheNetwork | TheMdns | TheDispatcher | TheOutbound | TheHooks

datatype main_page = PageUsage | PageVersion | PageDevices

text \<open>The steps of the loop and of the shutdown.\<close>

datatype main_step =
  HooksWired | ClientLooped | CapturePolled | MdnsPolled | ControlPolled | OutboundTicked
| SinkPolled | HooksPolled | ReopenChecked | Slept | MdnsStopped | SocketClosed
| CaptureStopped | Disconnected | HooksFlushed | HooksUnwired | SinkStopped

datatype main_act =
  Print main_page
| StderrLine string
| Asked client_result
| PidProbed pid_file_status
| SocketProbed control_socket_status
| LogOpened bool
| LevelSet log_level
| Said log_level string string
| SaidFatal string string
| Forked daemon_result
| SignalsSet bool
| Construct main_object
| PidTaken pid_file_status
| SocketOpened bool bool
| SinkMade audio_sink_object
| ClientMade client_config
| PersistenceSet
| AddedPlayer player_config
| AddedSource source_config
| CaptureStarted
| DelayAdjustable
| AddedMetadata
| AddedController
| ListenersSet
| NetworkSet
| Restored u8 bool
| VolumeReported u8 bool
| ServerStarted bool
| AdvertiseAsked bool
| BrowseAsked bool
| Step main_step
| Destroy main_object
| Exited int
| Aborted

record main_world =
  mw_host :: cli_host
  mw_argv :: "string list"
  mw_version :: string
  mw_backend_name :: string
  mw_client :: client_calls
  mw_pid_probe :: "string option \<times> flock_answer"
  mw_socket_probe :: open_calls
  mw_log :: "logger \<times> log_world"
  mw_log_open :: "bool \<times> bool \<times> string"
  mw_daemon :: daemon_calls
  mw_streams :: "nat \<rightharpoonup> stream"
  mw_pid :: nat
  mw_pid_calls :: pid_calls
  mw_socket :: open_calls
  mw_probe :: "sink_backend \<Rightarrow> string \<Rightarrow> string option"
  mw_sink_name :: "audio_sink_object \<Rightarrow> string"
  mw_capabilities :: "audio_sink_object \<Rightarrow> sink_capabilities"
  mw_starts :: bool
  mw_pairing_token :: string
  mw_advertise :: "bool \<times> string"
  mw_browse :: "bool \<times> string"
  mw_turns :: nat
  mw_events :: "loop_event list"
  mw_pumps :: "loop_event list list"
  mw_capture :: "source_event list"

text \<open>
  Of the answers, \<open>mw_capture\<close> is what becomes of the capture thread on its own: the device is refused,
  or lost, or (the empty list) it captures until it is stopped.

  A stage: what it does, and the value it returns from \<^verbatim>\<open>main\<close> or what it hands on.\<close>

type_synonym 'a stage = "main_act list \<times> (int + 'a)"

definition and_then :: "'a stage \<Rightarrow> ('a \<Rightarrow> 'b stage) \<Rightarrow> 'b stage" where
  "and_then m k =
     (case m of
        (t, Inl code) \<Rightarrow> (t, Inl code)
      | (t, Inr x) \<Rightarrow> (t @ fst (k x), snd (k x)))"

definition doing :: "main_act list \<Rightarrow> 'a \<Rightarrow> 'a stage" where "doing t x = (t, Inr x)"
definition returns :: "main_act list \<Rightarrow> int \<Rightarrow> 'a stage" where "returns t code = (t, Inl code)"

end
