(* ===== verification/MainRun.thy ===== *)
theory MainRun
  imports MainTypes
begin

text \<open>
  \<^verbatim>\<open>main()\<close> of \<^verbatim>\<open>src/src/main.cpp\<close> from the command line to the exit: every stage with its early returns,
  composed of the models of what it calls, the loop, the shutdown and the destruction
  of its locals, which a refused capture cuts short. What
  main does is a trace of acts; what the host and the libraries answer is the record \<open>main_world\<close>.
\<close>

section \<open>Before the fork\<close>

definition options_stage :: "main_world \<Rightarrow> options stage" where
  "options_stage w =
     (let (ok, opts, err) = parse_options (mw_host w) (mw_argv w) (default_options (mw_host w));
          said = map StderrLine err
      in if \<not> ok then returns (said @ [StderrLine (''Try '' @ quoted (hd (mw_argv w) @ '' --help'') @ '' for the full flag list.'')]) 1
         else if op_show_help opts then returns (said @ [Print PageUsage]) 0
         else if op_show_version opts then returns (said @ [Print PageVersion]) 0
         else if op_list_devices opts then returns (said @ [Print PageDevices]) 0
         else doing said opts)"

definition subcommand_stage :: "main_world \<Rightarrow> options \<Rightarrow> unit stage" where
  "subcommand_stage w opts =
     (if op_subcommand opts = [] then doing [] ()
      else case parse_control_request (op_subcommand opts) (op_subcommand_args opts) of
        Inl error \<Rightarrow> returns [StderrLine (''error: '' @ error)] (control_status_code Usage)
      | Inr request \<Rightarrow>
          (let r = run_control_subcommand (mw_client w) request (op_control_socket opts) (op_control_absent_reason opts)
           in returns [Asked r] (control_status_code (cr_status r))))"

definition pidfile_probe_stage :: "main_world \<Rightarrow> options \<Rightarrow> unit stage" where
  "pidfile_probe_stage w opts =
     (if op_daemonize opts \<and> op_pidfile opts \<noteq> [] then
        (let (status, error, _) = probe_pidfile (fst (mw_pid_probe w)) (snd (mw_pid_probe w)) (op_pidfile opts)
         in if status \<noteq> PidOk then returns [PidProbed status, StderrLine (''error: '' @ error)] 1
            else doing [PidProbed status] ())
      else doing [] ())"

definition socket_limit :: "main_world \<Rightarrow> nat" where
  "socket_limit w = rt_sun_path (h_runtime (mw_host w))"

definition socket_probe_stage :: "main_world \<Rightarrow> options \<Rightarrow> unit stage" where
  "socket_probe_stage w opts =
     (if op_daemonize opts \<and> op_control_socket opts \<noteq> [] then
        (let (status, error, _) = probe_control_socket (socket_limit w) (mw_socket_probe w) (op_control_socket opts)
         in if status = SocketAlreadyRunning then returns [SocketProbed status, StderrLine (''error: '' @ error)] 1
            else doing [SocketProbed status] ())
      else doing [] ())"

definition config_said :: "options \<Rightarrow> main_act" where
  "config_said opts =
     Said LogInfo ''cli''
       (if op_config_path opts = []
        then ''No config file found; every option came from the command line or a built-in default''
        else ''Config file: '' @ op_config_path opts)"

definition log_stage :: "main_world \<Rightarrow> options \<Rightarrow> unit stage" where
  "log_stage w opts =
     (let level = [LevelSet (op_log_level opts), config_said opts];
          (opens, dups, reason) = mw_log_open w
      in if op_logfile opts = [] then doing level ()
         else case log_to_file opens dups reason (op_logfile opts) (fst (mw_log w)) (snd (mw_log w)) of
           (True, _, _, _) \<Rightarrow> doing (LogOpened True # level) ()
         | (False, _, _, out) \<Rightarrow> returns (LogOpened False # map (\<lambda>x. StderrLine (snd x)) out) 1)"

definition fork_stage :: "main_world \<Rightarrow> options \<Rightarrow> unit stage" where
  "fork_stage w opts =
     (if \<not> op_daemonize opts then doing [] ()
      else case fst (daemonize (mw_daemon w) (op_logfile opts = []) (mw_streams w)) of
        ParentExits \<Rightarrow> returns [Forked ParentExits] 0
      | DaemonError error \<Rightarrow> returns [Forked (DaemonError error), SaidFatal ''cli'' error] 1
      | Daemonized \<Rightarrow> doing [Forked Daemonized] ())"

section \<open>Up to the client\<close>

definition pidfile_stage :: "main_world \<Rightarrow> options \<Rightarrow> unit stage" where
  "pidfile_stage w opts =
     (let start = [SignalsSet (op_logfile opts \<noteq> []), Construct ThePidFile] in
      if op_pidfile opts = [] then doing start ()
      else
        (let (status, error, _, _) = acquire (mw_pid_calls w) (mw_pid w) (op_pidfile opts) None
         in if status \<noteq> PidOk then returns (start @ [PidTaken status, SaidFatal ''cli'' error]) 1
            else doing (start @ [PidTaken status]) ()))"

text \<open>What \<^verbatim>\<open>start_control_socket\<close> says on each of its branches.\<close>

definition control_said :: "main_world \<Rightarrow> options \<Rightarrow> main_act" where
  "control_said w opts =
     (if op_no_control opts then Said LogInfo ''control'' ''Not listening on a control socket: --no-control was given''
      else if op_control_socket opts = [] then Said LogWarn ''control'' (''No control socket: '' @ op_control_absent_reason opts)
      else case control_open (socket_limit w) (mw_socket w) (op_control_socket opts) of
        (SocketOk, _, _) \<Rightarrow> Said LogInfo ''control'' (''Listening on '' @ op_control_socket opts)
      | (SocketAlreadyRunning, error, _) \<Rightarrow> SaidFatal ''control'' error
      | (SocketFailed, error, _) \<Rightarrow> Said LogWarn ''control''
          (error @ '' -- carrying on without a control socket; this endpoint can still be driven by its server''))"

definition control_stage :: "main_world \<Rightarrow> options \<Rightarrow> unit stage" where
  "control_stage w opts =
     (let (goes_on, listens) = start_control_socket (socket_limit w) (mw_socket w) (op_no_control opts) (op_control_socket opts);
          t = [Construct TheControlSocket, SocketOpened goes_on listens, control_said w opts]
      in if \<not> goes_on then returns t 1 else doing t ())"

definition sink_stage :: "main_world \<Rightarrow> options \<Rightarrow> audio_sink_object stage" where
  "sink_stage w opts =
     (case make_audio_sink (h_flags (mw_host w)) (mw_probe w)
             (if op_player_enabled opts then op_device opts else ''null'') (op_buffer_ms opts) of
        Inl error \<Rightarrow> returns [SaidFatal ''audio'' error] 1
      | Inr sink \<Rightarrow> doing [Construct TheSink, SinkMade sink] sink)"

definition store_stage :: "main_world \<Rightarrow> options \<Rightarrow> state_store stage" where
  "store_stage w opts =
     (let path = state_store_path (h_env (mw_host w)) (op_state_dir opts); fresh = StateStore path in
      if path = [] then
        doing [Construct TheStore,
               Said LogDebug ''cli'' ''Nothing set --state-dir, $XDG_STATE_HOME or $HOME, so this run remembers nothing across restarts'',
               Construct ThePersistence] fresh
      else
        (let (result, store, malformed_line) = state_load (h_files (mw_host w)) fresh 0
         in doing [Construct TheStore,
                   if result = Corrupt
                   then Said LogWarn ''cli'' (path @ '':'' @ to_string malformed_line @
                          '' is not readable state -- starting with nothing remembered, and overwriting the file on the next change'')
                   else Said LogDebug ''cli'' (''State file: '' @ path),
                   Construct ThePersistence] store))"

definition advertised_formats :: "string \<Rightarrow> sink_capabilities \<Rightarrow> supported_format list \<times> main_act list" where
  "advertised_formats name caps =
     (let derived = supported_formats caps;
          formats = (if derived = [] then supported_formats permissive else derived);
          warned = (if derived = [] then [Said LogWarn ''audio'' (''Output device '' @ quoted name @
                      '' reports no format sendspin-cli can emit -- advertising everything and letting the device refuse per stream'')]
                    else [])
      in (formats,
          warned @ [Said LogInfo ''audio'' (''Advertising '' @ to_string (length formats) @ '' formats for '' @ quoted name @ '': '' @ describe_formats formats)]
          @ map (\<lambda>f. Said LogDebug ''audio'' (''  '' @ describe_formats [f])) formats))"

definition formats_stage :: "main_world \<Rightarrow> options \<Rightarrow> audio_sink_object \<Rightarrow> supported_format list stage" where
  "formats_stage w opts sink =
     (let name = mw_sink_name w sink;
          (formats, said) = advertised_formats name (mw_capabilities w sink);
          t = [Construct TheClient, ClientMade (client_config_of (mw_version w) opts), PersistenceSet] @ said
      in case op_audio_format opts of
           None \<Rightarrow> doing t formats
         | Some preferred \<Rightarrow>
             (case pin_preferred_format formats preferred of
                (False, _) \<Rightarrow> returns (t @ [SaidFatal ''audio'' (''--audio-format asked for '' @ describe_formats [preferred] @
                    '', which is not among the formats advertised for output device '' @ quoted name @
                    '' -- refusing to start rather than play something else. Run with -l to see what the device itself reports -- not the same set as what gets advertised.'')]) 1
              | (True, pinned) \<Rightarrow> doing (t @ [Said LogInfo ''audio'' (''Preferred format pinned first: '' @ describe_formats [preferred])]) pinned))"

section \<open>With a client\<close>

definition source_build :: "main_world \<Rightarrow> bool" where
  "source_build w \<longleftrightarrow> h_source (mw_host w) \<and> have_alsa (h_flags (mw_host w))"

definition ws_here :: "options \<Rightarrow> string" where
  "ws_here opts = ''ws://<this-host>:'' @ to_string (unat (op_port opts)) @ SENDSPIN_PATH"

definition start_advertising :: "main_world \<Rightarrow> options \<Rightarrow> mdns \<Rightarrow> main_act list \<times> mdns" where
  "start_advertising w opts m =
     (if \<not> advertises opts then
        ([Said LogInfo ''mdns''
            (if was_given opts OptServer
             then ''Not advertising '' @ MDNS_CLIENT_SERVICE @ '': -s makes this player the one initiating the connection, and the Sendspin spec forbids advertising while it is''
             else ''Not advertising '' @ MDNS_CLIENT_SERVICE @ '': --no-mdns was given'')], m)
      else if \<not> h_mdns (mw_host w) then
        ([Said LogInfo ''mdns'' (''This build has no mDNS support, so it cannot be discovered: point a server at '' @
            ws_here opts @ '', or dial one with -s. See docs/ROADMAP.md.'')], m)
      else
        (let (ok, m1) = advertise (op_mdns_name opts) (op_port opts) SENDSPIN_PATH (op_name opts) (fst (mw_advertise w)) m
         in (AdvertiseAsked ok #
               (if ok then [] else [Said LogWarn ''mdns'' (snd (mw_advertise w) @
                  '' -- retrying; until it succeeds, point a server at '' @ ws_here opts)]), m1)))"

text \<open>\<^verbatim>\<open>MdnsService::browse\<close>; a build without mDNS has only the refusal of \<^verbatim>\<open>mdns_null.cpp\<close>.\<close>

definition service_browse :: "main_world \<Rightarrow> mdns \<Rightarrow> bool \<times> mdns \<times> string" where
  "service_browse w m =
     (if \<not> h_mdns (mw_host w) then (False, m, ''this build has no mDNS support'')
      else (let (ok, m1) = browse (fst (mw_browse w)) m in (ok, m1, snd (mw_browse w))))"

definition outbound_acts :: "main_world \<Rightarrow> options \<Rightarrow> state_store \<Rightarrow> mdns \<Rightarrow> main_act list \<times> mdns" where
  "outbound_acts w opts store m =
     (if \<not> was_given opts OptServer then ([], m)
      else
        (let (ok, m1, error) = service_browse w m;
             looking = (if op_discover opts
               then BrowseAsked ok
                 # (if ok then [] else [Said LogWarn ''discovery'' (error @ '' -- retrying'')])
                 @ [Said LogInfo ''discovery'' (''Looking for a Sendspin server on '' @ MDNS_SERVER_SERVICE @
                      (if op_discover_name opts = [] then [] else '' named '' @ dquoted (op_discover_name opts)))]
               else []);
             remembered = om_remembered (new_outbound_mode store)
         in (looking @ [Construct TheOutbound]
               @ (if remembered \<noteq> [] \<and> op_discover opts
                  then [Said LogInfo ''outbound'' (''Last server used was '' @ dquoted remembered @
                          '' -- it wins if it turns up among the candidates'')]
                  else []),
             if op_discover opts then m1 else m)))"

definition server_stage :: "main_world \<Rightarrow> options \<Rightarrow> unit stage" where
  "server_stage w opts =
     (if \<not> mw_starts w
      then returns [ServerStarted False, SaidFatal ''cli'' (''could not start the Sendspin server on port '' @ to_string (unat (op_port opts)))] 1
      else doing (ServerStarted True
        # (if mw_pairing_token w = [] then [] else [Said LogInfo ''pairing'' (''Pairing token: '' @ mw_pairing_token w)])) ())"

definition listening_said :: "main_world \<Rightarrow> options \<Rightarrow> string \<Rightarrow> main_act" where
  "listening_said w opts what =
     Said LogInfo ''cli'' (''sendspin-cli '' @ mw_version w @ '' listening on port '' @ to_string (unat (op_port opts))
       @ '' as '' @ dquoted (op_name opts) @ '' ('' @ what @ '', mDNS: '' @ mw_backend_name w @ '')'')"

section \<open>The source-only run\<close>

definition source_turn :: "options \<Rightarrow> main_step list" where
  "source_turn opts =
     [ClientLooped, CapturePolled, MdnsPolled, ControlPolled]
     @ (if was_given opts OptServer then [OutboundTicked] else []) @ [ReopenChecked, Slept]"

definition source_run :: "main_world \<Rightarrow> options \<Rightarrow> state_store \<Rightarrow> unit stage" where
  "source_run w opts store =
     and_then (doing [AddedSource (source_config_of opts), Construct TheCapture, CaptureStarted,
                      Construct TheNetwork, NetworkSet] ())
       (\<lambda>_. and_then (server_stage w opts)
       (\<lambda>_. let (advertised, m) = start_advertising w opts new_mdns;
                (dialling, _) = outbound_acts w opts store m
             in returns
                 ([listening_said w opts (''roles: source@v1, input: '' @ op_input_device opts), Construct TheMdns]
                  @ advertised @ [Construct TheDispatcher] @ dialling
                  @ map Step (concat (replicate (mw_turns w) (source_turn opts)))
                  @ [Said LogInfo ''cli'' ''Shutting down'', Step MdnsStopped, Step SocketClosed,
                     Step CaptureStopped, Step Disconnected, Step SinkStopped]) 0))"

section \<open>The player's run\<close>

definition with_source :: "main_world \<Rightarrow> options \<Rightarrow> bool" where
  "with_source w opts \<longleftrightarrow> source_build w \<and> op_source_enabled opts"

definition roles_stage :: "main_world \<Rightarrow> options \<Rightarrow> supported_format list \<Rightarrow> unit stage" where
  "roles_stage w opts formats =
     doing (AddedPlayer (player_config_of formats opts)
       # (if with_source w opts then [AddedSource (source_config_of opts), Construct TheCapture, CaptureStarted] else [])
       @ [DelayAdjustable, AddedMetadata, AddedController, Construct TheListener, Construct TheMetadataLogger,
          Construct TheNetwork, ListenersSet, NetworkSet]) ()"

text \<open>The remembered gain goes to the sink, and the gain the sink applies to the role.\<close>

definition volume_stage :: "main_world \<Rightarrow> state_store \<Rightarrow> unit stage" where
  "volume_stage w store =
     (let (p, volume, muted) = start_player store (h_files (mw_host w)) in
      doing ((if stored_volume store \<noteq> None \<or> stored_muted store \<noteq> None
              then [Restored (sink_volume (ps_trace p)) (sink_muted (ps_trace p)),
                    Said LogInfo ''player'' (''Restored volume '' @ to_string (unat volume) @
                      (if muted then '' (muted)'' else []) @ '' from '' @ store_path store)]
              else []) @ [VolumeReported volume muted]) ())"

definition player_turn :: "main_world \<Rightarrow> options \<Rightarrow> main_step list" where
  "player_turn w opts =
     ClientLooped # (if with_source w opts then [CapturePolled] else []) @ [MdnsPolled, ControlPolled]
     @ (if was_given opts OptServer then [OutboundTicked] else []) @ [SinkPolled, HooksPolled, ReopenChecked, Slept]"

text \<open>The shutdown; how often the drain pumps is what the model of the stream hooks says.\<close>

definition shutdown_acts :: "main_world \<Rightarrow> options \<Rightarrow> main_act list" where
  "shutdown_acts w opts =
     (let (_, pumps, gave_up) = drain opts 0 (mw_pumps w) (fold (loop_step opts) (mw_events w) new_hook_state) in
      [Said LogInfo ''cli'' ''Shutting down'', Step MdnsStopped, Step SocketClosed]
      @ (if with_source w opts then [Step CaptureStopped] else [])
      @ Step Disconnected # map Step (concat (replicate pumps [ClientLooped, HooksPolled, Slept]))
      @ (if gave_up then [Said LogWarn ''cli'' (''The stream did not end within '' @ to_string SHUTDOWN_DRAIN_MS @
            '' ms of disconnecting -- any --hook-stop has not run'')] else [])
      @ [Step HooksFlushed, Step HooksUnwired, Step SinkStopped])"

definition player_run_stage :: "main_world \<Rightarrow> options \<Rightarrow> audio_sink_object \<Rightarrow> state_store \<Rightarrow> unit stage" where
  "player_run_stage w opts sink store =
     (let (advertised, m) = start_advertising w opts new_mdns;
          (dialling, _) = outbound_acts w opts store m
      in returns
          ([listening_said w opts (''output: '' @ mw_sink_name w sink), Construct TheMdns]
           @ advertised @ [Construct TheDispatcher] @ dialling @ [Construct TheHooks]
           @ (if op_hook_start opts \<noteq> [] \<or> op_hook_stop opts \<noteq> [] then [Step HooksWired] else [])
           @ map Step (concat (replicate (mw_turns w) (player_turn w opts)))
           @ shutdown_acts w opts) 0)"

definition roles_run :: "main_world \<Rightarrow> options \<Rightarrow> audio_sink_object \<Rightarrow> state_store \<Rightarrow> supported_format list \<Rightarrow> unit stage" where
  "roles_run w opts sink store formats =
     (if source_build w \<and> \<not> op_player_enabled opts then source_run w opts store
      else and_then (roles_stage w opts formats)
        (\<lambda>_. and_then (volume_stage w store)
        (\<lambda>_. and_then (server_stage w opts)
        (\<lambda>_. player_run_stage w opts sink store))))"

section \<open>main\<close>

definition quiet_stages :: "main_world \<Rightarrow> options \<Rightarrow> unit stage" where
  "quiet_stages w opts =
     and_then (subcommand_stage w opts)
       (\<lambda>_. and_then (pidfile_probe_stage w opts)
       (\<lambda>_. and_then (socket_probe_stage w opts)
       (\<lambda>_. and_then (log_stage w opts)
       (\<lambda>_. and_then (fork_stage w opts)
       (\<lambda>_. and_then (pidfile_stage w opts)
       (\<lambda>_. control_stage w opts))))))"

definition main_body :: "main_world \<Rightarrow> unit stage" where
  "main_body w =
     and_then (options_stage w)
       (\<lambda>opts. and_then (quiet_stages w opts)
       (\<lambda>_. and_then (sink_stage w opts)
       (\<lambda>sink. and_then (store_stage w opts)
       (\<lambda>store. and_then (formats_stage w opts sink)
       (\<lambda>formats. roles_run w opts sink store formats)))))"

text \<open>
  The capture's thread when \<^verbatim>\<open>main\<close> leaves: started by \<^verbatim>\<open>AlsaSource::start\<close>, gone through what
  became of it, and stopped where the shutdown stops it.
\<close>

definition capture_thread :: "main_world \<Rightarrow> main_act list \<Rightarrow> source_thread" where
  "capture_thread w t =
     fold source_step (mw_capture w @ (if Step CaptureStopped \<in> set t then [OwnerStops] else []))
       (if CaptureStarted \<in> set t then source_start new_source_thread else new_source_thread)"

text \<open>
  A return destroys what was constructed, the last first. The destructor of the capture stops it and then
  destroys its thread object: where that thread is still joinable \<^verbatim>\<open>std::terminate\<close> ends the process
  there, with everything below it on the stack undestroyed and no status returned.
\<close>

fun unwind :: "source_thread \<Rightarrow> int \<Rightarrow> main_object list \<Rightarrow> main_act list" where
  "unwind th code [] = [Exited code]"
| "unwind th code (x # xs) =
     (if x = TheCapture \<and> st_aborted (source_destroy th) then [Aborted]
      else Destroy x # unwind th code xs)"

definition constructed :: "main_act list \<Rightarrow> main_object list" where
  "constructed t = concat (map (\<lambda>a. case a of Construct x \<Rightarrow> [x] | _ \<Rightarrow> []) t)"

definition main_trace :: "main_world \<Rightarrow> main_act list" where
  "main_trace w =
     (let (t, r) = main_body w; code = (case r of Inl code \<Rightarrow> code | Inr _ \<Rightarrow> 0)
      in t @ unwind (capture_thread w t) code (rev (constructed t)))"

end
