(* ===== verification/MainRules.thy ===== *)
theory MainRules
  imports MainRun
begin

text \<open>
  What may happen when in a run of \<^verbatim>\<open>main()\<close>: a watch follows the acts and refuses one that comes out of
  order, and every trace of the model is one it accepts to the end: the exit, or the abort of a capture
  that was refused.
\<close>

section \<open>The watch\<close>

text \<open>How the process ends: with the status \<^verbatim>\<open>main\<close> returned, or by \<^verbatim>\<open>std::terminate\<close>.\<close>

datatype main_end = Returned int | Terminated

record main_watch =
  mp_detached :: bool
  mp_ready :: bool
  mp_over :: bool
  mp_alive :: "main_object list"
  mp_holds :: bool
  mp_goes :: bool
  mp_persist :: bool
  mp_player :: bool
  mp_source :: bool
  mp_listener :: bool
  mp_network :: bool
  mp_gain :: "u8 \<times> bool"
  mp_told :: bool
  mp_up :: bool
  mp_capturing :: bool
  mp_announced :: bool
  mp_quiet :: bool
  mp_deaf :: bool
  mp_goodbye :: bool
  mp_flushed :: bool
  mp_why :: bool
  mp_exit :: "main_end option"

text \<open>The pidfile counts as held when none was asked for.\<close>

definition watch_start :: "options \<Rightarrow> main_watch" where
  "watch_start opts =
     \<lparr>mp_detached = False, mp_ready = False, mp_over = False, mp_alive = [], mp_holds = (op_pidfile opts = []),
      mp_goes = False, mp_persist = False, mp_player = False, mp_source = False, mp_listener = False,
      mp_network = False, mp_gain = (DEFAULT_SINK_VOLUME, False), mp_told = False, mp_up = False,
      mp_capturing = False, mp_announced = False, mp_quiet = False, mp_deaf = False, mp_goodbye = False,
      mp_flushed = False, mp_why = False, mp_exit = None\<rparr>"

text \<open>What an object refers to, and so has to be destroyed before.\<close>

fun refers_to :: "main_object \<Rightarrow> main_object list" where
  "refers_to ThePersistence = [TheStore]"
| "refers_to TheClient = [ThePersistence]"
| "refers_to TheCapture = [TheClient]"
| "refers_to TheListener = [TheClient, TheSink, TheStore]"
| "refers_to TheDispatcher = [TheClient, TheSink]"
| "refers_to TheOutbound = [TheMdns, TheStore]"
| "refers_to _ = []"

definition allow :: "bool \<Rightarrow> main_watch \<Rightarrow> main_watch option" where
  "allow b p = (if b then Some p else None)"

definition has_obj :: "main_object \<Rightarrow> main_watch \<Rightarrow> bool" where
  "has_obj x p \<longleftrightarrow> x \<in> set (mp_alive p)"

text \<open>Before the fork: the process has nothing yet and a terminal to talk to.\<close>

definition bare :: "main_watch \<Rightarrow> bool" where
  "bare p \<longleftrightarrow> mp_alive p = [] \<and> \<not> mp_detached p \<and> \<not> mp_over p"

text \<open>Setting up: the client has its memory, and no server can reach it yet.\<close>

definition setting_up :: "main_watch \<Rightarrow> bool" where
  "setting_up p \<longleftrightarrow> mp_persist p \<and> \<not> mp_up p"

text \<open>In time to be made: locks before the device, the device before the client, the rest on a server that is up.\<close>

definition timely :: "options \<Rightarrow> main_object \<Rightarrow> main_watch \<Rightarrow> bool" where
  "timely opts x p \<longleftrightarrow>
     (x = TheControlSocket \<longrightarrow> mp_holds p)
     \<and> (x = TheSink \<longrightarrow> mp_holds p \<and> mp_goes p)
     \<and> (x = TheClient \<longrightarrow> has_obj TheSink p)
     \<and> (x \<in> {TheMdns, TheDispatcher, TheHooks} \<longrightarrow> mp_up p)
     \<and> (x = TheOutbound \<longrightarrow> mp_up p \<and> was_given opts OptServer \<and> \<not> mp_announced p)"

fun step_rule :: "options \<Rightarrow> main_step \<Rightarrow> main_watch \<Rightarrow> main_watch option" where
  "step_rule opts HooksWired p = allow (has_obj TheHooks p \<and> \<not> mp_goodbye p \<and> (op_hook_start opts \<noteq> [] \<or> op_hook_stop opts \<noteq> [])) p"
| "step_rule opts ClientLooped p = allow (mp_up p) p"
| "step_rule opts CapturePolled p = allow (mp_capturing p) p"
| "step_rule opts MdnsPolled p = allow (has_obj TheMdns p \<and> \<not> mp_quiet p) p"
| "step_rule opts ControlPolled p = allow (has_obj TheDispatcher p \<and> \<not> mp_deaf p) p"
| "step_rule opts OutboundTicked p = allow (has_obj TheOutbound p \<and> \<not> mp_goodbye p) p"
| "step_rule opts SinkPolled p = allow (has_obj TheSink p \<and> \<not> mp_goodbye p) p"
| "step_rule opts HooksPolled p = allow (has_obj TheHooks p \<and> \<not> mp_flushed p) p"
| "step_rule opts ReopenChecked p = allow (mp_up p) p"
| "step_rule opts Slept p = allow (mp_up p) p"
| "step_rule opts MdnsStopped p = allow (has_obj TheMdns p) (p\<lparr>mp_quiet := True\<rparr>)"
| "step_rule opts SocketClosed p = allow (has_obj TheControlSocket p) (p\<lparr>mp_deaf := True\<rparr>)"
| "step_rule opts CaptureStopped p = allow (mp_capturing p) (p\<lparr>mp_capturing := False\<rparr>)"
| "step_rule opts Disconnected p =
     allow (mp_up p \<and> mp_quiet p \<and> mp_deaf p \<and> \<not> mp_capturing p \<and> \<not> mp_goodbye p) (p\<lparr>mp_goodbye := True\<rparr>)"
| "step_rule opts HooksFlushed p = allow (mp_goodbye p \<and> has_obj TheHooks p) (p\<lparr>mp_flushed := True\<rparr>)"
| "step_rule opts HooksUnwired p = allow (mp_flushed p) p"
| "step_rule opts SinkStopped p = allow (mp_goodbye p \<and> (mp_player p \<longrightarrow> mp_flushed p)) p"

definition main_rule :: "options \<Rightarrow> main_act \<Rightarrow> main_watch \<Rightarrow> main_watch option" where
  "main_rule opts a p0 =
     (let p = p0\<lparr>mp_why := False\<rparr> in case a of
        Print pg \<Rightarrow> allow (bare p) (p\<lparr>mp_over := True\<rparr>)
      | StderrLine s \<Rightarrow> allow (bare p) (p\<lparr>mp_why := True\<rparr>)
      | Asked r \<Rightarrow> allow (bare p \<and> op_subcommand opts \<noteq> []) (p\<lparr>mp_over := True, mp_why := (cr_stderr r \<noteq> [])\<rparr>)
      | PidProbed st \<Rightarrow> allow (bare p \<and> op_daemonize opts \<and> op_pidfile opts \<noteq> []) p
      | SocketProbed st \<Rightarrow> allow (bare p \<and> op_daemonize opts \<and> op_control_socket opts \<noteq> []) p
      | LogOpened b \<Rightarrow> allow (bare p \<and> op_logfile opts \<noteq> []) p
      | LevelSet l \<Rightarrow> allow (bare p \<and> l = op_log_level opts) p
      | Said l tag s \<Rightarrow> allow (\<not> mp_over p) p
      | SaidFatal tag s \<Rightarrow> allow (\<not> mp_over p) (p\<lparr>mp_why := True\<rparr>)
      | Forked d \<Rightarrow> allow (bare p \<and> op_daemonize opts) (p\<lparr>mp_detached := (d = Daemonized), mp_over := (d = ParentExits)\<rparr>)
      | SignalsSet b \<Rightarrow> allow (mp_alive p = [] \<and> \<not> mp_over p \<and> mp_detached p = op_daemonize opts \<and> b = (op_logfile opts \<noteq> []))
          (p\<lparr>mp_ready := True\<rparr>)
      | Construct x \<Rightarrow> allow (mp_ready p \<and> \<not> mp_over p \<and> \<not> mp_goodbye p \<and> \<not> has_obj x p
            \<and> set (refers_to x) \<subseteq> set (mp_alive p) \<and> timely opts x p) (p\<lparr>mp_alive := x # mp_alive p\<rparr>)
      | PidTaken st \<Rightarrow> allow (mp_alive p = [ThePidFile] \<and> op_pidfile opts \<noteq> []) (p\<lparr>mp_holds := (st = PidOk)\<rparr>)
      | SocketOpened g l \<Rightarrow> allow (mp_alive p = [TheControlSocket, ThePidFile] \<and> mp_holds p
            \<and> (l \<longrightarrow> g \<and> \<not> op_no_control opts \<and> op_control_socket opts \<noteq> [])) (p\<lparr>mp_goes := g\<rparr>)
      | SinkMade s \<Rightarrow> allow (has_obj TheSink p \<and> (op_player_enabled opts \<or> s = NullAudioSink Discard)) p
      | ClientMade c \<Rightarrow> allow (has_obj TheClient p \<and> cf_unpaired_access c = op_player_enabled opts \<and> cf_enable_security c) p
      | PersistenceSet \<Rightarrow> allow (has_obj TheClient p \<and> \<not> mp_player p \<and> \<not> mp_source p \<and> \<not> mp_up p) (p\<lparr>mp_persist := True\<rparr>)
      | AddedPlayer c \<Rightarrow> allow (setting_up p \<and> \<not> mp_player p \<and> pf_formats c \<noteq> []
            \<and> (op_audio_format opts = None \<or> op_audio_format opts = Some (hd (pf_formats c)))) (p\<lparr>mp_player := True\<rparr>)
      | AddedSource c \<Rightarrow> allow (setting_up p \<and> \<not> mp_source p \<and> c = source_config_of opts) (p\<lparr>mp_source := True\<rparr>)
      | CaptureStarted \<Rightarrow> allow (has_obj TheCapture p \<and> mp_source p) (p\<lparr>mp_capturing := True\<rparr>)
      | DelayAdjustable \<Rightarrow> allow (setting_up p \<and> mp_player p) p
      | AddedMetadata \<Rightarrow> allow (setting_up p) p
      | AddedController \<Rightarrow> allow (setting_up p) p
      | ListenersSet \<Rightarrow> allow (setting_up p \<and> mp_player p \<and> has_obj TheListener p \<and> has_obj TheMetadataLogger p) (p\<lparr>mp_listener := True\<rparr>)
      | NetworkSet \<Rightarrow> allow (setting_up p \<and> has_obj TheNetwork p) (p\<lparr>mp_network := True\<rparr>)
      | Restored v b \<Rightarrow> allow (setting_up p \<and> \<not> mp_told p \<and> has_obj TheListener p) (p\<lparr>mp_gain := (v, b)\<rparr>)
      | VolumeReported v b \<Rightarrow> allow (setting_up p \<and> mp_player p \<and> mp_gain p = (v, b)) (p\<lparr>mp_told := True\<rparr>)
      | ServerStarted b \<Rightarrow> allow (setting_up p \<and> mp_network p \<and> (mp_player p \<or> mp_source p) \<and> (mp_player p \<longrightarrow> mp_told p \<and> mp_listener p))
          (p\<lparr>mp_up := b\<rparr>)
      | AdvertiseAsked b \<Rightarrow> allow (mp_up p \<and> has_obj TheMdns p \<and> advertises opts) (p\<lparr>mp_announced := True\<rparr>)
      | BrowseAsked b \<Rightarrow> allow (mp_up p \<and> has_obj TheMdns p \<and> was_given opts OptServer \<and> op_discover opts) p
      | Step st \<Rightarrow> step_rule opts st p
      | Destroy x \<Rightarrow> allow (mp_alive p = x # tl (mp_alive p) \<and> (mp_up p \<longrightarrow> mp_goodbye p))
          (p\<lparr>mp_alive := tl (mp_alive p), mp_why := mp_why p0\<rparr>)
      | Exited c \<Rightarrow> allow (mp_alive p = [] \<and> (c = 0 \<or> mp_why p0)) (p\<lparr>mp_exit := Some (Returned c)\<rparr>)
      | Aborted \<Rightarrow> allow (mp_alive p = TheCapture # tl (mp_alive p) \<and> (mp_up p \<longrightarrow> mp_goodbye p))
          (p\<lparr>mp_exit := Some Terminated\<rparr>))"

text \<open>Nothing follows the end.\<close>

fun main_watched :: "options \<Rightarrow> main_act list \<Rightarrow> main_watch \<Rightarrow> main_watch option" where
  "main_watched opts [] p = Some p"
| "main_watched opts (a # t) p =
     (if mp_exit p \<noteq> None then None
      else case main_rule opts a p of None \<Rightarrow> None | Some p' \<Rightarrow> main_watched opts t p')"

end
