(* ===== verification/MainSafety.thy ===== *)
theory MainSafety
  imports MainRules
begin

text \<open>Every run of \<open>main_trace\<close> is one the watch of \<open>MainRules\<close> accepts: a lemma per stage.\<close>

section \<open>Stages under the watch\<close>

definition plain_act :: "main_act \<Rightarrow> bool" where
  "plain_act a = (case a of Destroy x \<Rightarrow> False | Exited c \<Rightarrow> False | Aborted \<Rightarrow> False | _ \<Rightarrow> True)"

definition leaves :: "int \<Rightarrow> main_watch \<Rightarrow> bool" where
  "leaves c p \<longleftrightarrow> mp_exit p = None \<and> (c = 0 \<or> mp_why p) \<and> (mp_up p \<longrightarrow> mp_goodbye p)"

definition keeps :: "options \<Rightarrow> main_watch \<Rightarrow> 'a stage \<Rightarrow> ('a \<Rightarrow> main_watch \<Rightarrow> bool) \<Rightarrow> bool" where
  "keeps opts p m Q \<longleftrightarrow> list_all plain_act (fst m)
     \<and> (\<exists>p'. main_watched opts (fst m) p = Some p' \<and> (case snd m of Inl c \<Rightarrow> leaves c p' | Inr x \<Rightarrow> Q x p'))"

lemma watched_append [simp]:
  "main_watched opts (t @ t') p = Option.bind (main_watched opts t p) (main_watched opts t')"
  by (induction t arbitrary: p) (auto split: option.splits)

lemma keeps_bind:
  assumes "keeps opts p m Q" "\<And>x p'. snd m = Inr x \<Longrightarrow> Q x p' \<Longrightarrow> keeps opts p' (k x) R"
  shows "keeps opts p (and_then m k) R"
proof -
  obtain t r where m: "m = (t, r)" by fastforce
  from assms show ?thesis unfolding m by (cases r) (fastforce simp: keeps_def and_then_def)+
qed

lemma keeps_bind_any:
  assumes "keeps opts p m Q" "\<And>x p'. Q x p' \<Longrightarrow> keeps opts p' (k x) R"
  shows "keeps opts p (and_then m k) R"
  using keeps_bind assms by blast

lemma keeps_doing [simp]:
  "keeps opts p (doing t x) Q \<longleftrightarrow> list_all plain_act t \<and> (\<exists>p'. main_watched opts t p = Some p' \<and> Q x p')"
  by (simp add: keeps_def doing_def)

lemma keeps_returns [simp]:
  "keeps opts p (returns t c) Q \<longleftrightarrow> list_all plain_act t \<and> (\<exists>p'. main_watched opts t p = Some p' \<and> leaves c p')"
  by (simp add: keeps_def returns_def)

lemmas act_simps = main_rule_def Let_def allow_def bare_def setting_up_def has_obj_def timely_def plain_act_def leaves_def

text \<open>The watch at the ends of the stages; the last word is whatever was said last.\<close>

definition at_bare :: "options \<Rightarrow> bool \<Rightarrow> main_watch" where
  "at_bare opts y = (watch_start opts)\<lparr>mp_why := y\<rparr>"

definition at_forked :: "options \<Rightarrow> bool \<Rightarrow> main_watch" where
  "at_forked opts y = (at_bare opts y)\<lparr>mp_detached := op_daemonize opts\<rparr>"

definition at_pidfile :: "options \<Rightarrow> bool \<Rightarrow> main_watch" where
  "at_pidfile opts y = (at_forked opts y)\<lparr>mp_ready := True, mp_alive := [ThePidFile], mp_holds := True\<rparr>"

definition at_socket :: "options \<Rightarrow> bool \<Rightarrow> main_watch" where
  "at_socket opts y = (at_pidfile opts y)\<lparr>mp_alive := [TheControlSocket, ThePidFile], mp_goes := True\<rparr>"

definition at_sink :: "options \<Rightarrow> bool \<Rightarrow> main_watch" where
  "at_sink opts y = (at_socket opts y)\<lparr>mp_alive := [TheSink, TheControlSocket, ThePidFile]\<rparr>"

definition at_store :: "options \<Rightarrow> bool \<Rightarrow> main_watch" where
  "at_store opts y = (at_sink opts y)\<lparr>mp_alive := [ThePersistence, TheStore, TheSink, TheControlSocket, ThePidFile]\<rparr>"

definition at_client :: "options \<Rightarrow> bool \<Rightarrow> main_watch" where
  "at_client opts y = (at_store opts y)\<lparr>mp_alive := [TheClient, ThePersistence, TheStore, TheSink, TheControlSocket, ThePidFile],
     mp_persist := True\<rparr>"

lemmas at_simps = at_bare_def at_forked_def at_pidfile_def at_socket_def at_sink_def at_store_def at_client_def watch_start_def

lemma said_lines:
  "bare p \<Longrightarrow> mp_exit p = None \<Longrightarrow>
     main_watched opts (map StderrLine es) p = Some (if es = [] then p else p\<lparr>mp_why := True\<rparr>)"
proof (induction es arbitrary: p)
  case (Cons e es)
  have "bare (p\<lparr>mp_why := True\<rparr>)" using Cons.prems(1) by (simp add: bare_def)
  then show ?case using Cons by (simp add: act_simps)
qed simp

lemma said_anything:
  "\<not> mp_over p \<Longrightarrow> mp_exit p = None \<Longrightarrow> (\<And>x. f x = Said (g x) (h x) (k x)) \<Longrightarrow>
     main_watched opts (map f xs) p = Some (if xs = [] then p else p\<lparr>mp_why := False\<rparr>)"
  by (induction xs arbitrary: p) (simp_all add: act_simps)

lemma plain_maps [simp]:
  "list_all plain_act (map StderrLine es)" "list_all plain_act (map Step ss)"
  by (simp_all add: list_all_iff plain_act_def)

section \<open>Before the fork\<close>

lemma options_keeps:
  assumes "parse_options (mw_host w) (mw_argv w) (default_options (mw_host w)) = (ok, opts, err)"
  shows "keeps opts (watch_start opts) (options_stage w) (\<lambda>x p. x = opts \<and> (\<exists>y. p = at_bare opts y))"
proof -
  have b: "bare (watch_start opts)" "mp_exit (watch_start opts) = None" by (simp_all add: bare_def watch_start_def)
  have s: "main_watched opts (map StderrLine err) (watch_start opts) = Some (at_bare opts (err \<noteq> []))"
    using said_lines [OF b, of opts err] by (simp add: at_bare_def watch_start_def)
  have q: "bare (at_bare opts y)" "mp_exit (at_bare opts y) = None" "mp_over (at_bare opts y) = False"
      "mp_up (at_bare opts y) = False" for y
    by (simp_all add: bare_def at_bare_def watch_start_def)
  have bw: "bare (p\<lparr>mp_why := v\<rparr>) = bare p" for p v by (simp add: bare_def)
  show ?thesis
    by (auto simp: options_stage_def assms s main_rule_def allow_def q bw leaves_def plain_act_def Let_def)
qed

lemma client_explains: "cr_status (run_control_subcommand c r path why) \<noteq> StatusOk \<Longrightarrow> cr_stderr (run_control_subcommand c r path why) \<noteq> []"
  by (auto simp: run_control_subcommand_def client_error_def Let_def split: option.splits prod.splits if_splits)

lemma subcommand_keeps:
  "keeps opts (at_bare opts y) (subcommand_stage w opts) (\<lambda>_ p. \<exists>y. p = at_bare opts y)"
proof -
  have c: "control_status_code s = 0 \<longleftrightarrow> s = StatusOk" for s by (cases s) simp_all
  show ?thesis using client_explains
    by (auto simp: subcommand_stage_def act_simps at_simps c split: sum.splits)
qed

lemma pidfile_probe_keeps:
  "keeps opts (at_bare opts y) (pidfile_probe_stage w opts) (\<lambda>_ p. \<exists>y. p = at_bare opts y)"
  by (auto simp: pidfile_probe_stage_def act_simps at_simps split: prod.splits)

lemma socket_probe_keeps:
  "keeps opts (at_bare opts y) (socket_probe_stage w opts) (\<lambda>_ p. \<exists>y. p = at_bare opts y)"
  by (auto simp: socket_probe_stage_def act_simps at_simps split: prod.splits)

lemma log_keeps:
  "keeps opts (at_bare opts y) (log_stage w opts) (\<lambda>_ p. \<exists>y. p = at_bare opts y)"
  by (auto simp: log_stage_def log_to_file_def put_line_def config_said_def act_simps at_simps split: prod.splits bool.splits)

lemma fork_keeps:
  "keeps opts (at_bare opts y) (fork_stage w opts) (\<lambda>_ p. \<exists>y. p = at_forked opts y)"
  by (auto simp: fork_stage_def act_simps at_simps split: daemon_result.splits)

section \<open>Up to the client\<close>

lemma pidfile_keeps:
  "keeps opts (at_forked opts y) (pidfile_stage w opts) (\<lambda>_ p. \<exists>y. p = at_pidfile opts y)"
  by (auto simp: pidfile_stage_def act_simps at_simps split: prod.splits)

lemma control_keeps:
  "keeps opts (at_pidfile opts y) (control_stage w opts) (\<lambda>_ p. \<exists>y. p = at_socket opts y)"
  by (auto simp: control_stage_def start_control_socket_def control_said_def act_simps at_simps
      split: prod.splits control_socket_status.splits if_splits)

lemma null_output: "resolve_device_spec b ''null'' = Inr d \<Longrightarrow> ds_backend d = NullBackend"
  by (auto simp: resolve_device_spec_def BUILT_BACKENDS_def)

lemma sink_keeps:
  "keeps opts (at_socket opts y) (sink_stage w opts) (\<lambda>_ p. \<exists>y. p = at_sink opts y)"
proof (cases "make_audio_sink (h_flags (mw_host w)) (mw_probe w) (if op_player_enabled opts then op_device opts else ''null'') (op_buffer_ms opts)")
  case (Inr sink)
  have "\<not> op_player_enabled opts \<Longrightarrow> sink = NullAudioSink Discard"
    using Inr null_output by (auto simp: make_audio_sink_def split: sum.splits sink_backend.splits)
  then show ?thesis by (auto simp: sink_stage_def Inr act_simps at_simps)
qed (simp add: sink_stage_def act_simps at_simps)

lemma store_keeps:
  "keeps opts (at_sink opts y) (store_stage w opts) (\<lambda>_ p. \<exists>y. p = at_store opts y)"
  by (auto simp: store_stage_def act_simps at_simps split: prod.splits)

lemma permissive_formats: "supported_formats permissive \<noteq> []"
  by code_simp

lemma advertised:
  "fst (advertised_formats name caps) \<noteq> []"
  "\<not> mp_over p \<Longrightarrow> mp_exit p = None \<Longrightarrow> main_watched opts (snd (advertised_formats name caps)) p = Some (p\<lparr>mp_why := False\<rparr>)"
  "list_all plain_act (snd (advertised_formats name caps))"
proof -
  show "fst (advertised_formats name caps) \<noteq> []"
    using permissive_formats by (simp add: advertised_formats_def Let_def)
  show "list_all plain_act (snd (advertised_formats name caps))"
    by (simp add: advertised_formats_def Let_def list_all_iff plain_act_def)
  assume p: "\<not> mp_over p" "mp_exit p = None"
  then show "main_watched opts (snd (advertised_formats name caps)) p = Some (p\<lparr>mp_why := False\<rparr>)"
    by (simp add: advertised_formats_def said_anything act_simps)
qed

lemma formats_keeps:
  "keeps opts (at_store opts y) (formats_stage w opts sink)
     (\<lambda>formats p. formats \<noteq> [] \<and> (op_audio_format opts = None \<or> op_audio_format opts = Some (hd formats)) \<and> (\<exists>y. p = at_client opts y))"
proof -
  obtain formats said where a: "advertised_formats (mw_sink_name w sink) (mw_capabilities w sink) = (formats, said)" by fastforce
  note adv = advertised [where name = "mw_sink_name w sink" and caps = "mw_capabilities w sink", unfolded a fst_conv snd_conv]
  let ?t = "[Construct TheClient, ClientMade (client_config_of (mw_version w) opts), PersistenceSet]"
  have c: "main_watched opts ?t (at_store opts y) = Some (at_client opts False)"
    by (simp add: act_simps at_simps client_config_of_def)
  have q: "\<not> mp_over (at_client opts v)" "mp_exit (at_client opts v) = None" "\<not> mp_up (at_client opts v)"
    "(at_client opts v)\<lparr>mp_why := x\<rparr> = at_client opts x" for v x
    by (simp_all add: at_simps)
  have w: "main_watched opts (?t @ said) (at_store opts y) = Some (at_client opts False)"
    unfolding watched_append c by (simp add: adv q)
  have pl: "list_all plain_act (?t @ said)" using adv(3) by (simp add: plain_act_def)
  show ?thesis
  proof (cases "op_audio_format opts")
    case None
    then show ?thesis using w pl adv(1) unfolding formats_stage_def Let_def a prod.case by auto
  next
    case (Some f)
    obtain ok pinned where f: "pin_preferred_format formats f = (ok, pinned)" by fastforce
    have h: "ok \<Longrightarrow> pinned \<noteq> [] \<and> hd pinned = f"
      using f by (auto simp: pin_preferred_format_def pin_loop_eq split: if_splits)
    define T where "T = ?t @ said"
    have s: "main_watched opts (T @ [x]) (at_store opts y) = main_watched opts [x] (at_client opts False)" for x
      unfolding T_def watched_append w [unfolded watched_append] by simp
    have e: "main_watched opts [SaidFatal g m] (at_client opts False) = Some (at_client opts True)"
      "main_watched opts [Said l g m] (at_client opts False) = Some (at_client opts False)" for l g m
      using q by (simp_all add: act_simps)
    have pa: "list_all plain_act T" using pl unfolding T_def by simp
    have leave: "leaves 1 (at_client opts True)" by (simp add: leaves_def q) (simp add: at_simps)
    show ?thesis
      using s e pa h leave
      unfolding formats_stage_def Let_def a prod.case Some T_def [symmetric] option.case f
      by (cases ok) (auto simp: plain_act_def simp del: watched_append main_watched.simps)
  qed
qed

section \<open>A run with a client\<close>

definition at_roles :: "options \<Rightarrow> bool \<Rightarrow> bool \<Rightarrow> u8 \<times> bool \<Rightarrow> bool \<Rightarrow> main_watch" where
  "at_roles opts captures told gain y = (at_client opts y)\<lparr>
     mp_alive := [TheNetwork, TheMetadataLogger, TheListener] @ (if captures then [TheCapture] else [])
       @ [TheClient, ThePersistence, TheStore, TheSink, TheControlSocket, ThePidFile],
     mp_player := True, mp_source := captures, mp_capturing := captures, mp_listener := True, mp_network := True,
     mp_gain := gain, mp_told := told\<rparr>"

lemma roles_keeps:
  assumes "formats \<noteq> []" "op_audio_format opts = None \<or> op_audio_format opts = Some (hd formats)"
  shows "keeps opts (at_client opts y) (roles_stage w opts formats)
     (\<lambda>_ p. \<exists>y. p = at_roles opts (with_source w opts) False (DEFAULT_SINK_VOLUME, False) y)"
  using assms by (auto simp: roles_stage_def player_config_of_def at_roles_def act_simps at_simps)

text \<open>What the role is told is what the sink was told, or the gain it starts with.\<close>

lemma gain_agrees:
  assumes "start_player store files = (p, volume, muted)"
  shows "if stored_volume store \<noteq> None \<or> stored_muted store \<noteq> None
    then sink_volume (ps_trace p) = volume \<and> sink_muted (ps_trace p) = muted
    else volume = DEFAULT_SINK_VOLUME \<and> \<not> muted"
  using assms by (auto simp: start_player_def restore_volume_def set_listener_def act_def sink_volume_def sink_muted_def Let_def
      split: option.splits)

lemma volume_keeps:
  "keeps opts (at_roles opts c False (DEFAULT_SINK_VOLUME, False) y) (volume_stage w store) (\<lambda>_ p. \<exists>g y. p = at_roles opts c True g y)"
proof -
  obtain p volume muted where s: "start_player store (h_files (mw_host w)) = (p, volume, muted)" by (metis prod_cases3)
  show ?thesis using gain_agrees [OF s]
    by (auto simp: volume_stage_def s at_roles_def act_simps at_simps split: if_splits)
qed

text \<open>A run from the server's start: reachable, nothing said to stop.\<close>

definition running :: "main_watch \<Rightarrow> bool" where
  "running p \<longleftrightarrow> mp_exit p = None \<and> mp_ready p \<and> \<not> mp_over p \<and> mp_up p \<and> \<not> mp_goodbye p \<and> \<not> mp_quiet p \<and> \<not> mp_deaf p
     \<and> \<not> mp_flushed p \<and> {TheClient, TheSink, TheStore, TheControlSocket} \<subseteq> set (mp_alive p)"

lemma running_update [simp]:
  "running (p\<lparr>mp_why := y\<rparr>) = running p"
  "running (p\<lparr>mp_announced := b\<rparr>) = running p"
  by (simp_all add: running_def)

lemma server_keeps:
  assumes "setting_up p" "mp_network p" "mp_player p \<or> mp_source p" "mp_player p \<longrightarrow> mp_told p \<and> mp_listener p"
    "mp_exit p = None" "\<not> mp_over p"
  shows "keeps opts p (server_stage w opts) (\<lambda>_ p'. p' = p\<lparr>mp_up := True, mp_why := False\<rparr>)"
  using assms by (auto simp: server_stage_def act_simps)

lemma advertising_watched:
  assumes "running p" "has_obj TheMdns p" "\<not> mp_announced p"
  shows "list_all plain_act (fst (start_advertising w opts m)) \<and>
    main_watched opts (fst (start_advertising w opts m)) p
      = Some (p\<lparr>mp_announced := (advertises opts \<and> h_mdns (mw_host w)), mp_why := False\<rparr>)"
proof -
  obtain ok m1 where a: "advertise (op_mdns_name opts) (op_port opts) SENDSPIN_PATH (op_name opts) (fst (mw_advertise w)) m = (ok, m1)"
    by fastforce
  have p: "p\<lparr>mp_announced := False, mp_why := False\<rparr> = p\<lparr>mp_why := False\<rparr>" using assms(3) by (cases p) simp
  show ?thesis
    using assms p by (auto simp: start_advertising_def a running_def act_simps)
qed

lemma outbound_watched:
  assumes "running p" "has_obj TheMdns p" "\<not> has_obj TheOutbound p" "mp_announced p \<longrightarrow> \<not> was_given opts OptServer"
  shows "list_all plain_act (fst (outbound_acts w opts store m)) \<and>
    main_watched opts (fst (outbound_acts w opts store m)) p
       = Some (if was_given opts OptServer then p\<lparr>mp_alive := TheOutbound # mp_alive p, mp_why := False\<rparr> else p)"
proof -
  obtain ok m1 e where b: "service_browse w m = (ok, m1, e)" by (metis prod_cases3)
  show ?thesis
    using assms by (auto simp: outbound_acts_def b running_def act_simps)
qed

lemma steps_stay:
  "mp_exit p = None \<Longrightarrow> \<forall>s \<in> set ss. \<forall>y. step_rule opts s (p\<lparr>mp_why := y\<rparr>) = Some (p\<lparr>mp_why := y\<rparr>) \<Longrightarrow>
     \<exists>y. main_watched opts (map Step ss) p = Some (p\<lparr>mp_why := y\<rparr>)"
proof (induction ss arbitrary: p)
  case Nil
  then show ?case by (metis main_watched.simps(1) list.simps(8) main_watch.surjective main_watch.update_convs(21))
next
  case (Cons s ss)
  obtain y where "main_watched opts (map Step ss) (p\<lparr>mp_why := False\<rparr>) = Some (p\<lparr>mp_why := False\<rparr>\<lparr>mp_why := y\<rparr>)"
    using Cons.IH [of "p\<lparr>mp_why := False\<rparr>"] Cons.prems by auto
  then show ?case using Cons.prems by (auto simp: main_rule_def)
qed

lemma turns_stay:
  assumes "mp_exit p = None" "\<forall>s \<in> set turn. \<forall>y. step_rule opts s (p\<lparr>mp_why := y\<rparr>) = Some (p\<lparr>mp_why := y\<rparr>)"
  shows "\<exists>y. main_watched opts (map Step (concat (replicate n turn))) p = Some (p\<lparr>mp_why := y\<rparr>)"
  by (rule steps_stay) (use assms in auto)

lemma watched_chain:
  "main_watched opts t p = Some q \<Longrightarrow> main_watched opts (t @ t') p = main_watched opts t' q"
  by simp

text \<open>What both runs do once the server is up, and the watch they reach the loop with.\<close>

definition answering :: "main_world \<Rightarrow> options \<Rightarrow> main_watch \<Rightarrow> main_watch" where
  "answering w opts p = p\<lparr>
     mp_alive := (if was_given opts OptServer then [TheOutbound] else []) @ TheDispatcher # TheMdns # mp_alive p,
     mp_announced := (advertises opts \<and> h_mdns (mw_host w)), mp_why := False\<rparr>"

lemma answering_watched:
  assumes "running p" "\<not> mp_announced p" "\<forall>x \<in> {TheMdns, TheDispatcher, TheOutbound}. \<not> has_obj x p"
    "start_advertising w opts new_mdns = (adv, m)" "outbound_acts w opts store m = (dial, m')"
  shows "main_watched opts ([listening_said w opts s, Construct TheMdns] @ adv @ [Construct TheDispatcher] @ dial) p
      = Some (answering w opts p)
    \<and> list_all plain_act adv \<and> list_all plain_act dial \<and> running (answering w opts p)"
proof -
  let ?out = "was_given opts OptServer"
  define p1 where "p1 = p\<lparr>mp_alive := TheMdns # mp_alive p, mp_why := False\<rparr>"
  define p2 where "p2 = p1\<lparr>mp_announced := (advertises opts \<and> h_mdns (mw_host w)), mp_why := False\<rparr>"
  define p3 where "p3 = p2\<lparr>mp_alive := TheDispatcher # mp_alive p2, mp_why := False\<rparr>"
  have alive: "mp_alive p2 = TheMdns # mp_alive p" "mp_alive p3 = TheDispatcher # TheMdns # mp_alive p"
    by (simp_all add: p1_def p2_def p3_def)
  have none: "TheMdns \<notin> set (mp_alive p)" "TheDispatcher \<notin> set (mp_alive p)" "TheOutbound \<notin> set (mp_alive p)"
    using assms(3) by (simp_all add: has_obj_def)
  have r: "running p1" "running p2" "running p3" "running (answering w opts p)"
    using assms(1) by (auto simp: p1_def p2_def p3_def answering_def running_def)
  have w1: "main_watched opts [listening_said w opts s, Construct TheMdns] p = Some p1"
    using assms(1) none by (simp add: p1_def listening_said_def act_simps running_def)
  have w2: "main_watched opts adv p1 = Some p2 \<and> list_all plain_act adv"
    using advertising_watched [of p1 w opts new_mdns] r(1) assms(2)
    by (simp add: assms(4) p2_def) (simp add: p1_def has_obj_def)
  have w3: "main_watched opts [Construct TheDispatcher] p2 = Some p3"
    using r(2) none by (simp add: p3_def running_def act_simps alive)
  have "mp_announced p3 \<longrightarrow> \<not> ?out" by (simp add: p3_def p2_def advertises_def)
  then have w4: "main_watched opts dial p3 = Some (if ?out then p3\<lparr>mp_alive := TheOutbound # mp_alive p3, mp_why := False\<rparr> else p3)
      \<and> list_all plain_act dial"
    using outbound_watched [of p3 opts w store m] r(3) none alive(2) by (simp add: assms(5) has_obj_def)
  have "(if ?out then p3\<lparr>mp_alive := TheOutbound # mp_alive p3, mp_why := False\<rparr> else p3) = answering w opts p"
    by (simp add: answering_def p3_def p2_def p1_def)
  then show ?thesis
    unfolding watched_chain [OF w1] watched_chain [OF conjunct1 [OF w2]] watched_chain [OF w3] using w2 w4 r(4) by simp
qed

lemma player_run_keeps:
  assumes "running p" "\<not> mp_announced p" "mp_capturing p = with_source w opts"
    "\<forall>x \<in> {TheMdns, TheDispatcher, TheOutbound, TheHooks}. \<not> has_obj x p"
  shows "keeps opts p (player_run_stage w opts sink store) (\<lambda>_ _. False)"
proof -
  obtain adv m where a: "start_advertising w opts new_mdns = (adv, m)" by fastforce
  obtain dial m' where d: "outbound_acts w opts store m = (dial, m')" by fastforce
  obtain hs pumps gave_up where dr: "drain opts 0 (mw_pumps w) (fold (loop_step opts) (mw_events w) new_hook_state) = (hs, pumps, gave_up)"
    by (metis prod_cases3)
  let ?loop = "map Step (concat (replicate (mw_turns w) (player_turn w opts)))"
  let ?pump = "map Step (concat (replicate pumps [ClientLooped, HooksPolled, Slept]))"
  let ?hook = "if op_hook_start opts \<noteq> [] \<or> op_hook_stop opts \<noteq> [] then [Step HooksWired] else []"
  let ?last = "(if gave_up then [Said LogWarn ''cli'' (''The stream did not end within '' @ to_string SHUTDOWN_DRAIN_MS @
            '' ms of disconnecting -- any --hook-stop has not run'')] else []) @ [Step HooksFlushed, Step HooksUnwired, Step SinkStopped]"
  let ?bye = "[Said LogInfo ''cli'' ''Shutting down'', Step MdnsStopped, Step SocketClosed]
      @ (if with_source w opts then [Step CaptureStopped] else []) @ [Step Disconnected]"
  let ?pre = "[listening_said w opts (''output: '' @ mw_sink_name w sink), Construct TheMdns] @ adv @ [Construct TheDispatcher] @ dial"
  let ?p4 = "answering w opts p"
  have w4: "main_watched opts ?pre p = Some ?p4" "list_all plain_act adv" "list_all plain_act dial" "running ?p4"
    using answering_watched [OF assms(1,2) _ a d] assms(4) by blast+
  define p5 where "p5 = ?p4\<lparr>mp_alive := TheHooks # mp_alive ?p4, mp_why := False\<rparr>"
  have r5: "running p5" using w4(4) by (auto simp: p5_def running_def)
  have nh: "TheHooks \<notin> set (mp_alive ?p4)" using assms(4) by (simp add: answering_def has_obj_def)
  have w5: "main_watched opts (Construct TheHooks # ?hook) ?p4 = Some p5"
    using w4(4) nh unfolding p5_def by (simp add: act_simps running_def)
  have cap: "mp_capturing p5 = with_source w opts" "TheMdns \<in> set (mp_alive p5)" "TheHooks \<in> set (mp_alive p5)"
    "TheDispatcher \<in> set (mp_alive p5)" "was_given opts OptServer \<Longrightarrow> TheOutbound \<in> set (mp_alive p5)"
    using assms(3) by (auto simp: p5_def answering_def)
  have "\<exists>y. main_watched opts ?loop p5 = Some (p5\<lparr>mp_why := y\<rparr>)"
    by (rule turns_stay) (use r5 cap in \<open>auto simp: player_turn_def act_simps running_def\<close>)
  then obtain y where w6: "main_watched opts ?loop p5 = Some (p5\<lparr>mp_why := y\<rparr>)" by blast
  define p7 where "p7 = p5\<lparr>mp_quiet := True, mp_deaf := True, mp_capturing := False, mp_goodbye := True, mp_why := False\<rparr>"
  have w7: "main_watched opts ?bye (p5\<lparr>mp_why := y\<rparr>) = Some p7"
    using r5 cap by (cases "with_source w opts") (auto simp: act_simps running_def p7_def)
  have "\<exists>y. main_watched opts ?pump p7 = Some (p7\<lparr>mp_why := y\<rparr>)"
    by (rule turns_stay) (use r5 cap in \<open>auto simp: act_simps running_def p7_def\<close>)
  then obtain z where w8: "main_watched opts ?pump p7 = Some (p7\<lparr>mp_why := z\<rparr>)" by blast
  have w9: "\<exists>p9. main_watched opts ?last (p7\<lparr>mp_why := z\<rparr>) = Some p9 \<and> leaves 0 p9"
    using r5 cap by (auto simp: act_simps running_def p7_def)
  have k: "player_run_stage w opts sink store = returns (?pre @ (Construct TheHooks # ?hook) @ ?loop @ ?bye @ ?pump @ ?last) 0"
    by (simp add: player_run_stage_def a d shutdown_acts_def dr)
  have "list_all plain_act (?pre @ (Construct TheHooks # ?hook) @ ?loop @ ?bye @ ?pump @ ?last)"
    using w4 by (auto simp: listening_said_def plain_act_def)
  then show ?thesis
    unfolding k keeps_returns watched_chain [OF w4(1)] watched_chain [OF w5] watched_chain [OF w6] watched_chain [OF w7] watched_chain [OF w8]
    using w9 by blast
qed

text \<open>The same without a player.\<close>

definition at_source :: "options \<Rightarrow> bool \<Rightarrow> main_watch" where
  "at_source opts y = (at_client opts y)\<lparr>
     mp_alive := [TheNetwork, TheCapture, TheClient, ThePersistence, TheStore, TheSink, TheControlSocket, ThePidFile],
     mp_source := True, mp_capturing := True, mp_network := True\<rparr>"

lemma source_run_keeps: "keeps opts (at_client opts y) (source_run w opts store) (\<lambda>_ _. False)"
proof -
  obtain adv m where a: "start_advertising w opts new_mdns = (adv, m)" by fastforce
  obtain dial m' where d: "outbound_acts w opts store m = (dial, m')" by fastforce
  let ?loop = "map Step (concat (replicate (mw_turns w) (source_turn opts)))"
  let ?last = "[Said LogInfo ''cli'' ''Shutting down'', Step MdnsStopped, Step SocketClosed, Step CaptureStopped, Step Disconnected, Step SinkStopped]"
  let ?pre = "[listening_said w opts (''roles: source@v1, input: '' @ op_input_device opts), Construct TheMdns] @ adv @ [Construct TheDispatcher] @ dial"
  have s: "keeps opts (at_client opts y) (doing [AddedSource (source_config_of opts), Construct TheCapture, CaptureStarted,
      Construct TheNetwork, NetworkSet] ()) (\<lambda>_ p. p = at_source opts False)"
    by (simp add: at_source_def act_simps at_simps)
  have u: "keeps opts (at_source opts False) (server_stage w opts) (\<lambda>_ p'. p' = (at_source opts False)\<lparr>mp_up := True, mp_why := False\<rparr>)"
    by (rule server_keeps) (simp_all add: at_source_def at_simps setting_up_def)
  define p where "p = (at_source opts False)\<lparr>mp_up := True, mp_why := False\<rparr>"
  have p: "running p" "\<not> mp_announced p" "\<forall>x \<in> {TheMdns, TheDispatcher, TheOutbound}. \<not> has_obj x p" "mp_capturing p"
    by (simp_all add: p_def at_source_def at_simps running_def has_obj_def)
  let ?p4 = "answering w opts p"
  note w4 = answering_watched [OF p(1-3) a d, of "''roles: source@v1, input: '' @ op_input_device opts"]
  have r4: "running ?p4" "mp_capturing ?p4" "\<not> mp_player ?p4" "TheMdns \<in> set (mp_alive ?p4)" "TheDispatcher \<in> set (mp_alive ?p4)"
    "was_given opts OptServer \<Longrightarrow> TheOutbound \<in> set (mp_alive ?p4)"
    using w4 p(4) by (auto simp: answering_def) (simp add: p_def at_source_def at_simps)
  have "\<exists>y. main_watched opts ?loop ?p4 = Some (?p4\<lparr>mp_why := y\<rparr>)"
    by (rule turns_stay) (use r4 in \<open>auto simp: source_turn_def act_simps running_def\<close>)
  then obtain y where w6: "main_watched opts ?loop ?p4 = Some (?p4\<lparr>mp_why := y\<rparr>)" by blast
  have w7: "\<exists>p9. main_watched opts ?last (?p4\<lparr>mp_why := y\<rparr>) = Some p9 \<and> leaves 0 p9"
    using r4 by (auto simp: act_simps running_def)
  have "list_all plain_act (?pre @ ?loop @ ?last)" using w4 by (auto simp: listening_said_def plain_act_def)
  then have "keeps opts p (returns (?pre @ ?loop @ ?last) 0) (\<lambda>_ _. False)"
    unfolding keeps_returns watched_chain [OF conjunct1 [OF w4]] watched_chain [OF w6] using w7 by blast
  then have k: "keeps opts p (let (advertised, m) = start_advertising w opts new_mdns; (dialling, _) = outbound_acts w opts store m
      in returns ([listening_said w opts (''roles: source@v1, input: '' @ op_input_device opts), Construct TheMdns]
           @ advertised @ [Construct TheDispatcher] @ dialling @ ?loop @ ?last) 0) (\<lambda>_ _. False)"
    by (simp add: a d)
  show ?thesis unfolding source_run_def
    by (rule keeps_bind_any [OF s], rule keeps_bind_any, erule ssubst, rule u) (use k in \<open>simp add: p_def\<close>)
qed

lemma player_roles_keeps:
  assumes "formats \<noteq> []" "op_audio_format opts = None \<or> op_audio_format opts = Some (hd formats)"
  shows "keeps opts (at_client opts y) (and_then (roles_stage w opts formats)
    (\<lambda>_. and_then (volume_stage w store) (\<lambda>_. and_then (server_stage w opts)
    (\<lambda>_. player_run_stage w opts sink store)))) (\<lambda>_ _. False)"
proof -
  let ?c = "with_source w opts"
  have u: "keeps opts (at_roles opts ?c True g y) (server_stage w opts)
      (\<lambda>_ p'. p' = (at_roles opts ?c True g y)\<lparr>mp_up := True, mp_why := False\<rparr>)" for g y
    by (rule server_keeps) (simp_all add: at_roles_def at_simps setting_up_def)
  have v: "keeps opts ((at_roles opts ?c True g y)\<lparr>mp_up := True, mp_why := False\<rparr>) (player_run_stage w opts sink store) (\<lambda>_ _. False)" for g y
    by (rule player_run_keeps) (auto simp: at_roles_def at_simps running_def has_obj_def)
  show ?thesis
    by (rule keeps_bind_any [OF roles_keeps [OF assms]], elim exE, erule ssubst, rule keeps_bind_any [OF volume_keeps],
        elim exE, erule ssubst, rule keeps_bind_any [OF u], erule ssubst, rule v)
qed

lemma roles_run_keeps:
  assumes "formats \<noteq> []" "op_audio_format opts = None \<or> op_audio_format opts = Some (hd formats)"
  shows "keeps opts (at_client opts y) (roles_run w opts sink store formats) (\<lambda>_ _. False)"
  using source_run_keeps player_roles_keeps [OF assms] by (simp add: roles_run_def)

lemma quiet_keeps: "keeps opts (at_bare opts y) (quiet_stages w opts) (\<lambda>_ p. \<exists>y. p = at_socket opts y)"
  unfolding quiet_stages_def
  by (rule keeps_bind_any [OF subcommand_keeps], elim exE, erule ssubst,
      rule keeps_bind_any [OF pidfile_probe_keeps], elim exE, erule ssubst,
      rule keeps_bind_any [OF socket_probe_keeps], elim exE, erule ssubst,
      rule keeps_bind_any [OF log_keeps], elim exE, erule ssubst,
      rule keeps_bind_any [OF fork_keeps], elim exE, erule ssubst,
      rule keeps_bind_any [OF pidfile_keeps], elim exE, erule ssubst, rule control_keeps)

lemma client_run_keeps:
  "keeps opts (at_sink opts y) (and_then (store_stage w opts) (\<lambda>store. and_then (formats_stage w opts sink)
     (\<lambda>formats. roles_run w opts sink store formats))) (\<lambda>_ _. False)"
  by (rule keeps_bind_any [OF store_keeps], elim exE, erule ssubst, rule keeps_bind_any [OF formats_keeps],
      elim conjE exE, erule ssubst, rule roles_run_keeps)

lemma main_keeps:
  assumes "parse_options (mw_host w) (mw_argv w) (default_options (mw_host w)) = (ok, opts, err)"
  shows "keeps opts (watch_start opts) (main_body w) (\<lambda>_ _. False)"
  unfolding main_body_def
  by (rule keeps_bind_any [OF options_keeps [OF assms]], elim conjE exE, simp only:,
      rule keeps_bind_any [OF quiet_keeps], elim exE, erule ssubst,
      rule keeps_bind_any [OF sink_keeps], elim exE, erule ssubst, rule client_run_keeps)

section \<open>Leaving\<close>

lemma step_alive: "step_rule opts s p = Some p' \<Longrightarrow> mp_alive p' = mp_alive p"
  by (cases s) (auto simp: allow_def split: if_splits)

lemma rule_alive:
  "main_rule opts a p = Some p' \<Longrightarrow> plain_act a \<Longrightarrow> mp_alive p' = rev (constructed [a]) @ mp_alive p"
  by (cases a) (auto simp: main_rule_def allow_def constructed_def plain_act_def Let_def dest: step_alive split: if_splits)

lemma watched_alive:
  "main_watched opts t p = Some p' \<Longrightarrow> list_all plain_act t \<Longrightarrow> mp_alive p' = rev (constructed t) @ mp_alive p"
proof (induction t arbitrary: p)
  case (Cons a t)
  then obtain q where q: "main_rule opts a p = Some q" "main_watched opts t q = Some p'"
    by (auto split: option.splits if_splits)
  have "constructed (a # t) = constructed [a] @ constructed t" by (simp add: constructed_def)
  then show ?case using Cons rule_alive [OF q(1)] q(2) by simp
qed (simp add: constructed_def)

text \<open>The locks are what everything else stands on: they are made first, and stay until the end.\<close>

definition founded :: "main_watch \<Rightarrow> bool" where
  "founded p \<longleftrightarrow>
     (mp_goes p \<longrightarrow> (\<exists>xs. mp_alive p = xs @ [TheControlSocket, ThePidFile]))
     \<and> (TheSink \<in> set (mp_alive p) \<longrightarrow> mp_goes p)
     \<and> (TheClient \<in> set (mp_alive p) \<longrightarrow> TheSink \<in> set (mp_alive p))
     \<and> (\<forall>ys zs. mp_alive p = ys @ TheCapture # zs \<longrightarrow> {TheClient, TheSink} \<subseteq> set zs)"

lemma founded_update [simp]:
  "founded (p\<lparr>mp_why := b\<rparr>) = founded p" "founded (p\<lparr>mp_capturing := b\<rparr>) = founded p"
  "founded (p\<lparr>mp_up := b\<rparr>) = founded p" "founded (p\<lparr>mp_exit := e\<rparr>) = founded p"
  by (simp_all add: founded_def)

lemma rule_kept:
  assumes "main_rule opts a p = Some p'" "plain_act a" "\<forall>x. a \<noteq> Construct x" "\<forall>g l. a \<noteq> SocketOpened g l"
  shows "mp_goes p' = mp_goes p"
proof -
  have "step_rule opts s q = Some q' \<Longrightarrow> mp_goes q' = mp_goes q" for s q q'
    by (cases s) (auto simp: allow_def split: if_splits)
  then show ?thesis using assms
    by (cases a) (auto simp: main_rule_def allow_def plain_act_def Let_def split: if_splits)
qed

lemma rule_founded:
  assumes "main_rule opts a p = Some p'" "plain_act a" "founded p"
  shows "founded p'"
proof -
  note alive = rule_alive [OF assms(1,2)]
  consider (made) x where "a = Construct x" | (opened) g l where "a = SocketOpened g l"
    | (other) "\<forall>x. a \<noteq> Construct x" "\<forall>g l. a \<noteq> SocketOpened g l" by blast
  then show ?thesis
  proof cases
    case made
    then have n: "mp_alive p' = x # mp_alive p" "mp_goes p' = mp_goes p" "set (refers_to x) \<subseteq> set (mp_alive p)" "timely opts x p"
      using assms(1) by (auto simp: main_rule_def allow_def Let_def timely_def has_obj_def split: if_splits)
    have "{TheClient, TheSink} \<subseteq> set zs" if e: "mp_alive p' = ys @ TheCapture # zs" for ys zs
    proof (cases ys)
      case Nil
      then show ?thesis using e n(1,3) assms(3) by (auto simp: founded_def)
    next
      case (Cons y ys')
      then have "mp_alive p = ys' @ TheCapture # zs" using e n(1) by simp
      then show ?thesis using assms(3) unfolding founded_def by blast
    qed
    moreover have "mp_goes p' \<longrightarrow> (\<exists>xs. mp_alive p' = xs @ [TheControlSocket, ThePidFile])"
      using assms(3) unfolding n founded_def by (metis append_Cons)
    ultimately show ?thesis using assms(3) n by (auto simp: founded_def timely_def has_obj_def)
  next
    case opened
    then have n: "mp_alive p' = [TheControlSocket, ThePidFile]"
      using assms(1) by (auto simp: main_rule_def allow_def Let_def split: if_splits)
    then have "TheCapture \<notin> set (mp_alive p')" by simp
    then have "mp_alive p' \<noteq> ys @ TheCapture # zs" for ys zs by (metis in_set_conv_decomp)
    then show ?thesis using n by (simp add: founded_def)
  next
    case other
    then have "constructed [a] = []" by (cases a) (simp_all add: constructed_def)
    then show ?thesis using alive rule_kept [OF assms(1,2) other] assms(3) by (simp add: founded_def)
  qed
qed

lemma watched_founded:
  "main_watched opts t p = Some p' \<Longrightarrow> list_all plain_act t \<Longrightarrow> founded p \<Longrightarrow> founded p'"
proof (induction t arbitrary: p)
  case (Cons a t)
  then obtain q where q: "main_rule opts a p = Some q" "main_watched opts t q = Some p'"
    by (auto split: option.splits if_splits)
  then show ?case using Cons rule_founded [OF q(1)] by simp
qed simp

lemma founded_below:
  assumes "founded p" "mp_alive p = ys @ TheCapture # zs"
  shows "\<exists>xs. zs = xs @ [TheControlSocket, ThePidFile] \<and> {TheClient, TheSink} \<subseteq> set xs"
proof -
  have s: "{TheClient, TheSink} \<subseteq> set zs" using assms unfolding founded_def by blast
  then have "TheSink \<in> set (mp_alive p)" using assms(2) by simp
  then obtain xs where xs: "mp_alive p = xs @ [TheControlSocket, ThePidFile]"
    using assms(1) unfolding founded_def by blast
  have "length zs \<ge> 2"
  proof (rule ccontr)
    assume "\<not> length zs \<ge> 2"
    then have "zs = [] \<or> (\<exists>z. zs = [z])" by (cases zs; cases "tl zs") auto
    then show False using s by auto
  qed
  then have "length (mp_alive p) - 2 = length (ys @ [TheCapture]) + (length zs - 2)" unfolding assms(2) by simp
  then have "drop (length (mp_alive p) - 2) (mp_alive p) = drop (length zs - 2) (drop (length (ys @ [TheCapture])) (mp_alive p))"
    by (simp add: add.commute)
  then have "drop (length zs - 2) zs = drop (length (mp_alive p) - 2) (mp_alive p)" unfolding assms(2) by simp
  also have "\<dots> = [TheControlSocket, ThePidFile]" unfolding xs by simp
  finally have z: "zs = take (length zs - 2) zs @ [TheControlSocket, ThePidFile]"
    by (metis append_take_drop_id)
  then have "set zs = set (take (length zs - 2) zs) \<union> {TheControlSocket, ThePidFile}"
    by (metis set_append list.set(1) list.simps(15))
  then have "{TheClient, TheSink} \<subseteq> set (take (length zs - 2) zs)" using s by auto
  then show ?thesis using z by blast
qed

text \<open>The capture's thread aborts the unwinding exactly when it was started and its device refused first.\<close>

lemma capture_aborts:
  "st_aborted (source_destroy (capture_thread w t))
     \<longleftrightarrow> CaptureStarted \<in> set t \<and> (case mw_capture w of CaptureRefused # _ \<Rightarrow> True | _ \<Rightarrow> False)"
proof (cases "CaptureStarted \<in> set t")
  case True
  let ?es = "mw_capture w @ (if Step CaptureStopped \<in> set t then [OwnerStops] else [])"
  have "source_destroy (capture_thread w t) = source_life ?es" using True by (simp add: capture_thread_def source_life_def)
  then show ?thesis using True by (simp only: source_life_aborts) (cases "mw_capture w"; simp)
next
  case False
  then show ?thesis using idle_source_ends by (simp add: capture_thread_def del: fold_append)
qed

lemma unwind_last:
  "unwind th c xs \<noteq> []"
  "last (unwind th c xs) = (if TheCapture \<in> set xs \<and> st_aborted (source_destroy th) then Aborted else Exited c)"
  "CaptureStarted \<notin> set (unwind th c xs)"
  by (induction xs) auto

lemma started_is_made:
  assumes "main_watched opts t (watch_start opts) = Some p" "list_all plain_act t" "CaptureStarted \<in> set t"
  shows "TheCapture \<in> set (constructed t)"
proof -
  obtain t1 t2 where t: "t = t1 @ CaptureStarted # t2" using assms(3) by (meson split_list)
  then obtain q where q: "main_watched opts t1 (watch_start opts) = Some q" "main_watched opts (CaptureStarted # t2) q = Some p"
    using assms(1) by (auto split: bind_splits)
  have "mp_alive q = rev (constructed t1) @ mp_alive (watch_start opts)"
    by (rule watched_alive [OF q(1)]) (use assms(2) t in simp)
  moreover have "TheCapture \<in> set (mp_alive q)"
    using q(2) by (auto simp: main_rule_def allow_def Let_def has_obj_def split: option.splits if_splits)
  ultimately show ?thesis by (auto simp: t constructed_def watch_start_def)
qed

text \<open>The capture aborts the process where it is destroyed, and is destroyed last of what is above it.\<close>

lemma unwinding:
  assumes "mp_alive p = xs" "mp_exit p = None" "mp_up p \<longrightarrow> mp_goodbye p" "c = 0 \<or> mp_why p"
  shows "\<exists>p'. main_watched opts (unwind th c xs) p = Some p'
    \<and> (if TheCapture \<in> set xs \<and> st_aborted (source_destroy th)
       then mp_exit p' = Some Terminated \<and> (\<exists>ys. xs = ys @ mp_alive p') \<and> (\<exists>zs. mp_alive p' = TheCapture # zs)
       else mp_exit p' = Some (Returned c) \<and> mp_alive p' = [])"
  using assms
proof (induction xs arbitrary: p)
  case Nil
  then show ?case by (auto simp: main_rule_def allow_def Let_def)
next
  case (Cons x xs)
  show ?case
  proof (cases "x = TheCapture \<and> st_aborted (source_destroy th)")
    case True
    then show ?thesis using Cons.prems by (auto simp: main_rule_def allow_def Let_def)
  next
    case False
    let ?q = "p\<lparr>mp_alive := xs, mp_why := mp_why p\<rparr>"
    have r: "main_rule opts (Destroy x) p = Some ?q"
      using Cons.prems(1,3) by (simp add: main_rule_def allow_def Let_def)
    from Cons.IH [of ?q] Cons.prems(2-4) obtain p' where p': "main_watched opts (unwind th c xs) ?q = Some p'"
      "if TheCapture \<in> set xs \<and> st_aborted (source_destroy th)
       then mp_exit p' = Some Terminated \<and> (\<exists>ys. xs = ys @ mp_alive p') \<and> (\<exists>zs. mp_alive p' = TheCapture # zs)
       else mp_exit p' = Some (Returned c) \<and> mp_alive p' = []"
      by auto
    have "main_watched opts (unwind th c (x # xs)) p = Some p'" using False r p'(1) Cons.prems(2) by auto
    moreover have "\<exists>ys'. x # xs = ys' @ zs" if "xs = ys @ zs" for ys zs using that by (metis append_Cons)
    ultimately show ?thesis using p'(2) False by (auto split: if_splits)
  qed
qed

section \<open>Two runs that are not what they should be\<close>

text \<open>A build without the source role adds the player even to a run that disabled it.\<close>

lemma disabled_player_is_added:
  assumes "\<not> source_build w" "\<not> op_player_enabled opts"
  shows "AddedPlayer (player_config_of formats opts) \<in> set (fst (roles_run w opts sink store formats))"
  using assms by (simp add: roles_run_def roles_stage_def and_then_def doing_def)

text \<open>With \<^verbatim>\<open>-z\<close> a configured pidfile that is taken ends the run before the line that names the config file.\<close>

lemma taken_pidfile_hides_the_config:
  assumes "op_subcommand opts = []" "op_daemonize opts" "op_pidfile opts \<noteq> []" "mw_pid_probe w = (None, FlockBusy)"
  shows "config_said opts \<notin> set (fst (quiet_stages w opts)) \<and> snd (quiet_stages w opts) = Inl 1"
  using assms by (simp add: quiet_stages_def subcommand_stage_def pidfile_probe_stage_def probe_pidfile_def lock_file_def
      and_then_def doing_def returns_def config_said_def)

section \<open>The order\<close>

definition main_options :: "main_world \<Rightarrow> options" where
  "main_options w = fst (snd (parse_options (mw_host w) (mw_argv w) (default_options (mw_host w))))"

text \<open>
  C2. However main() ends, it kept to its order. The watch accepts every act from the start to the one end: a
  run that prints or asks the player makes nothing; before the fork there is no lock, no socket and no device,
  and after it nothing is said to the terminal; the pidfile is taken before the control socket and both before
  the device, which is never opened without them; the store is given to the client before any role, the gain the
  sink applies is reported before a server can connect, what is advertised is not empty and opens with the pinned
  format; advertising, browsing and dialling wait for the server, and no player both advertises and dials; the
  record, the socket and the capture are gone before the goodbye, and the hooks are flushed after it. What was
  constructed is destroyed, the last first, so nothing outlives what it refers to; a status other than 0 is
  returned only right after its reason was given. Main ends by returning, with nothing left, except in one case:
  when a capture was started whose device is refused before anything else becomes of its thread, the destructor
  of the capture aborts the process (\<^verbatim>\<open>std::terminate\<close>, \<^verbatim>\<open>alsa_source.cpp:39\<close>), and then the client, the
  sink, the control socket and the pidfile below it are never destroyed.
\<close>

theorem main_keeps_its_order:
  "\<exists>p. main_watched (main_options w) (main_trace w) (watch_start (main_options w)) = Some p
     \<and> (if CaptureStarted \<in> set (main_trace w) \<and> (case mw_capture w of CaptureRefused # _ \<Rightarrow> True | _ \<Rightarrow> False)
        then mp_exit p = Some Terminated \<and> last (main_trace w) = Aborted
          \<and> (\<exists>xs. mp_alive p = TheCapture # xs @ [TheControlSocket, ThePidFile] \<and> {TheClient, TheSink} \<subseteq> set xs)
        else (\<exists>code. mp_exit p = Some (Returned code) \<and> last (main_trace w) = Exited code) \<and> mp_alive p = [])"
proof -
  obtain ok opts err where o: "parse_options (mw_host w) (mw_argv w) (default_options (mw_host w)) = (ok, opts, err)"
    by (metis prod_cases3)
  have m: "main_options w = opts" by (simp add: main_options_def o)
  obtain t r where b: "main_body w = (t, r)" by fastforce
  obtain p where p: "list_all plain_act t" "main_watched opts t (watch_start opts) = Some p"
    "case r of Inl c \<Rightarrow> leaves c p | Inr x \<Rightarrow> False"
    using main_keeps [OF o] unfolding keeps_def b by auto
  then obtain c where r: "r = Inl c" "leaves c p" by (auto split: sum.splits)
  let ?xs = "rev (constructed t)" and ?th = "capture_thread w t"
  have alive: "mp_alive p = ?xs"
    using watched_alive [OF p(2,1)] by (simp add: watch_start_def)
  have trace: "main_trace w = t @ unwind ?th c ?xs" by (simp add: main_trace_def b r(1))
  have started: "CaptureStarted \<in> set (main_trace w) \<longleftrightarrow> CaptureStarted \<in> set t"
    unfolding trace using unwind_last(3) [of ?th c ?xs] by auto
  have aborts: "TheCapture \<in> set ?xs \<and> st_aborted (source_destroy ?th)
      \<longleftrightarrow> CaptureStarted \<in> set t \<and> (case mw_capture w of CaptureRefused # _ \<Rightarrow> True | _ \<Rightarrow> False)"
    using started_is_made [OF p(2,1)] capture_aborts [of w t] by auto
  obtain p' where p': "main_watched opts (unwind ?th c ?xs) p = Some p'"
    "if TheCapture \<in> set ?xs \<and> st_aborted (source_destroy ?th)
     then mp_exit p' = Some Terminated \<and> (\<exists>ys. ?xs = ys @ mp_alive p') \<and> (\<exists>zs. mp_alive p' = TheCapture # zs)
     else mp_exit p' = Some (Returned c) \<and> mp_alive p' = []"
    using unwinding [OF alive, where c = c and opts = opts and th = ?th] r(2) unfolding leaves_def by fast
  have w: "main_watched opts (main_trace w) (watch_start opts) = Some p'"
    unfolding trace watched_chain [OF p(2)] by (rule p'(1))
  have founded: "founded p" by (rule watched_founded [OF p(2,1)]) (simp add: founded_def watch_start_def)
  have l: "last (main_trace w) = last (unwind ?th c ?xs)" unfolding trace by (simp add: unwind_last(1))
  show ?thesis
  proof (cases "TheCapture \<in> set ?xs \<and> st_aborted (source_destroy ?th)")
    case True
    then obtain ys zs where e: "mp_exit p' = Some Terminated" "?xs = ys @ mp_alive p'" "mp_alive p' = TheCapture # zs"
      using p'(2) by auto
    then have "mp_alive p = ys @ TheCapture # zs" using alive by simp
    from founded_below [OF founded this] show ?thesis
      using w e(1,3) l unwind_last(2) [of ?th c ?xs] True started aborts unfolding m by auto
  next
    case False
    then have "mp_exit p' = Some (Returned c)" "mp_alive p' = []" "last (main_trace w) = Exited c"
      using p'(2) l unwind_last(2) [of ?th c ?xs] by auto
    then show ?thesis using w False started aborts unfolding m by auto
  qed
qed

end
