(* ===== verification/DeviceListing.thy ===== *)
theory DeviceListing
  imports AlsaSink PortAudioDevice PipeWireGraph PulseServer
begin

text \<open>
  What \<^verbatim>\<open>-l\<close> prints: \<^verbatim>\<open>AlsaAudioSink::list_devices\<close> of \<^verbatim>\<open>src/src/alsa_sink.cpp\<close> and \<^verbatim>\<open>print_audio_devices\<close> of
  \<^verbatim>\<open>src/src/audio_sink.cpp\<close>. ALSA's device name hints and what each PCM answers the probe are inputs; the
  listings of the other backends are those of their theories.
\<close>

section \<open>Definitions\<close>

definition ALSA_FORMAT_NAMES :: "string list" where
  "ALSA_FORMAT_NAMES = [''S8'', ''S16_LE'', ''S24_3LE'', ''S32_LE'']"

definition alsa_print_capabilities :: "alsa_pcm \<Rightarrow> string" where
  "alsa_print_capabilities pcm =
     (case probe_capabilities pcm of
        (ProbeBusy, _) \<Rightarrow> ''      (in use -- capabilities unknown)'' @ [NL]
      | (ProbeCannotOpen e, _) \<Rightarrow> ''      (cannot open: '' @ e @ '')'' @ [NL]
      | (ProbeNoInterleaved, _) \<Rightarrow> ''      (no interleaved playback configuration)'' @ [NL]
      | (ProbeOk, caps) \<Rightarrow> print_sink_capabilities caps ALSA_FORMAT_NAMES)"

text \<open>One hint: the three texts \<^verbatim>\<open>snd_device_name_get_hint\<close> may give.\<close>

record alsa_hint =
  ah_name :: "string option"
  ah_desc :: "string option"
  ah_ioid :: "string option"

function desc_lines :: "string \<Rightarrow> string list" where
  "desc_lines line =
     (if line = [] then []
      else case find_char NL line of
        None \<Rightarrow> [line]
      | Some len \<Rightarrow> take len line # desc_lines (drop (len + 1) line))"
  by pat_completeness auto
termination
  by (relation "measure length") (auto dest: find_char_SomeD)

declare desc_lines.simps [simp del]

definition plays_out :: "alsa_hint \<Rightarrow> bool" where
  "plays_out h \<longleftrightarrow> ah_ioid h = None \<or> ah_ioid h = Some ''Output''"

definition hint_entry :: "build_flags \<Rightarrow> (string \<Rightarrow> alsa_pcm) \<Rightarrow> alsa_hint \<Rightarrow> string" where
  "hint_entry b pcms h =
     (case ah_name h of
        None \<Rightarrow> []
      | Some name \<Rightarrow>
          if plays_out h \<and> alsa_pcm_is_reachable b name
          then ''  '' @ name @ [NL]
             @ concat (map (\<lambda>line. ''      '' @ line @ [NL]) (case ah_desc h of None \<Rightarrow> [] | Some d \<Rightarrow> desc_lines d))
             @ alsa_print_capabilities (pcms name)
          else [])"

definition alsa_list_devices :: "build_flags \<Rightarrow> (string \<Rightarrow> alsa_pcm) \<Rightarrow> alsa_hint list option \<Rightarrow> string" where
  "alsa_list_devices b pcms hints =
     (case hints of
        None \<Rightarrow> ''  (could not enumerate ALSA PCMs on this host)'' @ [NL]
      | Some hs \<Rightarrow> concat (map (hint_entry b pcms) hs))"

text \<open>The listings of the backends, and the text around them.\<close>

record device_listings =
  dl_alsa :: string
  dl_pulse :: string
  dl_pipewire :: string
  dl_portaudio :: string

definition devices_intro :: "build_flags \<Rightarrow> string" where
  "devices_intro b =
     ''  null      discard audio; needs no sound card at all'' @ [NL]
     @ ''  stdout    raw interleaved PCM on stdout, e.g. | aplay -f cd'' @ [NL]
     @ ''  -         alias for stdout'' @ [NL]
     @ (if have_portaudio b then ''  portaudio this host'' @ [CHR 0x27] @ ''s default output device, whatever it currently is'' @ [NL]
      else [])
     @ (if have_pulse b then ''  pulse     the PulseAudio server'' @ [CHR 0x27] @ ''s own default sink'' @ [NL]
      else [])
     @ (if have_pipewire b then ''  pipewire  wherever the PipeWire graph routes a playback stream'' @ [NL]
      else [])
     @ [NL]
     @ ''How -o reads its argument, in this order:'' @ [NL]
     @ ''  1. one of the reserved names above;'' @ [NL]
     @ ''  2. <backend>:<device>, split on the FIRST colon, where <backend> is one'' @ [NL]
     @ ''     of: '' @ audio_backend_list b @ '';'' @ [NL]
     @ (if have_alsa b then ''     ALSA device names carry their own colons, which is why the split is on'' @ [NL]
       @ ''     the first one -- -o alsa:hw:2,0 is the alsa backend playing hw:2,0;'' @ [NL]
       @ ''  3. anything else is an ALSA PCM name, so -o hw:2,0 and -o default keep'' @ [NL]
       @ ''     working with no prefix at all.'' @ [NL]
      else ''  3. anything else would be an ALSA PCM name, but this build has no ALSA'' @ [NL]
       @ ''     backend, so only the forms above resolve here.'' @ [NL]
       @ (if have_portaudio b then ''     A PortAudio device is reached through its prefix, never bare -- see the'' @ [NL]
         @ ''     device list below.'' @ [NL]
        else []))
     @ (if have_alsa b \<and> have_pulse b \<and> have_pipewire b then [NL]
       @ ''ALSA ships plugin PCMs called pulse and pipewire too, and on this build'' @ [NL]
       @ ''rule 1 wins: -o pulse and -o pipewire reach the native backends instead. The'' @ [NL]
       @ ''plugin PCMs are still there -- write -o alsa:pulse or -o alsa:pipewire -- and'' @ [NL]
       @ ''they are left out of the list below, because -o cannot reach them bare.'' @ [NL]
      else if have_alsa b \<and> have_pulse b then [NL]
       @ ''ALSA ships a plugin PCM called pulse too, and on this build rule 1 wins:'' @ [NL]
       @ ''-o pulse reaches the native backend instead. The plugin PCM is still there --'' @ [NL]
       @ ''write -o alsa:pulse -- and it is left out of the list below, because -o cannot'' @ [NL]
       @ ''reach it bare.'' @ [NL]
      else if have_alsa b \<and> have_pipewire b then [NL]
       @ ''ALSA ships a plugin PCM called pipewire too, and on this build rule 1 wins:'' @ [NL]
       @ ''-o pipewire reaches the native backend instead. The plugin PCM is still'' @ [NL]
       @ ''there -- write -o alsa:pipewire -- and it is left out of the list below,'' @ [NL]
       @ ''because -o cannot reach it bare.'' @ [NL]
      else [])"

definition devices_sections :: "build_flags \<Rightarrow> device_listings \<Rightarrow> string" where
  "devices_sections b l =
     (if have_alsa b then [NL]
       @ ''ALSA PCMs on this host (any of these names can follow -o):'' @ [NL]
       @ dl_alsa l @ [NL]
       @ ''Hardware PCMs also accept the short hw:<card>,<device> and'' @ [NL]
       @ ''plughw:<card>,<device> forms -- plughw converts rates and formats the'' @ [NL]
       @ ''device itself will not take.'' @ [NL]
       @ [NL]
       @ ''The rates, formats and channel counts above are what each PCM accepts'' @ [NL]
       @ ''directly. A plug-style PCM -- default, plughw:, and most named PCMs from a'' @ [NL]
       @ ''sound server -- reports nearly everything because the plug layer converts,'' @ [NL]
       @ ''so its list says little about the hardware behind it. Only the formats'' @ [NL]
       @ ''sendspin-cli can emit are shown: S8, S16_LE, S24_3LE, S32_LE.'' @ [NL]
      else [NL]
       @ ''This build has no ALSA backend (libasound was missing, or it was configured'' @ [NL]
       @ ''with -DSENDSPIN_CLI_WITH_ALSA=OFF), so it plays through: '' @ audio_backend_list b @ ''.'' @ [NL])
     @ (if have_pulse b then [NL]
       @ ''PulseAudio sinks on this host (-o pulse:<sink>):'' @ [NL]
       @ dl_pulse l @ [NL]
       @ ''The name on each sink'' @ [CHR 0x27] @ ''s own line is what follows -o pulse:; the line under it'' @ [NL]
       @ ''is the description the server shows in a mixer, and the one after that is what'' @ [NL]
       @ ''the sink is currently running at. -o pulse with no sink at all follows'' @ [NL]
       @ ''whichever sink the server calls default, resolved by the server at every'' @ [NL]
       @ ''stream.'' @ [NL]
      else [])
     @ (if have_pipewire b then [NL]
       @ ''PipeWire audio sink nodes on this host (-o pipewire:<node>):'' @ [NL]
       @ dl_pipewire l @ [NL]
       @ ''The name on each node'' @ [CHR 0x27] @ ''s own line is what follows -o pipewire:. Only'' @ [NL]
       @ ''Audio/Sink nodes are listed, since -o cannot play through the others. No'' @ [NL]
       @ ''node is marked as the default: where a playback stream lands with no target'' @ [NL]
       @ ''named is the graph'' @ [CHR 0x27] @ ''s own routing decision, taken per stream and changeable'' @ [NL]
       @ ''while one is running.'' @ [NL]
      else [])
     @ (if have_portaudio b then [NL]
       @ ''PortAudio output devices on this host (-o portaudio:<index|name>):'' @ [NL]
       @ dl_portaudio l @ [NL]
       @ ''The name is the form worth writing down. PortAudio numbers devices as it'' @ [NL]
       @ ''walks each host API, so an index shifts as devices come and go; a name is'' @ [NL]
       @ ''matched in full and case-insensitively, and one that matches more than one'' @ [NL]
       @ ''device is refused rather than guessed at. -o portaudio with no device at all'' @ [NL]
       @ ''follows this host'' @ [CHR 0x27] @ ''s default output, resolved afresh at every stream.'' @ [NL]
       @ [NL]
       @ ''Input-only devices are left out, since -o cannot play through them. The'' @ [NL]
       @ ''rate on the device'' @ [CHR 0x27] @ ''s own line is its default; the rates below it are what it'' @ [NL]
       @ ''will actually take, asked for the same way a stream would ask. Only the four'' @ [NL]
       @ ''formats sendspin-cli can emit are shown, and the host API converts on top of'' @ [NL]
       @ ''them where it must.'' @ [NL]
      else [])"

definition print_audio_devices ::
  "build_flags \<Rightarrow> (string \<Rightarrow> alsa_pcm) \<Rightarrow> alsa_hint list option \<Rightarrow> pulse_answers \<Rightarrow> (string + pw_node list) \<Rightarrow> (string + pa_host) \<Rightarrow> string"
where
  "print_audio_devices b pcms hints server walked host =
     devices_intro b
     @ devices_sections b \<lparr>dl_alsa = alsa_list_devices b pcms hints, dl_pulse = fst (pulse_list_devices server),
         dl_pipewire = pw_list_devices walked, dl_portaudio = pa_list_devices host\<rparr>"

section \<open>What is listed can be played\<close>

definition listed_pcms :: "build_flags \<Rightarrow> alsa_hint list \<Rightarrow> string list" where
  "listed_pcms b hs = concat (map (\<lambda>h. case ah_name h of None \<Rightarrow> []
     | Some name \<Rightarrow> if plays_out h \<and> alsa_pcm_is_reachable b name then [name] else []) hs)"

text \<open>
  Every name ALSA's section prints is a name \<^verbatim>\<open>-o\<close> takes as it stands for that very PCM, and with an ALSA
  backend a PCM that plays out is left out only when \<^verbatim>\<open>-o\<close> reads its name as something else.
\<close>

lemma listed_pcm_is_playable:
  assumes "name \<in> set (listed_pcms b hs)"
  shows "resolve_device_spec b name = Inr \<lparr>ds_backend = Alsa, ds_device = name\<rparr>"
  using assms
  by (auto simp: listed_pcms_def alsa_pcm_is_reachable_def split: option.splits if_splits sum.splits)

lemma listing_is_of_listed:
  "(hint_entry b pcms h = [] \<longleftrightarrow> listed_pcms b [h] = [])
   \<and> (listed_pcms b [h] = [n] \<longrightarrow> (\<exists>more. hint_entry b pcms h = ''  '' @ n @ [NL] @ more))"
  by (auto simp: listed_pcms_def hint_entry_def split: option.splits)

lemma playable_pcm_is_listed:
  assumes "h \<in> set hs" "ah_name h = Some name" "plays_out h" "have_alsa b"
    "resolve_device_spec b name = Inr \<lparr>ds_backend = Alsa, ds_device = name\<rparr>"
  shows "name \<in> set (listed_pcms b hs)"
  using assms by (auto simp: listed_pcms_def alsa_pcm_is_reachable_def intro!: bexI [of _ h])

text \<open>The description is printed whole: its lines are the text cut at the line ends.\<close>

lemma desc_lines_no_NL: "line \<in> set (desc_lines d) \<Longrightarrow> NL \<notin> set line"
proof (induction d rule: desc_lines.induct)
  case (1 d)
  then show ?case
    by (subst (asm) desc_lines.simps) (auto simp: find_char_None split: if_splits option.splits dest: find_char_SomeD)
qed

end
