(* ===== verification/Usage.thy ===== *)
theory Usage
  imports CliParse
begin

text \<open>
  What \<^verbatim>\<open>--help\<close> and \<^verbatim>\<open>--version\<close> print: \<^verbatim>\<open>print_wrapped\<close>, \<^verbatim>\<open>print_usage\<close> and \<^verbatim>\<open>print_version\<close> of
  \<^verbatim>\<open>src/src/cli.cpp\<close>. The defaults it quotes are those of \<open>default_options\<close>.
\<close>

section \<open>Definitions\<close>

definition USAGE_WIDTH :: nat where "USAGE_WIDTH = 79"

text \<open>The pieces between the spaces, as the loop walks them: up to the next one, until the text is used up.\<close>

function text_words :: "string \<Rightarrow> string list" where
  "text_words t =
     (if t = [] then []
      else case find_char CHR '' '' t of
        None \<Rightarrow> [t]
      | Some len \<Rightarrow> take len t # text_words (drop (len + 1) t))"
  by pat_completeness auto
termination
  by (relation "measure length") (auto dest: find_char_SomeD)

declare text_words.simps [simp del]

fun wrap_words :: "nat \<Rightarrow> nat \<Rightarrow> string list \<Rightarrow> string" where
  "wrap_words indent column [] = []"
| "wrap_words indent column (w # ws) =
     (if column > indent \<and> column + 1 + length w > USAGE_WIDTH
      then [NL] @ replicate indent CHR '' '' @ w @ wrap_words indent (indent + length w) ws
      else if column > indent then CHR '' '' # w @ wrap_words indent (column + 1 + length w) ws
      else w @ wrap_words indent (column + length w) ws)"

definition print_wrapped :: "string \<Rightarrow> nat \<Rightarrow> string" where
  "print_wrapped t indent = wrap_words indent indent (text_words t) @ [NL]"

definition subcommand_usage :: "control_subcommand \<Rightarrow> string" where
  "subcommand_usage s =
     (let invocation = sub_name s @ (case sub_argument s of None \<Rightarrow> [] | Some a \<Rightarrow> '' '' @ a)
      in ''  '' @ invocation @ replicate (20 - length invocation) CHR '' '' @ print_wrapped (sub_description s) 22)"

text \<open>\<^verbatim>\<open>%.0f\<close> of a whole number.\<close>

definition whole_dbfs :: "rat \<Rightarrow> string" where
  "whole_dbfs r = (if r < 0 then ''-'' else []) @ to_string (nat \<lfloor>abs r\<rfloor>)"

definition usage_intro :: "string \<Rightarrow> string" where
  "usage_intro prog =
     ''Usage: '' @ prog @ '' [options]'' @ [NL]
     @ ''       '' @ prog @ '' <subcommand> [args] [--port <port>] [--control-socket <path>]'' @ [NL]
     @ [NL]
     @ ''A headless Sendspin audio player. Listens for a Sendspin server to'' @ [NL]
     @ ''connect to it, or dials one with -s.'' @ [NL]
     @ [NL]
     @ ''With a subcommand, it instead talks to a player already running on this'' @ [NL]
     @ ''host over its control socket, and exits. The subcommand must come first.'' @ [NL]
     @ [NL]
     @ ''Subcommands:'' @ [NL]"

definition usage_after_subcommands :: "string" where
  "usage_after_subcommands =
     [NL]
     @ ''  A subcommand needs the same --port as the player, or an explicit'' @ [NL]
     @ ''  --control-socket: the default socket path carries the serve port, so'' @ [NL]
     @ ''  a player on a non-default --port has its socket somewhere else.'' @ [NL]
     @ [NL]
     @ ''  Exit status: 0 sent (or printed), 1 bad command line, 2 the player'' @ [NL]
     @ ''  refused the argument, 3 no player listening there, 4 the player has'' @ [NL]
     @ ''  no server connection, 5 the server does not offer that command,'' @ [NL]
     @ ''  6 the exchange broke down.'' @ [NL]
     @ [NL]
     @ ''Options:'' @ [NL]
     @ ''  Every option below except -l, -z, --config, --help and --version can'' @ [NL]
     @ ''  also be set in a config file, one '' @ [CHR 0x27] @ ''key = value'' @ [CHR 0x27] @ '' per line, where the''
     @ [NL]
     @ ''  key is the long flag name without its dashes ('' @ [CHR 0x27] @ ''buffer-ms = 150'' @ [CHR 0x27] @ '').''
     @ [NL]
     @ ''  '' @ [CHR 0x27] @ ''#'' @ [CHR 0x27] @ '' starts a comment at the start of a line. The command line wins.''
     @ [NL]
     @ ''  The first of these that exists is read whole; none is fine:'' @ [NL]"

definition usage_output :: "cli_host \<Rightarrow> options \<Rightarrow> string" where
  "usage_output h d =
     [NL]
     @ ''  -o, --output <device>'' @ [NL]
     @ ''                Output device (default: '' @ DEFAULT_OUTPUT_DEVICE (h_flags h) @ ''). Either a reserved name''
     @ [NL]
     @ ''                (null, stdout, -), or a <backend>:<device> pair split on'' @ [NL]
     @ ''                the first colon, where <backend> is one of: '' @ audio_backend_list (h_flags h) @ [NL]
     @ (if have_alsa (h_flags h) then ''                Anything else is an ALSA PCM name: -o hw:2,0, -o default'' @ [NL]
      else [])
     @ ''                -l lists this host'' @ [CHR 0x27] @ ''s devices and what they accept'' @ [NL]
     @ ''  -i, --input <device>'' @ [NL]
     @ ''                ALSA capture PCM for source@v1 (default: '' @ op_input_device d @ '')'' @ [NL]
     @ ''  --line-sense <bool>'' @ [NL]
     @ ''                Advertise/report source line sense (default: ''
     @ (if op_line_sense d then ''true'' else ''false'') @ '')'' @ [NL]
     @ ''  --line-sense-dbfs <dBFS>'' @ [NL]
     @ ''                Signal threshold, '' @ whole_dbfs MIN_LINE_SENSE_DBFS @ ''..'' @ whole_dbfs MAX_LINE_SENSE_DBFS
     @ '' dBFS (default: '' @ whole_dbfs (op_line_sense_dbfs d) @ '')'' @ [NL]
     @ ''  --line-sense-attack-ms <ms>'' @ [NL]
     @ ''                Continuous signal before present (default: '' @ to_string (unat (op_line_sense_attack_ms d))
     @ '' ms)'' @ [NL]
     @ ''  --line-sense-release-ms <ms>'' @ [NL]
     @ ''                Continuous silence before absent (default: '' @ to_string (unat (op_line_sense_release_ms d))
     @ '' ms)'' @ [NL]
     @ ''  --source-stream-style <legacy|spec>'' @ [NL]
     @ ''                Source stream control spelling: legacy client_stream or spec client-stream'' @ [NL]
     @ ''  -l            List output devices with their capabilities, and exit'' @ [NL]"

definition usage_server :: "cli_host \<Rightarrow> string" where
  "usage_server h =
     ''  -n, --name <name>'' @ [NL]
     @ ''                Friendly name (default: this host'' @ [CHR 0x27] @ ''s name)'' @ [NL]
     @ ''  --id <id>     Stable client id, which is what a server files this'' @ [NL]
     @ ''                player'' @ [CHR 0x27] @ ''s volume, group and pairing under -- -n is only'' @ [NL]
     @ ''                what it displays. Defaults to an id derived from the'' @ [NL]
     @ ''                network interface MAC, which two players on one host'' @ [NL]
     @ ''                would share: give each its own --id (and its own'' @ [NL]
     @ ''                --port and --state-dir)'' @ [NL]
     @ ''  -s, --server <server>'' @ [NL]
     @ ''                Connect out to <host>[:<port>] or a ws:// URL'' @ [NL]
     @ ''                (the server'' @ [CHR 0x27] @ ''s port defaults to ''
     @ to_string (unat DEFAULT_REMOTE_SERVER_PORT) @ ''), retrying until it'' @ [NL]
     @ ''                answers. Any -s turns off the mDNS advertisement: the'' @ [NL]
     @ ''                spec forbids advertising '' @ MDNS_CLIENT_SERVICE @ '' while'' @ [NL]
     @ ''                the client is the one initiating the connection'' @ [NL]
     @ (if h_mdns h then ''                -s '' @ DISCOVERY_PREFIX @ ''<name> instead discovers a server over mDNS,'' @ [NL]
       @ ''                by its advertised name; -s '' @ DISCOVERY_PREFIX @ '' takes any server.'' @ [NL]
       @ ''                '' @ [CHR 0x27] @ DISCOVERY_PREFIX @ [CHR 0x27]
       @ '' is reserved before the first colon only, so a'' @ [NL]
       @ ''                bare -s mdns is still a host called mdns'' @ [NL]
      else ''                (-s '' @ DISCOVERY_PREFIX @ ''<name> discovery needs mDNS, which this build'' @ [NL]
       @ ''                does not have)'' @ [NL])"

definition usage_daemon :: "string" where
  "usage_daemon =
     ''  -z            Fork into the background and detach from the terminal.'' @ [NL]
     @ ''                Refuses -o stdout, whose output would go to /dev/null;'' @ [NL]
     @ ''                warns without -f, which is where the log would go'' @ [NL]
     @ ''  -P, --pidfile <path>'' @ [NL]
     @ ''                Hold <path> as a locked pidfile, refusing to start if'' @ [NL]
     @ ''                another instance already holds it. A file left by a'' @ [NL]
     @ ''                crash needs no cleanup; keep it on a local filesystem'' @ [NL]
     @ ''  -d, --log-level <level>'' @ [NL]
     @ ''                Log level: none, error, warn, info, debug, verbose'' @ [NL]
     @ ''                One level for this player and the sendspin library'' @ [NL]
     @ ''                together. Accepts squeezelite'' @ [CHR 0x27] @ ''s <category>=<level>'' @ [NL]
     @ ''                shape, but the category is ignored: every line is'' @ [NL]
     @ ''                '' @ [CHR 0x27] @ ''<L> <tag>: <message>'' @ [CHR 0x27] @ '', so filter it with grep'' @ [NL]
     @ ''  -f, --logfile <path>'' @ [NL]
     @ ''                Write log output to <path> instead of stderr, with a'' @ [NL]
     @ ''                UTC timestamp on every line. SIGHUP reopens the path,'' @ [NL]
     @ ''                so logrotate and newsyslog can rotate it'' @ [NL]
     @ ''  --config <path>'' @ [NL]
     @ ''                Read this config file instead of searching. Exits 1 if'' @ [NL]
     @ ''                it cannot be read, since you named it -- falling back'' @ [NL]
     @ ''                would start a player on options nobody chose'' @ [NL]"

definition usage_player :: "string" where
  "usage_player =
     ''  --port <port> Port our own server listens on (default: '' @ to_string (unat DEFAULT_SERVER_PORT) @ '')'' @ [NL]
     @ ''  --buffer-ms <ms>'' @ [NL]
     @ ''                Audio the output backend keeps buffered, '' @ to_string (unat MIN_BUFFER_MS) @ ''-''
     @ to_string (unat MAX_BUFFER_MS) @ [NL]
     @ ''                (default: '' @ to_string (unat DEFAULT_BUFFER_MS) @ ''). One figure for every backend; a'' @ [NL]
     @ ''                device-less sink ignores it, and a device that needs'' @ [NL]
     @ ''                more than it asks for gets more'' @ [NL]
     @ ''  --audio-format <codec:rate:depth:channels>'' @ [NL]
     @ ''                Pin a preferred format, e.g. flac:48000:24:2 -- for the'' @ [NL]
     @ ''                DAC that is only happy in one shape. Moves that entry to'' @ [NL]
     @ ''                the front of the advertised list, where a server picks'' @ [NL]
     @ ''                first; the rest of what the device takes is still'' @ [NL]
     @ ''                offered behind it. A format the advertised list does'' @ [NL]
     @ ''                not carry refuses to start -- run -l to see what the'' @ [NL]
     @ ''                device reports -- not the same set as what goes out'' @ [NL]
     @ ''  --static-delay <ms>'' @ [NL]
     @ ''                How much latency this endpoint'' @ [CHR 0x27] @ ''s hardware adds AFTER the'' @ [NL]
     @ ''                audio port -- an amplifier, an external speaker, a DSP.'' @ [NL]
     @ ''                0-'' @ to_string MAX_STATIC_DELAY_MS @ '', default 0. The player hands audio to the device''
     @ [NL]
     @ ''                that much EARLIER to compensate, so the sound lands in'' @ [NL]
     @ ''                sync with the group rather than late. It does not push'' @ [NL]
     @ ''                this speaker later than the others.'' @ [NL]
     @ ''                A FIRST-RUN DEFAULT only: a delay a server or'' @ [NL]
     @ ''                '' @ [CHR 0x27] @ ''sendspin-cli delay'' @ [CHR 0x27] @ '' has set is remembered, and the''
     @ [NL]
     @ ''                remembered one wins over this flag every run after.'' @ [NL]
     @ ''                Use '' @ [CHR 0x27] @ ''delay <ms>'' @ [CHR 0x27] @ '' to change a running player'' @ [NL]"

definition usage_control :: "cli_host \<Rightarrow> string" where
  "usage_control h =
     ''  --no-mdns     Do not advertise over mDNS (no effect with -s, which'' @ [NL]
     @ ''                already suppresses it)'' @ [NL]
     @ ''  --mdns-name <name>'' @ [NL]
     @ ''                Instance name to advertise (default: -n). Unused with -s'' @ [NL]
     @ ''  --control-socket <path>'' @ [NL]
     @ ''                Unix socket the subcommands above talk to, mode 0600.'' @ [NL]
     @ ''                Defaults to '' @ CONTROL_SOCKET_PREFIX @ ''<port>'' @ CONTROL_SOCKET_SUFFIX @ '' in'' @ [NL]
     @ ''                $XDG_RUNTIME_DIR, where that is set. The <port> is'' @ [NL]
     @ ''                --port, so two players on one host each get their own --'' @ [NL]
     @ ''                and a subcommand needs the same --port or this flag'' @ [NL]
     @ (if rt_apple (h_runtime h) then ''                Where it is not set, as on macOS, this host'' @ [CHR 0x27] @ ''s own'' @ [NL]
       @ ''                per-user directory is used instead. Never /tmp, which'' @ [NL]
       @ ''                would let any local user drive this player'' @ [NL]
      else ''                Where it is not set -- a systemd *system* unit has none,'' @ [NL]
       @ ''                so pair RuntimeDirectory= with this flag -- there is no'' @ [NL]
       @ ''                default and the player warns once. There is deliberately'' @ [NL]
       @ ''                no /tmp fallback, which would let any local user drive'' @ [NL]
       @ ''                this player'' @ [NL])
     @ ''  --no-control  Do not listen on a control socket at all'' @ [NL]"

definition usage_rest :: "string" where
  "usage_rest =
     ''  --state-dir <dir>'' @ [NL]
     @ ''                Where this player keeps what it remembers across'' @ [NL]
     @ ''                restarts -- the last server, the static delay a server'' @ [NL]
     @ ''                set, and its volume and mute. Defaults to'' @ [NL]
     @ ''                $XDG_STATE_HOME/sendspin-cli, or'' @ [NL]
     @ ''                $HOME/.local/state/sendspin-cli. A systemd *system*'' @ [NL]
     @ ''                unit has neither, so pair StateDirectory= with this'' @ [NL]
     @ ''                flag; with none of the three the player still runs and'' @ [NL]
     @ ''                simply remembers nothing'' @ [NL]
     @ ''  --manufacturer <text>'' @ [NL]
     @ ''  --product-name <text>'' @ [NL]
     @ ''                The device info client/hello carries, shown in server'' @ [NL]
     @ ''                device lists (defaults: sendspin-cpp-cli, sendspin-cli).'' @ [NL]
     @ ''                For a product that embeds this player and should be'' @ [NL]
     @ ''                listed as itself'' @ [NL]
     @ ''  --hook-start <command>'' @ [NL]
     @ ''  --hook-stop <command>'' @ [NL]
     @ ''                Run <command> through /bin/sh when a stream starts or'' @ [NL]
     @ ''                stops -- an amplifier relay, a light. The event'' @ [CHR 0x27] @ ''s facts'' @ [NL]
     @ ''                arrive as SENDSPIN_EVENT (start|stop) and, where known,'' @ [NL]
     @ ''                SENDSPIN_SERVER_ID, SENDSPIN_SERVER_NAME,'' @ [NL]
     @ ''                SENDSPIN_SERVER_URL (outbound only), SENDSPIN_CLIENT_ID'' @ [NL]
     @ ''                and SENDSPIN_CLIENT_NAME. The hook runs without blocking'' @ [NL]
     @ ''                playback; its output goes to the log, and a non-zero'' @ [NL]
     @ ''                exit is a warning, not a player failure'' @ [NL]
     @ ''  -h, --help    Show this help'' @ [NL]
     @ ''  --version     Show version information'' @ [NL]
     @ [NL]
     @ ''This is an early scaffold; see docs/ROADMAP.md for what is still missing.'' @ [NL]"

definition print_usage :: "cli_host \<Rightarrow> string \<Rightarrow> string" where
  "print_usage h prog =
     (let d = default_options h in
      usage_intro prog @ concat (map subcommand_usage control_subcommands) @ usage_after_subcommands
      @ concat (map (\<lambda>path. ''    '' @ path @ [NL]) (config_search_paths (h_env h)))
      @ usage_output h d @ usage_server h @ usage_daemon @ usage_player @ usage_control h @ usage_rest)"

definition print_version :: "string \<Rightarrow> string \<Rightarrow> string" where
  "print_version version lib_tag = ''sendspin-cli '' @ version @ [NL] @ ''sendspin-cpp '' @ lib_tag @ [NL]"

section \<open>The table wraps\<close>

text \<open>The rightmost column a text reaches that starts in a column.\<close>

fun widest :: "nat \<Rightarrow> string \<Rightarrow> nat" where
  "widest c [] = c"
| "widest c (x # xs) = (if x = NL then max c (widest 0 xs) else widest (c + 1) xs)"

lemma widest_ge: "c \<le> widest c s"
  by (induction c s rule: widest.induct) auto

lemma widest_word [simp]: "NL \<notin> set w \<Longrightarrow> widest c (w @ s) = widest (c + length w) s"
  by (induction w arbitrary: c) auto

lemma widest_spaces [simp]: "widest c (replicate n CHR '' '' @ s) = widest (c + n) s"
  by (induction n arbitrary: c) simp_all

lemma wrap_words_fit:
  "column \<le> USAGE_WIDTH \<Longrightarrow> indent \<le> column \<Longrightarrow> \<forall>w \<in> set ws. NL \<notin> set w \<and> indent + length w \<le> USAGE_WIDTH \<Longrightarrow>
     widest column (wrap_words indent column ws) \<le> USAGE_WIDTH"
proof (induction ws arbitrary: column)
  case (Cons w ws)
  then show ?case by auto
qed simp

text \<open>Only spaces become line ends: what is not layout is printed as it is.\<close>

definition is_layout :: "char \<Rightarrow> bool" where
  "is_layout c \<longleftrightarrow> c = CHR '' '' \<or> c = NL"

lemma wrap_words_keep:
  "filter (\<lambda>c. \<not> is_layout c) (wrap_words indent column ws) = concat (map (filter (\<lambda>c. \<not> is_layout c)) ws)"
  by (induction indent column ws rule: wrap_words.induct) (auto simp: is_layout_def)

lemma text_words_keep: "concat (map (filter (\<lambda>c. \<not> is_layout c)) (text_words t)) = filter (\<lambda>c. \<not> is_layout c) t"
proof (induction t rule: text_words.induct)
  case (1 t)
  show ?case
  proof (cases "find_char CHR '' '' t")
    case None
    then show ?thesis by (subst text_words.simps) simp
  next
    case (Some n)
    have "t = take n t @ CHR '' '' # drop (n + 1) t"
      using find_char_SomeD [OF Some] by (metis Suc_eq_plus1 id_take_nth_drop)
    then have "filter (\<lambda>c. \<not> is_layout c) t = filter (\<lambda>c. \<not> is_layout c) (take n t) @ filter (\<lambda>c. \<not> is_layout c) (drop (n + 1) t)"
      by (metis append_Cons filter.simps(2) filter_append is_layout_def)
    moreover have "t \<noteq> []" using Some by auto
    ultimately show ?thesis using 1 [OF _ Some] Some by (subst text_words.simps) simp
  qed
qed

lemma print_wrapped_keeps:
  "filter (\<lambda>c. \<not> is_layout c) (print_wrapped t indent) = filter (\<lambda>c. \<not> is_layout c) t"
  by (simp add: print_wrapped_def wrap_words_keep text_words_keep) (simp add: is_layout_def)

lemma print_wrapped_fits:
  assumes "indent \<le> USAGE_WIDTH" "\<forall>w \<in> set (text_words t). NL \<notin> set w \<and> indent + length w \<le> USAGE_WIDTH"
  shows "widest indent (wrap_words indent indent (text_words t)) \<le> USAGE_WIDTH"
  using wrap_words_fit [OF assms(1) order_refl assms(2)] .

text \<open>So does every row of the subcommand table.\<close>

lemma subcommand_table_fits:
  "list_all (\<lambda>s. widest 22 (wrap_words 22 22 (text_words (sub_description s))) \<le> USAGE_WIDTH
     \<and> length (sub_name s @ (case sub_argument s of None \<Rightarrow> [] | Some a \<Rightarrow> '' '' @ a)) \<le> 20) control_subcommands"
  by code_simp

end
