(* ===== verification/PersistenceProvider.thy ===== *)
theory PersistenceProvider
  imports StateStore
begin

text \<open>
  \<^verbatim>\<open>CliPersistenceProvider\<close> of \<^verbatim>\<open>src/src/main.cpp\<close>: what the sendspin-cpp library saves and loads through it,
  each answered out of the state store. The library's six pairs of calls are two data types.
\<close>

section \<open>Definitions\<close>

datatype provider_save =
  SaveServerHash u32
| SaveStaticDelay u16
| SavePrivateKey string
| SavePairingPsk string
| SavePairing string string
| SaveValue string string

datatype provider_load =
  LoadServerHash
| LoadStaticDelay
| LoadPrivateKey
| LoadPairingPsk
| LoadPairings
| LoadValue string

datatype provider_answer =
  NumberAnswer "nat option"
| TextAnswer "string option"
| PairingsAnswer "(string \<times> string) list"

fun provider_saves ::
  "syscalls \<Rightarrow> provider_save \<Rightarrow> state_store \<Rightarrow> file_system \<Rightarrow> bool \<times> state_store \<times> file_system list"
where
  "provider_saves sys (SaveServerHash h) s files = set_last_server_hash sys h s files"
| "provider_saves sys (SaveStaticDelay d) s files = set_static_delay_ms sys d s files"
| "provider_saves sys (SavePrivateKey k) s files = set_security_private_key sys k s files"
| "provider_saves sys (SavePairingPsk p) s files = set_pairing_psk sys p s files"
| "provider_saves sys (SavePairing i p) s files = set_pairing_record sys i p s files"
| "provider_saves sys (SaveValue k v) s files = set_security_value sys k v s files"

fun provider_loads :: "provider_load \<Rightarrow> state_store \<Rightarrow> provider_answer" where
  "provider_loads LoadServerHash s = NumberAnswer (map_option unat (last_server_hash s))"
| "provider_loads LoadStaticDelay s = NumberAnswer (map_option unat (static_delay_ms s))"
| "provider_loads LoadPrivateKey s = TextAnswer (security_private_key s)"
| "provider_loads LoadPairingPsk s = TextAnswer (pairing_psk s)"
| "provider_loads LoadPairings s = PairingsAnswer (pairing_records s)"
| "provider_loads (LoadValue k) s = TextAnswer (security_value s k)"

section \<open>What is saved is what the next run loads\<close>

text \<open>The pair a save puts into the file.\<close>

fun saved_pair :: "provider_save \<Rightarrow> string \<times> string" where
  "saved_pair (SaveServerHash h) = (KEY_LAST_SERVER_HASH, to_string (unat h))"
| "saved_pair (SaveStaticDelay d) = (KEY_STATIC_DELAY_MS, to_string (unat d))"
| "saved_pair (SavePrivateKey k) = (KEY_SECURITY_PRIVATE_KEY, k)"
| "saved_pair (SavePairingPsk p) = (KEY_PAIRING_PSK, p)"
| "saved_pair (SavePairing i p) = (KEY_PAIRING_PREFIX @ i, p)"
| "saved_pair (SaveValue k v) = (SECURITY_EXTRA @ k, v)"

text \<open>What the saved fact changes of an answer; an empty value is one the load does not find.\<close>

fun answer_after :: "provider_save \<Rightarrow> provider_load \<Rightarrow> provider_answer \<Rightarrow> provider_answer \<Rightarrow> bool" where
  "answer_after (SaveServerHash h) LoadServerHash a b \<longleftrightarrow> b = NumberAnswer (Some (unat h))"
| "answer_after (SaveStaticDelay d) LoadStaticDelay a b \<longleftrightarrow> b = NumberAnswer (Some (unat d))"
| "answer_after (SavePrivateKey k) LoadPrivateKey a b \<longleftrightarrow> b = TextAnswer (Some k)"
| "answer_after (SavePairingPsk p) LoadPairingPsk a b \<longleftrightarrow> b = TextAnswer (Some p)"
| "answer_after (SavePairing i p) LoadPairings a b \<longleftrightarrow>
     (case (a, b) of (PairingsAnswer xs, PairingsAnswer ys) \<Rightarrow> set ys = {x \<in> set xs. fst x \<noteq> i} \<union> {(i, p)} | _ \<Rightarrow> False)"
| "answer_after (SaveValue k v) (LoadValue l) a b \<longleftrightarrow>
     b = (if l = k then TextAnswer (if v = [] then None else Some v) else a)"
| "answer_after q l a b \<longleftrightarrow>
     (case (a, b) of (PairingsAnswer xs, PairingsAnswer ys) \<Rightarrow> set ys = set xs | _ \<Rightarrow> b = a)"

lemmas provider_keys = KEY_LAST_SERVER_HASH_def KEY_STATIC_DELAY_MS_def KEY_SECURITY_PRIVATE_KEY_def KEY_PAIRING_PSK_def
  KEY_PAIRING_PREFIX_def SECURITY_EXTRA_def

lemma provider_saves_pair:
  "provider_saves sys q s files = (True, s', trace) \<Longrightarrow>
     set_all sys [saved_pair q] s files = (True, s', trace) \<and> (\<forall>i p. q = SavePairing i p \<longrightarrow> i \<noteq> [] \<and> p \<noteq> [])
     \<and> (\<forall>k. q = SavePrivateKey k \<or> q = SavePairingPsk k \<longrightarrow> k \<noteq> []) \<and> (\<forall>k v. q = SaveValue k v \<longrightarrow> k \<noteq> [])"
  by (cases q) (auto simp: set_last_server_hash_def set_static_delay_ms_def set_security_private_key_def set_pairing_psk_def
      set_pairing_record_def set_security_value_def split: if_splits)

text \<open>Every answer but the pairings' is read off one key.\<close>

lemma loads_same:
  assumes "map_find (store_values r) = (map_find (store_values s))(k \<mapsto> v)"
  shows "k \<noteq> KEY_LAST_SERVER_HASH \<Longrightarrow> provider_loads LoadServerHash r = provider_loads LoadServerHash s"
    "k \<noteq> KEY_STATIC_DELAY_MS \<Longrightarrow> provider_loads LoadStaticDelay r = provider_loads LoadStaticDelay s"
    "k \<noteq> KEY_SECURITY_PRIVATE_KEY \<Longrightarrow> provider_loads LoadPrivateKey r = provider_loads LoadPrivateKey s"
    "k \<noteq> KEY_PAIRING_PSK \<Longrightarrow> provider_loads LoadPairingPsk r = provider_loads LoadPairingPsk s"
    "k \<noteq> SECURITY_EXTRA @ l \<Longrightarrow> provider_loads (LoadValue l) r = provider_loads (LoadValue l) s"
  using assms by (simp_all add: last_server_hash_def static_delay_ms_def get_number_def state_get_def
      security_private_key_def pairing_psk_def security_value_def)

lemma pairings_after:
  assumes "map_find (store_values r) = (map_find (store_values s))(k \<mapsto> v)" "map_wf (store_values r)" "map_wf (store_values s)"
  shows "(\<forall>i. k \<noteq> KEY_PAIRING_PREFIX @ i) \<Longrightarrow> set (pairing_records r) = set (pairing_records s)"
    "k = KEY_PAIRING_PREFIX @ i \<Longrightarrow> i \<noteq> [] \<Longrightarrow> v \<noteq> [] \<Longrightarrow>
       set (pairing_records r) = {x \<in> set (pairing_records s). fst x \<noteq> i} \<union> {(i, v)}"
  using assms(1) pairing_records_lookup [OF assms(2)] pairing_records_lookup [OF assms(3)] by (auto split: if_splits)

text \<open>
  What one line of the file can hold. A number always does. A text does when it has no newline or NUL, no
  blank at an end, no carriage return as its last character, and fits the longest line that is read;
  a name (a server id, a security key) must moreover hold no \<open>=\<close>. Nothing in the code checks a text for this:
  \<open>newline_in_value_corrupts_store\<close> of StateStore shows what a text outside it does.
\<close>

fun holdable :: "provider_save \<Rightarrow> bool" where
  "holdable (SaveServerHash _) \<longleftrightarrow> True"
| "holdable (SaveStaticDelay _) \<longleftrightarrow> True"
| "holdable (SavePrivateKey k) \<longleftrightarrow> kv_clean KEY_SECURITY_PRIVATE_KEY k"
| "holdable (SavePairingPsk p) \<longleftrightarrow> kv_clean KEY_PAIRING_PSK p"
| "holdable (SavePairing i p) \<longleftrightarrow> kv_clean (KEY_PAIRING_PREFIX @ i) p"
| "holdable (SaveValue k v) \<longleftrightarrow> kv_clean (SECURITY_EXTRA @ k) v"

lemma holdable_clean: "holdable q \<Longrightarrow> kv_clean (fst (saved_pair q)) (snd (saved_pair q))"
  by (cases q) (simp_all only: saved_pair.simps holdable.simps fst_conv snd_conv clean_settings)

text \<open>
  C15. What the library saves through its persistence provider is loaded back in the next run, for every number,
  and for every text that one line of the file can hold (\<open>holdable\<close>; the code accepts others too, with the
  result \<open>newline_in_value_corrupts_store\<close> shows). After such a save that was answered true, from the file as it
  is then, the matching load gives what was saved at its full range (a pairing record replaces only its own
  server's), every other load gives what it gave before, and the store is again one whose file agrees with it, so
  that the next save is covered too.
\<close>

theorem provider_remembers:
  assumes "store_clean s" "store_path s \<noteq> []" "on_disk files s"
    "holdable q" "provider_saves sys q s files = (True, s', trace)"
  shows "answer_after q l (provider_loads l s) (provider_loads l (reloaded (last trace) (store_path s)))
     \<and> store_clean s' \<and> store_path s' = store_path s \<and> on_disk (last trace) s'"
proof -
  let ?r = "reloaded (last trace) (store_path s)"
  note q = provider_saves_pair [OF assms(5)]
  have c: "\<forall>(k, v) \<in> set [saved_pair q]. kv_clean k v" using holdable_clean [OF assms(4)] by (simp add: split_beta)
  have r: "map_find (store_values ?r) = (map_find (store_values s))(fst (saved_pair q) \<mapsto> snd (saved_pair q))"
    using set_all_reloaded [OF assms(1-3) c conjunct1 [OF q]] by (simp add: map_add_def fun_eq_iff split_beta)
  have wf: "map_wf (store_values s)" "map_wf (store_values ?r)"
    using assms(1) memory_stays_on_disk_lemma [OF assms(1-3) c conjunct1 [OF q]]
      set_all_all_or_nothing_lemma [OF _ conjunct1 [OF q]] reloaded_on_disk [of "last trace" s']
    by (auto simp: store_clean_def)
  note same = loads_same [OF r] and pairs = pairings_after [OF r wf(2,1)]
  have num: "get_number ?r KEY_LAST_SERVER_HASH (2 ^ 32 - 1) = Some (unat h)" if "q = SaveServerHash h" for h
    by (rule get_set_number) (use that r unat_u32_le [of h] in \<open>simp_all add: ULLONG_MAX_def\<close>)
  have num': "get_number ?r KEY_STATIC_DELAY_MS (2 ^ 16 - 1) = Some (unat d)" if "q = SaveStaticDelay d" for d
    by (rule get_set_number) (use that r unat_u16_le [of d] in \<open>simp_all add: ULLONG_MAX_def\<close>)
  have "answer_after q l (provider_loads l s) (provider_loads l ?r)"
    using q same pairs num num' r
    by (cases q; cases l) (auto simp: last_server_hash_def static_delay_ms_def security_private_key_def pairing_psk_def
        security_value_def state_get_def provider_keys)
  then show ?thesis
    using memory_stays_on_disk_lemma [OF assms(1-3) c conjunct1 [OF q]]
      set_all_all_or_nothing_lemma [OF wf(1) conjunct1 [OF q]] by blast
qed

theorem provider_remembers_witness:
  "holdable (SavePairing ''living room'' ''c2VjcmV0'')
   \<and> (\<exists>s2 trace. provider_saves all_calls_ok (SaveStaticDelay 250) (StateStore ''s'') Map.empty = (True, s2, trace)
     \<and> provider_loads LoadStaticDelay (reloaded (last trace) ''s'') = NumberAnswer (Some 250)
     \<and> on_disk (last trace) s2)"
proof -
  let ?s = "StateStore ''s''" and ?q = "SaveStaticDelay 250"
  obtain s2 trace where w: "provider_saves all_calls_ok ?q ?s Map.empty = (True, s2, trace)"
    using first_write_succeeds [of KEY_STATIC_DELAY_MS "to_string (unat (250 :: u16))"]
      surj_pair [of "snd (provider_saves all_calls_ok ?q ?s Map.empty)"]
    unfolding provider_saves.simps set_static_delay_ms_def by metis
  have c: "store_clean ?s" "on_disk Map.empty ?s" and p: "store_path ?s = ''s''"
    by (simp_all add: store_clean_def StateStore_def on_disk_def state_load_def read_key_value_file_def)
  have "holdable (SavePairing ''living room'' ''c2VjcmV0'')" by code_simp
  then show ?thesis using provider_remembers [OF c(1) _ c(2) _ w, of LoadStaticDelay] w p by auto
qed

end
