(* ===== verification/Spec2Isabelle.thy ===== *)
theory Spec2Isabelle
  imports ConfigFile SinkRecovery Outbound PcmRing PcmVolume ControlWire SupportedFormats DeviceSpec CliParse MdnsMachine Hooks Listener ControlServer
    ControlClient Dispatcher OutboundMode StreamHooks AlsaSource AlsaSink NullSink ControlOpen PortAudioSink PipeWireSink PulseSink LogFile MainSafety DeviceListing Usage PersistenceProvider
begin

text \<open>
  A model of sendspin-cli, the command-line player of the Sendspin protocol (C++ sources under
  \<^verbatim>\<open>src/src/\<close>): one process that plays the audio a Sendspin server sends through one of six outputs,
  captures a line input when it is built and asked to, can run as a daemon, is driven by its server or by
  one-line requests on a Unix socket, finds and is found by servers over mDNS, and remembers a few facts in a
  state file. The protocol itself, the clock and the decoding are in the sendspin-cpp library, which is not
  part of the repository.

  Parts and how they interact. \<^verbatim>\<open>main()\<close> parses the options (command line over config file), and either
  prints, asks a running player (control client), or becomes the player: it takes the pidfile and the control
  socket, opens the output, loads the state, gives the client its roles with what was remembered, starts the
  server, advertises or dials, and turns its loop. The library calls the player listener on its own thread with
  audio, which goes to the sink's \<^verbatim>\<open>write()\<close>; the sink's device thread pulls it (PortAudio, PipeWire), or the
  write pushes it (ALSA, PulseAudio, stdout). The loop polls the sink for recovery, the control socket, mDNS,
  the dialler, the hooks and the log's rotation.

  Theories and code, in the order they build on each other:
  \<^item> \<open>Prelude\<close>, \<open>StdMap\<close>, \<open>Handles\<close>: integers at their width, the string functions the code uses,
    \<^verbatim>\<open>std::map\<close>, and owned library handles. \<open>AudioTypes\<close>: the data of \<^verbatim>\<open>audio_sink.h\<close>.
  \<^item> \<open>KeyValueFile\<close>, \<open>ConfigFile\<close>, \<open>StateStore\<close>: \<^verbatim>\<open>key_value_file.cpp\<close>, \<^verbatim>\<open>config_file.cpp\<close>,
    \<^verbatim>\<open>state_store.cpp\<close>. The write of the state file is the list of the file systems after each system call, so
    that a kill between two of them is one of the listed states.
  \<^item> \<open>ServerUrl\<close>, \<open>SupportedFormats\<close>, \<open>DeviceSpec\<close>, \<open>CliOptions\<close>, \<open>Cli\<close>, \<open>CliParse\<close>:
    \<^verbatim>\<open>cli.cpp\<close>, \<^verbatim>\<open>supported_formats.cpp\<close> and the registry of \<^verbatim>\<open>audio_sink.cpp\<close>; \<open>parse_options\<close> is the whole of
    \<^verbatim>\<open>parse_options()\<close> by its stages. \<open>Usage\<close> is what \<^verbatim>\<open>--help\<close> and \<^verbatim>\<open>--version\<close> print.
    \<open>PersistenceProvider\<close>: the library's side of the state file, \<^verbatim>\<open>CliPersistenceProvider\<close> of \<^verbatim>\<open>main.cpp\<close>.
  \<^item> \<open>ControlProtocol\<close>, \<open>ControlWire\<close>, \<open>ControlServer\<close>, \<open>ControlClient\<close>, \<open>ControlOpen\<close>,
    \<open>Dispatcher\<close>: \<^verbatim>\<open>control_common.cpp\<close>, \<^verbatim>\<open>control_socket.cpp\<close>, \<^verbatim>\<open>control_client.cpp\<close> and the two handlers of
    \<^verbatim>\<open>main.cpp\<close>. \<open>Daemon\<close>: \<^verbatim>\<open>daemon.cpp\<close>. \<open>ControlOpen\<close> also runs several processes on one path.
  \<^item> \<open>MdnsCommon\<close>, \<open>MdnsService\<close>, \<open>MdnsMachine\<close>: \<^verbatim>\<open>mdns_common.cpp\<close>, \<^verbatim>\<open>mdns_dnssd.cpp\<close>. \<open>Outbound\<close>,
    \<open>OutboundMode\<close>: \<^verbatim>\<open>outbound.cpp\<close> and the \<^verbatim>\<open>OutboundMode\<close> of \<^verbatim>\<open>main.cpp\<close>.
  \<^item> \<open>PcmVolume\<close>, \<open>RampStream\<close>, \<open>PcmRing\<close>, \<open>SinkRecovery\<close>, \<open>SinkContract\<close>: \<^verbatim>\<open>pcm_volume.cpp\<close>,
    \<^verbatim>\<open>pcm_ring.cpp\<close>, \<^verbatim>\<open>sink_recovery.cpp\<close> and the contract of \<^verbatim>\<open>AudioSink::write\<close>.
  \<^item> The outputs: \<open>NullSink\<close> (\<^verbatim>\<open>null_sink.cpp\<close>), \<open>AlsaSink\<close> (\<^verbatim>\<open>alsa_sink.cpp\<close>), \<open>PullSink\<close> (what the two
    pulling sinks share), \<open>PortAudioDevice\<close> and \<open>PortAudioSink\<close> (\<^verbatim>\<open>portaudio_sink.cpp\<close>), \<open>PipeWireGraph\<close> and
    \<open>PipeWireSink\<close> (\<^verbatim>\<open>pipewire_sink.cpp\<close>), \<open>PulseServer\<close> and \<open>PulseSink\<close> (\<^verbatim>\<open>pulse_sink.cpp\<close>). \<open>DeviceListing\<close> is what \<^verbatim>\<open>-l\<close> prints. A class's members
    are a record, a method an operation on it, and a write that waits with the mutex released is split into its
    turns, so that anything may run between two of them.
  \<^item> \<open>LineSense\<close>, \<open>AlsaSource\<close>: \<^verbatim>\<open>alsa_source.cpp\<close>. \<open>Hooks\<close>, \<open>StreamHooks\<close>: \<^verbatim>\<open>hooks.cpp\<close> and their wiring,
    reaping and flushing by \<^verbatim>\<open>main()\<close>. \<open>Listener\<close>: \<^verbatim>\<open>player_listener.cpp\<close>. \<open>LogFile\<close>: \<^verbatim>\<open>log.cpp\<close>.
  \<^item> \<open>MainTypes\<close>, \<open>MainRun\<close>, \<open>MainRules\<close>, \<open>MainSafety\<close>: \<^verbatim>\<open>main()\<close> itself as a trace of acts, composed of the
    operations above, and the watch that says what may happen when. A run ends by returning, its locals
    destroyed, or by \<^verbatim>\<open>std::terminate\<close> in the destructor of a capture whose device was refused.

  What the lemmas show. Of each component an invariant with its preservation by every operation
  (\<open>mdns_inv\<close>, \<open>ring_ok\<close>, \<open>hooks_ok\<close>, \<open>stored_ok\<close>, the stream invariants of the sinks, \<open>locks_ok\<close>), the
  behaviour of its operations on every branch, and above them the properties numbered C1 onwards, each
  next to the component it is about: the state file is replaced all at once and read back as it was held;
  the sinks that buffer (PortAudio, PipeWire, PulseAudio) are one queue of whole frames for every interleaving,
  call their library by its rules and give everything back; ALSA is called on an open handle alone, write
  included, and what it is given never jumps in gain; the ring under the pulling sinks answers every sequence of
  calls as the queue \<open>byte_queue\<close> does, which has no positions; recovery, retries, hooks and the shutdown are bounded; at most
  one player owns a control path, and a peer on it can do no more than its requests say and is told \<open>ok\<close> exactly when
  that was done; a run goes back to the last server it shook hands with; the options a run
  starts with are in range and layered; discovery frees every ref once and recovers; main keeps its order
  whether it returns or is aborted, and rotating the log loses no line. Some properties state what the code does where that is
  not what it means to: \<open>waiting_write_sets_new_streams_gain\<close>, \<open>waiting_write_disturbs_the_new_stream\<close>,
  \<open>failed_capture_aborts_shutdown\<close> (and \<open>main_keeps_its_order\<close>, for what then stays undestroyed),
  \<open>redaction_hides_the_secret\<close> (a stray \<open>://\<close> shows the whole userinfo), and the lemmas
  \<open>newline_in_value_corrupts_store\<close> (why \<open>provider_remembers\<close> asks for texts of one line),
  \<open>scheme_refusal_shows_the_password\<close>, \<open>disabled_player_is_added\<close> and
  \<open>taken_pidfile_hides_the_config\<close>.

  Interfaces. \<open>dictionary\<close> (a sorted map; interpreted by \<open>std_map\<close>), \<open>byte_fifo\<close> (a bounded queue; by \<open>ring\<close>),
  \<open>delay_schedule\<close> (doubling waits between two bounds; by \<open>retry_schedule\<close> of the dialler and \<open>rescan_schedule\<close>
  of the sink recovery), \<open>audio_sink\<close> (a write consumes whole frames; by \<open>alsa\<close> and \<open>null_sink\<close>) and
  \<open>ring_stream\<close> (what the operations of a pulling sink keep; by \<open>portaudio\<close> and \<open>pipewire\<close>). The clients'
  lemmas are proved in the locales, and the properties of the components rest on the interpretations.

  What is outside is an input. System calls, the device libraries, the sendspin-cpp client, \<^verbatim>\<open>getopt_long\<close>,
  \<^verbatim>\<open>strtod\<close>, \<^verbatim>\<open>inet_pton\<close>, clocks and the C library's volume curve are parameters or answers in the records
  of the operations (\<open>cli_host\<close>, \<open>syscalls\<close>, \<open>main_world\<close>, \<open>pa_host\<close> and the like); where a property needs
  documented behaviour of one, it is a hypothesis of it, with a witness. An answer is chosen by the environment
  at each call, so a proof covers every failure at every call.

  Bounds. Integers that can wrap are words (\<open>u8\<close> to \<open>u64\<close>); sizes and clock values are \<open>nat\<close> and \<open>int\<close>, with the
  wrap-around of \<^verbatim>\<open>size_t\<close> written out in the ring. There is no fuel: loops over answers recurse on the list of
  answers, which a run that ends has finitely many of, the loops over buffers and strings have a measure, and
  the drain at shutdown is bounded by its own clock (fifty rounds). The turns of \<^verbatim>\<open>main()\<close>'s loop are a number,
  the one after which a signal arrived.

  Not modelled. The presentation times reported to the library and their \<^verbatim>\<open>double\<close> arithmetic (PortAudio's DAC
  time, the RMS of a captured block, which is the parameter \<open>loud\<close>); data races below the level of the mutexes
  and atomics (each critical section and each atomic access is one step, a lock guard its bounds); the wording
  of most log lines outside \<^verbatim>\<open>main()\<close> and \<^verbatim>\<open>log.cpp\<close>, and of the libraries' own errors; what \<^verbatim>\<open>reset_getopt\<close>
  rewinds inside \<^verbatim>\<open>getopt_long\<close>; the scripts, the packaging and the tests.
\<close>

end
